(* ===== verification/Prelude.thy ===== *)
theory Prelude
  imports Main "HOL-Library.AList" "HOL-Library.Multiset" "HOL-Library.Char_ord"
    "HOL-Library.List_Lexorder"
begin

text \<open>
  Shared base of the development: the status codes and failures of the engine as values, the
  type of a computation that may throw, the model of \<open>std::unordered_map\<close> as an association
  list with distinct keys, and the list lemmas that several components use.

  A function of the source that can throw is modelled as a function that returns a pair of an
  \<open>exn + 'a\<close> (what the caller observes) and the state at that moment, so that the effects
  made before the throw stay visible.
\<close>

section \<open>Status codes and failures\<close>

datatype as_status =
    ALLSPARK_SUCCESS
  | ALLSPARK_UNKNOWN_ERROR
  | ALLSPARK_PARAM_ERROR
  | ALLSPARK_IO_ERROR
  | ALLSPARK_MEMORY_ERROR
  | ALLSPARK_RUNTIME_ERROR
  | ALLSPARK_EXCEED_LIMIT_ERROR
  | ALLSPARK_INVALID_CALL_ERROR
  | ALLSPARK_EMPTY_REQUEST
  | ALLSPARK_ILLEGAL_REQUEST_ID
  | ALLSPARK_CACHE_MEMORY_OUT
  | ALLSPARK_REQUEST_DENIED
  | ALLSPARK_CHUNK_PREFILL
  | ALLSPARK_DEPRECATED
  | ALLSPARK_LORA_NUM_EXCEED_LIMIT_ERROR
  | ALLSPARK_LORA_RANK_EXCEED_LIMIT_ERROR
  | ALLSPARK_LORA_NOT_FOUND
  | ALLSPARK_LORA_ALREADY_LOADED
  | ALLSPARK_LORA_IN_USE
  | ALLSPARK_STREAMING

text \<open>
  How a call can end other than by returning: \<open>AS_THROW\<close> of a status, an \<open>AsException\<close>
  that carries some other text, a failed \<open>AS_ENFORCE\<close> (which logs at level FATAL and so aborts the process), the
  \<open>std::out_of_range\<close> of a failed \<open>at\<close> or of a number too large for
  \<open>std::stoi\<close>, its \<open>std::invalid_argument\<close>, the \<open>std::length_error\<close> of a vector
  that would be too long, and a read or write that the language leaves undefined (a vector index out of range, a null dereference). \<open>Diverges\<close> is a loop
  that never ends. \<open>StdException\<close> is what remains of an exception that was caught by reference and
  thrown again by value: a plain \<open>std::exception\<close>, without its message.
\<close>

datatype exn =
    AsException as_status
  | AsMessage string
  | EnforceFailed
  | StdOutOfRange
  | StdInvalidArgument
  | StdLengthError
  | UndefinedBehaviour
  | Diverges
  | StdException

text \<open>What a handler for \<open>std::exception\<close> catches.\<close>

fun is_exception :: "exn \<Rightarrow> bool" where
  "is_exception (AsException st) = True"
| "is_exception (AsMessage msg) = True"
| "is_exception StdOutOfRange = True"
| "is_exception StdInvalidArgument = True"
| "is_exception StdLengthError = True"
| "is_exception StdException = True"
| "is_exception EnforceFailed = False"
| "is_exception UndefinedBehaviour = False"
| "is_exception Diverges = False"

type_synonym ('a, 's) outcome = "(exn + 'a) \<times> 's"

type_synonym addr = nat

abbreviation ret :: "'a \<Rightarrow> 's \<Rightarrow> ('a, 's) outcome" where
  "ret x s \<equiv> (Inr x, s)"

abbreviation throw :: "as_status \<Rightarrow> 's \<Rightarrow> ('a, 's) outcome" where
  "throw e s \<equiv> (Inl (AsException e), s)"

text \<open>Sequencing of computations whose failure ends the process, so that only the result and the
  state of a success matter.\<close>

fun bindE :: "exn + 'a \<Rightarrow> ('a \<Rightarrow> exn + 'b) \<Rightarrow> exn + 'b" where
  "bindE (Inl e) f = Inl e"
| "bindE (Inr x) f = f x"

definition enforce :: "bool \<Rightarrow> exn + 'a \<Rightarrow> exn + 'a" where
  "enforce b k = (if b then k else Inl EnforceFailed)"

definition defined_if :: "bool \<Rightarrow> exn + 'a \<Rightarrow> exn + 'a" where
  "defined_if b k = (if b then k else Inl UndefinedBehaviour)"

lemma bindE_eq_Inr [simp]: "bindE m f = Inr y \<longleftrightarrow> (\<exists>x. m = Inr x \<and> f x = Inr y)"
  by (cases m) auto

lemma enforce_True [simp]: "enforce True k = k" by (simp add: enforce_def)

lemma defined_if_True [simp]: "defined_if True k = k" by (simp add: defined_if_def)

lemma enforce_eq_Inr [simp]: "enforce b k = Inr y \<longleftrightarrow> b \<and> k = Inr y" by (simp add: enforce_def)

lemma defined_if_eq_Inr [simp]: "defined_if b k = Inr y \<longleftrightarrow> b \<and> k = Inr y"
  by (simp add: defined_if_def)

text \<open>Sequencing of computations that keep the state they leave behind when they throw, and a loop
  of them over a list.\<close>

fun andThen :: "('a, 's) outcome \<Rightarrow> ('a \<Rightarrow> 's \<Rightarrow> ('b, 's) outcome) \<Rightarrow> ('b, 's) outcome" where
  "andThen (Inl e, s) f = (Inl e, s)"
| "andThen (Inr x, s) f = f x s"

lemma andThen_eq_ret [simp]:
  "andThen m f = (Inr y, t) \<longleftrightarrow> (\<exists>x s. m = (Inr x, s) \<and> f x s = (Inr y, t))"
  by (cases m; cases "fst m") auto

fun forEach :: "('x \<Rightarrow> 's \<Rightarrow> (unit, 's) outcome) \<Rightarrow> 'x list \<Rightarrow> 's \<Rightarrow> (unit, 's) outcome" where
  "forEach f [] s = ret () s"
| "forEach f (x # xs) s = andThen (f x s) (\<lambda>_. forEach f xs)"

text \<open>Facts that unfold the one-line accessors and guards of a component.\<close>

named_theorems model_defs

section \<open>Lists\<close>

lemma distinct_map_filter_out:
  "distinct (map f xs) \<Longrightarrow> distinct (map f (filter P xs))"
  by (induction xs) auto

lemma nth_upd: "xs[i := v] ! j = (if i = j \<and> j < length xs then v else xs ! j)"
  by (cases "i = j") (auto simp: list_update_beyond)

lemma take_drop_split: "n \<le> length xs \<Longrightarrow> xs = take n xs @ drop n xs"
  by simp

lemma mset_take_drop: "mset (take n xs) + mset (drop n xs) = mset xs"
  by (metis append_take_drop_id mset_append)

section \<open>Numbers as text\<close>

text \<open>\<open>std::to_string\<close> and the stream output of an integer: decimal digits.\<close>

definition digit_char :: "nat \<Rightarrow> char" where
  "digit_char d = char_of (48 + d)"

fun show_nat :: "nat \<Rightarrow> string" where
  "show_nat n = (if n < 10 then [digit_char n] else show_nat (n div 10) @ [digit_char (n mod 10)])"

declare show_nat.simps [simp del]

definition show_int :: "int \<Rightarrow> string" where
  "show_int i = (if i < 0 then CHR ''-'' # show_nat (nat (- i)) else show_nat (nat i))"

definition is_digit :: "char \<Rightarrow> bool" where
  "is_digit c = (48 \<le> (of_char c :: nat) \<and> (of_char c :: nat) \<le> 57)"

definition digit_val :: "char \<Rightarrow> nat" where
  "digit_val c = (of_char c :: nat) - 48"

text \<open>The value of a string of digits, read from the left.\<close>

definition read_nat :: "string \<Rightarrow> nat" where
  "read_nat cs = foldl (\<lambda>n c. 10 * n + digit_val c) 0 cs"

lemma of_char_digit_char: "d < 10 \<Longrightarrow> (of_char (digit_char d) :: nat) = 48 + d"
  by (simp add: digit_char_def of_char_of)

lemma digit_val_digit_char [simp]: "d < 10 \<Longrightarrow> digit_val (digit_char d) = d"
  by (simp add: digit_val_def of_char_digit_char)

lemma is_digit_digit_char [simp]: "d < 10 \<Longrightarrow> is_digit (digit_char d)"
  by (simp add: is_digit_def of_char_digit_char)

lemma show_nat_not_Nil [simp]: "show_nat n \<noteq> []"
  by (subst show_nat.simps) simp

lemma show_nat_digits: "c \<in> set (show_nat n) \<Longrightarrow> is_digit c"
proof (induction n rule: show_nat.induct)
  case (1 n)
  then show ?case
    by (cases "n < 10") (auto simp: show_nat.simps [of n])
qed

lemma read_show_nat [simp]: "read_nat (show_nat n) = n"
proof (induction n rule: show_nat.induct)
  case (1 n)
  then show ?case
    by (cases "n < 10") (auto simp: show_nat.simps [of n] read_nat_def)
qed

lemma show_nat_inject [simp]: "show_nat m = show_nat n \<longleftrightarrow> m = n"
  by (metis read_show_nat)

section \<open>Unordered maps as association lists\<close>

text \<open>
  \<open>AList.update\<close> is \<open>m[k] = v\<close>, \<open>AList.delete\<close> is \<open>m.erase(k)\<close>,
  \<open>map_of\<close> is \<open>m.find(k)\<close> and \<open>length\<close> is \<open>m.size()\<close>; the keys of a
  map are distinct.
\<close>

abbreviation wf_map :: "('k \<times> 'v) list \<Rightarrow> bool" where
  "wf_map m \<equiv> distinct (map fst m)"

lemma wf_map_update [simp, intro]: "wf_map m \<Longrightarrow> wf_map (AList.update k v m)"
  by (rule distinct_update)

lemma wf_map_delete [simp, intro]: "wf_map m \<Longrightarrow> wf_map (AList.delete k m)"
  by (rule distinct_delete)

lemma alist_map_of_update [simp]: "map_of (AList.update k v m) = (map_of m)(k \<mapsto> v)"
  by (rule update_conv')

lemma alist_map_of_delete [simp]: "map_of (AList.delete k m) = (map_of m)(k := None)"
  by (rule delete_conv')

lemma length_update_fresh [simp]:
  "map_of m k = None \<Longrightarrow> length (AList.update k v m) = Suc (length m)"
  by (induction m) (auto split: if_splits)

lemma length_update_present [simp]:
  "map_of m k = Some w \<Longrightarrow> length (AList.update k v m) = length m"
  by (induction m) (auto split: if_splits)

lemma update_fresh: "map_of m k = None \<Longrightarrow> AList.update k v m = m @ [(k, v)]"
  by (induction m) (auto split: if_splits)

lemma delete_absent: "map_of m k = None \<Longrightarrow> AList.delete k m = m"
  by (induction m) (auto simp: AList.delete_eq split: if_splits)

lemma length_delete_present [simp]:
  "wf_map m \<Longrightarrow> map_of m k = Some w \<Longrightarrow> Suc (length (AList.delete k m)) = length m"
proof (induction m)
  case Nil
  then show ?case by simp
next
  case (Cons a m)
  obtain k' v' where a: "a = (k', v')" by (cases a)
  show ?case
  proof (cases "k' = k")
    case True
    have "map_of m k = None"
      using Cons.prems(1) a True by (auto simp: map_of_eq_None_iff)
    then have "AList.delete k m = m" by (rule delete_absent)
    with a True show ?thesis by (simp add: AList.delete_eq)
  next
    case False
    with Cons a show ?thesis by (simp add: AList.delete_eq)
  qed
qed

lemma alist_length_delete_le: "length (AList.delete k m) \<le> length m"
  by (simp add: AList.delete_eq)

lemma set_delete_wf: "wf_map m \<Longrightarrow> set (AList.delete k m) = {p \<in> set m. fst p \<noteq> k}"
  by (auto simp: AList.delete_eq)

end
