(* ===== verification/Common_Types.thy ===== *)
theory Common_Types
  imports Prelude
begin

text \<open>
  The enumerations and small value types of \<open>common/common.h\<close> and the tensor shape of
  \<open>core/tensor/shape.cpp\<close>. The enumerations carry the numbers of the interface definition,
  which the comparison of devices uses.
\<close>

section \<open>Data types and devices\<close>

datatype data_type =
    DATATYPE_UNDEFINED | FLOAT32 | FLOAT16 | INT8 | INT16 | INT32 | INT64 | STRING | BOOL
  | BFLOAT16 | UINT8 | FLOAT8E4M3 | FLOAT8E5M2 | POINTER

datatype device_type =
    DEVICETYPE_UNDEFINED | CPU | CUDA | COMPILE_TIME_MAX_DEVICE_TYPES | CPU_PINNED

datatype data_mode = DENSE | CSC | ELL

text \<open>\<open>SizeofType\<close>: bytes of one element; a pointer has eight.\<close>

fun SizeofType :: "data_type \<Rightarrow> nat" where
  "SizeofType POINTER = 8"
| "SizeofType INT64 = 8"
| "SizeofType FLOAT32 = 4"
| "SizeofType INT32 = 4"
| "SizeofType FLOAT16 = 2"
| "SizeofType BFLOAT16 = 2"
| "SizeofType INT16 = 2"
| "SizeofType INT8 = 1"
| "SizeofType UINT8 = 1"
| "SizeofType DATATYPE_UNDEFINED = 0"
| "SizeofType _ = 1"

fun DataTypeToString :: "data_type \<Rightarrow> string" where
  "DataTypeToString DATATYPE_UNDEFINED = ''DataType::DATATYPE_UNDEFINED''"
| "DataTypeToString FLOAT32 = ''DataType::FLOAT32''"
| "DataTypeToString FLOAT16 = ''DataType::FLOAT16''"
| "DataTypeToString INT8 = ''DataType::INT8''"
| "DataTypeToString INT16 = ''DataType::INT16''"
| "DataTypeToString INT32 = ''DataType::INT32''"
| "DataTypeToString INT64 = ''DataType::INT64''"
| "DataTypeToString STRING = ''DataType::STRING''"
| "DataTypeToString BOOL = ''DataType::BOOL''"
| "DataTypeToString BFLOAT16 = ''DataType::BFLOAT16''"
| "DataTypeToString UINT8 = ''DataType::UINT8''"
| "DataTypeToString POINTER = ''DataType::POINTER''"
| "DataTypeToString _ = ''UNKNOWN''"

fun DeviceTypeToString :: "device_type \<Rightarrow> string" where
  "DeviceTypeToString DEVICETYPE_UNDEFINED = ''DEVICETYPE_UNDEFINED''"
| "DeviceTypeToString CPU = ''CPU''"
| "DeviceTypeToString CUDA = ''CUDA''"
| "DeviceTypeToString COMPILE_TIME_MAX_DEVICE_TYPES = ''COMPILE_TIME_MAX_DEVICE_TYPES''"
| "DeviceTypeToString CPU_PINNED = ''CPU_PINNED''"

definition DataModeIsSparse :: "data_mode \<Rightarrow> bool" where
  "DataModeIsSparse m = (m = CSC \<or> m = ELL)"

lemma SizeofType_le: "SizeofType t \<le> 8"
  by (cases t) auto

text \<open>The numbers of the enumeration order the device types.\<close>

fun device_type_number :: "device_type \<Rightarrow> nat" where
  "device_type_number DEVICETYPE_UNDEFINED = 0"
| "device_type_number CPU = 1"
| "device_type_number CUDA = 2"
| "device_type_number COMPILE_TIME_MAX_DEVICE_TYPES = 3"
| "device_type_number CPU_PINNED = 4"

lemma device_type_number_inj [simp]: "device_type_number a = device_type_number b \<longleftrightarrow> a = b"
  by (cases a; cases b) auto

instantiation device_type :: linorder
begin
definition less_eq_device_type :: "device_type \<Rightarrow> device_type \<Rightarrow> bool" where
  "a \<le> b \<longleftrightarrow> device_type_number a \<le> device_type_number b"
definition less_device_type :: "device_type \<Rightarrow> device_type \<Rightarrow> bool" where
  "a < b \<longleftrightarrow> device_type_number a < device_type_number b"
instance
  by standard (auto simp: less_eq_device_type_def less_device_type_def)
end

section \<open>Devices and ranks\<close>

datatype as_device = AsDevice (dev_type: device_type) (dev_id: int)

definition as_device_less :: "as_device \<Rightarrow> as_device \<Rightarrow> bool" where
  "as_device_less a b =
     (if dev_type a = dev_type b then dev_id a < dev_id b else dev_type a < dev_type b)"

definition as_device_eq :: "as_device \<Rightarrow> as_device \<Rightarrow> bool" where
  "as_device_eq a b = (dev_type a = dev_type b \<and> dev_id a = dev_id b)"

definition as_device_greater :: "as_device \<Rightarrow> as_device \<Rightarrow> bool" where
  "as_device_greater a b =
     (if dev_type a = dev_type b then dev_id a > dev_id b else dev_type a > dev_type b)"

text \<open>
  The comparison of the source is the strict part of a linear order, so it may key a
  \<open>std::map\<close> (the registry of the allocators does).
\<close>

instantiation as_device :: linorder
begin
definition less_as_device :: "as_device \<Rightarrow> as_device \<Rightarrow> bool" where
  "a < b \<longleftrightarrow> as_device_less a b"
definition less_eq_as_device :: "as_device \<Rightarrow> as_device \<Rightarrow> bool" where
  "a \<le> b \<longleftrightarrow> as_device_less a b \<or> as_device_eq a b"
instance
proof
  fix x y z :: as_device
  show "(x < y) = (x \<le> y \<and> \<not> y \<le> x)"
    by (auto simp: less_as_device_def less_eq_as_device_def as_device_less_def as_device_eq_def
        split: if_splits)
  show "x \<le> x"
    by (simp add: less_eq_as_device_def as_device_eq_def)
  show "x \<le> y \<Longrightarrow> y \<le> z \<Longrightarrow> x \<le> z"
    by (auto simp: less_eq_as_device_def as_device_less_def as_device_eq_def split: if_splits)
  show "x \<le> y \<Longrightarrow> y \<le> x \<Longrightarrow> x = y"
    by (cases x; cases y)
      (auto simp: less_eq_as_device_def as_device_less_def as_device_eq_def split: if_splits)
  show "x \<le> y \<or> y \<le> x"
    by (auto simp: less_eq_as_device_def as_device_less_def as_device_eq_def)
qed
end

datatype rank_info = RankInfo (rank_id: int) (rank_size: int)

definition rank_info_eq :: "rank_info \<Rightarrow> rank_info \<Rightarrow> bool" where
  "rank_info_eq a b = (rank_size a = rank_size b \<and> rank_id a = rank_id b)"

definition rank_info_less :: "rank_info \<Rightarrow> rank_info \<Rightarrow> bool" where
  "rank_info_less a b =
     (rank_size a * rank_size a + rank_id a < rank_size b * rank_size b + rank_id b)"

text \<open>A rank lies inside its group.\<close>

definition rank_valid :: "rank_info \<Rightarrow> bool" where
  "rank_valid r \<longleftrightarrow> 0 \<le> rank_id r \<and> rank_id r < rank_size r"

lemma square_gap:
  fixes s t :: int
  assumes "0 \<le> s" "s < t"
  shows "s * s + s < t * t"
proof -
  from assms have "(s + 1) * (s + 1) \<le> t * t" by (intro mult_mono) auto
  moreover have "(s + 1) * (s + 1) = s * s + s + (s + 1)" by (simp add: algebra_simps)
  ultimately show ?thesis using assms by linarith
qed

lemma rank_info_less_size:
  assumes "rank_valid a" "rank_valid b" "rank_size a < rank_size b"
  shows "rank_info_less a b"
proof -
  have "rank_size a * rank_size a + rank_size a < rank_size b * rank_size b"
    using assms by (intro square_gap) (auto simp: rank_valid_def)
  with assms show ?thesis by (simp add: rank_info_less_def rank_valid_def)
qed

section \<open>Layer numbers in weight names\<close>

text \<open>The pieces that repeated \<open>std::getline(ss, temp, '.')\<close> delivers.\<close>

fun split_dots :: "string \<Rightarrow> string list" where
  "split_dots [] = []"
| "split_dots (c # cs) =
     (if c = CHR ''.'' then [] # split_dots cs
      else case split_dots cs of [] \<Rightarrow> [[c]] | w # ws \<Rightarrow> (c # w) # ws)"

text \<open>\<open>std::stoi\<close> on a string of digits.\<close>

definition stoi_digits :: "string \<Rightarrow> exn + int" where
  "stoi_digits t =
     (if t = [] then Inl StdInvalidArgument
      else if read_nat t > 2147483647 then Inl StdOutOfRange
      else Inr (int (read_nat t)))"

text \<open>
  The first piece of the name that consists of digits only, as a number; \<open>-1\<close> if there is
  none. An empty piece has no character that is not a digit, so it is taken too.
\<close>

fun first_number :: "string list \<Rightarrow> exn + int" where
  "first_number [] = Inr (- 1)"
| "first_number (t # ts) = (if list_all is_digit t then stoi_digits t else first_number ts)"

definition get_layer_num :: "string \<Rightarrow> exn + int" where
  "get_layer_num str = first_number (split_dots str)"

lemma split_dots_no_dot:
  "CHR ''.'' \<notin> set w \<Longrightarrow> w \<noteq> [] \<Longrightarrow> split_dots w = [w]"
proof (induction w)
  case Nil
  then show ?case by simp
next
  case (Cons c w)
  then show ?case by (cases w) auto
qed

lemma split_dots_append:
  "CHR ''.'' \<notin> set w \<Longrightarrow> split_dots (w @ CHR ''.'' # rest) = w # split_dots rest"
  by (induction w) auto

section \<open>Shapes\<close>

text \<open>
  The dimensions of a tensor. The counts are unbounded here: the source multiplies in
  \<open>int64_t\<close>, whose overflow the language leaves undefined. An index is taken from the
  end when it is negative, and an index outside the vector is undefined behaviour.
\<close>

type_synonym shape = "int list"

definition Shape_Size :: "shape \<Rightarrow> int" where
  "Shape_Size s = int (length s)"

definition Shape_at :: "shape \<Rightarrow> int \<Rightarrow> exn + int" where
  "Shape_at s index =
     (let j = (if index < 0 then index + int (length s) else index)
      in if 0 \<le> j \<and> j < int (length s) then Inr (s ! nat j) else Inl UndefinedBehaviour)"

text \<open>The loop of \<open>Count(start, end)\<close>, for a start that is not negative.\<close>

function Shape_Count_loop :: "shape \<Rightarrow> nat \<Rightarrow> nat \<Rightarrow> int \<Rightarrow> exn + int" where
  "Shape_Count_loop s i e cnt =
     (if i < e then
        (if i < length s then Shape_Count_loop s (Suc i) e (cnt * s ! i)
         else Inl UndefinedBehaviour)
      else Inr cnt)"
  by pat_completeness auto
termination
  by (relation "measure (\<lambda>(s, i, e, cnt). e - i)") auto

declare Shape_Count_loop.simps [simp del]

definition Shape_Count_range :: "shape \<Rightarrow> nat \<Rightarrow> nat \<Rightarrow> exn + int" where
  "Shape_Count_range s start e = Shape_Count_loop s start e 1"

definition Shape_Count :: "shape \<Rightarrow> nat \<Rightarrow> exn + int" where
  "Shape_Count s start = (if length s \<noteq> 0 then Shape_Count_range s start (length s) else Inr 0)"

definition Shape_Append :: "shape \<Rightarrow> int \<Rightarrow> shape" where
  "Shape_Append s axis = s @ [axis]"

fun Shape_rest_string :: "int list \<Rightarrow> string" where
  "Shape_rest_string [] = []"
| "Shape_rest_string (d # ds) = '', '' @ show_int d @ Shape_rest_string ds"

definition Shape_ToString :: "shape \<Rightarrow> string" where
  "Shape_ToString s =
     ''['' @ (case s of [] \<Rightarrow> [] | d # ds \<Rightarrow> show_int d @ Shape_rest_string ds) @ '']''"

lemma Shape_Count_loop_prod:
  "e \<le> length s \<Longrightarrow> i \<le> e \<Longrightarrow>
   Shape_Count_loop s i e cnt = Inr (cnt * prod_list (drop i (take e s)))"
proof (induction s i e cnt rule: Shape_Count_loop.induct)
  case (1 s i e cnt)
  show ?case
  proof (cases "i < e")
    case True
    then have "drop i (take e s) = s ! i # drop (Suc i) (take e s)"
      using 1(2) by (simp flip: Cons_nth_drop_Suc)
    with True 1 show ?thesis
      by (subst Shape_Count_loop.simps) (simp add: mult.assoc)
  next
    case False
    with 1 show ?thesis by (subst Shape_Count_loop.simps) simp
  qed
qed

section \<open>Properties\<close>

lemma first_number_skip:
  "\<forall>w\<in>set ws. \<not> list_all is_digit w \<Longrightarrow> first_number (ws @ ts) = first_number ts"
  by (induction ws) auto

lemma split_dots_pieces:
  "\<forall>w\<in>set ws. CHR ''.'' \<notin> set w \<Longrightarrow>
   split_dots (concat (map (\<lambda>w. w @ ''.'') ws) @ rest) = ws @ split_dots rest"
  by (induction ws) (simp_all add: split_dots_append)

lemma dot_not_in_show_nat [simp]: "CHR ''.'' \<notin> set (show_nat n)"
  using show_nat_digits [of "CHR ''.''" n] by (auto simp: is_digit_def)

text \<open>
  The layer number of a weight name such as \<open>decoder.layer.12.attention\<close>: when no piece in
  front of the number consists of digits only (in particular none is empty), the number is read back
  as it was written.
\<close>

theorem get_layer_num_reads:
  assumes "\<forall>w\<in>set ws. CHR ''.'' \<notin> set w \<and> \<not> list_all is_digit w" "n \<le> 2147483647"
  shows "get_layer_num (concat (map (\<lambda>w. w @ ''.'') ws) @ show_nat n @ ''.'' @ rest) = Inr (int n)"
proof -
  have "list_all is_digit (show_nat n)" using show_nat_digits by (auto simp: list_all_iff)
  with assms show ?thesis
    by (simp add: get_layer_num_def split_dots_pieces split_dots_append first_number_skip stoi_digits_def)
qed

theorem get_layer_num_reads_witness: "get_layer_num ''decoder.layer.12.attention.weight'' = Inr 12"
  using get_layer_num_reads [of "[''decoder'', ''layer'']" 12 "''attention.weight''"]
  by (simp add: is_digit_def show_nat.simps digit_char_def char_of_def bit_0)

text \<open>
  The key \<open>rank_size * rank_size + rank_id\<close> by which ranks are ordered is the
  lexicographic order of size and position for ranks that lie inside their groups, so ordered
  containers never identify two different ranks.
\<close>

theorem rank_info_less_lexicographic:
  assumes "rank_valid a" "rank_valid b"
  shows "(rank_info_less a b \<longleftrightarrow>
      rank_size a < rank_size b \<or> (rank_size a = rank_size b \<and> rank_id a < rank_id b)) \<and>
    (\<not> rank_info_less a b \<and> \<not> rank_info_less b a \<longleftrightarrow> rank_info_eq a b)"
proof (intro conjI)
  have main: "rank_info_less x y \<longleftrightarrow>
      rank_size x < rank_size y \<or> (rank_size x = rank_size y \<and> rank_id x < rank_id y)"
    if "rank_valid x" "rank_valid y" for x y
  proof (cases "rank_size x" "rank_size y" rule: linorder_cases)
    case less
    then show ?thesis using that rank_info_less_size by simp
  next
    case equal
    then show ?thesis by (simp add: rank_info_less_def)
  next
    case greater
    then have "rank_info_less y x" using that by (intro rank_info_less_size)
    then have "\<not> rank_info_less x y" by (simp add: rank_info_less_def)
    with greater show ?thesis by simp
  qed
  show "rank_info_less a b \<longleftrightarrow> rank_size a < rank_size b \<or> (rank_size a = rank_size b \<and> rank_id a < rank_id b)"
    using assms by (rule main)
  show "\<not> rank_info_less a b \<and> \<not> rank_info_less b a \<longleftrightarrow> rank_info_eq a b"
    unfolding main [OF assms] main [OF assms(2,1)] rank_info_eq_def by linarith
qed

theorem rank_info_less_lexicographic_witness:
  "rank_info_less (RankInfo 1 2) (RankInfo 0 4) \<and> \<not> rank_info_eq (RankInfo 1 2) (RankInfo 0 4)"
  using rank_info_less_lexicographic [of "RankInfo 1 2" "RankInfo 0 4"] by (auto simp: rank_valid_def)

end
