(* ===== verification/Frame_Manager.thy ===== *)
theory Frame_Manager
  imports Common_Types
begin

text \<open>
  The cache frame managers of \<open>runtime/cache/frame_manager.cpp\<close>: pools of equally sized
  pieces of device memory. The memory comes from a device allocator, a parameter \<open>alloc\<close>
  of every operation that creates a frame: given a number of bytes and the state of the memory
  it delivers an address or fails. What a pool relies on is the locale \<open>device_allocator\<close>.
  \<open>std::queue\<close> is a list whose head is its front.
\<close>

section \<open>The device allocator a pool relies on\<close>

type_synonym 'm allocator = "int \<Rightarrow> 'm \<Rightarrow> addr option \<times> 'm"

locale device_allocator =
  fixes alloc :: "'m allocator"
    and live :: "'m \<Rightarrow> addr set"
    and ok :: "'m \<Rightarrow> bool"
  assumes alloc_Some: "ok m \<Longrightarrow> 0 < n \<Longrightarrow> alloc n m = (Some a, m') \<Longrightarrow>
      a \<notin> live m \<and> live m' = insert a (live m)"
    and alloc_None: "ok m \<Longrightarrow> 0 < n \<Longrightarrow> alloc n m = (None, m') \<Longrightarrow> live m' = live m"
    and alloc_ok: "ok m \<Longrightarrow> 0 < n \<Longrightarrow> alloc n m = (r, m') \<Longrightarrow> ok m'"

section \<open>Frames\<close>

record cache_frame =
  frame_data :: addr
  frame_bytes :: int
  frame_tag :: string
  frame_device :: device_type

text \<open>
  \<open>CacheFrame::Create\<close> makes a \<open>DenseData\<close>, which allocates unless the size is 0
  (the pointer then stays null) and throws when the allocator fails; \<open>None\<close> is the throw.
\<close>

definition CacheFrame_Create ::
  "'m allocator \<Rightarrow> device_type \<Rightarrow> int \<Rightarrow> string \<Rightarrow> 'm \<Rightarrow> cache_frame option \<times> 'm" where
  "CacheFrame_Create alloc dev frame_size tag mem =
     (if frame_size = 0
      then (Some \<lparr>frame_data = 0, frame_bytes = 0, frame_tag = tag, frame_device = dev\<rparr>, mem)
      else case alloc frame_size mem of
        (None, mem') \<Rightarrow> (None, mem')
      | (Some p, mem') \<Rightarrow>
          (Some \<lparr>frame_data = p, frame_bytes = frame_size, frame_tag = tag, frame_device = dev\<rparr>,
           mem'))"

lemma CacheFrame_Create_bytes:
  "CacheFrame_Create alloc dev sz tag mem = (Some f, mem') \<Longrightarrow> frame_bytes f = sz"
  by (auto simp: CacheFrame_Create_def split: if_splits prod.splits option.splits)

section \<open>The default manager\<close>

record 'm default_fm =
  dfm_device_type :: device_type
  dfm_initialized :: bool
  dfm_occupied_frames :: "(addr \<times> cache_frame) list"
  dfm_free_frames :: "cache_frame list"
  dfm_frame_size :: int
  dfm_init_frames :: int
  dfm_grow_frames :: int
  dfm_mem :: 'm

definition dfm_new :: "device_type \<Rightarrow> int \<Rightarrow> int \<Rightarrow> 'm \<Rightarrow> 'm default_fm" where
  "dfm_new dev init grow mem =
     \<lparr>dfm_device_type = dev, dfm_initialized = False, dfm_occupied_frames = [],
      dfm_free_frames = [], dfm_frame_size = 0, dfm_init_frames = init,
      dfm_grow_frames = grow, dfm_mem = mem\<rparr>"

definition dfm_CountFreeFrame :: "'m default_fm \<Rightarrow> nat" where
  "dfm_CountFreeFrame fm = length (dfm_free_frames fm)"

definition dfm_CountOccupiedFrame :: "'m default_fm \<Rightarrow> nat" where
  "dfm_CountOccupiedFrame fm = length (dfm_occupied_frames fm)"

definition dfm_CountFrame :: "'m default_fm \<Rightarrow> nat" where
  "dfm_CountFrame fm = dfm_CountFreeFrame fm + dfm_CountOccupiedFrame fm"

lemmas dfm_counts = dfm_CountFrame_def dfm_CountFreeFrame_def dfm_CountOccupiedFrame_def

definition dfm_createFrame :: "'m allocator \<Rightarrow> 'm default_fm \<Rightarrow> bool \<times> 'm default_fm" where
  "dfm_createFrame alloc fm =
     (case CacheFrame_Create alloc (dfm_device_type fm) (dfm_frame_size fm)
             (''frame_'' @ show_nat (dfm_CountFrame fm)) (dfm_mem fm) of
        (None, mem') \<Rightarrow> (False, fm\<lparr>dfm_mem := mem'\<rparr>)
      | (Some frame, mem') \<Rightarrow>
          (True, fm\<lparr>dfm_free_frames := dfm_free_frames fm @ [frame], dfm_mem := mem'\<rparr>))"

text \<open>
  The loops that call \<open>createFrame\<close> a given number of times and stop at the first failure;
  the flag says whether all calls succeeded.
\<close>

fun dfm_create_times :: "'m allocator \<Rightarrow> nat \<Rightarrow> 'm default_fm \<Rightarrow> bool \<times> 'm default_fm" where
  "dfm_create_times alloc 0 fm = (True, fm)"
| "dfm_create_times alloc (Suc n) fm =
     (case dfm_createFrame alloc fm of
        (False, fm') \<Rightarrow> (False, fm')
      | (True, fm') \<Rightarrow> dfm_create_times alloc n fm')"

definition dfm_Init :: "'m allocator \<Rightarrow> int \<Rightarrow> 'm default_fm \<Rightarrow> (unit, 'm default_fm) outcome" where
  "dfm_Init alloc frame_size fm =
     (if dfm_initialized fm then ret () fm
      else if frame_size \<le> 0 then throw ALLSPARK_PARAM_ERROR fm
      else ret () (snd (dfm_create_times alloc (nat (dfm_init_frames fm))
                     (fm\<lparr>dfm_initialized := True, dfm_frame_size := frame_size\<rparr>))))"

lemma dfm_createFrame_count:
  "dfm_createFrame alloc fm = (True, fm') \<Longrightarrow> dfm_CountFrame fm' = Suc (dfm_CountFrame fm)"
  by (auto simp: dfm_createFrame_def dfm_counts split: prod.splits option.splits)

function dfm_grow_loop :: "'m allocator \<Rightarrow> nat \<Rightarrow> 'm default_fm \<Rightarrow> bool \<times> 'm default_fm" where
  "dfm_grow_loop alloc num_frames fm =
     (if dfm_CountFrame fm < num_frames then
        (case dfm_createFrame alloc fm of
           (False, fm') \<Rightarrow> (False, fm')
         | (True, fm') \<Rightarrow> dfm_grow_loop alloc num_frames fm')
      else (True, fm))"
  by pat_completeness auto
termination
proof (relation "measure (\<lambda>(alloc, num_frames, fm). num_frames - dfm_CountFrame fm)", goal_cases)
  case 1
  show ?case by simp
next
  case (2 alloc num_frames fm x fm')
  then have "dfm_CountFrame fm' = Suc (dfm_CountFrame fm)"
    by (metis (full_types) dfm_createFrame_count)
  with 2 show ?case by simp
qed

declare dfm_grow_loop.simps [simp del]

text \<open>A requested total of 0 stands for the largest \<open>size_t\<close>.\<close>

definition dfm_GrowUntil :: "'m allocator \<Rightarrow> nat \<Rightarrow> 'm default_fm \<Rightarrow> bool \<times> 'm default_fm" where
  "dfm_GrowUntil alloc num_frames fm =
     dfm_grow_loop alloc (if num_frames = 0 then 2 ^ 64 - 1 else num_frames) fm"

definition dfm_GrowBy :: "'m allocator \<Rightarrow> nat \<Rightarrow> 'm default_fm \<Rightarrow> bool \<times> 'm default_fm" where
  "dfm_GrowBy alloc num_frames fm = dfm_create_times alloc num_frames fm"

definition dfm_AllocFrame :: "'m allocator \<Rightarrow> 'm default_fm \<Rightarrow> cache_frame option \<times> 'm default_fm" where
  "dfm_AllocFrame alloc fm =
     (let fm1 = (if dfm_CountFreeFrame fm = 0
                 then snd (dfm_create_times alloc (nat (dfm_grow_frames fm)) fm) else fm)
      in case dfm_free_frames fm1 of
           [] \<Rightarrow> (None, fm1)
         | frame # rest \<Rightarrow>
             (Some frame,
              fm1\<lparr>dfm_free_frames := rest,
                  dfm_occupied_frames :=
                    AList.update (frame_data frame) frame (dfm_occupied_frames fm1)\<rparr>))"

text \<open>
  The overload that fills a vector: the frames written to its first places, whose number is the
  result. It stops at the first failure and keeps what it has.
\<close>

fun dfm_AllocFrames :: "'m allocator \<Rightarrow> nat \<Rightarrow> 'm default_fm \<Rightarrow> cache_frame list \<times> 'm default_fm" where
  "dfm_AllocFrames alloc 0 fm = ([], fm)"
| "dfm_AllocFrames alloc (Suc n) fm =
     (case dfm_AllocFrame alloc fm of
        (None, fm') \<Rightarrow> ([], fm')
      | (Some frame, fm') \<Rightarrow>
          (case dfm_AllocFrames alloc n fm' of (frames, fm'') \<Rightarrow> (frame # frames, fm'')))"

definition dfm_FreeFrame :: "cache_frame option \<Rightarrow> 'm default_fm \<Rightarrow> 'm default_fm" where
  "dfm_FreeFrame frame fm =
     (case frame of
        None \<Rightarrow> fm
      | Some f \<Rightarrow>
          (case map_of (dfm_occupied_frames fm) (frame_data f) of
             None \<Rightarrow> fm
           | Some _ \<Rightarrow>
               fm\<lparr>dfm_occupied_frames := AList.delete (frame_data f) (dfm_occupied_frames fm),
                  dfm_free_frames := dfm_free_frames fm @ [f]\<rparr>))"

fun dfm_FreeFrames :: "cache_frame option list \<Rightarrow> 'm default_fm \<Rightarrow> 'm default_fm" where
  "dfm_FreeFrames [] fm = fm"
| "dfm_FreeFrames (f # fs) fm = dfm_FreeFrames fs (dfm_FreeFrame f fm)"

subsection \<open>What every operation keeps\<close>

text \<open>
  Well-formedness of the pool: the occupied frames are filed under their own address, no two
  frames of the pool share an address, and all of them have the size of the pool.
\<close>

definition dfm_addrs :: "'m default_fm \<Rightarrow> addr list" where
  "dfm_addrs fm = map frame_data (dfm_free_frames fm) @ map fst (dfm_occupied_frames fm)"

definition dfm_wf :: "'m default_fm \<Rightarrow> bool" where
  "dfm_wf fm \<longleftrightarrow>
     distinct (dfm_addrs fm) \<and>
     list_all (\<lambda>(a, f). frame_data f = a \<and> frame_bytes f = dfm_frame_size fm)
       (dfm_occupied_frames fm) \<and>
     list_all (\<lambda>f. frame_bytes f = dfm_frame_size fm) (dfm_free_frames fm)"

text \<open>The frames a client holds: those filed as occupied.\<close>

definition dfm_held :: "'m default_fm \<Rightarrow> cache_frame \<Rightarrow> bool" where
  "dfm_held fm f \<longleftrightarrow> map_of (dfm_occupied_frames fm) (frame_data f) = Some f"

definition dfm_pool :: "'m default_fm \<Rightarrow> cache_frame multiset" where
  "dfm_pool fm = mset (dfm_free_frames fm) + mset (map snd (dfm_occupied_frames fm))"

lemma dfm_wf_map: "dfm_wf fm \<Longrightarrow> wf_map (dfm_occupied_frames fm)"
  by (simp add: dfm_wf_def dfm_addrs_def)

lemma dfm_free_not_occupied:
  "dfm_wf fm \<Longrightarrow> f \<in> set (dfm_free_frames fm) \<Longrightarrow>
   map_of (dfm_occupied_frames fm) (frame_data f) = None"
  by (auto simp: dfm_wf_def dfm_addrs_def map_of_eq_None_iff)

lemma mset_snd_delete:
  "wf_map m \<Longrightarrow> map_of m k = Some v \<Longrightarrow> add_mset v (mset (map snd (AList.delete k m))) = mset (map snd m)"
proof (induction m)
  case Nil
  then show ?case by simp
next
  case (Cons a m)
  obtain k' v' where a: "a = (k', v')" by (cases a)
  show ?case
  proof (cases "k' = k")
    case True
    have "map_of m k = None"
      using Cons.prems(1) a True by (auto simp: map_of_eq_None_iff)
    then have "AList.delete k m = m" by (rule delete_absent)
    with a True Cons.prems show ?thesis by (simp add: AList.delete_eq)
  next
    case False
    with Cons a show ?thesis by (simp add: AList.delete_eq add_mset_commute)
  qed
qed

text \<open>Taking the front frame and giving a held frame back, as pure changes of the pool.\<close>

definition dfm_take :: "cache_frame \<Rightarrow> cache_frame list \<Rightarrow> 'm default_fm \<Rightarrow> 'm default_fm" where
  "dfm_take frame rest fm =
     fm\<lparr>dfm_free_frames := rest,
        dfm_occupied_frames := AList.update (frame_data frame) frame (dfm_occupied_frames fm)\<rparr>"

lemma dfm_take_wf:
  assumes wf: "dfm_wf fm" and free: "dfm_free_frames fm = frame # rest"
  shows "dfm_wf (dfm_take frame rest fm)"
    and "dfm_held (dfm_take frame rest fm) frame"
    and "\<not> dfm_held fm frame"
    and "dfm_CountFrame (dfm_take frame rest fm) = dfm_CountFrame fm"
    and "dfm_CountOccupiedFrame (dfm_take frame rest fm) = Suc (dfm_CountOccupiedFrame fm)"
    and "dfm_pool (dfm_take frame rest fm) = dfm_pool fm"
proof -
  have none: "map_of (dfm_occupied_frames fm) (frame_data frame) = None"
    using dfm_free_not_occupied [OF wf] free by simp
  note upd = update_fresh [OF none]
  from wf free none show "dfm_wf (dfm_take frame rest fm)"
    by (auto simp: dfm_wf_def dfm_addrs_def dfm_take_def upd)
  from none show "dfm_held (dfm_take frame rest fm) frame" "\<not> dfm_held fm frame"
    by (simp_all add: dfm_held_def dfm_take_def)
  from none free show "dfm_CountFrame (dfm_take frame rest fm) = dfm_CountFrame fm"
    "dfm_CountOccupiedFrame (dfm_take frame rest fm) = Suc (dfm_CountOccupiedFrame fm)"
    "dfm_pool (dfm_take frame rest fm) = dfm_pool fm"
    by (simp_all add: dfm_counts dfm_pool_def dfm_take_def upd)
qed

lemma dfm_FreeFrame_held:
  assumes wf: "dfm_wf fm" and held: "dfm_held fm f"
  shows "dfm_wf (dfm_FreeFrame (Some f) fm)"
    and "\<not> dfm_held (dfm_FreeFrame (Some f) fm) f"
    and "dfm_CountFrame (dfm_FreeFrame (Some f) fm) = dfm_CountFrame fm"
    and "Suc (dfm_CountOccupiedFrame (dfm_FreeFrame (Some f) fm)) = dfm_CountOccupiedFrame fm"
    and "dfm_pool (dfm_FreeFrame (Some f) fm) = dfm_pool fm"
proof -
  let ?occ = "dfm_occupied_frames fm" and ?k = "frame_data f"
  have occ: "map_of ?occ ?k = Some f" and wfm: "wf_map ?occ"
    using held wf by (auto simp: dfm_held_def dfm_wf_map)
  have eq: "dfm_FreeFrame (Some f) fm =
      fm\<lparr>dfm_occupied_frames := AList.delete ?k ?occ, dfm_free_frames := dfm_free_frames fm @ [f]\<rparr>"
    using occ by (simp add: dfm_FreeFrame_def)
  have mem: "(?k, f) \<in> set ?occ" using occ by (rule map_of_SomeD)
  have len: "Suc (length (AList.delete ?k ?occ)) = length ?occ"
    using wfm occ by (rule length_delete_present)
  have new: "?k \<notin> frame_data ` set (dfm_free_frames fm)"
    using wf mem by (force simp: dfm_wf_def dfm_addrs_def)
  have size: "frame_bytes f = dfm_frame_size fm"
    using wf mem by (auto simp: dfm_wf_def list_all_iff)
  show "dfm_wf (dfm_FreeFrame (Some f) fm)"
    using wf new size unfolding eq
    by (auto simp: dfm_wf_def dfm_addrs_def set_delete_wf [OF wfm] list_all_iff distinct_delete)
  show "\<not> dfm_held (dfm_FreeFrame (Some f) fm) f"
    by (simp add: eq dfm_held_def)
  show "dfm_CountFrame (dfm_FreeFrame (Some f) fm) = dfm_CountFrame fm"
    "Suc (dfm_CountOccupiedFrame (dfm_FreeFrame (Some f) fm)) = dfm_CountOccupiedFrame fm"
    using len by (simp_all add: eq dfm_counts)
  show "dfm_pool (dfm_FreeFrame (Some f) fm) = dfm_pool fm"
    using mset_snd_delete [OF wfm occ] by (simp add: eq dfm_pool_def)
qed

text \<open>Freeing a frame the pool does not hold changes nothing.\<close>

lemma dfm_FreeFrame_unrecognized:
  "map_of (dfm_occupied_frames fm) (frame_data f) = None \<Longrightarrow> dfm_FreeFrame (Some f) fm = fm"
  by (simp add: dfm_FreeFrame_def)

lemma dfm_AllocFrame_cases:
  assumes "dfm_AllocFrame alloc fm = (r, fm')"
  obtains (none) b where "r = None" "dfm_free_frames fm' = []" "dfm_CountFreeFrame fm = 0"
      "dfm_create_times alloc (nat (dfm_grow_frames fm)) fm = (b, fm')"
  | (front) frame rest where "r = Some frame" "dfm_free_frames fm = frame # rest"
      "fm' = dfm_take frame rest fm"
  | (grown) b fm1 frame rest where "r = Some frame" "dfm_free_frames fm = []"
      "dfm_create_times alloc (nat (dfm_grow_frames fm)) fm = (b, fm1)"
      "dfm_free_frames fm1 = frame # rest" "fm' = dfm_take frame rest fm1"
proof (cases "dfm_free_frames fm")
  case Nil
  obtain b fm1 where c: "dfm_create_times alloc (nat (dfm_grow_frames fm)) fm = (b, fm1)"
    by (cases "dfm_create_times alloc (nat (dfm_grow_frames fm)) fm")
  show ?thesis
  proof (cases "dfm_free_frames fm1")
    case n: Nil
    with assms Nil c none show ?thesis by (auto simp: dfm_AllocFrame_def dfm_counts)
  next
    case k: (Cons frame rest)
    with assms Nil c grown show ?thesis by (auto simp: dfm_AllocFrame_def dfm_counts dfm_take_def)
  qed
next
  case (Cons frame rest)
  with assms front show ?thesis by (auto simp: dfm_AllocFrame_def dfm_counts dfm_take_def)
qed

subsection \<open>Growing\<close>

lemma dfm_createFrame_cases:
  assumes "dfm_createFrame alloc fm = (b, fm')"
  obtains (failed) mem' where "\<not> b" "fm' = fm\<lparr>dfm_mem := mem'\<rparr>"
  | (created) f mem' where "b" "frame_bytes f = dfm_frame_size fm"
      "fm' = fm\<lparr>dfm_free_frames := dfm_free_frames fm @ [f], dfm_mem := mem'\<rparr>"
proof -
  obtain r mem' where r: "CacheFrame_Create alloc (dfm_device_type fm) (dfm_frame_size fm)
      (''frame_'' @ show_nat (dfm_CountFrame fm)) (dfm_mem fm) = (r, mem')"
    by fastforce
  show ?thesis
  proof (cases r)
    case None
    show ?thesis using assms r None by (intro failed) (auto simp: dfm_createFrame_def)
  next
    case (Some f)
    show ?thesis using assms r Some CacheFrame_Create_bytes [of alloc]
      by (intro created [of f mem']) (auto simp: dfm_createFrame_def)
  qed
qed

lemma dfm_createFrame_False_count:
  assumes "dfm_createFrame alloc fm = (False, fm')"
  shows "dfm_CountFrame fm' = dfm_CountFrame fm"
  using assms by (cases rule: dfm_createFrame_cases) (auto simp: dfm_counts)

text \<open>Growth touches neither the occupied frames nor the parameters of the pool.\<close>

definition dfm_grown :: "'m default_fm \<Rightarrow> 'm default_fm \<Rightarrow> bool" where
  "dfm_grown fm fm' \<longleftrightarrow>
     dfm_occupied_frames fm' = dfm_occupied_frames fm \<and>
     dfm_frame_size fm' = dfm_frame_size fm \<and> dfm_grow_frames fm' = dfm_grow_frames fm \<and>
     dfm_initialized fm' = dfm_initialized fm \<and>
     (\<exists>new. dfm_free_frames fm' = dfm_free_frames fm @ new)"

lemma dfm_grown_refl [simp]: "dfm_grown fm fm"
  by (simp add: dfm_grown_def)

lemma dfm_grown_trans: "dfm_grown a b \<Longrightarrow> dfm_grown b c \<Longrightarrow> dfm_grown a c"
  by (auto simp: dfm_grown_def)

lemma dfm_createFrame_grown: "dfm_createFrame alloc fm = (b, fm') \<Longrightarrow> dfm_grown fm fm'"
  by (erule dfm_createFrame_cases) (auto simp: dfm_grown_def)

lemma dfm_create_times_grown: "dfm_create_times alloc n fm = (b, fm') \<Longrightarrow> dfm_grown fm fm'"
proof (induction n arbitrary: fm)
  case 0
  then show ?case by simp
next
  case (Suc n)
  obtain c fm1 where c: "dfm_createFrame alloc fm = (c, fm1)" by (cases "dfm_createFrame alloc fm")
  have g: "dfm_grown fm fm1" using c by (rule dfm_createFrame_grown)
  show ?case
  proof (cases c)
    case True
    with Suc c have "dfm_grown fm1 fm'" by simp
    with g show ?thesis by (rule dfm_grown_trans)
  next
    case False
    with Suc.prems c g show ?thesis by simp
  qed
qed

lemma dfm_grow_loop_grown: "dfm_grow_loop alloc num fm = (b, fm') \<Longrightarrow> dfm_grown fm fm'"
proof (induction alloc num fm rule: dfm_grow_loop.induct)
  case (1 alloc num fm)
  obtain c fm1 where c: "dfm_createFrame alloc fm = (c, fm1)" by (cases "dfm_createFrame alloc fm")
  have g: "dfm_grown fm fm1" using c by (rule dfm_createFrame_grown)
  show ?case
  proof (cases "dfm_CountFrame fm < num \<and> c")
    case True
    with 1 c have "dfm_grown fm1 fm'" by (simp add: dfm_grow_loop.simps [of alloc num fm])
    with g show ?thesis by (rule dfm_grown_trans)
  next
    case False
    with "1.prems" c g show ?thesis
      by (auto simp: dfm_grow_loop.simps [of alloc num fm] split: if_splits)
  qed
qed

lemma dfm_create_times_True_count:
  "dfm_create_times alloc n fm = (True, fm') \<Longrightarrow> dfm_CountFrame fm' = dfm_CountFrame fm + n"
  by (induction n arbitrary: fm) (auto dest: dfm_createFrame_count split: prod.splits bool.splits)

lemma dfm_create_times_False_count:
  "dfm_create_times alloc n fm = (False, fm') \<Longrightarrow> dfm_CountFrame fm' < dfm_CountFrame fm + n"
proof (induction n arbitrary: fm)
  case 0
  then show ?case by simp
next
  case (Suc n)
  obtain c fm1 where c: "dfm_createFrame alloc fm = (c, fm1)" by (cases "dfm_createFrame alloc fm")
  show ?case
  proof (cases c)
    case True
    with Suc c have "dfm_CountFrame fm' < dfm_CountFrame fm1 + n" by simp
    with c True dfm_createFrame_count [of alloc fm fm1] show ?thesis by simp
  next
    case False
    with Suc.prems c have "fm' = fm1" by simp
    with c False show ?thesis by (simp add: dfm_createFrame_False_count)
  qed
qed

lemma dfm_grow_loop_count:
  "dfm_grow_loop alloc num fm = (b, fm') \<Longrightarrow>
   (if b then dfm_CountFrame fm' = max num (dfm_CountFrame fm) else dfm_CountFrame fm' < num)"
proof (induction alloc num fm rule: dfm_grow_loop.induct)
  case (1 alloc num fm)
  obtain c fm1 where c: "dfm_createFrame alloc fm = (c, fm1)" by (cases "dfm_createFrame alloc fm")
  consider (stop) "\<not> dfm_CountFrame fm < num" | (fail) "dfm_CountFrame fm < num" "\<not> c"
    | (go) "dfm_CountFrame fm < num" "c" by blast
  then show ?case
  proof cases
    case stop
    with "1.prems" show ?thesis by (auto simp: dfm_grow_loop.simps [of alloc num fm])
  next
    case fail
    with "1.prems" c have "fm' = fm1" "\<not> b" by (auto simp: dfm_grow_loop.simps [of alloc num fm])
    moreover have "dfm_CountFrame fm1 = dfm_CountFrame fm"
      using c fail by (simp add: dfm_createFrame_False_count)
    ultimately show ?thesis using fail by simp
  next
    case go
    with 1 c have "if b then dfm_CountFrame fm' = max num (dfm_CountFrame fm1)
        else dfm_CountFrame fm' < num"
      by (simp add: dfm_grow_loop.simps [of alloc num fm])
    moreover have "dfm_CountFrame fm1 = Suc (dfm_CountFrame fm)"
      using c go dfm_createFrame_count [of alloc fm fm1] by simp
    ultimately show ?thesis using go by (auto simp: max_def split: if_splits)
  qed
qed

section \<open>What the clients of a pool rely on\<close>

text \<open>
  The contract that the span managers use: an allocated frame was not held before, a frame that
  is given back is no longer held, and the number of occupied frames follows.
\<close>

locale frame_pool =
  fixes alloc_frame :: "'p \<Rightarrow> cache_frame option \<times> 'p"
    and free_frame :: "cache_frame \<Rightarrow> 'p \<Rightarrow> 'p"
    and held :: "'p \<Rightarrow> cache_frame \<Rightarrow> bool"
    and occupied :: "'p \<Rightarrow> nat"
    and inv :: "'p \<Rightarrow> bool"
  assumes alloc_frame_Some: "inv p \<Longrightarrow> alloc_frame p = (Some f, p') \<Longrightarrow>
      inv p' \<and> \<not> held p f \<and> held p' f \<and> occupied p' = Suc (occupied p) \<and>
      (\<forall>g. held p g \<longrightarrow> held p' g)"
    and alloc_frame_None: "inv p \<Longrightarrow> alloc_frame p = (None, p') \<Longrightarrow>
      inv p' \<and> occupied p' = occupied p \<and> (\<forall>g. held p g \<longrightarrow> held p' g)"
    and free_frame_held: "inv p \<Longrightarrow> held p f \<Longrightarrow>
      inv (free_frame f p) \<and> Suc (occupied (free_frame f p)) = occupied p \<and>
      \<not> held (free_frame f p) f \<and> (\<forall>g. g \<noteq> f \<longrightarrow> held p g \<longrightarrow> held (free_frame f p) g)"
begin

text \<open>Giving back distinct held frames, in any order, frees exactly that many.\<close>

lemma free_all:
  "inv p \<Longrightarrow> distinct fs \<Longrightarrow> \<forall>f\<in>set fs. held p f \<Longrightarrow>
   inv (fold free_frame fs p) \<and> occupied (fold free_frame fs p) + length fs = occupied p \<and>
   (\<forall>g. g \<notin> set fs \<longrightarrow> held p g \<longrightarrow> held (fold free_frame fs p) g)"
proof (induction fs arbitrary: p)
  case Nil
  then show ?case by simp
next
  case (Cons f fs)
  let ?p1 = "free_frame f p"
  have one: "inv ?p1" "Suc (occupied ?p1) = occupied p"
    "\<forall>g. g \<noteq> f \<longrightarrow> held p g \<longrightarrow> held ?p1 g"
    using free_frame_held [of p f] Cons.prems by auto
  moreover have "\<forall>g\<in>set fs. held ?p1 g" using one(3) Cons.prems by auto
  ultimately have "inv (fold free_frame fs ?p1) \<and>
      occupied (fold free_frame fs ?p1) + length fs = occupied ?p1 \<and>
      (\<forall>g. g \<notin> set fs \<longrightarrow> held ?p1 g \<longrightarrow> held (fold free_frame fs ?p1) g)"
    using Cons.IH [of ?p1] Cons.prems by simp
  with one show ?case by auto
qed

text \<open>A frame allocated and given back at once leaves the number of occupied frames unchanged.\<close>

lemma alloc_free:
  "inv p \<Longrightarrow> alloc_frame p = (Some f, p') \<Longrightarrow> occupied (free_frame f p') = occupied p"
  using alloc_frame_Some [of p f p'] free_frame_held [of p' f] by auto

end

subsection \<open>The default manager fulfils the contract\<close>

text \<open>
  The invariant of a pool in use: well-formed, with a positive frame size, in a sound memory
  whose live blocks contain the frames.
\<close>

definition dfm_inv :: "('m \<Rightarrow> addr set) \<Rightarrow> ('m \<Rightarrow> bool) \<Rightarrow> 'm default_fm \<Rightarrow> bool" where
  "dfm_inv live ok fm \<longleftrightarrow> dfm_wf fm \<and> ok (dfm_mem fm) \<and> 0 < dfm_frame_size fm \<and>
     set (dfm_addrs fm) \<subseteq> live (dfm_mem fm)"

context device_allocator
begin

lemma dfm_createFrame_inv:
  assumes inv: "dfm_inv live ok fm" and c: "dfm_createFrame alloc fm = (b, fm')"
  shows "dfm_inv live ok fm'"
proof -
  have pos: "0 < dfm_frame_size fm" and okm: "ok (dfm_mem fm)" using inv by (auto simp: dfm_inv_def)
  obtain r mem' where a: "alloc (dfm_frame_size fm) (dfm_mem fm) = (r, mem')" by fastforce
  have ok': "ok mem'" using alloc_ok [OF okm pos a] .
  show ?thesis
  proof (cases r)
    case None
    with c a pos have "fm' = fm\<lparr>dfm_mem := mem'\<rparr>"
      by (auto simp: dfm_createFrame_def CacheFrame_Create_def)
    with inv ok' alloc_None [OF okm pos] a None show ?thesis
      by (simp add: dfm_inv_def dfm_wf_def dfm_addrs_def)
  next
    case (Some p)
    let ?f = "\<lparr>frame_data = p, frame_bytes = dfm_frame_size fm,
        frame_tag = ''frame_'' @ show_nat (dfm_CountFrame fm), frame_device = dfm_device_type fm\<rparr>"
    have fm': "fm' = fm\<lparr>dfm_free_frames := dfm_free_frames fm @ [?f], dfm_mem := mem'\<rparr>"
      using c a pos Some by (auto simp: dfm_createFrame_def CacheFrame_Create_def)
    have new: "p \<notin> set (dfm_addrs fm)" "live mem' = insert p (live (dfm_mem fm))"
      using alloc_Some [OF okm pos] a Some inv by (auto simp: dfm_inv_def)
    show ?thesis
      using inv ok' new unfolding fm'
      by (auto simp: dfm_inv_def dfm_wf_def dfm_addrs_def)
  qed
qed

lemma dfm_create_times_inv:
  "dfm_inv live ok fm \<Longrightarrow> dfm_create_times alloc n fm = (b, fm') \<Longrightarrow> dfm_inv live ok fm'"
proof (induction n arbitrary: fm)
  case 0
  then show ?case by simp
next
  case (Suc n)
  obtain c fm1 where c: "dfm_createFrame alloc fm = (c, fm1)" by (cases "dfm_createFrame alloc fm")
  with Suc.prems(1) have "dfm_inv live ok fm1" by (rule dfm_createFrame_inv)
  with Suc c show ?case by (cases c) auto
qed

lemma dfm_grow_loop_inv:
  "dfm_inv live ok fm \<Longrightarrow> dfm_grow_loop alloc num fm = (b, fm') \<Longrightarrow> dfm_inv live ok fm'"
proof (induction alloc\<equiv>alloc num fm rule: dfm_grow_loop.induct)
  case (1 num fm)
  obtain c fm1 where c: "dfm_createFrame alloc fm = (c, fm1)" by (cases "dfm_createFrame alloc fm")
  have "dfm_inv live ok fm1" using "1.prems"(1) c by (rule dfm_createFrame_inv)
  with 1 c show ?case
    by (cases c) (auto simp: dfm_grow_loop.simps [of alloc num fm] split: if_splits)
qed

lemma dfm_take_inv:
  assumes "dfm_inv live ok fm" "dfm_free_frames fm = frame # rest"
  shows "dfm_inv live ok (dfm_take frame rest fm)"
proof -
  have wf: "dfm_wf fm" using assms by (simp add: dfm_inv_def)
  have none: "map_of (dfm_occupied_frames fm) (frame_data frame) = None"
    using dfm_free_not_occupied [OF wf] assms(2) by simp
  show ?thesis
    using assms dfm_take_wf(1) [OF wf assms(2)]
    by (auto simp: dfm_inv_def dfm_take_def dfm_addrs_def update_fresh [OF none])
qed

lemma dfm_AllocFrame_inv:
  assumes inv: "dfm_inv live ok fm" and a: "dfm_AllocFrame alloc fm = (r, fm')"
  shows "dfm_inv live ok fm'"
  using a
proof (cases rule: dfm_AllocFrame_cases)
  case (none b)
  then show ?thesis using inv dfm_create_times_inv by blast
next
  case (front frame rest)
  then show ?thesis using inv dfm_take_inv by blast
next
  case (grown b fm1 frame rest)
  then show ?thesis using inv dfm_create_times_inv dfm_take_inv by blast
qed

lemma dfm_FreeFrame_inv:
  assumes inv: "dfm_inv live ok fm" and held: "dfm_held fm f"
  shows "dfm_inv live ok (dfm_FreeFrame (Some f) fm)"
proof -
  have wf: "dfm_wf fm" using inv by (simp add: dfm_inv_def)
  have occ: "map_of (dfm_occupied_frames fm) (frame_data f) = Some f"
    using held by (simp add: dfm_held_def)
  have "set (dfm_addrs (dfm_FreeFrame (Some f) fm)) \<subseteq> set (dfm_addrs fm)"
    using map_of_SomeD [OF occ] set_delete_wf [OF dfm_wf_map [OF wf], of "frame_data f"]
    by (force simp: dfm_FreeFrame_def dfm_addrs_def occ)
  then show ?thesis
    using inv dfm_FreeFrame_held(1) [OF wf held]
    by (auto simp: dfm_inv_def dfm_FreeFrame_def occ)
qed

text \<open>Growth keeps what is held and how much is occupied.\<close>

lemma dfm_grown_held: "dfm_grown fm fm' \<Longrightarrow> dfm_held fm' f \<longleftrightarrow> dfm_held fm f"
  by (simp add: dfm_grown_def dfm_held_def)

lemma dfm_grown_occupied: "dfm_grown fm fm' \<Longrightarrow> dfm_CountOccupiedFrame fm' = dfm_CountOccupiedFrame fm"
  by (simp add: dfm_grown_def dfm_counts)

lemma dfm_take_keeps_held:
  assumes "dfm_wf fm" "dfm_free_frames fm = frame # rest" "dfm_held fm g"
  shows "dfm_held (dfm_take frame rest fm) g"
proof -
  have "map_of (dfm_occupied_frames fm) (frame_data frame) = None"
    using dfm_free_not_occupied [OF assms(1)] assms(2) by simp
  with assms(3) show ?thesis by (auto simp: dfm_held_def dfm_take_def)
qed

end

sublocale device_allocator \<subseteq> dfm: frame_pool "dfm_AllocFrame alloc" "\<lambda>f. dfm_FreeFrame (Some f)"
  dfm_held dfm_CountOccupiedFrame "dfm_inv live ok"
proof
  fix p p' :: "'m default_fm" and f
  assume inv: "dfm_inv live ok p" and a: "dfm_AllocFrame alloc p = (Some f, p')"
  from a show "dfm_inv live ok p' \<and> \<not> dfm_held p f \<and> dfm_held p' f \<and>
      dfm_CountOccupiedFrame p' = Suc (dfm_CountOccupiedFrame p) \<and>
      (\<forall>g. dfm_held p g \<longrightarrow> dfm_held p' g)"
  proof (cases rule: dfm_AllocFrame_cases)
    case (front frame rest)
    have wf: "dfm_wf p" using inv by (simp add: dfm_inv_def)
    show ?thesis
      using front dfm_AllocFrame_inv [OF inv a] dfm_take_wf [OF wf front(2)]
        dfm_take_keeps_held [OF wf front(2)] by auto
  next
    case (grown b fm1 frame rest)
    have g: "dfm_grown p fm1" using grown(3) by (rule dfm_create_times_grown)
    have wf: "dfm_wf fm1" using dfm_create_times_inv [OF inv grown(3)] by (simp add: dfm_inv_def)
    show ?thesis
      using grown dfm_AllocFrame_inv [OF inv a] dfm_take_wf [OF wf grown(4)]
        dfm_take_keeps_held [OF wf grown(4)] dfm_grown_held [OF g] dfm_grown_occupied [OF g] by auto
  qed simp
next
  fix p p' :: "'m default_fm"
  assume inv: "dfm_inv live ok p" and a: "dfm_AllocFrame alloc p = (None, p')"
  from a obtain b where c: "dfm_create_times alloc (nat (dfm_grow_frames p)) p = (b, p')"
    by (cases rule: dfm_AllocFrame_cases) auto
  note g = dfm_create_times_grown [OF c]
  show "dfm_inv live ok p' \<and> dfm_CountOccupiedFrame p' = dfm_CountOccupiedFrame p \<and>
      (\<forall>g. dfm_held p g \<longrightarrow> dfm_held p' g)"
    using dfm_AllocFrame_inv [OF inv a] dfm_grown_held [OF g] dfm_grown_occupied [OF g] by simp
next
  fix p :: "'m default_fm" and f
  assume inv: "dfm_inv live ok p" and held: "dfm_held p f"
  have wf: "dfm_wf p" using inv by (simp add: dfm_inv_def)
  have same: "frame_data g \<noteq> frame_data f" if "g \<noteq> f" "dfm_held p g" for g
    using that held by (auto simp: dfm_held_def)
  show "dfm_inv live ok (dfm_FreeFrame (Some f) p) \<and>
      Suc (dfm_CountOccupiedFrame (dfm_FreeFrame (Some f) p)) = dfm_CountOccupiedFrame p \<and>
      \<not> dfm_held (dfm_FreeFrame (Some f) p) f \<and>
      (\<forall>g. g \<noteq> f \<longrightarrow> dfm_held p g \<longrightarrow> dfm_held (dfm_FreeFrame (Some f) p) g)"
    using dfm_FreeFrame_inv [OF inv held] dfm_FreeFrame_held [OF wf held] held same
    by (auto simp: dfm_FreeFrame_def dfm_held_def)
qed

section \<open>The concurrent manager\<close>

text \<open>
  The lock-free queue of the third-party header is a list here, with the calls of one thread at a
  time: \<open>try_dequeue\<close> takes the front, \<open>try_dequeue_bulk\<close> as many as asked for or
  all there are, \<open>enqueue\<close> and \<open>enqueue_bulk\<close> append or, when the queue cannot
  get memory, fail; whether they succeed is the parameter \<open>enq\<close>, given the queue and the
  new elements. The field \<open>cfm_created\<close> lists the frame objects made so far: the source
  holds them through shared pointers only and counts them in \<open>total_frame_count_\<close>.
\<close>

type_synonym enqueue_ok = "cache_frame list \<Rightarrow> cache_frame list \<Rightarrow> bool"

definition enq_reliable :: enqueue_ok where
  "enq_reliable q xs = True"

record 'm concurrent_fm =
  cfm_device_type :: device_type
  cfm_initialized :: bool
  cfm_free_frames :: "cache_frame list"
  cfm_free_frame_count :: int
  cfm_total_frame_count :: int
  cfm_frame_size :: int
  cfm_init_frames :: int
  cfm_mem :: 'm
  cfm_created :: "cache_frame list"

definition cfm_new :: "device_type \<Rightarrow> int \<Rightarrow> 'm \<Rightarrow> 'm concurrent_fm" where
  "cfm_new dev init mem =
     \<lparr>cfm_device_type = dev, cfm_initialized = False, cfm_free_frames = [],
      cfm_free_frame_count = 0, cfm_total_frame_count = 0, cfm_frame_size = 0,
      cfm_init_frames = init, cfm_mem = mem, cfm_created = []\<rparr>"

text \<open>The counters are read as \<open>size_t\<close>, whose subtraction wraps.\<close>

definition size_t_of :: "int \<Rightarrow> nat" where
  "size_t_of i = nat (i mod 2 ^ 64)"

definition cfm_CountFreeFrame :: "'m concurrent_fm \<Rightarrow> nat" where
  "cfm_CountFreeFrame fm = size_t_of (cfm_free_frame_count fm)"

definition cfm_CountFrame :: "'m concurrent_fm \<Rightarrow> nat" where
  "cfm_CountFrame fm = size_t_of (cfm_total_frame_count fm)"

definition cfm_CountOccupiedFrame :: "'m concurrent_fm \<Rightarrow> nat" where
  "cfm_CountOccupiedFrame fm = size_t_of (int (cfm_CountFrame fm) - int (cfm_CountFreeFrame fm))"

lemmas cfm_counts = cfm_CountFrame_def cfm_CountFreeFrame_def cfm_CountOccupiedFrame_def

text \<open>When the queue refuses a new frame the frame object is dropped and with it its memory.\<close>

definition cfm_createFrame ::
  "enqueue_ok \<Rightarrow> 'm allocator \<Rightarrow> (addr \<Rightarrow> 'm \<Rightarrow> 'm) \<Rightarrow> 'm concurrent_fm \<Rightarrow> bool \<times> 'm concurrent_fm"
where
  "cfm_createFrame enq alloc dealloc fm =
     (case CacheFrame_Create alloc (cfm_device_type fm) (cfm_frame_size fm) ''frame'' (cfm_mem fm) of
        (None, mem') \<Rightarrow> (False, fm\<lparr>cfm_mem := mem'\<rparr>)
      | (Some frame, mem') \<Rightarrow>
          if enq (cfm_free_frames fm) [frame] then
            (True, fm\<lparr>cfm_free_frames := cfm_free_frames fm @ [frame],
                     cfm_free_frame_count := cfm_free_frame_count fm + 1,
                     cfm_total_frame_count := cfm_total_frame_count fm + 1,
                     cfm_mem := mem', cfm_created := cfm_created fm @ [frame]\<rparr>)
          else (False, fm\<lparr>cfm_mem := dealloc (frame_data frame) mem'\<rparr>))"

fun cfm_create_times ::
  "enqueue_ok \<Rightarrow> 'm allocator \<Rightarrow> (addr \<Rightarrow> 'm \<Rightarrow> 'm) \<Rightarrow> nat \<Rightarrow> 'm concurrent_fm \<Rightarrow> bool \<times> 'm concurrent_fm"
where
  "cfm_create_times enq alloc dealloc 0 fm = (True, fm)"
| "cfm_create_times enq alloc dealloc (Suc n) fm =
     (case cfm_createFrame enq alloc dealloc fm of
        (False, fm') \<Rightarrow> (False, fm')
      | (True, fm') \<Rightarrow> cfm_create_times enq alloc dealloc n fm')"

definition cfm_Init ::
  "enqueue_ok \<Rightarrow> 'm allocator \<Rightarrow> (addr \<Rightarrow> 'm \<Rightarrow> 'm) \<Rightarrow> int \<Rightarrow> 'm concurrent_fm \<Rightarrow>
   (unit, 'm concurrent_fm) outcome"
where
  "cfm_Init enq alloc dealloc frame_size fm =
     (if cfm_initialized fm then ret () fm
      else if frame_size \<le> 0 then throw ALLSPARK_PARAM_ERROR fm
      else ret () (snd (cfm_create_times enq alloc dealloc (nat (cfm_init_frames fm))
                     (fm\<lparr>cfm_initialized := True, cfm_frame_size := frame_size\<rparr>))))"

text \<open>
  The loop runs from the current count up to the requested one, so it makes as many calls as the
  count falls short; a requested total of 0 stands for the largest \<open>int64_t\<close>.
\<close>

definition cfm_GrowUntil ::
  "enqueue_ok \<Rightarrow> 'm allocator \<Rightarrow> (addr \<Rightarrow> 'm \<Rightarrow> 'm) \<Rightarrow> nat \<Rightarrow> 'm concurrent_fm \<Rightarrow> bool \<times> 'm concurrent_fm"
where
  "cfm_GrowUntil enq alloc dealloc num_frames fm =
     cfm_create_times enq alloc dealloc
       ((if num_frames = 0 then 2 ^ 63 - 1 else num_frames) - cfm_CountFrame fm) fm"

definition cfm_GrowBy ::
  "enqueue_ok \<Rightarrow> 'm allocator \<Rightarrow> (addr \<Rightarrow> 'm \<Rightarrow> 'm) \<Rightarrow> nat \<Rightarrow> 'm concurrent_fm \<Rightarrow> bool \<times> 'm concurrent_fm"
where
  "cfm_GrowBy enq alloc dealloc num_frames fm = cfm_create_times enq alloc dealloc num_frames fm"

definition cfm_AllocFrame :: "'m concurrent_fm \<Rightarrow> cache_frame option \<times> 'm concurrent_fm" where
  "cfm_AllocFrame fm =
     (case cfm_free_frames fm of
        [] \<Rightarrow> (None, fm)
      | frame # rest \<Rightarrow>
          (Some frame, fm\<lparr>cfm_free_frames := rest,
                         cfm_free_frame_count := cfm_free_frame_count fm - 1\<rparr>))"

text \<open>
  The overload for a vector takes all or none: what it could take is put back when it is not
  enough. The frames are those written to the vector; their number is the result.
\<close>

definition cfm_AllocFrames ::
  "enqueue_ok \<Rightarrow> nat \<Rightarrow> 'm concurrent_fm \<Rightarrow> (cache_frame list, 'm concurrent_fm) outcome" where
  "cfm_AllocFrames enq n fm =
     (let got = take n (cfm_free_frames fm); left = drop n (cfm_free_frames fm);
          finished = length got
      in if finished \<noteq> n then
           (if enq left got then ret [] (fm\<lparr>cfm_free_frames := left @ got\<rparr>)
            else throw ALLSPARK_RUNTIME_ERROR (fm\<lparr>cfm_free_frames := left\<rparr>))
         else ret got (fm\<lparr>cfm_free_frames := left,
                          cfm_free_frame_count := cfm_free_frame_count fm - int finished\<rparr>))"

definition cfm_FreeFrame ::
  "enqueue_ok \<Rightarrow> cache_frame option \<Rightarrow> 'm concurrent_fm \<Rightarrow> (unit, 'm concurrent_fm) outcome" where
  "cfm_FreeFrame enq frame fm =
     (case frame of
        None \<Rightarrow> ret () fm
      | Some f \<Rightarrow>
          if enq (cfm_free_frames fm) [f] then
            ret () (fm\<lparr>cfm_free_frames := cfm_free_frames fm @ [f],
                      cfm_free_frame_count := cfm_free_frame_count fm + 1\<rparr>)
          else throw ALLSPARK_RUNTIME_ERROR fm)"

definition cfm_FreeFrames ::
  "enqueue_ok \<Rightarrow> cache_frame list \<Rightarrow> nat \<Rightarrow> 'm concurrent_fm \<Rightarrow> (unit, 'm concurrent_fm) outcome" where
  "cfm_FreeFrames enq frame_vec n fm =
     (if n = 0 then ret () fm
      else if length frame_vec < n then (Inl UndefinedBehaviour, fm)
      else if enq (cfm_free_frames fm) (take n frame_vec) then
        ret () (fm\<lparr>cfm_free_frames := cfm_free_frames fm @ take n frame_vec,
                  cfm_free_frame_count := cfm_free_frame_count fm + int n\<rparr>)
      else throw ALLSPARK_RUNTIME_ERROR fm)"

subsection \<open>What every operation keeps\<close>

definition cfm_inv :: "'m concurrent_fm \<Rightarrow> bool" where
  "cfm_inv fm \<longleftrightarrow>
     distinct (cfm_created fm) \<and> distinct (cfm_free_frames fm) \<and>
     set (cfm_free_frames fm) \<subseteq> set (cfm_created fm) \<and>
     cfm_free_frame_count fm = int (length (cfm_free_frames fm)) \<and>
     cfm_total_frame_count fm = int (length (cfm_created fm)) \<and>
     length (cfm_created fm) < 2 ^ 63"

definition cfm_held :: "'m concurrent_fm \<Rightarrow> cache_frame \<Rightarrow> bool" where
  "cfm_held fm f \<longleftrightarrow> f \<in> set (cfm_created fm) \<and> f \<notin> set (cfm_free_frames fm)"

lemma size_t_of_nat [simp]: "n < 2 ^ 64 \<Longrightarrow> size_t_of (int n) = n"
  by (simp add: size_t_of_def nat_mod_distrib)

lemma cfm_inv_length:
  assumes "cfm_inv fm"
  shows "length (cfm_free_frames fm) \<le> length (cfm_created fm)"
  using assms card_mono [of "set (cfm_created fm)" "set (cfm_free_frames fm)"]
  by (simp add: cfm_inv_def distinct_card)

lemma cfm_inv_counts:
  assumes inv: "cfm_inv fm"
  shows "cfm_CountFrame fm = length (cfm_created fm)"
    and "cfm_CountFreeFrame fm = length (cfm_free_frames fm)"
    and "cfm_CountOccupiedFrame fm = length (cfm_created fm) - length (cfm_free_frames fm)"
proof -
  have le: "length (cfm_free_frames fm) \<le> length (cfm_created fm)" using inv by (rule cfm_inv_length)
  have lt: "length (cfm_created fm) < 2 ^ 64" using inv by (simp add: cfm_inv_def)
  show a: "cfm_CountFrame fm = length (cfm_created fm)"
    using inv lt by (simp add: cfm_inv_def cfm_counts)
  show b: "cfm_CountFreeFrame fm = length (cfm_free_frames fm)"
    using inv lt le by (simp add: cfm_inv_def cfm_counts)
  have "int (cfm_CountFrame fm) - int (cfm_CountFreeFrame fm)
      = int (length (cfm_created fm) - length (cfm_free_frames fm))"
    using a b le by simp
  then show "cfm_CountOccupiedFrame fm = length (cfm_created fm) - length (cfm_free_frames fm)"
    using lt by (simp only: cfm_CountOccupiedFrame_def) (rule size_t_of_nat, simp)
qed

lemma cfm_CountOccupied_held:
  assumes inv: "cfm_inv fm"
  shows "cfm_CountOccupiedFrame fm = card {f. cfm_held fm f}"
proof -
  have "{f. cfm_held fm f} = set (cfm_created fm) - set (cfm_free_frames fm)"
    by (auto simp: cfm_held_def)
  then show ?thesis
    using inv by (simp add: cfm_inv_counts cfm_inv_def card_Diff_subset distinct_card)
qed

lemma cfm_held_room:
  assumes "cfm_inv fm" "cfm_held fm f"
  shows "length (cfm_free_frames fm) < length (cfm_created fm)"
proof -
  have "set (cfm_free_frames fm) \<subset> set (cfm_created fm)"
    using assms by (auto simp: cfm_inv_def cfm_held_def)
  then have "card (set (cfm_free_frames fm)) < card (set (cfm_created fm))"
    by (intro psubset_card_mono) auto
  with assms show ?thesis by (simp add: cfm_inv_def distinct_card)
qed

lemma cfm_FreeFrame_reliable [simp]:
  "cfm_FreeFrame enq_reliable (Some f) fm =
     ret () (fm\<lparr>cfm_free_frames := cfm_free_frames fm @ [f],
               cfm_free_frame_count := cfm_free_frame_count fm + 1\<rparr>)"
  by (simp add: cfm_FreeFrame_def enq_reliable_def)

interpretation cfm: frame_pool cfm_AllocFrame "\<lambda>f fm. snd (cfm_FreeFrame enq_reliable (Some f) fm)"
  cfm_held cfm_CountOccupiedFrame cfm_inv
proof
  fix p p' :: "'m concurrent_fm" and f
  assume inv: "cfm_inv p" and a: "cfm_AllocFrame p = (Some f, p')"
  then obtain rest where q: "cfm_free_frames p = f # rest"
    and p': "p' = p\<lparr>cfm_free_frames := rest, cfm_free_frame_count := cfm_free_frame_count p - 1\<rparr>"
    by (auto simp: cfm_AllocFrame_def split: list.splits)
  have inv': "cfm_inv p'" using inv q by (auto simp: p' cfm_inv_def)
  have "cfm_CountOccupiedFrame p' = Suc (cfm_CountOccupiedFrame p)"
    unfolding cfm_inv_counts(3) [OF inv] cfm_inv_counts(3) [OF inv']
    using q cfm_inv_length [OF inv] by (simp add: p')
  moreover have "\<not> cfm_held p f \<and> cfm_held p' f \<and> (\<forall>g. cfm_held p g \<longrightarrow> cfm_held p' g)"
    using inv q by (auto simp: cfm_held_def p' cfm_inv_def)
  ultimately show "cfm_inv p' \<and> \<not> cfm_held p f \<and> cfm_held p' f \<and>
      cfm_CountOccupiedFrame p' = Suc (cfm_CountOccupiedFrame p) \<and>
      (\<forall>g. cfm_held p g \<longrightarrow> cfm_held p' g)"
    using inv' by simp
next
  fix p p' :: "'m concurrent_fm"
  assume "cfm_inv p" and "cfm_AllocFrame p = (None, p')"
  then show "cfm_inv p' \<and> cfm_CountOccupiedFrame p' = cfm_CountOccupiedFrame p \<and>
      (\<forall>g. cfm_held p g \<longrightarrow> cfm_held p' g)"
    by (auto simp: cfm_AllocFrame_def split: list.splits)
next
  fix p :: "'m concurrent_fm" and f
  assume inv: "cfm_inv p" and held: "cfm_held p f"
  let ?p' = "p\<lparr>cfm_free_frames := cfm_free_frames p @ [f],
      cfm_free_frame_count := cfm_free_frame_count p + 1\<rparr>"
  have inv': "cfm_inv ?p'" using inv held by (auto simp: cfm_inv_def cfm_held_def)
  have "cfm_inv ?p' \<and> Suc (cfm_CountOccupiedFrame ?p') = cfm_CountOccupiedFrame p \<and>
      \<not> cfm_held ?p' f \<and> (\<forall>g. g \<noteq> f \<longrightarrow> cfm_held p g \<longrightarrow> cfm_held ?p' g)"
    using inv' cfm_held_room [OF inv held]
    by (auto simp: cfm_inv_counts [OF inv] cfm_inv_counts [OF inv'] cfm_held_def)
  then show "cfm_inv (snd (cfm_FreeFrame enq_reliable (Some f) p)) \<and>
      Suc (cfm_CountOccupiedFrame (snd (cfm_FreeFrame enq_reliable (Some f) p))) =
        cfm_CountOccupiedFrame p \<and>
      \<not> cfm_held (snd (cfm_FreeFrame enq_reliable (Some f) p)) f \<and>
      (\<forall>g. g \<noteq> f \<longrightarrow> cfm_held p g \<longrightarrow> cfm_held (snd (cfm_FreeFrame enq_reliable (Some f) p)) g)"
    by simp
qed

text \<open>The bulk allocation takes all or none.\<close>

lemma cfm_AllocFrames_enough:
  assumes "cfm_inv fm" "n \<le> length (cfm_free_frames fm)"
  obtains fs fm' where "cfm_AllocFrames enq n fm = ret fs fm'" "length fs = n"
    "cfm_inv fm'" "cfm_CountOccupiedFrame fm' = cfm_CountOccupiedFrame fm + n"
    "distinct fs" "\<forall>f\<in>set fs. \<not> cfm_held fm f \<and> cfm_held fm' f"
    "\<forall>g. cfm_held fm g \<longrightarrow> cfm_held fm' g"
proof -
  let ?q = "cfm_free_frames fm"
  let ?fm' = "fm\<lparr>cfm_free_frames := drop n ?q, cfm_free_frame_count := cfm_free_frame_count fm - int n\<rparr>"
  have q: "?q = take n ?q @ drop n ?q" by simp
  have d: "distinct (take n ?q)" "distinct (drop n ?q)" "set (take n ?q) \<inter> set (drop n ?q) = {}"
    using assms(1) by (auto simp: cfm_inv_def set_take_disj_set_drop_if_distinct)
  have sub: "set (take n ?q) \<subseteq> set (cfm_created fm)" "set (drop n ?q) \<subseteq> set (cfm_created fm)"
    using assms(1) set_take_subset [of n ?q] set_drop_subset [of n ?q] by (auto simp: cfm_inv_def)
  have inv': "cfm_inv ?fm'"
    using assms d sub by (auto simp: cfm_inv_def)
  have r: "cfm_AllocFrames enq n fm = ret (take n ?q) ?fm'"
    using assms(2) by (simp add: cfm_AllocFrames_def Let_def)
  show ?thesis
  proof (rule that [OF r])
    show "length (take n ?q) = n" using assms(2) by simp
    show "cfm_inv ?fm'" by (rule inv')
    show "cfm_CountOccupiedFrame ?fm' = cfm_CountOccupiedFrame fm + n"
      using assms cfm_inv_length [OF assms(1)]
      by (simp add: cfm_inv_counts [OF assms(1)] cfm_inv_counts [OF inv'])
    show "distinct (take n ?q)" by (rule d)
    show "\<forall>f\<in>set (take n ?q). \<not> cfm_held fm f \<and> cfm_held ?fm' f"
      using d(3) sub(1) by (auto simp: cfm_held_def dest: in_set_takeD)
    show "\<forall>g. cfm_held fm g \<longrightarrow> cfm_held ?fm' g"
      by (auto simp: cfm_held_def dest: in_set_dropD)
  qed
qed

lemma cfm_AllocFrames_short:
  assumes "length (cfm_free_frames fm) < n" "enq [] (cfm_free_frames fm)"
  shows "cfm_AllocFrames enq n fm = ret [] fm"
  using assms by (simp add: cfm_AllocFrames_def Let_def)

section \<open>Properties\<close>

text \<open>
  \<open>GrowUntil\<close> always ends, whatever the allocator does. It answers yes exactly when the
  pool then has the requested number of frames (it never shrinks), no when it has fewer, and it never
  touches the frames in use.
\<close>

theorem dfm_GrowUntil_total:
  "case dfm_GrowUntil alloc num_frames fm of (b, fm') \<Rightarrow>
     let target = (if num_frames = 0 then 2 ^ 64 - 1 else num_frames)
     in (if b then dfm_CountFrame fm' = max target (dfm_CountFrame fm) else dfm_CountFrame fm' < target) \<and>
        dfm_occupied_frames fm' = dfm_occupied_frames fm \<and>
        (\<exists>new. dfm_free_frames fm' = dfm_free_frames fm @ new)"
proof -
  obtain b fm' where g: "dfm_GrowUntil alloc num_frames fm = (b, fm')" by fastforce
  then show ?thesis
    using dfm_grow_loop_count [of alloc _ fm b fm'] dfm_grow_loop_grown [of alloc _ fm b fm']
    by (auto simp: dfm_GrowUntil_def dfm_grown_def Let_def)
qed

text \<open>
  The bulk allocation of the concurrent pool takes all frames or none: with enough free
  frames the caller gets the requested number of different frames that nobody held, and only they
  become occupied; with too few it gets none and the pool is as before.
\<close>

theorem cfm_AllocFrames_all_or_none:
  assumes "cfm_inv fm"
  shows "\<exists>fs fm'. cfm_AllocFrames enq_reliable n fm = ret fs fm' \<and>
    (if n \<le> cfm_CountFreeFrame fm
     then length fs = n \<and> distinct fs \<and> (\<forall>f\<in>set fs. \<not> cfm_held fm f) \<and> cfm_inv fm' \<and>
       (\<forall>g. cfm_held fm' g \<longleftrightarrow> cfm_held fm g \<or> g \<in> set fs) \<and>
       cfm_CountOccupiedFrame fm' = cfm_CountOccupiedFrame fm + n
     else fs = [] \<and> fm' = fm)"
proof (cases "n \<le> cfm_CountFreeFrame fm")
  case True
  then have "n \<le> length (cfm_free_frames fm)" by (simp add: cfm_inv_counts [OF assms])
  then obtain fs fm' where "cfm_AllocFrames enq_reliable n fm = ret fs fm'" "length fs = n"
    "cfm_inv fm'" "cfm_CountOccupiedFrame fm' = cfm_CountOccupiedFrame fm + n"
    "distinct fs" "\<forall>f\<in>set fs. \<not> cfm_held fm f \<and> cfm_held fm' f"
    "\<forall>g. cfm_held fm g \<longrightarrow> cfm_held fm' g"
    by (rule cfm_AllocFrames_enough [OF assms])
  moreover from this(1) have "cfm_held fm g \<or> g \<in> set fs" if "cfm_held fm' g" for g
    using that set_append [of "take n (cfm_free_frames fm)" "drop n (cfm_free_frames fm)"]
    by (auto simp: cfm_AllocFrames_def Let_def cfm_held_def split: if_splits)
  ultimately show ?thesis using True by auto
next
  case False
  then have "length (cfm_free_frames fm) < n" by (simp add: cfm_inv_counts [OF assms])
  with False show ?thesis by (simp add: cfm_AllocFrames_short enq_reliable_def)
qed

theorem cfm_AllocFrames_all_or_none_witness:
  "\<exists>fs fm'. cfm_AllocFrames enq_reliable 2 (cfm_new CPU 4 (0::nat)) = ret fs fm' \<and> fs = []"
  using cfm_AllocFrames_all_or_none [of "cfm_new CPU 4 (0::nat)" 2]
  by (simp add: cfm_inv_def cfm_new_def cfm_counts size_t_of_def)

end
