(* ===== verification/Span_Manager.thy ===== *)
theory Span_Manager
  imports Frame_Manager
begin

text \<open>
  The cache span managers of \<open>runtime/cache/span_manager.cpp\<close>. A span wraps one frame with
  a tag and a flag that keeps it from being released while the prefix cache refers to it. Spans
  are shared objects with a mutable flag, so a manager keeps the objects it has made in a store
  and a \<open>CacheSpan::Ptr\<close> is an index into that store.
\<close>

section \<open>Spans\<close>

record cache_span =
  span_frame :: cache_frame
  span_tag :: string
  span_has_extra_ref :: bool

type_synonym span_ptr = nat
type_synonym span_store = "cache_span list"

definition CacheSpan_Create :: "cache_frame \<Rightarrow> string \<Rightarrow> span_store \<Rightarrow> span_ptr \<times> span_store" where
  "CacheSpan_Create frame tag store =
     (length store, store @ [\<lparr>span_frame = frame, span_tag = tag, span_has_extra_ref = False\<rparr>])"

text \<open>\<open>Data\<close> is the address of the frame; \<open>Tag\<close>, \<open>Frame\<close> and \<open>Size\<close> are
  read the same way.\<close>

definition span_Data :: "span_store \<Rightarrow> span_ptr \<Rightarrow> addr" where
  "span_Data store p = frame_data (span_frame (store ! p))"

definition span_Size :: "span_store \<Rightarrow> span_ptr \<Rightarrow> int" where
  "span_Size store p = frame_bytes (span_frame (store ! p))"

definition RefCacheSpan :: "span_ptr \<Rightarrow> span_store \<Rightarrow> span_store" where
  "RefCacheSpan p store = store[p := (store ! p)\<lparr>span_has_extra_ref := True\<rparr>]"

definition UnrefCacheSpan :: "span_ptr \<Rightarrow> span_store \<Rightarrow> span_store" where
  "UnrefCacheSpan p store = store[p := (store ! p)\<lparr>span_has_extra_ref := False\<rparr>]"

definition HasExtraRef :: "span_store \<Rightarrow> span_ptr \<Rightarrow> bool" where
  "HasExtraRef store p = span_has_extra_ref (store ! p)"

section \<open>The default manager\<close>

record 'm default_sm =
  dsm_frame_manager :: "'m default_fm"
  dsm_span_size :: int
  dsm_initialized :: bool
  dsm_spans :: "(string \<times> span_ptr) list"
  dsm_store :: span_store

definition dsm_new :: "'m default_fm \<Rightarrow> 'm default_sm" where
  "dsm_new fm = \<lparr>dsm_frame_manager = fm, dsm_span_size = 0, dsm_initialized = False,
     dsm_spans = [], dsm_store = []\<rparr>"

definition dsm_Init :: "'m allocator \<Rightarrow> int \<Rightarrow> 'm default_sm \<Rightarrow> (unit, 'm default_sm) outcome" where
  "dsm_Init alloc span_size sm =
     (if dsm_initialized sm then ret () sm
      else if span_size \<le> 0 then throw ALLSPARK_PARAM_ERROR sm
      else case (if \<not> dfm_initialized (dsm_frame_manager sm)
                 then dfm_Init alloc span_size (dsm_frame_manager sm)
                 else ret () (dsm_frame_manager sm)) of
        (Inl e, fm') \<Rightarrow> (Inl e, sm\<lparr>dsm_frame_manager := fm'\<rparr>)
      | (Inr _, fm') \<Rightarrow>
          if span_size \<noteq> dfm_frame_size fm'
          then throw ALLSPARK_PARAM_ERROR (sm\<lparr>dsm_frame_manager := fm'\<rparr>)
          else ret () (sm\<lparr>dsm_frame_manager := fm', dsm_initialized := True,
                         dsm_span_size := span_size\<rparr>))"

definition dsm_GetSpan ::
  "'m allocator \<Rightarrow> string \<Rightarrow> bool \<Rightarrow> 'm default_sm \<Rightarrow> span_ptr option \<times> 'm default_sm" where
  "dsm_GetSpan alloc tag do_alloc sm =
     (case (if do_alloc then None else map_of (dsm_spans sm) tag) of
        Some p \<Rightarrow> (Some p, sm)
      | None \<Rightarrow>
          (case dfm_AllocFrame alloc (dsm_frame_manager sm) of
             (None, fm') \<Rightarrow> (None, sm\<lparr>dsm_frame_manager := fm'\<rparr>)
           | (Some frame, fm') \<Rightarrow>
               (case CacheSpan_Create frame tag (dsm_store sm) of
                  (p, store') \<Rightarrow>
                    (Some p, sm\<lparr>dsm_frame_manager := fm', dsm_store := store',
                              dsm_spans := AList.update tag p (dsm_spans sm)\<rparr>))))"

text \<open>The loop of \<open>ClaimSpan\<close>: the spans obtained, in order, until one call fails.\<close>

fun dsm_claim_loop ::
  "'m allocator \<Rightarrow> string \<Rightarrow> nat \<Rightarrow> 'm default_sm \<Rightarrow> span_ptr list \<times> 'm default_sm" where
  "dsm_claim_loop alloc tag 0 sm = ([], sm)"
| "dsm_claim_loop alloc tag (Suc n) sm =
     (case dsm_GetSpan alloc tag True sm of
        (None, sm') \<Rightarrow> ([], sm')
      | (Some p, sm') \<Rightarrow>
          (case dsm_claim_loop alloc tag n sm' of (ps, sm'') \<Rightarrow> (p # ps, sm'')))"

definition dsm_free_frame_of :: "span_ptr \<Rightarrow> 'm default_sm \<Rightarrow> 'm default_sm" where
  "dsm_free_frame_of p sm =
     sm\<lparr>dsm_frame_manager := dfm_FreeFrame (Some (span_frame (dsm_store sm ! p))) (dsm_frame_manager sm)\<rparr>"

text \<open>The result is the number of claimed spans, 0 or all, and the vector handed in.\<close>

definition dsm_ClaimSpan ::
  "'m allocator \<Rightarrow> span_ptr list \<Rightarrow> string \<Rightarrow> nat \<Rightarrow> 'm default_sm \<Rightarrow> (nat \<times> span_ptr list) \<times> 'm default_sm"
where
  "dsm_ClaimSpan alloc out_vec tag n sm =
     (case dsm_claim_loop alloc tag n sm of
        (new_spans, sm') \<Rightarrow>
          if length new_spans < n then ((0, out_vec), fold dsm_free_frame_of new_spans sm')
          else ((n, new_spans), sm'))"

definition dsm_ReleaseSpan_tag :: "string \<Rightarrow> 'm default_sm \<Rightarrow> 'm default_sm" where
  "dsm_ReleaseSpan_tag tag sm =
     (case map_of (dsm_spans sm) tag of
        None \<Rightarrow> sm
      | Some p \<Rightarrow>
          if HasExtraRef (dsm_store sm) p then sm
          else dsm_free_frame_of p (sm\<lparr>dsm_spans := AList.delete tag (dsm_spans sm)\<rparr>))"

definition dsm_ReleaseSpan :: "span_ptr \<Rightarrow> 'm default_sm \<Rightarrow> (unit, 'm default_sm) outcome" where
  "dsm_ReleaseSpan p sm =
     (if p \<ge> length (dsm_store sm) then (Inl UndefinedBehaviour, sm)
      else if HasExtraRef (dsm_store sm) p then ret () sm
      else ret () (dsm_free_frame_of p
             (sm\<lparr>dsm_spans := AList.delete (span_tag (dsm_store sm ! p)) (dsm_spans sm)\<rparr>)))"

fun dsm_ReleaseSpans :: "span_ptr list \<Rightarrow> 'm default_sm \<Rightarrow> (unit, 'm default_sm) outcome" where
  "dsm_ReleaseSpans [] sm = ret () sm"
| "dsm_ReleaseSpans (p # ps) sm =
     (case dsm_ReleaseSpan p sm of
        (Inl e, sm') \<Rightarrow> (Inl e, sm')
      | (Inr _, sm') \<Rightarrow> dsm_ReleaseSpans ps sm')"

section \<open>The concurrent manager\<close>

record 'm concurrent_sm =
  csm_frame_manager :: "'m concurrent_fm"
  csm_span_size :: int
  csm_initialized :: bool
  csm_store :: span_store

definition csm_new :: "'m concurrent_fm \<Rightarrow> 'm concurrent_sm" where
  "csm_new fm = \<lparr>csm_frame_manager = fm, csm_span_size = 0, csm_initialized = False, csm_store = []\<rparr>"

definition csm_Init ::
  "enqueue_ok \<Rightarrow> 'm allocator \<Rightarrow> (addr \<Rightarrow> 'm \<Rightarrow> 'm) \<Rightarrow> int \<Rightarrow> 'm concurrent_sm \<Rightarrow>
   (unit, 'm concurrent_sm) outcome"
where
  "csm_Init enq alloc dealloc span_size sm =
     (if csm_initialized sm then ret () sm
      else if span_size \<le> 0 then throw ALLSPARK_PARAM_ERROR sm
      else case (if \<not> cfm_initialized (csm_frame_manager sm)
                 then cfm_Init enq alloc dealloc span_size (csm_frame_manager sm)
                 else ret () (csm_frame_manager sm)) of
        (Inl e, fm') \<Rightarrow> (Inl e, sm\<lparr>csm_frame_manager := fm'\<rparr>)
      | (Inr _, fm') \<Rightarrow>
          if span_size \<noteq> cfm_frame_size fm'
          then throw ALLSPARK_PARAM_ERROR (sm\<lparr>csm_frame_manager := fm'\<rparr>)
          else ret () (sm\<lparr>csm_frame_manager := fm', csm_initialized := True,
                         csm_span_size := span_size\<rparr>))"

definition csm_GetSpan :: "string \<Rightarrow> bool \<Rightarrow> 'm concurrent_sm \<Rightarrow> span_ptr option \<times> 'm concurrent_sm" where
  "csm_GetSpan tag do_alloc sm =
     (case cfm_AllocFrame (csm_frame_manager sm) of
        (None, fm') \<Rightarrow> (None, sm\<lparr>csm_frame_manager := fm'\<rparr>)
      | (Some frame, fm') \<Rightarrow>
          (case CacheSpan_Create frame tag (csm_store sm) of
             (p, store') \<Rightarrow> (Some p, sm\<lparr>csm_frame_manager := fm', csm_store := store'\<rparr>)))"

text \<open>One span without a tag per frame.\<close>

definition spans_of_frames :: "cache_frame list \<Rightarrow> span_store" where
  "spans_of_frames fs = map (\<lambda>f. \<lparr>span_frame = f, span_tag = [], span_has_extra_ref = False\<rparr>) fs"

definition csm_ClaimSpan ::
  "enqueue_ok \<Rightarrow> span_ptr list \<Rightarrow> string \<Rightarrow> nat \<Rightarrow> 'm concurrent_sm \<Rightarrow>
   (nat \<times> span_ptr list, 'm concurrent_sm) outcome"
where
  "csm_ClaimSpan enq out_vec tag n sm =
     (case cfm_AllocFrames enq n (csm_frame_manager sm) of
        (Inl e, fm') \<Rightarrow> (Inl e, sm\<lparr>csm_frame_manager := fm'\<rparr>)
      | (Inr frames, fm') \<Rightarrow>
          if length frames < n then
            (if 0 < length frames then
               (case cfm_FreeFrames enq frames (length frames) fm' of
                  (Inl e, fm'') \<Rightarrow> (Inl e, sm\<lparr>csm_frame_manager := fm''\<rparr>)
                | (Inr _, fm'') \<Rightarrow> ret (0, out_vec) (sm\<lparr>csm_frame_manager := fm''\<rparr>))
             else ret (0, out_vec) (sm\<lparr>csm_frame_manager := fm'\<rparr>))
          else if length out_vec < n then (Inl UndefinedBehaviour, sm\<lparr>csm_frame_manager := fm'\<rparr>)
          else ret (n, [length (csm_store sm)..<length (csm_store sm) + n] @ drop n out_vec)
                 (sm\<lparr>csm_frame_manager := fm',
                     csm_store := csm_store sm @ spans_of_frames frames\<rparr>))"

definition csm_ReleaseSpan_tag :: "string \<Rightarrow> 'm concurrent_sm \<Rightarrow> (unit, 'm concurrent_sm) outcome" where
  "csm_ReleaseSpan_tag tag sm = throw ALLSPARK_UNKNOWN_ERROR sm"

definition csm_ReleaseSpan :: "enqueue_ok \<Rightarrow> span_ptr \<Rightarrow> 'm concurrent_sm \<Rightarrow> (unit, 'm concurrent_sm) outcome"
where
  "csm_ReleaseSpan enq p sm =
     (if p \<ge> length (csm_store sm) then (Inl UndefinedBehaviour, sm)
      else if HasExtraRef (csm_store sm) p then ret () sm
      else case cfm_FreeFrame enq (Some (span_frame (csm_store sm ! p))) (csm_frame_manager sm) of
        (r, fm') \<Rightarrow> (r, sm\<lparr>csm_frame_manager := fm'\<rparr>))"

text \<open>The overload for the first spans of a vector.\<close>

fun csm_ReleaseSpans ::
  "enqueue_ok \<Rightarrow> span_ptr list \<Rightarrow> 'm concurrent_sm \<Rightarrow> (unit, 'm concurrent_sm) outcome" where
  "csm_ReleaseSpans enq [] sm = ret () sm"
| "csm_ReleaseSpans enq (p # ps) sm =
     (case csm_ReleaseSpan enq p sm of
        (Inl e, sm') \<Rightarrow> (Inl e, sm')
      | (Inr _, sm') \<Rightarrow> csm_ReleaseSpans enq ps sm')"

section \<open>Lemmas\<close>

subsection \<open>The store\<close>

lemma length_RefCacheSpan [simp]: "length (RefCacheSpan p store) = length store"
  by (simp add: RefCacheSpan_def)

lemma length_UnrefCacheSpan [simp]: "length (UnrefCacheSpan p store) = length store"
  by (simp add: UnrefCacheSpan_def)

lemma HasExtraRef_Ref [simp]:
  "q < length store \<Longrightarrow> HasExtraRef (RefCacheSpan p store) q \<longleftrightarrow> q = p \<or> HasExtraRef store q"
  by (cases "p = q") (auto simp: HasExtraRef_def RefCacheSpan_def)

lemma HasExtraRef_Unref [simp]:
  "q < length store \<Longrightarrow> HasExtraRef (UnrefCacheSpan p store) q \<longleftrightarrow> q \<noteq> p \<and> HasExtraRef store q"
  by (cases "p = q") (auto simp: HasExtraRef_def UnrefCacheSpan_def)

lemma span_frame_Ref [simp]: "span_frame (RefCacheSpan p store ! q) = span_frame (store ! q)"
  by (cases "p < length store"; cases "p = q") (simp_all add: RefCacheSpan_def list_update_beyond)

lemma span_frame_Unref [simp]: "span_frame (UnrefCacheSpan p store ! q) = span_frame (store ! q)"
  by (cases "p < length store"; cases "p = q") (simp_all add: UnrefCacheSpan_def list_update_beyond)

subsection \<open>The concurrent manager\<close>

text \<open>A claim takes all spans or none.\<close>

lemma csm_ClaimSpan_enough:
  assumes inv: "cfm_inv (csm_frame_manager sm)"
    and room: "n \<le> length (cfm_free_frames (csm_frame_manager sm))" "n \<le> length out_vec"
  obtains ps sm' where "csm_ClaimSpan enq out_vec tag n sm = ret (n, ps @ drop n out_vec) sm'"
    "ps = [length (csm_store sm)..<length (csm_store sm) + n]"
    "cfm_inv (csm_frame_manager sm')"
    "cfm_CountOccupiedFrame (csm_frame_manager sm') = cfm_CountOccupiedFrame (csm_frame_manager sm) + n"
    "length (csm_store sm') = length (csm_store sm) + n"
    "\<forall>i<length (csm_store sm). csm_store sm' ! i = csm_store sm ! i"
    "distinct (map (\<lambda>p. span_frame (csm_store sm' ! p)) ps)"
    "\<forall>p\<in>set ps. \<not> HasExtraRef (csm_store sm') p \<and>
       \<not> cfm_held (csm_frame_manager sm) (span_frame (csm_store sm' ! p)) \<and>
       cfm_held (csm_frame_manager sm') (span_frame (csm_store sm' ! p))"
    "\<forall>g. cfm_held (csm_frame_manager sm) g \<longrightarrow> cfm_held (csm_frame_manager sm') g"
proof -
  let ?k = "length (csm_store sm)"
  obtain fs fm' where a: "cfm_AllocFrames enq n (csm_frame_manager sm) = ret fs fm'"
    and len: "length fs = n" and inv': "cfm_inv fm'"
    and occ: "cfm_CountOccupiedFrame fm' = cfm_CountOccupiedFrame (csm_frame_manager sm) + n"
    and d: "distinct fs"
    and h: "\<forall>f\<in>set fs. \<not> cfm_held (csm_frame_manager sm) f \<and> cfm_held fm' f"
    and keep: "\<forall>g. cfm_held (csm_frame_manager sm) g \<longrightarrow> cfm_held fm' g"
    by (rule cfm_AllocFrames_enough [OF inv room(1), of enq])
  let ?sm' = "sm\<lparr>csm_frame_manager := fm', csm_store := csm_store sm @ spans_of_frames fs\<rparr>"
  let ?ps = "[?k..<?k + n]"
  have r: "csm_ClaimSpan enq out_vec tag n sm = ret (n, ?ps @ drop n out_vec) ?sm'"
    using a len room(2) by (simp add: csm_ClaimSpan_def)
  have at: "csm_store ?sm' ! (?k + i) = \<lparr>span_frame = fs ! i, span_tag = [], span_has_extra_ref = False\<rparr>"
    if "i < n" for i using that len by (simp add: nth_append spans_of_frames_def)
  have frames: "map (\<lambda>p. span_frame (csm_store ?sm' ! p)) ?ps = fs"
    by (rule nth_equalityI) (use at len in auto)
  show ?thesis
  proof (rule that [OF r refl])
    show "cfm_inv (csm_frame_manager ?sm')" using inv' by simp
    show "cfm_CountOccupiedFrame (csm_frame_manager ?sm')
        = cfm_CountOccupiedFrame (csm_frame_manager sm) + n" using occ by simp
    show "\<forall>g. cfm_held (csm_frame_manager sm) g \<longrightarrow> cfm_held (csm_frame_manager ?sm') g"
      using keep by simp
    show "length (csm_store ?sm') = ?k + n" using len by (simp add: spans_of_frames_def)
    show "\<forall>i<?k. csm_store ?sm' ! i = csm_store sm ! i" by (simp add: nth_append)
    show "distinct (map (\<lambda>p. span_frame (csm_store ?sm' ! p)) ?ps)" using frames d by simp
    show "\<forall>p\<in>set ?ps. \<not> HasExtraRef (csm_store ?sm') p \<and>
       \<not> cfm_held (csm_frame_manager sm) (span_frame (csm_store ?sm' ! p)) \<and>
       cfm_held (csm_frame_manager ?sm') (span_frame (csm_store ?sm' ! p))"
    proof
      fix p assume "p \<in> set ?ps"
      then obtain i where i: "i < n" "p = ?k + i" by (auto simp: le_iff_add)
      then have "fs ! i \<in> set fs" using len by simp
      with at [OF i(1)] i h show "\<not> HasExtraRef (csm_store ?sm') p \<and>
         \<not> cfm_held (csm_frame_manager sm) (span_frame (csm_store ?sm' ! p)) \<and>
         cfm_held (csm_frame_manager ?sm') (span_frame (csm_store ?sm' ! p))"
        by (simp add: HasExtraRef_def)
    qed
  qed
qed

lemma csm_ClaimSpan_short:
  assumes "length (cfm_free_frames (csm_frame_manager sm)) < n"
    and "enq [] (cfm_free_frames (csm_frame_manager sm))"
  shows "csm_ClaimSpan enq out_vec tag n sm = ret (0, out_vec) sm"
  using cfm_AllocFrames_short [of "csm_frame_manager sm" n enq] assms by (simp add: csm_ClaimSpan_def)

text \<open>
  Releasing spans whose frames are distinct and held, without an extra reference, gives the
  frames back through the pool.
\<close>

lemma csm_ReleaseSpans_free:
  "\<forall>p\<in>set ps. p < length (csm_store sm) \<and> \<not> HasExtraRef (csm_store sm) p \<Longrightarrow>
   csm_ReleaseSpans enq_reliable ps sm =
     ret () (sm\<lparr>csm_frame_manager :=
        fold (\<lambda>f fm. snd (cfm_FreeFrame enq_reliable (Some f) fm))
          (map (\<lambda>p. span_frame (csm_store sm ! p)) ps) (csm_frame_manager sm)\<rparr>)"
  by (induction ps arbitrary: sm) (simp_all add: csm_ReleaseSpan_def)

text \<open>With an extra reference nothing is released.\<close>

lemma csm_ReleaseSpans_kept:
  "\<forall>p\<in>set ps. p < length (csm_store sm) \<and> HasExtraRef (csm_store sm) p \<Longrightarrow>
   csm_ReleaseSpans enq ps sm = ret () sm"
  by (induction ps) (simp_all add: csm_ReleaseSpan_def)

subsection \<open>The default manager\<close>

lemma dsm_free_frame_of_simps [simp]:
  "dsm_store (dsm_free_frame_of p sm) = dsm_store sm"
  "dsm_spans (dsm_free_frame_of p sm) = dsm_spans sm"
  "dsm_frame_manager (dsm_free_frame_of p sm) =
     dfm_FreeFrame (Some (span_frame (dsm_store sm ! p))) (dsm_frame_manager sm)"
  by (simp_all add: dsm_free_frame_of_def)

lemma fold_dsm_free_frame_of:
  "dsm_frame_manager (fold dsm_free_frame_of ps sm) =
     fold (\<lambda>f. dfm_FreeFrame (Some f)) (map (\<lambda>p. span_frame (dsm_store sm ! p)) ps) (dsm_frame_manager sm)"
  "dsm_store (fold dsm_free_frame_of ps sm) = dsm_store sm"
  "dsm_spans (fold dsm_free_frame_of ps sm) = dsm_spans sm"
  by (induction ps arbitrary: sm) simp_all

text \<open>A span just made is found again under its tag, without another allocation.\<close>

lemma dsm_GetSpan_alloc:
  assumes "dsm_GetSpan alloc tag True sm = (Some p, sm')"
  obtains frame fm' where "dfm_AllocFrame alloc (dsm_frame_manager sm) = (Some frame, fm')"
    "p = length (dsm_store sm)"
    "sm' = sm\<lparr>dsm_frame_manager := fm',
       dsm_store := dsm_store sm @ [\<lparr>span_frame = frame, span_tag = tag, span_has_extra_ref = False\<rparr>],
       dsm_spans := AList.update tag p (dsm_spans sm)\<rparr>"
  using assms by (auto simp: dsm_GetSpan_def CacheSpan_Create_def split: option.splits prod.splits)

lemma dsm_GetSpan_alloc_None:
  assumes "dsm_GetSpan alloc tag True sm = (None, sm')"
  obtains fm' where "dfm_AllocFrame alloc (dsm_frame_manager sm) = (None, fm')"
    "sm' = sm\<lparr>dsm_frame_manager := fm'\<rparr>"
  using assms by (auto simp: dsm_GetSpan_def CacheSpan_Create_def split: option.splits prod.splits)

context device_allocator
begin

text \<open>
  After the loop of a claim every new span wraps a frame of its own, which the pool now holds,
  and the number of occupied frames has grown by the number of spans.
\<close>

lemma dsm_claim_loop_held:
  "dsm_claim_loop alloc tag n sm = (ps, sm') \<Longrightarrow> dfm_inv live ok (dsm_frame_manager sm) \<Longrightarrow>
   dfm_inv live ok (dsm_frame_manager sm') \<and>
   dfm_CountOccupiedFrame (dsm_frame_manager sm') =
     dfm_CountOccupiedFrame (dsm_frame_manager sm) + length ps \<and>
   (\<exists>new. dsm_store sm' = dsm_store sm @ new) \<and>
   (\<forall>f. dfm_held (dsm_frame_manager sm) f \<longrightarrow> dfm_held (dsm_frame_manager sm') f) \<and>
   distinct (map (\<lambda>p. span_frame (dsm_store sm' ! p)) ps) \<and>
   (\<forall>p\<in>set ps. p < length (dsm_store sm') \<and>
      \<not> dfm_held (dsm_frame_manager sm) (span_frame (dsm_store sm' ! p)) \<and>
      dfm_held (dsm_frame_manager sm') (span_frame (dsm_store sm' ! p)))"
proof (induction n arbitrary: sm ps)
  case 0
  then show ?case by auto
next
  case (Suc n)
  obtain r sm1 where g: "dsm_GetSpan alloc tag True sm = (r, sm1)" by fastforce
  show ?case
  proof (cases r)
    case None
    with Suc.prems g have "ps = []" "sm' = sm1" by auto
    moreover obtain fm' where "dfm_AllocFrame alloc (dsm_frame_manager sm) = (None, fm')"
      and "sm1 = sm\<lparr>dsm_frame_manager := fm'\<rparr>"
      using g None by (auto elim: dsm_GetSpan_alloc_None)
    ultimately show ?thesis using dfm.alloc_frame_None [OF Suc.prems(2)] by auto
  next
    case (Some p)
    then obtain frame fm' where a: "dfm_AllocFrame alloc (dsm_frame_manager sm) = (Some frame, fm')"
      and p: "p = length (dsm_store sm)"
      and sm1: "sm1 = sm\<lparr>dsm_frame_manager := fm', dsm_store := dsm_store sm @
        [\<lparr>span_frame = frame, span_tag = tag, span_has_extra_ref = False\<rparr>],
        dsm_spans := AList.update tag p (dsm_spans sm)\<rparr>"
      using g by (auto elim: dsm_GetSpan_alloc)
    note one = dfm.alloc_frame_Some [OF Suc.prems(2) a]
    obtain qs where l: "dsm_claim_loop alloc tag n sm1 = (qs, sm')" and ps: "ps = p # qs"
      using Suc.prems(1) g Some by (auto split: prod.splits)
    have inv1: "dfm_inv live ok (dsm_frame_manager sm1)" using one by (simp add: sm1)
    note IH = Suc.IH [OF l inv1]
    from IH obtain new where new: "dsm_store sm' = dsm_store sm1 @ new" by blast
    have at: "span_frame (dsm_store sm' ! p) = frame" by (simp add: new sm1 p nth_append)
    have fresh: "frame \<noteq> span_frame (dsm_store sm' ! q)" if "q \<in> set qs" for q
      using IH that one by (auto simp: sm1)
    show ?thesis
      using IH one at new fresh by (auto simp: sm1 ps p)
  qed
qed

text \<open>A failed claim gives all its frames back.\<close>

lemma dsm_ClaimSpan_failed:
  assumes c: "dsm_ClaimSpan alloc out_vec tag n sm = ((0, out_vec'), sm')" and "0 < n"
    and inv: "dfm_inv live ok (dsm_frame_manager sm)"
  shows "out_vec' = out_vec"
    and "dfm_inv live ok (dsm_frame_manager sm')"
    and "dfm_CountOccupiedFrame (dsm_frame_manager sm') = dfm_CountOccupiedFrame (dsm_frame_manager sm)"
proof -
  obtain ps sm1 where l: "dsm_claim_loop alloc tag n sm = (ps, sm1)" by fastforce
  have s: "length ps < n" "out_vec' = out_vec" "sm' = fold dsm_free_frame_of ps sm1"
    using c l \<open>0 < n\<close> by (auto simp: dsm_ClaimSpan_def split: if_splits)
  note h = dsm_claim_loop_held [OF l inv]
  let ?fs = "map (\<lambda>p. span_frame (dsm_store sm1 ! p)) ps"
  have "dfm_inv live ok (fold (\<lambda>f. dfm_FreeFrame (Some f)) ?fs (dsm_frame_manager sm1)) \<and>
    dfm_CountOccupiedFrame (fold (\<lambda>f. dfm_FreeFrame (Some f)) ?fs (dsm_frame_manager sm1)) + length ?fs
      = dfm_CountOccupiedFrame (dsm_frame_manager sm1)"
    using dfm.free_all [of "dsm_frame_manager sm1" ?fs] h by auto
  with h s show "out_vec' = out_vec" "dfm_inv live ok (dsm_frame_manager sm')"
    "dfm_CountOccupiedFrame (dsm_frame_manager sm') = dfm_CountOccupiedFrame (dsm_frame_manager sm)"
    by (auto simp: fold_dsm_free_frame_of)
qed

end

section \<open>Properties\<close>

text \<open>
  C29: A claim on the concurrent span manager and the release of what was claimed. A claim that
  cannot be met changes nothing and leaves the vector of the caller alone; a claim that can be met
  delivers spans over different frames that nobody held, and releasing them restores the number of
  occupied frames.
\<close>

theorem csm_claim_release:
  assumes "cfm_inv (csm_frame_manager sm)" "n \<le> length out_vec"
  shows "\<exists>ps k sm'. csm_ClaimSpan enq_reliable out_vec tag n sm = ret (k, ps) sm' \<and>
    (if cfm_CountFreeFrame (csm_frame_manager sm) < n then k = 0 \<and> ps = out_vec \<and> sm' = sm
     else k = n \<and> drop n ps = drop n out_vec \<and>
       distinct (map (\<lambda>p. span_frame (csm_store sm' ! p)) (take n ps)) \<and>
       (\<forall>p\<in>set (take n ps). \<not> cfm_held (csm_frame_manager sm) (span_frame (csm_store sm' ! p))) \<and>
       cfm_CountOccupiedFrame (csm_frame_manager sm') =
         cfm_CountOccupiedFrame (csm_frame_manager sm) + n \<and>
       (\<exists>sm''. csm_ReleaseSpans enq_reliable (take n ps) sm' = ret () sm'' \<and>
          cfm_CountOccupiedFrame (csm_frame_manager sm'') =
            cfm_CountOccupiedFrame (csm_frame_manager sm)))"
proof (cases "cfm_CountFreeFrame (csm_frame_manager sm) < n")
  case True
  then show ?thesis
    using csm_ClaimSpan_short [of sm n enq_reliable out_vec tag]
    by (simp add: cfm_inv_counts [OF assms(1)] enq_reliable_def)
next
  case False
  let ?free = "\<lambda>f fm. snd (cfm_FreeFrame enq_reliable (Some f) fm)"
  from False have "n \<le> length (cfm_free_frames (csm_frame_manager sm))"
    by (simp add: cfm_inv_counts [OF assms(1)])
  then obtain ps sm' where c: "csm_ClaimSpan enq_reliable out_vec tag n sm = ret (n, ps @ drop n out_vec) sm'"
    and ps: "ps = [length (csm_store sm)..<length (csm_store sm) + n]"
    and inv': "cfm_inv (csm_frame_manager sm')"
    and occ: "cfm_CountOccupiedFrame (csm_frame_manager sm') =
      cfm_CountOccupiedFrame (csm_frame_manager sm) + n"
    and len': "length (csm_store sm') = length (csm_store sm) + n"
    and dist: "distinct (map (\<lambda>p. span_frame (csm_store sm' ! p)) ps)"
    and new: "\<forall>p\<in>set ps. \<not> HasExtraRef (csm_store sm') p \<and>
       \<not> cfm_held (csm_frame_manager sm) (span_frame (csm_store sm' ! p)) \<and>
       cfm_held (csm_frame_manager sm') (span_frame (csm_store sm' ! p))"
    by (rule csm_ClaimSpan_enough [OF assms(1) _ assms(2), of enq_reliable tag])
  have tk: "take n (ps @ drop n out_vec) = ps" "drop n (ps @ drop n out_vec) = drop n out_vec"
    by (simp_all add: ps)
  let ?fs = "map (\<lambda>p. span_frame (csm_store sm' ! p)) ps"
  have "\<forall>f\<in>set ?fs. cfm_held (csm_frame_manager sm') f" using new by auto
  then have "cfm_CountOccupiedFrame (fold ?free ?fs (csm_frame_manager sm')) + length ?fs =
      cfm_CountOccupiedFrame (csm_frame_manager sm')"
    using cfm.free_all [OF inv' dist] by blast
  moreover have "length ?fs = n" by (simp add: ps)
  moreover have "\<forall>p\<in>set ps. p < length (csm_store sm') \<and> \<not> HasExtraRef (csm_store sm') p"
    using new len' by (auto simp: ps)
  note csm_ReleaseSpans_free [OF this]
  ultimately show ?thesis using False c dist new occ
    by (intro exI [of _ "ps @ drop n out_vec"] exI [of _ n] exI [of _ sm']) (simp only: tk, simp)
qed

text \<open>An allocator that can serve as many requests as its state says.\<close>

definition few_alloc :: "nat allocator" where
  "few_alloc n m = (if m = 0 then (None, m) else (Some m, m - 1))"

theorem csm_claim_release_witness:
  "\<exists>ps k sm'. csm_ClaimSpan enq_reliable [0, 0] ''t'' 2 (csm_new (cfm_new CPU 0 (0::nat))) = ret (k, ps) sm' \<and>
     k = 0 \<and> ps = [0, 0]"
  using csm_claim_release [of "csm_new (cfm_new CPU 0 (0::nat))" 2 "[0, 0]" "''t''"]
  by (simp add: csm_new_def cfm_inv_def cfm_new_def cfm_counts size_t_of_def)

text \<open>
  A failed claim on the default span manager gives every frame back, but it leaves the tag in
  the table of spans. There is a manager, set up by its own operations over an allocator with
  memory for one frame, on which a claim of two spans fails, after which looking up the tag delivers
  a span over a frame that the pool counts as free and hands out again to another tag.
\<close>

theorem dsm_ClaimSpan_stale_tag:
  "\<exists>(sm :: nat default_sm) sm1 sm2 p q.
     dsm_Init few_alloc 16 (dsm_new (dfm_new CPU 1 0 1)) = ret () sm \<and>
     dsm_ClaimSpan few_alloc [] ''a'' 2 sm = ((0, []), sm1) \<and>
     dfm_CountOccupiedFrame (dsm_frame_manager sm1) = 0 \<and>
     dsm_GetSpan few_alloc ''a'' False sm1 = (Some p, sm1) \<and>
     dsm_GetSpan few_alloc ''b'' False sm1 = (Some q, sm2) \<and> p \<noteq> q \<and>
     span_Data (dsm_store sm2) p = span_Data (dsm_store sm2) q"
  by (simp add: dsm_Init_def dsm_new_def dfm_new_def dfm_Init_def few_alloc_def dfm_createFrame_def
      CacheFrame_Create_def dsm_ClaimSpan_def numeral_2_eq_2 dsm_GetSpan_def dfm_AllocFrame_def dfm_counts
      CacheSpan_Create_def dsm_free_frame_of_def dfm_FreeFrame_def span_Data_def)

end
