(* ===== verification/Virtual_Cache.thy ===== *)
theory Virtual_Cache
  imports Span_Manager
begin

text \<open>
  The per-request view of the key and value caches, \<open>runtime/cache/virtual_cache.cpp\<close>: one
  \<open>CacheArray\<close> per layer, a growing vector of spans with a table of their addresses (the
  TLB) that the attention kernels read, and \<open>SpannedVirtualCache\<close>, the vector of layers.
  The build defines \<open>CONFIG_CONCURRENT_SPAN\<close>, so spans are claimed in bulk from the
  concurrent span manager, which is shared and therefore passed along.
\<close>

section \<open>Configuration\<close>

datatype as_cache_mode = AsCacheDefault | AsCacheQuantI8 | AsCacheQuantU4

datatype quant_mode = QUANT_NONE | QUANT_I8 | QUANT_U4

record span_cache_config =
  cfg_mode :: as_cache_mode
  cfg_span_size :: int
  cfg_span_num_init :: int
  cfg_span_num_grow :: int

text \<open>The constructor: 0 disables the span cache, and then the other values are not checked.\<close>

definition SpanCacheConfig_new :: "as_cache_mode \<Rightarrow> int \<Rightarrow> int \<Rightarrow> int \<Rightarrow> exn + span_cache_config" where
  "SpanCacheConfig_new mode span_size num_init num_grow =
     (let cfg = \<lparr>cfg_mode = mode, cfg_span_size = span_size, cfg_span_num_init = num_init,
                 cfg_span_num_grow = num_grow\<rparr>
      in if \<not> (span_size = 0 \<or> span_size = 16 \<or> span_size = 32 \<or> span_size = 64 \<or> span_size = 128)
         then Inl (AsException ALLSPARK_PARAM_ERROR)
         else if span_size = 0 then Inr cfg
         else if num_init < 0 then Inl (AsException ALLSPARK_PARAM_ERROR)
         else if num_grow < 0 then Inl (AsException ALLSPARK_PARAM_ERROR)
         else Inr cfg)"

text \<open>\<open>Create\<close> catches every exception of the constructor and delivers a null pointer then.\<close>

definition SpanCacheConfig_Create :: "as_cache_mode \<Rightarrow> int \<Rightarrow> int \<Rightarrow> int \<Rightarrow> span_cache_config option" where
  "SpanCacheConfig_Create mode span_size num_init num_grow =
     (case SpanCacheConfig_new mode span_size num_init num_grow of Inl e \<Rightarrow> None | Inr cfg \<Rightarrow> Some cfg)"

fun CacheMode2String :: "as_cache_mode \<Rightarrow> string" where
  "CacheMode2String AsCacheDefault = ''AsCacheDefault''"
| "CacheMode2String AsCacheQuantI8 = ''AsCacheQuantI8''"
| "CacheMode2String AsCacheQuantU4 = ''AsCacheQuantU4''"

fun toQuantMode :: "as_cache_mode \<Rightarrow> quant_mode" where
  "toQuantMode AsCacheDefault = QUANT_NONE"
| "toQuantMode AsCacheQuantI8 = QUANT_I8"
| "toQuantMode AsCacheQuantU4 = QUANT_U4"

text \<open>
  Bytes of a span. The product of the three \<open>int\<close> factors must not overflow, which the
  language leaves undefined; the model has no bound on it.
\<close>

definition GetSpanSizeInBytes :: "span_cache_config \<Rightarrow> data_type \<Rightarrow> int \<Rightarrow> int \<Rightarrow> nat" where
  "GetSpanSizeInBytes cfg dt num_heads per_head_size =
     (let elems = nat (cfg_span_size cfg * num_heads * per_head_size);
          extra = nat (2 * cfg_span_size cfg * num_heads) * SizeofType FLOAT32
      in case cfg_mode cfg of
           AsCacheDefault \<Rightarrow> elems * SizeofType dt
         | AsCacheQuantI8 \<Rightarrow> elems * SizeofType INT8 + extra
         | AsCacheQuantU4 \<Rightarrow> elems * SizeofType UINT8 div 2 + extra)"

section \<open>One layer\<close>

record cache_array =
  ca_tag :: string
  ca_span_size :: int
  ca_layer_id :: int
  ca_cache :: "span_ptr list"
  ca_tlb :: "addr option list"
  ca_seq_length :: nat

text \<open>The table starts uninitialised: \<open>None\<close> is an entry that was never written.\<close>

definition CacheArray_new :: "string \<Rightarrow> int \<Rightarrow> int \<Rightarrow> int \<Rightarrow> cache_array" where
  "CacheArray_new manager_tag span_size layer_id max_num_spans =
     \<lparr>ca_tag = manager_tag @ ''_'' @ show_int layer_id, ca_span_size = span_size,
      ca_layer_id = layer_id, ca_cache = [], ca_tlb = replicate (nat max_num_spans) None,
      ca_seq_length = 0\<rparr>"

definition ca_GetSpanNum :: "cache_array \<Rightarrow> nat" where
  "ca_GetSpanNum ca = length (ca_cache ca)"

text \<open>Division rounding up, in \<open>size_t\<close>: the sum wraps.\<close>

definition uint_div_up :: "nat \<Rightarrow> nat \<Rightarrow> nat" where
  "uint_div_up x y = ((x + y + (2 ^ 64 - 1)) mod 2 ^ 64) div y"

definition ca_newSpan ::
  "enqueue_ok \<Rightarrow> cache_array \<Rightarrow> nat \<Rightarrow> 'm concurrent_sm \<Rightarrow> (nat \<times> span_ptr list, 'm concurrent_sm) outcome"
where
  "ca_newSpan enq ca n sm =
     csm_ClaimSpan enq (replicate n 0) (ca_tag ca @ ''_'' @ ''span'') n sm"

definition ca_destroySpan ::
  "enqueue_ok \<Rightarrow> span_ptr list \<Rightarrow> nat \<Rightarrow> 'm concurrent_sm \<Rightarrow> (unit, 'm concurrent_sm) outcome" where
  "ca_destroySpan enq spans n sm =
     (if n = 0 then ret () sm else csm_ReleaseSpans enq (take n spans) sm)"

text \<open>The addresses of new spans are copied into the table behind those of the present ones.\<close>

definition tlb_write :: "addr option list \<Rightarrow> nat \<Rightarrow> addr list \<Rightarrow> addr option list" where
  "tlb_write tlb start ptrs = take start tlb @ map Some ptrs @ drop (start + length ptrs) tlb"

definition ca_updateSeqLength ::
  "enqueue_ok \<Rightarrow> nat \<Rightarrow> cache_array \<times> 'm concurrent_sm \<Rightarrow> (bool, cache_array \<times> 'm concurrent_sm) outcome"
where
  "ca_updateSeqLength enq new_seq_length st =
     (case st of (ca, sm) \<Rightarrow>
      if new_seq_length = ca_seq_length ca then ret True st
      else if new_seq_length < ca_seq_length ca then throw ALLSPARK_RUNTIME_ERROR st
      else if size_t_of (ca_span_size ca) = 0 then (Inl UndefinedBehaviour, st)
      else
        let current_spans = ca_GetSpanNum ca;
            need_spans = uint_div_up new_seq_length (size_t_of (ca_span_size ca))
        in if length (ca_tlb ca) < need_spans then throw ALLSPARK_EXCEED_LIMIT_ERROR st
           else if current_spans < need_spans then
             (case ca_newSpan enq ca (need_spans - current_spans) sm of
                (Inl e, sm') \<Rightarrow> (Inl e, (ca, sm'))
              | (Inr (num_new_spans, new_spans), sm') \<Rightarrow>
                  if num_new_spans = need_spans - current_spans then
                    ret True
                      (ca\<lparr>ca_tlb := tlb_write (ca_tlb ca) current_spans
                                     (map (span_Data (csm_store sm')) new_spans),
                          ca_cache := ca_cache ca @ new_spans,
                          ca_seq_length := new_seq_length\<rparr>, sm')
                  else
                    (case ca_destroySpan enq new_spans num_new_spans sm' of
                       (Inl e, sm'') \<Rightarrow> (Inl e, (ca, sm''))
                     | (Inr _, sm'') \<Rightarrow> ret False (ca, sm'')))
           else ret True (ca\<lparr>ca_seq_length := new_seq_length\<rparr>, sm))"

definition ca_InitContext ::
  "enqueue_ok \<Rightarrow> int \<Rightarrow> cache_array \<times> 'm concurrent_sm \<Rightarrow> (bool, cache_array \<times> 'm concurrent_sm) outcome"
where
  "ca_InitContext enq context_length st = ca_updateSeqLength enq (size_t_of context_length) st"

definition ca_GetCachePtrVec ::
  "enqueue_ok \<Rightarrow> int \<Rightarrow> cache_array \<times> 'm concurrent_sm \<Rightarrow>
   (addr option list, cache_array \<times> 'm concurrent_sm) outcome"
where
  "ca_GetCachePtrVec enq increment st =
     (if increment < 0 then throw ALLSPARK_PARAM_ERROR st
      else if increment > 0 then
        (case ca_updateSeqLength enq (size_t_of (int (ca_seq_length (fst st)) + increment)) st of
           (Inl e, st') \<Rightarrow> (Inl e, st')
         | (Inr False, st') \<Rightarrow> throw ALLSPARK_CACHE_MEMORY_OUT st'
         | (Inr True, st') \<Rightarrow> ret (ca_tlb (fst st')) st')
      else ret (ca_tlb (fst st)) st)"

definition ca_GetCacheSpan :: "cache_array \<Rightarrow> int \<Rightarrow> exn + span_ptr" where
  "ca_GetCacheSpan ca index =
     (if index < 0 \<or> index \<ge> int (length (ca_cache ca)) then Inl (AsException ALLSPARK_PARAM_ERROR)
      else Inr (ca_cache ca ! nat index))"

text \<open>The destructor gives the spans back.\<close>

definition CacheArray_destroy ::
  "enqueue_ok \<Rightarrow> cache_array \<Rightarrow> 'm concurrent_sm \<Rightarrow> (unit, 'm concurrent_sm) outcome" where
  "CacheArray_destroy enq ca sm = ca_destroySpan enq (ca_cache ca) (length (ca_cache ca)) sm"

section \<open>All layers of a request\<close>

record virtual_cache =
  vc_tag :: string
  vc_cache_config :: span_cache_config
  vc_layer_num :: int
  vc_layer_cache :: "cache_array option list"

definition SpannedVirtualCache_new :: "span_cache_config \<Rightarrow> string \<Rightarrow> int \<Rightarrow> virtual_cache" where
  "SpannedVirtualCache_new cfg tag layer_num =
     \<lparr>vc_tag = tag, vc_cache_config = cfg, vc_layer_num = layer_num,
      vc_layer_cache = replicate (nat layer_num) None\<rparr>"

text \<open>
  Storing a new layer destroys the one that was there. A layer whose initialisation fails holds
  no span, so its own destructor does nothing.
\<close>

definition vc_InitLayer ::
  "enqueue_ok \<Rightarrow> int \<Rightarrow> int \<Rightarrow> int \<Rightarrow> int \<Rightarrow> int \<Rightarrow> virtual_cache \<times> 'm concurrent_sm \<Rightarrow>
   (as_status, virtual_cache \<times> 'm concurrent_sm) outcome"
where
  "vc_InitLayer enq layer_id num_heads per_head_size context_len max_num_spans st =
     (case st of (vc, sm) \<Rightarrow>
      if num_heads \<le> 0 \<or> per_head_size \<le> 0 then ret ALLSPARK_PARAM_ERROR st
      else if \<not> csm_initialized sm then ret ALLSPARK_RUNTIME_ERROR st
      else
        let layer = CacheArray_new (vc_tag vc) (cfg_span_size (vc_cache_config vc)) layer_id max_num_spans
        in case ca_InitContext enq context_len (layer, sm) of
             (Inl e, (_, sm')) \<Rightarrow> (Inl e, (vc, sm'))
           | (Inr False, (_, sm')) \<Rightarrow> ret ALLSPARK_MEMORY_ERROR (vc, sm')
           | (Inr True, (layer', sm')) \<Rightarrow>
               if layer_id < 0 \<or> layer_id \<ge> int (length (vc_layer_cache vc))
               then (Inl UndefinedBehaviour, (vc, sm'))
               else
                 (case (case vc_layer_cache vc ! nat layer_id of
                          None \<Rightarrow> ret () sm'
                        | Some old \<Rightarrow> CacheArray_destroy enq old sm') of
                    (Inl e, sm'') \<Rightarrow> (Inl e, (vc, sm''))
                  | (Inr _, sm'') \<Rightarrow>
                      ret ALLSPARK_SUCCESS
                        (vc\<lparr>vc_layer_cache := (vc_layer_cache vc)[nat layer_id := Some layer']\<rparr>, sm'')))"

text \<open>The layer at an index of the vector; a null pointer there is undefined behaviour.\<close>

definition vc_layer :: "virtual_cache \<Rightarrow> int \<Rightarrow> cache_array option" where
  "vc_layer vc layer_id =
     (if 0 \<le> layer_id \<and> layer_id < int (length (vc_layer_cache vc))
      then vc_layer_cache vc ! nat layer_id else None)"

definition vc_GetCache ::
  "enqueue_ok \<Rightarrow> int \<Rightarrow> int \<Rightarrow> virtual_cache \<times> 'm concurrent_sm \<Rightarrow>
   (addr option list, virtual_cache \<times> 'm concurrent_sm) outcome"
where
  "vc_GetCache enq layer_id increment st =
     (case st of (vc, sm) \<Rightarrow>
      if layer_id < 0 \<or> layer_id \<ge> vc_layer_num vc then throw ALLSPARK_PARAM_ERROR st
      else case vc_layer vc layer_id of
        None \<Rightarrow> (Inl UndefinedBehaviour, st)
      | Some ca \<Rightarrow>
          (case ca_GetCachePtrVec enq increment (ca, sm) of
             (r, (ca', sm')) \<Rightarrow>
               (r, (vc\<lparr>vc_layer_cache := (vc_layer_cache vc)[nat layer_id := Some ca']\<rparr>, sm'))))"

definition vc_GetSeqLength :: "virtual_cache \<Rightarrow> int \<Rightarrow> exn + nat" where
  "vc_GetSeqLength vc layer_id =
     (if layer_id < 0 \<or> layer_id \<ge> vc_layer_num vc then Inl (AsException ALLSPARK_RUNTIME_ERROR)
      else case vc_layer vc layer_id of
        None \<Rightarrow> Inl UndefinedBehaviour
      | Some ca \<Rightarrow> Inr (ca_seq_length ca))"

text \<open>
  \<open>FillCache\<close> appends one span to every layer, the spans of a cached prefix node, and sets
  the length as if all spans were full. The position is taken from the first layer.
\<close>

definition ca_fill :: "span_store \<Rightarrow> int \<Rightarrow> nat \<Rightarrow> span_ptr \<Rightarrow> cache_array \<Rightarrow> cache_array" where
  "ca_fill store span_size current_span_num p ca =
     ca\<lparr>ca_cache := ca_cache ca @ [p],
        ca_seq_length := size_t_of ((int current_span_num + 1) * span_size),
        ca_tlb := (ca_tlb ca)[current_span_num := Some (span_Data store p)]\<rparr>"

fun fill_layers ::
  "span_store \<Rightarrow> int \<Rightarrow> nat \<Rightarrow> span_ptr list \<Rightarrow> cache_array option list \<Rightarrow> exn + cache_array option list"
where
  "fill_layers store ss cur ps [] = Inr []"
| "fill_layers store ss cur [] (l # ls) = Inl UndefinedBehaviour"
| "fill_layers store ss cur (p # ps) (None # ls) = Inl UndefinedBehaviour"
| "fill_layers store ss cur (p # ps) (Some ca # ls) =
     (if cur < length (ca_tlb ca) then
        (case fill_layers store ss cur ps ls of
           Inl e \<Rightarrow> Inl e
         | Inr ls' \<Rightarrow> Inr (Some (ca_fill store ss cur p ca) # ls'))
      else Inl UndefinedBehaviour)"

definition vc_FillCache :: "span_store \<Rightarrow> span_ptr list \<Rightarrow> virtual_cache \<Rightarrow> exn + virtual_cache" where
  "vc_FillCache store spans vc =
     (case vc_layer vc 0 of
        None \<Rightarrow> Inl UndefinedBehaviour
      | Some ca \<Rightarrow>
          (case fill_layers store (cfg_span_size (vc_cache_config vc)) (ca_GetSpanNum ca) spans (vc_layer_cache vc) of
             Inl e \<Rightarrow> Inl e
           | Inr ls \<Rightarrow> Inr (vc\<lparr>vc_layer_cache := ls\<rparr>)))"

section \<open>What a layer keeps\<close>

text \<open>
  A layer has exactly as many spans as its length needs, its table holds the addresses of its
  spans at the same positions, and no size is near the end of its type.
\<close>

definition ceil_div :: "nat \<Rightarrow> nat \<Rightarrow> nat" where
  "ceil_div x y = (x + (y - 1)) div y"

definition ca_inv :: "span_store \<Rightarrow> cache_array \<Rightarrow> bool" where
  "ca_inv store ca \<longleftrightarrow>
     0 < ca_span_size ca \<and> ca_span_size ca < 2 ^ 31 \<and> length (ca_tlb ca) < 2 ^ 31 \<and>
     length (ca_cache ca) = ceil_div (ca_seq_length ca) (nat (ca_span_size ca)) \<and>
     length (ca_cache ca) \<le> length (ca_tlb ca) \<and>
     list_all (\<lambda>p. p < length store) (ca_cache ca) \<and>
     take (length (ca_cache ca)) (ca_tlb ca) = map (\<lambda>p. Some (span_Data store p)) (ca_cache ca)"

lemma ca_inv_tlb:
  "ca_inv store ca \<Longrightarrow>
   take (length (ca_cache ca)) (ca_tlb ca) = map (\<lambda>p. Some (span_Data store p)) (ca_cache ca)"
  unfolding ca_inv_def by blast

lemma ca_inv_length:
  "ca_inv store ca \<Longrightarrow> length (ca_cache ca) = ceil_div (ca_seq_length ca) (nat (ca_span_size ca))"
  unfolding ca_inv_def by blast

text \<open>The spans of a layer wrap frames of their own, which the pool counts as occupied.\<close>

definition ca_owned :: "'m concurrent_sm \<Rightarrow> cache_array \<Rightarrow> bool" where
  "ca_owned sm ca \<longleftrightarrow>
     distinct (map (\<lambda>p. span_frame (csm_store sm ! p)) (ca_cache ca)) \<and>
     (\<forall>p\<in>set (ca_cache ca). p < length (csm_store sm) \<and> \<not> HasExtraRef (csm_store sm) p \<and>
        cfm_held (csm_frame_manager sm) (span_frame (csm_store sm ! p)))"

lemma uint_div_up_ceil:
  assumes "0 < y" "x + y \<le> 2 ^ 64"
  shows "uint_div_up x y = ceil_div x y"
proof -
  have "x + y + (2 ^ 64 - 1) = (x + (y - 1)) + 2 ^ 64" using assms by simp
  moreover have "x + (y - 1) < 2 ^ 64" using assms by simp
  ultimately have "(x + y + (2 ^ 64 - 1)) mod 2 ^ 64 = x + (y - 1)"
    by (metis mod_add_self2 mod_less)
  then show ?thesis by (simp only: uint_div_up_def ceil_div_def)
qed

lemma ceil_div_mono: "x \<le> x' \<Longrightarrow> ceil_div x y \<le> ceil_div x' y"
  by (simp add: ceil_div_def div_le_mono)

text \<open>The least number of spans that can hold the tokens.\<close>

lemma ceil_div_le_iff: "0 < y \<Longrightarrow> ceil_div x y \<le> n \<longleftrightarrow> x \<le> n * y"
proof -
  assume y: "0 < y"
  have "ceil_div x y \<le> n \<longleftrightarrow> x + (y - 1) < Suc n * y"
    using y by (simp add: ceil_div_def div_less_iff_less_mult flip: less_Suc_eq_le)
  then show ?thesis using y by auto
qed

lemma size_t_of_int32: "0 < s \<Longrightarrow> s < 2 ^ 31 \<Longrightarrow> size_t_of s = nat s"
  by (simp add: size_t_of_def)

subsection \<open>Lengthening a layer\<close>

text \<open>What the extension to a new length asks of the pool and the table.\<close>

definition ca_missing :: "nat \<Rightarrow> cache_array \<Rightarrow> nat" where
  "ca_missing len ca = ceil_div len (nat (ca_span_size ca)) - length (ca_cache ca)"

lemma ca_updateSeqLength_unfold:
  assumes inv: "ca_inv (csm_store sm) ca" and longer: "ca_seq_length ca < len" and lt: "len < 2 ^ 63"
  shows "ca_updateSeqLength enq len (ca, sm) =
    (if length (ca_tlb ca) < ceil_div len (nat (ca_span_size ca))
     then throw ALLSPARK_EXCEED_LIMIT_ERROR (ca, sm)
     else if ca_missing len ca = 0 then ret True (ca\<lparr>ca_seq_length := len\<rparr>, sm)
     else case ca_newSpan enq ca (ca_missing len ca) sm of
        (Inl e, sm') \<Rightarrow> (Inl e, (ca, sm'))
      | (Inr (num_new_spans, new_spans), sm') \<Rightarrow>
          if num_new_spans = ca_missing len ca then
            ret True
              (ca\<lparr>ca_tlb := tlb_write (ca_tlb ca) (length (ca_cache ca))
                             (map (span_Data (csm_store sm')) new_spans),
                  ca_cache := ca_cache ca @ new_spans,
                  ca_seq_length := len\<rparr>, sm')
          else
            (case ca_destroySpan enq new_spans num_new_spans sm' of
               (Inl e, sm'') \<Rightarrow> (Inl e, (ca, sm''))
             | (Inr _, sm'') \<Rightarrow> ret False (ca, sm'')))"
proof -
  have ss: "0 < ca_span_size ca" "ca_span_size ca < 2 ^ 31" using inv by (auto simp: ca_inv_def)
  then have sz: "size_t_of (ca_span_size ca) = nat (ca_span_size ca)" by (rule size_t_of_int32)
  have need: "uint_div_up len (nat (ca_span_size ca)) = ceil_div len (nat (ca_span_size ca))"
    using ss lt by (intro uint_div_up_ceil) auto
  show ?thesis
    unfolding ca_updateSeqLength_def prod.case Let_def ca_GetSpanNum_def sz need ca_missing_def
    using longer ss by simp
qed

lemma ca_inv_needed:
  assumes "ca_inv store ca" "ca_seq_length ca < len"
  shows "length (ca_cache ca) + ca_missing len ca = ceil_div len (nat (ca_span_size ca))"
  using assms ceil_div_mono [of "ca_seq_length ca" len "nat (ca_span_size ca)"]
  by (simp add: ca_inv_def ca_missing_def)

text \<open>The table is too small: an error, and nothing has changed.\<close>

lemma ca_updateSeqLength_exceed:
  assumes "ca_inv (csm_store sm) ca" "ca_seq_length ca < len" "len < 2 ^ 63"
    and "length (ca_tlb ca) < ceil_div len (nat (ca_span_size ca))"
  shows "ca_updateSeqLength enq len (ca, sm) = throw ALLSPARK_EXCEED_LIMIT_ERROR (ca, sm)"
  using assms by (simp add: ca_updateSeqLength_unfold)

text \<open>The pool is too small: the answer is no, and nothing has changed.\<close>

lemma ca_updateSeqLength_no_memory:
  assumes inv: "ca_inv (csm_store sm) ca" "ca_seq_length ca < len" "len < 2 ^ 63"
    and fits: "ceil_div len (nat (ca_span_size ca)) \<le> length (ca_tlb ca)"
    and short: "length (cfm_free_frames (csm_frame_manager sm)) < ca_missing len ca"
    and q: "enq [] (cfm_free_frames (csm_frame_manager sm))"
  shows "ca_updateSeqLength enq len (ca, sm) = ret False (ca, sm)"
proof -
  have "csm_ClaimSpan enq (replicate (ca_missing len ca) 0) (ca_tag ca @ ''_'' @ ''span'')
      (ca_missing len ca) sm = ret (0, replicate (ca_missing len ca) 0) sm"
    using short q by (intro csm_ClaimSpan_short) auto
  with fits short show ?thesis
    by (simp add: ca_updateSeqLength_unfold [OF inv] ca_newSpan_def ca_destroySpan_def)
qed

text \<open>Both suffice: the layer has the new length, and the pool exactly the missing frames less.\<close>

lemma tlb_write_take:
  assumes "take k tlb = map Some as" "k = length as" "k + length ptrs \<le> length tlb"
  shows "take (k + length ptrs) (tlb_write tlb k ptrs) = map Some (as @ ptrs)"
    and "length (tlb_write tlb k ptrs) = length tlb"
  using assms by (auto simp: tlb_write_def)

lemma ca_updateSeqLength_grows:
  assumes inv: "ca_inv (csm_store sm) ca" and owned: "ca_owned sm ca"
    and pool: "cfm_inv (csm_frame_manager sm)"
    and longer: "ca_seq_length ca < len" and lt: "len < 2 ^ 63"
    and fits: "ceil_div len (nat (ca_span_size ca)) \<le> length (ca_tlb ca)"
    and room: "ca_missing len ca \<le> length (cfm_free_frames (csm_frame_manager sm))"
  obtains ca' sm' where "ca_updateSeqLength enq len (ca, sm) = ret True (ca', sm')"
    "ca_inv (csm_store sm') ca'" "ca_owned sm' ca'" "cfm_inv (csm_frame_manager sm')"
    "ca_seq_length ca' = len" "ca_span_size ca' = ca_span_size ca"
    "length (ca_tlb ca') = length (ca_tlb ca)"
    "\<exists>new. ca_cache ca' = ca_cache ca @ new"
    "cfm_CountOccupiedFrame (csm_frame_manager sm') =
       cfm_CountOccupiedFrame (csm_frame_manager sm) + ca_missing len ca"
proof (cases "ca_missing len ca = 0")
  case True
  show ?thesis
  proof (rule that)
    show "ca_updateSeqLength enq len (ca, sm) = ret True (ca\<lparr>ca_seq_length := len\<rparr>, sm)"
      using True fits by (simp add: ca_updateSeqLength_unfold [OF inv longer lt])
    show "ca_inv (csm_store sm) (ca\<lparr>ca_seq_length := len\<rparr>)"
      using inv True ca_inv_needed [OF inv longer] by (auto simp: ca_inv_def)
  qed (use owned pool True in \<open>auto simp: ca_owned_def\<close>)
next
  case False
  let ?n = "ca_missing len ca" and ?k = "length (ca_cache ca)"
  obtain ps sm' where c: "csm_ClaimSpan enq (replicate ?n 0) (ca_tag ca @ ''_'' @ ''span'') ?n sm
      = ret (?n, ps @ drop ?n (replicate ?n 0)) sm'"
    and ps: "ps = [length (csm_store sm)..<length (csm_store sm) + ?n]"
    and pool': "cfm_inv (csm_frame_manager sm')"
    and occ: "cfm_CountOccupiedFrame (csm_frame_manager sm')
      = cfm_CountOccupiedFrame (csm_frame_manager sm) + ?n"
    and len': "length (csm_store sm') = length (csm_store sm) + ?n"
    and old: "\<forall>i<length (csm_store sm). csm_store sm' ! i = csm_store sm ! i"
    and dist: "distinct (map (\<lambda>p. span_frame (csm_store sm' ! p)) ps)"
    and new: "\<forall>p\<in>set ps. \<not> HasExtraRef (csm_store sm') p \<and>
       \<not> cfm_held (csm_frame_manager sm) (span_frame (csm_store sm' ! p)) \<and>
       cfm_held (csm_frame_manager sm') (span_frame (csm_store sm' ! p))"
    and keep: "\<forall>g. cfm_held (csm_frame_manager sm) g \<longrightarrow> cfm_held (csm_frame_manager sm') g"
    by (rule csm_ClaimSpan_enough [OF pool room, of "replicate ?n 0" enq]) auto
  let ?ca' = "ca\<lparr>ca_tlb := tlb_write (ca_tlb ca) ?k (map (span_Data (csm_store sm')) ps),
      ca_cache := ca_cache ca @ ps, ca_seq_length := len\<rparr>"
  have need: "?k + ?n = ceil_div len (nat (ca_span_size ca))" by (rule ca_inv_needed [OF inv longer])
  have lenps: "length ps = ?n" by (simp add: ps)
  have valid: "\<forall>p\<in>set (ca_cache ca). p < length (csm_store sm)"
    using inv by (simp add: ca_inv_def list_all_iff)
  have same: "map (\<lambda>p. Some (span_Data (csm_store sm) p)) (ca_cache ca)
      = map Some (map (span_Data (csm_store sm')) (ca_cache ca))"
    using valid old by (auto simp: span_Data_def)
  have tk: "take ?k (ca_tlb ca) = map Some (map (span_Data (csm_store sm')) (ca_cache ca))"
    using ca_inv_tlb [OF inv] same by (rule trans)
  note tw = tlb_write_take [OF tk, of "map (span_Data (csm_store sm')) ps"]
  have r: "ca_updateSeqLength enq len (ca, sm) = ret True (?ca', sm')"
    using False fits c by (simp add: ca_updateSeqLength_unfold [OF inv longer lt] ca_newSpan_def)
  show ?thesis
  proof (rule that [OF r])
    show "ca_inv (csm_store sm') ?ca'"
      using inv need lenps fits tw valid len' by (auto simp: ca_inv_def list_all_iff ps)
    show "ca_owned sm' ?ca'"
      using owned dist new valid old keep len'
      by (auto simp: ca_owned_def HasExtraRef_def ps cong: map_cong)
    show "length (ca_tlb ?ca') = length (ca_tlb ca)"
      using tw lenps need fits by simp
  qed (use pool' occ in auto)
qed

subsection \<open>Destroying a layer\<close>

lemma CacheArray_destroy_owned:
  assumes owned: "ca_owned sm ca" and pool: "cfm_inv (csm_frame_manager sm)"
  obtains sm' where "CacheArray_destroy enq_reliable ca sm = ret () sm'"
    "cfm_inv (csm_frame_manager sm')" "csm_store sm' = csm_store sm"
    "cfm_CountOccupiedFrame (csm_frame_manager sm') + length (ca_cache ca) =
       cfm_CountOccupiedFrame (csm_frame_manager sm)"
proof -
  let ?fs = "map (\<lambda>p. span_frame (csm_store sm ! p)) (ca_cache ca)"
  let ?free = "\<lambda>f fm. snd (cfm_FreeFrame enq_reliable (Some f) fm)"
  let ?sm' = "sm\<lparr>csm_frame_manager := fold ?free ?fs (csm_frame_manager sm)\<rparr>"
  have "csm_ReleaseSpans enq_reliable (ca_cache ca) sm = ret () ?sm'"
    using owned by (intro csm_ReleaseSpans_free) (auto simp: ca_owned_def)
  then have r: "CacheArray_destroy enq_reliable ca sm = ret () ?sm'"
    by (cases "ca_cache ca") (simp_all add: CacheArray_destroy_def ca_destroySpan_def)
  have "cfm_inv (fold ?free ?fs (csm_frame_manager sm)) \<and>
     cfm_CountOccupiedFrame (fold ?free ?fs (csm_frame_manager sm)) + length ?fs =
       cfm_CountOccupiedFrame (csm_frame_manager sm)"
    using cfm.free_all [OF pool, of ?fs] owned by (auto simp: ca_owned_def)
  with r show ?thesis by (intro that [of ?sm']) simp_all
qed

subsection \<open>Filling from the prefix cache\<close>

lemma ceil_div_mult [simp]: "0 < y \<Longrightarrow> ceil_div (n * y) y = n"
proof -
  assume y: "0 < y"
  have "ceil_div (n * y) y = ((y - 1) + n * y) div y" by (simp add: ceil_div_def add.commute)
  also have "\<dots> = n + (y - 1) div y" using y by (intro div_mult_self1) simp
  finally show ?thesis using y by simp
qed

lemma ca_fill_inv:
  assumes inv: "ca_inv store ca" and cur: "length (ca_cache ca) = cur" "cur < length (ca_tlb ca)"
    and p: "p < length store"
  shows "ca_inv store (ca_fill store (ca_span_size ca) cur p ca)"
    and "ca_seq_length (ca_fill store (ca_span_size ca) cur p ca) = (cur + 1) * nat (ca_span_size ca)"
proof -
  have ss: "0 < ca_span_size ca" "ca_span_size ca < 2 ^ 31" using inv by (auto simp: ca_inv_def)
  have tl: "length (ca_tlb ca) < 2 ^ 31" using inv by (simp add: ca_inv_def)
  have "(int cur + 1) * ca_span_size ca = int ((cur + 1) * nat (ca_span_size ca))"
    using ss by (simp add: algebra_simps)
  moreover have "(cur + 1) * nat (ca_span_size ca) \<le> 2 ^ 31 * 2 ^ 31"
    using ss tl cur by (intro mult_mono) auto
  ultimately have seq: "size_t_of ((int cur + 1) * ca_span_size ca) = (cur + 1) * nat (ca_span_size ca)"
    by (simp only:) (rule size_t_of_nat, simp)
  then show "ca_seq_length (ca_fill store (ca_span_size ca) cur p ca) = (cur + 1) * nat (ca_span_size ca)"
    by (simp add: ca_fill_def)
  have "take (Suc cur) ((ca_tlb ca)[cur := Some (span_Data store p)]) =
      take cur (ca_tlb ca) @ [Some (span_Data store p)]"
    using cur by (simp add: take_Suc_conv_app_nth)
  then have tk: "take (Suc cur) ((ca_tlb ca)[cur := Some (span_Data store p)]) =
      map (\<lambda>p. Some (span_Data store p)) (ca_cache ca @ [p])"
    using ca_inv_tlb [OF inv] cur by simp
  have "ceil_div ((cur + 1) * nat (ca_span_size ca)) (nat (ca_span_size ca)) = cur + 1"
    using ss by (intro ceil_div_mult) simp
  then show "ca_inv store (ca_fill store (ca_span_size ca) cur p ca)"
    using inv cur p tk seq by (simp add: ca_inv_def ca_fill_def)
qed

lemma fill_layers_ok:
  assumes "length ps = length ls"
    and "\<forall>l\<in>set ls. \<exists>ca. l = Some ca \<and> cur < length (ca_tlb ca)"
  shows "fill_layers store ss cur ps ls =
    Inr (map2 (\<lambda>p l. map_option (ca_fill store ss cur p) l) ps ls)"
  using assms by (induction ps ls rule: list_induct2) auto

subsection \<open>The whole life of a layer\<close>

text \<open>The states after a series of requests, each of which may succeed, be refused or throw.\<close>

definition ca_run ::
  "enqueue_ok \<Rightarrow> nat list \<Rightarrow> cache_array \<times> 'm concurrent_sm \<Rightarrow> cache_array \<times> 'm concurrent_sm" where
  "ca_run enq lens st = fold (\<lambda>len st. snd (ca_updateSeqLength enq len st)) lens st"

definition ca_ok :: "nat \<Rightarrow> cache_array \<times> 'm concurrent_sm \<Rightarrow> bool" where
  "ca_ok base st \<longleftrightarrow> ca_inv (csm_store (snd st)) (fst st) \<and> ca_owned (snd st) (fst st) \<and>
     cfm_inv (csm_frame_manager (snd st)) \<and>
     cfm_CountOccupiedFrame (csm_frame_manager (snd st)) = base + length (ca_cache (fst st))"

lemma ca_updateSeqLength_ok:
  assumes "ca_ok base (ca, sm)" "len < 2 ^ 63"
  shows "ca_ok base (snd (ca_updateSeqLength enq_reliable len (ca, sm)))"
proof -
  have inv: "ca_inv (csm_store sm) ca" and ow: "ca_owned sm ca" and fm: "cfm_inv (csm_frame_manager sm)"
    using assms by (simp_all add: ca_ok_def)
  consider "len \<le> ca_seq_length ca"
    | "ca_seq_length ca < len" "length (ca_tlb ca) < ceil_div len (nat (ca_span_size ca))"
    | "ca_seq_length ca < len" "ceil_div len (nat (ca_span_size ca)) \<le> length (ca_tlb ca)"
        "length (cfm_free_frames (csm_frame_manager sm)) < ca_missing len ca"
    | "ca_seq_length ca < len" "ceil_div len (nat (ca_span_size ca)) \<le> length (ca_tlb ca)"
        "ca_missing len ca \<le> length (cfm_free_frames (csm_frame_manager sm))" by linarith
  then show ?thesis
  proof cases
    case 1
    then show ?thesis using assms by (auto simp: ca_updateSeqLength_def)
  next
    case 2
    then show ?thesis using assms ca_updateSeqLength_exceed [OF inv _ assms(2)] by simp
  next
    case 3
    then show ?thesis
      using assms ca_updateSeqLength_no_memory [OF inv _ assms(2)] by (simp add: enq_reliable_def)
  next
    case 4
    obtain ca' sm' where "ca_updateSeqLength enq_reliable len (ca, sm) = ret True (ca', sm')"
      "ca_inv (csm_store sm') ca'" "ca_owned sm' ca'" "cfm_inv (csm_frame_manager sm')"
      "ca_seq_length ca' = len" "ca_span_size ca' = ca_span_size ca"
      "cfm_CountOccupiedFrame (csm_frame_manager sm') =
        cfm_CountOccupiedFrame (csm_frame_manager sm) + ca_missing len ca"
      by (rule ca_updateSeqLength_grows [OF inv ow fm 4(1) assms(2) 4(2,3)])
    moreover from this have "length (ca_cache ca') = length (ca_cache ca) + ca_missing len ca"
      using ca_inv_needed [OF inv 4(1)] ca_inv_length [of "csm_store sm'" ca'] by simp
    ultimately show ?thesis
      using assms(1) by (simp add: ca_ok_def)
  qed
qed

lemma ca_run_ok:
  "ca_ok base st \<Longrightarrow> \<forall>len\<in>set lens. len < 2 ^ 63 \<Longrightarrow> ca_ok base (ca_run enq_reliable lens st)"
proof (induction lens arbitrary: st)
  case (Cons len lens)
  then show ?case
    using ca_updateSeqLength_ok [of base "fst st" "snd st" len] by (simp add: ca_run_def)
qed (simp add: ca_run_def)

lemma CacheArray_new_ok:
  assumes "cfm_inv (csm_frame_manager sm)" "0 < span_size" "span_size < 2 ^ 31" "max_num_spans < 2 ^ 31"
  shows "ca_ok (cfm_CountOccupiedFrame (csm_frame_manager sm))
    (CacheArray_new tag span_size layer_id max_num_spans, sm)"
  using assms by (simp add: ca_ok_def ca_inv_def ca_owned_def CacheArray_new_def ceil_div_def)

section \<open>Properties\<close>

text \<open>
  C15: Lengthening the cache of a layer, for a well-formed layer and pool, a length below
  \<open>2 ^ 63\<close> and a queue that accepts its elements, has exactly four outcomes, decided by the
  lengths, the table and the free frames: nothing to do, the error for a shorter length, the
  error for a table that is too small, a refusal for lack of frames (in all of these nothing has
  changed), or success.
\<close>

theorem updateSeqLength_outcome:
  assumes "ca_inv (csm_store sm) ca" "ca_owned sm ca" "cfm_inv (csm_frame_manager sm)" "len < 2 ^ 63"
  shows "let need = ceil_div len (nat (ca_span_size ca)); r = ca_updateSeqLength enq_reliable len (ca, sm)
    in (if len = ca_seq_length ca then r = ret True (ca, sm)
        else if len < ca_seq_length ca then r = throw ALLSPARK_RUNTIME_ERROR (ca, sm)
        else if length (ca_tlb ca) < need then r = throw ALLSPARK_EXCEED_LIMIT_ERROR (ca, sm)
        else if cfm_CountFreeFrame (csm_frame_manager sm) < need - length (ca_cache ca)
          then r = ret False (ca, sm)
        else \<exists>ca' sm'. r = ret True (ca', sm') \<and> ca_seq_length ca' = len \<and>
               length (ca_cache ca') = need \<and> ca_inv (csm_store sm') ca' \<and> ca_owned sm' ca' \<and>
               cfm_inv (csm_frame_manager sm') \<and>
               cfm_CountOccupiedFrame (csm_frame_manager sm') =
                 cfm_CountOccupiedFrame (csm_frame_manager sm) + (need - length (ca_cache ca)))"
proof -
  let ?need = "ceil_div len (nat (ca_span_size ca))"
  consider (same) "len = ca_seq_length ca" | (shorter) "len < ca_seq_length ca"
    | (exceed) "ca_seq_length ca < len" "length (ca_tlb ca) < ?need"
    | (nomem) "ca_seq_length ca < len" "?need \<le> length (ca_tlb ca)"
        "length (cfm_free_frames (csm_frame_manager sm)) < ca_missing len ca"
    | (grow) "ca_seq_length ca < len" "?need \<le> length (ca_tlb ca)"
        "ca_missing len ca \<le> length (cfm_free_frames (csm_frame_manager sm))" by linarith
  then show ?thesis
  proof cases
    case same
    then show ?thesis by (simp add: ca_updateSeqLength_def)
  next
    case shorter
    then show ?thesis by (simp add: ca_updateSeqLength_def)
  next
    case exceed
    then show ?thesis using ca_updateSeqLength_exceed [OF assms(1) _ assms(4)] by simp
  next
    case nomem
    then show ?thesis
      using ca_updateSeqLength_no_memory [OF assms(1) _ assms(4), of enq_reliable]
      by (simp add: cfm_inv_counts [OF assms(3)] ca_missing_def enq_reliable_def)
  next
    case grow
    obtain ca' sm' where *: "ca_updateSeqLength enq_reliable len (ca, sm) = ret True (ca', sm')"
      "ca_inv (csm_store sm') ca'" "ca_owned sm' ca'" "cfm_inv (csm_frame_manager sm')"
      "ca_seq_length ca' = len" "ca_span_size ca' = ca_span_size ca"
      "cfm_CountOccupiedFrame (csm_frame_manager sm') =
        cfm_CountOccupiedFrame (csm_frame_manager sm) + ca_missing len ca"
      by (rule ca_updateSeqLength_grows [OF assms(1,2,3) grow(1) assms(4) grow(2,3)])
    then have "length (ca_cache ca') = ?need" by (simp add: ca_inv_def)
    with * grow show ?thesis by (auto simp: cfm_inv_counts [OF assms(3)] ca_missing_def)
  qed
qed

text \<open>A pool of three frames of 16 bytes, as the managers set it up on an allocator that hands
  out consecutive addresses.\<close>

definition bump_alloc :: "nat allocator" where
  "bump_alloc n m = (Some m, m + nat n)"

definition sample_sm :: "nat concurrent_sm" where
  "sample_sm = snd (csm_Init enq_reliable bump_alloc (\<lambda>a m. m) 16 (csm_new (cfm_new CPU 3 4096)))"

definition sample_layer :: cache_array where
  "sample_layer = CacheArray_new ''req'' 16 0 4"

lemma sample_sm_eq:
  "let frame = \<lambda>a. \<lparr>frame_data = a, frame_bytes = 16, frame_tag = ''frame'', frame_device = CPU\<rparr>;
       fs = [frame 4096, frame 4112, frame 4128]
   in sample_sm = \<lparr>csm_frame_manager =
        \<lparr>cfm_device_type = CPU, cfm_initialized = True, cfm_free_frames = fs, cfm_free_frame_count = 3,
         cfm_total_frame_count = 3, cfm_frame_size = 16, cfm_init_frames = 3, cfm_mem = 4144,
         cfm_created = fs\<rparr>,
      csm_span_size = 16, csm_initialized = True, csm_store = []\<rparr>"
  by (simp add: sample_sm_def csm_Init_def csm_new_def cfm_Init_def cfm_new_def bump_alloc_def
      cfm_createFrame_def CacheFrame_Create_def enq_reliable_def numeral_3_eq_3)

lemmas sample_defs = sample_sm_eq [unfolded Let_def] sample_layer_def CacheArray_new_def

lemma sample_ok:
  "ca_inv (csm_store sample_sm) sample_layer" "ca_owned sample_sm sample_layer"
  "cfm_inv (csm_frame_manager sample_sm)"
  by (simp_all add: ca_inv_def ca_owned_def cfm_inv_def sample_defs ceil_div_def)

lemma sample_counts [simp]:
  "ca_seq_length sample_layer = 0" "ca_span_size sample_layer = 16" "length (ca_tlb sample_layer) = 4"
  "ca_cache sample_layer = []" "cfm_CountFreeFrame (csm_frame_manager sample_sm) = 3"
  "cfm_CountOccupiedFrame (csm_frame_manager sample_sm) = 0"
  by (simp_all add: sample_defs cfm_counts size_t_of_def)

theorem updateSeqLength_outcome_witness:
  "\<exists>ca' sm'. ca_updateSeqLength enq_reliable 33 (sample_layer, sample_sm) = ret True (ca', sm') \<and>
     length (ca_cache ca') = 3 \<and> cfm_CountOccupiedFrame (csm_frame_manager sm') = 3"
  using updateSeqLength_outcome [OF sample_ok, of 33] by (auto simp: ceil_div_def Let_def)

text \<open>
  C14: No frame is lost over the life of a layer. After any series of requests for a length, whether
  each succeeded, was refused for lack of frames or threw, the pool has as many frames occupied as
  before plus the spans the layer holds, and destroying the layer brings it back to where it was.
\<close>

theorem layer_lifetime:
  assumes "cfm_inv (csm_frame_manager sm)" "0 < span_size" "span_size < 2 ^ 31" "max_num_spans < 2 ^ 31"
    and "\<forall>len\<in>set lens. len < 2 ^ 63"
    and "ca_run enq_reliable lens (CacheArray_new tag span_size layer_id max_num_spans, sm) = (ca, sm')"
  shows "cfm_CountOccupiedFrame (csm_frame_manager sm') =
      cfm_CountOccupiedFrame (csm_frame_manager sm) + ceil_div (ca_seq_length ca) (nat (ca_span_size ca)) \<and>
    (\<exists>sm''. CacheArray_destroy enq_reliable ca sm' = ret () sm'' \<and>
      cfm_inv (csm_frame_manager sm'') \<and>
      cfm_CountOccupiedFrame (csm_frame_manager sm'') = cfm_CountOccupiedFrame (csm_frame_manager sm))"
proof (intro conjI)
  have ok: "ca_ok (cfm_CountOccupiedFrame (csm_frame_manager sm)) (ca, sm')"
    using ca_run_ok [OF CacheArray_new_ok [OF assms(1,2,3,4)] assms(5)] assms(6) by metis
  then show "cfm_CountOccupiedFrame (csm_frame_manager sm') =
      cfm_CountOccupiedFrame (csm_frame_manager sm) + ceil_div (ca_seq_length ca) (nat (ca_span_size ca))"
    using ca_inv_length [of "csm_store sm'" ca] by (simp add: ca_ok_def)
  obtain sm'' where "CacheArray_destroy enq_reliable ca sm' = ret () sm''"
    "cfm_inv (csm_frame_manager sm'')"
    "cfm_CountOccupiedFrame (csm_frame_manager sm'') + length (ca_cache ca) =
       cfm_CountOccupiedFrame (csm_frame_manager sm')"
    using ok CacheArray_destroy_owned [of sm' ca] by (auto simp: ca_ok_def)
  then show "\<exists>sm''. CacheArray_destroy enq_reliable ca sm' = ret () sm'' \<and>
      cfm_inv (csm_frame_manager sm'') \<and>
      cfm_CountOccupiedFrame (csm_frame_manager sm'') = cfm_CountOccupiedFrame (csm_frame_manager sm)"
    using ok by (simp add: ca_ok_def)
qed

theorem layer_lifetime_witness:
  "case ca_run enq_reliable [10, 20, 5, 50] (sample_layer, sample_sm) of (ca, sm') \<Rightarrow>
     cfm_CountOccupiedFrame (csm_frame_manager sm') = ceil_div (ca_seq_length ca) (nat (ca_span_size ca)) \<and>
     (\<exists>sm''. CacheArray_destroy enq_reliable ca sm' = ret () sm'' \<and>
        cfm_CountOccupiedFrame (csm_frame_manager sm'') = 0)"
  using layer_lifetime [OF sample_ok(3), of 16 4 "[10, 20, 5, 50]" "''req''" 0]
  by (auto simp: sample_layer_def split: prod.split)

text \<open>
  The layers of a virtual cache that hold, one after the other, the spans of the given nodes (each
  with one span per layer), with room for further ones.
\<close>

definition layers_hold :: "span_store \<Rightarrow> nat \<Rightarrow> nat \<Rightarrow> span_ptr list list \<Rightarrow> virtual_cache \<Rightarrow> bool" where
  "layers_hold store layers room nodes vc \<longleftrightarrow>
     (\<exists>cas. vc_layer_cache vc = map Some cas \<and> length cas = layers \<and>
        (\<forall>i<layers. ca_inv store (cas ! i) \<and> ca_cache (cas ! i) = map (\<lambda>ps. ps ! i) nodes \<and>
           int (ca_seq_length (cas ! i)) = int (length nodes) * cfg_span_size (vc_cache_config vc) \<and>
           ca_span_size (cas ! i) = cfg_span_size (vc_cache_config vc) \<and>
           length nodes + room \<le> length (ca_tlb (cas ! i))))"

lemma vc_FillCache_eq:
  assumes "vc_layer_cache vc = map Some cas" "cas \<noteq> []" "length spans = length cas"
    and "\<forall>ca\<in>set cas. length (ca_cache ca) = n \<and> n < length (ca_tlb ca)"
  shows "vc_FillCache store spans vc =
    Inr (vc\<lparr>vc_layer_cache := map Some (map2 (ca_fill store (cfg_span_size (vc_cache_config vc)) n) spans cas)\<rparr>)"
proof -
  let ?ss = "cfg_span_size (vc_cache_config vc)"
  have "vc_layer vc 0 = Some (hd cas)"
    using assms(1,2) by (simp add: vc_layer_def hd_conv_nth)
  moreover have "ca_GetSpanNum (hd cas) = n"
    using assms(2,4) by (simp add: ca_GetSpanNum_def)
  moreover have "fill_layers store ?ss n spans (vc_layer_cache vc)
      = Inr (map Some (map2 (ca_fill store ?ss n) spans cas))"
    using fill_layers_ok [of spans "map Some cas" n store ?ss] assms(1,3,4)
    by (auto simp: zip_map2 split_beta)
  ultimately show ?thesis by (simp add: vc_FillCache_def)
qed

lemma layers_hold_fill:
  assumes hold: "layers_hold store layers (Suc room) nodes vc" and l: "0 < layers" "length spans = layers"
    and spans: "\<forall>p\<in>set spans. p < length store"
  shows "\<exists>vc'. vc_FillCache store spans vc = Inr vc' \<and> layers_hold store layers room (nodes @ [spans]) vc' \<and>
    vc_cache_config vc' = vc_cache_config vc"
proof -
  let ?ss = "cfg_span_size (vc_cache_config vc)"
  let ?n = "length nodes"
  obtain cas where cas: "vc_layer_cache vc = map Some cas" "length cas = layers"
    and at: "\<And>i. i < layers \<Longrightarrow> ca_inv store (cas ! i) \<and> ca_cache (cas ! i) = map (\<lambda>ps. ps ! i) nodes \<and>
       ca_span_size (cas ! i) = ?ss \<and> Suc (?n + room) \<le> length (ca_tlb (cas ! i))"
    using hold by (auto simp: layers_hold_def)
  let ?cas = "map2 (ca_fill store ?ss ?n) spans cas"
  have "length (ca_cache (cas ! i)) = ?n \<and> ?n < length (ca_tlb (cas ! i))" if "i < layers" for i
    using at [OF that] by simp
  then have "\<forall>ca\<in>set cas. length (ca_cache ca) = ?n \<and> ?n < length (ca_tlb ca)"
    using cas(2) by (auto simp: in_set_conv_nth)
  then have r: "vc_FillCache store spans vc = Inr (vc\<lparr>vc_layer_cache := map Some ?cas\<rparr>)"
    using cas l by (intro vc_FillCache_eq) auto
  have "ca_inv store (?cas ! i) \<and> ca_cache (?cas ! i) = map (\<lambda>ps. ps ! i) (nodes @ [spans]) \<and>
       int (ca_seq_length (?cas ! i)) = int (length (nodes @ [spans])) * ?ss \<and> ca_span_size (?cas ! i) = ?ss \<and>
       length (nodes @ [spans]) + room \<le> length (ca_tlb (?cas ! i))" if i: "i < layers" for i
  proof -
    have "spans ! i < length store" using spans l i by auto
    moreover have "0 < ?ss" using at [OF i] by (simp add: ca_inv_def)
    ultimately show ?thesis
      using at [OF i] ca_fill_inv [of store "cas ! i" ?n "spans ! i"] i cas(2) l
      by (auto simp: ca_fill_def algebra_simps)
  qed
  then have "layers_hold store layers room (nodes @ [spans]) (vc\<lparr>vc_layer_cache := map Some ?cas\<rparr>)"
    unfolding layers_hold_def using cas(2) l by (intro exI [of _ ?cas]) simp
  with r show ?thesis by auto
qed

text \<open>
  Attaching a cached prefix node. When every layer is well formed with the same number of
  spans and has a free table entry, and one span per layer is given, the spans are appended to all
  layers, every layer stays well formed and its length becomes that of full spans only.
\<close>

theorem FillCache_layers:
  assumes "vc_layer_cache vc = map Some cas" "cas \<noteq> []" "length spans = length cas"
    and "\<forall>ca\<in>set cas. ca_inv store ca \<and> length (ca_cache ca) = n \<and> n < length (ca_tlb ca) \<and>
        ca_span_size ca = cfg_span_size (vc_cache_config vc)"
    and "\<forall>p\<in>set spans. p < length store"
  shows "\<exists>vc' cas'. vc_FillCache store spans vc = Inr vc' \<and> vc_layer_cache vc' = map Some cas' \<and>
    length cas' = length cas \<and>
    (\<forall>i<length cas. ca_inv store (cas' ! i) \<and> ca_cache (cas' ! i) = ca_cache (cas ! i) @ [spans ! i] \<and>
       int (ca_seq_length (cas' ! i)) = int (n + 1) * cfg_span_size (vc_cache_config vc))"
proof -
  let ?ss = "cfg_span_size (vc_cache_config vc)"
  let ?cas = "map2 (ca_fill store ?ss n) spans cas"
  have r: "vc_FillCache store spans vc = Inr (vc\<lparr>vc_layer_cache := map Some ?cas\<rparr>)"
    using assms by (intro vc_FillCache_eq) auto
  have step: "ca_inv store (?cas ! i)" "ca_cache (?cas ! i) = ca_cache (cas ! i) @ [spans ! i]"
    "ca_seq_length (?cas ! i) = (n + 1) * nat ?ss" if "i < length cas" for i
    using that assms(3,4,5) ca_fill_inv [of store "cas ! i" n "spans ! i"] nth_mem [of i cas]
      nth_mem [of i spans]
    by (auto simp: ca_fill_def)
  have "0 < ?ss" using assms(2,4) by (cases cas) (auto simp: ca_inv_def)
  with r step assms(3) show ?thesis
    by (intro exI [of _ "vc\<lparr>vc_layer_cache := map Some ?cas\<rparr>"] exI [of _ ?cas]) (simp add: algebra_simps)
qed

definition sample_span :: cache_span where
  "sample_span = \<lparr>span_frame = \<lparr>frame_data = 64, frame_bytes = 16, frame_tag = ''frame'', frame_device = CPU\<rparr>,
     span_tag = [], span_has_extra_ref = True\<rparr>"

definition sample_vc :: virtual_cache where
  "sample_vc = \<lparr>vc_tag = ''req'', vc_cache_config = \<lparr>cfg_mode = AsCacheDefault, cfg_span_size = 16,
      cfg_span_num_init = 4, cfg_span_num_grow = 0\<rparr>, vc_layer_num = 2,
      vc_layer_cache = [Some sample_layer, Some sample_layer]\<rparr>"

theorem FillCache_layers_witness:
  "\<exists>vc' cas'. vc_FillCache [sample_span, sample_span] [0, 1] sample_vc = Inr vc' \<and>
     vc_layer_cache vc' = map Some cas' \<and> length cas' = 2 \<and> ca_seq_length (cas' ! 0) = 16"
proof -
  have "ca_inv [sample_span, sample_span] sample_layer"
    by (simp add: ca_inv_def sample_layer_def CacheArray_new_def ceil_div_def)
  then show ?thesis
    using FillCache_layers [of sample_vc "[sample_layer, sample_layer]" "[0, 1]" "[sample_span, sample_span]" 0]
    by (auto simp: sample_vc_def)
qed

end
