(* ===== verification/Murmur_Hash.thy ===== *)
theory Murmur_Hash
  imports Prelude "HOL-Library.Word"
begin

text \<open>
  \<open>MurmurHash3_x86_32\<close> of \<open>third_party/from_source/smhasher/MurmurHash3.cpp\<close>, the hash by
  which the prefix cache identifies a prefix, on a list of bytes. The blocks of four bytes are read on
  a little-endian machine.
\<close>

unbundle bit_operations_syntax

type_synonym byte = "8 word"

definition rotl32 :: "32 word \<Rightarrow> nat \<Rightarrow> 32 word" where
  "rotl32 x r = push_bit r x OR drop_bit (32 - r) x"

definition fmix32 :: "32 word \<Rightarrow> 32 word" where
  "fmix32 h =
     (let h1 = h XOR drop_bit 16 h; h2 = h1 * 0x85ebca6b; h3 = h2 XOR drop_bit 13 h2;
          h4 = h3 * 0xc2b2ae35
      in h4 XOR drop_bit 16 h4)"

definition mix_k1 :: "32 word \<Rightarrow> 32 word" where
  "mix_k1 k = rotl32 (k * 0xcc9e2d51) 15 * 0x1b873593"

definition le_word :: "byte list \<Rightarrow> 32 word" where
  "le_word bs = foldr (\<lambda>b w. push_bit 8 w OR ucast b) bs 0"

text \<open>The blocks, then the tail of up to three bytes.\<close>

fun murmur_body :: "byte list \<Rightarrow> 32 word \<Rightarrow> 32 word" where
  "murmur_body (a # b # c # d # bs) h1 =
     murmur_body bs (rotl32 (h1 XOR mix_k1 (le_word [a, b, c, d])) 13 * 5 + 0xe6546b64)"
| "murmur_body [] h1 = h1"
| "murmur_body tail h1 = h1 XOR mix_k1 (le_word tail)"

definition MurmurHash3_x86_32 :: "byte list \<Rightarrow> 32 word \<Rightarrow> 32 word" where
  "MurmurHash3_x86_32 key seed = fmix32 (murmur_body key seed XOR of_nat (length key))"

end
