(* ===== verification/Prefix_Node.thy ===== *)
theory Prefix_Node
  imports Virtual_Cache Murmur_Hash "HOL-Library.Product_Lexorder"
begin

text \<open>
  The parts of the prefix cache, \<open>runtime/cache/prefix_cache_manager_member.hpp\<close>: the cached
  node, the order in which nodes are given up, the evictor that holds the unreferenced nodes in that
  order, the union of one device and the host workspace for copies. Nodes are shared objects with
  mutable fields, so they live in a store and a \<open>PrefixNodePtr\<close> is an index into it.
\<close>

section \<open>Nodes\<close>

record prefix_node =
  pn_k_cache :: "span_ptr list"
  pn_v_cache :: "span_ptr list"
  pn_ref_cnt :: int
  pn_prefix_len :: int
  pn_cache_num :: int
  pn_last_access_time :: int
  pn_device_type :: device_type
  pn_hash :: string
  pn_is_ready :: bool

type_synonym node_ptr = nat
type_synonym node_store = "prefix_node list"

definition DEFAULT_HASH_STR :: string where
  "DEFAULT_HASH_STR = ''not_hashed''"

text \<open>The constructor. Times are in nanoseconds of the steady clock.\<close>

definition PrefixNode_new ::
  "span_ptr list \<Rightarrow> span_ptr list \<Rightarrow> int \<Rightarrow> int \<Rightarrow> device_type \<Rightarrow> string \<Rightarrow> exn + prefix_node" where
  "PrefixNode_new k_cache_in v_cache_in prefix_len ts dev hash_str =
     (if length k_cache_in \<noteq> length v_cache_in then Inl (AsException ALLSPARK_RUNTIME_ERROR)
      else Inr \<lparr>pn_k_cache = k_cache_in, pn_v_cache = v_cache_in, pn_ref_cnt = 0,
                pn_prefix_len = prefix_len, pn_cache_num = int (length k_cache_in),
                pn_last_access_time = ts, pn_device_type = dev, pn_hash = hash_str,
                pn_is_ready = False\<rparr>)"

text \<open>\<open>operator<\<close>: smaller nodes are given up first.\<close>

definition pn_less :: "prefix_node \<Rightarrow> prefix_node \<Rightarrow> bool" where
  "pn_less a b =
     (if pn_last_access_time a \<noteq> pn_last_access_time b
      then pn_last_access_time a < pn_last_access_time b
      else if pn_prefix_len a \<noteq> pn_prefix_len b then pn_prefix_len a > pn_prefix_len b
      else pn_hash a < pn_hash b)"

text \<open>The spans of a node in the order in which the loops over \<open>cache_num\<close> visit them.\<close>

definition spans_upto :: "nat \<Rightarrow> prefix_node \<Rightarrow> span_ptr list" where
  "spans_upto n nd = concat (map (\<lambda>j. [pn_k_cache nd ! j, pn_v_cache nd ! j]) [0..<n])"

definition node_spans :: "prefix_node \<Rightarrow> span_ptr list" where
  "node_spans nd = spans_upto (nat (pn_cache_num nd)) nd"

text \<open>The key that the comparison compares: time, then the longer prefix first, then the hash.\<close>

definition pn_key :: "prefix_node \<Rightarrow> int \<times> int \<times> string" where
  "pn_key nd = (pn_last_access_time nd, - pn_prefix_len nd, pn_hash nd)"

lemma pn_less_key: "pn_less a b \<longleftrightarrow> pn_key a < pn_key b"
  by (auto simp: pn_less_def pn_key_def less_prod_def)

section \<open>The evictor\<close>

text \<open>
  \<open>std::set\<close> of node pointers under that comparison, as the list of its elements in order.
  The comparison reads mutable fields of the nodes. An insertion or a removal while the elements
  are out of order is undefined behaviour.
\<close>

type_synonym lru_evictor = "node_ptr list"

definition ev_ordered :: "node_store \<Rightarrow> lru_evictor \<Rightarrow> bool" where
  "ev_ordered nodes ev = sorted_wrt (\<lambda>p q. pn_less (nodes ! p) (nodes ! q)) ev"

definition ev_equiv :: "node_store \<Rightarrow> node_ptr \<Rightarrow> node_ptr \<Rightarrow> bool" where
  "ev_equiv nodes p q = (\<not> pn_less (nodes ! p) (nodes ! q) \<and> \<not> pn_less (nodes ! q) (nodes ! p))"

fun ev_insert :: "node_store \<Rightarrow> node_ptr \<Rightarrow> lru_evictor \<Rightarrow> lru_evictor" where
  "ev_insert nodes p [] = [p]"
| "ev_insert nodes p (q # qs) =
     (if pn_less (nodes ! p) (nodes ! q) then p # q # qs
      else if pn_less (nodes ! q) (nodes ! p) then q # ev_insert nodes p qs
      else q # qs)"

definition ev_Add :: "node_store \<Rightarrow> node_ptr \<Rightarrow> lru_evictor \<Rightarrow> exn + lru_evictor" where
  "ev_Add nodes p ev =
     (if ev_ordered nodes ev then Inr (ev_insert nodes p ev) else Inl UndefinedBehaviour)"

definition ev_Del :: "node_store \<Rightarrow> node_ptr \<Rightarrow> lru_evictor \<Rightarrow> exn + lru_evictor" where
  "ev_Del nodes p ev =
     (if ev_ordered nodes ev then Inr (filter (\<lambda>q. \<not> ev_equiv nodes p q) ev)
      else Inl UndefinedBehaviour)"

definition ev_FindVictim :: "node_store \<Rightarrow> lru_evictor \<Rightarrow> string" where
  "ev_FindVictim nodes ev = (case ev of [] \<Rightarrow> DEFAULT_HASH_STR | p # _ \<Rightarrow> pn_hash (nodes ! p))"

text \<open>A negative count makes \<open>reserve\<close> throw.\<close>

definition ev_FindMultiVictims :: "node_store \<Rightarrow> int \<Rightarrow> lru_evictor \<Rightarrow> exn + string list" where
  "ev_FindMultiVictims nodes k ev =
     (let k' = min (int (length ev)) k
      in if k' < 0 then Inl StdLengthError
         else Inr (map (\<lambda>p. pn_hash (nodes ! p)) (take (nat k') ev)))"

definition ev_GetAllCandidatesHash :: "node_store \<Rightarrow> lru_evictor \<Rightarrow> exn + string list" where
  "ev_GetAllCandidatesHash nodes ev = ev_FindMultiVictims nodes (int (length ev)) ev"

definition ev_Reset :: "lru_evictor \<Rightarrow> lru_evictor" where
  "ev_Reset ev = []"

definition ev_Size :: "lru_evictor \<Rightarrow> int" where
  "ev_Size ev = int (length ev)"

section \<open>The union of a device\<close>

text \<open>The frame manager of a union is the one its span manager draws from.\<close>

record 'm cache_union =
  cu_device_type :: device_type
  cu_capacity :: int
  cu_evictor :: lru_evictor
  cu_span_manager :: "'m concurrent_sm"
  cu_hash_table :: "(string \<times> node_ptr) list"

abbreviation cu_frame_manager :: "'m cache_union \<Rightarrow> 'm concurrent_fm" where
  "cu_frame_manager u \<equiv> csm_frame_manager (cu_span_manager u)"

definition CacheUnion_new :: "device_type \<Rightarrow> int \<Rightarrow> 'm concurrent_sm \<Rightarrow> 'm cache_union" where
  "CacheUnion_new dev capacity sm =
     \<lparr>cu_device_type = dev, cu_capacity = capacity, cu_evictor = [], cu_span_manager = sm,
      cu_hash_table = []\<rparr>"

text \<open>\<open>hash_table.size() < capacity\<close>: the capacity is converted to \<open>size_t\<close>.\<close>

definition cu_has_room :: "'m cache_union \<Rightarrow> bool" where
  "cu_has_room u = (length (cu_hash_table u) < size_t_of (cu_capacity u))"

section \<open>The host workspace\<close>

text \<open>Division of \<open>int\<close>, which rounds towards zero.\<close>

definition c_div :: "int \<Rightarrow> int \<Rightarrow> int" where
  "c_div a b = sgn a * sgn b * (\<bar>a\<bar> div \<bar>b\<bar>)"

lemma c_div_nonneg [simp]: "0 \<le> a \<Longrightarrow> 0 < b \<Longrightarrow> c_div a b = a div b"
  by (cases "a = 0") (simp_all add: c_div_def sgn_if)

text \<open>Blocks of host memory by number; the queue holds those that are free.\<close>

record memcpy_workspace =
  ws_block_num :: int
  ws_block_size :: nat
  ws_available_blocks :: "nat list"

definition CalcWorkspaceSize :: "int \<Rightarrow> int \<Rightarrow> int \<Rightarrow> int \<Rightarrow> int \<Rightarrow> nat" where
  "CalcWorkspaceSize max_length max_batch token_per_span frame_per_node frame_size =
     size_t_of (c_div (max_length + token_per_span - 1) token_per_span * max_batch * frame_per_node * frame_size)"

definition MemcpyWorkspace_new :: "int \<Rightarrow> int \<Rightarrow> int \<Rightarrow> int \<Rightarrow> int \<Rightarrow> memcpy_workspace" where
  "MemcpyWorkspace_new max_length max_batch token_per_span frame_per_node frame_size =
     \<lparr>ws_block_num = max_batch,
      ws_block_size = CalcWorkspaceSize max_length max_batch token_per_span frame_per_node frame_size,
      ws_available_blocks = [0..<nat max_batch]\<rparr>"

definition ws_pop :: "memcpy_workspace \<Rightarrow> nat option \<times> memcpy_workspace" where
  "ws_pop ws =
     (case ws_available_blocks ws of
        [] \<Rightarrow> (None, ws)
      | b # bs \<Rightarrow> (Some b, ws\<lparr>ws_available_blocks := bs\<rparr>))"

text \<open>The deleter of the shared pointer to a block.\<close>

definition ws_push :: "nat \<Rightarrow> memcpy_workspace \<Rightarrow> memcpy_workspace" where
  "ws_push b ws = ws\<lparr>ws_available_blocks := ws_available_blocks ws @ [b]\<rparr>"

section \<open>Hashes\<close>

text \<open>
  The token tensor holds \<open>int64\<close> values; their bytes in memory order are hashed, and the hash is
  written in decimal with leading zeros to ten places.
\<close>

definition token_bytes :: "64 word \<Rightarrow> byte list" where
  "token_bytes t = map (\<lambda>i. ucast (drop_bit (8 * i) t)) [0..<8]"

definition setw10 :: "string \<Rightarrow> string" where
  "setw10 s = replicate (10 - length s) (CHR ''0'') @ s"

definition hash_tokens :: "64 word list \<Rightarrow> string" where
  "hash_tokens toks = setw10 (show_nat (unat (MurmurHash3_x86_32 (concat (map token_bytes toks)) 0)))"

section \<open>Lemmas\<close>

lemma ev_equiv_key: "ev_equiv nodes p q \<longleftrightarrow> pn_key (nodes ! p) = pn_key (nodes ! q)"
  by (auto simp: ev_equiv_def pn_less_key)

lemma ev_ordered_key: "ev_ordered nodes ev \<longleftrightarrow> sorted_wrt (<) (map (\<lambda>p. pn_key (nodes ! p)) ev)"
  by (simp add: ev_ordered_def sorted_wrt_map pn_less_key)

lemma ev_ordered_simps [simp]:
  "ev_ordered nodes []"
  "ev_ordered nodes (p # ps) \<longleftrightarrow> (\<forall>q\<in>set ps. pn_key (nodes ! p) < pn_key (nodes ! q)) \<and> ev_ordered nodes ps"
  by (auto simp: ev_ordered_def pn_less_key)


lemma ev_insert_fresh:
  assumes "\<forall>q\<in>set ev. pn_key (nodes ! q) \<noteq> pn_key (nodes ! p)" "ev_ordered nodes ev"
  shows "set (ev_insert nodes p ev) = insert p (set ev) \<and> ev_ordered nodes (ev_insert nodes p ev) \<and>
    length (ev_insert nodes p ev) = Suc (length ev)"
  using assms
proof (induction ev)
  case Nil
  then show ?case by simp
next
  case (Cons q qs)
  then have "pn_key (nodes ! q) \<noteq> pn_key (nodes ! p)" by simp
  then consider "pn_key (nodes ! p) < pn_key (nodes ! q)" | "pn_key (nodes ! q) < pn_key (nodes ! p)"
    by (meson linorder_neqE)
  then show ?case
  proof cases
    case 1
    with Cons.prems show ?thesis by (auto simp: pn_less_key intro: less_trans)
  next
    case 2
    then have "\<not> pn_key (nodes ! p) < pn_key (nodes ! q)" by (rule less_not_sym)
    with 2 Cons show ?thesis by (auto simp: pn_less_key)
  qed
qed

text \<open>An equivalent element keeps the new one out.\<close>

lemma ev_insert_present:
  assumes "q \<in> set ev" "pn_key (nodes ! q) = pn_key (nodes ! p)" "ev_ordered nodes ev"
  shows "ev_insert nodes p ev = ev"
  using assms
proof (induction ev)
  case Nil
  then show ?case by simp
next
  case (Cons r rs)
  show ?case
  proof (cases "r = q")
    case True
    with Cons.prems show ?thesis by (simp add: pn_less_key)
  next
    case False
    with Cons.prems have "q \<in> set rs" by simp
    with Cons.prems have lt: "pn_key (nodes ! r) < pn_key (nodes ! p)" by auto
    then have "\<not> pn_key (nodes ! p) < pn_key (nodes ! r)" by (rule less_not_sym)
    with lt Cons \<open>q \<in> set rs\<close> show ?thesis by (simp add: pn_less_key)
  qed
qed

lemma ev_ordered_filter [simp]: "ev_ordered nodes ev \<Longrightarrow> ev_ordered nodes (filter P ev)"
  by (simp add: ev_ordered_def sorted_wrt_filter)

lemma ev_ordered_distinct: "ev_ordered nodes ev \<Longrightarrow> distinct ev"
  by (induction ev) auto

lemma ev_ordered_key_inj:
  "ev_ordered nodes ev \<Longrightarrow> inj_on (\<lambda>p. pn_key (nodes ! p)) (set ev)"
  by (induction ev) (fastforce simp: inj_on_def)+

text \<open>The order depends only on the keys of the members.\<close>

lemma ev_ordered_cong:
  "(\<And>p. p \<in> set ev \<Longrightarrow> pn_key (nodes ! p) = pn_key (nodes' ! p)) \<Longrightarrow>
   ev_ordered nodes ev = ev_ordered nodes' ev"
  by (induction ev) auto

lemma ev_Del_ordered:
  "ev_ordered nodes ev \<Longrightarrow>
   ev_Del nodes p ev = Inr (filter (\<lambda>q. pn_key (nodes ! q) \<noteq> pn_key (nodes ! p)) ev)"
  by (auto simp: ev_Del_def ev_equiv_key intro!: filter_cong)

lemma ev_Add_ordered: "ev_ordered nodes ev \<Longrightarrow> ev_Add nodes p ev = Inr (ev_insert nodes p ev)"
  by (simp add: ev_Add_def)

text \<open>A hash never is the marker for a missing one: it consists of ten or more digits.\<close>

lemma setw10_digits: "list_all is_digit s \<Longrightarrow> list_all is_digit (setw10 s)"
  by (auto simp: setw10_def list_all_iff is_digit_def)

lemma hash_tokens_digits: "list_all is_digit (hash_tokens toks)"
  unfolding hash_tokens_def by (rule setw10_digits) (auto simp: list_all_iff show_nat_digits)

lemma show_nat_length: "n < 10 ^ Suc k \<Longrightarrow> length (show_nat n) \<le> Suc k"
proof (induction k arbitrary: n)
  case 0
  then show ?case by (simp add: show_nat.simps [of n])
next
  case (Suc k)
  then have "n div 10 < 10 ^ Suc k" by (simp add: less_mult_imp_div_less)
  then have "length (show_nat (n div 10)) \<le> Suc k" by (rule Suc.IH)
  then show ?case by (simp add: show_nat.simps [of n])
qed

lemma hash_tokens_length: "length (hash_tokens toks) = 10"
proof -
  let ?n = "unat (MurmurHash3_x86_32 (concat (map token_bytes toks)) 0)"
  have "?n < 2 ^ 32" using unsigned_less [of "MurmurHash3_x86_32 (concat (map token_bytes toks)) 0"] by simp
  also have "(2::nat) ^ 32 < 10 ^ Suc 9" by simp
  finally have "length (show_nat ?n) \<le> Suc 9" by (rule show_nat_length)
  then show ?thesis by (simp add: hash_tokens_def setw10_def)
qed

lemma hash_tokens_hashed [simp]: "hash_tokens toks \<noteq> DEFAULT_HASH_STR"
  using hash_tokens_digits [of toks] by (auto simp: DEFAULT_HASH_STR_def is_digit_def)

end
