(* ===== verification/Prefix_Cache.thy ===== *)
theory Prefix_Cache
  imports Prefix_Node Complex_Main "HOL-Library.Log_Nat"
begin

text \<open>
  The prefix cache manager, \<open>runtime/cache/prefix_cache_manager.cpp\<close> and
  \<open>prefix_cache_manager_private.cpp\<close>: the key and value spans of token prefixes, found by the
  hash of the prefix, on the GPU and, when there is room, in host memory.

  The two hash tables, the nodes, the span managers of both devices and the contents of the spans are
  one explicit state. Copies to the host finish in tasks of a thread pool; the state holds the
  pending tasks, \<open>run_task\<close> runs one, and the loops that wait for a task run the pending ones in
  the order in which they were queued. Time enters as an argument.
\<close>

section \<open>The state\<close>

text \<open>
  A task copies its part of a workspace block, whose contents are fixed when it is queued, to the
  spans of a host node. \<open>'d\<close> is the content of one span.
\<close>

record 'd copy_task =
  ct_block :: nat
  ct_index :: nat
  ct_node :: node_ptr
  ct_cache_num :: int
  ct_data :: "'d list"

record ('d, 'm) pcm =
  pcm_gpu_union :: "'m cache_union"
  pcm_cpu_union :: "'m cache_union"
  pcm_nodes :: node_store
  pcm_cpu_workspace :: "memcpy_workspace option"
  pcm_max_span_num :: int
  pcm_gpu_workspace_size :: nat
  pcm_gpu_data :: "addr \<Rightarrow> 'd"
  pcm_cpu_data :: "addr \<Rightarrow> 'd"
  pcm_tasks :: "'d copy_task list"
  pcm_token_per_span :: int
  pcm_layer_num :: int
  pcm_hit_cnt :: int
  pcm_miss_cnt :: int
  pcm_time_to_live_sec :: int
  pcm_seq_len_thre :: int

definition union_of :: "device_type \<Rightarrow> ('d, 'm) pcm \<Rightarrow> 'm cache_union" where
  "union_of dev s = (if dev = CPU then pcm_cpu_union s else pcm_gpu_union s)"

definition set_union :: "device_type \<Rightarrow> 'm cache_union \<Rightarrow> ('d, 'm) pcm \<Rightarrow> ('d, 'm) pcm" where
  "set_union dev u s = (if dev = CPU then s\<lparr>pcm_cpu_union := u\<rparr> else s\<lparr>pcm_gpu_union := u\<rparr>)"

definition set_node :: "node_ptr \<Rightarrow> prefix_node \<Rightarrow> ('d, 'm) pcm \<Rightarrow> ('d, 'm) pcm" where
  "set_node p nd s = s\<lparr>pcm_nodes := (pcm_nodes s)[p := nd]\<rparr>"

abbreviation lookup :: "device_type \<Rightarrow> string \<Rightarrow> ('d, 'm) pcm \<Rightarrow> node_ptr option" where
  "lookup dev hash s \<equiv> map_of (cu_hash_table (union_of dev s)) hash"

abbreviation node :: "('d, 'm) pcm \<Rightarrow> node_ptr \<Rightarrow> prefix_node" where
  "node s p \<equiv> pcm_nodes s ! p"

text \<open>\<open>hash_table.at\<close>.\<close>

definition table_at :: "device_type \<Rightarrow> string \<Rightarrow> ('d, 'm) pcm \<Rightarrow> (node_ptr, ('d, 'm) pcm) outcome" where
  "table_at dev hash s =
     (case lookup dev hash s of None \<Rightarrow> (Inl StdOutOfRange, s) | Some p \<Rightarrow> ret p s)"

definition transverse_hash_table :: "string \<Rightarrow> device_type \<Rightarrow> ('d, 'm) pcm \<Rightarrow> bool" where
  "transverse_hash_table hash dev s = (lookup dev hash s \<noteq> None)"

definition evictor_Add :: "device_type \<Rightarrow> node_ptr \<Rightarrow> ('d, 'm) pcm \<Rightarrow> (unit, ('d, 'm) pcm) outcome" where
  "evictor_Add dev p s =
     (case ev_Add (pcm_nodes s) p (cu_evictor (union_of dev s)) of
        Inl e \<Rightarrow> (Inl e, s)
      | Inr ev \<Rightarrow> ret () (set_union dev ((union_of dev s)\<lparr>cu_evictor := ev\<rparr>) s))"

definition evictor_Del :: "device_type \<Rightarrow> node_ptr \<Rightarrow> ('d, 'm) pcm \<Rightarrow> (unit, ('d, 'm) pcm) outcome" where
  "evictor_Del dev p s =
     (case ev_Del (pcm_nodes s) p (cu_evictor (union_of dev s)) of
        Inl e \<Rightarrow> (Inl e, s)
      | Inr ev \<Rightarrow> ret () (set_union dev ((union_of dev s)\<lparr>cu_evictor := ev\<rparr>) s))"

section \<open>Spans of a node\<close>

definition map_store :: "device_type \<Rightarrow> (span_store \<Rightarrow> span_store) \<Rightarrow> ('d, 'm) pcm \<Rightarrow> ('d, 'm) pcm" where
  "map_store dev f s =
     (let u = union_of dev s; sm = cu_span_manager u
      in set_union dev (u\<lparr>cu_span_manager := sm\<lparr>csm_store := f (csm_store sm)\<rparr>\<rparr>) s)"

definition ref_cache_span :: "string \<Rightarrow> device_type \<Rightarrow> ('d, 'm) pcm \<Rightarrow> ('d, 'm) pcm" where
  "ref_cache_span hash dev s =
     (case lookup dev hash s of
        None \<Rightarrow> s
      | Some p \<Rightarrow> map_store dev (fold RefCacheSpan (node_spans (node s p))) s)"

definition unref_cache_span :: "string \<Rightarrow> device_type \<Rightarrow> ('d, 'm) pcm \<Rightarrow> ('d, 'm) pcm" where
  "unref_cache_span hash dev s =
     (case lookup dev hash s of
        None \<Rightarrow> s
      | Some p \<Rightarrow> map_store dev (fold UnrefCacheSpan (node_spans (node s p))) s)"

definition free_cache_span ::
  "enqueue_ok \<Rightarrow> string \<Rightarrow> device_type \<Rightarrow> ('d, 'm) pcm \<Rightarrow> (unit, ('d, 'm) pcm) outcome" where
  "free_cache_span enq hash dev s =
     (case lookup dev hash s of
        None \<Rightarrow> ret () s
      | Some p \<Rightarrow>
          (case csm_ReleaseSpans enq (node_spans (node s p)) (cu_span_manager (union_of dev s)) of
             (r, sm) \<Rightarrow> (r, set_union dev ((union_of dev s)\<lparr>cu_span_manager := sm\<rparr>) s)))"

section \<open>Nodes and tables\<close>

definition touch :: "int \<Rightarrow> prefix_node \<Rightarrow> prefix_node" where
  "touch ts nd =
     (if pn_last_access_time nd < ts then nd\<lparr>pn_last_access_time := ts\<rparr> else nd)"

definition ref_node ::
  "string \<Rightarrow> int \<Rightarrow> device_type \<Rightarrow> ('d, 'm) pcm \<Rightarrow> (unit, ('d, 'm) pcm) outcome" where
  "ref_node hash ts dev s =
     (case lookup dev hash s of
        None \<Rightarrow> ret () s
      | Some p \<Rightarrow>
          andThen (if pn_ref_cnt (node s p) = 0 then evictor_Del dev p (ref_cache_span hash dev s)
                   else ret () s)
            (\<lambda>_ s1. ret () (set_node p
               (touch ts ((node s1 p)\<lparr>pn_ref_cnt := pn_ref_cnt (node s1 p) + 1\<rparr>)) s1)))"

definition unref_node ::
  "string \<Rightarrow> device_type \<Rightarrow> ('d, 'm) pcm \<Rightarrow> (unit, ('d, 'm) pcm) outcome" where
  "unref_node hash dev s =
     andThen (table_at dev hash s) (\<lambda>p s1.
       let nd = (node s1 p)\<lparr>pn_ref_cnt := pn_ref_cnt (node s1 p) - 1\<rparr>; s2 = set_node p nd s1
       in if pn_ref_cnt nd = 0 then evictor_Add dev p s2 else ret () s2)"

text \<open>\<open>emplace\<close> keeps a node that is already filed under the hash.\<close>

definition table_emplace :: "device_type \<Rightarrow> string \<Rightarrow> node_ptr \<Rightarrow> ('d, 'm) pcm \<Rightarrow> ('d, 'm) pcm" where
  "table_emplace dev hash p s =
     (case lookup dev hash s of
        Some _ \<Rightarrow> s
      | None \<Rightarrow>
          set_union dev ((union_of dev s)\<lparr>cu_hash_table :=
            AList.update hash p (cu_hash_table (union_of dev s))\<rparr>) s)"

definition insert_node ::
  "string \<Rightarrow> node_ptr option \<Rightarrow> device_type \<Rightarrow> ('d, 'm) pcm \<Rightarrow> (bool, ('d, 'm) pcm) outcome" where
  "insert_node hash nd dev s =
     (case nd of
        None \<Rightarrow> ret False s
      | Some p \<Rightarrow>
          if cu_has_room (union_of dev s) then
            let s1 = ref_cache_span hash dev (table_emplace dev hash p s)
            in if pn_ref_cnt (node s1 p) = 0 then
                 andThen (table_at dev hash s1) (\<lambda>q s2.
                   andThen (evictor_Add dev q s2) (\<lambda>_ s3. ret True s3))
               else ret True s1
          else ret False s)"

definition table_erase :: "device_type \<Rightarrow> string \<Rightarrow> ('d, 'm) pcm \<Rightarrow> ('d, 'm) pcm" where
  "table_erase dev hash s =
     set_union dev ((union_of dev s)\<lparr>cu_hash_table := AList.delete hash (cu_hash_table (union_of dev s))\<rparr>) s"

definition delete_node ::
  "enqueue_ok \<Rightarrow> string \<Rightarrow> device_type \<Rightarrow> ('d, 'm) pcm \<Rightarrow> (unit, ('d, 'm) pcm) outcome" where
  "delete_node enq hash dev s =
     andThen (free_cache_span enq hash dev (unref_cache_span hash dev s)) (\<lambda>_ s1.
       andThen (table_at dev hash s1) (\<lambda>p s2.
         andThen (evictor_Del dev p s2) (\<lambda>_ s3. ret () (table_erase dev hash s3))))"

definition delete_multinodes ::
  "enqueue_ok \<Rightarrow> string list \<Rightarrow> device_type \<Rightarrow> ('d, 'm) pcm \<Rightarrow> (unit, ('d, 'm) pcm) outcome" where
  "delete_multinodes enq hash_vec dev s = forEach (\<lambda>hash. delete_node enq hash dev) hash_vec s"

definition create_node ::
  "span_ptr list \<Rightarrow> span_ptr list \<Rightarrow> int \<Rightarrow> int \<Rightarrow> device_type \<Rightarrow> string \<Rightarrow> ('d, 'm) pcm \<Rightarrow>
   (node_ptr, ('d, 'm) pcm) outcome"
where
  "create_node k_cache_in v_cache_in prefix_len ts dev hash s =
     (if hash = DEFAULT_HASH_STR then throw ALLSPARK_RUNTIME_ERROR s
      else case PrefixNode_new k_cache_in v_cache_in prefix_len ts dev hash of
        Inl e \<Rightarrow> (Inl e, s)
      | Inr nd \<Rightarrow> ret (length (pcm_nodes s)) (s\<lparr>pcm_nodes := pcm_nodes s @ [nd]\<rparr>))"

definition set_node_ready :: "node_ptr \<Rightarrow> ('d, 'm) pcm \<Rightarrow> ('d, 'm) pcm" where
  "set_node_ready p s = set_node p ((node s p)\<lparr>pn_is_ready := True\<rparr>) s"

definition check_node_ready :: "node_ptr \<Rightarrow> ('d, 'm) pcm \<Rightarrow> bool" where
  "check_node_ready p s = pn_is_ready (node s p)"

definition update_node_ts :: "string \<Rightarrow> int \<Rightarrow> device_type \<Rightarrow> ('d, 'm) pcm \<Rightarrow> ('d, 'm) pcm" where
  "update_node_ts hash ts dev s =
     (case lookup dev hash s of None \<Rightarrow> s | Some p \<Rightarrow> set_node p (touch ts (node s p)) s)"

text \<open>
  A node is too old when more whole milliseconds than the time to live have passed. The time to live
  is an \<open>int\<close> of seconds kept as a \<open>float\<close>, which is exact below \<open>2\<^sup>2\<^sup>4\<close>.
\<close>

definition timed_out :: "int \<Rightarrow> prefix_node \<Rightarrow> ('d, 'm) pcm \<Rightarrow> bool" where
  "timed_out now nd s =
     (c_div (now - pn_last_access_time nd) 1000000 > pcm_time_to_live_sec s * 1000)"

fun filter_timeout_hash ::
  "enqueue_ok \<Rightarrow> int \<Rightarrow> string list \<Rightarrow> ('d, 'm) pcm \<Rightarrow> (string list, ('d, 'm) pcm) outcome" where
  "filter_timeout_hash enq now [] s = ret [] s"
| "filter_timeout_hash enq now (h # hs) s =
     andThen (table_at CUDA h s) (\<lambda>p s1.
       if timed_out now (node s1 p) s1 then
         andThen (delete_node enq h CUDA s1) (\<lambda>_ s2. filter_timeout_hash enq now hs s2)
       else andThen (filter_timeout_hash enq now hs s1) (\<lambda>kept s2. ret (h # kept) s2))"

section \<open>Tasks and the host workspace\<close>

text \<open>The values at addresses, written in order.\<close>

definition write_spans :: "addr list \<Rightarrow> 'd list \<Rightarrow> (addr \<Rightarrow> 'd) \<Rightarrow> addr \<Rightarrow> 'd" where
  "write_spans addrs ds mem = fold (\<lambda>(a, d) m. m(a := d)) (zip addrs ds) mem"

definition release_block :: "nat \<Rightarrow> ('d, 'm) pcm \<Rightarrow> ('d, 'm) pcm" where
  "release_block b s = s\<lparr>pcm_cpu_workspace := map_option (ws_push b) (pcm_cpu_workspace s)\<rparr>"

text \<open>The task at a position of the queue runs; with the last task of a block the block is free.\<close>

definition run_task :: "nat \<Rightarrow> ('d, 'm) pcm \<Rightarrow> ('d, 'm) pcm" where
  "run_task k s =
     (let t = pcm_tasks s ! k; n = nat (ct_cache_num t);
          store = csm_store (cu_span_manager (pcm_cpu_union s));
          addrs = map (span_Data store) (spans_upto n (node s (ct_node t)));
          rest = take k (pcm_tasks s) @ drop (Suc k) (pcm_tasks s);
          s1 = set_node_ready (ct_node t)
                 (s\<lparr>pcm_cpu_data := write_spans addrs (drop (ct_index t * n * 2) (ct_data t)) (pcm_cpu_data s),
                    pcm_tasks := rest\<rparr>)
      in if list_all (\<lambda>t'. ct_block t' \<noteq> ct_block t) rest then release_block (ct_block t) s1 else s1)"

text \<open>
  \<open>QueryBlock\<close> waits until a block is free: the tasks run in order until one is, and it waits
  forever when no task is left. A missing workspace is a null pointer.
\<close>

fun query_loop :: "'d copy_task list \<Rightarrow> ('d, 'm) pcm \<Rightarrow> (nat, ('d, 'm) pcm) outcome" where
  "query_loop ts s =
     (case pcm_cpu_workspace s of
        None \<Rightarrow> (Inl UndefinedBehaviour, s)
      | Some ws \<Rightarrow>
          (case ws_pop ws of
             (Some b, ws') \<Rightarrow> ret b (s\<lparr>pcm_cpu_workspace := Some ws'\<rparr>)
           | (None, _) \<Rightarrow>
               (case ts of [] \<Rightarrow> (Inl Diverges, s) | _ # ts' \<Rightarrow> query_loop ts' (run_task 0 s))))"

declare query_loop.simps [simp del]

definition QueryBlock :: "('d, 'm) pcm \<Rightarrow> (nat, ('d, 'm) pcm) outcome" where
  "QueryBlock s = query_loop (pcm_tasks s) s"

definition wait_for_async_tasks :: "('d, 'm) pcm \<Rightarrow> ('d, 'm) pcm" where
  "wait_for_async_tasks s = fold (\<lambda>_. run_task 0) (pcm_tasks s) s"

text \<open>The loop of \<open>RefFill\<close> that waits for a node.\<close>

fun wait_ready :: "'d copy_task list \<Rightarrow> node_ptr \<Rightarrow> ('d, 'm) pcm \<Rightarrow> (unit, ('d, 'm) pcm) outcome" where
  "wait_ready [] p s = (if check_node_ready p s then ret () s else (Inl Diverges, s))"
| "wait_ready (_ # ts) p s =
     (if check_node_ready p s then ret () s else wait_ready ts p (run_task 0 s))"

section \<open>Moving nodes to the host\<close>

text \<open>The vectors handed to \<open>ClaimSpan\<close> hold null pointers, which the claim overwrites.\<close>

definition cpu_claim ::
  "enqueue_ok \<Rightarrow> string \<Rightarrow> int \<Rightarrow> ('d, 'm) pcm \<Rightarrow> (nat \<times> span_ptr list, ('d, 'm) pcm) outcome" where
  "cpu_claim enq tag cache_num s =
     (case csm_ClaimSpan enq (replicate (nat cache_num) 0) tag (nat cache_num)
             (cu_span_manager (pcm_cpu_union s)) of
        (r, sm) \<Rightarrow> (r, s\<lparr>pcm_cpu_union := (pcm_cpu_union s)\<lparr>cu_span_manager := sm\<rparr>\<rparr>))"

definition alloc_cpu_node ::
  "enqueue_ok \<Rightarrow> int \<Rightarrow> int \<Rightarrow> int \<Rightarrow> int \<Rightarrow> string \<Rightarrow> ('d, 'm) pcm \<Rightarrow>
   (node_ptr option, ('d, 'm) pcm) outcome"
where
  "alloc_cpu_node enq cache_num ref_cnt prefix_len ts hash s =
     (let u = pcm_cpu_union s; victim_hash = ev_FindVictim (pcm_nodes s) (cu_evictor u) in
      if cu_capacity u \<le> 0 then ret None s
      else if cfm_CountFreeFrame (cu_frame_manager u) = 0 then ret None s
      else if \<not> cu_has_room u \<and> victim_hash = DEFAULT_HASH_STR then ret None s
      else andThen (if cu_has_room u then ret () s else delete_node enq victim_hash CPU s) (\<lambda>_ s1.
        andThen (cpu_claim enq ''k_cache_cpu_span'' cache_num s1) (\<lambda>(nk, ks) s2.
        andThen (cpu_claim enq ''v_cache_cpu_span'' cache_num s2) (\<lambda>(nv, vs) s3.
          if nk + nv \<noteq> size_t_of (cache_num * 2) then ret None s3
          else andThen (create_node ks vs prefix_len ts CPU hash s3) (\<lambda>p s4. ret (Some p) s4)))))"

text \<open>Copying span contents through a workspace that holds a bounded number of spans at a time.\<close>

function copy_out :: "nat \<Rightarrow> (addr \<Rightarrow> 'd) \<Rightarrow> addr list \<Rightarrow> 'd list" where
  "copy_out copy_step mem addrs =
     (if addrs = [] \<or> copy_step = 0 then []
      else map mem (take copy_step addrs) @ copy_out copy_step mem (drop copy_step addrs))"
  by pat_completeness auto
termination
  by (relation "measure (\<lambda>(c, mem, addrs). length addrs)") auto

function copy_in :: "nat \<Rightarrow> addr list \<Rightarrow> 'd list \<Rightarrow> (addr \<Rightarrow> 'd) \<Rightarrow> addr \<Rightarrow> 'd" where
  "copy_in copy_step addrs ds mem =
     (if addrs = [] \<or> copy_step = 0 then mem
      else copy_in copy_step (drop copy_step addrs) (drop copy_step ds)
             (write_spans (take copy_step addrs) (take copy_step ds) mem))"
  by pat_completeness auto
termination
  by (relation "measure (\<lambda>(c, addrs, ds, mem). length addrs)") auto

declare copy_out.simps [simp del] copy_in.simps [simp del]

text \<open>
  What both directions check before they copy, with the workspace block they hold on return. The
  product of the span number and the span size is an \<open>int\<close>; the number of spans a copy may move at
  once is taken as unbounded, it is compared with the total. A step of 0 spans repeats forever.
\<close>

definition swap_prepare ::
  "int \<Rightarrow> bool \<Rightarrow> ('d, 'm) pcm \<Rightarrow> (nat \<times> nat, ('d, 'm) pcm) outcome" where
  "swap_prepare span_num in_range s =
     (if span_num > pcm_max_span_num s then throw ALLSPARK_RUNTIME_ERROR s
      else if \<not> in_range then (Inl UndefinedBehaviour, s)
      else case pcm_cpu_workspace s of
        None \<Rightarrow> (Inl UndefinedBehaviour, s)
      | Some ws \<Rightarrow>
          andThen (QueryBlock s) (\<lambda>block s1.
            let span_size = csm_span_size (cu_span_manager (pcm_gpu_union s));
                cpu_workspace_size = ws_block_size ws;
                copy_step = min (min (pcm_gpu_workspace_size s) cpu_workspace_size div nat span_size)
                              (nat span_num)
            in if span_num * span_size \<ge> 2 ^ 31 then (Inl UndefinedBehaviour, s1)
               else if size_t_of (span_num * span_size) > cpu_workspace_size
               then throw ALLSPARK_RUNTIME_ERROR (release_block block s1)
               else if span_size = 0 then (Inl UndefinedBehaviour, s1)
               else if copy_step = 0 \<and> 0 < span_num then (Inl Diverges, s1)
               else ret (block, copy_step) s1))"

definition span_addrs :: "device_type \<Rightarrow> nat \<Rightarrow> node_ptr list \<Rightarrow> ('d, 'm) pcm \<Rightarrow> addr list" where
  "span_addrs dev n ps s =
     concat (map (\<lambda>p. map (span_Data (csm_store (cu_span_manager (union_of dev s))))
                        (spans_upto n (node s p))) ps)"

definition spans_in_range :: "nat \<Rightarrow> node_ptr list \<Rightarrow> ('d, 'm) pcm \<Rightarrow> bool" where
  "spans_in_range n ps s =
     list_all (\<lambda>p. n \<le> length (pn_k_cache (node s p)) \<and> n \<le> length (pn_v_cache (node s p))) ps"

definition insert_all :: "device_type \<Rightarrow> node_ptr list \<Rightarrow> ('d, 'm) pcm \<Rightarrow> (unit, ('d, 'm) pcm) outcome" where
  "insert_all dev ps s =
     forEach (\<lambda>p s. andThen (insert_node (pn_hash (node s p)) (Some p) dev s) (\<lambda>_ s. ret () s)) ps s"

definition swap_nodelist_to_cpu_impl ::
  "node_ptr list \<Rightarrow> node_ptr list \<Rightarrow> ('d, 'm) pcm \<Rightarrow> (unit, ('d, 'm) pcm) outcome" where
  "swap_nodelist_to_cpu_impl gpu_node_list new_cpu_node_list s =
     (case gpu_node_list of
        [] \<Rightarrow> ret () s
      | g # _ \<Rightarrow>
          let cache_num = pn_cache_num (node s g);
              span_num = int (length gpu_node_list) * cache_num * 2
          in andThen (swap_prepare span_num (spans_in_range (nat cache_num) gpu_node_list s) s)
               (\<lambda>(block, copy_step) s1.
                  let ws = copy_out copy_step (pcm_gpu_data s1)
                             (span_addrs CUDA (nat cache_num) gpu_node_list s1)
                  in andThen (insert_all CPU new_cpu_node_list s1) (\<lambda>_ s2.
                       ret () (s2\<lparr>pcm_tasks := pcm_tasks s2 @
                         map (\<lambda>(i, p). \<lparr>ct_block = block, ct_index = i, ct_node = p,
                                        ct_cache_num = cache_num, ct_data = ws\<rparr>)
                             (enumerate 0 new_cpu_node_list)\<rparr>))))"

text \<open>
  The node lists are cut into slices that fit the table of span pointers on the device. A slice size
  of 0 never advances, a negative one makes a vector from a reversed range.
\<close>

function swap_slices ::
  "(node_ptr list \<Rightarrow> node_ptr list \<Rightarrow> ('d, 'm) pcm \<Rightarrow> (unit, ('d, 'm) pcm) outcome) \<Rightarrow>
   int \<Rightarrow> node_ptr list \<Rightarrow> node_ptr list \<Rightarrow> ('d, 'm) pcm \<Rightarrow> (unit, ('d, 'm) pcm) outcome"
where
  "swap_slices impl max_copy_size src dst s =
     (if dst = [] then ret () s
      else if max_copy_size = 0 then (Inl Diverges, s)
      else if max_copy_size < 0 then (Inl UndefinedBehaviour, s)
      else let n = nat max_copy_size in
        case impl (take (min n (length dst)) src) (take n dst) s of
          (Inl e, s1) \<Rightarrow> (Inl e, s1)
        | (Inr _, s1) \<Rightarrow> swap_slices impl max_copy_size (drop n src) (drop n dst) s1)"
  by pat_completeness auto
termination
  by (relation "measure (\<lambda>(impl, m, src, dst, s). length dst)") auto

declare swap_slices.simps [simp del]

text \<open>The number of layers divides.\<close>

definition max_copy_size :: "('d, 'm) pcm \<Rightarrow> int" where
  "max_copy_size s = c_div (pcm_max_span_num s) (pcm_layer_num s * 2)"

definition swap_all_slices ::
  "(node_ptr list \<Rightarrow> node_ptr list \<Rightarrow> ('d, 'm) pcm \<Rightarrow> (unit, ('d, 'm) pcm) outcome) \<Rightarrow>
   node_ptr list \<Rightarrow> node_ptr list \<Rightarrow> ('d, 'm) pcm \<Rightarrow> (unit, ('d, 'm) pcm) outcome"
where
  "swap_all_slices impl src dst s =
     (if dst = [] then ret () s
      else if pcm_layer_num s = 0 then (Inl UndefinedBehaviour, s)
      else swap_slices impl (max_copy_size s) src dst s)"

text \<open>Step 1 of both entry points: the nodes that get a copy and their new host nodes.\<close>

fun collect_for_cpu ::
  "enqueue_ok \<Rightarrow> node_ptr list \<Rightarrow> ('d, 'm) pcm \<Rightarrow> ((node_ptr \<times> node_ptr) list, ('d, 'm) pcm) outcome" where
  "collect_for_cpu enq [] s = ret [] s"
| "collect_for_cpu enq (src # srcs) s =
     (let nd = node s src in
      if transverse_hash_table (pn_hash nd) CPU s then
        collect_for_cpu enq srcs (update_node_ts (pn_hash nd) (pn_last_access_time nd) CPU s)
      else andThen (alloc_cpu_node enq (pn_cache_num nd) (pn_ref_cnt nd) (pn_prefix_len nd)
                      (pn_last_access_time nd) (pn_hash nd) s) (\<lambda>r s1.
        case r of
          None \<Rightarrow> ret [] s1
        | Some p \<Rightarrow> andThen (collect_for_cpu enq srcs s1) (\<lambda>ps s2. ret ((src, p) # ps) s2)))"

definition swap_to_cpu_by_nodelist ::
  "enqueue_ok \<Rightarrow> node_ptr list \<Rightarrow> ('d, 'm) pcm \<Rightarrow> (unit, ('d, 'm) pcm) outcome" where
  "swap_to_cpu_by_nodelist enq src_node_list s =
     andThen (collect_for_cpu enq src_node_list s) (\<lambda>ps s1.
       swap_all_slices swap_nodelist_to_cpu_impl (map fst ps) (map snd ps) s1)"

text \<open>The same by hashes; here the hash looked up is the key of the table, not the field.\<close>

fun collect_hashes_for_cpu ::
  "enqueue_ok \<Rightarrow> string list \<Rightarrow> ('d, 'm) pcm \<Rightarrow> ((node_ptr \<times> node_ptr) list, ('d, 'm) pcm) outcome" where
  "collect_hashes_for_cpu enq [] s = ret [] s"
| "collect_hashes_for_cpu enq (hash # hashes) s =
     andThen (table_at CUDA hash s) (\<lambda>src s0.
      let nd = node s0 src in
      if transverse_hash_table hash CPU s0 then
        collect_hashes_for_cpu enq hashes (update_node_ts hash (pn_last_access_time nd) CPU s0)
      else andThen (alloc_cpu_node enq (pn_cache_num nd) (pn_ref_cnt nd) (pn_prefix_len nd)
                      (pn_last_access_time nd) hash s0) (\<lambda>r s1.
        case r of
          None \<Rightarrow> ret [] s1
        | Some p \<Rightarrow> andThen (collect_hashes_for_cpu enq hashes s1) (\<lambda>ps s2. ret ((src, p) # ps) s2)))"

definition swap_to_cpu_by_hashlist ::
  "enqueue_ok \<Rightarrow> string list \<Rightarrow> ('d, 'm) pcm \<Rightarrow> (unit, ('d, 'm) pcm) outcome" where
  "swap_to_cpu_by_hashlist enq hash_list s =
     andThen (collect_hashes_for_cpu enq hash_list s) (\<lambda>ps s1.
       swap_all_slices swap_nodelist_to_cpu_impl (map fst ps) (map snd ps) s1)"

definition evict_unrefered_by_num ::
  "enqueue_ok \<Rightarrow> int \<Rightarrow> int \<Rightarrow> ('d, 'm) pcm \<Rightarrow> (unit, ('d, 'm) pcm) outcome" where
  "evict_unrefered_by_num enq now node_num s =
     (case ev_FindMultiVictims (pcm_nodes s) node_num (cu_evictor (pcm_gpu_union s)) of
        Inl e \<Rightarrow> (Inl e, s)
      | Inr victim_hash_list \<Rightarrow>
          andThen (filter_timeout_hash enq now victim_hash_list s) (\<lambda>hs s1.
            andThen (swap_to_cpu_by_hashlist enq hs s1) (\<lambda>_ s2.
              delete_multinodes enq hs CUDA s2)))"

section \<open>Moving nodes to the GPU\<close>

text \<open>The state of an operation on the virtual caches of a request, keys first.\<close>

type_synonym ('d, 'm) req_state = "virtual_cache \<times> virtual_cache \<times> ('d, 'm) pcm"

definition on_pcm ::
  "(('d, 'm) pcm \<Rightarrow> ('a, ('d, 'm) pcm) outcome) \<Rightarrow> ('d, 'm) req_state \<Rightarrow> ('a, ('d, 'm) req_state) outcome" where
  "on_pcm f st = (case st of (vk, vv, s) \<Rightarrow> case f s of (r, s') \<Rightarrow> (r, (vk, vv, s')))"

text \<open>\<open>GetCache\<close> of a layer and then the last span of that layer.\<close>

definition gpu_sm :: "('d, 'm) pcm \<Rightarrow> 'm concurrent_sm" where
  "gpu_sm s = cu_span_manager (pcm_gpu_union s)"

definition set_gpu_sm :: "'m concurrent_sm \<Rightarrow> ('d, 'm) pcm \<Rightarrow> ('d, 'm) pcm" where
  "set_gpu_sm sm s = s\<lparr>pcm_gpu_union := (pcm_gpu_union s)\<lparr>cu_span_manager := sm\<rparr>\<rparr>"

definition get_k_cache ::
  "enqueue_ok \<Rightarrow> int \<Rightarrow> ('d, 'm) req_state \<Rightarrow> (addr option list, ('d, 'm) req_state) outcome" where
  "get_k_cache enq layer_idx st =
     (case st of (vk, vv, s) \<Rightarrow>
        case vc_GetCache enq layer_idx (pcm_token_per_span s) (vk, gpu_sm s) of
          (r, (vk', sm)) \<Rightarrow> (r, (vk', vv, set_gpu_sm sm s)))"

definition get_v_cache ::
  "enqueue_ok \<Rightarrow> int \<Rightarrow> ('d, 'm) req_state \<Rightarrow> (addr option list, ('d, 'm) req_state) outcome" where
  "get_v_cache enq layer_idx st =
     (case st of (vk, vv, s) \<Rightarrow>
        case vc_GetCache enq layer_idx (pcm_token_per_span s) (vv, gpu_sm s) of
          (r, (vv', sm)) \<Rightarrow> (r, (vk, vv', set_gpu_sm sm s)))"

definition last_span :: "virtual_cache \<Rightarrow> int \<Rightarrow> exn + span_ptr" where
  "last_span vc layer_idx =
     (case vc_layer vc layer_idx of
        None \<Rightarrow> Inl UndefinedBehaviour
      | Some ca \<Rightarrow> if ca_cache ca = [] then Inl UndefinedBehaviour else Inr (last (ca_cache ca)))"

fun alloc_layers ::
  "enqueue_ok \<Rightarrow> int list \<Rightarrow> ('d, 'm) req_state \<Rightarrow> ((span_ptr \<times> span_ptr) list, ('d, 'm) req_state) outcome" where
  "alloc_layers enq [] st = ret [] st"
| "alloc_layers enq (i # is) st =
     andThen (get_k_cache enq i st) (\<lambda>_ st1.
       andThen (get_v_cache enq i st1) (\<lambda>_ st2.
         case (last_span (fst st2) i, last_span (fst (snd st2)) i) of
           (Inr k, Inr v) \<Rightarrow> andThen (alloc_layers enq is st2) (\<lambda>ps st3. ret ((k, v) # ps) st3)
         | _ \<Rightarrow> (Inl UndefinedBehaviour, st2)))"

text \<open>It never answers no: a lack of frames is thrown by \<open>GetCache\<close>.\<close>

definition alloc_gpu_node ::
  "enqueue_ok \<Rightarrow> int \<Rightarrow> int \<Rightarrow> int \<Rightarrow> int \<Rightarrow> string \<Rightarrow> ('d, 'm) req_state \<Rightarrow>
   (node_ptr, ('d, 'm) req_state) outcome"
where
  "alloc_gpu_node enq cache_num ref_cnt prefix_len ts hash st =
     andThen (alloc_layers enq (map int [0..<nat (pcm_layer_num (snd (snd st)))]) st) (\<lambda>ps st1.
       on_pcm (create_node (map fst ps) (map snd ps) prefix_len ts CUDA hash) st1)"

definition swap_nodelist_to_gpu_impl ::
  "node_ptr list \<Rightarrow> node_ptr list \<Rightarrow> ('d, 'm) pcm \<Rightarrow> (unit, ('d, 'm) pcm) outcome" where
  "swap_nodelist_to_gpu_impl cpu_node_list new_gpu_node_list s =
     (case cpu_node_list of
        [] \<Rightarrow> ret () s
      | c # _ \<Rightarrow>
          let cache_num = pn_cache_num (node s c); n = nat cache_num;
              span_num = int (length cpu_node_list) * cache_num * 2
          in andThen (swap_prepare span_num
                        (spans_in_range n cpu_node_list s \<and> spans_in_range n new_gpu_node_list s) s)
               (\<lambda>(block, copy_step) s1.
                  let ws = map (pcm_cpu_data s1) (span_addrs CPU n cpu_node_list s1);
                      s2 = s1\<lparr>pcm_gpu_data := copy_in copy_step
                              (span_addrs CUDA n new_gpu_node_list s1) ws (pcm_gpu_data s1)\<rparr>
                  in andThen (forEach (\<lambda>p s. andThen (insert_node (pn_hash (node s p)) (Some p) CUDA s)
                                               (\<lambda>_ s. ret () (set_node_ready p s)))
                                new_gpu_node_list s2)
                       (\<lambda>_ s3. ret () (release_block block s3))))"

definition fill_both :: "node_ptr \<Rightarrow> ('d, 'm) req_state \<Rightarrow> (unit, ('d, 'm) req_state) outcome" where
  "fill_both p st =
     (case st of (vk, vv, s) \<Rightarrow>
        case vc_FillCache (csm_store (gpu_sm s)) (pn_k_cache (node s p)) vk of
          Inl e \<Rightarrow> (Inl e, st)
        | Inr vk' \<Rightarrow>
            (case vc_FillCache (csm_store (gpu_sm s)) (pn_v_cache (node s p)) vv of
               Inl e \<Rightarrow> (Inl e, (vk', vv, s))
             | Inr vv' \<Rightarrow> ret () (vk', vv', s)))"

fun collect_for_gpu ::
  "enqueue_ok \<Rightarrow> node_ptr list \<Rightarrow> ('d, 'm) req_state \<Rightarrow> (node_ptr list, ('d, 'm) req_state) outcome" where
  "collect_for_gpu enq [] st = ret [] st"
| "collect_for_gpu enq (src # srcs) st =
     (let s = snd (snd st); nd = node s src; hash = pn_hash nd in
      case lookup CUDA hash s of
        Some p \<Rightarrow>
          andThen (on_pcm (\<lambda>s. ret () (update_node_ts hash (pn_last_access_time nd) CUDA s)) st) (\<lambda>_ st1.
            andThen (fill_both p st1) (\<lambda>_ st2. collect_for_gpu enq srcs st2))
      | None \<Rightarrow>
          andThen (alloc_gpu_node enq (pn_cache_num nd) (pn_ref_cnt nd) (pn_prefix_len nd)
                     (pn_last_access_time nd) hash st) (\<lambda>p st1.
            andThen (collect_for_gpu enq srcs st1) (\<lambda>ps st2. ret (p # ps) st2)))"

text \<open>The slices of the source list are taken from its front also when nodes were skipped above.\<close>

definition swap_to_gpu_by_nodelist ::
  "enqueue_ok \<Rightarrow> node_ptr list \<Rightarrow> ('d, 'm) req_state \<Rightarrow> (node_ptr list, ('d, 'm) req_state) outcome" where
  "swap_to_gpu_by_nodelist enq cpu_node_list st =
     andThen (collect_for_gpu enq cpu_node_list st) (\<lambda>new_gpu_node_list st1.
       andThen (on_pcm (swap_all_slices swap_nodelist_to_gpu_impl cpu_node_list new_gpu_node_list) st1)
         (\<lambda>_ st2. ret new_gpu_node_list st2))"

section \<open>The interface\<close>

text \<open>
  Positions of the last token of every full span, the last token of all excluded. The span size
  comes from \<open>SpanCacheConfig\<close> and is positive.
\<close>

function span_ends :: "int \<Rightarrow> int \<Rightarrow> int \<Rightarrow> int list" where
  "span_ends tps token_num i =
     (if 0 < tps \<and> i < token_num - 1 then i # span_ends tps token_num (i + tps) else [])"
  by pat_completeness auto
termination
  by (relation "measure (\<lambda>(tps, n, i). nat (n - i))") auto

declare span_ends.simps [simp del]

type_synonym tokens = "64 word list"

text \<open>The hash of the prefix that ends at a position inside the tensor.\<close>

definition prefix_hash :: "tokens \<Rightarrow> int \<Rightarrow> string" where
  "prefix_hash toks i = hash_tokens (take (nat (i + 1)) toks)"

subsection \<open>Insert\<close>

text \<open>The spans of all layers at a position of their vectors.\<close>

fun layer_spans :: "cache_array option list \<Rightarrow> nat \<Rightarrow> exn + span_ptr list" where
  "layer_spans [] idx = Inr []"
| "layer_spans (None # ls) idx = Inl UndefinedBehaviour"
| "layer_spans (Some ca # ls) idx =
     (if idx < length (ca_cache ca) then
        (case layer_spans ls idx of Inl e \<Rightarrow> Inl e | Inr ps \<Rightarrow> Inr (ca_cache ca ! idx # ps))
      else Inl UndefinedBehaviour)"

record insert_vectors =
  iv_node_vec :: "node_ptr list"
  iv_insert_vec :: "node_ptr list"
  iv_swap_vec :: "node_ptr list"
  iv_victim_hash_vec :: "string list"

definition push_node :: "node_ptr \<Rightarrow> insert_vectors \<Rightarrow> insert_vectors" where
  "push_node p v = v\<lparr>iv_node_vec := iv_node_vec v @ [p]\<rparr>"

definition insert_step ::
  "tokens \<Rightarrow> int \<Rightarrow> cache_array option list \<Rightarrow> cache_array option list \<Rightarrow> int \<Rightarrow> nat \<Rightarrow> insert_vectors \<Rightarrow>
   ('d, 'm) pcm \<Rightarrow> (insert_vectors, ('d, 'm) pcm) outcome"
where
  "insert_step toks ts layer_cache_k layer_cache_v i cache_idx v s =
     (let hash = prefix_hash toks i in
      if length layer_cache_v < length layer_cache_k then (Inl UndefinedBehaviour, s)
      else case (layer_spans layer_cache_k cache_idx,
                 layer_spans (take (length layer_cache_k) layer_cache_v) cache_idx) of
        (Inr ks, Inr vs) \<Rightarrow>
          andThen (create_node ks vs (i + 1) ts CUDA hash s) (\<lambda>new s0.
            let s1 = set_node_ready new s0 in
            case lookup CUDA hash s1 of
              Some _ \<Rightarrow>
                andThen (ref_node hash ts CUDA s1) (\<lambda>_ s2.
                  andThen (table_at CUDA hash s2) (\<lambda>p s3. ret (push_node p v) s3))
            | None \<Rightarrow>
                let v1 = push_node new v in
                if cu_has_room (pcm_gpu_union s1) then
                  andThen (insert_node hash (Some new) CUDA s1) (\<lambda>_ s2.
                    andThen (ref_node hash ts CUDA s2) (\<lambda>_ s3. ret v1 s3))
                else
                  let victim_hash = ev_FindVictim (pcm_nodes s1) (cu_evictor (pcm_gpu_union s1)) in
                  if victim_hash \<noteq> DEFAULT_HASH_STR then
                    andThen (table_at CUDA victim_hash s1) (\<lambda>p s2.
                      andThen (evictor_Del CUDA p s2) (\<lambda>_ s3.
                        ret (v1\<lparr>iv_insert_vec := iv_insert_vec v1 @ [new],
                                iv_victim_hash_vec := iv_victim_hash_vec v1 @ [victim_hash]\<rparr>) s3))
                  else ret (v1\<lparr>iv_swap_vec := iv_swap_vec v1 @ [new]\<rparr>) s1)
      | _ \<Rightarrow> (Inl UndefinedBehaviour, s))"

fun insert_loop ::
  "tokens \<Rightarrow> int \<Rightarrow> cache_array option list \<Rightarrow> cache_array option list \<Rightarrow> int list \<Rightarrow> nat \<Rightarrow> insert_vectors \<Rightarrow>
   ('d, 'm) pcm \<Rightarrow> (insert_vectors, ('d, 'm) pcm) outcome"
where
  "insert_loop toks ts lk lv [] cache_idx v s = ret v s"
| "insert_loop toks ts lk lv (i # is) cache_idx v s =
     andThen (insert_step toks ts lk lv i cache_idx v s) (\<lambda>v1 s1.
       insert_loop toks ts lk lv is (Suc cache_idx) v1 s1)"

text \<open>
  The call of the barrier \<open>waitForOtherWorkers\<close> at the start does not touch this worker's state; it is
  the subject of the theory \<open>Coordinator\<close>.
\<close>

definition Insert ::
  "enqueue_ok \<Rightarrow> int \<Rightarrow> tokens \<Rightarrow> int \<Rightarrow> int \<Rightarrow> cache_array option list \<Rightarrow> cache_array option list \<Rightarrow>
   node_ptr list \<Rightarrow> ('d, 'm) pcm \<Rightarrow> (node_ptr list, ('d, 'm) pcm) outcome"
where
  "Insert enq now toks start_idx ts layer_cache_k layer_cache_v node_vec s =
     (let tps = pcm_token_per_span s in
      andThen (insert_loop toks ts layer_cache_k layer_cache_v
                 (span_ends tps (int (length toks)) (start_idx + (tps - 1))) (nat (c_div start_idx tps))
                 \<lparr>iv_node_vec = node_vec, iv_insert_vec = [], iv_swap_vec = [], iv_victim_hash_vec = []\<rparr> s)
        (\<lambda>v s1. andThen (filter_timeout_hash enq now (iv_victim_hash_vec v) s1) (\<lambda>victims s2.
          andThen (swap_to_cpu_by_hashlist enq victims s2) (\<lambda>_ s3.
          andThen (delete_multinodes enq victims CUDA s3) (\<lambda>_ s4.
          andThen (forEach (\<lambda>p s. andThen (insert_node (pn_hash (node s p)) (Some p) CUDA s)
                                    (\<lambda>_ s. ref_node (pn_hash (node s p)) ts CUDA s))
                     (iv_insert_vec v) s4) (\<lambda>_ s5.
          andThen (swap_to_cpu_by_nodelist enq (iv_swap_vec v) s5) (\<lambda>_ s6.
            ret (iv_node_vec v) s6)))))))"

subsection \<open>RefOnly and UnRef\<close>

text \<open>The results are the length of the cached prefix, of its part on the GPU and the nodes.\<close>

fun ref_only_loop ::
  "tokens \<Rightarrow> int \<Rightarrow> int list \<Rightarrow> int \<Rightarrow> int \<Rightarrow> node_ptr list \<Rightarrow> ('d, 'm) pcm \<Rightarrow>
   (int \<times> int \<times> node_ptr list, ('d, 'm) pcm) outcome"
where
  "ref_only_loop toks ts [] uncached_idx gpu_cached_len node_vec s =
     ret (uncached_idx, gpu_cached_len, node_vec) s"
| "ref_only_loop toks ts (i # is) uncached_idx gpu_cached_len node_vec s =
     (let hash = prefix_hash toks i; tps = pcm_token_per_span s;
          is_cached = transverse_hash_table hash CUDA s in
      andThen (if is_cached then ref_node hash ts CUDA s else ret () s) (\<lambda>_ s1.
        let is_cached_cpu = transverse_hash_table hash CPU s1;
            s2 = (if is_cached_cpu then update_node_ts hash ts CPU s1 else s1);
            gpu_len = (if is_cached then gpu_cached_len + tps else gpu_cached_len)
        in if is_cached then
             andThen (table_at CUDA hash s2) (\<lambda>p s3.
               ref_only_loop toks ts is (uncached_idx + tps) gpu_len (node_vec @ [p]) s3)
           else if is_cached_cpu then ref_only_loop toks ts is (uncached_idx + tps) gpu_len node_vec s2
           else ret (uncached_idx, gpu_len, node_vec) s2))"

definition RefOnly ::
  "tokens \<Rightarrow> int \<Rightarrow> node_ptr list \<Rightarrow> ('d, 'm) pcm \<Rightarrow>
   (int \<times> int \<times> node_ptr list, ('d, 'm) pcm) outcome"
where
  "RefOnly toks ts node_vec s =
     (let tps = pcm_token_per_span s
      in ref_only_loop toks ts (span_ends tps (int (length toks)) (tps - 1)) 0 0 node_vec s)"

definition unref_one :: "node_ptr \<Rightarrow> ('d, 'm) pcm \<Rightarrow> (unit, ('d, 'm) pcm) outcome" where
  "unref_one p s =
     (let hash = pn_hash (node s p) in
      andThen (case lookup CUDA hash s of
                 None \<Rightarrow> ret () s
               | Some q \<Rightarrow>
                   if p = q then unref_node hash CUDA s
                   else ret () (update_node_ts hash (pn_last_access_time (node s p)) CUDA s))
        (\<lambda>_ s1. if transverse_hash_table hash CPU s1
                then ret () (update_node_ts hash (pn_last_access_time (node s1 p)) CPU s1)
                else ret () s1))"

definition UnRef :: "node_ptr list \<Rightarrow> ('d, 'm) pcm \<Rightarrow> (unit, ('d, 'm) pcm) outcome" where
  "UnRef node_vec s = forEach unref_one node_vec s"

subsection \<open>RefFill\<close>

fun ref_fill_loop ::
  "tokens \<Rightarrow> int \<Rightarrow> int list \<Rightarrow> int \<Rightarrow> node_ptr list \<Rightarrow> node_ptr list \<Rightarrow> ('d, 'm) req_state \<Rightarrow>
   (int \<times> node_ptr list \<times> node_ptr list, ('d, 'm) req_state) outcome"
where
  "ref_fill_loop toks_hash ts [] uncached_idx node_vec node_vec_cpu st =
     ret (uncached_idx, node_vec, node_vec_cpu) st"
| "ref_fill_loop toks_hash ts (i # is) uncached_idx node_vec node_vec_cpu st =
     (let s = snd (snd st); hash = prefix_hash toks_hash i; tps = pcm_token_per_span s in
      if int (length toks_hash) < i + 1 then (Inl UndefinedBehaviour, st)
      else case lookup CUDA hash s of
        Some _ \<Rightarrow>
          andThen (on_pcm (ref_node hash ts CUDA) st) (\<lambda>_ st1.
          andThen (on_pcm (\<lambda>s. ret () (update_node_ts hash ts CPU s)) st1) (\<lambda>_ st2.
          andThen (on_pcm (table_at CUDA hash) st2) (\<lambda>p st3.
          andThen (fill_both p st3) (\<lambda>_ st4.
            ref_fill_loop toks_hash ts is (uncached_idx + tps) (node_vec @ [p]) node_vec_cpu st4))))
      | None \<Rightarrow>
          (case lookup CPU hash s of
             Some c \<Rightarrow>
               andThen (on_pcm (\<lambda>s. wait_ready (pcm_tasks s) c s) st) (\<lambda>_ st1.
                 ref_fill_loop toks_hash ts is (uncached_idx + tps) node_vec (node_vec_cpu @ [c]) st1)
           | None \<Rightarrow> ret (uncached_idx, node_vec, node_vec_cpu) st))"

text \<open>The results are the tokens still to process, the length of the prefix taken from the cache
  and the nodes that the request refers to.\<close>

definition RefFill ::
  "enqueue_ok \<Rightarrow> int \<Rightarrow> tokens \<Rightarrow> tokens \<Rightarrow> int \<Rightarrow> ('d, 'm) req_state \<Rightarrow>
   (tokens \<times> int \<times> node_ptr list, ('d, 'm) req_state) outcome"
where
  "RefFill enq now toks toks_hash ts st =
     (let tps = pcm_token_per_span (snd (snd st)) in
      andThen (ref_fill_loop toks_hash ts (span_ends tps (int (length toks)) (tps - 1)) 0 [] [] st)
        (\<lambda>(prefix_len, node_vec, node_vec_cpu) st1.
          let cpu_cached_len = int (length node_vec_cpu) * tps; s1 = snd (snd st1) in
          if node_vec_cpu = [] then ret (drop (nat prefix_len) toks, prefix_len, node_vec) st1
          else if cpu_cached_len < pcm_seq_len_thre s1 then
            ret (drop (nat (prefix_len - cpu_cached_len)) toks, prefix_len - cpu_cached_len, node_vec) st1
          else
            let exceed_num = int (length (cu_hash_table (pcm_gpu_union s1))) + int (length node_vec_cpu)
                               - cu_capacity (pcm_gpu_union s1)
            in andThen (if exceed_num > 0 then on_pcm (evict_unrefered_by_num enq now exceed_num) st1
                        else ret () st1) (\<lambda>_ st2.
               andThen (swap_to_gpu_by_nodelist enq node_vec_cpu st2) (\<lambda>new_gpu st3.
               andThen (forEach (\<lambda>p. on_pcm (\<lambda>s.
                          let hash = pn_hash (node s p)
                          in andThen (ref_node hash ts CUDA s) (\<lambda>_ s'. ret () (update_node_ts hash ts CPU s'))))
                        new_gpu st3) (\<lambda>_ st4.
                 ret (drop (nat prefix_len) toks, prefix_len, node_vec @ new_gpu) st4)))))"

subsection \<open>Eviction, reset and counters\<close>

text \<open>The number of missing frames is the difference of unsigned numbers read as an \<open>int\<close>.\<close>

definition EvictUnrefered ::
  "enqueue_ok \<Rightarrow> int \<Rightarrow> int \<Rightarrow> ('d, 'm) pcm \<Rightarrow> (unit, ('d, 'm) pcm) outcome" where
  "EvictUnrefered enq now target s =
     (let frame_num = target - int (cfm_CountFreeFrame (cu_frame_manager (pcm_gpu_union s)));
          span_per_node = pcm_layer_num s * 2
      in if span_per_node = 0 then (Inl UndefinedBehaviour, s)
         else evict_unrefered_by_num enq now (c_div (frame_num + span_per_node - 1) span_per_node) s)"

definition EvictAllUnrefered ::
  "enqueue_ok \<Rightarrow> int \<Rightarrow> ('d, 'm) pcm \<Rightarrow> (unit, ('d, 'm) pcm) outcome" where
  "EvictAllUnrefered enq now s =
     (case ev_GetAllCandidatesHash (pcm_nodes s) (cu_evictor (pcm_gpu_union s)) of
        Inl e \<Rightarrow> (Inl e, s)
      | Inr hash_list \<Rightarrow>
          andThen (filter_timeout_hash enq now hash_list s) (\<lambda>hs s1.
            andThen (swap_to_cpu_by_hashlist enq hs s1) (\<lambda>_ s2.
              delete_multinodes enq hs CUDA s2)))"

definition reset_union ::
  "enqueue_ok \<Rightarrow> device_type \<Rightarrow> ('d, 'm) pcm \<Rightarrow> (unit, ('d, 'm) pcm) outcome" where
  "reset_union enq dev s =
     andThen (forEach (\<lambda>hash s. free_cache_span enq hash dev (unref_cache_span hash dev s))
                (map fst (cu_hash_table (union_of dev s))) s) (\<lambda>_ s1.
       ret () (set_union dev ((union_of dev s1)\<lparr>cu_hash_table := [],
                                cu_evictor := ev_Reset (cu_evictor (union_of dev s1))\<rparr>) s1))"

definition Reset :: "enqueue_ok \<Rightarrow> ('d, 'm) pcm \<Rightarrow> (unit, ('d, 'm) pcm) outcome" where
  "Reset enq s =
     andThen (reset_union enq CUDA (wait_for_async_tasks s)) (\<lambda>_ s1.
       andThen (reset_union enq CPU s1) (\<lambda>_ s2. ret () (s2\<lparr>pcm_hit_cnt := 0, pcm_miss_cnt := 0\<rparr>)))"

definition UpdateCnt :: "int \<Rightarrow> int \<Rightarrow> ('d, 'm) pcm \<Rightarrow> ('d, 'm) pcm" where
  "UpdateCnt hit_cnt miss_cnt s =
     s\<lparr>pcm_hit_cnt := pcm_hit_cnt s + hit_cnt, pcm_miss_cnt := pcm_miss_cnt s + miss_cnt\<rparr>"

definition SetSeqlenThre :: "int \<Rightarrow> ('d, 'm) pcm \<Rightarrow> ('d, 'm) pcm" where
  "SetSeqlenThre thre s = s\<lparr>pcm_seq_len_thre := thre\<rparr>"

text \<open>The fields of \<open>AsEngineStat\<close> about the prefix cache; the rates are exact quotients here.\<close>

record prefix_stat =
  prefix_cache_hit_token :: int
  prefix_cache_miss_token :: int
  prefix_cache_hit_rate :: rat
  prefix_cache_miss_rate :: rat

definition UpdateEngineStat :: "('d, 'm) pcm \<Rightarrow> prefix_stat" where
  "UpdateEngineStat s =
     (let total = pcm_hit_cnt s + pcm_miss_cnt s
      in \<lparr>prefix_cache_hit_token = pcm_hit_cnt s, prefix_cache_miss_token = pcm_miss_cnt s,
          prefix_cache_hit_rate = (if total > 0 then of_int (pcm_hit_cnt s) / of_int total else 0),
          prefix_cache_miss_rate = (if total > 0 then of_int (pcm_miss_cnt s) / of_int total else 0)\<rparr>)"

text \<open>The nearest \<open>float\<close> to a natural number, ties to even, as a number.\<close>

definition f32_of_nat :: "nat \<Rightarrow> nat" where
  "f32_of_nat n =
     (if n < 2 ^ 24 then n
      else let e = floorlog 2 n - 24; q = n div 2 ^ e; r = n mod 2 ^ e; h = 2 ^ (e - 1)
        in (if h < r \<or> (r = h \<and> odd q) then q + 1 else q) * 2 ^ e)"

text \<open>The ratio is the constant 1.\<close>

definition UpdateCapacity :: "('d, 'm) pcm \<Rightarrow> (unit, ('d, 'm) pcm) outcome" where
  "UpdateCapacity s =
     (let span_per_node = 2 * pcm_layer_num s; u = pcm_gpu_union s in
      if span_per_node = 0 then (Inl UndefinedBehaviour, s)
      else ret () (s\<lparr>pcm_gpu_union := u\<lparr>cu_capacity :=
             int (f32_of_nat (cfm_CountFrame (cu_frame_manager u) div size_t_of span_per_node))\<rparr>\<rparr>))"

section \<open>Construction\<close>

text \<open>
  What the constructor takes from the device context and the environment: \<open>cpu_cache_ratio\<close> is
  the number read from \<open>CPU_CACHE_RATIO\<close>, none if it is not set or not a number;
  \<open>cache_bytes\<close> is the rounded product of a number of bytes and the ratio in \<open>float\<close>.
\<close>

record pcm_config =
  pc_nranks :: int
  pc_max_length :: int
  pc_max_batch :: int
  pc_layer_num :: int
  pc_token_per_span :: int
  pc_ttl :: int
  pc_cpu_avail_mem :: nat
  pc_cpu_cache_ratio :: "rat option"
  pc_gpu_workspace_size :: nat

definition effective_ratio :: "pcm_config \<Rightarrow> rat" where
  "effective_ratio cfg =
     (case pc_cpu_cache_ratio cfg of
        None \<Rightarrow> 0
      | Some r \<Rightarrow> if r < 0 \<or> r > 1 then 0 else r)"

definition init_cpu_union ::
  "enqueue_ok \<Rightarrow> 'm allocator \<Rightarrow> (addr \<Rightarrow> 'm \<Rightarrow> 'm) \<Rightarrow> (nat \<Rightarrow> rat \<Rightarrow> nat) \<Rightarrow> 'm \<Rightarrow> pcm_config \<Rightarrow>
   'm concurrent_sm \<Rightarrow> exn + 'm cache_union \<times> memcpy_workspace option"
where
  "init_cpu_union enq alloc dealloc cache_bytes mem cfg gpu =
     (let ratio = effective_ratio cfg;
          cache_mem_bytes = cache_bytes ((pc_cpu_avail_mem cfg * 1024) mod 2 ^ 64) ratio;
          frame_size = csm_span_size gpu;
          frame_per_node = 2 * pc_layer_num cfg;
          ws_size = CalcWorkspaceSize (pc_max_length cfg) (pc_max_batch cfg) (pc_token_per_span cfg)
                      frame_per_node frame_size;
          ws_all = size_t_of (int ws_size * pc_nranks cfg);
          make = (\<lambda>max_frame_num capacity ws.
            case csm_Init enq alloc dealloc frame_size (csm_new (cfm_new CPU (int max_frame_num) mem)) of
              (Inl e, _) \<Rightarrow> Inl e
            | (Inr _, sm) \<Rightarrow> Inr (CacheUnion_new CPU capacity sm, ws))
      in if ratio > 0 then
           (if cache_mem_bytes < ws_all then Inl (AsException ALLSPARK_RUNTIME_ERROR)
            else if pc_nranks cfg = 0 \<or> frame_size = 0 \<or> frame_per_node = 0 \<or> pc_token_per_span cfg = 0
            then Inl UndefinedBehaviour
            else
              let per_worker = (cache_mem_bytes - ws_all) div size_t_of (pc_nranks cfg);
                  max_frame_num = per_worker div size_t_of frame_size;
                  capacity = max_frame_num div size_t_of frame_per_node
              in make max_frame_num (int capacity)
                   (Some (MemcpyWorkspace_new (pc_max_length cfg) (pc_max_batch cfg)
                            (pc_token_per_span cfg) frame_per_node frame_size)))
         else make 0 0 None)"

definition PrefixCacheManager_new ::
  "enqueue_ok \<Rightarrow> 'm allocator \<Rightarrow> (addr \<Rightarrow> 'm \<Rightarrow> 'm) \<Rightarrow> (nat \<Rightarrow> rat \<Rightarrow> nat) \<Rightarrow> 'm \<Rightarrow> pcm_config \<Rightarrow>
   'm concurrent_sm \<Rightarrow> (addr \<Rightarrow> 'd) \<Rightarrow> (addr \<Rightarrow> 'd) \<Rightarrow> exn + ('d, 'm) pcm"
where
  "PrefixCacheManager_new enq alloc dealloc cache_bytes mem cfg gpu gpu_data cpu_data =
     (let span_per_node = 2 * pc_layer_num cfg; tps = pc_token_per_span cfg in
      if span_per_node = 0 \<or> tps = 0 then Inl UndefinedBehaviour
      else
        let capacity = int (cfm_CountFrame (csm_frame_manager gpu) div size_t_of span_per_node);
            max_num_spans = c_div (pc_max_length cfg + tps - 1) tps
        in bindE (init_cpu_union enq alloc dealloc cache_bytes mem cfg gpu) (\<lambda>(cpu_union, ws).
             Inr \<lparr>pcm_gpu_union = CacheUnion_new CUDA capacity gpu, pcm_cpu_union = cpu_union,
                  pcm_nodes = [], pcm_cpu_workspace = ws,
                  pcm_max_span_num = max_num_spans * span_per_node,
                  pcm_gpu_workspace_size = pc_gpu_workspace_size cfg,
                  pcm_gpu_data = gpu_data, pcm_cpu_data = cpu_data, pcm_tasks = [],
                  pcm_token_per_span = tps, pcm_layer_num = pc_layer_num cfg,
                  pcm_hit_cnt = 0, pcm_miss_cnt = 0, pcm_time_to_live_sec = pc_ttl cfg,
                  pcm_seq_len_thre = 0\<rparr>))"

end
