(* ===== verification/Prefix_Invariant.thy ===== *)
theory Prefix_Invariant
  imports Prefix_Cache
begin

text \<open>
  The invariant of the prefix cache of one device and the effect of the operations on nodes under it:
  the evictor holds exactly the unreferenced nodes of the table in the order of eviction, and the
  spans of the cached nodes wrap different frames that the pool counts as occupied and that carry
  the extra reference. The configuration without a host cache, the default one, is
  \<open>gpu_only\<close>.
\<close>

section \<open>Access to the parts of the state\<close>

abbreviation gtab :: "('d, 'm) pcm \<Rightarrow> (string \<times> node_ptr) list" where
  "gtab s \<equiv> cu_hash_table (pcm_gpu_union s)"

abbreviation gev :: "('d, 'm) pcm \<Rightarrow> lru_evictor" where
  "gev s \<equiv> cu_evictor (pcm_gpu_union s)"

abbreviation gstore :: "('d, 'm) pcm \<Rightarrow> span_store" where
  "gstore s \<equiv> csm_store (cu_span_manager (pcm_gpu_union s))"

abbreviation gfm :: "('d, 'm) pcm \<Rightarrow> 'm concurrent_fm" where
  "gfm s \<equiv> cu_frame_manager (pcm_gpu_union s)"

lemma union_of_simps [simp]:
  "union_of CUDA s = pcm_gpu_union s"
  "union_of CPU s = pcm_cpu_union s"
  "set_union CUDA u s = s\<lparr>pcm_gpu_union := u\<rparr>"
  "set_union CPU u s = s\<lparr>pcm_cpu_union := u\<rparr>"
  by (simp_all add: union_of_def set_union_def)

lemma set_node_simps [simp]:
  "pcm_gpu_union (set_node p nd s) = pcm_gpu_union s"
  "pcm_cpu_union (set_node p nd s) = pcm_cpu_union s"
  "pcm_nodes (set_node p nd s) = (pcm_nodes s)[p := nd]"
  "pcm_layer_num (set_node p nd s) = pcm_layer_num s"
  "pcm_token_per_span (set_node p nd s) = pcm_token_per_span s"
  "pcm_time_to_live_sec (set_node p nd s) = pcm_time_to_live_sec s"
  by (simp_all add: set_node_def)

lemma touch_simps [simp]:
  "pn_k_cache (touch ts nd) = pn_k_cache nd"
  "pn_v_cache (touch ts nd) = pn_v_cache nd"
  "pn_ref_cnt (touch ts nd) = pn_ref_cnt nd"
  "pn_prefix_len (touch ts nd) = pn_prefix_len nd"
  "pn_cache_num (touch ts nd) = pn_cache_num nd"
  "pn_hash (touch ts nd) = pn_hash nd"
  by (simp_all add: touch_def)

lemma node_spans_cong:
  "pn_k_cache a = pn_k_cache b \<Longrightarrow> pn_v_cache a = pn_v_cache b \<Longrightarrow> pn_cache_num a = pn_cache_num b \<Longrightarrow>
   node_spans a = node_spans b"
  by (simp add: node_spans_def spans_upto_def)

lemma node_spans_touch [simp]: "node_spans (touch ts nd) = node_spans nd"
  by (rule node_spans_cong) simp_all

lemma node_spans_ref [simp]: "node_spans (nd\<lparr>pn_ref_cnt := n\<rparr>) = node_spans nd"
  by (rule node_spans_cong) simp_all

lemma node_spans_ready [simp]: "node_spans (nd\<lparr>pn_is_ready := b\<rparr>) = node_spans nd"
  by (rule node_spans_cong) simp_all

lemma length_spans_upto [simp]: "length (spans_upto n nd) = 2 * n"
  by (induction n) (simp_all add: spans_upto_def)

section \<open>The invariant\<close>

text \<open>Well-formed nodes of the table, and the evictor.\<close>

definition table_inv :: "('d, 'm) pcm \<Rightarrow> bool" where
  "table_inv s \<longleftrightarrow>
     wf_map (gtab s) \<and>
     (\<forall>(h, p)\<in>set (gtab s). p < length (pcm_nodes s) \<and> pn_hash (node s p) = h \<and>
        h \<noteq> DEFAULT_HASH_STR \<and> pn_cache_num (node s p) = pcm_layer_num s \<and>
        int (length (pn_k_cache (node s p))) = pcm_layer_num s \<and>
        int (length (pn_v_cache (node s p))) = pcm_layer_num s \<and> 0 \<le> pn_ref_cnt (node s p)) \<and>
     ev_ordered (pcm_nodes s) (gev s) \<and>
     set (gev s) = {p. \<exists>h. (h, p) \<in> set (gtab s) \<and> pn_ref_cnt (node s p) = 0}"

definition table_spans :: "('d, 'm) pcm \<Rightarrow> span_ptr list" where
  "table_spans s = concat (map (\<lambda>(h, p). node_spans (node s p)) (gtab s))"

text \<open>Spans that wrap different occupied frames.\<close>

definition spans_owned :: "'m concurrent_sm \<Rightarrow> span_ptr list \<Rightarrow> bool" where
  "spans_owned sm qs \<longleftrightarrow>
     distinct (map (\<lambda>q. span_frame (csm_store sm ! q)) qs) \<and>
     (\<forall>q\<in>set qs. q < length (csm_store sm) \<and> cfm_held (csm_frame_manager sm) (span_frame (csm_store sm ! q)))"

definition span_inv :: "('d, 'm) pcm \<Rightarrow> bool" where
  "span_inv s \<longleftrightarrow>
     cfm_inv (gfm s) \<and> spans_owned (cu_span_manager (pcm_gpu_union s)) (table_spans s) \<and>
     (\<forall>q\<in>set (table_spans s). HasExtraRef (gstore s) q)"

definition gpu_inv :: "('d, 'm) pcm \<Rightarrow> bool" where
  "gpu_inv s \<longleftrightarrow> table_inv s \<and> span_inv s"

definition gpu_only :: "('d, 'm) pcm \<Rightarrow> bool" where
  "gpu_only s \<longleftrightarrow> cu_capacity (pcm_cpu_union s) \<le> 0 \<and> cu_hash_table (pcm_cpu_union s) = []"

lemma table_inv_node:
  assumes "table_inv s" "map_of (gtab s) h = Some p"
  shows "p < length (pcm_nodes s)" "pn_hash (node s p) = h" "h \<noteq> DEFAULT_HASH_STR"
    "pn_cache_num (node s p) = pcm_layer_num s" "0 \<le> pn_ref_cnt (node s p)" "(h, p) \<in> set (gtab s)"
  using assms map_of_SomeD [OF assms(2)] by (auto simp: table_inv_def)

lemma table_inv_lookup:
  "table_inv s \<Longrightarrow> (h, p) \<in> set (gtab s) \<Longrightarrow> map_of (gtab s) h = Some p"
  by (auto simp: table_inv_def)

text \<open>The members of the evictor have different hashes, so different keys.\<close>

lemma table_inv_hash_inj:
  assumes "table_inv s" "(h, p) \<in> set (gtab s)" "(h', q) \<in> set (gtab s)"
    "pn_key (node s p) = pn_key (node s q)"
  shows "p = q \<and> h = h'"
proof -
  have "pn_hash (node s p) = h" "pn_hash (node s q) = h'" using assms(1-3) by (auto simp: table_inv_def)
  with assms(4) have "h = h'" by (simp add: pn_key_def)
  with table_inv_lookup [OF assms(1,2)] table_inv_lookup [OF assms(1,3)] show ?thesis by simp
qed

lemma table_inv_ev: "table_inv s \<Longrightarrow> ev_ordered (pcm_nodes s) (gev s)"
  by (simp add: table_inv_def)

lemma table_inv_ev_member:
  "table_inv s \<Longrightarrow> p \<in> set (gev s) \<longleftrightarrow> (\<exists>h. map_of (gtab s) h = Some p) \<and> pn_ref_cnt (node s p) = 0"
  by (auto simp: table_inv_def dest: map_of_SomeD)

text \<open>Removing a node of the table from the evictor removes nothing else.\<close>

lemma table_inv_Del:
  assumes inv: "table_inv s" and p: "map_of (gtab s) h = Some p"
  shows "ev_Del (pcm_nodes s) p (gev s) = Inr (filter (\<lambda>q. q \<noteq> p) (gev s))"
proof -
  have "pn_key (node s q) \<noteq> pn_key (node s p) \<longleftrightarrow> q \<noteq> p" if q: "q \<in> set (gev s)" for q
  proof -
    from inv q obtain h' where "(h', q) \<in> set (gtab s)" by (auto simp: table_inv_def)
    with table_inv_hash_inj [OF inv this map_of_SomeD [OF p]] show ?thesis by auto
  qed
  then show ?thesis
    using table_inv_ev [OF inv] by (simp add: ev_Del_ordered cong: filter_cong)
qed

section \<open>References\<close>

lemma fold_RefCacheSpan_id:
  "\<forall>q\<in>set qs. q < length store \<and> HasExtraRef store q \<Longrightarrow> fold RefCacheSpan qs store = store"
proof (induction qs)
  case Nil
  then show ?case by simp
next
  case (Cons q qs)
  then have "(store ! q)\<lparr>span_has_extra_ref := True\<rparr> = store ! q" by (simp add: HasExtraRef_def)
  then have "RefCacheSpan q store = store" by (simp add: RefCacheSpan_def)
  with Cons show ?case by simp
qed

lemma table_spans_member:
  "map_of (gtab s) h = Some p \<Longrightarrow> set (node_spans (node s p)) \<subseteq> set (table_spans s)"
  by (force simp: table_spans_def dest: map_of_SomeD)

lemma ref_cache_span_id:
  assumes "span_inv s"
  shows "ref_cache_span h CUDA s = s"
proof (cases "map_of (gtab s) h")
  case None
  then show ?thesis by (simp add: ref_cache_span_def)
next
  case (Some p)
  have "fold RefCacheSpan (node_spans (node s p)) (gstore s) = gstore s"
    using table_spans_member [OF Some] assms
    by (intro fold_RefCacheSpan_id) (auto simp: span_inv_def spans_owned_def)
  with Some show ?thesis by (simp add: ref_cache_span_def map_store_def Let_def)
qed

text \<open>The node with one more reference.\<close>

definition ref_state :: "node_ptr \<Rightarrow> int \<Rightarrow> ('d, 'm) pcm \<Rightarrow> ('d, 'm) pcm" where
  "ref_state p ts s =
     set_node p (touch ts ((node s p)\<lparr>pn_ref_cnt := pn_ref_cnt (node s p) + 1\<rparr>))
       (s\<lparr>pcm_gpu_union := (pcm_gpu_union s)\<lparr>cu_evictor := filter (\<lambda>q. q \<noteq> p) (gev s)\<rparr>\<rparr>)"

lemma ref_node_eq:
  assumes inv: "gpu_inv s" and p: "map_of (gtab s) h = Some p"
  shows "ref_node h ts CUDA s = ret () (ref_state p ts s)"
proof (cases "pn_ref_cnt (node s p) = 0")
  case True
  with assms show ?thesis
    by (simp add: ref_node_def ref_cache_span_id gpu_inv_def evictor_Del_def table_inv_Del ref_state_def)
next
  case False
  with inv have "p \<notin> set (gev s)" by (auto simp: gpu_inv_def table_inv_ev_member)
  then have "filter (\<lambda>q. q \<noteq> p) (gev s) = gev s" by (auto simp: filter_id_conv)
  with False p show ?thesis by (simp add: ref_node_def ref_state_def)
qed

text \<open>A change of one node that keeps its hash and spans keeps the spans of the table.\<close>

lemma table_spans_set_node:
  assumes "node_spans nd = node_spans (node s p)" "gtab s' = gtab s" "pcm_nodes s' = (pcm_nodes s)[p := nd]"
  shows "table_spans s' = table_spans s"
proof -
  have "node_spans (node s' q) = node_spans (node s q)" for q
    using assms(1,3) by (cases "p < length (pcm_nodes s)"; cases "p = q") (auto simp: list_update_beyond)
  then show ?thesis by (simp add: table_spans_def assms(2))
qed

lemma span_inv_set_node:
  assumes "span_inv s" "node_spans nd = node_spans (node s p)" "pcm_nodes s' = (pcm_nodes s)[p := nd]"
    "gtab s' = gtab s" "cu_span_manager (pcm_gpu_union s') = cu_span_manager (pcm_gpu_union s)"
  shows "span_inv s'"
  using assms(1) table_spans_set_node [OF assms(2,4,3)] by (simp add: span_inv_def assms(5))

lemma pn_key_update_other: "p \<noteq> q \<Longrightarrow> pn_key ((nodes[p := nd]) ! q) = pn_key (nodes ! q)"
  by simp

lemma gpu_inv_ref_state:
  assumes inv: "gpu_inv s" and p: "map_of (gtab s) h = Some p"
  shows "gpu_inv (ref_state p ts s)"
proof -
  let ?nd = "touch ts ((node s p)\<lparr>pn_ref_cnt := pn_ref_cnt (node s p) + 1\<rparr>)"
  let ?s' = "ref_state p ts s"
  have t: "table_inv s" and sp: "span_inv s" using inv by (simp_all add: gpu_inv_def)
  note pn = table_inv_node [OF t p]
  have nodes: "pcm_nodes ?s' = (pcm_nodes s)[p := ?nd]" and tab: "gtab ?s' = gtab s"
    and ev: "gev ?s' = filter (\<lambda>q. q \<noteq> p) (gev s)"
    by (simp_all add: ref_state_def)
  have "ev_ordered (pcm_nodes ?s') (gev ?s')"
    using table_inv_ev [OF t] unfolding ev nodes
    by (subst ev_ordered_cong [where nodes' = "pcm_nodes s"]) auto
  moreover have "set (gev ?s') = {q. \<exists>h. (h, q) \<in> set (gtab ?s') \<and> pn_ref_cnt (node ?s' q) = 0}"
    using t pn(1,5) unfolding ev nodes tab table_inv_def by (auto simp: nth_upd)
  moreover have "pcm_layer_num ?s' = pcm_layer_num s" by (simp add: ref_state_def)
  ultimately have "table_inv ?s'"
    using t unfolding table_inv_def nodes tab by (auto simp: nth_upd split: prod.splits)
  moreover have "span_inv ?s'"
    by (rule span_inv_set_node [OF sp _ nodes tab]) (simp_all add: ref_state_def)
  ultimately show ?thesis by (simp add: gpu_inv_def)
qed

text \<open>The node with one reference less, in the evictor if it was the last one.\<close>

definition unref_state :: "node_ptr \<Rightarrow> ('d, 'm) pcm \<Rightarrow> ('d, 'm) pcm" where
  "unref_state p s =
     (let nodes = (pcm_nodes s)[p := (node s p)\<lparr>pn_ref_cnt := pn_ref_cnt (node s p) - 1\<rparr>];
          ev = (if pn_ref_cnt (node s p) = 1 then ev_insert nodes p (gev s) else gev s)
      in s\<lparr>pcm_nodes := nodes, pcm_gpu_union := (pcm_gpu_union s)\<lparr>cu_evictor := ev\<rparr>\<rparr>)"

lemma unref_ev:
  assumes t: "table_inv s" and p: "map_of (gtab s) h = Some p" and pos: "0 < pn_ref_cnt (node s p)"
    and nodes: "nodes = (pcm_nodes s)[p := nd]"
  shows "ev_ordered nodes (gev s) \<and> (\<forall>q\<in>set (gev s). pn_key (nodes ! q) \<noteq> pn_key (nodes ! p)
     \<or> pn_hash nd \<noteq> h)"
proof -
  have "p \<notin> set (gev s)" using t pos by (auto simp: table_inv_ev_member)
  then have same: "nodes ! q = node s q" if "q \<in> set (gev s)" for q
    using that nodes by (metis nth_list_update_neq)
  have "ev_ordered nodes (gev s)"
    using table_inv_ev [OF t] same by (subst ev_ordered_cong [where nodes' = "pcm_nodes s"]) auto
  moreover have "pn_key (nodes ! q) \<noteq> pn_key (nodes ! p) \<or> pn_hash nd \<noteq> h" if q: "q \<in> set (gev s)" for q
  proof -
    from t q obtain h' where h': "map_of (gtab s) h' = Some q" by (auto simp: table_inv_ev_member)
    have "h' \<noteq> h" using h' p \<open>p \<notin> set (gev s)\<close> q by auto
    then have "pn_hash (node s q) \<noteq> h" using table_inv_node(2) [OF t h'] by simp
    then show ?thesis using same [OF q] table_inv_node(1) [OF t p] nodes by (auto simp: pn_key_def)
  qed
  ultimately show ?thesis by blast
qed

lemma unref_node_eq:
  assumes inv: "table_inv s" and p: "map_of (gtab s) h = Some p" and pos: "0 < pn_ref_cnt (node s p)"
  shows "unref_node h CUDA s = ret () (unref_state p s)"
proof -
  let ?nodes = "(pcm_nodes s)[p := (node s p)\<lparr>pn_ref_cnt := pn_ref_cnt (node s p) - 1\<rparr>]"
  have "ev_ordered ?nodes (gev s)" using unref_ev [OF assms refl] by blast
  with p show ?thesis
    by (cases "pn_ref_cnt (node s p) = 1")
      (simp_all add: unref_node_def table_at_def Let_def evictor_Add_def ev_Add_def unref_state_def set_node_def)
qed

lemma gpu_inv_unref_state:
  assumes inv: "gpu_inv s" and p: "map_of (gtab s) h = Some p" and pos: "0 < pn_ref_cnt (node s p)"
  shows "gpu_inv (unref_state p s)"
proof -
  let ?nd = "(node s p)\<lparr>pn_ref_cnt := pn_ref_cnt (node s p) - 1\<rparr>"
  let ?nodes = "(pcm_nodes s)[p := ?nd]"
  let ?s' = "unref_state p s"
  have t: "table_inv s" and sp: "span_inv s" using inv by (simp_all add: gpu_inv_def)
  note pn = table_inv_node [OF t p]
  have notin: "p \<notin> set (gev s)" using t pos by (auto simp: table_inv_ev_member)
  have ord: "ev_ordered ?nodes (gev s)" and fresh: "\<forall>q\<in>set (gev s). pn_key (?nodes ! q) \<noteq> pn_key (?nodes ! p)"
    using unref_ev [OF t p pos refl, of ?nd] pn(2) by auto
  have nodes: "pcm_nodes ?s' = ?nodes" and tab: "gtab ?s' = gtab s"
    and ev: "gev ?s' = (if pn_ref_cnt (node s p) = 1 then ev_insert ?nodes p (gev s) else gev s)"
    by (simp_all add: unref_state_def Let_def)
  have "ev_ordered (pcm_nodes ?s') (gev ?s')"
    using ord ev_insert_fresh [OF fresh ord] unfolding ev nodes by (auto split: if_split)
  moreover have "set (gev ?s') = {q. \<exists>h. (h, q) \<in> set (gtab ?s') \<and> pn_ref_cnt (node ?s' q) = 0}"
    using t pn(1,6) notin pos ev_insert_fresh [OF fresh ord] unfolding ev nodes tab table_inv_def
    by (auto simp: nth_upd)
  moreover have "pcm_layer_num ?s' = pcm_layer_num s" by (simp add: unref_state_def Let_def)
  ultimately have "table_inv ?s'"
    using t pos unfolding table_inv_def nodes tab by (auto simp: nth_upd split: prod.splits)
  moreover have "span_inv ?s'"
    by (rule span_inv_set_node [OF sp _ nodes tab]) (simp_all add: unref_state_def Let_def)
  ultimately show ?thesis by (simp add: gpu_inv_def)
qed

section \<open>Deletion\<close>

lemma fold_UnrefCacheSpan [simp]:
  "length (fold UnrefCacheSpan qs store) = length store"
  "span_frame (fold UnrefCacheSpan qs store ! q) = span_frame (store ! q)"
  by (induction qs arbitrary: store) simp_all

lemma HasExtraRef_fold_Unref:
  "q < length store \<Longrightarrow>
   HasExtraRef (fold UnrefCacheSpan qs store) q \<longleftrightarrow> q \<notin> set qs \<and> HasExtraRef store q"
  by (induction qs arbitrary: store) auto

lemma mset_delete_present:
  "wf_map m \<Longrightarrow> map_of m k = Some v \<Longrightarrow> mset m = add_mset (k, v) (mset (AList.delete k m))"
proof (induction m)
  case Nil
  then show ?case by simp
next
  case (Cons a m)
  obtain k' v' where a: "a = (k', v')" by (cases a)
  show ?case
  proof (cases "k' = k")
    case True
    then have "map_of m k = None" using Cons.prems(1) a by (auto simp: map_of_eq_None_iff)
    with a True Cons.prems show ?thesis by (simp add: AList.delete_eq delete_absent [unfolded AList.delete_eq])
  next
    case False
    with Cons a show ?thesis by (simp add: AList.delete_eq)
  qed
qed

lemma mset_concat_map_cong: "mset xs = mset ys \<Longrightarrow> mset (concat (map f xs)) = mset (concat (map f ys))"
  by (simp add: mset_concat flip: sum_mset_sum_list)

lemma table_spans_delete:
  assumes "wf_map (gtab s)" "map_of (gtab s) h = Some p"
    "gtab s' = AList.delete h (gtab s)" "pcm_nodes s' = pcm_nodes s"
  shows "mset (table_spans s) = mset (node_spans (node s p) @ table_spans s')"
proof -
  have "mset (gtab s) = mset ((h, p) # AList.delete h (gtab s))"
    using mset_delete_present [OF assms(1,2)] by simp
  then have "mset (concat (map (\<lambda>(h, p). node_spans (node s p)) (gtab s)))
      = mset (concat (map (\<lambda>(h, p). node_spans (node s p)) ((h, p) # AList.delete h (gtab s))))"
    by (rule mset_concat_map_cong)
  then show ?thesis by (simp add: table_spans_def assms(3,4))
qed

lemma spans_owned_mset: "mset qs = mset qs' \<Longrightarrow> spans_owned sm qs = spans_owned sm qs'"
  by (metis (no_types, lifting) spans_owned_def mset_map mset_eq_imp_distinct_iff mset_eq_setD)

lemma spans_owned_append:
  "spans_owned sm (qs @ rs) \<longleftrightarrow>
     spans_owned sm qs \<and> spans_owned sm rs \<and>
     (\<lambda>q. span_frame (csm_store sm ! q)) ` set qs \<inter> (\<lambda>q. span_frame (csm_store sm ! q)) ` set rs = {}"
  by (auto simp: spans_owned_def)

lemma fold_FreeFrame_created:
  "cfm_created (fold (\<lambda>f fm. snd (cfm_FreeFrame enq_reliable (Some f) fm)) fs fm) = cfm_created fm"
  by (induction fs arbitrary: fm) simp_all

text \<open>Unreferencing and releasing the spans of a node gives back exactly their frames.\<close>

lemma release_spans:
  assumes inv: "cfm_inv (csm_frame_manager sm)" and own: "spans_owned sm (qs @ rs)"
  obtains sm' where
    "csm_ReleaseSpans enq_reliable qs (sm\<lparr>csm_store := fold UnrefCacheSpan qs (csm_store sm)\<rparr>) = ret () sm'"
    "csm_store sm' = fold UnrefCacheSpan qs (csm_store sm)" "cfm_inv (csm_frame_manager sm')"
    "cfm_CountOccupiedFrame (csm_frame_manager sm') + length qs = cfm_CountOccupiedFrame (csm_frame_manager sm)"
    "spans_owned sm' rs" "cfm_created (csm_frame_manager sm') = cfm_created (csm_frame_manager sm)"
proof -
  let ?fs = "map (\<lambda>q. span_frame (csm_store sm ! q)) qs"
  let ?free = "\<lambda>f fm. snd (cfm_FreeFrame enq_reliable (Some f) fm)"
  let ?sm' = "sm\<lparr>csm_store := fold UnrefCacheSpan qs (csm_store sm),
    csm_frame_manager := fold ?free ?fs (csm_frame_manager sm)\<rparr>"
  have r: "csm_ReleaseSpans enq_reliable qs (sm\<lparr>csm_store := fold UnrefCacheSpan qs (csm_store sm)\<rparr>)
      = ret () ?sm'"
    using own by (subst csm_ReleaseSpans_free) (auto simp: spans_owned_def HasExtraRef_fold_Unref)
  have *: "cfm_inv (fold ?free ?fs (csm_frame_manager sm)) \<and>
    cfm_CountOccupiedFrame (fold ?free ?fs (csm_frame_manager sm)) + length ?fs
      = cfm_CountOccupiedFrame (csm_frame_manager sm) \<and>
    (\<forall>g. g \<notin> set ?fs \<longrightarrow> cfm_held (csm_frame_manager sm) g \<longrightarrow>
       cfm_held (fold ?free ?fs (csm_frame_manager sm)) g)"
    using inv own by (intro cfm.free_all) (auto simp: spans_owned_def)
  have "cfm_held (csm_frame_manager ?sm') (span_frame (csm_store sm ! q))" if "q \<in> set rs" for q
  proof -
    have "span_frame (csm_store sm ! q) \<notin> set ?fs" using own that unfolding spans_owned_append by auto
    moreover have "cfm_held (csm_frame_manager sm) (span_frame (csm_store sm ! q))"
      using own that by (auto simp: spans_owned_def)
    ultimately show ?thesis using * by (simp del: cfm_FreeFrame_reliable)
  qed
  then have "spans_owned ?sm' rs"
    using own unfolding spans_owned_append by (simp add: spans_owned_def del: cfm_FreeFrame_reliable)
  with r * fold_FreeFrame_created [of ?fs "csm_frame_manager sm"] show ?thesis
    by (intro that [of ?sm']) auto
qed

definition del_union :: "string \<Rightarrow> node_ptr \<Rightarrow> 'm concurrent_sm \<Rightarrow> 'm cache_union \<Rightarrow> 'm cache_union" where
  "del_union h p sm u =
     u\<lparr>cu_span_manager := sm, cu_evictor := filter (\<lambda>q. q \<noteq> p) (cu_evictor u),
       cu_hash_table := AList.delete h (cu_hash_table u)\<rparr>"

lemma del_union_table_inv:
  assumes t: "table_inv s" and p: "map_of (gtab s) h = Some p"
  shows "table_inv (s\<lparr>pcm_gpu_union := del_union h p sm (pcm_gpu_union s)\<rparr>)" (is "table_inv ?s'")
proof -
  note pn = table_inv_node [OF t p]
  have wf: "wf_map (gtab s)" using t by (simp add: table_inv_def)
  have pq: "q \<noteq> p \<longleftrightarrow> h' \<noteq> h" if "(h', q) \<in> set (gtab s)" for h' q
  proof -
    have "map_of (gtab s) h' = Some q" using t that by (rule table_inv_lookup)
    then show ?thesis using p pn(2) table_inv_node(2) [OF t] by (metis option.inject)
  qed
  have mem: "(h', q) \<in> set (gtab ?s') \<longleftrightarrow> (h', q) \<in> set (gtab s) \<and> q \<noteq> p" for h' q
    using pq [of h' q] set_delete_wf [OF wf, of h] by (auto simp: del_union_def)
  show ?thesis
    unfolding table_inv_def
  proof (intro conjI)
    show "wf_map (gtab ?s')" using wf by (simp add: del_union_def)
    show "ev_ordered (pcm_nodes ?s') (gev ?s')" using table_inv_ev [OF t] by (simp add: del_union_def)
    show "set (gev ?s') = {q. \<exists>h'. (h', q) \<in> set (gtab ?s') \<and> pn_ref_cnt (node ?s' q) = 0}"
      unfolding mem using t by (auto simp: del_union_def table_inv_def)
  next
    show "\<forall>(h', q)\<in>set (gtab ?s'). q < length (pcm_nodes ?s') \<and> pn_hash (node ?s' q) = h' \<and>
        h' \<noteq> DEFAULT_HASH_STR \<and> pn_cache_num (node ?s' q) = pcm_layer_num ?s' \<and>
        int (length (pn_k_cache (node ?s' q))) = pcm_layer_num ?s' \<and>
        int (length (pn_v_cache (node ?s' q))) = pcm_layer_num ?s' \<and> 0 \<le> pn_ref_cnt (node ?s' q)"
    proof clarify
      fix h' q assume "(h', q) \<in> set (gtab ?s')"
      then have "(h', q) \<in> set (gtab s)" by (simp only: mem)
      with t show "q < length (pcm_nodes ?s') \<and> pn_hash (node ?s' q) = h' \<and>
        h' \<noteq> DEFAULT_HASH_STR \<and> pn_cache_num (node ?s' q) = pcm_layer_num ?s' \<and>
        int (length (pn_k_cache (node ?s' q))) = pcm_layer_num ?s' \<and>
        int (length (pn_v_cache (node ?s' q))) = pcm_layer_num ?s' \<and> 0 \<le> pn_ref_cnt (node ?s' q)"
        by (auto simp: table_inv_def)
    qed
  qed
qed

text \<open>Deleting a node of the table, whatever its reference count.\<close>

lemma delete_node_eq:
  assumes inv: "gpu_inv s" and p: "map_of (gtab s) h = Some p"
  obtains sm where
    "delete_node enq_reliable h CUDA s = ret () (s\<lparr>pcm_gpu_union := del_union h p sm (pcm_gpu_union s)\<rparr>)"
    "gpu_inv (s\<lparr>pcm_gpu_union := del_union h p sm (pcm_gpu_union s)\<rparr>)"
    "cfm_CountOccupiedFrame (csm_frame_manager sm) + 2 * nat (pcm_layer_num s) = cfm_CountOccupiedFrame (gfm s)"
    "cfm_created (csm_frame_manager sm) = cfm_created (gfm s)"
proof -
  let ?sm0 = "cu_span_manager (pcm_gpu_union s)"
  let ?qs = "node_spans (node s p)"
  have t: "table_inv s" and sp: "span_inv s" using inv by (simp_all add: gpu_inv_def)
  note pn = table_inv_node [OF t p]
  have wf: "wf_map (gtab s)" using t by (simp add: table_inv_def)
  let ?rs = "table_spans (s\<lparr>pcm_gpu_union := del_union h p ?sm0 (pcm_gpu_union s)\<rparr>)"
  have m: "mset (table_spans s) = mset (?qs @ ?rs)"
    by (rule table_spans_delete [OF wf p]) (simp_all add: del_union_def)
  have own: "spans_owned ?sm0 (?qs @ ?rs)"
    using sp unfolding span_inv_def spans_owned_mset [OF m] by blast
  have inv0: "cfm_inv (csm_frame_manager ?sm0)" using sp by (simp add: span_inv_def)
  obtain sm where r: "csm_ReleaseSpans enq_reliable ?qs
        (?sm0\<lparr>csm_store := fold UnrefCacheSpan ?qs (csm_store ?sm0)\<rparr>) = ret () sm"
    and st: "csm_store sm = fold UnrefCacheSpan ?qs (csm_store ?sm0)"
    and inv1: "cfm_inv (csm_frame_manager sm)"
    and occ: "cfm_CountOccupiedFrame (csm_frame_manager sm) + length ?qs = cfm_CountOccupiedFrame (gfm s)"
    and own': "spans_owned sm ?rs" and sz: "cfm_created (csm_frame_manager sm) = cfm_created (gfm s)"
    by (rule release_spans [OF inv0 own])
  let ?s' = "s\<lparr>pcm_gpu_union := del_union h p sm (pcm_gpu_union s)\<rparr>"
  have spans': "table_spans ?s' = ?rs" by (simp add: table_spans_def del_union_def)
  have del: "delete_node enq_reliable h CUDA s = ret () ?s'"
    using p r table_inv_Del [OF t p]
    by (simp add: delete_node_def unref_cache_span_def free_cache_span_def map_store_def Let_def
        table_at_def evictor_Del_def table_erase_def del_union_def)
  have "table_inv ?s'" using t p by (rule del_union_table_inv)
  moreover have "span_inv ?s'"
    unfolding span_inv_def
  proof (intro conjI ballI)
    show "cfm_inv (gfm ?s')" using inv1 by (simp add: del_union_def)
    show "spans_owned (cu_span_manager (pcm_gpu_union ?s')) (table_spans ?s')"
      unfolding spans' using own' by (simp add: del_union_def)
    fix q assume "q \<in> set (table_spans ?s')"
    then have q: "q \<in> set ?rs" by (simp only: spans')
    then have "q \<notin> set ?qs" using own unfolding spans_owned_append by blast
    moreover have "q \<in> set (table_spans s)" using mset_eq_setD [OF m] q by auto
    then have "q < length (gstore s)" "HasExtraRef (gstore s) q"
      using sp by (auto simp: span_inv_def spans_owned_def)
    ultimately show "HasExtraRef (gstore ?s') q" by (simp add: del_union_def st HasExtraRef_fold_Unref)
  qed
  ultimately have "gpu_inv ?s'" by (simp add: gpu_inv_def)
  moreover have "length ?qs = 2 * nat (pcm_layer_num s)" by (simp add: node_spans_def pn(4))
  ultimately show ?thesis using that [OF del] occ sz by simp
qed

section \<open>Eviction\<close>

text \<open>
  The state after the nodes with the hashes of a set are gone: nothing but the union of the GPU has
  changed, the frames of the nodes are free again.
\<close>

definition evicted :: "string set \<Rightarrow> ('d, 'm) pcm \<Rightarrow> ('d, 'm) pcm \<Rightarrow> bool" where
  "evicted H s s' \<longleftrightarrow>
     s' = s\<lparr>pcm_gpu_union := pcm_gpu_union s'\<rparr> \<and> gpu_inv s' \<and>
     gtab s' = filter (\<lambda>(h, p). h \<notin> H) (gtab s) \<and>
     gev s' = filter (\<lambda>p. pn_hash (node s p) \<notin> H) (gev s) \<and>
     cu_capacity (pcm_gpu_union s') = cu_capacity (pcm_gpu_union s) \<and>
     cfm_created (gfm s') = cfm_created (gfm s) \<and>
     cfm_CountOccupiedFrame (gfm s') + 2 * nat (pcm_layer_num s) * card H = cfm_CountOccupiedFrame (gfm s)"

lemma evicted_refl: "gpu_inv s \<Longrightarrow> evicted {} s s"
  by (simp add: evicted_def)

lemma evicted_same:
  assumes "evicted H s s'"
  shows "gpu_inv s'" "pcm_nodes s' = pcm_nodes s" "pcm_cpu_union s' = pcm_cpu_union s"
    "pcm_layer_num s' = pcm_layer_num s" "pcm_time_to_live_sec s' = pcm_time_to_live_sec s"
    "pcm_token_per_span s' = pcm_token_per_span s"
proof -
  from assms have "s' = s\<lparr>pcm_gpu_union := pcm_gpu_union s'\<rparr>" and i: "gpu_inv s'" by (auto simp: evicted_def)
  show "gpu_inv s'" by (rule i)
  show "pcm_nodes s' = pcm_nodes s" "pcm_cpu_union s' = pcm_cpu_union s"
    "pcm_layer_num s' = pcm_layer_num s" "pcm_time_to_live_sec s' = pcm_time_to_live_sec s"
    "pcm_token_per_span s' = pcm_token_per_span s"
    by (subst \<open>s' = _\<close>, simp)+
qed

lemma map_of_filter_key: "map_of (filter (\<lambda>(k, v). P k) m) k = (if P k then map_of m k else None)"
  by (induction m) auto

lemma evicted_lookup:
  "evicted H s s' \<Longrightarrow> map_of (gtab s') h = (if h \<in> H then None else map_of (gtab s) h)"
  by (simp add: evicted_def map_of_filter_key)

lemma evicted_trans:
  assumes a: "evicted H s s1" and b: "evicted K s1 s2" and d: "H \<inter> K = {}" "finite H" "finite K"
  shows "evicted (H \<union> K) s s2"
proof -
  have s2: "s2 = s\<lparr>pcm_gpu_union := pcm_gpu_union s2\<rparr>"
  proof -
    have "s2 = s1\<lparr>pcm_gpu_union := pcm_gpu_union s2\<rparr>" "s1 = s\<lparr>pcm_gpu_union := pcm_gpu_union s1\<rparr>"
      using a b by (simp_all add: evicted_def)
    then show ?thesis by (cases s; cases s1; cases s2) simp
  qed
  have "gtab s2 = filter (\<lambda>(h, p). h \<notin> H \<union> K) (gtab s)"
    using a b by (simp add: evicted_def case_prod_unfold)
  moreover have "gev s2 = filter (\<lambda>p. pn_hash (node s p) \<notin> H \<union> K) (gev s)"
    using a b evicted_same(2) [OF a] by (simp add: evicted_def)
  moreover have "cfm_CountOccupiedFrame (gfm s2) + 2 * nat (pcm_layer_num s) * card (H \<union> K)
      = cfm_CountOccupiedFrame (gfm s)"
    using a b evicted_same(4) [OF a] card_Un_disjoint [OF d(2,3,1)]
    by (simp add: evicted_def algebra_simps)
  moreover have "cu_capacity (pcm_gpu_union s2) = cu_capacity (pcm_gpu_union s)" "gpu_inv s2"
    "cfm_created (gfm s2) = cfm_created (gfm s)"
    using a b by (simp_all add: evicted_def)
  ultimately show ?thesis using s2 unfolding evicted_def by blast
qed

lemma delete_node_evicted:
  assumes inv: "gpu_inv s" and h: "map_of (gtab s) h = Some p"
  shows "\<exists>s'. delete_node enq_reliable h CUDA s = ret () s' \<and> evicted {h} s s'"
proof -
  obtain sm where d: "delete_node enq_reliable h CUDA s
        = ret () (s\<lparr>pcm_gpu_union := del_union h p sm (pcm_gpu_union s)\<rparr>)"
    and inv': "gpu_inv (s\<lparr>pcm_gpu_union := del_union h p sm (pcm_gpu_union s)\<rparr>)"
    and occ: "cfm_CountOccupiedFrame (csm_frame_manager sm) + 2 * nat (pcm_layer_num s)
        = cfm_CountOccupiedFrame (gfm s)"
    and cr: "cfm_created (csm_frame_manager sm) = cfm_created (gfm s)"
    by (rule delete_node_eq [OF assms])
  let ?s' = "s\<lparr>pcm_gpu_union := del_union h p sm (pcm_gpu_union s)\<rparr>"
  have t: "table_inv s" using inv by (simp add: gpu_inv_def)
  have "q \<noteq> p \<longleftrightarrow> pn_hash (node s q) \<notin> {h}" if q: "q \<in> set (gev s)" for q
  proof -
    from t q obtain h' where h': "map_of (gtab s) h' = Some q" by (auto simp: table_inv_ev_member)
    then have "pn_hash (node s q) = h'" using t by (intro table_inv_node)
    with h' h table_inv_node(2) [OF t h] show ?thesis by (metis option.inject singleton_iff)
  qed
  then have "filter (\<lambda>q. q \<noteq> p) (gev s) = filter (\<lambda>q. pn_hash (node s q) \<notin> {h}) (gev s)"
    by (rule filter_cong [OF refl])
  moreover have "AList.delete h (gtab s) = filter (\<lambda>(h', p). h' \<notin> {h}) (gtab s)"
    by (auto simp: AList.delete_eq intro: filter_cong)
  ultimately have "evicted {h} s ?s'"
    using inv' occ cr by (simp add: evicted_def del_union_def)
  with d show ?thesis by blast
qed

lemma delete_multinodes_evicted:
  "gpu_inv s \<Longrightarrow> distinct hs \<Longrightarrow> \<forall>h\<in>set hs. map_of (gtab s) h \<noteq> None \<Longrightarrow>
   \<exists>s'. delete_multinodes enq_reliable hs CUDA s = ret () s' \<and> evicted (set hs) s s'"
proof (induction hs arbitrary: s)
  case Nil
  then show ?case by (auto simp: delete_multinodes_def evicted_refl)
next
  case (Cons h hs)
  from Cons.prems obtain p where "map_of (gtab s) h = Some p" by auto
  with Cons.prems(1) obtain s1 where d: "delete_node enq_reliable h CUDA s = ret () s1"
    and e: "evicted {h} s s1"
    using delete_node_evicted by blast
  have "\<forall>h'\<in>set hs. map_of (gtab s1) h' \<noteq> None"
    using Cons.prems evicted_lookup [OF e] by auto
  then obtain s' where "delete_multinodes enq_reliable hs CUDA s1 = ret () s'" "evicted (set hs) s1 s'"
    using Cons evicted_same(1) [OF e] by (metis distinct.simps(2))
  with d evicted_trans [OF e] Cons.prems(2) show ?case
    by (auto simp: delete_multinodes_def intro!: exI [of _ s'])
qed

lemma filter_timeout_evicted:
  "gpu_inv s \<Longrightarrow> distinct hs \<Longrightarrow> \<forall>h\<in>set hs. map_of (gtab s) h \<noteq> None \<Longrightarrow>
   \<exists>kept s'. filter_timeout_hash enq_reliable now hs s = ret kept s' \<and> distinct kept \<and>
     set kept \<subseteq> set hs \<and> evicted (set hs - set kept) s s'"
proof (induction hs arbitrary: s)
  case Nil
  then show ?case by (auto simp: evicted_refl)
next
  case (Cons h hs)
  from Cons.prems obtain p where p: "map_of (gtab s) h = Some p" by auto
  show ?case
  proof (cases "timed_out now (node s p) s")
    case True
    obtain s1 where d: "delete_node enq_reliable h CUDA s = ret () s1" and e: "evicted {h} s s1"
      using delete_node_evicted [OF Cons.prems(1) p] by blast
    have "\<forall>h'\<in>set hs. map_of (gtab s1) h' \<noteq> None" using Cons.prems evicted_lookup [OF e] by auto
    then obtain kept s' where r: "filter_timeout_hash enq_reliable now hs s1 = ret kept s'"
      and k: "distinct kept" "set kept \<subseteq> set hs" and e': "evicted (set hs - set kept) s1 s'"
      using Cons evicted_same(1) [OF e] by (metis distinct.simps(2))
    have "set (h # hs) - set kept = {h} \<union> (set hs - set kept)" using k Cons.prems(2) by auto
    with evicted_trans [OF e e'] Cons.prems(2) have "evicted (set (h # hs) - set kept) s s'" by auto
    with r k d p True show ?thesis by (auto simp: table_at_def intro!: exI [of _ kept] exI [of _ s'])
  next
    case False
    from Cons.IH [OF Cons.prems(1)] Cons.prems(2,3) obtain kept s'
      where r: "filter_timeout_hash enq_reliable now hs s = ret kept s'"
      and k: "distinct kept" "set kept \<subseteq> set hs" and e: "evicted (set hs - set kept) s s'"
      by auto
    have "set (h # hs) - set (h # kept) = set hs - set kept" using Cons.prems(2) by auto
    with r k e p False Cons.prems(2) show ?thesis
      by (auto simp: table_at_def intro!: exI [of _ "h # kept"] exI [of _ s'])
  qed
qed

text \<open>Without a host cache nothing is moved there.\<close>

lemma gpu_only_alloc: "gpu_only s \<Longrightarrow> alloc_cpu_node enq cn rc pl ts h s = ret None s"
  by (simp add: gpu_only_def alloc_cpu_node_def)

lemma gpu_only_not_cached: "gpu_only s \<Longrightarrow> \<not> transverse_hash_table h CPU s"
  by (simp add: gpu_only_def transverse_hash_table_def)

lemma gpu_only_swap_hashlist:
  "gpu_only s \<Longrightarrow> \<forall>h\<in>set hs. map_of (gtab s) h \<noteq> None \<Longrightarrow> swap_to_cpu_by_hashlist enq hs s = ret () s"
  by (cases hs) (auto simp: swap_to_cpu_by_hashlist_def swap_all_slices_def table_at_def Let_def
      gpu_only_alloc gpu_only_not_cached simp del: andThen_eq_ret)

lemma gpu_only_swap_nodelist: "gpu_only s \<Longrightarrow> swap_to_cpu_by_nodelist enq ps s = ret () s"
  by (cases ps) (simp_all add: swap_to_cpu_by_nodelist_def swap_all_slices_def Let_def
      gpu_only_alloc gpu_only_not_cached del: andThen_eq_ret)

text \<open>The steps that all evictions share: expired nodes go at once, the rest after the copy.\<close>

lemma evict_hashes:
  assumes inv: "gpu_inv s" "gpu_only s" and hs: "distinct hs" "\<forall>h\<in>set hs. map_of (gtab s) h \<noteq> None"
  shows "\<exists>s'. andThen (filter_timeout_hash enq_reliable now hs s) (\<lambda>hs s1.
      andThen (swap_to_cpu_by_hashlist enq_reliable hs s1) (\<lambda>_ s2.
        delete_multinodes enq_reliable hs CUDA s2)) = ret () s' \<and> evicted (set hs) s s'"
proof -
  obtain kept s1 where f: "filter_timeout_hash enq_reliable now hs s = ret kept s1"
    and k: "distinct kept" "set kept \<subseteq> set hs" and e: "evicted (set hs - set kept) s s1"
    using filter_timeout_evicted [OF inv(1) hs] by blast
  have cached: "\<forall>h\<in>set kept. map_of (gtab s1) h \<noteq> None"
    using hs(2) k(2) evicted_lookup [OF e] by auto
  have "gpu_only s1" using inv(2) evicted_same(3) [OF e] by (simp add: gpu_only_def)
  then have sw: "swap_to_cpu_by_hashlist enq_reliable kept s1 = ret () s1"
    using cached by (rule gpu_only_swap_hashlist)
  obtain s' where d: "delete_multinodes enq_reliable kept CUDA s1 = ret () s'"
    and e': "evicted (set kept) s1 s'"
    using delete_multinodes_evicted [OF evicted_same(1) [OF e] k(1) cached] by blast
  have "evicted (set hs - set kept \<union> set kept) s s'" by (rule evicted_trans [OF e e']) auto
  moreover have "set hs - set kept \<union> set kept = set hs" using k(2) by blast
  ultimately show ?thesis using f sw d by auto
qed

lemma evicted_free:
  assumes e: "evicted H s s'" and inv: "span_inv s"
  shows "int (cfm_CountFreeFrame (gfm s')) =
    int (cfm_CountFreeFrame (gfm s)) + int (cfm_CountOccupiedFrame (gfm s)) - int (cfm_CountOccupiedFrame (gfm s'))"
proof -
  have i: "cfm_inv (gfm s)" "cfm_inv (gfm s')" "cfm_created (gfm s') = cfm_created (gfm s)"
    using e inv by (auto simp: evicted_def gpu_inv_def span_inv_def)
  show ?thesis
    using cfm_inv_length [OF i(1)] cfm_inv_length [OF i(2)]
    by (simp add: cfm_inv_counts [OF i(1)] cfm_inv_counts [OF i(2)] i(3))
qed

text \<open>Members of the evictor are determined by their hashes.\<close>

lemma table_inv_ev_hash_inj:
  assumes "table_inv s"
  shows "inj_on (\<lambda>p. pn_hash (node s p)) (set (gev s))"
proof (rule inj_onI)
  fix p q assume "p \<in> set (gev s)" "q \<in> set (gev s)" and e: "pn_hash (node s p) = pn_hash (node s q)"
  then obtain h h' where h: "map_of (gtab s) h = Some p" "map_of (gtab s) h' = Some q"
    using table_inv_ev_member [OF assms] by blast
  then have "h = h'" using e table_inv_node(2) [OF assms h(1)] table_inv_node(2) [OF assms h(2)] by simp
  with h show "p = q" by simp
qed

lemma filter_take_drop:
  assumes "distinct (map f xs)"
  shows "filter (\<lambda>x. f x \<notin> set (map f (take n xs))) xs = drop n xs"
proof -
  have d: "distinct (map f (take n xs @ drop n xs))" using assms by simp
  have "filter (\<lambda>x. f x \<notin> set (map f (take n xs))) (take n xs @ drop n xs) = drop n xs"
    using d unfolding map_append distinct_append filter_append
    by (auto simp: filter_empty_conv filter_id_conv)
  then show ?thesis by simp
qed

lemma evict_first:
  assumes inv: "gpu_inv s" "gpu_only s" and k: "0 \<le> k"
  defines "v \<equiv> take (nat k) (gev s)"
  defines "hs \<equiv> map (\<lambda>p. pn_hash (node s p)) v"
  shows "\<exists>s'. evict_unrefered_by_num enq_reliable now k s = ret () s' \<and> evicted (set hs) s s' \<and>
    card (set hs) = length v \<and>
    filter (\<lambda>(h, p). h \<notin> set hs) (gtab s) = filter (\<lambda>(h, p). p \<notin> set v) (gtab s) \<and>
    filter (\<lambda>p. pn_hash (node s p) \<notin> set hs) (gev s) = drop (nat k) (gev s)"
proof -
  have t: "table_inv s" using inv(1) by (simp add: gpu_inv_def)
  have d: "distinct (map (\<lambda>p. pn_hash (node s p)) (gev s))"
    using table_inv_ev_hash_inj [OF t] ev_ordered_distinct [OF table_inv_ev [OF t]]
    by (simp add: distinct_map)
  then have dh: "distinct hs" by (simp add: hs_def v_def take_map flip: take_map)
  have inv_v: "map_of (gtab s) (pn_hash (node s p)) = Some p" if "p \<in> set v" for p
  proof -
    from that obtain h where h: "map_of (gtab s) h = Some p"
      using table_inv_ev_member [OF t] by (auto simp: v_def dest: in_set_takeD)
    with table_inv_node(2) [OF t h] show ?thesis by simp
  qed
  then have cached: "\<forall>h\<in>set hs. map_of (gtab s) h \<noteq> None" by (auto simp: hs_def)
  have f: "ev_FindMultiVictims (pcm_nodes s) k (gev s) = Inr hs"
    using k by (cases "int (length (gev s)) \<le> k") (simp_all add: ev_FindMultiVictims_def hs_def v_def)
  obtain s' where "evict_unrefered_by_num enq_reliable now k s = ret () s'" "evicted (set hs) s s'"
    using evict_hashes [OF inv dh cached, of now] f by (auto simp: evict_unrefered_by_num_def)
  moreover have "card (set hs) = length v" using dh by (simp add: distinct_card) (simp add: hs_def)
  moreover have "h \<notin> set hs \<longleftrightarrow> p \<notin> set v" if "(h, p) \<in> set (gtab s)" for h p
  proof -
    have l: "map_of (gtab s) h = Some p" using t that by (rule table_inv_lookup)
    have "h \<in> set hs \<longleftrightarrow> p \<in> set v"
    proof
      assume "h \<in> set hs"
      then obtain q where "q \<in> set v" "h = pn_hash (node s q)" by (auto simp: hs_def)
      with inv_v [of q] l show "p \<in> set v" by simp
    next
      assume "p \<in> set v"
      then show "h \<in> set hs" using table_inv_node(2) [OF t l] by (auto simp: hs_def)
    qed
    then show ?thesis by blast
  qed
  then have "filter (\<lambda>(h, p). h \<notin> set hs) (gtab s) = filter (\<lambda>(h, p). p \<notin> set v) (gtab s)"
    by (intro filter_cong) auto
  moreover have "filter (\<lambda>p. pn_hash (node s p) \<notin> set hs) (gev s) = drop (nat k) (gev s)"
    unfolding hs_def v_def using d by (rule filter_take_drop)
  ultimately show ?thesis by blast
qed

text \<open>A node outside the evictor survives every eviction.\<close>

lemma evict_keeps:
  assumes inv: "gpu_inv s" "gpu_only s" and L: "0 < pcm_layer_num s \<and> int (cfm_CountFreeFrame (gfm s)) < target"
    and h: "map_of (gtab s) h = Some p" and p: "p \<notin> set (gev s)"
  shows "\<exists>s'. EvictUnrefered enq_reliable now target s = ret () s' \<and> map_of (gtab s') h = Some p"
proof -
  let ?k = "c_div (target - int (cfm_CountFreeFrame (gfm s)) + pcm_layer_num s * 2 - 1) (pcm_layer_num s * 2)"
  let ?v = "take (nat ?k) (gev s)"
  have "0 \<le> ?k" using L by (simp add: pos_imp_zdiv_nonneg_iff)
  from evict_first [OF inv this] obtain s' where
    r: "evict_unrefered_by_num enq_reliable now ?k s = ret () s'"
    and e: "evicted (set (map (\<lambda>p. pn_hash (node s p)) ?v)) s s'"
    and tab: "filter (\<lambda>(h, p). h \<notin> set (map (\<lambda>p. pn_hash (node s p)) ?v)) (gtab s)
        = filter (\<lambda>(h, p). p \<notin> set ?v) (gtab s)"
    by blast
  have "(h, p) \<in> set (gtab s')"
    using e map_of_SomeD [OF h] p unfolding evicted_def tab by (auto dest: in_set_takeD)
  then have "map_of (gtab s') h = Some p"
    using evicted_same(1) [OF e] table_inv_lookup by (auto simp: gpu_inv_def)
  then show ?thesis using r L by (auto simp: EvictUnrefered_def Let_def)
qed

section \<open>References of a request\<close>

text \<open>The nodes that the hashes hit, up to the first miss.\<close>

definition hits :: "string list \<Rightarrow> ('d, 'm) pcm \<Rightarrow> node_ptr list" where
  "hits hs s = map (\<lambda>h. the (map_of (gtab s) h)) (takeWhile (\<lambda>h. map_of (gtab s) h \<noteq> None) hs)"

lemma hits_simps [simp]:
  "hits [] s = []"
  "hits (h # hs) s = (case map_of (gtab s) h of None \<Rightarrow> [] | Some p \<Rightarrow> p # hits hs s)"
  by (simp_all add: hits_def split: option.splits)

lemma hits_cong: "gtab s' = gtab s \<Longrightarrow> hits hs s' = hits hs s"
  by (simp add: hits_def)

lemma hits_cached: "p \<in> set (hits hs s) \<Longrightarrow> \<exists>h\<in>set hs. map_of (gtab s) h = Some p"
  by (induction hs) (auto split: option.splits)

lemma ref_state_simps [simp]:
  "gtab (ref_state p ts s) = gtab s"
  "pcm_cpu_union (ref_state p ts s) = pcm_cpu_union s"
  "pcm_token_per_span (ref_state p ts s) = pcm_token_per_span s"
  "pcm_layer_num (ref_state p ts s) = pcm_layer_num s"
  "cu_span_manager (pcm_gpu_union (ref_state p ts s)) = cu_span_manager (pcm_gpu_union s)"
  "length (pcm_nodes (ref_state p ts s)) = length (pcm_nodes s)"
  by (simp_all add: ref_state_def)

lemma unref_state_simps [simp]:
  "gtab (unref_state p s) = gtab s"
  "pcm_cpu_union (unref_state p s) = pcm_cpu_union s"
  "cu_span_manager (pcm_gpu_union (unref_state p s)) = cu_span_manager (pcm_gpu_union s)"
  "length (pcm_nodes (unref_state p s)) = length (pcm_nodes s)"
  by (simp_all add: unref_state_def Let_def)

lemma ref_cnt_ref_state:
  "p < length (pcm_nodes s) \<Longrightarrow>
   pn_ref_cnt (node (ref_state p ts s) q) = pn_ref_cnt (node s q) + (if p = q then 1 else 0)"
  by (simp add: ref_state_def nth_upd)

lemma ref_cnt_unref_state:
  "p < length (pcm_nodes s) \<Longrightarrow>
   pn_ref_cnt (node (unref_state p s) q) = pn_ref_cnt (node s q) - (if p = q then 1 else 0)"
  by (simp add: unref_state_def Let_def nth_upd)

definition ref_all :: "node_ptr list \<Rightarrow> int \<Rightarrow> ('d, 'm) pcm \<Rightarrow> ('d, 'm) pcm" where
  "ref_all ps ts s = fold (\<lambda>p. ref_state p ts) ps s"

lemma ref_all_keeps [simp]:
  "gtab (ref_all ps ts s) = gtab s"
  "pcm_cpu_union (ref_all ps ts s) = pcm_cpu_union s"
  "pcm_layer_num (ref_all ps ts s) = pcm_layer_num s"
  "cu_span_manager (pcm_gpu_union (ref_all ps ts s)) = cu_span_manager (pcm_gpu_union s)"
  "length (pcm_nodes (ref_all ps ts s)) = length (pcm_nodes s)"
  unfolding ref_all_def by (induction ps arbitrary: s) simp_all

lemma ref_all_inv:
  "gpu_inv s \<Longrightarrow> \<forall>p\<in>set ps. \<exists>h. map_of (gtab s) h = Some p \<Longrightarrow>
   gpu_inv (ref_all ps ts s) \<and>
   (\<forall>q. pn_ref_cnt (node (ref_all ps ts s) q) = pn_ref_cnt (node s q) + int (count_list ps q))"
proof (induction ps arbitrary: s)
  case Nil
  then show ?case by (simp add: ref_all_def)
next
  case (Cons p ps)
  then obtain h where h: "map_of (gtab s) h = Some p" by auto
  let ?s1 = "ref_state p ts s"
  have i1: "gpu_inv ?s1" using Cons.prems(1) h by (rule gpu_inv_ref_state)
  have "p < length (pcm_nodes s)" using table_inv_node(1) Cons.prems(1) h by (auto simp: gpu_inv_def)
  note cnt = ref_cnt_ref_state [OF this, of ts]
  have "gpu_inv (ref_all ps ts ?s1) \<and>
    (\<forall>q. pn_ref_cnt (node (ref_all ps ts ?s1) q) = pn_ref_cnt (node ?s1 q) + int (count_list ps q))"
    using Cons.IH [OF i1] Cons.prems(2) by simp
  moreover have "ref_all (p # ps) ts s = ref_all ps ts ?s1" by (simp add: ref_all_def)
  ultimately show ?case using cnt by auto
qed

lemma ref_only_loop_eq:
  "gpu_inv s \<Longrightarrow> gpu_only s \<Longrightarrow>
   (let ps = hits (map (prefix_hash toks) is) s; n = int (length ps) * pcm_token_per_span s
    in ref_only_loop toks ts is u g nv s = ret (u + n, g + n, nv @ ps) (ref_all ps ts s))"
proof (induction "is" arbitrary: u g nv s)
  case Nil
  then show ?case by (simp add: ref_all_def)
next
  case (Cons i "is")
  let ?h = "prefix_hash toks i"
  have cpu: "\<not> transverse_hash_table ?h CPU s" using Cons.prems(2) by (rule gpu_only_not_cached)
  show ?case
  proof (cases "map_of (gtab s) ?h")
    case None
    with cpu show ?thesis by (simp add: Let_def transverse_hash_table_def ref_all_def del: andThen_eq_ret)
  next
    case (Some p)
    let ?s1 = "ref_state p ts s"
    have r: "ref_node ?h ts CUDA s = ret () ?s1" using Cons.prems(1) Some by (rule ref_node_eq)
    have i1: "gpu_inv ?s1" using Cons.prems(1) Some by (rule gpu_inv_ref_state)
    have o1: "gpu_only ?s1" using Cons.prems(2) by (simp add: gpu_only_def)
    have "hits (map (prefix_hash toks) is) ?s1 = hits (map (prefix_hash toks) is) s"
      by (rule hits_cong) simp
    with Cons.IH [OF i1 o1] Some cpu r gpu_only_not_cached [OF o1] show ?thesis
      by (simp add: Let_def transverse_hash_table_def table_at_def ref_all_def algebra_simps
          del: andThen_eq_ret)
  qed
qed

lemma unref_one_eq:
  assumes "gpu_inv s" "gpu_only s" "map_of (gtab s) h = Some p" "0 < pn_ref_cnt (node s p)"
  shows "unref_one p s = ret () (unref_state p s)"
proof -
  have t: "table_inv s" using assms(1) by (simp add: gpu_inv_def)
  have "pn_hash (node s p) = h" using table_inv_node(2) [OF t assms(3)] .
  moreover have "gpu_only (unref_state p s)" using assms(2) by (simp add: gpu_only_def)
  then have "\<not> transverse_hash_table h CPU (unref_state p s)" by (rule gpu_only_not_cached)
  ultimately show ?thesis
    using assms(3) unref_node_eq [OF t assms(3,4)]
    by (simp add: unref_one_def Let_def del: andThen_eq_ret)
qed

lemma UnRef_eq:
  "gpu_inv s \<Longrightarrow> gpu_only s \<Longrightarrow>
   \<forall>p\<in>set ps. (\<exists>h. map_of (gtab s) h = Some p) \<and> int (count_list ps p) \<le> pn_ref_cnt (node s p) \<Longrightarrow>
   \<exists>s'. UnRef ps s = ret () s' \<and> gpu_inv s' \<and> gtab s' = gtab s \<and>
     cu_span_manager (pcm_gpu_union s') = cu_span_manager (pcm_gpu_union s) \<and>
     (\<forall>q. pn_ref_cnt (node s' q) = pn_ref_cnt (node s q) - int (count_list ps q))"
proof (induction ps arbitrary: s)
  case Nil
  then show ?case by (simp add: UnRef_def)
next
  case (Cons p ps)
  then obtain h where h: "map_of (gtab s) h = Some p" by auto
  have pos: "0 < pn_ref_cnt (node s p)" using Cons.prems(3) by simp
  let ?s1 = "unref_state p s"
  have u: "unref_one p s = ret () ?s1" using Cons.prems(1,2) h pos by (rule unref_one_eq)
  have i1: "gpu_inv ?s1" using Cons.prems(1) h pos by (rule gpu_inv_unref_state)
  have o1: "gpu_only ?s1" using Cons.prems(2) by (simp add: gpu_only_def)
  have "p < length (pcm_nodes s)" using table_inv_node(1) Cons.prems(1) h by (auto simp: gpu_inv_def)
  note cnt = ref_cnt_unref_state [OF this]
  have "\<forall>q\<in>set ps. (\<exists>h. map_of (gtab ?s1) h = Some q) \<and> int (count_list ps q) \<le> pn_ref_cnt (node ?s1 q)"
    using Cons.prems(3) cnt by fastforce
  from Cons.IH [OF i1 o1 this] u cnt show ?case by (auto simp: UnRef_def)
qed

end
