(* ===== verification/Prefix_Theorems.thy ===== *)
theory Prefix_Theorems
  imports Prefix_Invariant
begin

text \<open>
  The properties of the prefix cache: what the evictor chooses, what a request that looks up its
  prefix gets and gives back, what eviction frees, and how far the hash and the copies can be relied
  on.
\<close>

section \<open>A small cache\<close>

text \<open>One layer, two cached nodes, the first of them referenced; four frames, all in use but one.\<close>

definition demo_frame :: "nat \<Rightarrow> cache_frame" where
  "demo_frame i = \<lparr>frame_data = 1000 + i, frame_bytes = 16, frame_tag = ''frame'', frame_device = CUDA\<rparr>"

definition demo_node :: "nat \<Rightarrow> int \<Rightarrow> int \<Rightarrow> string \<Rightarrow> prefix_node" where
  "demo_node i refs t h =
     \<lparr>pn_k_cache = [2 * i], pn_v_cache = [2 * i + 1], pn_ref_cnt = refs, pn_prefix_len = 16,
      pn_cache_num = 1, pn_last_access_time = t, pn_device_type = CUDA, pn_hash = h,
      pn_is_ready = True\<rparr>"

definition demo_sm :: "unit concurrent_sm" where
  "demo_sm =
     \<lparr>csm_frame_manager = \<lparr>cfm_device_type = CUDA, cfm_initialized = True,
        cfm_free_frames = [demo_frame 4], cfm_free_frame_count = 1, cfm_total_frame_count = 5,
        cfm_frame_size = 16, cfm_init_frames = 5, cfm_mem = (), cfm_created = map demo_frame [0..<5]\<rparr>,
      csm_span_size = 16, csm_initialized = True,
      csm_store = map (\<lambda>i. \<lparr>span_frame = demo_frame i, span_tag = [], span_has_extra_ref = True\<rparr>) [0..<4]\<rparr>"

definition demo_pcm :: "string \<Rightarrow> string \<Rightarrow> (nat, unit) pcm" where
  "demo_pcm h0 h1 =
     \<lparr>pcm_gpu_union = \<lparr>cu_device_type = CUDA, cu_capacity = 2, cu_evictor = [1],
        cu_span_manager = demo_sm, cu_hash_table = [(h0, 0), (h1, 1)]\<rparr>,
      pcm_cpu_union = CacheUnion_new CPU 0 (csm_new (cfm_new CPU 0 ())),
      pcm_nodes = [demo_node 0 1 7 h0, demo_node 1 0 5 h1], pcm_cpu_workspace = None,
      pcm_max_span_num = 8, pcm_gpu_workspace_size = 64, pcm_gpu_data = (\<lambda>a. a), pcm_cpu_data = (\<lambda>_. 0),
      pcm_tasks = [], pcm_token_per_span = 16, pcm_layer_num = 1, pcm_hit_cnt = 0, pcm_miss_cnt = 0,
      pcm_time_to_live_sec = 300, pcm_seq_len_thre = 0\<rparr>"

lemma demo_frame_eq [simp]: "demo_frame i = demo_frame j \<longleftrightarrow> i = j"
  by (simp add: demo_frame_def)

lemma demo_gpu_only: "gpu_only (demo_pcm h0 h1)"
  by (simp add: gpu_only_def demo_pcm_def CacheUnion_new_def)

lemma demo_inv:
  assumes "h0 \<noteq> h1" "h0 \<noteq> DEFAULT_HASH_STR" "h1 \<noteq> DEFAULT_HASH_STR"
  shows "gpu_inv (demo_pcm h0 h1)"
proof -
  have spans: "table_spans (demo_pcm h0 h1) = [0, 1, 2, 3]"
    by (simp add: table_spans_def demo_pcm_def node_spans_def spans_upto_def demo_node_def)
  have "span_inv (demo_pcm h0 h1)"
    unfolding span_inv_def spans spans_owned_def
    by (auto simp: demo_pcm_def demo_sm_def cfm_inv_def cfm_held_def HasExtraRef_def upt_rec)
  moreover have "table_inv (demo_pcm h0 h1)"
    using assms by (auto simp: table_inv_def demo_pcm_def demo_node_def)
  ultimately show ?thesis by (simp add: gpu_inv_def)
qed

section \<open>The evictor\<close>

text \<open>The order of eviction as the cache means it: the node that was used longest ago goes first, of
  two that were used at the same time the one with the longer prefix, and the hash decides the rest.\<close>

definition goes_before :: "prefix_node \<Rightarrow> prefix_node \<Rightarrow> bool" where
  "goes_before a b \<longleftrightarrow>
     pn_last_access_time a < pn_last_access_time b \<or>
     pn_last_access_time a = pn_last_access_time b \<and>
       (pn_prefix_len a > pn_prefix_len b \<or> pn_prefix_len a = pn_prefix_len b \<and> pn_hash a < pn_hash b)"

lemma pn_less_goes_before: "pn_less a b \<longleftrightarrow> goes_before a b"
  by (auto simp: pn_less_def goes_before_def)

text \<open>
  C30: The evictor, on nodes in order, is a finite set whose victim is its oldest member: \<open>Add\<close> of a
  node whose key is not in the set inserts it, \<open>Add\<close> of one whose key is there does nothing,
  \<open>Del\<close> removes the members with the key, both keep the elements in the order of eviction, and
  \<open>FindVictim\<close> is the hash of the member with the least time of access, among equals that with the longest
  prefix, among these that with the least hash, and the marker when there is none.
\<close>

theorem evictor_refines_set:
  assumes "ev_ordered nodes ev"
  shows "(\<exists>ev'. ev_Add nodes p ev = Inr ev' \<and> ev_ordered nodes ev' \<and>
       sorted_wrt (\<lambda>p q. goes_before (nodes ! p) (nodes ! q)) ev' \<and>
       set ev' = (if pn_key (nodes ! p) \<in> (\<lambda>q. pn_key (nodes ! q)) ` set ev then set ev
                  else insert p (set ev))) \<and>
     (\<exists>ev'. ev_Del nodes p ev = Inr ev' \<and> ev_ordered nodes ev' \<and>
       sorted_wrt (\<lambda>p q. goes_before (nodes ! p) (nodes ! q)) ev' \<and>
       set ev' = {q \<in> set ev. pn_key (nodes ! q) \<noteq> pn_key (nodes ! p)}) \<and>
     (if ev = [] then ev_FindVictim nodes ev = DEFAULT_HASH_STR
      else \<exists>v\<in>set ev. ev_FindVictim nodes ev = pn_hash (nodes ! v) \<and>
        (\<forall>q\<in>set ev. q \<noteq> v \<longrightarrow> goes_before (nodes ! v) (nodes ! q)))"
proof (intro conjI)
  have ordered: "ev_ordered nodes ev' \<longleftrightarrow> sorted_wrt (\<lambda>p q. goes_before (nodes ! p) (nodes ! q)) ev'" for ev'
    by (simp add: ev_ordered_def pn_less_goes_before)
  show "\<exists>ev'. ev_Add nodes p ev = Inr ev' \<and> ev_ordered nodes ev' \<and>
       sorted_wrt (\<lambda>p q. goes_before (nodes ! p) (nodes ! q)) ev' \<and>
       set ev' = (if pn_key (nodes ! p) \<in> (\<lambda>q. pn_key (nodes ! q)) ` set ev then set ev
                  else insert p (set ev))"
  proof (cases "pn_key (nodes ! p) \<in> (\<lambda>q. pn_key (nodes ! q)) ` set ev")
    case True
    then obtain q where "q \<in> set ev" "pn_key (nodes ! q) = pn_key (nodes ! p)" by auto
    then have "ev_insert nodes p ev = ev" using assms by (rule ev_insert_present)
    with True assms show ?thesis by (simp add: ev_Add_def flip: ordered)
  next
    case False
    then have "\<forall>q\<in>set ev. pn_key (nodes ! q) \<noteq> pn_key (nodes ! p)" by (metis imageI)
    from ev_insert_fresh [OF this assms] False assms show ?thesis by (simp add: ev_Add_def flip: ordered)
  qed
  show "\<exists>ev'. ev_Del nodes p ev = Inr ev' \<and> ev_ordered nodes ev' \<and>
       sorted_wrt (\<lambda>p q. goes_before (nodes ! p) (nodes ! q)) ev' \<and>
       set ev' = {q \<in> set ev. pn_key (nodes ! q) \<noteq> pn_key (nodes ! p)}"
    using assms by (auto simp: ev_Del_ordered simp flip: ordered)
next
  show "if ev = [] then ev_FindVictim nodes ev = DEFAULT_HASH_STR
      else \<exists>v\<in>set ev. ev_FindVictim nodes ev = pn_hash (nodes ! v) \<and>
        (\<forall>q\<in>set ev. q \<noteq> v \<longrightarrow> goes_before (nodes ! v) (nodes ! q))"
    using assms by (cases ev) (auto simp: ev_FindVictim_def pn_less_key simp flip: pn_less_goes_before)
qed

theorem evictor_refines_set_witness:
  "\<exists>ev'. ev_Add [demo_node 0 0 7 ''a'', demo_node 1 0 5 ''b''] 1 [0] = Inr ev' \<and> set ev' = {0, 1} \<and>
     sorted_wrt (\<lambda>p q. goes_before ([demo_node 0 0 7 ''a'', demo_node 1 0 5 ''b''] ! p)
       ([demo_node 0 0 7 ''a'', demo_node 1 0 5 ''b''] ! q)) ev'"
proof -
  have "ev_ordered [demo_node 0 0 7 ''a'', demo_node 1 0 5 ''b''] [0]" by simp
  from evictor_refines_set [OF this, of 1] show ?thesis
    by (auto simp: pn_key_def demo_node_def)
qed

section \<open>Eviction\<close>

text \<open>
  C13: Eviction of a number of nodes (no host cache): it gives up the first nodes of the evictor, all
  of them without references, and every one of them was used longer ago than each unreferenced node that
  stays, or at the same time with a longer prefix, or with the same prefix length and a smaller hash; the
  table loses exactly these nodes, two frames per layer and node are free again, and the invariant holds.
\<close>

theorem evict_unrefered_by_num_lru:
  assumes "gpu_inv s" "gpu_only s" "0 \<le> k"
  shows "\<exists>s'. evict_unrefered_by_num enq_reliable now k s = ret () s' \<and> gpu_inv s' \<and>
    (let victims = take (nat k) (gev s) in
       gtab s' = filter (\<lambda>(h, p). p \<notin> set victims) (gtab s) \<and> gev s' = drop (nat k) (gev s) \<and>
       (\<forall>p\<in>set victims. pn_ref_cnt (node s p) = 0 \<and>
          (\<forall>q\<in>set (gev s'). goes_before (node s p) (node s q))) \<and>
       cfm_CountOccupiedFrame (gfm s') + 2 * nat (pcm_layer_num s) * length victims
         = cfm_CountOccupiedFrame (gfm s))"
proof -
  let ?v = "take (nat k) (gev s)"
  let ?hs = "map (\<lambda>p. pn_hash (node s p)) ?v"
  obtain s' where r: "evict_unrefered_by_num enq_reliable now k s = ret () s'"
    and e: "evicted (set ?hs) s s'" and card: "card (set ?hs) = length ?v"
    and tab: "filter (\<lambda>(h, p). h \<notin> set ?hs) (gtab s) = filter (\<lambda>(h, p). p \<notin> set ?v) (gtab s)"
    and ev: "filter (\<lambda>p. pn_hash (node s p) \<notin> set ?hs) (gev s) = drop (nat k) (gev s)"
    using evict_first [OF assms] by blast
  have t: "table_inv s" using assms(1) by (simp add: gpu_inv_def)
  have less: "pn_less (node s p) (node s q)" if "p \<in> set ?v" "q \<in> set (drop (nat k) (gev s))" for p q
  proof -
    have "sorted_wrt (\<lambda>p q. pn_less (node s p) (node s q)) (?v @ drop (nat k) (gev s))"
      using table_inv_ev [OF t] by (simp add: ev_ordered_def)
    with that show ?thesis unfolding sorted_wrt_append by blast
  qed
  have "\<forall>p\<in>set ?v. pn_ref_cnt (node s p) = 0"
    using table_inv_ev_member [OF t] by (auto dest: in_set_takeD)
  with r e card less [unfolded pn_less_goes_before] show ?thesis
    unfolding evicted_def tab ev Let_def by (intro exI [of _ s']) auto
qed

lemma demo_free_occupied:
  "cfm_CountFreeFrame (gfm (demo_pcm h0 h1)) = 1" "cfm_CountOccupiedFrame (gfm (demo_pcm h0 h1)) = 4"
  by (simp_all add: demo_pcm_def demo_sm_def cfm_counts size_t_of_def)

theorem evict_unrefered_by_num_lru_witness:
  "\<exists>s'. evict_unrefered_by_num enq_reliable 9 1 (demo_pcm ''0000000001'' ''0000000002'') = ret () s' \<and>
     gtab s' = [(''0000000001'', 0)] \<and> cfm_CountOccupiedFrame (gfm s') = 2"
proof -
  let ?s = "demo_pcm ''0000000001'' ''0000000002''"
  have "gpu_inv ?s" by (rule demo_inv) (simp_all add: DEFAULT_HASH_STR_def)
  from evict_unrefered_by_num_lru [OF this demo_gpu_only, of 1 9] obtain s'
    where r: "evict_unrefered_by_num enq_reliable 9 1 ?s = ret () s'"
      and t: "gtab s' = filter (\<lambda>(h, p). p \<notin> set (take (nat 1) (gev ?s))) (gtab ?s)"
      and o: "cfm_CountOccupiedFrame (gfm s') + 2 * nat (pcm_layer_num ?s) * length (take (nat 1) (gev ?s))
         = cfm_CountOccupiedFrame (gfm ?s)"
    by (auto simp: Let_def)
  from t have "gtab s' = [(''0000000001'', 0)]" by (simp add: demo_pcm_def)
  moreover from o have "cfm_CountOccupiedFrame (gfm s') = 2"
    unfolding demo_free_occupied by (simp add: demo_pcm_def)
  ultimately show ?thesis using r by blast
qed

text \<open>
  C26: \<open>EvictUnrefered\<close> when more frames are wanted than are free (the condition under which the model
  calls it): afterwards the wanted number is free, or no unreferenced node is left; referenced nodes
  stay in the table in either case.
\<close>

theorem EvictUnrefered_frees:
  assumes inv: "gpu_inv s" "gpu_only s" and L: "0 < pcm_layer_num s"
    and want: "int (cfm_CountFreeFrame (gfm s)) < target"
  shows "\<exists>s'. EvictUnrefered enq_reliable now target s = ret () s' \<and> gpu_inv s' \<and>
    (target \<le> int (cfm_CountFreeFrame (gfm s')) \<or> gev s' = []) \<and>
    (\<forall>(h, p)\<in>set (gtab s). 0 < pn_ref_cnt (node s p) \<longrightarrow> (h, p) \<in> set (gtab s'))"
proof -
  let ?f = "target - int (cfm_CountFreeFrame (gfm s))"
  let ?k = "c_div (?f + pcm_layer_num s * 2 - 1) (pcm_layer_num s * 2)"
  have kd: "?k = (?f + pcm_layer_num s * 2 - 1) div (pcm_layer_num s * 2)" using L want by simp
  then have k0: "0 \<le> ?k" using L want by (simp add: pos_imp_zdiv_nonneg_iff)
  have kf: "?f \<le> ?k * (pcm_layer_num s * 2)" unfolding kd using L want
    by (smt (verit) div_mult_mod_eq pos_mod_bound mult.commute)
  let ?v = "take (nat ?k) (gev s)"
  let ?hs = "map (\<lambda>p. pn_hash (node s p)) ?v"
  obtain s' where r: "evict_unrefered_by_num enq_reliable now ?k s = ret () s'"
    and e: "evicted (set ?hs) s s'" and card: "card (set ?hs) = length ?v"
    and tab: "filter (\<lambda>(h, p). h \<notin> set ?hs) (gtab s) = filter (\<lambda>(h, p). p \<notin> set ?v) (gtab s)"
    and ev: "filter (\<lambda>p. pn_hash (node s p) \<notin> set ?hs) (gev s) = drop (nat ?k) (gev s)"
    using evict_first [OF inv k0] by blast
  have r': "EvictUnrefered enq_reliable now target s = ret () s'"
    using r L by (simp add: EvictUnrefered_def Let_def)
  have "target \<le> int (cfm_CountFreeFrame (gfm s'))" if "nat ?k \<le> length (gev s)"
  proof -
    have occ: "cfm_CountOccupiedFrame (gfm s') + 2 * nat (pcm_layer_num s) * nat ?k
        = cfm_CountOccupiedFrame (gfm s)"
      using e card that unfolding evicted_def by simp
    have "int (cfm_CountFreeFrame (gfm s')) = int (cfm_CountFreeFrame (gfm s)) + int (2 * nat (pcm_layer_num s) * nat ?k)"
      using evicted_free [OF e] inv(1) occ unfolding gpu_inv_def by linarith
    moreover have "int (2 * nat (pcm_layer_num s) * nat ?k) = ?k * (pcm_layer_num s * 2)"
      using L k0 by simp
    ultimately show ?thesis using kf by linarith
  qed
  moreover have "gev s' = []" if "\<not> nat ?k \<le> length (gev s)"
    using e that unfolding evicted_def ev by simp
  moreover have "(h, p) \<in> set (gtab s')" if "(h, p) \<in> set (gtab s)" "0 < pn_ref_cnt (node s p)" for h p
  proof -
    have "p \<notin> set ?v"
      using that inv(1) by (auto simp: gpu_inv_def table_inv_ev_member dest: in_set_takeD)
    with e that show ?thesis unfolding evicted_def tab by auto
  qed
  ultimately show ?thesis using r' evicted_same(1) [OF e] by blast
qed

theorem EvictUnrefered_frees_witness:
  "\<exists>s'. EvictUnrefered enq_reliable 9 3 (demo_pcm ''0000000001'' ''0000000002'') = ret () s' \<and>
     (3 \<le> int (cfm_CountFreeFrame (gfm s')) \<or> gev s' = []) \<and> (''0000000001'', 0) \<in> set (gtab s')"
proof -
  let ?s = "demo_pcm ''0000000001'' ''0000000002''"
  have inv: "gpu_inv ?s" by (rule demo_inv) (simp_all add: DEFAULT_HASH_STR_def)
  have "\<exists>s'. EvictUnrefered enq_reliable 9 3 ?s = ret () s' \<and> gpu_inv s' \<and>
    (3 \<le> int (cfm_CountFreeFrame (gfm s')) \<or> gev s' = []) \<and>
    (\<forall>(h, p)\<in>set (gtab ?s). 0 < pn_ref_cnt (node ?s p) \<longrightarrow> (h, p) \<in> set (gtab s'))"
    by (rule EvictUnrefered_frees [OF inv demo_gpu_only])
      (simp_all only: demo_free_occupied, simp_all add: demo_pcm_def)
  moreover have "(''0000000001'', 0) \<in> set (gtab ?s)" "0 < pn_ref_cnt (node ?s 0)"
    by (simp_all add: demo_pcm_def demo_node_def)
  ultimately show ?thesis by fast
qed

text \<open>
  \<open>EvictUnrefered\<close> relies on its caller: when a whole node's worth of frames more than wanted is
  already free, the number of nodes to evict is negative and the call throws
  \<open>std::length_error\<close> out of \<open>reserve\<close>.
\<close>

theorem EvictUnrefered_negative_throws:
  assumes "0 < pcm_layer_num s"
    and "target + 4 * pcm_layer_num s \<le> int (cfm_CountFreeFrame (gfm s)) + 1"
  shows "EvictUnrefered enq now target s = (Inl StdLengthError, s)"
proof -
  let ?n = "pcm_layer_num s * 2"
  let ?a = "target - int (cfm_CountFreeFrame (gfm s)) + ?n - 1"
  have a: "?a \<le> - ?n" using assms(2) by linarith
  have "?n div ?n \<le> (- ?a) div ?n" using a assms(1) by (intro zdiv_mono1) auto
  then have "1 \<le> (- ?a) div ?n" using assms(1) by simp
  moreover have "c_div ?a ?n = - ((- ?a) div ?n)"
    using a assms(1) by (simp add: c_div_def sgn_if)
  ultimately have "c_div ?a ?n < 0" by linarith
  with assms(1) show ?thesis
    by (simp add: EvictUnrefered_def Let_def evict_unrefered_by_num_def ev_FindMultiVictims_def min_def)
qed

theorem EvictUnrefered_negative_throws_witness:
  "fst (EvictUnrefered enq_reliable 9 (- 3) (demo_pcm ''a'' ''b'')) = Inl StdLengthError"
proof -
  have "EvictUnrefered enq_reliable 9 (- 3) (demo_pcm ''a'' ''b'') = (Inl StdLengthError, demo_pcm ''a'' ''b'')"
    by (rule EvictUnrefered_negative_throws) (simp_all only: demo_free_occupied, simp_all add: demo_pcm_def)
  then show ?thesis by simp
qed

text \<open>
  \<open>EvictAllUnrefered\<close> (no host cache) leaves exactly the referenced nodes in the table and an
  empty evictor.
\<close>

theorem EvictAllUnrefered_keeps_referenced:
  assumes "gpu_inv s" "gpu_only s"
  shows "\<exists>s'. EvictAllUnrefered enq_reliable now s = ret () s' \<and> gpu_inv s' \<and> gev s' = [] \<and>
    gtab s' = filter (\<lambda>(h, p). 0 < pn_ref_cnt (node s p)) (gtab s)"
proof -
  let ?k = "int (length (gev s))"
  obtain s' where r: "evict_unrefered_by_num enq_reliable now ?k s = ret () s'"
    and e: "evicted (set (map (\<lambda>p. pn_hash (node s p)) (take (nat ?k) (gev s)))) s s'"
    and tab: "filter (\<lambda>(h, p). h \<notin> set (map (\<lambda>p. pn_hash (node s p)) (take (nat ?k) (gev s)))) (gtab s)
        = filter (\<lambda>(h, p). p \<notin> set (take (nat ?k) (gev s))) (gtab s)"
    and ev: "filter (\<lambda>p. pn_hash (node s p) \<notin> set (map (\<lambda>p. pn_hash (node s p)) (take (nat ?k) (gev s)))) (gev s)
        = drop (nat ?k) (gev s)"
    using evict_first [OF assms, of ?k now] by auto
  have "EvictAllUnrefered enq_reliable now s = ret () s'"
    using r by (simp add: EvictAllUnrefered_def ev_GetAllCandidatesHash_def evict_unrefered_by_num_def
        del: andThen_eq_ret)
  moreover have "p \<notin> set (gev s) \<longleftrightarrow> 0 < pn_ref_cnt (node s p)" if "(h, p) \<in> set (gtab s)" for h p
    using assms(1) that unfolding gpu_inv_def table_inv_def by force
  then have "filter (\<lambda>(h, p). p \<notin> set (take (nat ?k) (gev s))) (gtab s)
      = filter (\<lambda>(h, p). 0 < pn_ref_cnt (node s p)) (gtab s)"
    by (intro filter_cong) auto
  ultimately show ?thesis
    using e evicted_same(1) [OF e] unfolding evicted_def tab ev by auto
qed

theorem EvictAllUnrefered_keeps_referenced_witness:
  "\<exists>s'. EvictAllUnrefered enq_reliable 9 (demo_pcm ''0000000001'' ''0000000002'') = ret () s' \<and>
     gtab s' = [(''0000000001'', 0)]"
proof -
  let ?s = "demo_pcm ''0000000001'' ''0000000002''"
  have "gpu_inv ?s" by (rule demo_inv) (simp_all add: DEFAULT_HASH_STR_def)
  from EvictAllUnrefered_keeps_referenced [OF this demo_gpu_only, of 9] obtain s' where
    "EvictAllUnrefered enq_reliable 9 ?s = ret () s'"
    "gtab s' = filter (\<lambda>(h, p). 0 < pn_ref_cnt (node ?s p)) (gtab ?s)" by blast
  moreover have "filter (\<lambda>(h, p). 0 < pn_ref_cnt (node ?s p)) (gtab ?s) = [(''0000000001'', 0)]"
    by (simp add: demo_pcm_def demo_node_def)
  ultimately show ?thesis by auto
qed

section \<open>Looking up a prefix\<close>

lemma span_ends_bound: "0 < tps \<Longrightarrow> int (length (span_ends tps n i)) * tps \<le> max 0 (n + tps - 2 - i)"
proof (induction tps n i rule: span_ends.induct)
  case (1 tps n i)
  then show ?case by (subst span_ends.simps) (auto simp: algebra_simps)
qed

lemma length_hits: "length (hits hs s) \<le> length hs"
  using length_takeWhile_le [of _ hs] by (simp add: hits_def)

lemma hits_all_cached: "\<forall>p\<in>set (hits hs s). \<exists>h. map_of (gtab s) h = Some p"
  using hits_cached by blast

text \<open>The nodes of the longest cached run of full spans.\<close>

definition prefix_hits :: "tokens \<Rightarrow> ('d, 'm) pcm \<Rightarrow> node_ptr list" where
  "prefix_hits toks s =
     hits (map (prefix_hash toks)
       (span_ends (pcm_token_per_span s) (int (length toks)) (pcm_token_per_span s - 1))) s"

lemma prefix_hits_cached: "\<forall>p\<in>set (prefix_hits toks s). \<exists>h. map_of (gtab s) h = Some p"
  unfolding prefix_hits_def by (rule hits_all_cached)

lemma RefOnly_eq:
  assumes "gpu_inv s" "gpu_only s"
  shows "RefOnly toks ts nv s =
    ret (int (length (prefix_hits toks s)) * pcm_token_per_span s,
         int (length (prefix_hits toks s)) * pcm_token_per_span s, nv @ prefix_hits toks s)
      (ref_all (prefix_hits toks s) ts s)"
  using ref_only_loop_eq [OF assms(1,2)] unfolding RefOnly_def prefix_hits_def Let_def by simp

text \<open>
  C23: \<open>RefOnly\<close> (no host cache) finds the longest run of full spans from the start of the request
  whose hashes are all in the table; the cached length is that number of spans and leaves at least
  the last token of the request over. Every node found gets one more reference per hit and no other
  node changes its count; table and spans stay as they are and the invariant holds.
\<close>

theorem RefOnly_longest_prefix:
  assumes "gpu_inv s" "gpu_only s" "0 < pcm_token_per_span s" "toks \<noteq> []"
  shows "\<exists>ps s'. ps = prefix_hits toks s \<and>
    RefOnly toks ts [] s = ret (int (length ps) * pcm_token_per_span s,
        int (length ps) * pcm_token_per_span s, ps) s' \<and>
    int (length ps) * pcm_token_per_span s < int (length toks) \<and>
    gpu_inv s' \<and> gtab s' = gtab s \<and> cu_span_manager (pcm_gpu_union s') = cu_span_manager (pcm_gpu_union s) \<and>
    (\<forall>q. pn_ref_cnt (node s' q) = pn_ref_cnt (node s q) + int (count_list ps q))"
proof -
  let ?tps = "pcm_token_per_span s"
  let ?ends = "span_ends ?tps (int (length toks)) (?tps - 1)"
  let ?ps = "prefix_hits toks s"
  have "int (length ?ps) * ?tps \<le> int (length ?ends) * ?tps"
    using length_hits [of "map (prefix_hash toks) ?ends" s] assms(3)
    by (intro mult_right_mono) (auto simp: prefix_hits_def)
  also have "\<dots> \<le> max 0 (int (length toks) - 1)"
    using span_ends_bound [OF assms(3), of "int (length toks)" "?tps - 1"] by simp
  also have "\<dots> < int (length toks)" using assms(4) by simp
  finally have bound: "int (length ?ps) * ?tps < int (length toks)" .
  have "RefOnly toks ts [] s = ret (int (length ?ps) * ?tps, int (length ?ps) * ?tps, ?ps) (ref_all ?ps ts s)"
    using RefOnly_eq [OF assms(1,2), of toks ts "[]"] by simp
  with bound ref_all_inv [OF assms(1) prefix_hits_cached] show ?thesis
    by (intro exI [of _ ?ps] exI [of _ "ref_all ?ps ts s"]) simp
qed

text \<open>A request of 20 tokens whose first span is cached in the node with number 0.\<close>

definition demo_tokens :: tokens where
  "demo_tokens = replicate 20 7"

definition demo_hash :: string where
  "demo_hash = hash_tokens (replicate 16 7)"

definition demo_cache :: "(nat, unit) pcm" where
  "demo_cache = demo_pcm demo_hash ''x''"

lemma demo_hash_neq: "demo_hash \<noteq> ''x''" "demo_hash \<noteq> DEFAULT_HASH_STR"
  using hash_tokens_length [of "replicate 16 7"] by (auto simp: demo_hash_def)

lemma demo_cache_inv: "gpu_inv demo_cache" "gpu_only demo_cache" "pcm_token_per_span demo_cache = 16"
  unfolding demo_cache_def using demo_hash_neq
  by (auto intro!: demo_inv demo_gpu_only simp: DEFAULT_HASH_STR_def) (simp add: demo_pcm_def)

lemma demo_ends: "span_ends 16 (int (length demo_tokens)) 15 = [15]"
  by (simp add: demo_tokens_def span_ends.simps)

lemma demo_prefix_hash: "prefix_hash demo_tokens 15 = demo_hash"
  by (simp add: prefix_hash_def demo_hash_def demo_tokens_def)

lemma demo_hits: "prefix_hits demo_tokens demo_cache = [0]"
  using demo_ends by (simp add: prefix_hits_def demo_cache_inv(3) demo_prefix_hash) (simp add: demo_cache_def demo_pcm_def)

theorem RefOnly_longest_prefix_witness:
  "\<exists>s'. RefOnly demo_tokens 9 [] demo_cache = ret (16, 16, [0]) s' \<and> pn_ref_cnt (node s' 0) = 2"
proof -
  have "pn_ref_cnt (node demo_cache 0) = 1" by (simp add: demo_cache_def demo_pcm_def demo_node_def)
  moreover have "demo_tokens \<noteq> []" by (simp add: demo_tokens_def)
  ultimately show ?thesis
    using RefOnly_longest_prefix [OF demo_cache_inv(1,2), of demo_tokens 9]
    unfolding demo_hits demo_cache_inv(3) by auto
qed

text \<open>
  C25: Looking a prefix up and letting it go again: \<open>RefOnly\<close> followed by \<open>UnRef\<close> of the nodes it
  delivered succeeds and restores the table, every reference count, the set of evictable nodes and the
  span manager.
\<close>

theorem RefOnly_UnRef_roundtrip:
  assumes "gpu_inv s" "gpu_only s"
  shows "\<exists>n ps s1 s2. RefOnly toks ts [] s = ret (n, n, ps) s1 \<and> UnRef ps s1 = ret () s2 \<and> gpu_inv s2 \<and>
    gtab s2 = gtab s \<and> (\<forall>q. pn_ref_cnt (node s2 q) = pn_ref_cnt (node s q)) \<and>
    set (gev s2) = set (gev s) \<and> cu_span_manager (pcm_gpu_union s2) = cu_span_manager (pcm_gpu_union s)"
proof -
  obtain n ps where r: "RefOnly toks ts [] s = ret (n, n, ps) (ref_all ps ts s)"
    and c: "\<forall>p\<in>set ps. \<exists>h. map_of (gtab s) h = Some p"
    using RefOnly_eq [OF assms, of toks ts "[]"] prefix_hits_cached by fastforce
  let ?s1 = "ref_all ps ts s"
  have i1: "gpu_inv ?s1" and cnt: "\<forall>q. pn_ref_cnt (node ?s1 q) = pn_ref_cnt (node s q) + int (count_list ps q)"
    using ref_all_inv [OF assms(1) c] by auto
  have o1: "gpu_only ?s1" using assms(2) by (simp add: gpu_only_def)
  have "\<forall>p\<in>set ps. (\<exists>h. map_of (gtab ?s1) h = Some p) \<and> int (count_list ps p) \<le> pn_ref_cnt (node ?s1 p)"
  proof
    fix p assume "p \<in> set ps"
    then obtain h where h: "map_of (gtab s) h = Some p" using c by blast
    then have "0 \<le> pn_ref_cnt (node s p)" using assms(1) table_inv_node(5) by (auto simp: gpu_inv_def)
    with h cnt show "(\<exists>h. map_of (gtab ?s1) h = Some p) \<and> int (count_list ps p) \<le> pn_ref_cnt (node ?s1 p)"
      by auto
  qed
  from UnRef_eq [OF i1 o1 this] obtain s2 where u: "UnRef ps ?s1 = ret () s2" and i2: "gpu_inv s2"
    and t2: "gtab s2 = gtab s" and m2: "cu_span_manager (pcm_gpu_union s2) = cu_span_manager (pcm_gpu_union s)"
    and c2: "\<forall>q. pn_ref_cnt (node s2 q) = pn_ref_cnt (node s q)"
    using cnt by auto
  have "set (gev s2) = set (gev s)"
    using i2 assms(1) t2 c2 by (simp add: gpu_inv_def table_inv_def)
  with r u i2 t2 m2 c2 show ?thesis by blast
qed

theorem RefOnly_UnRef_roundtrip_witness:
  "\<exists>n ps s1 s2. RefOnly demo_tokens 9 [] demo_cache = ret (n, n, ps) s1 \<and> UnRef ps s1 = ret () s2 \<and>
     pn_ref_cnt (node s2 0) = 1"
proof -
  have "pn_ref_cnt (node demo_cache 0) = 1" by (simp add: demo_cache_def demo_pcm_def demo_node_def)
  then show ?thesis
    using RefOnly_UnRef_roundtrip [OF demo_cache_inv(1,2), of demo_tokens 9] by metis
qed

text \<open>
  What a request has looked up survives the eviction that makes room for it: after
  \<open>RefOnly\<close>, however many frames \<open>EvictUnrefered\<close> is then asked for (more than are free), every node found
  is still in the table under its hash.
\<close>

theorem RefOnly_protects_hits:
  assumes "gpu_inv s" "gpu_only s" "0 < pcm_layer_num s" "RefOnly toks ts [] s = ret (n, g, ps) s1"
    "int (cfm_CountFreeFrame (gfm s1)) < target" "p \<in> set ps"
  shows "\<exists>s2. EvictUnrefered enq_reliable now target s1 = ret () s2 \<and>
    map_of (gtab s2) (pn_hash (node s1 p)) = Some p"
proof -
  have s1: "s1 = ref_all ps ts s" and c: "\<forall>p\<in>set ps. \<exists>h. map_of (gtab s) h = Some p"
    using RefOnly_eq [OF assms(1,2), of toks ts "[]"] assms(4) prefix_hits_cached by auto
  have i1: "gpu_inv s1" and cnt: "pn_ref_cnt (node s1 p) = pn_ref_cnt (node s p) + int (count_list ps p)"
    using ref_all_inv [OF assms(1) c] by (auto simp: s1)
  have o1: "gpu_only s1" using assms(2) by (simp add: gpu_only_def s1)
  obtain h where h: "map_of (gtab s) h = Some p" using c assms(6) by blast
  then have h1: "map_of (gtab s1) h = Some p" by (simp add: s1)
  have "0 \<le> pn_ref_cnt (node s p)" using assms(1) h table_inv_node(5) by (auto simp: gpu_inv_def)
  moreover have "0 < count_list ps p" using assms(6) by (metis count_list_0_iff neq0_conv)
  ultimately have "0 < pn_ref_cnt (node s1 p)" using cnt by simp
  then have "p \<notin> set (gev s1)" using i1 by (auto simp: gpu_inv_def table_inv_ev_member)
  moreover have "pn_hash (node s1 p) = h" using i1 h1 table_inv_node(2) by (auto simp: gpu_inv_def)
  ultimately show ?thesis
    using evict_keeps [OF i1 o1 _ h1, of target now] assms(3,5) by (simp add: s1)
qed

theorem RefOnly_protects_hits_witness:
  "\<exists>s1 s2. RefOnly demo_tokens 9 [] demo_cache = ret (16, 16, [0]) s1 \<and>
     EvictUnrefered enq_reliable 9 5 s1 = ret () s2 \<and> map_of (gtab s2) (pn_hash (node s1 0)) = Some 0"
proof -
  have r: "RefOnly demo_tokens 9 [] demo_cache = ret (16, 16, [0]) (ref_all [0] 9 demo_cache)"
    using RefOnly_eq [OF demo_cache_inv(1,2), of demo_tokens 9 "[]"] unfolding demo_hits demo_cache_inv(3)
    by simp
  have "cfm_CountFreeFrame (gfm (ref_all [0] 9 demo_cache)) = 1"
    using demo_free_occupied(1) by (simp add: demo_cache_def)
  moreover have "0 < pcm_layer_num demo_cache" by (simp add: demo_cache_def demo_pcm_def)
  ultimately show ?thesis
    using RefOnly_protects_hits [OF demo_cache_inv(1,2) _ r, of 5 0 9] r by auto
qed

section \<open>Reset\<close>

lemma reset_loop:
  assumes "spans_owned (cu_span_manager (pcm_gpu_union s)) (concat (map (\<lambda>(h, p). node_spans (node s p)) es))"
    and "cfm_inv (gfm s)" "\<forall>(h, p)\<in>set es. map_of (gtab s) h = Some p \<and> pn_cache_num (node s p) = pcm_layer_num s"
  shows "\<exists>sm. forEach (\<lambda>hash s. free_cache_span enq_reliable hash CUDA (unref_cache_span hash CUDA s))
      (map fst es) s = ret () (s\<lparr>pcm_gpu_union := (pcm_gpu_union s)\<lparr>cu_span_manager := sm\<rparr>\<rparr>) \<and>
    cfm_inv (csm_frame_manager sm) \<and>
    cfm_CountOccupiedFrame (csm_frame_manager sm) + 2 * nat (pcm_layer_num s) * length es
      = cfm_CountOccupiedFrame (gfm s)"
  using assms
proof (induction es arbitrary: s)
  case Nil
  then show ?case by (intro exI [of _ "cu_span_manager (pcm_gpu_union s)"]) simp
next
  case (Cons e es)
  obtain h p where e: "e = (h, p)" by (cases e)
  let ?sm0 = "cu_span_manager (pcm_gpu_union s)"
  let ?qs = "node_spans (node s p)"
  have p: "map_of (gtab s) h = Some p" "pn_cache_num (node s p) = pcm_layer_num s" using Cons.prems(3) e by auto
  have own: "spans_owned ?sm0 (?qs @ concat (map (\<lambda>(h, p). node_spans (node s p)) es))"
    using Cons.prems(1) e by simp
  obtain sm1 where r: "csm_ReleaseSpans enq_reliable ?qs
        (?sm0\<lparr>csm_store := fold UnrefCacheSpan ?qs (csm_store ?sm0)\<rparr>) = ret () sm1"
    and i1: "cfm_inv (csm_frame_manager sm1)"
    and occ: "cfm_CountOccupiedFrame (csm_frame_manager sm1) + length ?qs = cfm_CountOccupiedFrame (gfm s)"
    and own1: "spans_owned sm1 (concat (map (\<lambda>(h, p). node_spans (node s p)) es))"
    by (rule release_spans [OF Cons.prems(2) own])
  let ?s1 = "s\<lparr>pcm_gpu_union := (pcm_gpu_union s)\<lparr>cu_span_manager := sm1\<rparr>\<rparr>"
  have step: "free_cache_span enq_reliable h CUDA (unref_cache_span h CUDA s) = ret () ?s1"
    using p r by (simp add: unref_cache_span_def free_cache_span_def map_store_def Let_def)
  have "\<exists>sm. forEach (\<lambda>hash s. free_cache_span enq_reliable hash CUDA (unref_cache_span hash CUDA s))
      (map fst es) ?s1 = ret () (?s1\<lparr>pcm_gpu_union := (pcm_gpu_union ?s1)\<lparr>cu_span_manager := sm\<rparr>\<rparr>) \<and>
    cfm_inv (csm_frame_manager sm) \<and>
    cfm_CountOccupiedFrame (csm_frame_manager sm) + 2 * nat (pcm_layer_num ?s1) * length es
      = cfm_CountOccupiedFrame (gfm ?s1)"
    using Cons.prems(3) own1 i1 by (intro Cons.IH) auto
  moreover have "length ?qs = 2 * nat (pcm_layer_num s)" using p(2) by (simp add: node_spans_def)
  ultimately show ?case using step occ e by (auto simp del: andThen_eq_ret)
qed

lemma reset_union_empty:
  assumes "cu_hash_table (union_of dev s) = []"
  shows "reset_union enq dev s = ret () (set_union dev ((union_of dev s)\<lparr>cu_hash_table := [], cu_evictor := []\<rparr>) s)"
  using assms by (simp add: reset_union_def ev_Reset_def)

text \<open>
  \<open>Reset\<close> (no host cache, no pending copies) empties the table and the evictor, gives the frames of
  all cached nodes back (two per layer and node) and clears the counters, whatever the reference
  counts are; the invariant holds.
\<close>

theorem Reset_empties:
  assumes inv: "gpu_inv s" "gpu_only s" and tasks: "pcm_tasks s = []"
  shows "\<exists>s'. Reset enq_reliable s = ret () s' \<and> gpu_inv s' \<and> gtab s' = [] \<and> gev s' = [] \<and>
    pcm_hit_cnt s' = 0 \<and> pcm_miss_cnt s' = 0 \<and>
    cfm_CountOccupiedFrame (gfm s') + 2 * nat (pcm_layer_num s) * length (gtab s)
      = cfm_CountOccupiedFrame (gfm s)"
proof -
  have t: "table_inv s" and sp: "span_inv s" using inv(1) by (simp_all add: gpu_inv_def)
  have "\<forall>(h, p)\<in>set (gtab s). map_of (gtab s) h = Some p \<and> pn_cache_num (node s p) = pcm_layer_num s"
    using t table_inv_lookup by (auto simp: table_inv_def)
  then obtain sm where l: "forEach (\<lambda>hash s. free_cache_span enq_reliable hash CUDA (unref_cache_span hash CUDA s))
      (map fst (gtab s)) s = ret () (s\<lparr>pcm_gpu_union := (pcm_gpu_union s)\<lparr>cu_span_manager := sm\<rparr>\<rparr>)"
    and i: "cfm_inv (csm_frame_manager sm)"
    and occ: "cfm_CountOccupiedFrame (csm_frame_manager sm) + 2 * nat (pcm_layer_num s) * length (gtab s)
      = cfm_CountOccupiedFrame (gfm s)"
    using reset_loop [of s "gtab s"] sp by (auto simp: span_inv_def table_spans_def)
  let ?s1 = "s\<lparr>pcm_gpu_union := (pcm_gpu_union s)\<lparr>cu_span_manager := sm, cu_hash_table := [], cu_evictor := []\<rparr>\<rparr>"
  have g: "reset_union enq_reliable CUDA s = ret () ?s1"
    using l by (simp add: reset_union_def ev_Reset_def del: andThen_eq_ret)
  have "cu_hash_table (union_of CPU ?s1) = []" using inv(2) by (simp add: gpu_only_def)
  then have c: "reset_union enq_reliable CPU ?s1
      = ret () (?s1\<lparr>pcm_cpu_union := (pcm_cpu_union ?s1)\<lparr>cu_hash_table := [], cu_evictor := []\<rparr>\<rparr>)"
    using reset_union_empty [of CPU ?s1 enq_reliable] by simp
  let ?s' = "?s1\<lparr>pcm_cpu_union := (pcm_cpu_union ?s1)\<lparr>cu_hash_table := [], cu_evictor := []\<rparr>,
    pcm_hit_cnt := 0, pcm_miss_cnt := 0\<rparr>"
  have r: "Reset enq_reliable s = ret () ?s'"
    using g c tasks by (simp add: Reset_def wait_for_async_tasks_def del: andThen_eq_ret)
  have "gpu_inv ?s'"
    using i by (simp add: gpu_inv_def table_inv_def span_inv_def spans_owned_def table_spans_def)
  with r occ show ?thesis by (intro exI [of _ ?s']) simp
qed

theorem Reset_empties_witness:
  "\<exists>s'. Reset enq_reliable (demo_pcm ''0000000001'' ''0000000002'') = ret () s' \<and> gtab s' = [] \<and>
     cfm_CountOccupiedFrame (gfm s') = 0"
proof -
  let ?s = "demo_pcm ''0000000001'' ''0000000002''"
  have i: "gpu_inv ?s" by (rule demo_inv) (simp_all add: DEFAULT_HASH_STR_def)
  have "pcm_tasks ?s = []" "pcm_layer_num ?s = 1" "length (gtab ?s) = 2" by (simp_all add: demo_pcm_def)
  with Reset_empties [OF i demo_gpu_only] show ?thesis
    unfolding demo_free_occupied by auto
qed

section \<open>Hashes and copies\<close>

text \<open>
  C31: A hash is text of exactly ten decimal digits, so it is never the marker \<open>not_hashed\<close>, and making
  a node under it with as many key as value spans always succeeds.
\<close>

theorem hash_tokens_type:
  "length (hash_tokens toks) = 10 \<and> list_all is_digit (hash_tokens toks) \<and>
   (length ks = length vs \<longrightarrow>
      (\<exists>s'. create_node ks vs len ts dev (hash_tokens toks) s = ret (length (pcm_nodes s)) s'))"
  using hash_tokens_length hash_tokens_digits by (simp add: create_node_def PrefixNode_new_def)

theorem hash_tokens_type_witness:
  "\<exists>s'. create_node [0] [1] 16 5 CUDA (hash_tokens [1, 2]) (demo_pcm ''a'' ''b'') = ret 2 s'"
proof -
  have "length (pcm_nodes (demo_pcm ''a'' ''b'')) = 2" by (simp add: demo_pcm_def)
  with hash_tokens_type [of "[1, 2]" "[0]" "[1]" 16 5 CUDA "demo_pcm ''a'' ''b''"] show ?thesis by simp
qed

lemma write_spans_other: "a \<notin> set addrs \<Longrightarrow> write_spans addrs ds m a = m a"
proof (induction addrs arbitrary: ds m)
  case Nil
  then show ?case by (simp add: write_spans_def)
next
  case (Cons b addrs)
  then show ?case by (cases ds) (simp_all add: write_spans_def)
qed

lemma write_spans_map:
  "distinct addrs \<Longrightarrow> length ds = length addrs \<Longrightarrow> map (write_spans addrs ds m) addrs = ds"
proof (induction addrs arbitrary: ds m)
  case Nil
  then show ?case by simp
next
  case (Cons a addrs)
  then obtain d ds' where ds: "ds = d # ds'" by (cases ds) auto
  have step: "write_spans (a # addrs) (d # ds') m = write_spans addrs ds' (m(a := d))"
    by (simp add: write_spans_def)
  have "write_spans addrs ds' (m(a := d)) a = d" using Cons.prems(1) by (simp add: write_spans_other)
  moreover have "map (write_spans addrs ds' (m(a := d))) addrs = ds'" using Cons ds by simp
  ultimately show ?case by (simp add: ds step)
qed

lemma write_spans_append:
  "length ds = length addrs \<Longrightarrow>
   write_spans (addrs @ addrs') (ds @ ds') m = write_spans addrs' ds' (write_spans addrs ds m)"
  by (simp add: write_spans_def)

lemma copy_out_eq: "0 < n \<Longrightarrow> copy_out n mem addrs = map mem addrs"
proof (induction n mem addrs rule: copy_out.induct)
  case (1 n mem addrs)
  then show ?case
    by (subst copy_out.simps) (auto simp flip: map_append)
qed

lemma copy_in_eq: "0 < n \<Longrightarrow> length ds = length addrs \<Longrightarrow> copy_in n addrs ds mem = write_spans addrs ds mem"
proof (induction n addrs ds mem rule: copy_in.induct)
  case (1 n addrs ds mem)
  show ?case
  proof (cases "addrs = []")
    case True
    then show ?thesis by (subst copy_in.simps) (simp add: write_spans_def)
  next
    case False
    have "write_spans addrs ds mem = write_spans (drop n addrs) (drop n ds)
        (write_spans (take n addrs) (take n ds) mem)"
      using write_spans_append [of "take n ds" "take n addrs" "drop n addrs" "drop n ds" mem] 1(3) by simp
    with False 1 show ?thesis by (subst copy_in.simps) simp
  qed
qed

text \<open>
  The copies between the devices move the spans in portions that fit the workspace. For every
  positive portion, reading out delivers the contents of all spans in order, and writing such contents
  back to other spans stores them there and nowhere else, so a node moved out and in again keeps its
  contents.
\<close>

theorem swap_copies_exact:
  assumes "0 < out_step" "0 < in_step" "length dst = length src" "distinct dst"
  shows "let ws = copy_out out_step mem src; mem' = copy_in in_step dst ws mem2
    in map mem' dst = map mem src \<and> (\<forall>a. a \<notin> set dst \<longrightarrow> mem' a = mem2 a)"
  using assms by (simp add: copy_out_eq copy_in_eq write_spans_map write_spans_other)

theorem swap_copies_exact_witness:
  "map (copy_in 1 [10, 11, 12] (copy_out 2 (\<lambda>a. a * a) [1, 2, 3]) (\<lambda>_. 0)) [10, 11, 12] = [1, 4, 9 :: nat]"
  using swap_copies_exact [of 2 1 "[10, 11, 12]" "[1, 2, 3]" "\<lambda>a. a * a" "\<lambda>_. 0 :: nat"] by (simp add: Let_def)

section \<open>The order of the host nodes\<close>

text \<open>
  A hit on a host node, which always is in the evictor, changes the key of a member of the set:
  when the hit node was in front and the next one is older than the new time, the set is out of order
  afterwards and every later insertion or removal of the host evictor is undefined behaviour.
\<close>

theorem update_node_ts_breaks_evictor:
  assumes "map_of (cu_hash_table (pcm_cpu_union s)) h = Some p" "p < length (pcm_nodes s)"
    and "cu_evictor (pcm_cpu_union s) = p # q # rest" "p \<noteq> q" "pn_last_access_time (node s q) < ts"
  shows "fst (evictor_Del CPU r (update_node_ts h ts CPU s)) = Inl UndefinedBehaviour \<and>
     fst (evictor_Add CPU r (update_node_ts h ts CPU s)) = Inl UndefinedBehaviour"
proof -
  let ?s' = "update_node_ts h ts CPU s"
  have "ts \<le> pn_last_access_time (touch ts (node s p))" by (simp add: touch_def)
  then have "\<not> pn_key (touch ts (node s p)) < pn_key (node s q)"
    using assms(5) by (auto simp: pn_key_def less_prod_def)
  then have "\<not> ev_ordered (pcm_nodes ?s') (cu_evictor (pcm_cpu_union ?s'))"
    using assms by (auto simp: update_node_ts_def)
  then show ?thesis by (simp add: evictor_Del_def evictor_Add_def ev_Del_def ev_Add_def)
qed

text \<open>The small cache with its two nodes in host memory instead.\<close>

definition demo_host :: "(nat, unit) pcm" where
  "demo_host = (demo_pcm ''a'' ''b'')\<lparr>
     pcm_nodes := [demo_node 0 0 3 ''a'', demo_node 1 0 5 ''b''],
     pcm_cpu_union := \<lparr>cu_device_type = CPU, cu_capacity = 2, cu_evictor = [0, 1],
        cu_span_manager = demo_sm, cu_hash_table = [(''a'', 0), (''b'', 1)]\<rparr>\<rparr>"

theorem update_node_ts_breaks_evictor_witness:
  "fst (evictor_Del CPU 0 demo_host) = Inr () \<and>
   fst (evictor_Del CPU 0 (update_node_ts ''a'' 9 CPU demo_host)) = Inl UndefinedBehaviour"
proof
  show "fst (evictor_Del CPU 0 demo_host) = Inr ()"
    by (simp add: demo_host_def evictor_Del_def ev_Del_def pn_key_def demo_node_def less_prod_def)
  show "fst (evictor_Del CPU 0 (update_node_ts ''a'' 9 CPU demo_host)) = Inl UndefinedBehaviour"
    by (rule update_node_ts_breaks_evictor [of demo_host "''a''" 0 1 "[]" 9 0, THEN conjunct1])
      (simp_all add: demo_host_def demo_node_def)
qed

end
