(* ===== verification/Prefix_Insert.thy ===== *)
theory Prefix_Insert
  imports Prefix_Theorems
begin

text \<open>
  Insertion into the prefix cache while the table has room: what \<open>Insert\<close> files is found again by
  \<open>RefOnly\<close>, and the invariant is kept.
\<close>

section \<open>New nodes\<close>

lemma table_inv_range:
  "table_inv s \<Longrightarrow> (h, p) \<in> set (gtab s) \<Longrightarrow> p < length (pcm_nodes s)"
  by (auto simp: table_inv_def)

lemma table_inv_ev_range: "table_inv s \<Longrightarrow> p \<in> set (gev s) \<Longrightarrow> p < length (pcm_nodes s)"
  by (auto simp: table_inv_def)

text \<open>A node that no table mentions changes nothing.\<close>

lemma append_node_inv:
  assumes "gpu_inv s"
  shows "gpu_inv (s\<lparr>pcm_nodes := pcm_nodes s @ [nd]\<rparr>)" (is "gpu_inv ?s'")
    and "table_spans (s\<lparr>pcm_nodes := pcm_nodes s @ [nd]\<rparr>) = table_spans s"
proof -
  have t: "table_inv s" and sp: "span_inv s" using assms by (simp_all add: gpu_inv_def)
  have same: "node ?s' p = node s p" if "(h, p) \<in> set (gtab s)" for h p
    using table_inv_range [OF t that] by (simp add: nth_append)
  show spans: "table_spans ?s' = table_spans s"
    unfolding table_spans_def using same by (auto intro!: arg_cong [where f = concat] map_cong)
  have "ev_ordered (pcm_nodes ?s') (gev s) = ev_ordered (pcm_nodes s) (gev s)"
    by (rule ev_ordered_cong) (use table_inv_ev_range [OF t] in \<open>simp add: nth_append\<close>)
  then have ord: "ev_ordered (pcm_nodes ?s') (gev ?s')" using table_inv_ev [OF t] by simp
  have "table_inv ?s'"
    unfolding table_inv_def
  proof (intro conjI)
    show "wf_map (gtab ?s')" using t by (simp add: table_inv_def)
    show "ev_ordered (pcm_nodes ?s') (gev ?s')" by (rule ord)
    show "set (gev ?s') = {p. \<exists>h. (h, p) \<in> set (gtab ?s') \<and> pn_ref_cnt (node ?s' p) = 0}"
      using t same by (fastforce simp: table_inv_def)
    show "\<forall>(h, p)\<in>set (gtab ?s'). p < length (pcm_nodes ?s') \<and> pn_hash (node ?s' p) = h \<and>
        h \<noteq> DEFAULT_HASH_STR \<and> pn_cache_num (node ?s' p) = pcm_layer_num ?s' \<and>
        int (length (pn_k_cache (node ?s' p))) = pcm_layer_num ?s' \<and>
        int (length (pn_v_cache (node ?s' p))) = pcm_layer_num ?s' \<and> 0 \<le> pn_ref_cnt (node ?s' p)"
      using t same by (fastforce simp: table_inv_def)
  qed
  then show "gpu_inv ?s'" using sp spans by (simp add: gpu_inv_def span_inv_def)
qed

lemma fold_RefCacheSpan [simp]:
  "length (fold RefCacheSpan qs store) = length store"
  "span_frame (fold RefCacheSpan qs store ! q) = span_frame (store ! q)"
  by (induction qs arbitrary: store) simp_all

lemma HasExtraRef_fold_Ref:
  "q < length store \<Longrightarrow> HasExtraRef (fold RefCacheSpan qs store) q \<longleftrightarrow> q \<in> set qs \<or> HasExtraRef store q"
  by (induction qs arbitrary: store) auto

lemma spans_owned_Ref [simp]:
  "spans_owned (sm\<lparr>csm_store := fold RefCacheSpan qs (csm_store sm)\<rparr>) rs = spans_owned sm rs"
  by (simp add: spans_owned_def)

text \<open>The table with a new unreferenced node, its spans marked.\<close>

definition ins_state :: "string \<Rightarrow> node_ptr \<Rightarrow> ('d, 'm) pcm \<Rightarrow> ('d, 'm) pcm" where
  "ins_state h p s =
     (let u = pcm_gpu_union s; sm = cu_span_manager u in
      s\<lparr>pcm_gpu_union := u\<lparr>cu_hash_table := gtab s @ [(h, p)],
          cu_evictor := ev_insert (pcm_nodes s) p (gev s),
          cu_span_manager := sm\<lparr>csm_store := fold RefCacheSpan (node_spans (node s p)) (csm_store sm)\<rparr>\<rparr>\<rparr>)"

lemma ins_state_simps [simp]:
  "pcm_nodes (ins_state h p s) = pcm_nodes s"
  "pcm_cpu_union (ins_state h p s) = pcm_cpu_union s"
  "pcm_layer_num (ins_state h p s) = pcm_layer_num s"
  "pcm_token_per_span (ins_state h p s) = pcm_token_per_span s"
  "gtab (ins_state h p s) = gtab s @ [(h, p)]"
  "gev (ins_state h p s) = ev_insert (pcm_nodes s) p (gev s)"
  "cu_capacity (pcm_gpu_union (ins_state h p s)) = cu_capacity (pcm_gpu_union s)"
  "cu_span_manager (pcm_gpu_union (ins_state h p s)) =
     (cu_span_manager (pcm_gpu_union s))\<lparr>csm_store := fold RefCacheSpan (node_spans (node s p)) (gstore s)\<rparr>"
  by (simp_all add: ins_state_def Let_def)

text \<open>What makes a node ready to be filed under a hash.\<close>

definition fileable :: "string \<Rightarrow> node_ptr \<Rightarrow> ('d, 'm) pcm \<Rightarrow> bool" where
  "fileable h p s \<longleftrightarrow>
     map_of (gtab s) h = None \<and> p \<notin> snd ` set (gtab s) \<and> p < length (pcm_nodes s) \<and>
     pn_hash (node s p) = h \<and> h \<noteq> DEFAULT_HASH_STR \<and> pn_cache_num (node s p) = pcm_layer_num s \<and>
     int (length (pn_k_cache (node s p))) = pcm_layer_num s \<and>
     int (length (pn_v_cache (node s p))) = pcm_layer_num s \<and> pn_ref_cnt (node s p) = 0"

lemma fileable_fresh_key:
  assumes t: "table_inv s" and f: "fileable h p s"
  shows "\<forall>q\<in>set (gev s). pn_key (node s q) \<noteq> pn_key (node s p)"
proof
  fix q assume "q \<in> set (gev s)"
  then obtain h' where h': "map_of (gtab s) h' = Some q" using table_inv_ev_member [OF t] by blast
  then have "h' \<noteq> h" using f by (auto simp: fileable_def)
  with table_inv_node(2) [OF t h'] f show "pn_key (node s q) \<noteq> pn_key (node s p)"
    by (auto simp: fileable_def pn_key_def)
qed

lemma ins_state_table_inv:
  assumes t: "table_inv s" and f: "fileable h p s"
  shows "table_inv (ins_state h p s)"
proof -
  have ev: "set (ev_insert (pcm_nodes s) p (gev s)) = insert p (set (gev s))"
    "ev_ordered (pcm_nodes s) (ev_insert (pcm_nodes s) p (gev s))"
    using ev_insert_fresh [OF fileable_fresh_key [OF assms] table_inv_ev [OF t]] by auto
  have "set (gev (ins_state h p s))
      = {q. \<exists>h'. (h', q) \<in> set (gtab (ins_state h p s)) \<and> pn_ref_cnt (node (ins_state h p s) q) = 0}"
    using t f by (auto simp: table_inv_def fileable_def ev)
  moreover have "wf_map (gtab s @ [(h, p)])"
    using t f by (auto simp: table_inv_def fileable_def map_of_eq_None_iff)
  ultimately show ?thesis
    using t f ev(2) unfolding table_inv_def by (auto simp: fileable_def)
qed

lemma ins_state_inv:
  assumes inv: "gpu_inv s" and f: "fileable h p s"
    and own: "spans_owned (cu_span_manager (pcm_gpu_union s)) (table_spans s @ node_spans (node s p))"
  shows "gpu_inv (ins_state h p s)"
    and "table_spans (ins_state h p s) = table_spans s @ node_spans (node s p)"
proof -
  show spans: "table_spans (ins_state h p s) = table_spans s @ node_spans (node s p)"
    by (simp add: table_spans_def)
  have "span_inv (ins_state h p s)"
    unfolding span_inv_def spans
    using inv own by (auto simp: gpu_inv_def span_inv_def HasExtraRef_fold_Ref spans_owned_def)
  with ins_state_table_inv [OF _ f] inv show "gpu_inv (ins_state h p s)" by (simp add: gpu_inv_def)
qed

lemma insert_node_eq:
  assumes inv: "table_inv s" and f: "fileable h p s" and room: "cu_has_room (pcm_gpu_union s)"
  shows "insert_node h (Some p) CUDA s = ret True (ins_state h p s)"
proof -
  have "ev_ordered (pcm_nodes s) (gev s)" using inv by (rule table_inv_ev)
  with f room show ?thesis
    by (simp add: insert_node_def table_emplace_def ref_cache_span_def map_store_def Let_def table_at_def
        fileable_def update_fresh map_add_def evictor_Add_def ev_Add_def ins_state_def del: andThen_eq_ret)
qed

section \<open>One span of a request\<close>

definition pair_spans :: "span_ptr list \<Rightarrow> span_ptr list \<Rightarrow> span_ptr list" where
  "pair_spans ks vs = concat (map (\<lambda>j. [ks ! j, vs ! j]) [0..<length ks])"

definition request_node :: "span_ptr list \<Rightarrow> span_ptr list \<Rightarrow> int \<Rightarrow> int \<Rightarrow> string \<Rightarrow> prefix_node" where
  "request_node ks vs len ts h =
     \<lparr>pn_k_cache = ks, pn_v_cache = vs, pn_ref_cnt = 0, pn_prefix_len = len,
      pn_cache_num = int (length ks), pn_last_access_time = ts, pn_device_type = CUDA, pn_hash = h,
      pn_is_ready = True\<rparr>"

lemma node_spans_request [simp]: "node_spans (request_node ks vs len ts h) = pair_spans ks vs"
  by (simp add: node_spans_def spans_upto_def pair_spans_def request_node_def)

text \<open>The spans of a request that a step still needs, beside those of the table.\<close>

definition step_ok :: "span_ptr list \<Rightarrow> ('d, 'm) pcm \<Rightarrow> bool" where
  "step_ok qs s \<longleftrightarrow>
     gpu_inv s \<and> spans_owned (cu_span_manager (pcm_gpu_union s)) (table_spans s @ qs)"

lemma spans_owned_sub:
  "spans_owned sm (rs @ ps @ qs) \<Longrightarrow> spans_owned sm (rs @ qs) \<and> spans_owned sm (rs @ ps)"
  by (simp add: spans_owned_append) blast

lemma insert_step_ok:
  assumes ok: "step_ok (pair_spans ks vs @ qs) s" and room: "cu_has_room (pcm_gpu_union s)"
    and lay: "length lk \<le> length lv" "layer_spans lk idx = Inr ks"
      "layer_spans (take (length lk) lv) idx = Inr vs"
    and len: "int (length ks) = pcm_layer_num s" "int (length vs) = pcm_layer_num s"
  shows "\<exists>p s'. insert_step toks ts lk lv i idx v s = ret (push_node p v) s' \<and> step_ok qs s' \<and>
    map_of (gtab s') (prefix_hash toks i) = Some p \<and>
    (\<forall>h. map_of (gtab s) h \<noteq> None \<longrightarrow> map_of (gtab s') h = map_of (gtab s) h) \<and>
    length (gtab s') \<le> Suc (length (gtab s)) \<and> cu_capacity (pcm_gpu_union s') = cu_capacity (pcm_gpu_union s) \<and>
    pcm_cpu_union s' = pcm_cpu_union s \<and> pcm_layer_num s' = pcm_layer_num s \<and>
    pcm_token_per_span s' = pcm_token_per_span s"
proof -
  let ?h = "prefix_hash toks i"
  let ?nd = "request_node ks vs (i + 1) ts ?h"
  let ?new = "length (pcm_nodes s)"
  let ?s1 = "s\<lparr>pcm_nodes := pcm_nodes s @ [?nd]\<rparr>"
  have inv: "gpu_inv s" using ok by (simp add: step_ok_def)
  have i1: "gpu_inv ?s1" and sp1: "table_spans ?s1 = table_spans s" using append_node_inv [OF inv] by blast+
  have h: "?h \<noteq> DEFAULT_HASH_STR" by (simp add: prefix_hash_def)
  have new: "\<exists>s0. create_node ks vs (i + 1) ts CUDA ?h s = ret ?new s0 \<and> set_node_ready ?new s0 = ?s1"
    using h len by (simp add: create_node_def PrefixNode_new_def set_node_ready_def set_node_def request_node_def)
  show ?thesis
  proof (cases "map_of (gtab s) ?h")
    case (Some p)
    let ?s2 = "ref_state p ts ?s1"
    have l: "map_of (gtab ?s1) ?h = Some p" using Some by simp
    have "insert_step toks ts lk lv i idx v s = ret (push_node p v) ?s2"
      using new lay Some ref_node_eq [OF i1 l]
      by (auto simp: insert_step_def Let_def table_at_def simp del: andThen_eq_ret)
    moreover have "gpu_inv ?s2" using i1 l by (rule gpu_inv_ref_state)
    moreover have "table_spans ?s2 = table_spans s"
      unfolding sp1 [symmetric] by (rule table_spans_set_node [of _ ?s1 p]) (simp_all add: ref_state_def)
    then have "step_ok qs ?s2"
      using ok \<open>gpu_inv ?s2\<close> spans_owned_sub by (fastforce simp: step_ok_def)
    ultimately show ?thesis
      using Some by (intro exI [of _ p] exI [of _ ?s2]) (simp add: ref_state_def)
  next
    case None
    have new_at: "node ?s1 ?new = ?nd" by simp
    have f: "fileable ?h ?new ?s1"
      unfolding fileable_def new_at
      using None h len table_inv_range inv by (fastforce simp: gpu_inv_def request_node_def)
    let ?s2 = "ins_state ?h ?new ?s1"
    have own: "spans_owned (cu_span_manager (pcm_gpu_union ?s1)) (table_spans ?s1 @ node_spans (node ?s1 ?new))"
      using ok spans_owned_sub unfolding new_at sp1 step_ok_def by fastforce
    have i2: "gpu_inv ?s2" and sp2: "table_spans ?s2 = table_spans s @ pair_spans ks vs"
      using ins_state_inv [OF i1 f own] by (simp_all add: sp1)
    have l2: "map_of (gtab ?s2) ?h = Some ?new" using None by (simp add: map_add_def)
    let ?s3 = "ref_state ?new ts ?s2"
    have "insert_step toks ts lk lv i idx v s = ret (push_node ?new v) ?s3"
      using new lay None room insert_node_eq [OF _ f] i1 ref_node_eq [OF i2 l2]
      by (auto simp: insert_step_def Let_def gpu_inv_def simp del: andThen_eq_ret)
    moreover have "gpu_inv ?s3" using i2 l2 by (rule gpu_inv_ref_state)
    moreover have "table_spans ?s3 = table_spans s @ pair_spans ks vs"
      unfolding sp2 [symmetric] by (rule table_spans_set_node [of _ ?s2 ?new]) (simp_all add: ref_state_def)
    then have "step_ok qs ?s3"
      using ok \<open>gpu_inv ?s3\<close> by (simp add: step_ok_def)
    ultimately show ?thesis
      using None l2 by (intro exI [of _ ?new] exI [of _ ?s3]) (auto simp: ref_state_def map_add_def split: option.splits)
  qed
qed

section \<open>A whole request\<close>

text \<open>
  The spans of a request at consecutive positions: every layer has them, for keys and values.
\<close>

fun request_spans ::
  "cache_array option list \<Rightarrow> cache_array option list \<Rightarrow> nat \<Rightarrow> nat \<Rightarrow> exn + span_ptr list" where
  "request_spans lk lv idx 0 = Inr []"
| "request_spans lk lv idx (Suc n) =
     bindE (layer_spans lk idx) (\<lambda>ks.
       bindE (layer_spans (take (length lk) lv) idx) (\<lambda>vs.
         bindE (request_spans lk lv (Suc idx) n) (\<lambda>qs. Inr (pair_spans ks vs @ qs))))"

lemma layer_spans_length: "layer_spans ls idx = Inr ps \<Longrightarrow> length ps = length ls"
proof (induction ls arbitrary: ps)
  case Nil
  then show ?case by simp
next
  case (Cons l ls)
  then show ?case by (cases l) (auto split: if_splits sum.splits)
qed

lemma insert_loop_ok:
  assumes "length lk = length lv" "int (length lk) = pcm_layer_num s"
    "request_spans lk lv idx (length is) = Inr qs" "step_ok qs s"
    "int (length (gtab s) + length is) \<le> cu_capacity (pcm_gpu_union s)"
    "cu_capacity (pcm_gpu_union s) < 2 ^ 31"
  shows "\<exists>ps s'. insert_loop toks ts lk lv is idx v s = ret (v\<lparr>iv_node_vec := iv_node_vec v @ ps\<rparr>) s' \<and>
    gpu_inv s' \<and> (\<forall>i\<in>set is. map_of (gtab s') (prefix_hash toks i) \<noteq> None) \<and>
    (\<forall>h. map_of (gtab s) h \<noteq> None \<longrightarrow> map_of (gtab s') h = map_of (gtab s) h) \<and>
    ps = map (\<lambda>i. the (map_of (gtab s') (prefix_hash toks i))) is \<and>
    pcm_cpu_union s' = pcm_cpu_union s \<and> pcm_token_per_span s' = pcm_token_per_span s"
  using assms
proof (induction "is" arbitrary: idx qs v s)
  case Nil
  then show ?case by (simp add: step_ok_def)
next
  case (Cons i "is")
  from Cons.prems(3) obtain ks vs qs' where ks: "layer_spans lk idx = Inr ks"
    and vs: "layer_spans (take (length lk) lv) idx = Inr vs"
    and qs': "request_spans lk lv (Suc idx) (length is) = Inr qs'" and qs: "qs = pair_spans ks vs @ qs'"
    by auto
  have len: "int (length ks) = pcm_layer_num s" "int (length vs) = pcm_layer_num s"
    using layer_spans_length [OF ks] layer_spans_length [OF vs] Cons.prems(1,2) by simp_all
  have room: "cu_has_room (pcm_gpu_union s)"
    using Cons.prems(5,6) by (simp add: cu_has_room_def size_t_of_def)
  have ok: "step_ok (pair_spans ks vs @ qs') s" using Cons.prems(4) qs by simp
  have le: "length lk \<le> length lv" using Cons.prems(1) by simp
  obtain p s1 where st: "insert_step toks ts lk lv i idx v s = ret (push_node p v) s1"
    and ok1: "step_ok qs' s1" and l1: "map_of (gtab s1) (prefix_hash toks i) = Some p"
    and keep: "\<forall>h. map_of (gtab s) h \<noteq> None \<longrightarrow> map_of (gtab s1) h = map_of (gtab s) h"
    and len1: "length (gtab s1) \<le> Suc (length (gtab s))"
    and same: "cu_capacity (pcm_gpu_union s1) = cu_capacity (pcm_gpu_union s)"
      "pcm_cpu_union s1 = pcm_cpu_union s" "pcm_layer_num s1 = pcm_layer_num s"
      "pcm_token_per_span s1 = pcm_token_per_span s"
    using insert_step_ok [OF ok room le ks vs len, of toks ts i v] by blast
  obtain ps s' where r: "insert_loop toks ts lk lv is (Suc idx) (push_node p v) s1
        = ret ((push_node p v)\<lparr>iv_node_vec := iv_node_vec (push_node p v) @ ps\<rparr>) s'"
    and inv: "gpu_inv s'" and all: "\<forall>i\<in>set is. map_of (gtab s') (prefix_hash toks i) \<noteq> None"
    and keep': "\<forall>h. map_of (gtab s1) h \<noteq> None \<longrightarrow> map_of (gtab s') h = map_of (gtab s1) h"
    and ps: "ps = map (\<lambda>i. the (map_of (gtab s') (prefix_hash toks i))) is"
    and same': "pcm_cpu_union s' = pcm_cpu_union s1" "pcm_token_per_span s' = pcm_token_per_span s1"
    using Cons.IH [OF Cons.prems(1) _ qs' ok1, of "push_node p v"] Cons.prems(2,5,6) len1 same by auto
  have "map_of (gtab s') (prefix_hash toks i) = Some p" using keep' l1 by simp
  with st r inv all keep keep' ps same same' show ?case
    by (intro exI [of _ "p # ps"] exI [of _ s'])
      (simp add: push_node_def del: andThen_eq_ret)
qed

lemma hits_all:
  "\<forall>h\<in>set hs. map_of (gtab s) h \<noteq> None \<Longrightarrow> hits hs s = map (\<lambda>h. the (map_of (gtab s) h)) hs"
  by (simp add: hits_def takeWhile_eq_all_conv [THEN iffD2])

text \<open>
  C12: What is inserted is found: after \<open>Insert\<close> of the spans of a request from its start, in a cache
  whose table has room for them (no host cache), a request with the same tokens gets all full spans
  but those that hold the last token, in the nodes that the insertion delivered, hash collisions
  inside the request included. The invariant holds and nothing cached before is lost.
\<close>

theorem Insert_RefOnly_roundtrip:
  assumes "gpu_inv s" "gpu_only s" "length lk = length lv" "int (length lk) = pcm_layer_num s"
    and n: "n = length (span_ends (pcm_token_per_span s) (int (length toks)) (pcm_token_per_span s - 1))"
    and "request_spans lk lv 0 n = Inr qs"
    and "spans_owned (cu_span_manager (pcm_gpu_union s)) (table_spans s @ qs)"
    and "int (length (gtab s) + n) \<le> cu_capacity (pcm_gpu_union s)" "cu_capacity (pcm_gpu_union s) < 2 ^ 31"
  shows "\<exists>ps s' s''. Insert enq now toks 0 ts lk lv [] s = ret ps s' \<and> gpu_inv s' \<and>
    RefOnly toks ts' [] s' = ret (int n * pcm_token_per_span s, int n * pcm_token_per_span s, ps) s'' \<and>
    (\<forall>h. map_of (gtab s) h \<noteq> None \<longrightarrow> map_of (gtab s') h = map_of (gtab s) h)"
proof -
  let ?tps = "pcm_token_per_span s"
  let ?is = "span_ends ?tps (int (length toks)) (?tps - 1)"
  let ?v = "\<lparr>iv_node_vec = [], iv_insert_vec = [], iv_swap_vec = [], iv_victim_hash_vec = []\<rparr>"
  have rq: "request_spans lk lv 0 (length ?is) = Inr qs" using assms(6) n by simp
  have ok: "step_ok qs s" using assms(1,7) by (simp add: step_ok_def)
  obtain ps s' where l: "insert_loop toks ts lk lv ?is 0 ?v s = ret (?v\<lparr>iv_node_vec := ps\<rparr>) s'"
    and inv: "gpu_inv s'" and all: "\<forall>i\<in>set ?is. map_of (gtab s') (prefix_hash toks i) \<noteq> None"
    and keep: "\<forall>h. map_of (gtab s) h \<noteq> None \<longrightarrow> map_of (gtab s') h = map_of (gtab s) h"
    and ps: "ps = map (\<lambda>i. the (map_of (gtab s') (prefix_hash toks i))) ?is"
    and same: "pcm_cpu_union s' = pcm_cpu_union s" "pcm_token_per_span s' = ?tps"
    using insert_loop_ok [OF assms(3,4) rq ok, of toks ts ?v] assms(8,9) n by auto
  have "nat (c_div 0 ?tps) = 0" by (simp add: c_div_def)
  then have i: "Insert enq now toks 0 ts lk lv [] s = ret ps s'"
    using l by (simp add: Insert_def Let_def swap_to_cpu_by_hashlist_def swap_to_cpu_by_nodelist_def
        swap_all_slices_def delete_multinodes_def del: andThen_eq_ret)
  have "gpu_only s'" using assms(2) same by (simp add: gpu_only_def)
  moreover have "prefix_hits toks s' = ps"
    unfolding prefix_hits_def same(2) using all by (subst hits_all) (simp_all add: ps)
  ultimately have "RefOnly toks ts' [] s'
      = ret (int (length ps) * ?tps, int (length ps) * ?tps, ps) (ref_all ps ts' s')"
    using RefOnly_eq [OF inv, of toks ts' "[]"] same by simp
  moreover have "length ps = n" by (simp add: ps n)
  ultimately show ?thesis using i inv keep by blast
qed

text \<open>An empty cache and a request with one span, in the two frames it holds.\<close>

definition empty_cache :: "(nat, unit) pcm" where
  "empty_cache = demo_cache\<lparr>
     pcm_nodes := [],
     pcm_gpu_union := \<lparr>cu_device_type = CUDA, cu_capacity = 2, cu_evictor = [],
       cu_span_manager = demo_sm\<lparr>csm_store :=
         map (\<lambda>i. \<lparr>span_frame = demo_frame i, span_tag = [], span_has_extra_ref = False\<rparr>) [0..<4]\<rparr>,
       cu_hash_table = []\<rparr>\<rparr>"

definition demo_layer :: "span_ptr \<Rightarrow> cache_array option" where
  "demo_layer p = Some ((CacheArray_new ''k'' 16 0 4)\<lparr>ca_cache := [p], ca_seq_length := 16\<rparr>)"

theorem Insert_RefOnly_roundtrip_witness:
  "\<exists>ps s' s''. Insert enq_reliable 9 demo_tokens 0 5 [demo_layer 0] [demo_layer 1] [] empty_cache = ret ps s' \<and>
     RefOnly demo_tokens 7 [] s' = ret (16, 16, ps) s''"
proof -
  have e: "pcm_token_per_span empty_cache = 16" by (simp add: empty_cache_def demo_cache_def demo_pcm_def)
  have ends: "span_ends 16 (int (length demo_tokens)) (16 - 1) = [15]" using demo_ends by simp
  have own: "spans_owned (cu_span_manager (pcm_gpu_union empty_cache)) [0, 1]"
    by (simp add: spans_owned_def empty_cache_def demo_sm_def cfm_held_def upt_rec)
  have spans: "table_spans empty_cache = []" by (simp add: table_spans_def empty_cache_def)
  have fm: "cfm_inv (gfm empty_cache)"
    by (simp add: empty_cache_def demo_sm_def cfm_inv_def upt_rec)
  have "gpu_inv empty_cache"
    using fm spans by (simp add: gpu_inv_def span_inv_def spans_owned_def)
      (simp add: table_inv_def empty_cache_def)
  moreover have "gpu_only empty_cache"
    using demo_cache_inv(2) by (simp add: gpu_only_def empty_cache_def)
  ultimately have "\<exists>ps s' s''. Insert enq_reliable 9 demo_tokens 0 5 [demo_layer 0] [demo_layer 1] [] empty_cache
      = ret ps s' \<and> gpu_inv s' \<and>
    RefOnly demo_tokens 7 [] s' = ret (int 1 * pcm_token_per_span empty_cache,
      int 1 * pcm_token_per_span empty_cache, ps) s'' \<and>
    (\<forall>h. map_of (gtab empty_cache) h \<noteq> None \<longrightarrow> map_of (gtab s') h = map_of (gtab empty_cache) h)"
  proof (rule Insert_RefOnly_roundtrip)
    show "1 = length (span_ends (pcm_token_per_span empty_cache) (int (length demo_tokens))
        (pcm_token_per_span empty_cache - 1))"
      unfolding e ends by simp
    show "request_spans [demo_layer 0] [demo_layer 1] 0 1 = Inr [0, 1]"
      by (simp add: demo_layer_def pair_spans_def)
    show "spans_owned (cu_span_manager (pcm_gpu_union empty_cache)) (table_spans empty_cache @ [0, 1])"
      unfolding spans using own by simp
  qed (simp_all add: empty_cache_def demo_cache_def demo_pcm_def)
  then show ?thesis unfolding e by auto
qed

end
