(* ===== verification/Prefix_Fill.thy ===== *)
theory Prefix_Fill
  imports Prefix_Theorems
begin

text \<open>
  \<open>RefFill\<close>, the start of a request: the cached prefix is attached to the virtual caches of the
  request, layer by layer, and only the remaining tokens are left to process.
\<close>

section \<open>Spans of a referenced node\<close>

lemma node_spans_kv:
  assumes "int (length (pn_k_cache nd)) = pn_cache_num nd" "int (length (pn_v_cache nd)) = pn_cache_num nd"
  shows "set (node_spans nd) = set (pn_k_cache nd) \<union> set (pn_v_cache nd)"
proof -
  have "nat (pn_cache_num nd) = length (pn_k_cache nd)" "nat (pn_cache_num nd) = length (pn_v_cache nd)"
    using assms by linarith+
  then show ?thesis
    by (auto simp: node_spans_def spans_upto_def in_set_conv_nth atLeast0LessThan)
qed

lemma gpu_inv_node_lists:
  assumes inv: "gpu_inv s" and h: "map_of (gtab s) h = Some p"
  shows "int (length (pn_k_cache (node s p))) = pcm_layer_num s" "int (length (pn_v_cache (node s p))) = pcm_layer_num s"
    "\<forall>q\<in>set (pn_k_cache (node s p)). q < length (gstore s)" "\<forall>q\<in>set (pn_v_cache (node s p)). q < length (gstore s)"
proof -
  have t: "table_inv s" and sp: "span_inv s" using inv by (simp_all add: gpu_inv_def)
  show l: "int (length (pn_k_cache (node s p))) = pcm_layer_num s" "int (length (pn_v_cache (node s p))) = pcm_layer_num s"
    using t map_of_SomeD [OF h] by (auto simp: table_inv_def)
  have "set (node_spans (node s p)) = set (pn_k_cache (node s p)) \<union> set (pn_v_cache (node s p))"
    by (rule node_spans_kv) (simp_all add: l table_inv_node(4) [OF t h])
  moreover have "\<forall>q\<in>set (node_spans (node s p)). q < length (gstore s)"
    using table_spans_member [OF h] sp by (auto simp: span_inv_def spans_owned_def)
  ultimately show "\<forall>q\<in>set (pn_k_cache (node s p)). q < length (gstore s)"
    "\<forall>q\<in>set (pn_v_cache (node s p)). q < length (gstore s)" by auto
qed

lemma ref_state_lists [simp]:
  "pn_k_cache (node (ref_state p ts s) q) = pn_k_cache (node s q)"
  "pn_v_cache (node (ref_state p ts s) q) = pn_v_cache (node s q)"
  by (cases "p < length (pcm_nodes s)"; cases "p = q"; simp add: ref_state_def nth_upd list_update_beyond)+

section \<open>The loop\<close>

text \<open>Both virtual caches hold the given nodes.\<close>

definition both_hold ::
  "nat \<Rightarrow> nat \<Rightarrow> span_ptr list list \<Rightarrow> span_ptr list list \<Rightarrow> ('d, 'm) req_state \<Rightarrow> bool" where
  "both_hold layers room kss vss st \<longleftrightarrow>
     (case st of (vk, vv, s) \<Rightarrow>
        layers_hold (gstore s) layers room kss vk \<and> layers_hold (gstore s) layers room vss vv)"

lemma fill_both_ok:
  assumes hold: "both_hold layers (Suc room) kss vss (vk, vv, s)" and L: "0 < layers" "int layers = pcm_layer_num s"
    and inv: "gpu_inv s" and h: "map_of (gtab s) h = Some p"
  shows "\<exists>vk' vv'. fill_both p (vk, vv, s) = ret () (vk', vv', s) \<and>
    both_hold layers room (kss @ [pn_k_cache (node s p)]) (vss @ [pn_v_cache (node s p)]) (vk', vv', s)"
proof -
  note lists = gpu_inv_node_lists [OF inv h]
  have len: "length (pn_k_cache (node s p)) = layers" "length (pn_v_cache (node s p)) = layers"
    using lists(1,2) L(2) by simp_all
  have holds: "layers_hold (gstore s) layers (Suc room) kss vk" "layers_hold (gstore s) layers (Suc room) vss vv"
    using hold by (simp_all add: both_hold_def)
  obtain vk' where "vc_FillCache (gstore s) (pn_k_cache (node s p)) vk = Inr vk'"
    "layers_hold (gstore s) layers room (kss @ [pn_k_cache (node s p)]) vk'"
    using layers_hold_fill [OF holds(1) L(1) len(1) lists(3)] by blast
  moreover obtain vv' where "vc_FillCache (gstore s) (pn_v_cache (node s p)) vv = Inr vv'"
    "layers_hold (gstore s) layers room (vss @ [pn_v_cache (node s p)]) vv'"
    using layers_hold_fill [OF holds(2) L(1) len(2) lists(4)] by blast
  ultimately show ?thesis by (auto simp: fill_both_def gpu_sm_def both_hold_def)
qed

lemma gpu_only_update_ts: "gpu_only s \<Longrightarrow> update_node_ts h ts CPU s = s"
  by (simp add: gpu_only_def update_node_ts_def)

lemma ref_fill_loop_ok:
  assumes "gpu_inv s" "gpu_only s" "0 < layers" "int layers = pcm_layer_num s"
    "both_hold layers (room + length is) kss vss (vk, vv, s)" "\<forall>i\<in>set is. i + 1 \<le> int (length toks)"
  shows "\<exists>vk' vv'. let ps = hits (map (prefix_hash toks) is) s in
    ref_fill_loop toks ts is u nv [] (vk, vv, s) =
      ret (u + int (length ps) * pcm_token_per_span s, nv @ ps, []) (vk', vv', ref_all ps ts s) \<and>
    both_hold layers room (kss @ map (\<lambda>p. pn_k_cache (node s p)) ps) (vss @ map (\<lambda>p. pn_v_cache (node s p)) ps)
      (vk', vv', ref_all ps ts s)"
  using assms
proof (induction "is" arbitrary: u nv kss vss vk vv s)
  case Nil
  then show ?case by (simp add: ref_all_def)
next
  case (Cons i "is")
  let ?h = "prefix_hash toks i"
  have le: "\<not> int (length toks) < i + 1" using Cons.prems(6) by simp
  show ?case
  proof (cases "map_of (gtab s) ?h")
    case None
    have "both_hold layers room kss vss (vk, vv, s)"
      using Cons.prems(5) by (fastforce simp: both_hold_def layers_hold_def)
    moreover have "map_of (cu_hash_table (pcm_cpu_union s)) ?h = None"
      using Cons.prems(2) by (simp add: gpu_only_def)
    ultimately show ?thesis using None le by (simp add: Let_def ref_all_def del: andThen_eq_ret)
  next
    case (Some p)
    let ?s1 = "ref_state p ts s"
    have r: "ref_node ?h ts CUDA s = ret () ?s1" using Cons.prems(1) Some by (rule ref_node_eq)
    have i1: "gpu_inv ?s1" using Cons.prems(1) Some by (rule gpu_inv_ref_state)
    have o1: "gpu_only ?s1" using Cons.prems(2) by (simp add: gpu_only_def)
    have h1: "map_of (gtab ?s1) ?h = Some p" using Some by simp
    have L1: "int layers = pcm_layer_num ?s1" using Cons.prems(4) by simp
    have "both_hold layers (Suc (room + length is)) kss vss (vk, vv, ?s1)"
      using Cons.prems(5) by (simp add: both_hold_def)
    from fill_both_ok [OF this Cons.prems(3) L1 i1 h1] obtain vk1 vv1 where
      f: "fill_both p (vk, vv, ?s1) = ret () (vk1, vv1, ?s1)"
      and hold1: "both_hold layers (room + length is) (kss @ [pn_k_cache (node s p)])
        (vss @ [pn_v_cache (node s p)]) (vk1, vv1, ?s1)" by auto
    have "hits (map (prefix_hash toks) is) ?s1 = hits (map (prefix_hash toks) is) s" by (rule hits_cong) simp
    with Cons.IH [OF i1 o1 Cons.prems(3) L1 hold1, of "u + pcm_token_per_span s" "nv @ [p]"] Cons.prems(6)
    show ?thesis
      using Some le r f gpu_only_update_ts [OF o1, of ?h ts]
      by (simp add: Let_def on_pcm_def table_at_def ref_all_def algebra_simps del: andThen_eq_ret)
  qed
qed

section \<open>Starting a request\<close>

lemma span_ends_below: "i \<in> set (span_ends tps n j) \<Longrightarrow> i < n - 1"
proof (induction tps n j rule: span_ends.induct)
  case (1 tps n j)
  then show ?case by (subst (asm) (2) span_ends.simps) (auto split: if_splits)
qed

text \<open>
  C24: \<open>RefFill\<close> (no host cache) for a request whose virtual caches are still empty and have table
  entries for all its full spans: it attaches the longest cached prefix, layer by layer in order, to
  both virtual caches, so that every layer is well formed and exactly as long as the prefix; it
  references the nodes it used, and the tokens left over are those after the prefix.
\<close>

theorem RefFill_attaches_prefix:
  assumes "gpu_inv s" "gpu_only s" "0 < layers" "int layers = pcm_layer_num s"
    "length toks_hash = length toks"
    "both_hold layers (length (span_ends (pcm_token_per_span s) (int (length toks)) (pcm_token_per_span s - 1)))
       [] [] (vk, vv, s)"
  shows "\<exists>ps st'. ps = prefix_hits toks_hash s \<and>
    RefFill enq now toks toks_hash ts (vk, vv, s) =
      ret (drop (nat (int (length ps) * pcm_token_per_span s)) toks,
           int (length ps) * pcm_token_per_span s, ps) st' \<and>
    both_hold layers 0 (map (\<lambda>p. pn_k_cache (node s p)) ps) (map (\<lambda>p. pn_v_cache (node s p)) ps) st' \<and>
    gpu_inv (snd (snd st')) \<and>
    (\<forall>q. pn_ref_cnt (node (snd (snd st')) q) = pn_ref_cnt (node s q) + int (count_list ps q))"
proof -
  let ?tps = "pcm_token_per_span s"
  let ?is = "span_ends ?tps (int (length toks)) (?tps - 1)"
  let ?ps = "prefix_hits toks_hash s"
  have ps: "hits (map (prefix_hash toks_hash) ?is) s = ?ps" by (simp add: prefix_hits_def assms(5))
  have "\<forall>i\<in>set ?is. i + 1 \<le> int (length toks_hash)" using span_ends_below assms(5) by fastforce
  moreover have "both_hold layers (0 + length ?is) [] [] (vk, vv, s)" using assms(6) by simp
  ultimately obtain vk' vv' where
    l: "ref_fill_loop toks_hash ts ?is 0 [] [] (vk, vv, s)
        = ret (int (length ?ps) * ?tps, ?ps, []) (vk', vv', ref_all ?ps ts s)"
    and hold: "both_hold layers 0 (map (\<lambda>p. pn_k_cache (node s p)) ?ps) (map (\<lambda>p. pn_v_cache (node s p)) ?ps)
        (vk', vv', ref_all ?ps ts s)"
    using ref_fill_loop_ok [OF assms(1-4), of 0 ?is "[]" "[]" vk vv toks_hash ts 0 "[]"]
    unfolding ps Let_def by auto
  have "RefFill enq now toks toks_hash ts (vk, vv, s)
      = ret (drop (nat (int (length ?ps) * ?tps)) toks, int (length ?ps) * ?tps, ?ps) (vk', vv', ref_all ?ps ts s)"
    using l by (simp add: RefFill_def Let_def del: andThen_eq_ret)
  with hold ref_all_inv [OF assms(1) prefix_hits_cached] show ?thesis
    by (intro exI [of _ ?ps] exI [of _ "(vk', vv', ref_all ?ps ts s)"]) simp
qed

definition demo_vc :: virtual_cache where
  "demo_vc = \<lparr>vc_tag = ''req'', vc_cache_config = \<lparr>cfg_mode = AsCacheDefault, cfg_span_size = 16,
      cfg_span_num_init = 4, cfg_span_num_grow = 0\<rparr>, vc_layer_num = 1,
      vc_layer_cache = [Some (CacheArray_new ''req'' 16 0 4)]\<rparr>"

lemma demo_vc_holds: "layers_hold store 1 1 [] demo_vc"
  unfolding layers_hold_def
  by (intro exI [of _ "[CacheArray_new ''req'' 16 0 4]"])
    (simp add: demo_vc_def CacheArray_new_def ca_inv_def ceil_div_def)

theorem RefFill_attaches_prefix_witness:
  "\<exists>st'. RefFill enq_reliable 9 demo_tokens demo_tokens 9 (demo_vc, demo_vc, demo_cache)
      = ret (replicate 4 7, 16, [0]) st' \<and> both_hold 1 0 [[0]] [[1]] st'"
proof -
  have n: "length (span_ends (pcm_token_per_span demo_cache) (int (length demo_tokens))
      (pcm_token_per_span demo_cache - 1)) = 1"
    using demo_ends by (simp add: demo_cache_inv(3))
  have "both_hold 1 1 [] [] (demo_vc, demo_vc, demo_cache)" by (simp add: both_hold_def demo_vc_holds [simplified])
  then have hold: "both_hold 1 (length (span_ends (pcm_token_per_span demo_cache) (int (length demo_tokens))
      (pcm_token_per_span demo_cache - 1))) [] [] (demo_vc, demo_vc, demo_cache)"
    unfolding n by simp
  have "int 1 = pcm_layer_num demo_cache" by (simp add: demo_cache_def demo_pcm_def)
  from RefFill_attaches_prefix [OF demo_cache_inv(1,2) _ this refl hold, of enq_reliable 9 9]
  have "\<exists>st'. RefFill enq_reliable 9 demo_tokens demo_tokens 9 (demo_vc, demo_vc, demo_cache)
      = ret (drop 16 demo_tokens, 16, [0]) st' \<and>
      both_hold 1 0 [pn_k_cache (node demo_cache 0)] [pn_v_cache (node demo_cache 0)] st'"
    unfolding demo_hits demo_cache_inv(3) by auto
  moreover have "drop 16 demo_tokens = replicate 4 7" by (simp add: demo_tokens_def)
  moreover have "pn_k_cache (node demo_cache 0) = [0]" "pn_v_cache (node demo_cache 0) = [1]"
    by (simp_all add: demo_cache_def demo_pcm_def demo_node_def)
  ultimately show ?thesis by simp
qed

end
