(* ===== verification/BFC_Allocator.thy ===== *)
theory BFC_Allocator
  imports Common_Types Complex_Main
begin

text \<open>
  The device memory allocator of \<open>device/bfc_allocator.cpp\<close>: regions obtained from a
  sub-allocator are cut into chunks, doubly linked in the order of their addresses, and the free
  chunks are filed in bins by size. This theory holds the data and the operations; the invariant
  is in \<open>BFC_Invariant\<close>.

  A \<open>ChunkHandle\<close> is an index into the vector of chunks and \<open>None\<close> stands for
  \<open>kInvalidChunkHandle\<close>. A \<open>size_t\<close> is a natural number with the wrap-around at
  \<open>2 ^ 64\<close> written out where it can happen. A bin, a \<open>std::set\<close> with a comparator that
  reads the chunks, is a list in the order of that comparator. A failed \<open>AS_ENFORCE\<close> ends the
  process, so an operation delivers either the failure or its result with the new state. The
  sub-allocator is a parameter: \<open>sub_alloc\<close> for a number of bytes and \<open>sub_free\<close> for an
  address and a size act on the state of the memory behind it.
\<close>

unbundle bit_operations_syntax

section \<open>Sizes and bins\<close>

type_synonym handle = nat

definition kMinAllocationBits :: nat where "kMinAllocationBits = 8"
definition kMinAllocationSize :: nat where "kMinAllocationSize = 2 ^ kMinAllocationBits"
definition kNumBins :: nat where "kNumBins = 21"

lemmas bfc_consts = kMinAllocationBits_def kMinAllocationSize_def kNumBins_def

definition size_wrap :: "nat \<Rightarrow> nat" where
  "size_wrap n = n mod 2 ^ 64"

definition RoundedBytes :: "nat \<Rightarrow> nat" where
  "RoundedBytes bytes =
     size_wrap (kMinAllocationSize *
       (size_wrap (bytes + kMinAllocationSize + (2 ^ 64 - 1)) div kMinAllocationSize))"

function log2_slow_loop :: "nat \<Rightarrow> int \<Rightarrow> int" where
  "log2_slow_loop n r = (if n > 0 then log2_slow_loop (drop_bit 1 n) (r + 1) else r)"
  by pat_completeness auto
termination
  by (relation "measure fst") (auto simp: drop_bit_eq_div)

declare log2_slow_loop.simps [simp del]

definition Log2FloorNonZeroSlow :: "nat \<Rightarrow> int" where
  "Log2FloorNonZeroSlow n = log2_slow_loop n 0 - 1"

text \<open>\<open>__builtin_clzll\<close>: the number of zero bits above the highest one, of 64.\<close>

definition clzll :: "nat \<Rightarrow> nat" where
  "clzll n = length (takeWhile (\<lambda>i. \<not> bit n i) (rev [0..<64]))"

definition Log2FloorNonZero :: "nat \<Rightarrow> nat" where
  "Log2FloorNonZero n = 63 XOR clzll n"

definition BinNumToSize :: "nat \<Rightarrow> nat" where
  "BinNumToSize index = size_wrap (push_bit index 256)"

definition BinNumForSize :: "nat \<Rightarrow> nat" where
  "BinNumForSize bytes =
     (let v = drop_bit kMinAllocationBits (max bytes 256) in min (kNumBins - 1) (Log2FloorNonZero v))"

section \<open>Chunks and regions\<close>

record chunk =
  c_size :: nat
  c_requested_size :: nat
  c_allocation_id :: int
  c_ptr :: addr
  c_prev :: "handle option"
  c_next :: "handle option"
  c_bin_num :: "nat option"
  c_freed_at_count :: nat

definition chunk_init :: chunk where
  "chunk_init = \<lparr>c_size = 0, c_requested_size = 0, c_allocation_id = -1, c_ptr = 0, c_prev = None,
     c_next = None, c_bin_num = None, c_freed_at_count = 0\<rparr>"

definition c_in_use :: "chunk \<Rightarrow> bool" where
  "c_in_use c = (c_allocation_id c \<noteq> -1)"

text \<open>The comparator of a bin: by size, then by address.\<close>

definition chunk_less :: "chunk list \<Rightarrow> handle \<Rightarrow> handle \<Rightarrow> bool" where
  "chunk_less cs ha hb =
     (if c_size (cs ! ha) \<noteq> c_size (cs ! hb) then c_size (cs ! ha) < c_size (cs ! hb)
      else c_ptr (cs ! ha) < c_ptr (cs ! hb))"

text \<open>Insertion finds the place by the comparator and does nothing when an equivalent element is
  there; erasure takes out the equivalent elements and counts them.\<close>

fun bin_insert :: "chunk list \<Rightarrow> handle \<Rightarrow> handle list \<Rightarrow> handle list" where
  "bin_insert cs h [] = [h]"
| "bin_insert cs h (x # xs) =
     (if chunk_less cs x h then x # bin_insert cs h xs
      else if chunk_less cs h x then h # x # xs
      else x # xs)"

definition bin_equiv :: "chunk list \<Rightarrow> handle \<Rightarrow> handle \<Rightarrow> bool" where
  "bin_equiv cs h x = (\<not> chunk_less cs x h \<and> \<not> chunk_less cs h x)"

definition bin_erase :: "chunk list \<Rightarrow> handle \<Rightarrow> handle list \<Rightarrow> handle list" where
  "bin_erase cs h xs = filter (\<lambda>x. \<not> bin_equiv cs h x) xs"

definition bin_count :: "chunk list \<Rightarrow> handle \<Rightarrow> handle list \<Rightarrow> nat" where
  "bin_count cs h xs = length (filter (bin_equiv cs h) xs)"

record region =
  r_ptr :: addr
  r_memory_size :: nat
  r_handles :: "handle option list"

definition r_end_ptr :: "region \<Rightarrow> addr" where
  "r_end_ptr r = r_ptr r + r_memory_size r"

definition n_handles_for :: "nat \<Rightarrow> nat" where
  "n_handles_for memory_size = (memory_size + kMinAllocationSize - 1) div kMinAllocationSize"

definition AllocationRegion_new :: "addr \<Rightarrow> nat \<Rightarrow> region" where
  "AllocationRegion_new ptr memory_size =
     \<lparr>r_ptr = ptr, r_memory_size = memory_size, r_handles = replicate (n_handles_for memory_size) None\<rparr>"

definition r_extend :: "nat \<Rightarrow> region \<Rightarrow> region" where
  "r_extend bytes r =
     (let n = n_handles_for (r_memory_size r + bytes)
      in r\<lparr>r_memory_size := r_memory_size r + bytes,
           r_handles := take n (r_handles r) @ replicate (n - length (r_handles r)) None\<rparr>)"

text \<open>The difference of addresses wraps when the pointer lies below the region.\<close>

definition r_IndexFor :: "region \<Rightarrow> addr \<Rightarrow> nat" where
  "r_IndexFor r p = drop_bit kMinAllocationBits (size_wrap (p + 2 ^ 64 - r_ptr r))"

definition r_get_handle :: "region \<Rightarrow> addr \<Rightarrow> exn + handle option" where
  "r_get_handle r p = defined_if (r_IndexFor r p < length (r_handles r)) (Inr (r_handles r ! r_IndexFor r p))"

definition r_set_handle :: "addr \<Rightarrow> handle option \<Rightarrow> region \<Rightarrow> exn + region" where
  "r_set_handle p h r =
     defined_if (r_IndexFor r p < length (r_handles r))
       (Inr (r\<lparr>r_handles := (r_handles r)[r_IndexFor r p := h]\<rparr>))"

text \<open>\<open>std::upper_bound\<close> with the comparator \<open>ptr < end_ptr\<close>: the position of the first
  region that ends behind the pointer, on regions sorted by their ends.\<close>

definition upper_bound_region :: "region list \<Rightarrow> addr \<Rightarrow> nat" where
  "upper_bound_region rs p = length (takeWhile (\<lambda>r. \<not> p < r_end_ptr r) rs)"

definition AddAllocationRegion :: "addr \<Rightarrow> nat \<Rightarrow> region list \<Rightarrow> region list" where
  "AddAllocationRegion ptr memory_size rs =
     (let i = upper_bound_region rs ptr in take i rs @ AllocationRegion_new ptr memory_size # drop i rs)"

text \<open>The result says which region was extended, if one was.\<close>

definition AddOrExtendAllocationRegion :: "addr \<Rightarrow> nat \<Rightarrow> region list \<Rightarrow> nat option \<times> region list" where
  "AddOrExtendAllocationRegion ptr memory_size rs =
     (let i = upper_bound_region rs ptr
      in if i \<noteq> 0 \<and> r_end_ptr (rs ! (i - 1)) = ptr
         then (Some (i - 1), rs[i - 1 := r_extend memory_size (rs ! (i - 1))])
         else (None, take i rs @ AllocationRegion_new ptr memory_size # drop i rs))"

definition RegionFor :: "region list \<Rightarrow> addr \<Rightarrow> nat option" where
  "RegionFor rs p = (let i = upper_bound_region rs p in if i < length rs then Some i else None)"

text \<open>For a pointer behind all regions the answer is handle 0, not the invalid one.\<close>

definition rm_get_handle :: "region list \<Rightarrow> addr \<Rightarrow> exn + handle option" where
  "rm_get_handle rs p =
     (case RegionFor rs p of Some i \<Rightarrow> r_get_handle (rs ! i) p | None \<Rightarrow> Inr (Some 0))"

definition rm_set_handle :: "addr \<Rightarrow> handle option \<Rightarrow> region list \<Rightarrow> exn + region list" where
  "rm_set_handle p h rs =
     (case RegionFor rs p of
        None \<Rightarrow> Inl UndefinedBehaviour
      | Some i \<Rightarrow> bindE (r_set_handle p h (rs ! i)) (\<lambda>r. Inr (rs[i := r])))"

definition rm_erase :: "addr \<Rightarrow> region list \<Rightarrow> exn + region list" where
  "rm_erase p rs = rm_set_handle p None rs"

section \<open>The state\<close>

record bfc_options =
  opt_allow_growth :: bool
  opt_garbage_collection :: bool
  opt_fragmentation_fraction :: rat

definition default_options :: bfc_options where
  "default_options = \<lparr>opt_allow_growth = True, opt_garbage_collection = True,
     opt_fragmentation_fraction = 0\<rparr>"

text \<open>The statistics that the allocator maintains; the others keep the value 0.\<close>

record allocator_stats =
  st_num_allocs :: int
  st_bytes_in_use :: int
  st_peak_bytes_in_use :: int
  st_largest_alloc_size :: int
  st_bytes_limit :: int

record 'm bfc =
  b_opts :: bfc_options
  b_memory_limit :: nat
  b_curr_region_allocation_bytes :: nat
  b_total_region_allocated_bytes :: nat
  b_coalesce_regions :: bool
  b_regions :: "region list"
  b_chunks :: "chunk list"
  b_free_chunks_list :: "handle option"
  b_next_allocation_id :: int
  b_bins :: "handle list list"
  b_stats :: allocator_stats
  b_mem :: 'm

type_synonym 'm sub_alloc = "nat \<Rightarrow> 'm \<Rightarrow> addr option \<times> 'm"
type_synonym 'm sub_free = "addr \<Rightarrow> nat \<Rightarrow> 'm \<Rightarrow> 'm"

text \<open>The constructor checks its own arithmetic for every bin.\<close>

definition bin_checks :: "nat \<Rightarrow> bool" where
  "bin_checks b =
     (let bin_size = BinNumToSize b
      in BinNumForSize bin_size = b \<and> BinNumForSize (bin_size + 255) = b \<and>
         BinNumForSize (bin_size * 2 - 1) = b \<and>
         (b + 1 < kNumBins \<longrightarrow> BinNumForSize (bin_size * 2) \<noteq> b))"

definition BFCAllocatorImpl_new :: "bool \<Rightarrow> 'm \<Rightarrow> nat \<Rightarrow> bfc_options \<Rightarrow> exn + 'm bfc" where
  "BFCAllocatorImpl_new supports_coalescing mem total_memory opts =
     enforce (list_all bin_checks [0..<kNumBins])
       (Inr \<lparr>b_opts = opts, b_memory_limit = total_memory,
          b_curr_region_allocation_bytes =
            RoundedBytes (if opt_allow_growth opts then min total_memory (2 * 2 ^ 20) else total_memory),
          b_total_region_allocated_bytes = 0, b_coalesce_regions = supports_coalescing, b_regions = [],
          b_chunks = [], b_free_chunks_list = None, b_next_allocation_id = 1,
          b_bins = replicate kNumBins [],
          b_stats = \<lparr>st_num_allocs = 0, st_bytes_in_use = 0, st_peak_bytes_in_use = 0,
                     st_largest_alloc_size = 0, st_bytes_limit = int total_memory\<rparr>,
          b_mem = mem\<rparr>)"

definition valid_handle :: "'m bfc \<Rightarrow> handle \<Rightarrow> bool" where
  "valid_handle s h = (h < length (b_chunks s))"

definition upd_chunk :: "handle \<Rightarrow> (chunk \<Rightarrow> chunk) \<Rightarrow> 'm bfc \<Rightarrow> 'm bfc" where
  "upd_chunk h f s = s\<lparr>b_chunks := (b_chunks s)[h := f (b_chunks s ! h)]\<rparr>"

section \<open>Operations on chunks\<close>

definition AllocateChunk :: "'m bfc \<Rightarrow> exn + handle \<times> 'm bfc" where
  "AllocateChunk s =
     (case b_free_chunks_list s of
        Some h \<Rightarrow> defined_if (valid_handle s h)
                    (Inr (h, s\<lparr>b_free_chunks_list := c_next (b_chunks s ! h)\<rparr>))
      | None \<Rightarrow> Inr (length (b_chunks s), s\<lparr>b_chunks := b_chunks s @ [chunk_init]\<rparr>))"

definition DeallocateChunk :: "handle \<Rightarrow> 'm bfc \<Rightarrow> exn + 'm bfc" where
  "DeallocateChunk h s =
     defined_if (valid_handle s h)
       (Inr ((upd_chunk h (\<lambda>c. c\<lparr>c_allocation_id := -1, c_bin_num := None,
                                  c_next := b_free_chunks_list s\<rparr>) s)
              \<lparr>b_free_chunks_list := Some h\<rparr>))"

definition DeleteChunk :: "handle \<Rightarrow> 'm bfc \<Rightarrow> exn + 'm bfc" where
  "DeleteChunk h s =
     defined_if (valid_handle s h)
       (bindE (rm_erase (c_ptr (b_chunks s ! h)) (b_regions s))
          (\<lambda>rs. DeallocateChunk h (s\<lparr>b_regions := rs\<rparr>)))"

definition InsertFreeChunkIntoBin :: "handle \<Rightarrow> 'm bfc \<Rightarrow> exn + 'm bfc" where
  "InsertFreeChunkIntoBin h s =
     defined_if (valid_handle s h)
       (enforce (\<not> c_in_use (b_chunks s ! h) \<and> c_bin_num (b_chunks s ! h) = None)
          (let bin_num = BinNumForSize (c_size (b_chunks s ! h));
               s1 = upd_chunk h (\<lambda>c. c\<lparr>c_bin_num := Some bin_num\<rparr>) s
           in Inr (s1\<lparr>b_bins := (b_bins s)[bin_num := bin_insert (b_chunks s1) h (b_bins s ! bin_num)]\<rparr>)))"

text \<open>Erasure through an iterator: the element at that position of the given bin.\<close>

definition RemoveFreeChunkIterFromBin :: "nat \<Rightarrow> handle \<Rightarrow> 'm bfc \<Rightarrow> exn + 'm bfc" where
  "RemoveFreeChunkIterFromBin b h s =
     defined_if (valid_handle s h)
       (enforce (\<not> c_in_use (b_chunks s ! h) \<and> c_bin_num (b_chunks s ! h) \<noteq> None)
          (Inr (upd_chunk h (\<lambda>c. c\<lparr>c_bin_num := None\<rparr>)
                  (s\<lparr>b_bins := (b_bins s)[b := remove1 h (b_bins s ! b)]\<rparr>))))"

definition RemoveFreeChunkFromBin :: "handle \<Rightarrow> 'm bfc \<Rightarrow> exn + 'm bfc" where
  "RemoveFreeChunkFromBin h s =
     defined_if (valid_handle s h)
       (case c_bin_num (b_chunks s ! h) of
          None \<Rightarrow> Inl EnforceFailed
        | Some b \<Rightarrow>
            enforce (\<not> c_in_use (b_chunks s ! h))
              (defined_if (b < length (b_bins s))
                (enforce (bin_count (b_chunks s) h (b_bins s ! b) > 0)
                  (Inr (upd_chunk h (\<lambda>c. c\<lparr>c_bin_num := None\<rparr>)
                     (s\<lparr>b_bins := (b_bins s)[b := bin_erase (b_chunks s) h (b_bins s ! b)]\<rparr>))))))"

text \<open>Splits off everything behind the first \<open>num_bytes\<close> as a free chunk of its own.\<close>

definition SplitChunk :: "handle \<Rightarrow> nat \<Rightarrow> 'm bfc \<Rightarrow> exn + 'm bfc" where
  "SplitChunk h num_bytes s =
     bindE (AllocateChunk s) (\<lambda>(h_new, s1).
       defined_if (valid_handle s1 h \<and> valid_handle s1 h_new)
         (enforce (\<not> c_in_use (b_chunks s1 ! h) \<and> c_bin_num (b_chunks s1 ! h) = None)
           (let c = b_chunks s1 ! h; new_ptr = c_ptr c + num_bytes
            in bindE (rm_set_handle new_ptr (Some h_new) (b_regions s1)) (\<lambda>rs.
                 let s2 = upd_chunk h_new (\<lambda>n. n\<lparr>c_ptr := new_ptr,
                            c_size := size_wrap (c_size c + 2 ^ 64 - num_bytes),
                            c_allocation_id := -1, c_freed_at_count := c_freed_at_count c,
                            c_prev := Some h, c_next := c_next c\<rparr>) (s1\<lparr>b_regions := rs\<rparr>);
                     s3 = upd_chunk h (\<lambda>c. c\<lparr>c_size := num_bytes, c_next := Some h_new\<rparr>) s2
                 in case c_next c of
                      None \<Rightarrow> InsertFreeChunkIntoBin h_new s3
                    | Some h_neighbor \<Rightarrow>
                        defined_if (valid_handle s3 h_neighbor)
                          (InsertFreeChunkIntoBin h_new
                            (upd_chunk h_neighbor (\<lambda>c. c\<lparr>c_prev := Some h_new\<rparr>) s3))))))"

text \<open>Merges the second chunk into the first one.\<close>

definition Merge :: "handle \<Rightarrow> handle \<Rightarrow> 'm bfc \<Rightarrow> exn + 'm bfc" where
  "Merge h1 h2 s =
     defined_if (valid_handle s h1 \<and> valid_handle s h2)
       (let c1 = b_chunks s ! h1; c2 = b_chunks s ! h2
        in enforce (\<not> c_in_use c1 \<and> \<not> c_in_use c2)
          (let s1 = upd_chunk h1 (\<lambda>c. c\<lparr>c_next := c_next c2\<rparr>) s
           in enforce (c_prev c2 = Some h1)
             (bindE (case c_next c2 of
                       None \<Rightarrow> Inr s1
                     | Some h3 \<Rightarrow> defined_if (valid_handle s1 h3)
                                   (Inr (upd_chunk h3 (\<lambda>c. c\<lparr>c_prev := Some h1\<rparr>) s1)))
               (\<lambda>s2. DeleteChunk h2
                  (upd_chunk h1 (\<lambda>c. c\<lparr>c_size := size_wrap (c_size c + c_size c2),
                     c_freed_at_count := max (c_freed_at_count c) (c_freed_at_count c2)\<rparr>) s2)))))"

definition MarkFree :: "handle \<Rightarrow> 'm bfc \<Rightarrow> exn + 'm bfc" where
  "MarkFree h s =
     defined_if (valid_handle s h)
       (enforce (c_in_use (b_chunks s ! h) \<and> c_bin_num (b_chunks s ! h) = None)
          (Inr ((upd_chunk h (\<lambda>c. c\<lparr>c_allocation_id := -1\<rparr>) s)
                 \<lparr>b_stats := (b_stats s)\<lparr>st_bytes_in_use :=
                    st_bytes_in_use (b_stats s) - int (c_size (b_chunks s ! h))\<rparr>\<rparr>)))"

text \<open>One side of the coalescing: whether the neighbour may be merged.\<close>

definition may_merge :: "'m bfc \<Rightarrow> handle option \<Rightarrow> bool \<Rightarrow> bool" where
  "may_merge s neighbour ignore_freed_at =
     (case neighbour of
        None \<Rightarrow> False
      | Some n \<Rightarrow> \<not> c_in_use (b_chunks s ! n) \<and>
                  (c_freed_at_count (b_chunks s ! n) = 0 \<or> ignore_freed_at))"

definition TryToCoalesce :: "handle \<Rightarrow> bool \<Rightarrow> 'm bfc \<Rightarrow> exn + handle \<times> 'm bfc" where
  "TryToCoalesce h ignore_freed_at s =
     defined_if (valid_handle s h)
       (if \<not> ignore_freed_at \<and> c_freed_at_count (b_chunks s ! h) > 0 then Inr (h, s)
        else bindE
          (case c_next (b_chunks s ! h) of
             None \<Rightarrow> Inr s
           | Some n \<Rightarrow> defined_if (valid_handle s n)
               (if may_merge s (Some n) ignore_freed_at
                then bindE (RemoveFreeChunkFromBin n s) (Merge h n) else Inr s))
          (\<lambda>s1. case c_prev (b_chunks s1 ! h) of
             None \<Rightarrow> Inr (h, s1)
           | Some p \<Rightarrow> defined_if (valid_handle s1 p)
               (if may_merge s1 (Some p) ignore_freed_at
                then bindE (RemoveFreeChunkFromBin p s1) (\<lambda>s2.
                       bindE (Merge p h s2) (\<lambda>s3. Inr (p, s3)))
                else Inr (h, s1))))"

section \<open>Allocation\<close>

text \<open>The first chunk that is large enough, bin by bin from the given one on.\<close>

function find_fit :: "'m bfc \<Rightarrow> nat \<Rightarrow> nat \<Rightarrow> (nat \<times> handle) option" where
  "find_fit s rounded_bytes bin_num =
     (if bin_num < kNumBins then
        (case List.find (\<lambda>h. c_size (b_chunks s ! h) \<ge> rounded_bytes) (b_bins s ! bin_num) of
           Some h \<Rightarrow> Some (bin_num, h)
         | None \<Rightarrow> find_fit s rounded_bytes (Suc bin_num))
      else None)"
  by pat_completeness auto
termination
  by (relation "measure (\<lambda>(s, r, b). kNumBins - b)") auto

declare find_fit.simps [simp del]

definition max_internal_fragmentation_bytes :: "'m bfc \<Rightarrow> nat" where
  "max_internal_fragmentation_bytes s =
     (if opt_fragmentation_fraction (b_opts s) > 0
      then nat \<lfloor>opt_fragmentation_fraction (b_opts s) * of_nat (b_memory_limit s)\<rfloor>
      else 128 * 2 ^ 20)"

definition use_chunk :: "handle \<Rightarrow> nat \<Rightarrow> 'm bfc \<Rightarrow> addr \<times> 'm bfc" where
  "use_chunk h num_bytes s =
     (let bytes = int (c_size (b_chunks s ! h)); st = b_stats s; in_use = st_bytes_in_use st + bytes
      in (c_ptr (b_chunks s ! h),
          (upd_chunk h (\<lambda>c. c\<lparr>c_requested_size := num_bytes,
                              c_allocation_id := b_next_allocation_id s\<rparr>) s)
            \<lparr>b_next_allocation_id := b_next_allocation_id s + 1,
             b_stats := st\<lparr>st_num_allocs := st_num_allocs st + 1,
                st_bytes_in_use := in_use,
                st_peak_bytes_in_use := max (st_peak_bytes_in_use st) in_use,
                st_largest_alloc_size := max (st_largest_alloc_size st) bytes\<rparr>\<rparr>))"

definition FindChunkPtr :: "nat \<Rightarrow> nat \<Rightarrow> nat \<Rightarrow> 'm bfc \<Rightarrow> exn + addr option \<times> 'm bfc" where
  "FindChunkPtr bin_num rounded_bytes num_bytes s =
     (case find_fit s rounded_bytes bin_num of
        None \<Rightarrow> Inr (None, s)
      | Some (b, h) \<Rightarrow>
          bindE (RemoveFreeChunkIterFromBin b h s) (\<lambda>s1.
            let bytes = c_size (b_chunks s1 ! h)
            in bindE
                (if bytes \<ge> size_wrap (rounded_bytes * 2) \<or>
                    size_wrap (bytes + 2 ^ 64 - rounded_bytes) \<ge> max_internal_fragmentation_bytes s1
                 then SplitChunk h rounded_bytes s1 else Inr s1)
                (\<lambda>s2. case use_chunk h num_bytes s2 of (p, s3) \<Rightarrow> Inr (Some p, s3))))"

text \<open>
  The size of the next region is doubled until it suffices. The product wraps, so the loop need not
  end: \<open>None\<close> is a loop that runs forever.
\<close>

partial_function (option) grow_curr :: "nat \<Rightarrow> nat \<Rightarrow> bool \<Rightarrow> (nat \<times> bool) option" where
  "grow_curr rounded_bytes region_bytes increased =
     (if rounded_bytes > region_bytes then grow_curr rounded_bytes (size_wrap (region_bytes * 2)) True
      else Some (region_bytes, increased))"

declare grow_curr.simps [code]

text \<open>The last chunk of a chain, by following the links. A chain that visits more chunks than there
  are is cyclic, and the loop then runs forever.\<close>

fun last_in_chain :: "chunk list \<Rightarrow> nat \<Rightarrow> handle \<Rightarrow> exn + handle" where
  "last_in_chain cs 0 h = Inl Diverges"
| "last_in_chain cs (Suc fuel) h =
     defined_if (h < length cs)
       (case c_next (cs ! h) of None \<Rightarrow> Inr h | Some n \<Rightarrow> last_in_chain cs fuel n)"

definition available_bytes :: "'m bfc \<Rightarrow> nat" where
  "available_bytes s =
     size_wrap (b_memory_limit s + 2 ^ 64 - b_total_region_allocated_bytes s)
       div kMinAllocationSize * kMinAllocationSize"

text \<open>The chunk for a new region, linked behind the last chunk of an extended one.\<close>

definition new_region_chunk :: "addr \<Rightarrow> nat \<Rightarrow> nat option \<Rightarrow> 'm bfc \<Rightarrow> exn + handle \<times> 'm bfc" where
  "new_region_chunk mem_addr bytes extended s =
     bindE (AllocateChunk s) (\<lambda>(h, s1).
       let s2 = upd_chunk h (\<lambda>c. c\<lparr>c_ptr := mem_addr, c_size := bytes, c_allocation_id := -1,
                  c_prev := None, c_next := None, c_freed_at_count := 0\<rparr>) s1
       in bindE (rm_set_handle mem_addr (Some h) (b_regions s2)) (\<lambda>rs.
         let s3 = s2\<lparr>b_regions := rs\<rparr>
         in case extended of
              None \<Rightarrow> Inr (h, s3)
            | Some i \<Rightarrow>
                bindE (r_get_handle (b_regions s3 ! i) (r_ptr (b_regions s3 ! i))) (\<lambda>first.
                  case first of
                    None \<Rightarrow> Inl UndefinedBehaviour
                  | Some f \<Rightarrow>
                      bindE (last_in_chain (b_chunks s3) (Suc (length (b_chunks s3))) f) (\<lambda>prev.
                        Inr (h, upd_chunk prev (\<lambda>c. c\<lparr>c_next := Some h\<rparr>)
                                  (upd_chunk h (\<lambda>c. c\<lparr>c_prev := Some prev\<rparr>) s3))))))"

definition Extend :: "'m sub_alloc \<Rightarrow> nat \<Rightarrow> 'm bfc \<Rightarrow> exn + bool \<times> 'm bfc" where
  "Extend sub_alloc rounded_bytes s =
     (if rounded_bytes > available_bytes s then Inr (False, s)
      else case grow_curr rounded_bytes (b_curr_region_allocation_bytes s) False of
        None \<Rightarrow> Inl Diverges
      | Some (region_bytes, increased) \<Rightarrow>
          let bytes = min region_bytes (available_bytes s)
          in case sub_alloc bytes (b_mem s) of
               (None, mem) \<Rightarrow>
                 Inr (False, s\<lparr>b_curr_region_allocation_bytes := region_bytes, b_mem := mem\<rparr>)
             | (Some mem_addr, mem) \<Rightarrow>
                 let (extended, rs) =
                       (if b_coalesce_regions s then AddOrExtendAllocationRegion mem_addr bytes (b_regions s)
                        else (None, AddAllocationRegion mem_addr bytes (b_regions s)));
                     s1 = s\<lparr>b_curr_region_allocation_bytes :=
                              (if increased then region_bytes else size_wrap (region_bytes * 2)),
                            b_total_region_allocated_bytes :=
                              size_wrap (b_total_region_allocated_bytes s + bytes),
                            b_regions := rs, b_mem := mem\<rparr>
                 in bindE (new_region_chunk mem_addr bytes extended s1) (\<lambda>(h, s2).
                      bindE (TryToCoalesce h False s2) (\<lambda>(h', s3).
                        bindE (InsertFreeChunkIntoBin h' s3) (\<lambda>s4. Inr (True, s4)))))"

section \<open>Giving regions back\<close>

text \<open>Whether a chunk of the chain is in use.\<close>

fun any_use :: "chunk list \<Rightarrow> nat \<Rightarrow> handle option \<Rightarrow> exn + bool" where
  "any_use cs fuel None = Inr False"
| "any_use cs 0 (Some h) = Inl Diverges"
| "any_use cs (Suc fuel) (Some h) =
     defined_if (h < length cs)
       (if c_in_use (cs ! h) then Inr True else any_use cs fuel (c_next (cs ! h)))"

fun free_regions :: "'m bfc \<Rightarrow> region list \<Rightarrow> exn + addr list \<times> nat" where
  "free_regions s [] = Inr ([], 0)"
| "free_regions s (r # rs) =
     bindE (rm_get_handle (b_regions s) (r_ptr r)) (\<lambda>h.
       bindE (any_use (b_chunks s) (length (b_chunks s)) h) (\<lambda>used.
         bindE (free_regions s rs) (\<lambda>(ptrs, total).
           Inr (if used then (ptrs, total) else (r_ptr r # ptrs, size_wrap (r_memory_size r + total))))))"

fun delete_chain :: "nat \<Rightarrow> handle option \<Rightarrow> 'm bfc \<Rightarrow> exn + 'm bfc" where
  "delete_chain fuel None s = Inr s"
| "delete_chain 0 (Some h) s = Inl Diverges"
| "delete_chain (Suc fuel) (Some h) s =
     defined_if (valid_handle s h)
       (let next_h = c_next (b_chunks s ! h)
        in bindE (if c_bin_num (b_chunks s ! h) \<noteq> None then RemoveFreeChunkFromBin h s else Inr s)
             (\<lambda>s1. bindE (DeleteChunk h s1) (delete_chain fuel next_h)))"

text \<open>The loop over the regions; the position is the iterator.\<close>

function DeallocateRegions_from :: "'m sub_free \<Rightarrow> addr list \<Rightarrow> nat \<Rightarrow> nat \<Rightarrow> 'm bfc \<Rightarrow> exn + 'm bfc" where
  "DeallocateRegions_from sub_free region_ptrs todo i s =
     (if todo = 0 \<or> \<not> i < length (b_regions s) then Inr s
      else if r_ptr (b_regions s ! i) \<notin> set region_ptrs
      then DeallocateRegions_from sub_free region_ptrs (todo - 1) (Suc i) s
      else bindE (rm_get_handle (b_regions s) (r_ptr (b_regions s ! i))) (\<lambda>h.
             bindE (delete_chain (length (b_chunks s)) h s) (\<lambda>s1.
               let r = b_regions s1 ! i
               in DeallocateRegions_from sub_free region_ptrs (todo - 1) i
                    (s1\<lparr>b_mem := sub_free (r_ptr r) (r_memory_size r) (b_mem s1),
                        b_total_region_allocated_bytes :=
                          size_wrap (b_total_region_allocated_bytes s1 + 2 ^ 64 - r_memory_size r),
                        b_regions := take i (b_regions s1) @ drop (Suc i) (b_regions s1)\<rparr>))))"
  by pat_completeness auto
termination
  by (relation "measure (\<lambda>(f, ps, todo, i, s). todo)") auto

declare DeallocateRegions_from.simps [simp del]

definition DeallocateRegions :: "'m sub_free \<Rightarrow> addr list \<Rightarrow> 'm bfc \<Rightarrow> exn + 'm bfc" where
  "DeallocateRegions sub_free region_ptrs s =
     DeallocateRegions_from sub_free region_ptrs (length (b_regions s)) 0 s"

definition DeallocateAllRegions :: "'m sub_free \<Rightarrow> 'm bfc \<Rightarrow> exn + bool \<times> 'm bfc" where
  "DeallocateAllRegions sub_free s =
     bindE (DeallocateRegions sub_free (map r_ptr (b_regions s)) s) (\<lambda>s'. Inr (True, s'))"

definition DeallocateFreeRegions :: "'m sub_free \<Rightarrow> nat \<Rightarrow> 'm bfc \<Rightarrow> exn + bool \<times> 'm bfc" where
  "DeallocateFreeRegions sub_free rounded_bytes s =
     (if \<not> opt_garbage_collection (b_opts s) then Inr (False, s)
      else bindE (free_regions s (b_regions s)) (\<lambda>(free_region_ptrs, total_free_bytes).
        if total_free_bytes = 0 then Inr (False, s)
        else if rounded_bytes >
            size_wrap (b_memory_limit s + 2 ^ 64 - b_total_region_allocated_bytes s + total_free_bytes)
        then Inr (False, s)
        else bindE (DeallocateRegions sub_free free_region_ptrs s) (\<lambda>s'. Inr (True, s'))))"

section \<open>The interface\<close>

definition AllocateRawInternal ::
  "'m sub_alloc \<Rightarrow> 'm sub_free \<Rightarrow> nat \<Rightarrow> 'm bfc \<Rightarrow> exn + addr option \<times> 'm bfc" where
  "AllocateRawInternal sub_alloc sub_free num_bytes s =
     (if num_bytes = 0 then Inr (None, s)
      else
        let rounded_bytes = RoundedBytes num_bytes; bin_num = BinNumForSize rounded_bytes;
            retry = (\<lambda>s. bindE (DeallocateFreeRegions sub_free rounded_bytes s) (\<lambda>(freed, s3).
                if \<not> freed then Inr (None, s3)
                else bindE (Extend sub_alloc rounded_bytes s3) (\<lambda>(extended, s4).
                  if \<not> extended then Inr (None, s4)
                  else FindChunkPtr bin_num rounded_bytes num_bytes s4)))
        in bindE (FindChunkPtr bin_num rounded_bytes num_bytes s) (\<lambda>(ptr, s1).
             if ptr \<noteq> None then Inr (ptr, s1)
             else bindE (Extend sub_alloc rounded_bytes s1) (\<lambda>(extended, s2).
               if \<not> extended then retry s2
               else bindE (FindChunkPtr bin_num rounded_bytes num_bytes s2) (\<lambda>(ptr, s3).
                 if ptr \<noteq> None then Inr (ptr, s3) else retry s3))))"

text \<open>Without \<open>BFC_DEBUG\<close> a failure is only logged.\<close>

definition AllocateRaw ::
  "'m sub_alloc \<Rightarrow> 'm sub_free \<Rightarrow> nat \<Rightarrow> 'm bfc \<Rightarrow> exn + addr option \<times> 'm bfc" where
  "AllocateRaw sub_alloc sub_free num_bytes s = AllocateRawInternal sub_alloc sub_free num_bytes s"

definition DeallocateRaw :: "addr \<Rightarrow> 'm bfc \<Rightarrow> exn + 'm bfc" where
  "DeallocateRaw ptr s =
     (if ptr = 0 then Inr s
      else bindE (rm_get_handle (b_regions s) ptr) (\<lambda>h.
        if h = Some 0 then Inr s
        else case h of
          None \<Rightarrow> Inl EnforceFailed
        | Some h \<Rightarrow>
            bindE (MarkFree h s) (\<lambda>s1.
              bindE (TryToCoalesce h False s1) (\<lambda>(h', s2). InsertFreeChunkIntoBin h' s2))))"

text \<open>The number of bytes is an \<open>int64_t\<close> that is passed on as \<open>size_t\<close>.\<close>

definition BFC_Alloc ::
  "'m sub_alloc \<Rightarrow> 'm sub_free \<Rightarrow> int \<Rightarrow> 'm bfc \<Rightarrow> exn + (as_status \<times> addr option) \<times> 'm bfc" where
  "BFC_Alloc sub_alloc sub_free nbytes s =
     bindE (AllocateRaw sub_alloc sub_free (nat (nbytes mod 2 ^ 64)) s) (\<lambda>(pp, s').
       Inr (case pp of
              None \<Rightarrow> ((ALLSPARK_MEMORY_ERROR, None), s')
            | Some p \<Rightarrow> ((ALLSPARK_SUCCESS, Some p), s')))"

definition BFC_Free :: "addr \<Rightarrow> 'm bfc \<Rightarrow> exn + as_status \<times> 'm bfc" where
  "BFC_Free ptr s = bindE (DeallocateRaw ptr s) (\<lambda>s'. Inr (ALLSPARK_SUCCESS, s'))"

definition chunk_of_ptr :: "addr \<Rightarrow> 'm bfc \<Rightarrow> exn + chunk" where
  "chunk_of_ptr ptr s =
     bindE (rm_get_handle (b_regions s) ptr) (\<lambda>h.
       case h of
         None \<Rightarrow> Inl EnforceFailed
       | Some h \<Rightarrow> defined_if (valid_handle s h) (Inr (b_chunks s ! h)))"

definition RequestedSize :: "addr \<Rightarrow> 'm bfc \<Rightarrow> exn + nat" where
  "RequestedSize ptr s = enforce (ptr \<noteq> 0) (bindE (chunk_of_ptr ptr s) (\<lambda>c. Inr (c_requested_size c)))"

definition AllocatedSize :: "addr \<Rightarrow> 'm bfc \<Rightarrow> exn + nat" where
  "AllocatedSize ptr s = bindE (chunk_of_ptr ptr s) (\<lambda>c. Inr (c_size c))"

definition AllocationId :: "addr \<Rightarrow> 'm bfc \<Rightarrow> exn + int" where
  "AllocationId ptr s = bindE (chunk_of_ptr ptr s) (\<lambda>c. Inr (c_allocation_id c))"

text \<open>The size of the last chunk of the last bin that is not empty.\<close>

definition LargestFreeChunk :: "'m bfc \<Rightarrow> nat" where
  "LargestFreeChunk s =
     (case List.find (\<lambda>b. b_bins s ! b \<noteq> []) (rev [0..<kNumBins]) of
        None \<Rightarrow> 0
      | Some b \<Rightarrow> c_size (b_chunks s ! last (b_bins s ! b)))"

definition ClearStats :: "'m bfc \<Rightarrow> 'm bfc" where
  "ClearStats s = s\<lparr>b_stats := (b_stats s)\<lparr>st_num_allocs := 0,
     st_peak_bytes_in_use := st_bytes_in_use (b_stats s), st_largest_alloc_size := 0\<rparr>\<rparr>"

definition RealFree :: "'m sub_free \<Rightarrow> 'm bfc \<Rightarrow> exn + 'm bfc" where
  "RealFree sub_free s = bindE (DeallocateFreeRegions sub_free 0 s) (\<lambda>(_, s'). Inr s')"

definition FreeAll :: "'m sub_free \<Rightarrow> 'm bfc \<Rightarrow> exn + 'm bfc" where
  "FreeAll sub_free s = bindE (DeallocateAllRegions sub_free s) (\<lambda>(_, s'). Inr s')"

section \<open>The debugging summary\<close>

record bin_debug_info =
  bd_total_bytes_in_use :: nat
  bd_total_bytes_in_bin :: nat
  bd_total_requested_bytes_in_use :: nat
  bd_total_chunks_in_use :: nat
  bd_total_chunks_in_bin :: nat

definition bin_debug_init :: bin_debug_info where
  "bin_debug_init = \<lparr>bd_total_bytes_in_use = 0, bd_total_bytes_in_bin = 0,
     bd_total_requested_bytes_in_use = 0, bd_total_chunks_in_use = 0, bd_total_chunks_in_bin = 0\<rparr>"

definition bin_debug_add :: "chunk \<Rightarrow> bin_debug_info \<Rightarrow> bin_debug_info" where
  "bin_debug_add c bd =
     (let bd1 = bd\<lparr>bd_total_bytes_in_bin := bd_total_bytes_in_bin bd + c_size c,
                   bd_total_chunks_in_bin := bd_total_chunks_in_bin bd + 1\<rparr>
      in if c_in_use c then
           bd1\<lparr>bd_total_bytes_in_use := bd_total_bytes_in_use bd + c_size c,
               bd_total_requested_bytes_in_use := bd_total_requested_bytes_in_use bd + c_requested_size c,
               bd_total_chunks_in_use := bd_total_chunks_in_use bd + 1\<rparr>
         else bd1)"

fun debug_chain :: "'m bfc \<Rightarrow> nat \<Rightarrow> handle option \<Rightarrow> bin_debug_info list \<Rightarrow> exn + bin_debug_info list" where
  "debug_chain s fuel None infos = Inr infos"
| "debug_chain s 0 (Some h) infos = Inl Diverges"
| "debug_chain s (Suc fuel) (Some h) infos =
     defined_if (valid_handle s h)
       (let c = b_chunks s ! h; bin_num = BinNumForSize (c_size c)
        in enforce (c_in_use c \<or> bin_count (b_chunks s) h (b_bins s ! bin_num) = 1 \<and>
                    c_bin_num c = Some bin_num)
             (debug_chain s fuel (c_next c) (infos[bin_num := bin_debug_add c (infos ! bin_num)])))"

fun debug_regions :: "'m bfc \<Rightarrow> region list \<Rightarrow> bin_debug_info list \<Rightarrow> exn + bin_debug_info list" where
  "debug_regions s [] infos = Inr infos"
| "debug_regions s (r # rs) infos =
     bindE (rm_get_handle (b_regions s) (r_ptr r)) (\<lambda>h.
       bindE (debug_chain s (length (b_chunks s)) h infos) (debug_regions s rs))"

definition get_bin_debug_info :: "'m bfc \<Rightarrow> exn + bin_debug_info list" where
  "get_bin_debug_info s = debug_regions s (b_regions s) (replicate kNumBins bin_debug_init)"

end
