(* ===== verification/BFC_Sizes.thy ===== *)
theory BFC_Sizes
  imports BFC_Allocator
begin

text \<open>
  The arithmetic of the allocator: rounding, the logarithm by counting zero bits, the bins, and
  the doubling of the region size.
\<close>

section \<open>Rounding\<close>

lemma size_wrap_less [simp]: "n < 2 ^ 64 \<Longrightarrow> size_wrap n = n"
  by (simp add: size_wrap_def)

lemma size_wrap_bound [simp]: "size_wrap n < 2 ^ 64"
  by (simp add: size_wrap_def)

lemma size_wrap_diff: "m \<le> n \<Longrightarrow> n < 2 ^ 64 \<Longrightarrow> size_wrap (n + 2 ^ 64 - m) = n - m"
proof -
  assume *: "m \<le> n" "n < 2 ^ 64"
  then have "n + 2 ^ 64 - m = (n - m) + 2 ^ 64" by simp
  then have "size_wrap (n + 2 ^ 64 - m) = (n - m) mod 2 ^ 64"
    by (simp only: size_wrap_def mod_add_self2)
  then show ?thesis using * by simp
qed

lemma RoundedBytes_eq:
  assumes "bytes + 255 < 2 ^ 64"
  shows "RoundedBytes bytes = 256 * ((bytes + 255) div 256)"
proof -
  have "size_wrap (bytes + 256 + (2 ^ 64 - 1)) = bytes + 255"
    using size_wrap_diff [of 0 "bytes + 255"] assms by (simp add: add.commute add.left_commute)
  moreover have "256 * ((bytes + 255) div 256) < 2 ^ 64"
    using assms by (meson le_less_trans times_div_less_eq_dividend)
  ultimately show ?thesis
    by (simp add: RoundedBytes_def bfc_consts del: power_numeral) (simp add: size_wrap_less)
qed

lemma RoundedBytes_bounds:
  assumes "bytes + 255 < 2 ^ 64"
  shows "bytes \<le> RoundedBytes bytes" "RoundedBytes bytes < bytes + 256" "256 dvd RoundedBytes bytes"
    "0 < bytes \<Longrightarrow> 256 \<le> RoundedBytes bytes"
proof -
  have e: "RoundedBytes bytes = 256 * ((bytes + 255) div 256)" using assms by (rule RoundedBytes_eq)
  have "256 * ((bytes + 255) div 256) + (bytes + 255) mod 256 = bytes + 255" by simp
  moreover have "(bytes + 255) mod 256 < (256 :: nat)" by simp
  ultimately show "bytes \<le> RoundedBytes bytes" "RoundedBytes bytes < bytes + 256"
    unfolding e by linarith+
  show "256 dvd RoundedBytes bytes" unfolding e by simp
  show "256 \<le> RoundedBytes bytes" if "0 < bytes"
    using that \<open>bytes \<le> RoundedBytes bytes\<close> \<open>256 dvd RoundedBytes bytes\<close> by (auto elim!: dvdE)
qed

section \<open>The logarithm\<close>

lemma xor_63: "x < 64 \<Longrightarrow> 63 XOR x = 63 - (x :: nat)"
proof -
  have "\<forall>x\<in>set [0..<64]. 63 XOR x = 63 - (x :: nat)" by code_simp
  then show "x < 64 \<Longrightarrow> ?thesis" by simp
qed

lemma clzll_eq:
  assumes "2 ^ k \<le> n" "n < 2 ^ Suc k" "k < 64"
  shows "clzll n = 63 - k"
proof -
  have split: "rev [0..<64] = rev [Suc k..<64] @ k # rev [0..<k]"
  proof -
    have "[0..<64] = [0..<k] @ [k..<64]"
      using assms(3) upt_add_eq_append [of 0 k "64 - k"] by simp
    also have "[k..<64] = k # [Suc k..<64]" using assms(3) by (simp add: upt_conv_Cons)
    finally show ?thesis by (simp only: rev_append rev.simps append.assoc append.simps)
  qed
  have high: "\<not> bit n i" if "i \<in> set (rev [Suc k..<64])" for i
  proof -
    have "(2 :: nat) ^ Suc k \<le> 2 ^ i" using that by (intro power_increasing) auto
    with assms(2) have "n < 2 ^ i" by simp
    then show ?thesis by (simp add: bit_iff_odd)
  qed
  have "n div 2 ^ k = 1" using assms(1,2) by (intro div_nat_eqI) simp_all
  then have "bit n k" by (simp add: bit_iff_odd)
  then show ?thesis
    unfolding clzll_def split by (subst takeWhile_append2) (use high assms(3) in auto)
qed

lemma Log2FloorNonZero_eq:
  assumes "2 ^ k \<le> n" "n < 2 ^ Suc k" "k < 64"
  shows "Log2FloorNonZero n = k"
proof -
  have "Log2FloorNonZero n = 63 XOR (63 - k)"
    using assms by (simp only: Log2FloorNonZero_def clzll_eq)
  also have "\<dots> = 63 - (63 - k)" using assms(3) by (intro xor_63) simp
  also have "\<dots> = k" using assms(3) by simp
  finally show ?thesis .
qed

lemma log2_obtain:
  fixes n :: nat
  assumes "0 < n" "n < 2 ^ 64"
  obtains k where "2 ^ k \<le> n" "n < 2 ^ Suc k" "k < 64"
proof -
  obtain k where k: "2 ^ k \<le> n" "n < 2 ^ (k + 1)"
    using ex_power_ivl1 [of 2 n] assms(1) by auto
  have "(2 :: nat) ^ k < 2 ^ 64" using k(1) assms(2) by (rule le_less_trans)
  then have "k < 64" by (rule power_less_imp_less_exp [rotated]) simp
  with k show thesis by (intro that [of k]) simp_all
qed

lemma log2_slow_loop_eq: "2 ^ k \<le> n \<Longrightarrow> n < 2 ^ Suc k \<Longrightarrow> log2_slow_loop n r = r + int k + 1"
proof (induction k arbitrary: n r)
  case 0
  then have "n = 1" by simp
  then show ?case
    by (simp add: log2_slow_loop.simps [of "Suc 0"] log2_slow_loop.simps [of 0] drop_bit_eq_div)
next
  case (Suc k)
  then have "0 < n" "2 ^ k \<le> drop_bit 1 n" "drop_bit 1 n < 2 ^ Suc k"
    by (auto simp: drop_bit_eq_div less_mult_imp_div_less intro: le_less_trans)
  with Suc.IH [of "drop_bit 1 n" "r + 1"] show ?case
    by (simp add: log2_slow_loop.simps [of n])
qed

section \<open>Bins\<close>

lemma BinNumForSize_eq:
  assumes "2 ^ k \<le> max x 256 div 256" "max x 256 div 256 < 2 ^ Suc k" "x < 2 ^ 64"
  shows "BinNumForSize x = min 20 k"
proof -
  have "max x 256 div 256 < 2 ^ 64" using assms(3) by simp
  then have "(2 :: nat) ^ k < 2 ^ 64" using assms(1) by (rule le_less_trans [rotated])
  then have "k < 64" by (rule power_less_imp_less_exp [rotated]) simp
  then show ?thesis
    using Log2FloorNonZero_eq [OF assms(1,2)]
    by (simp add: BinNumForSize_def bfc_consts drop_bit_eq_div)
qed

lemma BinNumForSize_range:
  assumes "256 * 2 ^ k \<le> x" "x < 256 * 2 ^ Suc k" "x < 2 ^ 64"
  shows "BinNumForSize x = min 20 k"
proof (rule BinNumForSize_eq [OF _ _ assms(3)])
  have "1 \<le> (2 :: nat) ^ k" by simp
  then have "256 \<le> x" using assms(1) by linarith
  then have m: "max x 256 = x" by simp
  show "2 ^ k \<le> max x 256 div 256" "max x 256 div 256 < 2 ^ Suc k"
    using assms(1,2) unfolding m by (simp_all add: less_eq_div_iff_mult_less_eq div_less_iff_less_mult
        mult.commute)
qed

lemma BinNumForSize_bounds:
  assumes "x < 2 ^ 64"
  shows "BinNumForSize x < 21" "256 * 2 ^ BinNumForSize x \<le> max x 256"
    "BinNumForSize x < 20 \<Longrightarrow> max x 256 < 256 * 2 ^ Suc (BinNumForSize x)"
proof -
  have "0 < max x 256 div 256" "max x 256 div 256 < 2 ^ 64" using assms by (simp_all add: div_greater_zero_iff)
  then obtain k where k: "2 ^ k \<le> max x 256 div 256" "max x 256 div 256 < 2 ^ Suc k"
    by (rule log2_obtain)
  note b = BinNumForSize_eq [OF k assms]
  show "BinNumForSize x < 21" using b by simp
  have "(2 :: nat) ^ BinNumForSize x \<le> 2 ^ k" using b by (intro power_increasing) auto
  then have "2 ^ BinNumForSize x \<le> max x 256 div 256" using k(1) by (rule le_trans)
  then show "256 * 2 ^ BinNumForSize x \<le> max x 256" by linarith
  show "max x 256 < 256 * 2 ^ Suc (BinNumForSize x)" if "BinNumForSize x < 20"
    using b k(2) that by (simp add: min_def split: if_splits) linarith
qed

lemma BinNumForSize_mono: "x \<le> y \<Longrightarrow> y < 2 ^ 64 \<Longrightarrow> BinNumForSize x \<le> BinNumForSize y"
proof (rule ccontr)
  assume *: "x \<le> y" "y < 2 ^ 64" "\<not> BinNumForSize x \<le> BinNumForSize y"
  then have x: "x < 2 ^ 64" by simp
  have lt: "BinNumForSize y < BinNumForSize x" using * by simp
  then have "(2 :: nat) ^ Suc (BinNumForSize y) \<le> 2 ^ BinNumForSize x" by (intro power_increasing) auto
  moreover have "BinNumForSize y < 20" using lt BinNumForSize_bounds(1) [OF x] by simp
  ultimately have "max y 256 < max x 256"
    using BinNumForSize_bounds(3) [OF *(2)] BinNumForSize_bounds(2) [OF x] by linarith
  with *(1) show False by (simp add: max_def split: if_splits)
qed

lemma BinNumToSize_eq: "b < 21 \<Longrightarrow> BinNumToSize b = 256 * 2 ^ b"
proof -
  assume b: "b < 21"
  have "256 * 2 ^ b \<le> (256 :: nat) * 2 ^ 20" using b by (intro mult_left_mono power_increasing) auto
  then have "256 * 2 ^ b < (2 :: nat) ^ 64" by simp
  then show ?thesis by (simp add: BinNumToSize_def push_bit_eq_mult)
qed

lemma bin_checks_hold: "b < 21 \<Longrightarrow> bin_checks b"
proof -
  assume b: "b < 21"
  have "(2 :: nat) ^ b \<le> 2 ^ 20" using b by (intro power_increasing) auto
  then have small: "256 * 2 ^ b \<le> (2 :: nat) ^ 28" "256 * 2 ^ b * 2 \<le> (2 :: nat) ^ 29" by simp_all
  define m :: nat where "m = 2 ^ b"
  have m: "0 < m" "2 ^ b = m" "2 ^ Suc b = 2 * m" "2 ^ Suc (Suc b) = 4 * m" by (simp_all add: m_def)
  have lt: "m * 512 + 255 < 2 ^ 64" using small by (simp add: m_def)
  have "BinNumForSize (256 * m) = min 20 b"
    using lt m(1) by (intro BinNumForSize_range; (unfold m)?) simp_all
  moreover have "BinNumForSize (256 * m + 255) = min 20 b"
    using lt m(1) by (intro BinNumForSize_range; (unfold m)?) simp_all
  moreover have "BinNumForSize (256 * m * 2 - 1) = min 20 b"
    using lt m(1) by (intro BinNumForSize_range; (unfold m)?) simp_all
  moreover have "BinNumForSize (256 * m * 2) = min 20 (Suc b)"
    using lt m(1) by (intro BinNumForSize_range; (unfold m)?) simp_all
  ultimately show ?thesis using b by (simp add: bin_checks_def BinNumToSize_eq Let_def bfc_consts m(2))
qed

section \<open>The doubling loop\<close>

lemma grow_curr_stop: "\<not> rounded > c \<Longrightarrow> grow_curr rounded c inc = Some (c, inc)"
  by (simp add: grow_curr.simps)

text \<open>From a positive size the loop ends, for any request of up to half of the address space.\<close>

lemma grow_curr_ends:
  assumes "0 < c" "c < 2 ^ 64" "rounded \<le> 2 ^ 63"
  shows "\<exists>c' inc'. grow_curr rounded c inc = Some (c', inc') \<and> rounded \<le> c' \<and> c \<le> c' \<and> c' < 2 ^ 64 \<and>
    (256 dvd c \<longrightarrow> 256 dvd c') \<and> (inc' \<longleftrightarrow> inc \<or> c < rounded) \<and> (\<not> c < rounded \<longrightarrow> c' = c) \<and>
    (c < rounded \<longrightarrow> c' < 2 * rounded)"
  using assms
proof (induction "rounded - c" arbitrary: c inc rule: less_induct)
  case less
  show ?case
  proof (cases "c < rounded")
    case False
    then show ?thesis using less.prems by (simp add: grow_curr_stop)
  next
    case True
    then have w: "size_wrap (c * 2) = c * 2" using less.prems by simp
    have "\<exists>c' inc'. grow_curr rounded (c * 2) True = Some (c', inc') \<and> rounded \<le> c' \<and> c * 2 \<le> c' \<and>
        c' < 2 ^ 64 \<and> (256 dvd c * 2 \<longrightarrow> 256 dvd c') \<and> (inc' \<longleftrightarrow> True \<or> c * 2 < rounded) \<and>
        (\<not> c * 2 < rounded \<longrightarrow> c' = c * 2) \<and> (c * 2 < rounded \<longrightarrow> c' < 2 * rounded)"
      using True less.prems by (intro less.hyps) simp_all
    then obtain c' inc' where r: "grow_curr rounded (c * 2) True = Some (c', inc')" "rounded \<le> c'" "c * 2 \<le> c'"
      "c' < 2 ^ 64" "256 dvd c * 2 \<longrightarrow> 256 dvd c'" "inc'" "\<not> c * 2 < rounded \<longrightarrow> c' = c * 2"
      "c * 2 < rounded \<longrightarrow> c' < 2 * rounded"
      by blast
    have "grow_curr rounded c inc = Some (c', inc')"
      using True w r(1) by (simp add: grow_curr.simps [of rounded c])
    moreover have "256 dvd c \<longrightarrow> 256 dvd c'" using r(5) dvd_mult2 [of 256 c 2] by blast
    moreover have "c' < 2 * rounded" using r(7,8) True by (cases "c * 2 < rounded") auto
    moreover have "c \<le> c'" using r(3) by simp
    ultimately show ?thesis using r(2,4,6) True by blast
  qed
qed

text \<open>From 0 it never ends.\<close>

lemma grow_curr_zero:
  assumes "0 < rounded"
  shows "grow_curr rounded 0 inc = None"
proof -
  have never: "c \<noteq> 0 \<or> r = 0" if "grow_curr r c i = Some x" for r c i x
    using that
  proof (rule grow_curr.raw_induct [where P = "\<lambda>r c i x. c \<noteq> 0 \<or> r = 0", rotated])
    fix g :: "nat \<Rightarrow> nat \<Rightarrow> bool \<Rightarrow> (nat \<times> bool) option" and r c i x
    assume IH: "\<And>r c i x. g r c i = Some x \<Longrightarrow> c \<noteq> 0 \<or> r = 0"
      and body: "(if c < r then g r (size_wrap (c * 2)) True else Some (c, i)) = Some x"
    show "c \<noteq> 0 \<or> r = 0"
    proof (rule ccontr)
      assume "\<not> (c \<noteq> 0 \<or> r = 0)"
      then have "g r 0 True = Some x" "r \<noteq> 0" using body by simp_all
      with IH [of r 0 True x] show False by simp
    qed
  qed
  show ?thesis using assms never [of rounded 0 inc] by (cases "grow_curr rounded 0 inc") auto
qed

end
