(* ===== verification/BFC_Invariant.thy ===== *)
theory BFC_Invariant
  imports BFC_Sizes
begin

text \<open>
  The invariant of the allocator. A layout \<open>L\<close> gives, for every region, the handles of its
  chunks in the order of their addresses; \<open>fl\<close> is the list of handles that are out of use.
  Between the steps of an operation a few free chunks are not filed in their bins yet: the set
  \<open>X\<close> of loose chunks.
\<close>

section \<open>Chains of chunks\<close>

lemma c_in_use_simps [simp]:
  "c_in_use (c\<lparr>c_size := a\<rparr>) = c_in_use c" "c_in_use (c\<lparr>c_requested_size := a\<rparr>) = c_in_use c"
  "c_in_use (c\<lparr>c_ptr := a\<rparr>) = c_in_use c" "c_in_use (c\<lparr>c_prev := p\<rparr>) = c_in_use c"
  "c_in_use (c\<lparr>c_next := p\<rparr>) = c_in_use c" "c_in_use (c\<lparr>c_bin_num := p\<rparr>) = c_in_use c"
  "c_in_use (c\<lparr>c_freed_at_count := a\<rparr>) = c_in_use c" "c_in_use (c\<lparr>c_allocation_id := i\<rparr>) = (i \<noteq> -1)"
  by (simp_all add: c_in_use_def)

fun head_or :: "handle list \<Rightarrow> handle option \<Rightarrow> handle option" where
  "head_or [] nx = nx"
| "head_or (h # hs) nx = Some h"

definition last_or :: "handle option \<Rightarrow> handle list \<Rightarrow> handle option" where
  "last_or pv hs = (if hs = [] then pv else Some (last hs))"

text \<open>The chunks cover the addresses from \<open>p\<close> to \<open>e\<close> without a gap and are linked to each
  other, with \<open>pv\<close> in front and \<open>nx\<close> behind.\<close>

fun chain :: "chunk list \<Rightarrow> handle option \<Rightarrow> addr \<Rightarrow> handle list \<Rightarrow> handle option \<Rightarrow> addr \<Rightarrow> bool" where
  "chain cs pv p [] nx e \<longleftrightarrow> p = e"
| "chain cs pv p (h # hs) nx e \<longleftrightarrow>
     h < length cs \<and> c_ptr (cs ! h) = p \<and> 0 < c_size (cs ! h) \<and> 256 dvd c_size (cs ! h) \<and>
     c_prev (cs ! h) = pv \<and> c_next (cs ! h) = head_or hs nx \<and>
     chain cs (Some h) (p + c_size (cs ! h)) hs nx e"

definition same_place :: "chunk list \<Rightarrow> chunk list \<Rightarrow> handle \<Rightarrow> bool" where
  "same_place cs cs' h \<longleftrightarrow> c_ptr (cs' ! h) = c_ptr (cs ! h) \<and> c_size (cs' ! h) = c_size (cs ! h) \<and>
     c_prev (cs' ! h) = c_prev (cs ! h) \<and> c_next (cs' ! h) = c_next (cs ! h)"

lemma same_place_refl [simp]: "cs' ! h = cs ! h \<Longrightarrow> same_place cs cs' h"
  by (simp add: same_place_def)

lemma chain_cong:
  "chain cs pv p hs nx e \<Longrightarrow> \<forall>h\<in>set hs. same_place cs cs' h \<Longrightarrow> length cs \<le> length cs' \<Longrightarrow>
   chain cs' pv p hs nx e"
  by (induction hs arbitrary: pv p) (auto simp: same_place_def)

lemma last_or_Nil [simp]: "last_or pv [] = pv"
  by (simp add: last_or_def)

lemma last_or_Cons [simp]: "last_or pv (h # hs) = last_or (Some h) hs"
  by (simp add: last_or_def)

lemma last_or_append [simp]: "last_or pv (A @ B) = last_or (last_or pv A) B"
  by (simp add: last_or_def)

lemma head_or_append [simp]: "head_or (A @ B) nx = head_or A (head_or B nx)"
  by (cases A) auto

lemma head_or_eq_Some:
  "head_or hs None = Some h \<longleftrightarrow> (\<exists>hs'. hs = h # hs')"
  by (cases hs) auto

lemma last_or_eq_Some: "last_or None hs = Some h \<longleftrightarrow> hs \<noteq> [] \<and> h = last hs"
  by (auto simp: last_or_def)

lemma chain_append:
  "chain cs pv p (A @ B) nx e \<longleftrightarrow>
   (\<exists>q. chain cs pv p A (head_or B nx) q \<and> chain cs (last_or pv A) q B nx e)"
  by (induction A arbitrary: pv p) auto

lemma chain_valid: "chain cs pv p hs nx e \<Longrightarrow> h \<in> set hs \<Longrightarrow> h < length cs"
  by (induction hs arbitrary: pv p) auto

lemma chain_end: "chain cs pv p hs nx e \<Longrightarrow> e = p + (\<Sum>h\<leftarrow>hs. c_size (cs ! h))"
  by (induction hs arbitrary: pv p) force+

lemma chain_le: "chain cs pv p hs nx e \<Longrightarrow> p \<le> e"
  by (induction hs arbitrary: pv p) force+

lemma chain_bounds:
  "chain cs pv p hs nx e \<Longrightarrow> h \<in> set hs \<Longrightarrow>
   p \<le> c_ptr (cs ! h) \<and> c_ptr (cs ! h) + c_size (cs ! h) \<le> e \<and> 0 < c_size (cs ! h) \<and>
   256 dvd c_size (cs ! h) \<and> 256 dvd c_ptr (cs ! h) - p"
proof (induction hs arbitrary: pv p)
  case (Cons x hs)
  show ?case
  proof (cases "h = x")
    case True
    then show ?thesis using Cons.prems chain_le [of cs "Some x"] by auto
  next
    case False
    let ?q = "p + c_size (cs ! x)"
    have d: "256 dvd c_size (cs ! x)" using Cons.prems by simp
    have "?q \<le> c_ptr (cs ! h) \<and> c_ptr (cs ! h) + c_size (cs ! h) \<le> e \<and> 0 < c_size (cs ! h) \<and>
        256 dvd c_size (cs ! h) \<and> 256 dvd c_ptr (cs ! h) - ?q"
      using Cons.IH [of "Some x" ?q] Cons.prems False by simp
    moreover from this have "c_ptr (cs ! h) - p = (c_ptr (cs ! h) - ?q) + c_size (cs ! x)" by simp
    ultimately show ?thesis using d by (metis add_leD1 dvd_add)
  qed
qed simp

lemma chain_disjoint:
  "chain cs pv p hs nx e \<Longrightarrow> a \<in> set hs \<Longrightarrow> b \<in> set hs \<Longrightarrow> a \<noteq> b \<Longrightarrow>
   c_ptr (cs ! a) + c_size (cs ! a) \<le> c_ptr (cs ! b) \<or> c_ptr (cs ! b) + c_size (cs ! b) \<le> c_ptr (cs ! a)"
proof (induction hs arbitrary: pv p)
  case (Cons x hs)
  then have c: "chain cs (Some x) (p + c_size (cs ! x)) hs nx e" "c_ptr (cs ! x) = p" by simp_all
  show ?case
    using Cons c chain_bounds [OF c(1)] by auto
qed simp

lemma chain_distinct: "chain cs pv p hs nx e \<Longrightarrow> distinct hs"
proof (induction hs arbitrary: pv p)
  case (Cons x hs)
  then have c: "chain cs (Some x) (p + c_size (cs ! x)) hs nx e" "c_ptr (cs ! x) = p"
    "0 < c_size (cs ! x)" by simp_all
  then have "x \<notin> set hs" using chain_bounds [OF c(1), of x] by auto
  with Cons c show ?case by auto
qed simp

section \<open>Regions\<close>

definition handles_of :: "handle list list \<Rightarrow> handle set" where
  "handles_of L = set (concat L)"

lemma handles_of_simps [simp]:
  "handles_of [] = {}" "handles_of (hs # L) = set hs \<union> handles_of L"
  "handles_of (L @ L') = handles_of L \<union> handles_of L'" "finite (handles_of L)"
  by (simp_all add: handles_of_def)

lemma mem_handles_of: "h \<in> handles_of L \<longleftrightarrow> (\<exists>hs\<in>set L. h \<in> set hs)"
  by (auto simp: handles_of_def)

lemma handles_ofI: "hs \<in> set L \<Longrightarrow> h \<in> set hs \<Longrightarrow> h \<in> handles_of L"
  by (auto simp: mem_handles_of)

definition region_ok :: "chunk list \<Rightarrow> region \<Rightarrow> handle list \<Rightarrow> bool" where
  "region_ok cs r hs \<longleftrightarrow>
     chain cs None (r_ptr r) hs None (r_end_ptr r) \<and> hs \<noteq> [] \<and>
     length (r_handles r) * 256 = r_memory_size r \<and>
     (\<forall>i<length (r_handles r). \<forall>h. r_handles r ! i = Some h \<longleftrightarrow>
        h \<in> set hs \<and> c_ptr (cs ! h) = r_ptr r + 256 * i)"

definition regions_ok :: "region list \<Rightarrow> bool" where
  "regions_ok rs \<longleftrightarrow> sorted_wrt (\<lambda>r r'. r_end_ptr r \<le> r_ptr r') rs \<and>
     (\<forall>r\<in>set rs. 0 < r_ptr r \<and> r_end_ptr r < 2 ^ 64)"

definition lay :: "chunk list \<Rightarrow> region list \<Rightarrow> handle list list \<Rightarrow> bool" where
  "lay cs rs L \<longleftrightarrow> list_all2 (region_ok cs) rs L \<and> regions_ok rs"

lemma region_ok_cong:
  "region_ok cs r hs \<Longrightarrow> \<forall>h\<in>set hs. same_place cs cs' h \<Longrightarrow> length cs \<le> length cs' \<Longrightarrow> region_ok cs' r hs"
  unfolding region_ok_def using chain_cong [of cs None "r_ptr r" hs None "r_end_ptr r" cs']
  by (auto simp: same_place_def)

lemma list_all2_region_ok_cong:
  "list_all2 (region_ok cs) rs L \<Longrightarrow> \<forall>h\<in>handles_of L. same_place cs cs' h \<Longrightarrow> length cs \<le> length cs' \<Longrightarrow>
   list_all2 (region_ok cs') rs L"
  by (induction rs L rule: list_all2_induct) (auto intro: region_ok_cong)

lemma lay_cong:
  "lay cs rs L \<Longrightarrow> \<forall>h\<in>handles_of L. same_place cs cs' h \<Longrightarrow> length cs \<le> length cs' \<Longrightarrow> lay cs' rs L"
  unfolding lay_def using list_all2_region_ok_cong by blast

text \<open>A chunk of the layout, with what surrounds it.\<close>

lemma lay_locate:
  assumes "lay cs rs L" "h \<in> handles_of L"
  obtains rs1 r rs2 L1 A B L2 where "rs = rs1 @ r # rs2" "L = L1 @ (A @ h # B) # L2"
    "length rs1 = length L1" "region_ok cs r (A @ h # B)"
proof -
  from assms(2) obtain hs where "hs \<in> set L" "h \<in> set hs" by (auto simp: mem_handles_of)
  then obtain L1 L2 A B where L: "L = L1 @ hs # L2" "hs = A @ h # B" by (metis split_list)
  with assms(1) have "list_all2 (region_ok cs) rs (L1 @ (A @ h # B) # L2)" by (simp add: lay_def)
  then obtain rs1 r rs2 where "rs = rs1 @ r # rs2" "length rs1 = length L1" "region_ok cs r (A @ h # B)"
    by (auto simp: list_all2_append2 list_all2_Cons2)
  with L that show thesis by blast
qed

text \<open>Replacing the region in the middle.\<close>

lemma lay_replace:
  assumes "lay cs (rs1 @ r # rs2) (L1 @ hs # L2)" "length rs1 = length L1"
    and "region_ok cs' r' hs'" "r_ptr r' = r_ptr r" "r_memory_size r' = r_memory_size r"
    and "\<forall>h\<in>handles_of (L1 @ L2). same_place cs cs' h" "length cs \<le> length cs'"
  shows "lay cs' (rs1 @ r' # rs2) (L1 @ hs' # L2)"
proof -
  have e: "r_end_ptr r' = r_end_ptr r" using assms(4,5) by (simp add: r_end_ptr_def)
  have "list_all2 (region_ok cs) rs1 L1" "list_all2 (region_ok cs) rs2 L2"
    using assms(1,2) by (simp_all add: lay_def list_all2_append)
  then have "list_all2 (region_ok cs') rs1 L1" "list_all2 (region_ok cs') rs2 L2"
    using assms(6,7) by (auto intro: list_all2_region_ok_cong)
  then show ?thesis
    using assms(1-5) e by (auto simp: lay_def list_all2_append regions_ok_def sorted_wrt_append)
qed

lemma RegionFor_middle:
  assumes "regions_ok (rs1 @ r # rs2)" "r_ptr r \<le> p" "p < r_end_ptr r"
  shows "RegionFor (rs1 @ r # rs2) p = Some (length rs1)"
proof -
  have "\<forall>x\<in>set rs1. \<not> p < r_end_ptr x"
    using assms by (auto simp: regions_ok_def sorted_wrt_append)
  then have "takeWhile (\<lambda>r. \<not> p < r_end_ptr r) (rs1 @ r # rs2) = rs1"
    using assms(3) by (simp add: takeWhile_append2)
  then show ?thesis by (simp add: RegionFor_def upper_bound_region_def)
qed

lemma IndexFor_inside:
  assumes "r_end_ptr r < 2 ^ 64" "i * 256 < r_memory_size r"
  shows "r_IndexFor r (r_ptr r + 256 * i) = i"
proof -
  have "r_ptr r + 256 * i < 2 ^ 64" using assms by (simp add: r_end_ptr_def)
  then have "size_wrap (r_ptr r + 256 * i + 2 ^ 64 - r_ptr r) = 256 * i"
    using size_wrap_diff [of "r_ptr r" "r_ptr r + 256 * i"] by simp
  then show ?thesis by (simp add: r_IndexFor_def bfc_consts drop_bit_eq_div)
qed

text \<open>The position in the table of an address at which a chunk may start.\<close>

lemma region_slot:
  assumes "regions_ok (rs1 @ r # rs2)" "length (r_handles r) * 256 = r_memory_size r"
    and "r_ptr r \<le> p" "p < r_end_ptr r" "256 dvd p - r_ptr r"
  obtains i where "i < length (r_handles r)" "p = r_ptr r + 256 * i" "r_IndexFor r p = i"
    "rm_get_handle (rs1 @ r # rs2) p = Inr (r_handles r ! i)"
    "\<forall>v. rm_set_handle p v (rs1 @ r # rs2) =
       Inr (rs1 @ r\<lparr>r_handles := (r_handles r)[i := v]\<rparr> # rs2)"
proof -
  obtain i where i: "p - r_ptr r = 256 * i" using assms(5) by (auto elim: dvdE)
  then have p: "p = r_ptr r + 256 * i" using assms(3) by simp
  have lt: "i * 256 < r_memory_size r" using assms(4) p by (simp add: r_end_ptr_def)
  then have len: "i < length (r_handles r)" using assms(2) by simp
  have idx: "r_IndexFor r p = i"
    using assms(1) lt unfolding p by (intro IndexFor_inside) (auto simp: regions_ok_def)
  note rf = RegionFor_middle [OF assms(1,3,4)]
  show thesis
  proof (rule that [OF len p idx])
    show "rm_get_handle (rs1 @ r # rs2) p = Inr (r_handles r ! i)"
      using rf idx len by (simp add: rm_get_handle_def r_get_handle_def)
    show "\<forall>v. rm_set_handle p v (rs1 @ r # rs2) = Inr (rs1 @ r\<lparr>r_handles := (r_handles r)[i := v]\<rparr> # rs2)"
      using rf idx len by (simp add: rm_set_handle_def r_set_handle_def)
  qed
qed

lemma region_chunk_slot:
  assumes "lay cs (rs1 @ r # rs2) L" "region_ok cs r hs" "h \<in> set hs"
  obtains i where "i < length (r_handles r)" "c_ptr (cs ! h) = r_ptr r + 256 * i" "r_handles r ! i = Some h"
    "rm_get_handle (rs1 @ r # rs2) (c_ptr (cs ! h)) = Inr (Some h)"
    "\<forall>v. rm_set_handle (c_ptr (cs ! h)) v (rs1 @ r # rs2) =
       Inr (rs1 @ r\<lparr>r_handles := (r_handles r)[i := v]\<rparr> # rs2)"
proof -
  have ch: "chain cs None (r_ptr r) hs None (r_end_ptr r)" using assms(2) by (simp add: region_ok_def)
  note b = chain_bounds [OF ch assms(3)]
  obtain i where i: "i < length (r_handles r)" "c_ptr (cs ! h) = r_ptr r + 256 * i"
    "r_IndexFor r (c_ptr (cs ! h)) = i"
    "rm_get_handle (rs1 @ r # rs2) (c_ptr (cs ! h)) = Inr (r_handles r ! i)"
    "\<forall>v. rm_set_handle (c_ptr (cs ! h)) v (rs1 @ r # rs2) =
       Inr (rs1 @ r\<lparr>r_handles := (r_handles r)[i := v]\<rparr> # rs2)"
  proof (rule region_slot [of rs1 r rs2 "c_ptr (cs ! h)"])
    show "regions_ok (rs1 @ r # rs2)" using assms(1) by (simp add: lay_def)
    show "length (r_handles r) * 256 = r_memory_size r" using assms(2) by (simp add: region_ok_def)
  qed (use b in auto)
  have "r_handles r ! i = Some h" using i(1,2) assms(2,3) by (simp add: region_ok_def)
  with i show thesis using that by simp
qed

lemma lay_ptr_handle:
  assumes "lay cs rs L" "h \<in> handles_of L"
  shows "rm_get_handle rs (c_ptr (cs ! h)) = Inr (Some h)"
proof -
  obtain rs1 r rs2 L1 A B L2 where *: "rs = rs1 @ r # rs2" "L = L1 @ (A @ h # B) # L2"
    "length rs1 = length L1" "region_ok cs r (A @ h # B)" by (rule lay_locate [OF assms])
  have "h \<in> set (A @ h # B)" by simp
  with assms(1) *(4) show ?thesis unfolding *(1) by (rule region_chunk_slot)
qed

text \<open>The pointer determines the chunk.\<close>

lemma lay_ptr_inj:
  assumes "lay cs rs L"
  shows "inj_on (\<lambda>h. c_ptr (cs ! h)) (handles_of L)"
proof (rule inj_onI)
  fix x y
  assume x: "x \<in> handles_of L" and y: "y \<in> handles_of L" and e: "c_ptr (cs ! x) = c_ptr (cs ! y)"
  have "Inr (Some x) = (Inr (Some y) :: exn + handle option)"
    using lay_ptr_handle [OF assms x] lay_ptr_handle [OF assms y] unfolding e by (rule trans [OF sym])
  then show "x = y" by simp
qed

lemma lay_bounds:
  assumes "lay cs rs L" "h \<in> handles_of L"
  shows "h < length cs" "0 < c_size (cs ! h)" "256 dvd c_size (cs ! h)" "0 < c_ptr (cs ! h)"
    "c_ptr (cs ! h) + c_size (cs ! h) < 2 ^ 64"
proof -
  obtain rs1 r rs2 L1 A B L2 where *: "rs = rs1 @ r # rs2" "L = L1 @ (A @ h # B) # L2"
    "length rs1 = length L1" "region_ok cs r (A @ h # B)" by (rule lay_locate [OF assms])
  then have ch: "chain cs None (r_ptr r) (A @ h # B) None (r_end_ptr r)" by (simp add: region_ok_def)
  have "0 < r_ptr r" "r_end_ptr r < 2 ^ 64" using assms(1) *(1) by (auto simp: lay_def regions_ok_def)
  with chain_bounds [OF ch, of h] chain_valid [OF ch, of h]
  show "h < length cs" "0 < c_size (cs ! h)" "256 dvd c_size (cs ! h)" "0 < c_ptr (cs ! h)"
    "c_ptr (cs ! h) + c_size (cs ! h) < 2 ^ 64" by auto
qed

section \<open>Bins\<close>

lemma chunk_less_irrefl [simp]: "\<not> chunk_less cs h h"
  by (simp add: chunk_less_def)

lemma chunk_less_trans: "chunk_less cs a b \<Longrightarrow> chunk_less cs b c \<Longrightarrow> chunk_less cs a c"
  by (auto simp: chunk_less_def split: if_splits)

lemma chunk_less_total: "c_ptr (cs ! a) \<noteq> c_ptr (cs ! b) \<Longrightarrow> chunk_less cs a b \<or> chunk_less cs b a"
  by (auto simp: chunk_less_def)

lemma chunk_less_asym: "chunk_less cs a b \<Longrightarrow> \<not> chunk_less cs b a"
  using chunk_less_trans chunk_less_irrefl by blast

lemma chunk_less_cong:
  "c_size (cs' ! a) = c_size (cs ! a) \<Longrightarrow> c_ptr (cs' ! a) = c_ptr (cs ! a) \<Longrightarrow>
   c_size (cs' ! b) = c_size (cs ! b) \<Longrightarrow> c_ptr (cs' ! b) = c_ptr (cs ! b) \<Longrightarrow>
   chunk_less cs' a b = chunk_less cs a b"
  by (simp add: chunk_less_def)

lemma bin_sorted_distinct: "sorted_wrt (chunk_less cs) xs \<Longrightarrow> distinct xs"
  by (induction xs) auto

lemma bin_insert_correct:
  assumes "sorted_wrt (chunk_less cs) xs" "\<forall>x\<in>set xs. c_ptr (cs ! x) \<noteq> c_ptr (cs ! h)"
  shows "set (bin_insert cs h xs) = insert h (set xs) \<and> sorted_wrt (chunk_less cs) (bin_insert cs h xs)"
  using assms
proof (induction xs)
  case (Cons x xs)
  then have "chunk_less cs x h \<or> chunk_less cs h x" by (intro chunk_less_total) simp
  with Cons show ?case by (auto intro: chunk_less_trans)
qed simp

lemma bin_equiv_iff:
  "(c_ptr (cs ! x) = c_ptr (cs ! h) \<longrightarrow> x = h) \<Longrightarrow> bin_equiv cs h x \<longleftrightarrow> x = h"
  using chunk_less_total [of cs x h] by (auto simp: bin_equiv_def)

lemma filter_eq_distinct: "distinct xs \<Longrightarrow> filter (\<lambda>x. x = h) xs = (if h \<in> set xs then [h] else [])"
  by (induction xs) auto

lemma bin_erase_correct:
  assumes "sorted_wrt (chunk_less cs) xs" "\<forall>x\<in>set xs. c_ptr (cs ! x) = c_ptr (cs ! h) \<longrightarrow> x = h"
  shows "set (bin_erase cs h xs) = set xs - {h}" "sorted_wrt (chunk_less cs) (bin_erase cs h xs)"
    "h \<in> set xs \<Longrightarrow> bin_count cs h xs = 1"
proof -
  have eq: "\<forall>x\<in>set xs. bin_equiv cs h x \<longleftrightarrow> x = h" using assms(2) bin_equiv_iff by blast
  then show "set (bin_erase cs h xs) = set xs - {h}" by (auto simp: bin_erase_def)
  show "sorted_wrt (chunk_less cs) (bin_erase cs h xs)"
    unfolding bin_erase_def using assms(1) by (rule sorted_wrt_filter)
  have "filter (bin_equiv cs h) xs = filter (\<lambda>x. x = h) xs" using eq by (intro filter_cong) auto
  then show "bin_count cs h xs = 1" if "h \<in> set xs"
    using that filter_eq_distinct [OF bin_sorted_distinct [OF assms(1)], of h] by (simp add: bin_count_def)
qed

lemma bin_remove1_correct:
  assumes "sorted_wrt (chunk_less cs) xs"
  shows "set (remove1 h xs) = set xs - {h}" "sorted_wrt (chunk_less cs) (remove1 h xs)"
proof -
  have d: "distinct xs" using assms by (rule bin_sorted_distinct)
  then show "set (remove1 h xs) = set xs - {h}" by simp
  have "remove1 h xs = filter (\<lambda>x. h \<noteq> x) xs"
    using d by (simp add: distinct_remove1_removeAll removeAll_filter_not_eq)
  then show "sorted_wrt (chunk_less cs) (remove1 h xs)"
    using assms by (simp add: sorted_wrt_filter)
qed

section \<open>The invariant\<close>

definition in_use_of :: "chunk list \<Rightarrow> handle set \<Rightarrow> handle set" where
  "in_use_of cs H = {h \<in> H. c_in_use (cs ! h)}"

text \<open>The bins hold exactly the free chunks that are not loose, each in the bin of its size.\<close>

definition filed_in :: "handle set \<Rightarrow> chunk list \<Rightarrow> handle set \<Rightarrow> nat \<Rightarrow> handle set" where
  "filed_in X cs H b = {h \<in> H. \<not> c_in_use (cs ! h) \<and> h \<notin> X \<and> BinNumForSize (c_size (cs ! h)) = b}"

definition filed :: "handle set \<Rightarrow> chunk list \<Rightarrow> handle list list \<Rightarrow> handle set \<Rightarrow> bool" where
  "filed X cs bins H \<longleftrightarrow> length bins = kNumBins \<and> X \<subseteq> H \<and>
     (\<forall>h\<in>H. c_freed_at_count (cs ! h) = 0 \<and> (h \<in> X \<longrightarrow> \<not> c_in_use (cs ! h)) \<and>
        c_bin_num (cs ! h) =
          (if c_in_use (cs ! h) \<or> h \<in> X then None else Some (BinNumForSize (c_size (cs ! h))))) \<and>
     (\<forall>b<kNumBins. sorted_wrt (chunk_less cs) (bins ! b) \<and> set (bins ! b) = filed_in X cs H b)"

text \<open>The chunks out of use form a list through their links.\<close>

fun free_list :: "chunk list \<Rightarrow> handle option \<Rightarrow> handle list \<Rightarrow> bool" where
  "free_list cs head [] \<longleftrightarrow> head = None"
| "free_list cs head (h # hs) \<longleftrightarrow> head = Some h \<and> free_list cs (c_next (cs ! h)) hs"

definition spare :: "chunk \<Rightarrow> bool" where
  "spare c \<longleftrightarrow> \<not> c_in_use c \<and> c_bin_num c = None \<and> c_freed_at_count c = 0"

definition pool :: "chunk list \<Rightarrow> handle set \<Rightarrow> handle option \<Rightarrow> handle list \<Rightarrow> bool" where
  "pool cs H head fl \<longleftrightarrow> free_list cs head fl \<and> distinct fl \<and> H \<inter> set fl = {} \<and>
     H \<union> set fl = {..<length cs} \<and> (\<forall>h\<in>set fl. spare (cs ! h))"

definition account :: "chunk list \<Rightarrow> handle set \<Rightarrow> int \<Rightarrow> int \<Rightarrow> bool" where
  "account cs H bytes_in_use next_id \<longleftrightarrow>
     bytes_in_use = (\<Sum>h\<in>in_use_of cs H. int (c_size (cs ! h))) \<and> 0 < next_id \<and>
     inj_on (\<lambda>h. c_allocation_id (cs ! h)) (in_use_of cs H) \<and>
     (\<forall>h\<in>in_use_of cs H. 0 < c_allocation_id (cs ! h) \<and> c_allocation_id (cs ! h) < next_id \<and>
        0 < c_requested_size (cs ! h) \<and> c_requested_size (cs ! h) \<le> c_size (cs ! h))"

text \<open>No two neighbours are both free, unless one of them is loose.\<close>

definition coalesced :: "handle set \<Rightarrow> chunk list \<Rightarrow> handle list \<Rightarrow> bool" where
  "coalesced X cs hs \<longleftrightarrow>
     successively (\<lambda>a b. c_in_use (cs ! a) \<or> c_in_use (cs ! b) \<or> a \<in> X \<or> b \<in> X) hs"

text \<open>The bytes obtained from the sub-allocator, and the blocks it has given out.\<close>

definition budget :: "('m \<Rightarrow> (addr \<times> nat) set) \<Rightarrow> 'm bfc \<Rightarrow> bool" where
  "budget blocks s \<longleftrightarrow> \<not> b_coalesce_regions s \<and> 0 < max_internal_fragmentation_bytes s \<and>
     b_total_region_allocated_bytes s = (\<Sum>r\<leftarrow>b_regions s. r_memory_size r) \<and>
     b_total_region_allocated_bytes s \<le> b_memory_limit s \<and> b_memory_limit s < 2 ^ 63 \<and>
     b_curr_region_allocation_bytes s < 2 ^ 64 \<and> 256 dvd b_curr_region_allocation_bytes s \<and>
     (\<forall>r\<in>set (b_regions s). (r_ptr r, r_memory_size r) \<in> blocks (b_mem s))"

definition wf :: "handle set \<Rightarrow> handle list list \<Rightarrow> handle list \<Rightarrow> 'm bfc \<Rightarrow> bool" where
  "wf X L fl s \<longleftrightarrow> lay (b_chunks s) (b_regions s) L \<and> distinct (concat L) \<and>
     pool (b_chunks s) (handles_of L) (b_free_chunks_list s) fl \<and>
     filed X (b_chunks s) (b_bins s) (handles_of L) \<and>
     account (b_chunks s) (handles_of L) (st_bytes_in_use (b_stats s)) (b_next_allocation_id s) \<and>
     (\<forall>hs\<in>set L. coalesced X (b_chunks s) hs)"

definition bfc_inv :: "('m \<Rightarrow> (addr \<times> nat) set) \<Rightarrow> ('m \<Rightarrow> bool) \<Rightarrow> 'm bfc \<Rightarrow> bool" where
  "bfc_inv blocks ok s \<longleftrightarrow> (\<exists>L fl. wf {} L fl s) \<and> budget blocks s \<and> ok (b_mem s)"

text \<open>What the users of the allocator hold: address, requested and granted size, and number.\<close>

definition live_allocs :: "'m bfc \<Rightarrow> (addr \<times> nat \<times> nat \<times> int) set" where
  "live_allocs s = (\<lambda>h. let c = b_chunks s ! h
       in (c_ptr c, c_requested_size c, c_size c, c_allocation_id c)) `
     in_use_of (b_chunks s) {..<length (b_chunks s)}"

section \<open>How the parts depend on the chunks\<close>

lemma free_list_cong: "free_list cs head fl \<Longrightarrow> \<forall>h\<in>set fl. cs' ! h = cs ! h \<Longrightarrow> free_list cs' head fl"
  by (induction fl arbitrary: head) auto

lemma pool_cong:
  "pool cs H head fl \<Longrightarrow> \<forall>h\<in>set fl. cs' ! h = cs ! h \<Longrightarrow> length cs' = length cs \<Longrightarrow> pool cs' H head fl"
  by (auto simp: pool_def intro: free_list_cong)

definition same_user :: "chunk \<Rightarrow> chunk \<Rightarrow> bool" where
  "same_user c c' \<longleftrightarrow> c_ptr c' = c_ptr c \<and> c_size c' = c_size c \<and> c_requested_size c' = c_requested_size c \<and>
     c_allocation_id c' = c_allocation_id c"

lemma same_user_refl [simp]: "same_user c c"
  by (simp add: same_user_def)

lemma same_user_in_use: "same_user c c' \<Longrightarrow> c_in_use c' = c_in_use c"
  by (simp add: same_user_def c_in_use_def)

lemma account_cong:
  assumes "account cs H b n" "in_use_of cs' H' = in_use_of cs H"
    and "\<forall>h\<in>in_use_of cs H. same_user (cs ! h) (cs' ! h)"
  shows "account cs' H' b n"
proof -
  have "inj_on (\<lambda>h. c_allocation_id (cs' ! h)) (in_use_of cs H) =
      inj_on (\<lambda>h. c_allocation_id (cs ! h)) (in_use_of cs H)"
    using assms(3) by (intro inj_on_cong) (simp add: same_user_def)
  then show ?thesis
    using assms unfolding account_def assms(2) by (auto simp: same_user_def intro!: sum.cong)
qed

lemma coalesced_cong:
  assumes "coalesced X cs hs" "\<forall>h\<in>set hs. c_in_use (cs' ! h) = c_in_use (cs ! h)" "X \<inter> set hs \<subseteq> X'"
  shows "coalesced X' cs' hs"
  unfolding coalesced_def
  by (rule successively_mono [OF assms(1) [unfolded coalesced_def]]) (use assms(2,3) in auto)

lemma live_allocs_cong:
  assumes "in_use_of (b_chunks s') {..<length (b_chunks s')} = in_use_of (b_chunks s) {..<length (b_chunks s)}"
    and "\<forall>h\<in>in_use_of (b_chunks s) {..<length (b_chunks s)}. same_user (b_chunks s ! h) (b_chunks s' ! h)"
  shows "live_allocs s' = live_allocs s"
  unfolding live_allocs_def assms(1) by (rule image_cong) (use assms(2) in \<open>auto simp: same_user_def Let_def\<close>)

lemma wf_handles:
  assumes "wf X L fl s"
  shows "handles_of L \<union> set fl = {..<length (b_chunks s)}" "handles_of L \<inter> set fl = {}"
    "in_use_of (b_chunks s) {..<length (b_chunks s)} = in_use_of (b_chunks s) (handles_of L)"
    "h \<in> handles_of L \<Longrightarrow> valid_handle s h"
proof -
  have p: "pool (b_chunks s) (handles_of L) (b_free_chunks_list s) fl" using assms by (simp add: wf_def)
  then show "handles_of L \<union> set fl = {..<length (b_chunks s)}" "handles_of L \<inter> set fl = {}"
    by (simp_all add: pool_def)
  then show "in_use_of (b_chunks s) {..<length (b_chunks s)} = in_use_of (b_chunks s) (handles_of L)"
    using p by (auto simp: pool_def in_use_of_def spare_def)
  show "valid_handle s h" if "h \<in> handles_of L"
    using p that by (auto simp: pool_def valid_handle_def)
qed

section \<open>Filing a chunk and taking it out\<close>

lemma lay_upd_bin:
  "lay cs rs L \<Longrightarrow> lay (cs[h := (cs ! h)\<lparr>c_bin_num := v\<rparr>]) rs L"
  by (erule lay_cong) (auto simp: same_place_def nth_upd)

lemma wf_upd_bin:
  assumes "wf X L fl s" "h \<in> handles_of L"
    and "filed X' (b_chunks s') (b_bins s') (handles_of L)"
    and "\<forall>hs\<in>set L. coalesced X' (b_chunks s) hs"
    and s': "s' = upd_chunk h (\<lambda>c. c\<lparr>c_bin_num := v\<rparr>) (s\<lparr>b_bins := bins\<rparr>)"
  shows "wf X' L fl s' \<and> live_allocs s' = live_allocs s"
proof -
  let ?cs = "b_chunks s" and ?cs' = "b_chunks s'"
  have cs': "?cs' = ?cs[h := (?cs ! h)\<lparr>c_bin_num := v\<rparr>]" by (simp add: s' upd_chunk_def)
  have u: "same_user (?cs ! x) (?cs' ! x)" for x
    by (simp add: cs' same_user_def nth_upd)
  have i: "in_use_of ?cs' A = in_use_of ?cs A" for A
    using same_user_in_use [OF u] by (auto simp: in_use_of_def)
  have "lay ?cs' (b_regions s') L" using assms(1) lay_upd_bin by (simp add: wf_def s' upd_chunk_def)
  moreover have "pool ?cs' (handles_of L) (b_free_chunks_list s') fl"
  proof (rule pool_cong [of ?cs])
    show "pool ?cs (handles_of L) (b_free_chunks_list s') fl" using assms(1) by (simp add: wf_def s' upd_chunk_def)
    show "\<forall>x\<in>set fl. ?cs' ! x = ?cs ! x"
      using wf_handles(2) [OF assms(1)] assms(2) by (auto simp: cs' nth_upd)
  qed (simp add: cs')
  moreover have "account ?cs' (handles_of L) (st_bytes_in_use (b_stats s')) (b_next_allocation_id s')"
    by (rule account_cong [of ?cs "handles_of L"]) (use assms(1) i u in \<open>auto simp: wf_def s' upd_chunk_def\<close>)
  moreover have "\<forall>hs\<in>set L. coalesced X' ?cs' hs"
    using assms(4) same_user_in_use [OF u] by (auto intro: coalesced_cong)
  moreover have "live_allocs s' = live_allocs s"
    using i u by (intro live_allocs_cong) (auto simp: cs')
  ultimately show ?thesis using assms(1,3) by (simp add: wf_def)
qed

end
