(* ===== verification/BFC_Steps.thy ===== *)
theory BFC_Steps
  imports BFC_Invariant
begin

text \<open>
  Every step of an operation of the allocator, from one well-formed state to the next: that its
  checks hold, and what becomes of the layout, of the loose chunks and of what the users hold.
\<close>

section \<open>Bins\<close>

lemma wf_filed: "wf X L fl s \<Longrightarrow> filed X (b_chunks s) (b_bins s) (handles_of L)"
  by (simp add: wf_def)

lemma wf_lay: "wf X L fl s \<Longrightarrow> lay (b_chunks s) (b_regions s) L"
  by (simp add: wf_def)

lemma filed_chunk:
  "filed X cs bins H \<Longrightarrow> h \<in> H \<Longrightarrow>
   c_freed_at_count (cs ! h) = 0 \<and> (h \<in> X \<longrightarrow> \<not> c_in_use (cs ! h)) \<and>
   c_bin_num (cs ! h) = (if c_in_use (cs ! h) \<or> h \<in> X then None else Some (BinNumForSize (c_size (cs ! h))))"
  by (auto simp: filed_def)

lemma wf_size_lt: "wf X L fl s \<Longrightarrow> h \<in> handles_of L \<Longrightarrow> c_size (b_chunks s ! h) < 2 ^ 64"
  using lay_bounds(5) [OF wf_lay] by fastforce

lemma wf_bin_lt: "wf X L fl s \<Longrightarrow> h \<in> handles_of L \<Longrightarrow> BinNumForSize (c_size (b_chunks s ! h)) < kNumBins"
  using BinNumForSize_bounds(1) [OF wf_size_lt] by (simp add: kNumBins_def)

text \<open>A chunk leaves its bin, whichever way it is erased from it.\<close>

lemma filed_take_out:
  assumes f: "filed X cs bins H" and h: "h \<in> H" "h < length cs" "\<not> c_in_use (cs ! h)" "h \<notin> X"
    and b: "b = BinNumForSize (c_size (cs ! h))"
    and xs: "sorted_wrt (chunk_less cs) xs" "set xs = set (bins ! b) - {h}"
  shows "filed (insert h X) (cs[h := (cs ! h)\<lparr>c_bin_num := None\<rparr>]) (bins[b := xs]) H"
proof -
  let ?cs = "cs[h := (cs ! h)\<lparr>c_bin_num := None\<rparr>]"
  have place: "c_size (?cs ! x) = c_size (cs ! x)" "c_ptr (?cs ! x) = c_ptr (cs ! x)"
    "c_in_use (?cs ! x) = c_in_use (cs ! x)" "c_freed_at_count (?cs ! x) = c_freed_at_count (cs ! x)" for x
    by (simp_all add: nth_upd c_in_use_def)
  have less: "chunk_less ?cs = chunk_less cs" by (intro ext chunk_less_cong) (simp_all add: place)
  have bin: "filed_in (insert h X) ?cs H c = filed_in X cs H c - {h}" for c
    by (auto simp: filed_in_def place)
  have "\<forall>c<kNumBins. sorted_wrt (chunk_less cs) (bins[b := xs] ! c) \<and>
      set (bins[b := xs] ! c) = filed_in X cs H c - {h}"
    using f xs b by (auto simp: filed_def nth_upd filed_in_def)
  then show ?thesis
    using f h by (auto simp: filed_def less bin place nth_upd)
qed

lemma wf_take_out:
  assumes w: "wf X L fl s" and h: "h \<in> handles_of L" "\<not> c_in_use (b_chunks s ! h)" "h \<notin> X"
    and xs: "sorted_wrt (chunk_less (b_chunks s)) xs"
      "set xs = set (b_bins s ! BinNumForSize (c_size (b_chunks s ! h))) - {h}"
    and s': "s' = upd_chunk h (\<lambda>c. c\<lparr>c_bin_num := None\<rparr>)
      (s\<lparr>b_bins := (b_bins s)[BinNumForSize (c_size (b_chunks s ! h)) := xs]\<rparr>)"
  shows "wf (insert h X) L fl s' \<and> live_allocs s' = live_allocs s"
proof (rule wf_upd_bin [OF w h(1) _ _ s'])
  have "h < length (b_chunks s)" using wf_handles(4) [OF w h(1)] by (simp add: valid_handle_def)
  then show "filed (insert h X) (b_chunks s') (b_bins s') (handles_of L)"
    using filed_take_out [OF wf_filed [OF w] h(1) _ h(2,3) refl xs] by (simp add: s' upd_chunk_def)
  show "\<forall>hs\<in>set L. coalesced (insert h X) (b_chunks s) hs"
    using w by (auto simp: wf_def intro: coalesced_cong)
qed

text \<open>What no step on chunks touches.\<close>

definition same_env :: "'m bfc \<Rightarrow> 'm bfc \<Rightarrow> bool" where
  "same_env s s' \<longleftrightarrow> b_opts s' = b_opts s \<and> b_memory_limit s' = b_memory_limit s \<and>
     b_curr_region_allocation_bytes s' = b_curr_region_allocation_bytes s \<and>
     b_total_region_allocated_bytes s' = b_total_region_allocated_bytes s \<and>
     b_coalesce_regions s' = b_coalesce_regions s \<and> b_mem s' = b_mem s \<and>
     map (\<lambda>r. (r_ptr r, r_memory_size r)) (b_regions s') =
       map (\<lambda>r. (r_ptr r, r_memory_size r)) (b_regions s)"

lemma same_env_refl [simp]: "same_env s s"
  by (simp add: same_env_def)

lemma same_env_trans: "same_env a b \<Longrightarrow> same_env b c \<Longrightarrow> same_env a c"
  by (simp add: same_env_def)

lemma budget_same_env: "same_env s s' \<Longrightarrow> budget blocks s' = budget blocks s"
proof -
  assume e: "same_env s s'"
  then have m: "map (\<lambda>r. (r_ptr r, r_memory_size r)) (b_regions s') =
       map (\<lambda>r. (r_ptr r, r_memory_size r)) (b_regions s)" by (simp add: same_env_def)
  have "(\<Sum>r\<leftarrow>b_regions s'. r_memory_size r) = sum_list (map snd (map (\<lambda>r. (r_ptr r, r_memory_size r)) (b_regions s')))"
    by (simp add: comp_def)
  moreover have "(\<lambda>r. (r_ptr r, r_memory_size r)) ` set (b_regions s') =
      (\<lambda>r. (r_ptr r, r_memory_size r)) ` set (b_regions s)"
    using m by (metis list.set_map)
  then have "(\<forall>r\<in>set (b_regions s'). (r_ptr r, r_memory_size r) \<in> B) \<longleftrightarrow>
      (\<forall>r\<in>set (b_regions s). (r_ptr r, r_memory_size r) \<in> B)" for B
    by (metis (mono_tags, lifting) image_iff)
  ultimately show ?thesis using e unfolding m 
    by (simp add: budget_def same_env_def comp_def max_internal_fragmentation_bytes_def)
qed

lemma RemoveFreeChunkFromBin_ok:
  assumes w: "wf X L fl s" and h: "h \<in> handles_of L" "\<not> c_in_use (b_chunks s ! h)" "h \<notin> X"
  obtains s' where "RemoveFreeChunkFromBin h s = Inr s'" "wf (insert h X) L fl s'"
    "live_allocs s' = live_allocs s" "same_env s s'"
    "b_chunks s' = (b_chunks s)[h := (b_chunks s ! h)\<lparr>c_bin_num := None\<rparr>]"
    "st_bytes_in_use (b_stats s') = st_bytes_in_use (b_stats s)"
proof -
  let ?cs = "b_chunks s" and ?b = "BinNumForSize (c_size (b_chunks s ! h))"
  let ?xs = "bin_erase ?cs h (b_bins s ! ?b)"
  let ?s' = "upd_chunk h (\<lambda>c. c\<lparr>c_bin_num := None\<rparr>) (s\<lparr>b_bins := (b_bins s)[?b := ?xs]\<rparr>)"
  have v: "valid_handle s h" using w h by (intro wf_handles(4))
  have f: "filed X ?cs (b_bins s) (handles_of L)" by (rule wf_filed [OF w])
  have lt: "?b < kNumBins" by (rule wf_bin_lt [OF w h(1)])
  then have b: "sorted_wrt (chunk_less ?cs) (b_bins s ! ?b)" "set (b_bins s ! ?b) = filed_in X ?cs (handles_of L) ?b"
    using f by (auto simp: filed_def)
  have inj: "\<forall>x\<in>set (b_bins s ! ?b). c_ptr (?cs ! x) = c_ptr (?cs ! h) \<longrightarrow> x = h"
    using lay_ptr_inj [OF wf_lay [OF w]] h(1) b(2) by (auto simp: inj_on_def filed_in_def)
  have m: "h \<in> set (b_bins s ! ?b)" using h b(2) by (simp add: filed_in_def)
  have bn: "c_bin_num (?cs ! h) = Some ?b" using filed_chunk [OF f h(1)] h by simp
  have r: "RemoveFreeChunkFromBin h s = Inr ?s'"
    using v bn h f lt bin_erase_correct(3) [OF b(1) inj m]
    by (simp add: RemoveFreeChunkFromBin_def filed_def)
  have "wf (insert h X) L fl ?s' \<and> live_allocs ?s' = live_allocs s"
    using w h bin_erase_correct(2,1) [OF b(1) inj] by (rule wf_take_out) simp
  with r show thesis by (intro that [of ?s']) (auto simp: same_env_def upd_chunk_def)
qed

lemma RemoveFreeChunkIterFromBin_ok:
  assumes w: "wf X L fl s" and h: "h \<in> handles_of L" "\<not> c_in_use (b_chunks s ! h)" "h \<notin> X"
    and b: "b = BinNumForSize (c_size (b_chunks s ! h))"
  obtains s' where "RemoveFreeChunkIterFromBin b h s = Inr s'" "wf (insert h X) L fl s'"
    "live_allocs s' = live_allocs s" "same_env s s'"
    "b_chunks s' = (b_chunks s)[h := (b_chunks s ! h)\<lparr>c_bin_num := None\<rparr>]" "b_regions s' = b_regions s"
    "b_next_allocation_id s' = b_next_allocation_id s" "b_stats s' = b_stats s"
proof -
  let ?s' = "upd_chunk h (\<lambda>c. c\<lparr>c_bin_num := None\<rparr>) (s\<lparr>b_bins := (b_bins s)[b := remove1 h (b_bins s ! b)]\<rparr>)"
  have f: "filed X (b_chunks s) (b_bins s) (handles_of L)" by (rule wf_filed [OF w])
  have so: "sorted_wrt (chunk_less (b_chunks s)) (b_bins s ! b)"
    using f wf_bin_lt [OF w h(1)] b by (auto simp: filed_def)
  have "c_bin_num (b_chunks s ! h) = Some b" using filed_chunk [OF f h(1)] h b by simp
  then have r: "RemoveFreeChunkIterFromBin b h s = Inr ?s'"
    using wf_handles(4) [OF w h(1)] h by (simp add: RemoveFreeChunkIterFromBin_def)
  have "wf (insert h X) L fl ?s' \<and> live_allocs ?s' = live_allocs s"
    using w h bin_remove1_correct(2,1) [OF so, of h] unfolding b by (rule wf_take_out) simp
  with r show thesis by (intro that [of ?s']) (auto simp: same_env_def upd_chunk_def)
qed

text \<open>The neighbours of a chunk in the layout are in use, or among the loose ones of \<open>Y\<close>.\<close>

definition fenced :: "handle set \<Rightarrow> chunk list \<Rightarrow> handle list list \<Rightarrow> handle \<Rightarrow> bool" where
  "fenced Y cs L h \<longleftrightarrow> (\<forall>hs A B. hs \<in> set L \<longrightarrow> hs = A @ h # B \<longrightarrow>
     (A \<noteq> [] \<longrightarrow> c_in_use (cs ! last A) \<or> last A \<in> Y) \<and> (B \<noteq> [] \<longrightarrow> c_in_use (cs ! hd B) \<or> hd B \<in> Y))"

lemma coalesced_unloose:
  assumes "coalesced X cs hs"
    and "\<And>A B. hs = A @ h # B \<Longrightarrow> (A \<noteq> [] \<longrightarrow> c_in_use (cs ! last A) \<or> last A \<in> X - {h}) \<and>
      (B \<noteq> [] \<longrightarrow> c_in_use (cs ! hd B) \<or> hd B \<in> X - {h})"
  shows "coalesced (X - {h}) cs hs"
  unfolding coalesced_def successively_conv_nth
proof (intro allI impI)
  fix i
  assume i: "Suc i < length hs"
  let ?a = "hs ! i" and ?b = "hs ! Suc i"
  have old: "c_in_use (cs ! ?a) \<or> c_in_use (cs ! ?b) \<or> ?a \<in> X \<or> ?b \<in> X"
    using assms(1) i by (auto simp: coalesced_def successively_conv_nth)
  have "c_in_use (cs ! ?b) \<or> ?b \<in> X - {h}" if "?a = h"
    using assms(2) [of "take i hs" "drop (Suc i) hs"] i that id_take_nth_drop [of i hs]
    by (simp add: hd_drop_conv_nth)
  moreover have "c_in_use (cs ! ?a) \<or> ?a \<in> X - {h}" if "?b = h"
    using assms(2) [of "take (Suc i) hs" "drop (Suc (Suc i)) hs"] i that
      id_take_nth_drop [of "Suc i" hs] by (cases "hs = []") (simp_all add: last_conv_nth)
  ultimately show "c_in_use (cs ! ?a) \<or> c_in_use (cs ! ?b) \<or> ?a \<in> X - {h} \<or> ?b \<in> X - {h}"
    using old by blast
qed

lemma filed_put_in:
  assumes f: "filed X cs bins H" and h: "h \<in> X" "h < length cs"
    and inj: "inj_on (\<lambda>h. c_ptr (cs ! h)) H"
    and b: "b = BinNumForSize (c_size (cs ! h))" "b < kNumBins"
    and cs': "cs' = cs[h := (cs ! h)\<lparr>c_bin_num := Some b\<rparr>]"
  shows "filed (X - {h}) cs' (bins[b := bin_insert cs' h (bins ! b)]) H"
proof -
  have H: "h \<in> H" using f h by (auto simp: filed_def)
  have free: "\<not> c_in_use (cs ! h)" using f h H by (auto simp: filed_def)
  have place: "c_size (cs' ! x) = c_size (cs ! x)" "c_ptr (cs' ! x) = c_ptr (cs ! x)"
    "c_in_use (cs' ! x) = c_in_use (cs ! x)" "c_freed_at_count (cs' ! x) = c_freed_at_count (cs ! x)" for x
    by (simp_all add: nth_upd cs')
  have less: "chunk_less cs' = chunk_less cs" by (intro ext chunk_less_cong) (simp_all add: place)
  have so: "sorted_wrt (chunk_less cs) (bins ! b)" "set (bins ! b) = filed_in X cs H b"
    using f b by (auto simp: filed_def)
  have "\<forall>x\<in>set (bins ! b). c_ptr (cs' ! x) \<noteq> c_ptr (cs' ! h)"
    using so(2) inj H h by (auto simp: filed_in_def inj_on_def place)
  then have ins: "set (bin_insert cs' h (bins ! b)) = insert h (set (bins ! b)) \<and>
      sorted_wrt (chunk_less cs) (bin_insert cs' h (bins ! b))"
    using bin_insert_correct [of cs' "bins ! b" h] so(1) by (simp add: less)
  have "\<forall>c<kNumBins. sorted_wrt (chunk_less cs) (bins[b := bin_insert cs' h (bins ! b)] ! c) \<and>
      set (bins[b := bin_insert cs' h (bins ! b)] ! c) = filed_in (X - {h}) cs' H c"
    using f ins b H free by (auto simp: filed_def nth_upd filed_in_def place)
  moreover have "\<forall>x\<in>H. c_bin_num (cs' ! x) = (if c_in_use (cs ! x) \<or> x \<in> X - {h} then None
      else Some (BinNumForSize (c_size (cs ! x))))"
    using f h free b H by (auto simp: filed_def cs' nth_upd)
  ultimately show ?thesis using f by (auto simp: filed_def less place)
qed

lemma InsertFreeChunkIntoBin_ok:
  assumes w: "wf X L fl s" and h: "h \<in> X" and fence: "fenced (X - {h}) (b_chunks s) L h"
  obtains s' where "InsertFreeChunkIntoBin h s = Inr s'" "wf (X - {h}) L fl s'"
    "live_allocs s' = live_allocs s" "same_env s s'"
    "b_chunks s' = (b_chunks s)[h := (b_chunks s ! h)\<lparr>c_bin_num := Some (BinNumForSize (c_size (b_chunks s ! h)))\<rparr>]"
    "b_next_allocation_id s' = b_next_allocation_id s" "b_stats s' = b_stats s"
proof -
  let ?cs = "b_chunks s" and ?b = "BinNumForSize (c_size (b_chunks s ! h))"
  let ?cs' = "?cs[h := (?cs ! h)\<lparr>c_bin_num := Some ?b\<rparr>]"
  let ?s' = "upd_chunk h (\<lambda>c. c\<lparr>c_bin_num := Some ?b\<rparr>) (s\<lparr>b_bins := (b_bins s)[?b := bin_insert ?cs' h (b_bins s ! ?b)]\<rparr>)"
  have f: "filed X ?cs (b_bins s) (handles_of L)" by (rule wf_filed [OF w])
  have H: "h \<in> handles_of L" using f h by (auto simp: filed_def)
  have v: "valid_handle s h" using w H by (rule wf_handles(4))
  have "c_bin_num (?cs ! h) = None" "\<not> c_in_use (?cs ! h)" using filed_chunk [OF f H] h by auto
  then have r: "InsertFreeChunkIntoBin h s = Inr ?s'"
    using v by (simp add: InsertFreeChunkIntoBin_def Let_def upd_chunk_def)
  have "wf (X - {h}) L fl ?s' \<and> live_allocs ?s' = live_allocs s"
  proof (rule wf_upd_bin [OF w H _ _ refl])
    show "filed (X - {h}) (b_chunks ?s') (b_bins ?s') (handles_of L)"
      using filed_put_in [OF f h _ lay_ptr_inj [OF wf_lay [OF w]] refl wf_bin_lt [OF w H] refl] v
      by (simp add: upd_chunk_def valid_handle_def)
    show "\<forall>hs\<in>set L. coalesced (X - {h}) ?cs hs"
    proof
      fix hs assume "hs \<in> set L"
      with w fence show "coalesced (X - {h}) ?cs hs"
        by (intro coalesced_unloose) (auto simp: wf_def fenced_def)
    qed
  qed
  with r show thesis by (intro that [of ?s']) (auto simp: same_env_def upd_chunk_def)
qed

section \<open>Taking a chunk into use and giving it back\<close>

lemma wf_upd_inner:
  assumes w: "wf X L fl s" and h: "h \<in> handles_of L"
    and cs': "b_chunks s' = (b_chunks s)[h := c']"
    and place: "c_ptr c' = c_ptr (b_chunks s ! h)" "c_size c' = c_size (b_chunks s ! h)"
      "c_prev c' = c_prev (b_chunks s ! h)" "c_next c' = c_next (b_chunks s ! h)"
    and "filed X' (b_chunks s') (b_bins s') (handles_of L)"
    and "account (b_chunks s') (handles_of L) (st_bytes_in_use (b_stats s')) (b_next_allocation_id s')"
    and "\<forall>hs\<in>set L. coalesced X' (b_chunks s') hs"
    and "b_regions s' = b_regions s" "b_free_chunks_list s' = b_free_chunks_list s"
  shows "wf X' L fl s'"
proof -
  have "lay (b_chunks s') (b_regions s) L"
    using wf_lay [OF w] by (rule lay_cong) (use place in \<open>auto simp: same_place_def nth_upd cs'\<close>)
  moreover have "pool (b_chunks s') (handles_of L) (b_free_chunks_list s) fl"
  proof (rule pool_cong [of "b_chunks s"])
    show "pool (b_chunks s) (handles_of L) (b_free_chunks_list s) fl" using w by (simp add: wf_def)
    show "\<forall>x\<in>set fl. b_chunks s' ! x = b_chunks s ! x"
      using wf_handles(2) [OF w] h by (auto simp: cs' nth_upd)
  qed (simp add: cs')
  ultimately show ?thesis using assms by (simp add: wf_def)
qed

definition alloc_of :: "chunk \<Rightarrow> addr \<times> nat \<times> nat \<times> int" where
  "alloc_of c = (c_ptr c, c_requested_size c, c_size c, c_allocation_id c)"

lemma live_allocs_eq:
  "wf X L fl s \<Longrightarrow> live_allocs s = (\<lambda>h. alloc_of (b_chunks s ! h)) ` in_use_of (b_chunks s) (handles_of L)"
  by (simp add: live_allocs_def wf_handles(3) alloc_of_def Let_def)

lemma alloc_of_inj:
  assumes "wf X L fl s"
  shows "inj_on (\<lambda>h. alloc_of (b_chunks s ! h)) (handles_of L)"
proof (rule inj_onI)
  fix x y
  assume x: "x \<in> handles_of L" and y: "y \<in> handles_of L"
    and "alloc_of (b_chunks s ! x) = alloc_of (b_chunks s ! y)"
  then have "c_ptr (b_chunks s ! x) = c_ptr (b_chunks s ! y)" by (simp add: alloc_of_def)
  then show "x = y" using lay_ptr_inj [OF wf_lay [OF assms]] x y by (auto dest: inj_onD)
qed

lemma finite_in_use [simp]: "finite (in_use_of cs (handles_of L))"
  by (simp add: in_use_of_def)

lemma MarkFree_ok:
  assumes w: "wf X L fl s" and h: "h \<in> handles_of L" and use: "c_in_use (b_chunks s ! h)"
  obtains s' where "MarkFree h s = Inr s'" "wf (insert h X) L fl s'"
    "live_allocs s' = live_allocs s - {alloc_of (b_chunks s ! h)}" "same_env s s'"
    "b_chunks s' = (b_chunks s)[h := (b_chunks s ! h)\<lparr>c_allocation_id := -1\<rparr>]"
    "st_bytes_in_use (b_stats s') = st_bytes_in_use (b_stats s) - int (c_size (b_chunks s ! h))"
proof -
  let ?cs = "b_chunks s" and ?H = "handles_of L"
  let ?cs' = "?cs[h := (?cs ! h)\<lparr>c_allocation_id := -1\<rparr>]"
  let ?s' = "(upd_chunk h (\<lambda>c. c\<lparr>c_allocation_id := -1\<rparr>) s)\<lparr>b_stats := (b_stats s)\<lparr>st_bytes_in_use :=
                    st_bytes_in_use (b_stats s) - int (c_size (?cs ! h))\<rparr>\<rparr>"
  have v: "h < length ?cs" using wf_handles(4) [OF w h] by (simp add: valid_handle_def)
  have f: "filed X ?cs (b_bins s) ?H" by (rule wf_filed [OF w])
  have hX: "h \<notin> X" "c_bin_num (?cs ! h) = None" using filed_chunk [OF f h] use by auto
  have r: "MarkFree h s = Inr ?s'" using v use hX by (simp add: MarkFree_def valid_handle_def)
  have use': "in_use_of ?cs' ?H = in_use_of ?cs ?H - {h}"
    using v by (auto simp: in_use_of_def nth_upd)
  have other: "?cs' ! x = ?cs ! x" if "x \<noteq> h" for x using that by (simp add: nth_upd)
  have a: "account ?cs ?H (st_bytes_in_use (b_stats s)) (b_next_allocation_id s)" using w by (simp add: wf_def)
  have "(\<Sum>x\<in>in_use_of ?cs ?H - {h}. int (c_size (?cs' ! x))) = (\<Sum>x\<in>in_use_of ?cs ?H - {h}. int (c_size (?cs ! x)))"
    by (rule sum.cong) (auto simp: other)
  also have "\<dots> = (\<Sum>x\<in>in_use_of ?cs ?H. int (c_size (?cs ! x))) - int (c_size (?cs ! h))"
    using h use by (subst sum_diff1) (auto simp: in_use_of_def)
  finally have sum: "(\<Sum>x\<in>in_use_of ?cs' ?H. int (c_size (?cs' ! x))) =
      (\<Sum>x\<in>in_use_of ?cs ?H. int (c_size (?cs ! x))) - int (c_size (?cs ! h))"
    unfolding use' .
  have less: "chunk_less ?cs' = chunk_less ?cs" by (intro ext chunk_less_cong) (simp_all add: nth_upd)
  have bin: "filed_in (insert h X) ?cs' ?H b = filed_in X ?cs ?H b" for b
    using use v by (auto simp: filed_in_def nth_upd)
  have wf': "wf (insert h X) L fl ?s'"
  proof (rule wf_upd_inner [OF w h])
    show "b_chunks ?s' = ?cs[h := (?cs ! h)\<lparr>c_allocation_id := -1\<rparr>]" by (simp add: upd_chunk_def)
    have "filed (insert h X) ?cs' (b_bins s) ?H"
      using f h hX v unfolding filed_def less bin by (auto simp: nth_upd)
    then show "filed (insert h X) (b_chunks ?s') (b_bins ?s') ?H" by (simp add: upd_chunk_def)
    have "account ?cs' ?H (st_bytes_in_use (b_stats s) - int (c_size (?cs ! h))) (b_next_allocation_id s)"
      using a unfolding account_def sum by (auto simp: use' other inj_on_def)
    then show "account (b_chunks ?s') ?H (st_bytes_in_use (b_stats ?s')) (b_next_allocation_id ?s')"
      by (simp add: upd_chunk_def)
    have "coalesced (insert h X) ?cs' hs" if "coalesced X ?cs hs" for hs
      unfolding coalesced_def
      by (rule successively_mono [OF that [unfolded coalesced_def]]) (auto simp: other nth_upd)
    then show "\<forall>hs\<in>set L. coalesced (insert h X) (b_chunks ?s') hs"
      using w by (simp add: wf_def upd_chunk_def)
  qed (simp_all add: upd_chunk_def)
  have "live_allocs ?s' = (\<lambda>x. alloc_of (?cs' ! x)) ` (in_use_of ?cs ?H - {h})"
    using live_allocs_eq [OF wf'] by (simp add: upd_chunk_def use')
  also have "\<dots> = (\<lambda>x. alloc_of (?cs ! x)) ` (in_use_of ?cs ?H - {h})"
    by (rule image_cong) (auto simp: other)
  also have "\<dots> = (\<lambda>x. alloc_of (?cs ! x)) ` in_use_of ?cs ?H - {alloc_of (?cs ! h)}"
    using inj_on_image_set_diff [OF alloc_of_inj [OF w], of "in_use_of ?cs ?H" "{h}"] h
    by (auto simp: in_use_of_def)
  finally have "live_allocs ?s' = live_allocs s - {alloc_of (?cs ! h)}"
    by (simp add: live_allocs_eq [OF w])
  with r wf' show thesis by (intro that [of ?s']) (auto simp: same_env_def upd_chunk_def)
qed

lemma use_chunk_ok:
  assumes w: "wf X L fl s" and h: "h \<in> X"
    and n: "0 < num_bytes" "num_bytes \<le> c_size (b_chunks s ! h)"
  obtains s' where "use_chunk h num_bytes s = (c_ptr (b_chunks s ! h), s')" "wf (X - {h}) L fl s'"
    "live_allocs s' = insert (c_ptr (b_chunks s ! h), num_bytes, c_size (b_chunks s ! h), b_next_allocation_id s)
       (live_allocs s)" "same_env s s'"
    "b_next_allocation_id s' = b_next_allocation_id s + 1"
    "st_bytes_in_use (b_stats s') = st_bytes_in_use (b_stats s) + int (c_size (b_chunks s ! h))"
proof -
  let ?cs = "b_chunks s" and ?H = "handles_of L" and ?id = "b_next_allocation_id s"
  let ?c' = "(?cs ! h)\<lparr>c_requested_size := num_bytes, c_allocation_id := ?id\<rparr>"
  let ?cs' = "?cs[h := ?c']"
  obtain s' where u: "use_chunk h num_bytes s = (c_ptr (?cs ! h), s')" and
    s': "b_chunks s' = ?cs'" "b_bins s' = b_bins s" "b_regions s' = b_regions s"
      "b_free_chunks_list s' = b_free_chunks_list s" "b_next_allocation_id s' = ?id + 1"
      "st_bytes_in_use (b_stats s') = st_bytes_in_use (b_stats s) + int (c_size (?cs ! h))" "same_env s s'"
    by (simp add: use_chunk_def Let_def upd_chunk_def same_env_def)
  have f: "filed X ?cs (b_bins s) ?H" by (rule wf_filed [OF w])
  have H: "h \<in> ?H" using f h by (auto simp: filed_def)
  have v: "h < length ?cs" using wf_handles(4) [OF w H] by (simp add: valid_handle_def)
  have free: "\<not> c_in_use (?cs ! h)" "c_bin_num (?cs ! h) = None" using filed_chunk [OF f H] h by auto
  have a: "account ?cs ?H (st_bytes_in_use (b_stats s)) ?id" using w by (simp add: wf_def)
  then have id: "0 < ?id" by (simp add: account_def)
  have notin: "h \<notin> in_use_of ?cs ?H" using free by (simp add: in_use_of_def)
  have use': "in_use_of ?cs' ?H = insert h (in_use_of ?cs ?H)"
    using v id H by (auto simp: in_use_of_def nth_upd)
  have other: "?cs' ! x = ?cs ! x" if "x \<in> in_use_of ?cs ?H" for x
    using that notin by (auto simp: nth_upd)
  have self: "?cs' ! h = ?c'" using v by simp
  have rest: "(\<Sum>x\<in>in_use_of ?cs ?H. int (c_size (?cs' ! x))) = (\<Sum>x\<in>in_use_of ?cs ?H. int (c_size (?cs ! x)))"
    by (intro sum.cong) (auto simp: other)
  have less: "chunk_less ?cs' = chunk_less ?cs" by (intro ext chunk_less_cong) (simp_all add: nth_upd)
  have bin: "filed_in (X - {h}) ?cs' ?H b = filed_in X ?cs ?H b" for b
    using h v id by (auto simp: filed_in_def nth_upd)
  have wf': "wf (X - {h}) L fl s'"
  proof (rule wf_upd_inner [OF w H s'(1)])
    show "filed (X - {h}) (b_chunks s') (b_bins s') ?H"
      using f free id v unfolding filed_def s' less bin by (auto simp: nth_upd)
    have "inj_on (\<lambda>x. c_allocation_id (?cs' ! x)) (in_use_of ?cs ?H)"
      using a by (simp add: account_def other cong: inj_on_cong)
    moreover have "?id \<noteq> c_allocation_id (?cs' ! x)" if "x \<in> in_use_of ?cs ?H" for x
      using a that by (auto simp: account_def other [OF that])
    then have "?id \<notin> (\<lambda>x. c_allocation_id (?cs' ! x)) ` (in_use_of ?cs ?H - {h})" by blast
    then have "c_allocation_id (?cs' ! h) \<notin> (\<lambda>x. c_allocation_id (?cs' ! x)) ` (in_use_of ?cs ?H - {h})"
      unfolding self by simp
    ultimately have "inj_on (\<lambda>x. c_allocation_id (?cs' ! x)) (insert h (in_use_of ?cs ?H))"
      unfolding inj_on_insert by blast
    then have "account ?cs' ?H (st_bytes_in_use (b_stats s) + int (c_size (?cs ! h))) (?id + 1)"
      using a notin id n unfolding account_def use' by (auto simp: rest self other)
    then show "account (b_chunks s') ?H (st_bytes_in_use (b_stats s')) (b_next_allocation_id s')"
      by (simp add: s')
    have "coalesced (X - {h}) ?cs' hs" if "coalesced X ?cs hs" for hs
      unfolding coalesced_def
      by (rule successively_mono [OF that [unfolded coalesced_def]]) (use v id in \<open>auto simp: nth_upd\<close>)
    then show "\<forall>hs\<in>set L. coalesced (X - {h}) (b_chunks s') hs"
      using w by (simp add: wf_def s')
  qed (simp_all add: s')
  have "live_allocs s' = (\<lambda>x. alloc_of (?cs' ! x)) ` insert h (in_use_of ?cs ?H)"
    using live_allocs_eq [OF wf'] by (simp add: s' use')
  also have "\<dots> = insert (alloc_of ?c') ((\<lambda>x. alloc_of (?cs ! x)) ` in_use_of ?cs ?H)"
    using self other by (simp add: image_def) (auto simp: other)
  finally have "live_allocs s' = insert (c_ptr (?cs ! h), num_bytes, c_size (?cs ! h), ?id) (live_allocs s)"
    by (simp add: live_allocs_eq [OF w] alloc_of_def)
  with u wf' s' show thesis by (intro that [of s']) auto
qed

section \<open>Merging\<close>

text \<open>Two neighbouring links of a chain become one.\<close>

lemma chain_merge:
  assumes ch: "chain cs pv p (A @ h1 # h2 # B) nx e" and len: "length cs' = length cs"
    and h1: "c_ptr (cs' ! h1) = c_ptr (cs ! h1)" "c_size (cs' ! h1) = c_size (cs ! h1) + c_size (cs ! h2)"
      "c_prev (cs' ! h1) = c_prev (cs ! h1)" "c_next (cs' ! h1) = c_next (cs ! h2)"
    and b: "\<And>b B'. B = b # B' \<Longrightarrow> c_ptr (cs' ! b) = c_ptr (cs ! b) \<and> c_size (cs' ! b) = c_size (cs ! b) \<and>
      c_next (cs' ! b) = c_next (cs ! b) \<and> c_prev (cs' ! b) = Some h1"
    and same: "\<forall>h\<in>set A \<union> set (tl B). same_place cs cs' h"
  shows "chain cs' pv p (A @ h1 # B) nx e"
proof -
  obtain q where A: "chain cs pv p A (Some h1) q" and rest: "chain cs (last_or pv A) q (h1 # h2 # B) nx e"
    using ch by (auto simp: chain_append)
  have A': "chain cs' pv p A (Some h1) q" using A by (rule chain_cong) (use same len in auto)
  have B: "chain cs (Some h2) (q + c_size (cs ! h1) + c_size (cs ! h2)) B nx e"
    using rest by (simp add: add.assoc)
  have B': "chain cs' (Some h1) (q + c_size (cs ! h1) + c_size (cs ! h2)) B nx e"
  proof (cases B)
    case (Cons x xs)
    then have "chain cs (Some x) (c_ptr (cs ! x) + c_size (cs ! x)) xs nx e" using B by simp
    then have "chain cs' (Some x) (c_ptr (cs ! x) + c_size (cs ! x)) xs nx e"
      by (rule chain_cong) (use same len Cons in auto)
    then show ?thesis using B b [OF Cons] len Cons by simp
  qed (use B in simp)
  have "chain cs' (last_or pv A) q (h1 # B) nx e"
    using rest B' h1 len by (simp add: add.assoc)
  with A' show ?thesis by (auto simp: chain_append)
qed

lemma region_ok_merge:
  assumes r: "region_ok cs r (A @ h1 # h2 # B)" and ch: "chain cs' None (r_ptr r) (A @ h1 # B) None (r_end_ptr r)"
    and i: "i < length (r_handles r)" "c_ptr (cs ! h2) = r_ptr r + 256 * i"
    and ptr: "\<forall>h\<in>set (A @ h1 # B). c_ptr (cs' ! h) = c_ptr (cs ! h)"
  shows "region_ok cs' (r\<lparr>r_handles := (r_handles r)[i := None]\<rparr>) (A @ h1 # B)"
proof -
  have old: "chain cs None (r_ptr r) (A @ h1 # h2 # B) None (r_end_ptr r)" using r by (simp add: region_ok_def)
  have h2: "h2 \<notin> set (A @ h1 # B)" using chain_distinct [OF old] by auto
  have ne: "c_ptr (cs ! h) \<noteq> c_ptr (cs ! h2)" if "h \<in> set (A @ h1 # B)" for h
    using chain_disjoint [OF old, of h h2] chain_bounds [OF old, of h] chain_bounds [OF old, of h2] that h2 by force
  have gone: "c_ptr (cs' ! h) \<noteq> r_ptr r + 256 * i" if m: "h \<in> set (A @ h1 # B)" for h
    using ne [OF m] bspec [OF ptr m] i(2) by simp
  have kept: "r_handles r ! j = Some h \<longleftrightarrow> h \<in> set (A @ h1 # B) \<and> c_ptr (cs' ! h) = r_ptr r + 256 * j"
    if "j < length (r_handles r)" "j \<noteq> i" for j h
  proof -
    have "r_handles r ! j = Some h \<longleftrightarrow> h \<in> set (A @ h1 # h2 # B) \<and> c_ptr (cs ! h) = r_ptr r + 256 * j"
      using r that by (simp add: region_ok_def)
    with ptr i that show ?thesis by auto
  qed
  have "(r_handles r)[i := None] ! j = Some h \<longleftrightarrow>
      h \<in> set (A @ h1 # B) \<and> c_ptr (cs' ! h) = r_ptr r + 256 * j" if "j < length (r_handles r)" for j h
    using gone [of h] kept [of j h] that by (cases "j = i") auto
  then show ?thesis
    using ch r by (simp add: region_ok_def r_end_ptr_def)
qed

definition head_chunk :: "(chunk \<Rightarrow> chunk) \<Rightarrow> handle list \<Rightarrow> chunk list \<Rightarrow> chunk list" where
  "head_chunk f B cs = (case B of [] \<Rightarrow> cs | b # _ \<Rightarrow> cs[b := f (cs ! b)])"

lemma length_head_chunk [simp]: "length (head_chunk f B cs) = length cs"
  by (simp add: head_chunk_def split: list.split)

lemma head_chunk_nth:
  "head_chunk f B cs ! x = (if B \<noteq> [] \<and> x = hd B \<and> x < length cs then f (cs ! x) else cs ! x)"
  by (auto simp: head_chunk_def nth_upd split: list.split)

text \<open>The state after a merge, written down at once.\<close>

lemma Merge_result:
  assumes w: "wf X L fl s" and L: "L = L1 @ (A @ h1 # h2 # B) # L2" and X: "h1 \<in> X" "h2 \<in> X"
    and rs: "b_regions s = rs1 @ r # rs2" "region_ok (b_chunks s) r (A @ h1 # h2 # B)"
  obtains i cs' s' where "Merge h1 h2 s = Inr s'"
    "i < length (r_handles r)" "c_ptr (b_chunks s ! h2) = r_ptr r + 256 * i"
    "s' = s\<lparr>b_regions := rs1 @ r\<lparr>r_handles := (r_handles r)[i := None]\<rparr> # rs2,
       b_chunks := cs', b_free_chunks_list := Some h2\<rparr>"
    "length cs' = length (b_chunks s)"
    "cs' ! h1 = (b_chunks s ! h1)\<lparr>c_next := c_next (b_chunks s ! h2),
       c_size := c_size (b_chunks s ! h1) + c_size (b_chunks s ! h2), c_freed_at_count := 0\<rparr>"
    "cs' ! h2 = (b_chunks s ! h2)\<lparr>c_allocation_id := -1, c_bin_num := None,
       c_next := b_free_chunks_list s\<rparr>"
    "\<forall>b B'. B = b # B' \<longrightarrow> cs' ! b = (b_chunks s ! b)\<lparr>c_prev := Some h1\<rparr>"
    "\<forall>h. h \<noteq> h1 \<longrightarrow> h \<noteq> h2 \<longrightarrow> h \<notin> set (take 1 B) \<longrightarrow> cs' ! h = b_chunks s ! h"
proof -
  let ?cs = "b_chunks s" and ?H = "handles_of L"
  have ch: "chain ?cs None (r_ptr r) (A @ h1 # h2 # B) None (r_end_ptr r)" using rs by (simp add: region_ok_def)
  have d: "distinct (A @ h1 # h2 # B)" using ch by (rule chain_distinct)
  have H: "h1 \<in> ?H" "h2 \<in> ?H" "set B \<subseteq> ?H" by (auto simp: L)
  note v = wf_handles(4) [OF w H(1)] wf_handles(4) [OF w H(2)]
  have vB: "\<forall>b\<in>set B. valid_handle s b" using H(3) wf_handles(4) [OF w] by auto
  have f: "filed X ?cs (b_bins s) ?H" by (rule wf_filed [OF w])
  note fc = filed_chunk [OF f H(1)] filed_chunk [OF f H(2)]
  have links: "c_prev (?cs ! h2) = Some h1" "c_next (?cs ! h2) = head_or B None"
    "c_ptr (?cs ! h2) = c_ptr (?cs ! h1) + c_size (?cs ! h1)"
    using ch by (auto simp: chain_append)
  have "c_ptr (?cs ! h2) + c_size (?cs ! h2) < 2 ^ 64" using lay_bounds(5) [OF wf_lay [OF w] H(2)] .
  then have sz: "size_wrap (c_size (?cs ! h1) + c_size (?cs ! h2)) = c_size (?cs ! h1) + c_size (?cs ! h2)"
    using links(3) by simp
  have "h2 \<in> set (A @ h1 # h2 # B)" by simp
  then obtain i where i: "i < length (r_handles r)" "c_ptr (?cs ! h2) = r_ptr r + 256 * i"
    "r_handles r ! i = Some h2" "rm_get_handle (rs1 @ r # rs2) (c_ptr (?cs ! h2)) = Inr (Some h2)"
    "\<forall>v. rm_set_handle (c_ptr (?cs ! h2)) v (rs1 @ r # rs2) =
       Inr (rs1 @ r\<lparr>r_handles := (r_handles r)[i := v]\<rparr> # rs2)"
    by (rule region_chunk_slot [OF wf_lay [OF w, unfolded rs(1)] rs(2)])
  let ?n = "c_next (?cs ! h2)"
  define cs2 where "cs2 = head_chunk (\<lambda>c. c\<lparr>c_prev := Some h1\<rparr>) B (?cs[h1 := (?cs ! h1)\<lparr>c_next := ?n\<rparr>])"
  define cs3 where "cs3 = cs2[h1 := (cs2 ! h1)\<lparr>c_size := size_wrap (c_size (cs2 ! h1) + c_size (?cs ! h2)),
      c_freed_at_count := max (c_freed_at_count (cs2 ! h1)) (c_freed_at_count (?cs ! h2))\<rparr>]"
  define cs4 where "cs4 = cs3[h2 := (cs3 ! h2)\<lparr>c_allocation_id := -1, c_bin_num := None,
      c_next := b_free_chunks_list s\<rparr>]"
  have len: "length cs2 = length ?cs" "length cs3 = length ?cs" "length cs4 = length ?cs"
    by (simp_all add: cs2_def cs3_def cs4_def)
  have lt: "h1 < length ?cs" "h2 < length ?cs" using v by (simp_all add: valid_handle_def)
  have hdB: "b = hd B \<Longrightarrow> B \<noteq> [] \<Longrightarrow> b \<in> set B" for b by simp
  have at1: "cs2 ! h1 = (?cs ! h1)\<lparr>c_next := ?n\<rparr>"
    using d lt by (auto simp: cs2_def head_chunk_nth nth_upd)
  have at2: "cs3 ! h2 = ?cs ! h2"
    using d lt by (auto simp: cs3_def cs2_def head_chunk_nth nth_upd)
  have step: "(case ?n of None \<Rightarrow> Inr (upd_chunk h1 (\<lambda>c. c\<lparr>c_next := ?n\<rparr>) s)
     | Some h3 \<Rightarrow> defined_if (valid_handle (upd_chunk h1 (\<lambda>c. c\<lparr>c_next := ?n\<rparr>) s) h3)
         (Inr (upd_chunk h3 (\<lambda>c. c\<lparr>c_prev := Some h1\<rparr>) (upd_chunk h1 (\<lambda>c. c\<lparr>c_next := ?n\<rparr>) s))))
     = Inr (s\<lparr>b_chunks := cs2\<rparr>)"
    using vB links(2) by (cases B) (auto simp: cs2_def head_chunk_def upd_chunk_def valid_handle_def)
  let ?s' = "s\<lparr>b_regions := rs1 @ r\<lparr>r_handles := (r_handles r)[i := None]\<rparr> # rs2,
       b_chunks := cs4, b_free_chunks_list := Some h2\<rparr>"
  have del: "DeleteChunk h2 (s\<lparr>b_chunks := cs3\<rparr>) = Inr ?s'"
    using lt len at2 i(5) by (simp add: DeleteChunk_def valid_handle_def rm_erase_def rs(1) DeallocateChunk_def
        upd_chunk_def cs4_def)
  have "Merge h1 h2 s = DeleteChunk h2 (s\<lparr>b_chunks := cs3\<rparr>)"
    using v fc X links(1) step
    by (simp add: Merge_def Let_def) (simp add: upd_chunk_def cs3_def)
  then have "Merge h1 h2 s = Inr ?s'" using del by simp
  then show thesis
  proof (rule that)
    show "i < length (r_handles r)" "c_ptr (?cs ! h2) = r_ptr r + 256 * i" by (fact i)+
    show "length cs4 = length ?cs" by (fact len)
    show "cs4 ! h1 = (?cs ! h1)\<lparr>c_next := ?n, c_size := c_size (?cs ! h1) + c_size (?cs ! h2),
        c_freed_at_count := 0\<rparr>"
      using d lt len at1 sz fc by (auto simp: cs4_def cs3_def nth_upd)
    show "cs4 ! h2 = (?cs ! h2)\<lparr>c_allocation_id := -1, c_bin_num := None, c_next := b_free_chunks_list s\<rparr>"
      using lt len at2 by (simp add: cs4_def)
    show "\<forall>b B'. B = b # B' \<longrightarrow> cs4 ! b = (?cs ! b)\<lparr>c_prev := Some h1\<rparr>"
      using d vB by (auto simp: cs4_def cs3_def cs2_def head_chunk_nth nth_upd valid_handle_def)
    show "\<forall>h. h \<noteq> h1 \<longrightarrow> h \<noteq> h2 \<longrightarrow> h \<notin> set (take 1 B) \<longrightarrow> cs4 ! h = ?cs ! h"
      by (cases B) (auto simp: cs4_def cs3_def cs2_def head_chunk_nth nth_upd)
  qed (rule refl)
qed

text \<open>The bins stay as they are when the chunks that are filed do, whatever happens to the others.\<close>

definition same_file :: "chunk \<Rightarrow> chunk \<Rightarrow> bool" where
  "same_file c c' \<longleftrightarrow> c_size c' = c_size c \<and> c_ptr c' = c_ptr c \<and> c_allocation_id c' = c_allocation_id c \<and>
     c_bin_num c' = c_bin_num c \<and> c_freed_at_count c' = c_freed_at_count c"

lemma same_file_refl [simp]: "same_file c c"
  by (simp add: same_file_def)

lemma filed_cong:
  assumes f: "filed X cs bins H" and H: "X' \<subseteq> H'" "H' - X' = H - X"
    and same: "\<forall>h\<in>H - X. same_file (cs ! h) (cs' ! h)"
    and loose: "\<forall>h\<in>X'. spare (cs' ! h)"
  shows "filed X' cs' bins H'"
proof -
  have same': "\<forall>h\<in>H' - X'. same_file (cs ! h) (cs' ! h)" using same H(2) by blast
  have bin: "filed_in X' cs' H' b = filed_in X cs H b" for b
  proof -
    have "filed_in X' cs' H' b = {h \<in> H' - X'. \<not> c_in_use (cs' ! h) \<and> BinNumForSize (c_size (cs' ! h)) = b}"
      by (auto simp: filed_in_def)
    also have "\<dots> = {h \<in> H' - X'. \<not> c_in_use (cs ! h) \<and> BinNumForSize (c_size (cs ! h)) = b}"
      using same' by (auto simp: same_file_def c_in_use_def)
    also have "\<dots> = filed_in X cs H b" unfolding H(2) by (auto simp: filed_in_def)
    finally show ?thesis .
  qed
  have "sorted_wrt (chunk_less cs') (bins ! b)" if "b < kNumBins" for b
  proof (rule sorted_wrt_mono_rel)
    show "sorted_wrt (chunk_less cs) (bins ! b)" using f that by (simp add: filed_def)
    fix x y
    assume "x \<in> set (bins ! b)" "y \<in> set (bins ! b)" "chunk_less cs x y"
    moreover have "set (bins ! b) \<subseteq> H - X" using f that by (auto simp: filed_def filed_in_def)
    ultimately show "chunk_less cs' x y"
      using same chunk_less_cong [of cs' x cs y] by (auto simp: same_file_def)
  qed
  moreover have "c_freed_at_count (cs' ! h) = 0 \<and> (h \<in> X' \<longrightarrow> \<not> c_in_use (cs' ! h)) \<and>
      c_bin_num (cs' ! h) = (if c_in_use (cs' ! h) \<or> h \<in> X' then None else Some (BinNumForSize (c_size (cs' ! h))))"
    if h: "h \<in> H'" for h
  proof (cases "h \<in> X'")
    case True
    then show ?thesis using loose by (simp add: spare_def)
  next
    case False
    then have "h \<in> H" "h \<notin> X" "same_file (cs ! h) (cs' ! h)" using h H(2) same' by auto
    with filed_chunk [OF f, of h] False show ?thesis by (simp add: same_file_def c_in_use_def)
  qed
  ultimately show ?thesis using f H(1) by (simp add: filed_def bin)
qed

lemma loose_spare: "filed X cs bins H \<Longrightarrow> h \<in> X \<Longrightarrow> spare (cs ! h)"
  using filed_chunk [of X cs bins H h] by (auto simp: filed_def spare_def)

lemma coalesced_merge:
  assumes "coalesced X cs (A @ h1 # h2 # B)" "h1 \<in> X'" "X \<inter> (set A \<union> set B) \<subseteq> X'"
    and "\<forall>h\<in>set A \<union> set B. c_in_use (cs' ! h) = c_in_use (cs ! h)"
  shows "coalesced X' cs' (A @ h1 # B)"
proof -
  have "coalesced X cs A" "coalesced X cs B"
    using assms(1) by (auto simp: coalesced_def successively_append_iff successively_Cons)
  then have "coalesced X' cs' A" "coalesced X' cs' B" using assms(3,4) by (auto intro: coalesced_cong)
  then show ?thesis using assms(2) by (simp add: coalesced_def successively_append_iff successively_Cons)
qed

lemma Merge_ok:
  assumes w: "wf X L fl s" and L: "L = L1 @ (A @ h1 # h2 # B) # L2" and X: "h1 \<in> X" "h2 \<in> X"
  obtains s' where "Merge h1 h2 s = Inr s'" "wf (X - {h2}) (L1 @ (A @ h1 # B) # L2) (h2 # fl) s'"
    "live_allocs s' = live_allocs s" "same_env s s'"
    "\<forall>h. c_in_use (b_chunks s' ! h) = c_in_use (b_chunks s ! h)" "b_stats s' = b_stats s"
proof -
  let ?cs = "b_chunks s" and ?L = "L1 @ (A @ h1 # B) # L2"
  have lay: "lay ?cs (b_regions s) L" by (rule wf_lay [OF w])
  have "list_all2 (region_ok ?cs) (b_regions s) (L1 @ (A @ h1 # h2 # B) # L2)" using lay L by (simp add: lay_def)
  then obtain rs1 r rs2 where rs: "b_regions s = rs1 @ r # rs2" "length rs1 = length L1"
    "region_ok ?cs r (A @ h1 # h2 # B)"
    by (auto simp: list_all2_append2 list_all2_Cons2)
  obtain i cs' s' where m: "Merge h1 h2 s = Inr s'" and
    i: "i < length (r_handles r)" "c_ptr (?cs ! h2) = r_ptr r + 256 * i" and
    s': "s' = s\<lparr>b_regions := rs1 @ r\<lparr>r_handles := (r_handles r)[i := None]\<rparr> # rs2,
       b_chunks := cs', b_free_chunks_list := Some h2\<rparr>" and
    len: "length cs' = length ?cs" and
    at1: "cs' ! h1 = (?cs ! h1)\<lparr>c_next := c_next (?cs ! h2),
       c_size := c_size (?cs ! h1) + c_size (?cs ! h2), c_freed_at_count := 0\<rparr>" and
    at2: "cs' ! h2 = (?cs ! h2)\<lparr>c_allocation_id := -1, c_bin_num := None, c_next := b_free_chunks_list s\<rparr>" and
    at3: "\<forall>b B'. B = b # B' \<longrightarrow> cs' ! b = (?cs ! b)\<lparr>c_prev := Some h1\<rparr>" and
    all4: "\<forall>h. h \<noteq> h1 \<longrightarrow> h \<noteq> h2 \<longrightarrow> h \<notin> set (take 1 B) \<longrightarrow> cs' ! h = ?cs ! h"
    by (rule Merge_result [OF w L X rs(1,3)])
  have at4: "cs' ! h = ?cs ! h" if "h \<noteq> h1" "h \<noteq> h2" "h \<notin> set (take 1 B)" for h
    using all4 that by blast
  have d: "distinct (concat L)" using w by (simp add: wf_def)
  have f: "filed X ?cs (b_bins s) (handles_of L)" by (rule wf_filed [OF w])
  have free: "spare (?cs ! h1)" "spare (?cs ! h2)" using loose_spare [OF f] X by auto
  have atB: "cs' ! h = (?cs ! h)\<lparr>c_prev := Some h1\<rparr> \<or> cs' ! h = ?cs ! h" if "h \<noteq> h1" "h \<noteq> h2" for h
    using at3 at4 [OF that] by (cases B) auto
  have ptr: "c_ptr (cs' ! h) = c_ptr (?cs ! h)" for h
    using atB [of h] at1 at2 by (cases "h = h1"; cases "h = h2") auto
  have H': "handles_of ?L = handles_of L - {h2}" using d by (auto simp: L handles_of_def)
  have H: "h1 \<in> handles_of L" "h2 \<in> handles_of L" by (simp_all add: L)
  have use: "c_in_use (cs' ! h) = c_in_use (?cs ! h)" for h
    using atB [of h] at1 at2 free by (cases "h = h1"; cases "h = h2") (auto simp: spare_def)
  have user: "same_user (?cs ! h) (cs' ! h)" if "c_in_use (?cs ! h)" for h
    using atB [of h] that free by (cases "h = h1 \<or> h = h2") (auto simp: spare_def same_user_def)
  have "lay cs' (rs1 @ r\<lparr>r_handles := (r_handles r)[i := None]\<rparr> # rs2) ?L"
  proof (rule lay_replace [OF lay [unfolded rs(1) L] rs(2)])
    have dr: "distinct (A @ h1 # h2 # B)" using d unfolding L by auto
    have ch: "chain ?cs None (r_ptr r) (A @ h1 # h2 # B) None (r_end_ptr r)" using rs by (simp add: region_ok_def)
    have "chain cs' None (r_ptr r) (A @ h1 # B) None (r_end_ptr r)"
    proof (rule chain_merge [OF ch len])
      show "\<forall>h\<in>set A \<union> set (tl B). same_place ?cs cs' h"
        using dr by (cases B) (auto intro!: same_place_refl at4)
    qed (use at1 at3 in auto)
    then show "region_ok cs' (r\<lparr>r_handles := (r_handles r)[i := None]\<rparr>) (A @ h1 # B)"
    proof (rule region_ok_merge [OF rs(3) _ i])
      show "\<forall>h\<in>set (A @ h1 # B). c_ptr (cs' ! h) = c_ptr (?cs ! h)"
        using ptr by simp
    qed
    show "\<forall>h\<in>handles_of (L1 @ L2). same_place ?cs cs' h"
    proof
      fix h assume "h \<in> handles_of (L1 @ L2)"
      then have "h \<noteq> h1" "h \<noteq> h2" "h \<notin> set B" using d by (auto simp: L handles_of_def)
      then show "same_place ?cs cs' h" by (intro same_place_refl at4) (auto dest: in_set_takeD)
    qed
  qed (simp_all add: len)
  moreover have "distinct (concat ?L)" using d by (auto simp: L)
  moreover have "pool cs' (handles_of ?L) (Some h2) (h2 # fl)"
  proof -
    have p: "pool ?cs (handles_of L) (b_free_chunks_list s) fl" using w by (simp add: wf_def)
    have fl: "\<forall>h\<in>set fl. cs' ! h = ?cs ! h"
    proof
      fix h assume "h \<in> set fl"
      then have "h \<noteq> h1" "h \<noteq> h2" "h \<notin> set B" using wf_handles(2) [OF w] by (auto simp: L)
      then show "cs' ! h = ?cs ! h" by (intro at4) (auto dest: in_set_takeD)
    qed
    have "free_list cs' (b_free_chunks_list s) fl" using p fl by (auto simp: pool_def intro: free_list_cong)
    moreover have "spare (cs' ! h2)" using free by (simp add: at2 spare_def)
    ultimately show ?thesis
      using p fl at2 H len unfolding H' by (auto simp: pool_def)
  qed
  moreover have "filed (X - {h2}) cs' (b_bins s) (handles_of ?L)"
  proof (rule filed_cong [OF f])
    show "X - {h2} \<subseteq> handles_of ?L" "handles_of ?L - (X - {h2}) = handles_of L - X"
      using f X unfolding H' by (auto simp: filed_def)
    show "\<forall>h\<in>handles_of L - X. same_file (?cs ! h) (cs' ! h)"
    proof
      fix h assume "h \<in> handles_of L - X"
      then have "h \<noteq> h1" "h \<noteq> h2" using X by auto
      from atB [OF this] show "same_file (?cs ! h) (cs' ! h)" by (auto simp: same_file_def)
    qed
    show "\<forall>h\<in>X - {h2}. spare (cs' ! h)"
    proof
      fix h assume h: "h \<in> X - {h2}"
      then have "spare (?cs ! h)" using loose_spare [OF f] by simp
      with h atB [of h] at1 show "spare (cs' ! h)" by (cases "h = h1") (auto simp: spare_def)
    qed
  qed
  moreover have "account cs' (handles_of ?L) (st_bytes_in_use (b_stats s)) (b_next_allocation_id s)"
  proof (rule account_cong [of ?cs "handles_of L"])
    show "account ?cs (handles_of L) (st_bytes_in_use (b_stats s)) (b_next_allocation_id s)"
      using w by (simp add: wf_def)
    show "in_use_of cs' (handles_of ?L) = in_use_of ?cs (handles_of L)"
      using free unfolding H' by (auto simp: in_use_of_def use spare_def)
  qed (use user in \<open>auto simp: in_use_of_def\<close>)
  moreover have "coalesced (X - {h2}) cs' hs" if "hs \<in> set ?L" for hs
  proof (cases "hs = A @ h1 # B")
    case True
    have dr: "distinct (A @ h1 # h2 # B)" using d unfolding L by auto
    have "coalesced X ?cs (A @ h1 # h2 # B)" using w L by (simp add: wf_def)
    then show ?thesis
      unfolding True by (rule coalesced_merge) (use X dr use in auto)
  next
    case False
    then have "coalesced X ?cs hs" "h2 \<notin> set hs" using w that d by (auto simp: wf_def L)
    then show ?thesis using use by (auto intro: coalesced_cong)
  qed
  ultimately have "wf (X - {h2}) ?L (h2 # fl) s'" by (simp add: wf_def s')
  moreover have "live_allocs s' = live_allocs s"
    by (rule live_allocs_cong) (use use user len in \<open>auto simp: s' in_use_of_def\<close>)
  ultimately show thesis
    using m that [of s'] use by (simp add: s' same_env_def rs(1))
qed

section \<open>Coalescing\<close>

lemma fencedI:
  assumes "distinct (concat (L1 @ (A @ h # B) # L2))"
    and "A \<noteq> [] \<Longrightarrow> c_in_use (cs ! last A) \<or> last A \<in> Y" "B \<noteq> [] \<Longrightarrow> c_in_use (cs ! hd B) \<or> hd B \<in> Y"
  shows "fenced Y cs (L1 @ (A @ h # B) # L2) h"
  unfolding fenced_def
proof (intro allI impI)
  fix hs A' B'
  assume hs: "hs \<in> set (L1 @ (A @ h # B) # L2)" and split: "hs = A' @ h # B'"
  have "h \<notin> \<Union> (set ` set L1)" "h \<notin> \<Union> (set ` set L2)" and d: "h \<notin> set A" "h \<notin> set B"
    using assms(1) by auto
  with hs split have "A @ h # B = A' @ h # B'" by auto
  with d have "A' = A" "B' = B" by (auto simp: append_Cons_eq_iff)
  with assms(2,3) show "(A' \<noteq> [] \<longrightarrow> c_in_use (cs ! last A') \<or> last A' \<in> Y) \<and>
      (B' \<noteq> [] \<longrightarrow> c_in_use (cs ! hd B') \<or> hd B' \<in> Y)" by simp
qed

lemma wf_links:
  assumes "wf X (L1 @ (A @ h # B) # L2) fl s"
  shows "c_prev (b_chunks s ! h) = last_or None A" "c_next (b_chunks s ! h) = head_or B None"
proof -
  from wf_lay [OF assms] obtain r where "region_ok (b_chunks s) r (A @ h # B)"
    by (auto simp: lay_def list_all2_append2 list_all2_Cons2)
  then have "chain (b_chunks s) None (r_ptr r) (A @ h # B) None (r_end_ptr r)" by (simp add: region_ok_def)
  then show "c_prev (b_chunks s ! h) = last_or None A" "c_next (b_chunks s ! h) = head_or B None"
    by (auto simp: chain_append)
qed

lemma wf_coalesced:
  "wf X (L1 @ hs # L2) fl s \<Longrightarrow> coalesced X (b_chunks s) hs"
  by (simp add: wf_def)

text \<open>The chunk behind is merged in when it is free.\<close>

lemma coalesce_next:
  assumes w: "wf {h} (L1 @ (A @ h # B) # L2) fl s"
  obtains s1 B1 fl1 where
    "(case c_next (b_chunks s ! h) of None \<Rightarrow> Inr s
      | Some n \<Rightarrow> defined_if (valid_handle s n)
          (if may_merge s (Some n) False then bindE (RemoveFreeChunkFromBin n s) (Merge h n) else Inr s)) = Inr s1"
    "wf {h} (L1 @ (A @ h # B1) # L2) fl1 s1" "B1 \<noteq> [] \<longrightarrow> c_in_use (b_chunks s1 ! hd B1)"
    "live_allocs s1 = live_allocs s" "same_env s s1"
proof (cases B)
  case Nil
  then show ?thesis using that [of s "[]" fl] w wf_links(2) [OF w] by simp
next
  case (Cons b B')
  let ?L = "L1 @ (A @ h # b # B') # L2"
  have w': "wf {h} ?L fl s" using w Cons by simp
  have b: "b \<in> handles_of ?L" by simp
  have nx: "c_next (b_chunks s ! h) = Some b" using wf_links(2) [OF w] Cons by simp
  have v: "valid_handle s b" using w' b by (rule wf_handles(4))
  have fz: "c_freed_at_count (b_chunks s ! b) = 0" using filed_chunk [OF wf_filed [OF w'] b] by simp
  have d: "distinct (concat ?L)" using w' by (simp add: wf_def)
  then have ne: "b \<noteq> h" "h \<notin> set B'" by auto
  show ?thesis
  proof (cases "c_in_use (b_chunks s ! b)")
    case True
    then show ?thesis using that [of s B fl] w nx v Cons by (simp add: may_merge_def)
  next
    case False
    obtain s1 where r: "RemoveFreeChunkFromBin b s = Inr s1" and w1: "wf (insert b {h}) ?L fl s1"
      and l1: "live_allocs s1 = live_allocs s" and e1: "same_env s s1"
      and c1: "b_chunks s1 = (b_chunks s)[b := (b_chunks s ! b)\<lparr>c_bin_num := None\<rparr>]"
      and "st_bytes_in_use (b_stats s1) = st_bytes_in_use (b_stats s)"
      by (rule RemoveFreeChunkFromBin_ok [OF w' b False]) (use ne in auto)
    obtain s2 where m: "Merge h b s1 = Inr s2" and w2: "wf ({b, h} - {b}) (L1 @ (A @ h # B') # L2) (b # fl) s2"
      and l2: "live_allocs s2 = live_allocs s1" and e2: "same_env s1 s2"
      and u2: "\<forall>x. c_in_use (b_chunks s2 ! x) = c_in_use (b_chunks s1 ! x)"
      and "b_stats s2 = b_stats s1"
      by (rule Merge_ok [OF w1 refl]) simp_all
    have "coalesced {h} (b_chunks s) (A @ h # b # B')" using wf_coalesced [OF w'] .
    then have "B' \<noteq> [] \<longrightarrow> c_in_use (b_chunks s ! hd B')"
      using False ne by (cases B') (auto simp: coalesced_def successively_append_iff successively_Cons)
    then have "B' \<noteq> [] \<longrightarrow> c_in_use (b_chunks s2 ! hd B')" using u2 by (auto simp: c1 nth_upd)
    moreover have "{b, h} - {b} = {h}" using ne by auto
    ultimately show ?thesis
      using that [of s2 B' "b # fl"] nx v r m w2 l1 l2 False fz same_env_trans [OF e1 e2]
      by (simp add: may_merge_def)
  qed
qed

lemma TryToCoalesce_ok:
  assumes w: "wf {h} L fl s"
  obtains h' L' fl' s' where "TryToCoalesce h False s = Inr (h', s')" "wf {h'} L' fl' s'"
    "live_allocs s' = live_allocs s" "same_env s s'" "fenced {} (b_chunks s') L' h'"
proof -
  have H: "h \<in> handles_of L" using wf_filed [OF w] by (auto simp: filed_def)
  then obtain L1 L2 A B where L: "L = L1 @ (A @ h # B) # L2"
    using lay_locate [OF wf_lay [OF w] H] by metis
  have fz: "c_freed_at_count (b_chunks s ! h) = 0" using filed_chunk [OF wf_filed [OF w] H] by simp
  have v: "valid_handle s h" using w H by (rule wf_handles(4))
  obtain s1 B1 fl1 where n: "(case c_next (b_chunks s ! h) of None \<Rightarrow> Inr s
      | Some n \<Rightarrow> defined_if (valid_handle s n)
          (if may_merge s (Some n) False then bindE (RemoveFreeChunkFromBin n s) (Merge h n) else Inr s)) = Inr s1"
    and w1: "wf {h} (L1 @ (A @ h # B1) # L2) fl1 s1" and B1: "B1 \<noteq> [] \<longrightarrow> c_in_use (b_chunks s1 ! hd B1)"
    and l1: "live_allocs s1 = live_allocs s" and e1: "same_env s s1"
    by (rule coalesce_next [OF w [unfolded L]])
  have d1: "distinct (concat (L1 @ (A @ h # B1) # L2))" using w1 by (simp add: wf_def)
  have pv: "c_prev (b_chunks s1 ! h) = last_or None A" by (rule wf_links(1) [OF w1])
  show thesis
  proof (cases A rule: rev_cases)
    case Nil
    have "fenced {} (b_chunks s1) (L1 @ (A @ h # B1) # L2) h"
      by (rule fencedI [OF d1]) (use B1 Nil in auto)
    then show thesis
      using that [of h s1 _ fl1] n w1 l1 e1 v fz pv Nil by (simp add: TryToCoalesce_def)
  next
    case (snoc A' p)
    let ?L = "L1 @ (A' @ p # h # B1) # L2"
    have w1': "wf {h} ?L fl1 s1" using w1 snoc by simp
    have p: "p \<in> handles_of ?L" by simp
    have vp: "valid_handle s1 p" using w1' p by (rule wf_handles(4))
    have fp: "c_freed_at_count (b_chunks s1 ! p) = 0" using filed_chunk [OF wf_filed [OF w1'] p] by simp
    have pv': "c_prev (b_chunks s1 ! h) = Some p" using pv snoc by (simp add: last_or_def)
    have ne: "p \<noteq> h" "h \<notin> set A'" using d1 snoc by auto
    show thesis
    proof (cases "c_in_use (b_chunks s1 ! p)")
      case True
      have "fenced {} (b_chunks s1) (L1 @ (A @ h # B1) # L2) h"
        by (rule fencedI [OF d1]) (use B1 snoc True in auto)
      then show thesis
        using that [of h s1 _ fl1] n w1 l1 e1 v vp fz pv' True by (simp add: TryToCoalesce_def may_merge_def)
    next
      case False
      obtain s2 where r: "RemoveFreeChunkFromBin p s1 = Inr s2" and w2: "wf (insert p {h}) ?L fl1 s2"
        and l2: "live_allocs s2 = live_allocs s1" and e2: "same_env s1 s2"
        and c2: "b_chunks s2 = (b_chunks s1)[p := (b_chunks s1 ! p)\<lparr>c_bin_num := None\<rparr>]"
        and "st_bytes_in_use (b_stats s2) = st_bytes_in_use (b_stats s1)"
        by (rule RemoveFreeChunkFromBin_ok [OF w1' p False]) (use ne in auto)
      obtain s3 where m: "Merge p h s2 = Inr s3" and w3: "wf ({p, h} - {h}) (L1 @ (A' @ p # B1) # L2) (h # fl1) s3"
        and l3: "live_allocs s3 = live_allocs s2" and e3: "same_env s2 s3"
        and u3: "\<forall>x. c_in_use (b_chunks s3 ! x) = c_in_use (b_chunks s2 ! x)"
        and "b_stats s3 = b_stats s2"
        by (rule Merge_ok [OF w2 refl]) simp_all
      have X: "{p, h} - {h} = {p}" using ne by auto
      have "coalesced {h} (b_chunks s1) (A' @ p # h # B1)" using wf_coalesced [OF w1'] .
      then have "A' \<noteq> [] \<longrightarrow> c_in_use (b_chunks s1 ! last A')"
        using False ne by (auto simp: coalesced_def successively_append_iff)
      then have "fenced {} (b_chunks s3) (L1 @ (A' @ p # B1) # L2) p"
        using w3 B1 u3 by (intro fencedI) (auto simp: wf_def c2 nth_upd)
      then show thesis
        using that [of p s3 _ "h # fl1"] n w3 l1 l2 l3 e1 e2 e3 v vp fz fp pv' False r m X
        by (simp add: TryToCoalesce_def may_merge_def) (metis same_env_trans)
    qed
  qed
qed

section \<open>Splitting\<close>

text \<open>A fresh chunk record, off the list of spare ones or at the end of the vector.\<close>

lemma AllocateChunk_ok:
  assumes p: "pool (b_chunks s) H (b_free_chunks_list s) fl"
  obtains h cs1 head1 fl1 where
    "AllocateChunk s = Inr (h, s\<lparr>b_chunks := cs1, b_free_chunks_list := head1\<rparr>)"
    "h \<notin> H" "h < length cs1" "spare (cs1 ! h)" "\<forall>x\<in>H. cs1 ! x = b_chunks s ! x"
    "length (b_chunks s) \<le> length cs1" "h \<notin> set fl1" "pool cs1 (insert h H) head1 fl1"
    "in_use_of cs1 {..<length cs1} = in_use_of (b_chunks s) {..<length (b_chunks s)}"
proof (cases fl)
  case Nil
  let ?cs1 = "b_chunks s @ [chunk_init]" and ?h = "length (b_chunks s)"
  have head: "b_free_chunks_list s = None" and H: "H = {..<?h}" using p Nil by (simp_all add: pool_def)
  have sp: "spare chunk_init" by (simp add: spare_def chunk_init_def c_in_use_def)
  have "AllocateChunk s = Inr (?h, s\<lparr>b_chunks := ?cs1, b_free_chunks_list := None\<rparr>)"
    using head by (simp add: AllocateChunk_def)
  then show thesis
  proof (rule that [of _ _ _ "[]"])
    show "pool ?cs1 (insert ?h H) None []" using H by (auto simp: pool_def)
    show "in_use_of ?cs1 {..<length ?cs1} = in_use_of (b_chunks s) {..<length (b_chunks s)}"
      using sp by (auto simp: in_use_of_def nth_append less_Suc_eq spare_def)
  qed (use H sp in \<open>auto simp: nth_append\<close>)
next
  case (Cons h fl1)
  have "AllocateChunk s = Inr (h, s\<lparr>b_chunks := b_chunks s, b_free_chunks_list := c_next (b_chunks s ! h)\<rparr>)"
    using p Cons by (auto simp: AllocateChunk_def pool_def valid_handle_def)
  then show thesis
    by (rule that [of _ _ _ fl1]) (use p Cons in \<open>auto simp: pool_def\<close>)
qed

lemma chain_split:
  assumes ch: "chain cs pv p (A @ h # B) nx e" and len: "length cs \<le> length cs'" "n < length cs'"
    and sz: "0 < k" "256 dvd k" "k < c_size (cs ! h)"
    and h: "c_ptr (cs' ! h) = c_ptr (cs ! h)" "c_size (cs' ! h) = k"
      "c_prev (cs' ! h) = c_prev (cs ! h)" "c_next (cs' ! h) = Some n"
    and n: "c_ptr (cs' ! n) = c_ptr (cs ! h) + k" "c_size (cs' ! n) = c_size (cs ! h) - k"
      "c_prev (cs' ! n) = Some h" "c_next (cs' ! n) = c_next (cs ! h)"
    and b: "\<And>b B'. B = b # B' \<Longrightarrow> c_ptr (cs' ! b) = c_ptr (cs ! b) \<and> c_size (cs' ! b) = c_size (cs ! b) \<and>
      c_next (cs' ! b) = c_next (cs ! b) \<and> c_prev (cs' ! b) = Some n"
    and same: "\<forall>x\<in>set A \<union> set (tl B). same_place cs cs' x"
  shows "chain cs' pv p (A @ h # n # B) nx e"
proof -
  obtain q where A: "chain cs pv p A (Some h) q" and rest: "chain cs (last_or pv A) q (h # B) nx e"
    using ch by (auto simp: chain_append)
  have A': "chain cs' pv p A (Some h) q" using A by (rule chain_cong) (use same len in auto)
  have B: "chain cs (Some h) (q + c_size (cs ! h)) B nx e" using rest by simp
  have B': "chain cs' (Some n) (q + c_size (cs ! h)) B nx e"
  proof (cases B)
    case (Cons x xs)
    then have "chain cs (Some x) (c_ptr (cs ! x) + c_size (cs ! x)) xs nx e" using B by simp
    then have "chain cs' (Some x) (c_ptr (cs ! x) + c_size (cs ! x)) xs nx e"
      by (rule chain_cong) (use same len Cons in auto)
    then show ?thesis using B b [OF Cons] len Cons by auto
  qed (use B in simp)
  have "256 dvd c_size (cs ! h) - k" using rest sz(2) by (simp add: dvd_diff_nat)
  then have "chain cs' (last_or pv A) q (h # n # B) nx e"
    using rest B' h n sz len by auto
  with A' show ?thesis by (auto simp: chain_append)
qed

lemma region_ok_split:
  assumes r: "region_ok cs r (A @ h # B)" and ch: "chain cs' None (r_ptr r) (A @ h # n # B) None (r_end_ptr r)"
    and i: "i < length (r_handles r)" "c_ptr (cs' ! n) = r_ptr r + 256 * i"
    and ptr: "\<forall>x\<in>set (A @ h # B). c_ptr (cs' ! x) = c_ptr (cs ! x)"
  shows "region_ok cs' (r\<lparr>r_handles := (r_handles r)[i := Some n]\<rparr>) (A @ h # n # B)"
proof -
  have ne: "c_ptr (cs' ! x) \<noteq> c_ptr (cs' ! n)" if "x \<in> set (A @ h # B)" for x
  proof -
    have "x \<noteq> n" using chain_distinct [OF ch] that by auto
    then show ?thesis
      using chain_disjoint [OF ch, of x n] chain_bounds [OF ch, of x] chain_bounds [OF ch, of n] that by force
  qed
  have "(r_handles r)[i := Some n] ! j = Some x \<longleftrightarrow>
      x \<in> set (A @ h # n # B) \<and> c_ptr (cs' ! x) = r_ptr r + 256 * j" if j: "j < length (r_handles r)" for j x
  proof (cases "j = i")
    case True
    then show ?thesis using ne [of x] i by auto
  next
    case False
    have "r_handles r ! j = Some x \<longleftrightarrow> x \<in> set (A @ h # B) \<and> c_ptr (cs ! x) = r_ptr r + 256 * j"
      using r j by (simp add: region_ok_def)
    with False ptr i show ?thesis by auto
  qed
  then show ?thesis using ch r by (simp add: region_ok_def r_end_ptr_def)
qed

text \<open>The state before the new chunk is filed.\<close>

lemma SplitChunk_result:
  assumes w: "wf X L fl s" and L: "L = L1 @ (A @ h # B) # L2" and X: "h \<in> X"
    and k: "0 < k" "256 dvd k" "k < c_size (b_chunks s ! h)"
    and rs: "b_regions s = rs1 @ r # rs2" "region_ok (b_chunks s) r (A @ h # B)"
  obtains n i cs' head1 fl1 s1 where "SplitChunk h k s = InsertFreeChunkIntoBin n s1"
    "s1 = s\<lparr>b_free_chunks_list := head1,
       b_regions := rs1 @ r\<lparr>r_handles := (r_handles r)[i := Some n]\<rparr> # rs2, b_chunks := cs'\<rparr>"
    "i < length (r_handles r)" "c_ptr (cs' ! n) = r_ptr r + 256 * i"
    "n \<notin> handles_of L" "n < length cs'" "length (b_chunks s) \<le> length cs'"
    "pool cs' (insert n (handles_of L)) head1 fl1"
    "in_use_of cs' {..<length cs'} = in_use_of (b_chunks s) {..<length (b_chunks s)}"
    "cs' ! h = (b_chunks s ! h)\<lparr>c_size := k, c_next := Some n\<rparr>"
    "c_ptr (cs' ! n) = c_ptr (b_chunks s ! h) + k \<and> c_size (cs' ! n) = c_size (b_chunks s ! h) - k \<and>
      c_prev (cs' ! n) = Some h \<and> c_next (cs' ! n) = c_next (b_chunks s ! h) \<and> spare (cs' ! n)"
    "\<forall>b B'. B = b # B' \<longrightarrow> cs' ! b = (b_chunks s ! b)\<lparr>c_prev := Some n\<rparr>"
    "\<forall>x\<in>handles_of L. x \<noteq> h \<longrightarrow> x \<notin> set (take 1 B) \<longrightarrow> cs' ! x = b_chunks s ! x"
proof -
  let ?cs = "b_chunks s" and ?H = "handles_of L"
  have p: "pool ?cs ?H (b_free_chunks_list s) fl" using w by (simp add: wf_def)
  obtain n cs1 head1 fl1 where a: "AllocateChunk s = Inr (n, s\<lparr>b_chunks := cs1, b_free_chunks_list := head1\<rparr>)"
    and n: "n \<notin> ?H" "n < length cs1" "spare (cs1 ! n)" and old: "\<forall>x\<in>?H. cs1 ! x = ?cs ! x"
    and len: "length ?cs \<le> length cs1" and nf: "n \<notin> set fl1" and p1: "pool cs1 (insert n ?H) head1 fl1"
    and use1: "in_use_of cs1 {..<length cs1} = in_use_of ?cs {..<length ?cs}"
    by (rule AllocateChunk_ok [OF p])
  have d: "distinct (concat L)" using w by (simp add: wf_def)
  have dr: "distinct (A @ h # B)" using d unfolding L by auto
  have H: "h \<in> ?H" "set B \<subseteq> ?H" by (auto simp: L)
  have lt: "h < length ?cs" using wf_handles(4) [OF w H(1)] by (simp add: valid_handle_def)
  have f: "filed X ?cs (b_bins s) ?H" by (rule wf_filed [OF w])
  have sp: "spare (?cs ! h)" using f X by (rule loose_spare)
  have ch: "chain ?cs None (r_ptr r) (A @ h # B) None (r_end_ptr r)" using rs by (simp add: region_ok_def)
  note bd = chain_bounds [OF ch, of h]
  let ?p = "c_ptr (?cs ! h) + k"
  obtain i where i: "i < length (r_handles r)" "?p = r_ptr r + 256 * i" "r_IndexFor r ?p = i"
    "rm_get_handle (rs1 @ r # rs2) ?p = Inr (r_handles r ! i)"
    "\<forall>v. rm_set_handle ?p v (rs1 @ r # rs2) = Inr (rs1 @ r\<lparr>r_handles := (r_handles r)[i := v]\<rparr> # rs2)"
  proof (rule region_slot [of rs1 r rs2 ?p])
    show "regions_ok (rs1 @ r # rs2)" using wf_lay [OF w] rs(1) by (simp add: lay_def)
    show "length (r_handles r) * 256 = r_memory_size r" using rs(2) by (simp add: region_ok_def)
    have e: "?p - r_ptr r = (c_ptr (?cs ! h) - r_ptr r) + k" using bd by simp
    show "256 dvd ?p - r_ptr r" unfolding e using bd k(2) by (intro dvd_add) auto
  qed (use bd k in auto)
  have szlt: "c_size (?cs ! h) < 2 ^ 64" using w H(1) by (rule wf_size_lt)
  have sz: "size_wrap (c_size (?cs ! h) + 2 ^ 64 - k) = c_size (?cs ! h) - k"
    using k(3) szlt by (intro size_wrap_diff) auto
  define cs2 where "cs2 = cs1[n := (cs1 ! n)\<lparr>c_ptr := ?p, c_size := size_wrap (c_size (?cs ! h) + 2 ^ 64 - k),
      c_allocation_id := -1, c_freed_at_count := c_freed_at_count (?cs ! h), c_prev := Some h,
      c_next := c_next (?cs ! h)\<rparr>]"
  define cs3 where "cs3 = cs2[h := (cs2 ! h)\<lparr>c_size := k, c_next := Some n\<rparr>]"
  define cs4 where "cs4 = head_chunk (\<lambda>c. c\<lparr>c_prev := Some n\<rparr>) B cs3"
  let ?s1 = "s\<lparr>b_free_chunks_list := head1,
       b_regions := rs1 @ r\<lparr>r_handles := (r_handles r)[i := Some n]\<rparr> # rs2, b_chunks := cs4\<rparr>"
  have nh: "n \<noteq> h" "n \<notin> set B" using n(1) H by auto
  have c1h: "cs1 ! h = ?cs ! h" using old H(1) by blast
  have len4: "length cs4 = length cs1" by (simp add: cs4_def cs3_def cs2_def)
  have hB: "h \<notin> set B" using dr by simp
  have atn: "cs4 ! n = (cs1 ! n)\<lparr>c_ptr := ?p, c_size := c_size (?cs ! h) - k,
      c_allocation_id := -1, c_freed_at_count := 0, c_prev := Some h, c_next := c_next (?cs ! h)\<rparr>"
    using nh n(2) sz sp by (auto simp: cs4_def cs3_def cs2_def head_chunk_nth nth_upd spare_def)
  have ath: "cs4 ! h = (?cs ! h)\<lparr>c_size := k, c_next := Some n\<rparr>"
    using nh n(2) hB c1h lt len by (auto simp: cs4_def cs3_def cs2_def head_chunk_nth nth_upd)
  have atb: "\<forall>b B'. B = b # B' \<longrightarrow> cs4 ! b = (?cs ! b)\<lparr>c_prev := Some n\<rparr>"
  proof (cases B)
    case (Cons b B')
    then have b: "b \<in> ?H" "b \<noteq> h" "b \<noteq> n" using nh hB H(2) by auto
    then have "b < length cs1" "cs1 ! b = ?cs ! b"
      using wf_handles(4) [OF w b(1)] len old by (auto simp: valid_handle_def)
    with b Cons show ?thesis
      using len4 by (simp add: cs4_def head_chunk_nth cs3_def cs2_def nth_upd)
  qed simp
  have ato: "cs4 ! x = cs1 ! x" if "x \<noteq> n" "x \<noteq> h" "x \<notin> set (take 1 B)" for x
    using that by (cases B) (auto simp: cs4_def cs3_def cs2_def head_chunk_nth nth_upd)
  have vB: "\<forall>b\<in>set B. b < length cs1" using H(2) wf_handles(4) [OF w] len by (force simp: valid_handle_def)
  have nx: "c_next (?cs ! h) = head_or B None" using wf_links(2) [OF w [unfolded L]] .
  have v1: "valid_handle (s\<lparr>b_chunks := cs1, b_free_chunks_list := head1\<rparr>) h"
    "valid_handle (s\<lparr>b_chunks := cs1, b_free_chunks_list := head1\<rparr>) n"
    using lt len n(2) by (simp_all add: valid_handle_def)
  have free: "\<not> c_in_use (?cs ! h)" "c_bin_num (?cs ! h) = None" using sp by (simp_all add: spare_def)
  note simps = SplitChunk_def a v1 c1h free i(5) [rule_format] rs(1) Let_def upd_chunk_def
  have "SplitChunk h k s = InsertFreeChunkIntoBin n ?s1"
  proof (cases B)
    case Nil
    then show ?thesis using nx by (simp add: simps cs4_def cs3_def cs2_def head_chunk_def)
  next
    case (Cons b B')
    then have "b < length cs1" "h < length cs1" using vB lt len by auto
    with Cons n(2) show ?thesis using nx
      by (simp add: simps head_chunk_def valid_handle_def cs4_def cs3_def cs2_def)
  qed
  then show thesis
  proof (rule that [OF _ refl i(1)])
    show "c_ptr (cs4 ! n) = r_ptr r + 256 * i" using atn i(2) by simp
    show "pool cs4 (insert n ?H) head1 fl1"
    proof (rule pool_cong [OF p1])
      show "\<forall>x\<in>set fl1. cs4 ! x = cs1 ! x"
      proof
        fix x assume x: "x \<in> set fl1"
        then have "x \<notin> ?H" using p1 by (auto simp: pool_def)
        then have "x \<noteq> h" "x \<notin> set (take 1 B)" "x \<noteq> n" using H nf x by (auto dest: in_set_takeD)
        then show "cs4 ! x = cs1 ! x" by (intro ato)
      qed
    qed (simp add: len4)
    have "c_in_use (cs4 ! x) = c_in_use (cs1 ! x)" for x
    proof -
      consider "x = n" | "x = h" | b B' where "B = b # B'" "x = b"
        | "x \<noteq> n" "x \<noteq> h" "x \<notin> set (take 1 B)" by (cases B) auto
      then show ?thesis
      proof cases
        case 3
        then have "cs4 ! x = (?cs ! x)\<lparr>c_prev := Some n\<rparr>" "cs1 ! x = ?cs ! x" using atb old H(2) by auto
        then show ?thesis by simp
      next
        case 4
        then show ?thesis using ato by simp
      qed (use atn ath c1h n(3) in \<open>simp_all add: spare_def\<close>)
    qed
    then show "in_use_of cs4 {..<length cs4} = in_use_of ?cs {..<length ?cs}"
      using use1 by (simp add: in_use_of_def len4)
    show "c_ptr (cs4 ! n) = ?p \<and> c_size (cs4 ! n) = c_size (?cs ! h) - k \<and> c_prev (cs4 ! n) = Some h \<and>
        c_next (cs4 ! n) = c_next (?cs ! h) \<and> spare (cs4 ! n)"
      using atn n(3) by (simp add: spare_def)
    show "\<forall>x\<in>?H. x \<noteq> h \<longrightarrow> x \<notin> set (take 1 B) \<longrightarrow> cs4 ! x = ?cs ! x"
      using ato old n(1) by metis
  qed (use n len len4 ath atb in auto)
qed

lemma coalesced_split:
  assumes "coalesced X cs (A @ h # B)" "h \<in> X'" "n \<in> X'" "X \<subseteq> X'"
    and "\<forall>x\<in>set A \<union> set B. c_in_use (cs' ! x) = c_in_use (cs ! x)"
  shows "coalesced X' cs' (A @ h # n # B)"
proof -
  have "coalesced X cs A" "coalesced X cs B"
    using assms(1) by (auto simp: coalesced_def successively_append_iff successively_Cons)
  then have "coalesced X' cs' A" "coalesced X' cs' B" using assms(4,5) by (auto intro: coalesced_cong)
  then show ?thesis using assms(2,3) by (simp add: coalesced_def successively_append_iff successively_Cons)
qed

lemma SplitChunk_ok:
  assumes w: "wf X L fl s" and L: "L = L1 @ (A @ h # B) # L2" and X: "h \<in> X"
    and k: "0 < k" "256 dvd k" "k < c_size (b_chunks s ! h)"
    and fence: "B \<noteq> [] \<Longrightarrow> c_in_use (b_chunks s ! hd B)"
  obtains n fl' s' where "SplitChunk h k s = Inr s'" "wf X (L1 @ (A @ h # n # B) # L2) fl' s'"
    "live_allocs s' = live_allocs s" "same_env s s'"
    "c_ptr (b_chunks s' ! h) = c_ptr (b_chunks s ! h)" "c_size (b_chunks s' ! h) = k"
    "b_next_allocation_id s' = b_next_allocation_id s" "b_stats s' = b_stats s"
proof -
  let ?cs = "b_chunks s" and ?H = "handles_of L"
  have lay: "lay ?cs (b_regions s) L" by (rule wf_lay [OF w])
  then have "list_all2 (region_ok ?cs) (b_regions s) (L1 @ (A @ h # B) # L2)" by (simp add: lay_def L)
  then obtain rs1 r rs2 where rs: "b_regions s = rs1 @ r # rs2" "length rs1 = length L1"
    "region_ok ?cs r (A @ h # B)" by (auto simp: list_all2_append2 list_all2_Cons2)
  obtain n i cs' head1 fl1 s1 where sc: "SplitChunk h k s = InsertFreeChunkIntoBin n s1"
    and s1: "s1 = s\<lparr>b_free_chunks_list := head1,
       b_regions := rs1 @ r\<lparr>r_handles := (r_handles r)[i := Some n]\<rparr> # rs2, b_chunks := cs'\<rparr>"
    and i: "i < length (r_handles r)" "c_ptr (cs' ! n) = r_ptr r + 256 * i"
    and n: "n \<notin> ?H" "n < length cs'" and len: "length ?cs \<le> length cs'"
    and p: "pool cs' (insert n ?H) head1 fl1"
    and use: "in_use_of cs' {..<length cs'} = in_use_of ?cs {..<length ?cs}"
    and ath: "cs' ! h = (?cs ! h)\<lparr>c_size := k, c_next := Some n\<rparr>"
    and atn: "c_ptr (cs' ! n) = c_ptr (?cs ! h) + k \<and> c_size (cs' ! n) = c_size (?cs ! h) - k \<and>
      c_prev (cs' ! n) = Some h \<and> c_next (cs' ! n) = c_next (?cs ! h) \<and> spare (cs' ! n)"
    and atb: "\<forall>b B'. B = b # B' \<longrightarrow> cs' ! b = (?cs ! b)\<lparr>c_prev := Some n\<rparr>"
    and ato: "\<forall>x\<in>?H. x \<noteq> h \<longrightarrow> x \<notin> set (take 1 B) \<longrightarrow> cs' ! x = ?cs ! x"
    by (rule SplitChunk_result [OF w L X k rs(1,3)])
  let ?L = "L1 @ (A @ h # n # B) # L2" and ?X = "insert n X"
  have d: "distinct (concat L)" using w by (simp add: wf_def)
  have dr: "distinct (A @ h # B)" using d unfolding L by auto
  have H': "handles_of ?L = insert n ?H" by (auto simp: L)
  have f: "filed X ?cs (b_bins s) ?H" by (rule wf_filed [OF w])
  have XH: "X \<subseteq> ?H" using f by (simp add: filed_def)
  have sp: "spare (?cs ! h)" using f X by (rule loose_spare)
  have other: "cs' ! x = (?cs ! x)\<lparr>c_prev := Some n\<rparr> \<or> cs' ! x = ?cs ! x" if "x \<in> ?H" "x \<noteq> h" for x
    using that ato atb by (cases B) auto
  have ptr: "c_ptr (cs' ! x) = c_ptr (?cs ! x)" "c_in_use (cs' ! x) = c_in_use (?cs ! x)" if "x \<in> ?H" for x
    using other [OF that] ath by (cases "x = h"; auto)+
  have user: "same_user (?cs ! x) (cs' ! x)" if "x \<in> ?H" "c_in_use (?cs ! x)" for x
    using other [OF that(1)] that(2) sp by (cases "x = h") (auto simp: spare_def same_user_def)
  have "lay cs' (rs1 @ r\<lparr>r_handles := (r_handles r)[i := Some n]\<rparr> # rs2) ?L"
  proof (rule lay_replace [OF lay [unfolded rs(1) L] rs(2)])
    have ch: "chain ?cs None (r_ptr r) (A @ h # B) None (r_end_ptr r)" using rs by (simp add: region_ok_def)
    have "chain cs' None (r_ptr r) (A @ h # n # B) None (r_end_ptr r)"
    proof (rule chain_split [OF ch len n(2) k])
      show "\<forall>x\<in>set A \<union> set (tl B). same_place ?cs cs' x"
      proof
        fix x assume "x \<in> set A \<union> set (tl B)"
        then have "x \<in> ?H" "x \<noteq> h" "x \<notin> set (take 1 B)" using dr by (cases B; auto simp: L)+
        then show "same_place ?cs cs' x" using ato by (intro same_place_refl) blast
      qed
    qed (use ath atn atb in auto)
    then show "region_ok cs' (r\<lparr>r_handles := (r_handles r)[i := Some n]\<rparr>) (A @ h # n # B)"
      by (rule region_ok_split [OF rs(3) _ i]) (use ptr(1) L in auto)
    show "\<forall>x\<in>handles_of (L1 @ L2). same_place ?cs cs' x"
    proof
      fix x assume "x \<in> handles_of (L1 @ L2)"
      then have "x \<in> ?H" "x \<noteq> h" "x \<notin> set B" using d by (auto simp: L handles_of_def)
      then show "same_place ?cs cs' x" using ato by (intro same_place_refl) (auto dest: in_set_takeD)
    qed
  qed (simp_all add: len)
  moreover have "distinct (concat ?L)" using d n(1) by (auto simp: L mem_handles_of)
  moreover have "filed ?X cs' (b_bins s) (handles_of ?L)"
  proof (rule filed_cong [OF f])
    show "?X \<subseteq> handles_of ?L" "handles_of ?L - ?X = ?H - X" using XH n(1) unfolding H' by auto
    show "\<forall>x\<in>?H - X. same_file (?cs ! x) (cs' ! x)"
    proof
      fix x assume "x \<in> ?H - X"
      then have "x \<in> ?H" "x \<noteq> h" using X by auto
      from other [OF this] show "same_file (?cs ! x) (cs' ! x)" by (auto simp: same_file_def)
    qed
    show "\<forall>x\<in>?X. spare (cs' ! x)"
    proof
      fix x assume "x \<in> ?X"
      then consider "x = n" | "x = h" | "x \<in> X" "x \<in> ?H" "x \<noteq> h" using XH by auto
      then show "spare (cs' ! x)"
      proof cases
        case 3
        with other [OF 3(2,3)] loose_spare [OF f 3(1)] show ?thesis by (auto simp: spare_def)
      qed (use atn ath sp in \<open>auto simp: spare_def\<close>)
    qed
  qed
  moreover have inuse: "in_use_of cs' (handles_of ?L) = in_use_of ?cs ?H"
    using ptr(2) atn unfolding H' by (auto simp: in_use_of_def spare_def)
  then have "account cs' (handles_of ?L) (st_bytes_in_use (b_stats s)) (b_next_allocation_id s)"
    by (rule account_cong [of ?cs ?H, rotated]) (use w user in \<open>auto simp: wf_def in_use_of_def\<close>)
  moreover have "coalesced ?X cs' hs" if "hs \<in> set ?L" for hs
  proof (cases "hs = A @ h # n # B")
    case True
    have "coalesced X ?cs (A @ h # B)" using w L by (simp add: wf_def)
    then show ?thesis unfolding True by (rule coalesced_split) (use X ptr(2) L in auto)
  next
    case False
    then have "hs \<in> set L" using that by (auto simp: L)
    then have "coalesced X ?cs hs" "set hs \<subseteq> ?H" using w by (auto simp: wf_def mem_handles_of)
    then show ?thesis using ptr(2) by (auto intro: coalesced_cong)
  qed
  moreover have "pool cs' (handles_of ?L) head1 fl1" using p unfolding H' .
  ultimately have w1: "wf ?X ?L fl1 s1" by (simp add: wf_def s1)
  have l1: "live_allocs s1 = live_allocs s"
    by (rule live_allocs_cong) (use use user wf_handles(3) [OF w] in \<open>auto simp: s1 in_use_of_def\<close>)
  have "fenced (?X - {n}) (b_chunks s1) ?L n"
  proof -
    have "fenced (?X - {n}) (b_chunks s1) (L1 @ ((A @ [h]) @ n # B) # L2) n"
    proof (rule fencedI)
      show "distinct (concat (L1 @ ((A @ [h]) @ n # B) # L2))" using w1 by (simp add: wf_def)
      show "c_in_use (b_chunks s1 ! last (A @ [h])) \<or> last (A @ [h]) \<in> ?X - {n}"
        using X n(1) by (auto simp: L)
      show "c_in_use (b_chunks s1 ! hd B) \<or> hd B \<in> ?X - {n}" if "B \<noteq> []"
        using fence [OF that] ptr(2) [of "hd B"] that by (auto simp: s1 L)
    qed
    then show ?thesis by simp
  qed
  then obtain s' where ins: "InsertFreeChunkIntoBin n s1 = Inr s'" and w': "wf (?X - {n}) ?L fl1 s'"
    and l': "live_allocs s' = live_allocs s1" and e': "same_env s1 s'"
    and c': "b_chunks s' = (b_chunks s1)[n := (b_chunks s1 ! n)\<lparr>c_bin_num := Some (BinNumForSize (c_size (b_chunks s1 ! n)))\<rparr>]"
    and st': "b_next_allocation_id s' = b_next_allocation_id s1" "b_stats s' = b_stats s1"
    by (rule InsertFreeChunkIntoBin_ok [OF w1 insertI1])
  have nX: "?X - {n} = X" using n(1) XH by auto
  have e1: "same_env s s1" by (simp add: s1 same_env_def rs(1))
  have "n \<noteq> h" using n(1) X XH by auto
  then have "b_chunks s' ! h = cs' ! h" by (simp add: c' s1)
  then show thesis
    using that [of s' n fl1] sc ins w' l1 l' same_env_trans [OF e1 e'] st' ath
    unfolding nX by (simp add: s1)
qed

end
