(* ===== verification/BFC_Alloc.thy ===== *)
theory BFC_Alloc
  imports BFC_Steps
begin

text \<open>
  The operations of the allocator as a whole: the search for the best chunk, the extension by a
  region, the return of free regions, allocation and release.
\<close>

section \<open>The best fit\<close>

lemma find_fit_sound:
  "find_fit s n b0 = Some (b, h) \<Longrightarrow>
   b0 \<le> b \<and> b < kNumBins \<and> h \<in> set (b_bins s ! b) \<and> n \<le> c_size (b_chunks s ! h) \<and>
   (\<forall>c. b0 \<le> c \<and> c < b \<longrightarrow> (\<forall>x\<in>set (b_bins s ! c). c_size (b_chunks s ! x) < n)) \<and>
   (\<exists>i<length (b_bins s ! b). h = b_bins s ! b ! i \<and> (\<forall>j<i. c_size (b_chunks s ! (b_bins s ! b ! j)) < n))"
proof (induction s n b0 rule: find_fit.induct)
  case (1 s n b0)
  have lt: "b0 < kNumBins" using "1.prems" by (auto simp: find_fit.simps [of s n b0] split: if_splits)
  show ?case
  proof (cases "List.find (\<lambda>h. n \<le> c_size (b_chunks s ! h)) (b_bins s ! b0)")
    case None
    then have ff: "find_fit s n (Suc b0) = Some (b, h)" using "1.prems" lt by (simp add: find_fit.simps [of s n b0])
    have "\<forall>x\<in>set (b_bins s ! b0). c_size (b_chunks s ! x) < n"
      using None by (auto simp: find_None_iff not_le)
    with "1.IH" [OF lt None ff] show ?thesis by (metis Suc_leD Suc_leI le_neq_implies_less)
  next
    case (Some x)
    then have e: "b = b0" "h = x" using "1.prems" lt by (auto simp: find_fit.simps [of s n b0])
    then show ?thesis
      using Some lt by (auto simp: find_Some_iff not_le intro!: nth_mem)
  qed
qed

lemma find_fit_complete:
  "find_fit s n b0 = None \<Longrightarrow> b0 \<le> b \<Longrightarrow> b < kNumBins \<Longrightarrow> x \<in> set (b_bins s ! b) \<Longrightarrow> c_size (b_chunks s ! x) < n"
proof (induction s n b0 rule: find_fit.induct)
  case (1 s n b0)
  have lt: "b0 < kNumBins" using "1.prems" by simp
  then have none: "List.find (\<lambda>h. n \<le> c_size (b_chunks s ! h)) (b_bins s ! b0) = None"
    "find_fit s n (Suc b0) = None"
    using "1.prems"(1) by (auto simp: find_fit.simps [of s n b0] split: option.splits)
  show ?case
  proof (cases "b = b0")
    case True
    then show ?thesis using none(1) "1.prems"(4) by (auto simp: find_None_iff not_le)
  next
    case False
    then show ?thesis using "1.IH" [OF lt none(1,2)] "1.prems"(2,3,4) by simp
  qed
qed

text \<open>The free chunks of the layout.\<close>

definition free_of :: "'m bfc \<Rightarrow> handle list list \<Rightarrow> handle set" where
  "free_of s L = {h \<in> handles_of L. \<not> c_in_use (b_chunks s ! h)}"

lemma free_in_bin:
  assumes "wf {} L fl s" "x \<in> free_of s L"
  shows "x \<in> set (b_bins s ! BinNumForSize (c_size (b_chunks s ! x)))"
    "BinNumForSize (c_size (b_chunks s ! x)) < kNumBins"
proof -
  have H: "x \<in> handles_of L" using assms(2) by (simp add: free_of_def)
  show lt: "BinNumForSize (c_size (b_chunks s ! x)) < kNumBins" by (rule wf_bin_lt [OF assms(1) H])
  then show "x \<in> set (b_bins s ! BinNumForSize (c_size (b_chunks s ! x)))"
    using wf_filed [OF assms(1)] assms(2) by (auto simp: filed_def filed_in_def free_of_def)
qed

lemma bin_member:
  "wf {} L fl s \<Longrightarrow> b < kNumBins \<Longrightarrow> x \<in> set (b_bins s ! b) \<Longrightarrow>
   x \<in> free_of s L \<and> BinNumForSize (c_size (b_chunks s ! x)) = b"
  using wf_filed [of "{}" L fl s] by (auto simp: filed_def filed_in_def free_of_def)

lemma find_fit_best:
  assumes w: "wf {} L fl s" and f: "find_fit s n (BinNumForSize n) = Some (b, h)" and n: "n < 2 ^ 64"
  shows "h \<in> free_of s L" "b = BinNumForSize (c_size (b_chunks s ! h))" "n \<le> c_size (b_chunks s ! h)"
    "\<And>x. x \<in> free_of s L \<Longrightarrow> n \<le> c_size (b_chunks s ! x) \<Longrightarrow> \<not> chunk_less (b_chunks s) x h"
proof -
  let ?cs = "b_chunks s"
  note so = find_fit_sound [OF f]
  from so have hb: "h \<in> set (b_bins s ! b)" "b < kNumBins" by auto
  note bm = bin_member [OF w hb(2,1)]
  then show h: "h \<in> free_of s L" and b: "b = BinNumForSize (c_size (?cs ! h))" by auto
  from so show "n \<le> c_size (?cs ! h)" by simp
  obtain i where i: "i < length (b_bins s ! b)" "h = b_bins s ! b ! i"
    "\<forall>j<i. c_size (?cs ! (b_bins s ! b ! j)) < n" using so by blast
  have low: "\<forall>c. BinNumForSize n \<le> c \<and> c < b \<longrightarrow> (\<forall>x\<in>set (b_bins s ! c). c_size (?cs ! x) < n)"
    using so by blast
  fix x
  assume x: "x \<in> free_of s L" "n \<le> c_size (?cs ! x)"
  let ?c = "BinNumForSize (c_size (?cs ! x))"
  have xs: "c_size (?cs ! x) < 2 ^ 64" "c_size (?cs ! h) < 2 ^ 64"
    using wf_size_lt [OF w] x(1) h by (auto simp: free_of_def)
  have c: "BinNumForSize n \<le> ?c" using x(2) xs(1) by (rule BinNumForSize_mono)
  note mem = free_in_bin(1) [OF w x(1)]
  have srt: "sorted_wrt (chunk_less ?cs) (b_bins s ! b)" using wf_filed [OF w] hb(2) by (simp add: filed_def)
  have "\<not> ?c < b" using low c mem x(2) by (meson leD)
  then consider "?c = b" | "b < ?c" by linarith
  then show "\<not> chunk_less ?cs x h"
  proof cases
    case 1
    then obtain j where j: "j < length (b_bins s ! b)" "x = b_bins s ! b ! j"
      using mem by (metis in_set_conv_nth)
    have "\<not> j < i" using i(3) j(2) x(2) by (meson leD)
    then consider "i = j" | "i < j" by linarith
    then show ?thesis
    proof cases
      case 1
      then show ?thesis using i j by simp
    next
      case 2
      then have "chunk_less ?cs h x" using srt i(2) j by (simp add: sorted_wrt_nth_less)
      then show ?thesis by (rule chunk_less_asym)
    qed
  next
    case 2
    then have "\<not> c_size (?cs ! x) \<le> c_size (?cs ! h)" using BinNumForSize_mono xs(2) b by (metis leD)
    then show ?thesis by (simp add: chunk_less_def)
  qed
qed

lemma find_fit_none:
  assumes w: "wf {} L fl s" and f: "find_fit s n (BinNumForSize n) = None" and x: "x \<in> free_of s L"
  shows "c_size (b_chunks s ! x) < n"
proof (rule ccontr)
  assume "\<not> c_size (b_chunks s ! x) < n"
  then have "n \<le> c_size (b_chunks s ! x)" by simp
  moreover have "c_size (b_chunks s ! x) < 2 ^ 64" using wf_size_lt [OF w] x by (auto simp: free_of_def)
  ultimately have "BinNumForSize n \<le> BinNumForSize (c_size (b_chunks s ! x))" by (rule BinNumForSize_mono)
  with find_fit_complete [OF f] free_in_bin [OF w x] \<open>\<not> c_size (b_chunks s ! x) < n\<close> show False by blast
qed

section \<open>Taking a chunk\<close>

lemma chunk_le_limit:
  assumes w: "wf X L fl s" and bu: "budget blocks s" and h: "h \<in> handles_of L"
  shows "c_size (b_chunks s ! h) \<le> b_memory_limit s" "c_size (b_chunks s ! h) < 2 ^ 63"
proof -
  obtain rs1 r rs2 L1 A B L2 where r: "b_regions s = rs1 @ r # rs2" "L = L1 @ (A @ h # B) # L2"
    "length rs1 = length L1" "region_ok (b_chunks s) r (A @ h # B)"
    by (rule lay_locate [OF wf_lay [OF w] h])
  then have "chain (b_chunks s) None (r_ptr r) (A @ h # B) None (r_end_ptr r)" by (simp add: region_ok_def)
  from chain_bounds [OF this, of h] have "c_size (b_chunks s ! h) \<le> r_memory_size r"
    by (simp add: r_end_ptr_def)
  also have "\<dots> \<le> (\<Sum>r\<leftarrow>b_regions s. r_memory_size r)" by (simp add: r(1))
  also have "\<dots> \<le> b_memory_limit s" using bu by (simp add: budget_def)
  finally show le: "c_size (b_chunks s ! h) \<le> b_memory_limit s" .
  then show "c_size (b_chunks s ! h) < 2 ^ 63" using bu by (simp add: budget_def)
qed

text \<open>
  Either no free chunk is large enough and nothing has changed, or the best fitting free chunk is
  taken: the caller gets its address.
\<close>

lemma FindChunkPtr_ok:
  assumes w: "wf {} L fl s" and bu: "budget blocks s"
    and n: "0 < num_bytes" "num_bytes \<le> n" "256 dvd n" "n < 2 ^ 64"
  obtains (none) "FindChunkPtr (BinNumForSize n) n num_bytes s = Inr (None, s)"
      "\<forall>x\<in>free_of s L. c_size (b_chunks s ! x) < n"
    | (found) h sz s' L' fl' where
      "FindChunkPtr (BinNumForSize n) n num_bytes s = Inr (Some (c_ptr (b_chunks s ! h)), s')"
      "h \<in> free_of s L" "n \<le> c_size (b_chunks s ! h)"
      "\<forall>x\<in>free_of s L. n \<le> c_size (b_chunks s ! x) \<longrightarrow> \<not> chunk_less (b_chunks s) x h"
      "wf {} L' fl' s'" "same_env s s'" "n \<le> sz" "sz \<le> c_size (b_chunks s ! h)"
      "sz < 2 * n \<and> sz - n < max_internal_fragmentation_bytes s"
      "live_allocs s' = insert (c_ptr (b_chunks s ! h), num_bytes, sz, b_next_allocation_id s) (live_allocs s)"
      "b_next_allocation_id s' = b_next_allocation_id s + 1"
proof (cases "find_fit s n (BinNumForSize n)")
  case None
  then show ?thesis
    using none find_fit_none [OF w None] by (simp add: FindChunkPtr_def)
next
  case (Some bh)
  obtain b h where f: "find_fit s n (BinNumForSize n) = Some (b, h)" using Some by (cases bh) auto
  let ?cs = "b_chunks s"
  note best = find_fit_best [OF w f n(4)]
  have H: "h \<in> handles_of L" "\<not> c_in_use (?cs ! h)" using best(1) by (simp_all add: free_of_def)
  obtain s1 where r1: "RemoveFreeChunkIterFromBin b h s = Inr s1" and w1: "wf (insert h {}) L fl s1"
    and l1: "live_allocs s1 = live_allocs s" and e1: "same_env s s1"
    and c1: "b_chunks s1 = ?cs[h := (?cs ! h)\<lparr>c_bin_num := None\<rparr>]" and "b_regions s1 = b_regions s"
    and i1: "b_next_allocation_id s1 = b_next_allocation_id s" and "b_stats s1 = b_stats s"
    by (rule RemoveFreeChunkIterFromBin_ok [OF w H _ best(2)]) simp
  have h1: "c_ptr (b_chunks s1 ! h) = c_ptr (?cs ! h)" "c_size (b_chunks s1 ! h) = c_size (?cs ! h)"
    by (simp_all add: c1 nth_upd)
  have lt: "c_size (?cs ! h) < 2 ^ 63" by (rule chunk_le_limit(2) [OF w bu H(1)])
  have np: "0 < n" using n(1,2) by simp
  have fr: "max_internal_fragmentation_bytes s1 = max_internal_fragmentation_bytes s"
    "0 < max_internal_fragmentation_bytes s"
    using e1 bu by (simp_all add: same_env_def max_internal_fragmentation_bytes_def budget_def)
  have wr: "size_wrap (n * 2) = n * 2" using lt best(3) by simp
  have wd: "size_wrap (c_size (?cs ! h) + 2 ^ 64 - n) = c_size (?cs ! h) - n"
    using lt best(3) by (intro size_wrap_diff) auto
  obtain L1 A B L2 where L: "L = L1 @ (A @ h # B) # L2"
    using lay_locate [OF wf_lay [OF w] H(1)] by metis
  define split where "split \<longleftrightarrow> n * 2 \<le> c_size (?cs ! h) \<or> max_internal_fragmentation_bytes s \<le> c_size (?cs ! h) - n"
  have "\<exists>s2 L2' fl2. (if split then SplitChunk h n s1 else Inr s1) = Inr s2 \<and> wf {h} L2' fl2 s2 \<and>
      live_allocs s2 = live_allocs s \<and> same_env s s2 \<and> c_ptr (b_chunks s2 ! h) = c_ptr (?cs ! h) \<and>
      c_size (b_chunks s2 ! h) = (if split then n else c_size (?cs ! h)) \<and>
      b_next_allocation_id s2 = b_next_allocation_id s"
  proof (cases split)
    case True
    then have k: "n < c_size (b_chunks s1 ! h)" using np fr(2) best(3) by (auto simp: split_def h1)
    have co: "coalesced {} ?cs (A @ h # B)" using w L by (simp add: wf_def)
    have fence: "c_in_use (b_chunks s1 ! hd B)" if "B \<noteq> []"
    proof -
      have "c_in_use (?cs ! hd B)"
        using co H(2) that by (cases B) (auto simp: coalesced_def successively_append_iff)
      then show ?thesis by (simp add: c1 nth_upd)
    qed
    obtain n' fl' s' where "SplitChunk h n s1 = Inr s'" "wf {h} (L1 @ (A @ h # n' # B) # L2) fl' s'"
      "live_allocs s' = live_allocs s1" "same_env s1 s'"
      "c_ptr (b_chunks s' ! h) = c_ptr (b_chunks s1 ! h)" "c_size (b_chunks s' ! h) = n"
      "b_next_allocation_id s' = b_next_allocation_id s1" "b_stats s' = b_stats s1"
      by (rule SplitChunk_ok [OF w1 L _ np n(3) k fence]) simp_all
    then show ?thesis
      using True h1 l1 i1 same_env_trans [OF e1] by auto
  next
    case False
    then show ?thesis using w1 l1 e1 h1 i1 by auto
  qed
  then obtain s2 L' fl' where r2: "(if split then SplitChunk h n s1 else Inr s1) = Inr s2" and w2: "wf {h} L' fl' s2"
    and l2: "live_allocs s2 = live_allocs s" and e2: "same_env s s2"
    and h2: "c_ptr (b_chunks s2 ! h) = c_ptr (?cs ! h)" "c_size (b_chunks s2 ! h) = (if split then n else c_size (?cs ! h))"
    and i2: "b_next_allocation_id s2 = b_next_allocation_id s" by blast
  let ?sz = "c_size (b_chunks s2 ! h)"
  have sz: "n \<le> ?sz" "?sz \<le> c_size (?cs ! h)" using best(3) by (simp_all add: h2)
  obtain s3 where r3: "use_chunk h num_bytes s2 = (c_ptr (b_chunks s2 ! h), s3)" and w3: "wf ({h} - {h}) L' fl' s3"
    and l3: "live_allocs s3 = insert (c_ptr (b_chunks s2 ! h), num_bytes, ?sz, b_next_allocation_id s2) (live_allocs s2)"
    and e3: "same_env s2 s3" and i3: "b_next_allocation_id s3 = b_next_allocation_id s2 + 1"
    and "st_bytes_in_use (b_stats s3) = st_bytes_in_use (b_stats s2) + int ?sz"
    by (rule use_chunk_ok [OF w2 singletonI n(1) le_trans [OF n(2) sz(1)]])
  have "FindChunkPtr (BinNumForSize n) n num_bytes s = Inr (Some (c_ptr (?cs ! h)), s3)"
    using f r1 r2 r3 h2 unfolding FindChunkPtr_def
    by (simp add: Let_def h1 wr wd [simplified] fr split_def)
  moreover have "?sz < 2 * n \<and> ?sz - n < max_internal_fragmentation_bytes s"
    using np fr(2) by (auto simp: h2 split_def)
  ultimately show ?thesis
    using found [of h s3 L' fl' ?sz] best(1,3,4) w3 same_env_trans [OF e2 e3] sz l3 i3 h2 l2 i2 by auto
qed

section \<open>A new region\<close>

lemma AddAllocationRegion_ok:
  assumes rs: "regions_ok rs" and p: "0 < p" "p + n < 2 ^ 64"
    and apart: "\<forall>r\<in>set rs. p + n \<le> r_ptr r \<or> r_end_ptr r \<le> p"
  obtains rs1 rs2 where "rs = rs1 @ rs2"
    "AddAllocationRegion p n rs = rs1 @ AllocationRegion_new p n # rs2"
    "regions_ok (rs1 @ AllocationRegion_new p n # rs2)"
proof -
  let ?P = "\<lambda>r. \<not> p < r_end_ptr r"
  define rs1 where "rs1 = takeWhile ?P rs"
  define rs2 where "rs2 = dropWhile ?P rs"
  have split: "rs = rs1 @ rs2" by (simp add: rs1_def rs2_def)
  have i: "upper_bound_region rs p = length rs1" by (simp add: upper_bound_region_def rs1_def)
  have "AddAllocationRegion p n rs = rs1 @ AllocationRegion_new p n # rs2"
    unfolding AddAllocationRegion_def i Let_def by (simp add: split)
  moreover have low: "\<forall>r\<in>set rs1. r_end_ptr r \<le> p"
    using set_takeWhileD [of _ ?P rs] by (auto simp: rs1_def not_less)
  have high: "\<forall>r\<in>set rs2. p + n \<le> r_ptr r"
  proof (cases rs2)
    case (Cons r rs')
    then have r: "p < r_end_ptr r" by (metis dropWhile_eq_Cons_conv not_not rs2_def)
    then have "p + n \<le> r_ptr r" using apart split Cons by auto
    moreover have "r_end_ptr r \<le> r_ptr r'" if "r' \<in> set rs'" for r'
      using rs split Cons that by (simp add: regions_ok_def sorted_wrt_append)
    moreover have "r_ptr r \<le> r_end_ptr r" by (simp add: r_end_ptr_def)
    ultimately show ?thesis using Cons by fastforce
  qed simp
  have "regions_ok (rs1 @ AllocationRegion_new p n # rs2)"
    using rs split low high p
    by (auto simp: regions_ok_def sorted_wrt_append AllocationRegion_new_def r_end_ptr_def)
  ultimately show thesis using that split by blast
qed

lemma wf_region_table:
  "256 dvd n \<Longrightarrow> n_handles_for n * 256 = n"
  by (auto simp: n_handles_for_def bfc_consts elim!: dvdE)

lemma new_region_chunk_ok:
  assumes w: "wf {} L fl s" and p: "0 < p" "p + n < 2 ^ 64" and n: "0 < n" "256 dvd n"
    and apart: "\<forall>r\<in>set (b_regions s). p + n \<le> r_ptr r \<or> r_end_ptr r \<le> p"
  obtains h L1 L2 rs1 rs2 fl' s' where
    "new_region_chunk p n None (s\<lparr>b_regions := AddAllocationRegion p n (b_regions s)\<rparr>) = Inr (h, s')"
    "wf {h} (L1 @ [h] # L2) fl' s'" "live_allocs s' = live_allocs s"
    "c_size (b_chunks s' ! h) = n" "b_regions s = rs1 @ rs2"
    "map (\<lambda>r. (r_ptr r, r_memory_size r)) (b_regions s') =
       map (\<lambda>r. (r_ptr r, r_memory_size r)) (rs1 @ AllocationRegion_new p n # rs2)"
    "same_env (s\<lparr>b_regions := b_regions s'\<rparr>) s'" "b_next_allocation_id s' = b_next_allocation_id s"
proof -
  let ?cs = "b_chunks s" and ?H = "handles_of L" and ?r = "AllocationRegion_new p n"
  have lay: "lay ?cs (b_regions s) L" by (rule wf_lay [OF w])
  obtain rs1 rs2 where rs: "b_regions s = rs1 @ rs2" "AddAllocationRegion p n (b_regions s) = rs1 @ ?r # rs2"
    "regions_ok (rs1 @ ?r # rs2)"
    by (rule AddAllocationRegion_ok [of "b_regions s" p n]) (use lay p apart in \<open>auto simp: lay_def\<close>)
  then obtain L1 L2 where L: "L = L1 @ L2" "list_all2 (region_ok ?cs) rs1 L1" "list_all2 (region_ok ?cs) rs2 L2"
    using lay by (auto simp: lay_def list_all2_append1)
  have pl: "pool ?cs ?H (b_free_chunks_list s) fl" using w by (simp add: wf_def)
  let ?s1 = "s\<lparr>b_regions := AddAllocationRegion p n (b_regions s)\<rparr>"
  have "pool (b_chunks ?s1) ?H (b_free_chunks_list ?s1) fl" using pl by simp
  then obtain h cs1 head1 fl1 where a: "AllocateChunk ?s1 = Inr (h, ?s1\<lparr>b_chunks := cs1, b_free_chunks_list := head1\<rparr>)"
    and h: "h \<notin> ?H" "h < length cs1" "spare (cs1 ! h)" and old: "\<forall>x\<in>?H. cs1 ! x = b_chunks ?s1 ! x"
    and len: "length (b_chunks ?s1) \<le> length cs1" and nf: "h \<notin> set fl1" and p1: "pool cs1 (insert h ?H) head1 fl1"
    and use1: "in_use_of cs1 {..<length cs1} = in_use_of (b_chunks ?s1) {..<length (b_chunks ?s1)}"
    by (rule AllocateChunk_ok)
  let ?c = "(cs1 ! h)\<lparr>c_ptr := p, c_size := n, c_allocation_id := -1, c_prev := None, c_next := None,
      c_freed_at_count := 0\<rparr>"
  let ?cs' = "cs1[h := ?c]"
  have tab: "length (r_handles ?r) * 256 = r_memory_size ?r"
    using wf_region_table [OF n(2)] by (simp add: AllocationRegion_new_def)
  obtain i where i: "i < length (r_handles ?r)" "p = r_ptr ?r + 256 * i" "r_IndexFor ?r p = i"
    "rm_get_handle (rs1 @ ?r # rs2) p = Inr (r_handles ?r ! i)"
    "\<forall>v. rm_set_handle p v (rs1 @ ?r # rs2) = Inr (rs1 @ ?r\<lparr>r_handles := (r_handles ?r)[i := v]\<rparr> # rs2)"
    by (rule region_slot [OF rs(3) tab, of p]) (use n in \<open>auto simp: AllocationRegion_new_def r_end_ptr_def\<close>)
  then have i0: "i = 0" by (simp add: AllocationRegion_new_def)
  let ?r' = "?r\<lparr>r_handles := (r_handles ?r)[i := Some h]\<rparr>"
  let ?s' = "s\<lparr>b_free_chunks_list := head1, b_chunks := ?cs', b_regions := rs1 @ ?r' # rs2\<rparr>"
  have res: "new_region_chunk p n None ?s1 = Inr (h, ?s')"
    unfolding new_region_chunk_def a using i(5) by (simp add: Let_def upd_chunk_def rs(2))
  have keep: "?cs' ! x = ?cs ! x" if "x \<in> ?H" for x using that old h(1) by (auto simp: nth_upd)
  have self: "?cs' ! h = ?c" using h(2) by simp
  have sp: "spare ?c" using h(3) by (simp add: spare_def)
  have H': "handles_of (L1 @ [h] # L2) = insert h ?H" by (auto simp: L(1))
  have d: "distinct (concat L)" using w by (simp add: wf_def)
  have f: "filed {} ?cs (b_bins s) ?H" by (rule wf_filed [OF w])
  have "region_ok ?cs' ?r' [h]"
    using tab h(2) n self i(1) i0
    by (auto simp: region_ok_def r_end_ptr_def AllocationRegion_new_def nth_upd)
  moreover have "list_all2 (region_ok ?cs') rs1 L1" "list_all2 (region_ok ?cs') rs2 L2"
    using L(2,3) keep len by (auto intro!: list_all2_region_ok_cong [of ?cs] same_place_refl simp: L(1))
  moreover have "length rs1 = length L1" using L(2) by (rule list_all2_lengthD)
  moreover have "regions_ok (rs1 @ ?r' # rs2)"
    using rs(3) by (simp add: regions_ok_def sorted_wrt_append r_end_ptr_def)
  ultimately have "lay ?cs' (rs1 @ ?r' # rs2) (L1 @ [h] # L2)" by (simp add: lay_def list_all2_append)
  moreover have "distinct (concat (L1 @ [h] # L2))" using d h(1) by (auto simp: L(1) mem_handles_of)
  moreover have "pool ?cs' (handles_of (L1 @ [h] # L2)) head1 fl1"
    unfolding H' by (rule pool_cong [OF p1]) (use nf in \<open>auto simp: nth_upd\<close>)
  moreover have "filed {h} ?cs' (b_bins s) (handles_of (L1 @ [h] # L2))"
    unfolding H' by (rule filed_cong [OF f]) (use h(1) keep self sp in auto)
  moreover have "account ?cs' (handles_of (L1 @ [h] # L2)) (st_bytes_in_use (b_stats s)) (b_next_allocation_id s)"
  proof (rule account_cong [of ?cs ?H])
    show "in_use_of ?cs' (handles_of (L1 @ [h] # L2)) = in_use_of ?cs ?H"
      using keep self sp unfolding H' by (auto simp: in_use_of_def spare_def)
  qed (use w keep in \<open>auto simp: wf_def in_use_of_def\<close>)
  moreover have "coalesced {h} ?cs' hs" if "hs \<in> set (L1 @ [h] # L2)" for hs
  proof (cases "hs = [h]")
    case False
    then have hs: "hs \<in> set L" using that by (auto simp: L(1))
    then have "coalesced {} ?cs hs" using w by (simp add: wf_def)
    then show ?thesis by (rule coalesced_cong) (use keep hs in \<open>auto dest: handles_ofI\<close>)
  qed (simp add: coalesced_def)
  ultimately have w': "wf {h} (L1 @ [h] # L2) fl1 ?s'" by (simp add: wf_def)
  have "live_allocs ?s' = live_allocs s"
  proof (rule live_allocs_cong)
    have "in_use_of ?cs' {..<length ?cs'} = in_use_of cs1 {..<length cs1}"
      using sp h by (auto simp: in_use_of_def nth_upd spare_def)
    then show "in_use_of (b_chunks ?s') {..<length (b_chunks ?s')} = in_use_of ?cs {..<length ?cs}"
      using use1 by simp
    show "\<forall>x\<in>in_use_of ?cs {..<length ?cs}. same_user (?cs ! x) (b_chunks ?s' ! x)"
      using keep wf_handles(3) [OF w] by (auto simp: in_use_of_def)
  qed
  then show thesis
    using that [OF res w' _ _ rs(1)] h(2) by (simp add: same_env_def)
qed

text \<open>
  What the allocator relies on: the sub-allocator gives out blocks that do not overlap the ones it
  has given out before, never at address 0, and takes back one of them at a time. \<open>blocks\<close> are
  the blocks that are out, and \<open>ok\<close> holds of a sound state of the memory behind it.
\<close>

definition sub_laws ::
  "'m sub_alloc \<Rightarrow> 'm sub_free \<Rightarrow> ('m \<Rightarrow> (addr \<times> nat) set) \<Rightarrow> ('m \<Rightarrow> bool) \<Rightarrow> bool" where
  "sub_laws sub_alloc sub_free blocks ok \<longleftrightarrow>
     (\<forall>n m p m'. ok m \<longrightarrow> 0 < n \<longrightarrow> sub_alloc n m = (Some p, m') \<longrightarrow>
        ok m' \<and> 0 < p \<and> p + n < 2 ^ 64 \<and> blocks m' = insert (p, n) (blocks m) \<and>
        (\<forall>q k. (q, k) \<in> blocks m \<longrightarrow> p + n \<le> q \<or> q + k \<le> p)) \<and>
     (\<forall>n m m'. ok m \<longrightarrow> 0 < n \<longrightarrow> sub_alloc n m = (None, m') \<longrightarrow> ok m' \<and> blocks m' = blocks m) \<and>
     (\<forall>p n m. ok m \<longrightarrow> (p, n) \<in> blocks m \<longrightarrow>
        ok (sub_free p n m) \<and> blocks (sub_free p n m) = blocks m - {(p, n)})"

lemma sub_alloc_Some:
  assumes "sub_laws sub_alloc sub_free blocks ok" "ok m" "0 < n" "sub_alloc n m = (Some p, m')"
  shows "ok m'" "0 < p" "p + n < 2 ^ 64" "blocks m' = insert (p, n) (blocks m)"
    "\<forall>q k. (q, k) \<in> blocks m \<longrightarrow> p + n \<le> q \<or> q + k \<le> p"
proof -
  have "ok m' \<and> 0 < p \<and> p + n < 2 ^ 64 \<and> blocks m' = insert (p, n) (blocks m) \<and>
      (\<forall>q k. (q, k) \<in> blocks m \<longrightarrow> p + n \<le> q \<or> q + k \<le> p)"
    using assms(1) [unfolded sub_laws_def, THEN conjunct1, rule_format, OF assms(2,3,4)] by simp
  then show "ok m'" "0 < p" "p + n < 2 ^ 64" "blocks m' = insert (p, n) (blocks m)"
    "\<forall>q k. (q, k) \<in> blocks m \<longrightarrow> p + n \<le> q \<or> q + k \<le> p" by simp_all
qed

lemma sub_alloc_None:
  assumes "sub_laws sub_alloc sub_free blocks ok" "ok m" "0 < n" "sub_alloc n m = (None, m')"
  shows "ok m' \<and> blocks m' = blocks m"
  using assms(1) [unfolded sub_laws_def, THEN conjunct2, THEN conjunct1, rule_format, OF assms(2,3,4)] by simp

lemma sub_free_block:
  assumes "sub_laws sub_alloc sub_free blocks ok" "ok m" "(p, n) \<in> blocks m"
  shows "ok (sub_free p n m) \<and> blocks (sub_free p n m) = blocks m - {(p, n)}"
  using assms(1) [unfolded sub_laws_def, THEN conjunct2, THEN conjunct2, rule_format, OF assms(2,3)] by simp

lemma available_bytes_eq:
  assumes "budget blocks s"
  shows "available_bytes s = (b_memory_limit s - b_total_region_allocated_bytes s) div 256 * 256"
proof -
  have "size_wrap (b_memory_limit s + 2 ^ 64 - b_total_region_allocated_bytes s) =
      b_memory_limit s - b_total_region_allocated_bytes s"
    using assms by (intro size_wrap_diff) (auto simp: budget_def)
  then show ?thesis by (simp only: available_bytes_def bfc_consts) simp
qed

lemma wf_env [simp]:
  "wf X L fl (s\<lparr>b_curr_region_allocation_bytes := c\<rparr>) = wf X L fl s"
  "wf X L fl (s\<lparr>b_total_region_allocated_bytes := t\<rparr>) = wf X L fl s"
  "wf X L fl (s\<lparr>b_mem := m\<rparr>) = wf X L fl s"
  by (simp_all add: wf_def)

lemma live_allocs_env [simp]:
  "live_allocs (s\<lparr>b_curr_region_allocation_bytes := c\<rparr>) = live_allocs s"
  "live_allocs (s\<lparr>b_total_region_allocated_bytes := t\<rparr>) = live_allocs s"
  "live_allocs (s\<lparr>b_mem := m\<rparr>) = live_allocs s"
  by (simp_all add: live_allocs_def)

lemma max_internal_cong:
  "b_opts s' = b_opts s \<Longrightarrow> b_memory_limit s' = b_memory_limit s \<Longrightarrow>
   max_internal_fragmentation_bytes s' = max_internal_fragmentation_bytes s"
  by (simp add: max_internal_fragmentation_bytes_def)

text \<open>
  An extension either fails without any effect on the chunks, or adds a free chunk that is large
  enough for the request.
\<close>

lemma Extend_ok:
  assumes w: "wf {} L fl s" and bu: "budget blocks s" and mem: "ok (b_mem s)"
    and laws: "sub_laws sub_alloc sub_free blocks ok"
    and n: "0 < n" "256 dvd n" and curr: "0 < b_curr_region_allocation_bytes s"
  obtains (failed) s' where "Extend sub_alloc n s = Inr (False, s')" "wf {} L fl s'" "budget blocks s'"
      "ok (b_mem s')" "live_allocs s' = live_allocs s" "0 < b_curr_region_allocation_bytes s'"
      "b_next_allocation_id s' = b_next_allocation_id s"
      "b_chunks s' = b_chunks s" "b_opts s' = b_opts s" "b_memory_limit s' = b_memory_limit s"
    | (extended) s' L' fl' h where "Extend sub_alloc n s = Inr (True, s')" "wf {} L' fl' s'" "budget blocks s'"
      "ok (b_mem s')" "live_allocs s' = live_allocs s" "h \<in> free_of s' L'" "n \<le> c_size (b_chunks s' ! h)"
      "b_next_allocation_id s' = b_next_allocation_id s" "b_opts s' = b_opts s" "b_memory_limit s' = b_memory_limit s"
      "n \<le> b_curr_region_allocation_bytes s \<longrightarrow>
         b_curr_region_allocation_bytes s' = size_wrap (b_curr_region_allocation_bytes s * 2)"
proof (cases "n > available_bytes s")
  case True
  then show ?thesis using failed [of s] w bu mem curr by (simp add: Extend_def)
next
  case False
  let ?av = "available_bytes s" and ?c0 = "b_curr_region_allocation_bytes s"
  have av: "?av = (b_memory_limit s - b_total_region_allocated_bytes s) div 256 * 256"
    by (rule available_bytes_eq [OF bu])
  then have av_le: "?av \<le> b_memory_limit s - b_total_region_allocated_bytes s" by simp
  have lim: "b_memory_limit s < 2 ^ 63" "?c0 < 2 ^ 64" "256 dvd ?c0" "\<not> b_coalesce_regions s"
    "b_total_region_allocated_bytes s \<le> b_memory_limit s"
    using bu by (auto simp: budget_def)
  have n63: "n \<le> 2 ^ 63" using False av_le lim(1) by linarith
  obtain c inc where g0: "grow_curr n ?c0 False = Some (c, inc)" "n \<le> c" "?c0 \<le> c" "c < 2 ^ 64"
    "256 dvd ?c0 \<longrightarrow> 256 dvd c" "inc \<longleftrightarrow> False \<or> ?c0 < n" "\<not> ?c0 < n \<longrightarrow> c = ?c0"
    using grow_curr_ends [OF curr lim(2) n63, of False] by blast
  have g: "grow_curr n ?c0 False = Some (c, inc)" "n \<le> c" "?c0 \<le> c" "c < 2 ^ 64" "256 dvd c"
    "n \<le> ?c0 \<longrightarrow> c = ?c0 \<and> \<not> inc"
    using g0 lim(3) by auto
  let ?b = "min c ?av"
  have b: "n \<le> ?b" "0 < ?b" "256 dvd ?b" using g False n av by (auto simp: min_def)
  obtain r m where sa: "sub_alloc ?b (b_mem s) = (r, m)" by fastforce
  show ?thesis
  proof (cases r)
    case None
    then have m: "ok m" "blocks m = blocks (b_mem s)"
      using sub_alloc_None [OF laws mem b(2)] sa by simp_all
    let ?s' = "s\<lparr>b_curr_region_allocation_bytes := c, b_mem := m\<rparr>"
    have "Extend sub_alloc n s = Inr (False, ?s')"
      using False g sa None by (simp add: Extend_def Let_def)
    moreover have "budget blocks ?s'"
      using bu g m max_internal_cong [of ?s' s] by (simp add: budget_def)
    ultimately show ?thesis using failed [of ?s'] w m g curr by simp
  next
    case (Some p)
    then have m: "ok m" "0 < p" "p + ?b < 2 ^ 64" "blocks m = insert (p, ?b) (blocks (b_mem s))"
      and ap: "\<forall>q k. (q, k) \<in> blocks (b_mem s) \<longrightarrow> p + ?b \<le> q \<or> q + k \<le> p"
      using sub_alloc_Some [OF laws mem b(2), of p m] sa by simp_all
    let ?c' = "if inc then c else size_wrap (c * 2)"
    let ?t = "size_wrap (b_total_region_allocated_bytes s + ?b)"
    let ?s0 = "s\<lparr>b_curr_region_allocation_bytes := ?c', b_total_region_allocated_bytes := ?t, b_mem := m\<rparr>"
    have t: "?t = b_total_region_allocated_bytes s + ?b" "b_total_region_allocated_bytes s + ?b \<le> b_memory_limit s"
      using lim av_le by auto
    have w0: "wf {} L fl ?s0" using w by simp
    have apart: "\<forall>r\<in>set (b_regions ?s0). p + ?b \<le> r_ptr r \<or> r_end_ptr r \<le> p"
      using bu ap by (auto simp: budget_def r_end_ptr_def)
    obtain h L1 L2 rs1 rs2 fl1 s1 where
      nr: "new_region_chunk p ?b None (?s0\<lparr>b_regions := AddAllocationRegion p ?b (b_regions ?s0)\<rparr>) = Inr (h, s1)"
      and w1: "wf {h} (L1 @ [h] # L2) fl1 s1" and l1: "live_allocs s1 = live_allocs ?s0"
      and sz: "c_size (b_chunks s1 ! h) = ?b" and rs: "b_regions ?s0 = rs1 @ rs2"
      and map1: "map (\<lambda>r. (r_ptr r, r_memory_size r)) (b_regions s1) =
         map (\<lambda>r. (r_ptr r, r_memory_size r)) (rs1 @ AllocationRegion_new p ?b # rs2)"
      and e1: "same_env (?s0\<lparr>b_regions := b_regions s1\<rparr>) s1"
      and i1: "b_next_allocation_id s1 = b_next_allocation_id ?s0"
      by (rule new_region_chunk_ok [OF w0 m(2,3) b(2,3) apart])
    have wl: "wf {h} (L1 @ ([] @ h # []) # L2) fl1 s1" using w1 by simp
    have fz: "c_freed_at_count (b_chunks s1 ! h) = 0" and vh: "valid_handle s1 h"
      using filed_chunk [OF wf_filed [OF w1], of h] wf_handles(4) [OF w1, of h] by simp_all
    have co: "TryToCoalesce h False s1 = Inr (h, s1)"
      using wf_links [OF wl] vh fz by (simp add: TryToCoalesce_def)
    have "fenced ({h} - {h}) (b_chunks s1) (L1 @ ([] @ h # []) # L2) h"
      by (rule fencedI) (use wl in \<open>auto simp: wf_def\<close>)
    then have fe: "fenced ({h} - {h}) (b_chunks s1) (L1 @ [h] # L2) h" by simp
    obtain s2 where ins: "InsertFreeChunkIntoBin h s1 = Inr s2" and w2: "wf ({h} - {h}) (L1 @ [h] # L2) fl1 s2"
      and l2: "live_allocs s2 = live_allocs s1" and e2: "same_env s1 s2"
      and c2: "b_chunks s2 = (b_chunks s1)[h := (b_chunks s1 ! h)\<lparr>c_bin_num := Some (BinNumForSize (c_size (b_chunks s1 ! h)))\<rparr>]"
      and i2: "b_next_allocation_id s2 = b_next_allocation_id s1" and "b_stats s2 = b_stats s1"
      by (rule InsertFreeChunkIntoBin_ok [OF w1 singletonI fe])
    have ord: "?s0\<lparr>b_regions := AddAllocationRegion p ?b (b_regions ?s0)\<rparr> =
        s\<lparr>b_curr_region_allocation_bytes := ?c', b_total_region_allocated_bytes := ?t,
          b_regions := AddAllocationRegion p ?b (b_regions s), b_mem := m\<rparr>" by simp
    have ex: "Extend sub_alloc n s = Inr (True, s2)"
      using False g(1) sa Some lim(4) nr [unfolded ord] co ins by (cases inc) (simp_all add: Extend_def Let_def)
    have "budget blocks s1"
    proof -
      have sum: "(\<Sum>r\<leftarrow>b_regions s1. r_memory_size r) = b_total_region_allocated_bytes s + ?b"
      proof -
        have "(\<Sum>r\<leftarrow>b_regions s1. r_memory_size r) =
            sum_list (map snd (map (\<lambda>r. (r_ptr r, r_memory_size r)) (b_regions s1)))" by (simp add: comp_def)
        also have "\<dots> = (\<Sum>r\<leftarrow>rs1 @ rs2. r_memory_size r) + ?b"
          unfolding map1 by (simp add: comp_def AllocationRegion_new_def)
        finally show ?thesis using bu rs by (simp add: budget_def)
      qed
      have "(\<lambda>r. (r_ptr r, r_memory_size r)) ` set (b_regions s1) =
          insert (p, ?b) ((\<lambda>r. (r_ptr r, r_memory_size r)) ` set (b_regions s))"
      proof -
        have "(\<lambda>r. (r_ptr r, r_memory_size r)) ` set (b_regions s1) =
            set (map (\<lambda>r. (r_ptr r, r_memory_size r)) (b_regions s1))" by simp
        also have "\<dots> = insert (p, ?b) ((\<lambda>r. (r_ptr r, r_memory_size r)) ` set (b_regions s))"
          unfolding map1 using rs by (auto simp: AllocationRegion_new_def)
        finally show ?thesis .
      qed
      moreover have "(\<lambda>r. (r_ptr r, r_memory_size r)) ` set (b_regions s) \<subseteq> blocks (b_mem s)"
        using bu by (auto simp: budget_def)
      ultimately have "(\<lambda>r. (r_ptr r, r_memory_size r)) ` set (b_regions s1) \<subseteq> blocks m" using m(4) by auto
      then have "\<forall>r\<in>set (b_regions s1). (r_ptr r, r_memory_size r) \<in> blocks m" by blast
      moreover have "256 dvd ?c'"
      proof (cases inc)
        case False
        have "256 dvd c * 2 mod 2 ^ 64" using g(5) by (intro dvd_mod) simp_all
        then show ?thesis using False by (simp add: size_wrap_def)
      qed (use g in simp)
      moreover have "?c' < 2 ^ 64" using g(4) by (simp add: size_wrap_def)
      ultimately show ?thesis
        using bu e1 sum t max_internal_cong [of s1 s] by (simp add: budget_def same_env_def)
    qed
    then have bu2: "budget blocks s2" using budget_same_env [OF e2] by simp
    have m2: "b_mem s2 = m" using e1 e2 by (simp add: same_env_def)
    have fr: "h \<in> free_of s2 (L1 @ [h] # L2)" "n \<le> c_size (b_chunks s2 ! h)"
      using filed_chunk [OF wf_filed [OF w1], of h] sz b(1) vh
      by (simp_all add: free_of_def c2 nth_upd valid_handle_def)
    show ?thesis
      by (rule extended [OF ex _ bu2 _ _ fr]) (use w2 m m2 l1 l2 i1 i2 e1 e2 g(6) in \<open>simp_all add: same_env_def\<close>)
  qed
qed

end
