(* ===== verification/BFC_Regions.thy ===== *)
theory BFC_Regions
  imports BFC_Alloc
begin

text \<open>
  Giving regions back to the sub-allocator: which regions are free, the deletion of the chunks of a
  region one after the other, and the removal of the regions from the list.
\<close>

section \<open>Which regions are free\<close>

lemma chain_length_le:
  assumes "chain cs pv p hs nx e"
  shows "length hs \<le> length cs"
proof -
  have "set hs \<subseteq> {..<length cs}" using chain_valid [OF assms] by auto
  then have "card (set hs) \<le> card {..<length cs}" by (intro card_mono) auto
  then show ?thesis using chain_distinct [OF assms] by (simp add: distinct_card)
qed

lemma any_use_chain:
  "chain cs pv p hs None e \<Longrightarrow> length hs \<le> fuel \<Longrightarrow>
   any_use cs fuel (head_or hs None) = Inr (\<exists>h\<in>set hs. c_in_use (cs ! h))"
proof (induction hs arbitrary: pv p fuel)
  case (Cons h hs)
  then obtain f where f: "fuel = Suc f" "length hs \<le> f" by (cases fuel) auto
  have "any_use cs f (head_or hs None) = Inr (\<exists>h\<in>set hs. c_in_use (cs ! h))"
    using Cons.IH [of "Some h" "p + c_size (cs ! h)" f] Cons.prems(1) f(2) by simp
  then show ?case using Cons.prems(1) by (auto simp: f(1))
qed simp

definition unused :: "chunk list \<Rightarrow> handle list \<Rightarrow> bool" where
  "unused cs hs \<longleftrightarrow> (\<forall>h\<in>set hs. \<not> c_in_use (cs ! h))"

lemma region_head:
  assumes "lay cs (rs1 @ r # rs2) L" "region_ok cs r hs"
  shows "rm_get_handle (rs1 @ r # rs2) (r_ptr r) = Inr (head_or hs None)" "r_ptr r < r_end_ptr r"
proof -
  obtain h hs' where hs: "hs = h # hs'" using assms(2) by (cases hs) (auto simp: region_ok_def)
  then have ch: "chain cs None (r_ptr r) hs None (r_end_ptr r)" using assms(2) by (simp add: region_ok_def)
  have p: "c_ptr (cs ! h) = r_ptr r" using ch by (simp add: hs)
  have "h \<in> set hs" by (simp add: hs)
  with assms have "rm_get_handle (rs1 @ r # rs2) (c_ptr (cs ! h)) = Inr (Some h)" by (rule region_chunk_slot)
  then show "rm_get_handle (rs1 @ r # rs2) (r_ptr r) = Inr (head_or hs None)" by (simp add: p hs)
  show "r_ptr r < r_end_ptr r" using chain_bounds [OF ch, of h] by (simp add: hs p)
qed

text \<open>The regions without a chunk in use, given the layout.\<close>

definition free_pairs :: "chunk list \<Rightarrow> (region \<times> handle list) list \<Rightarrow> (region \<times> handle list) list" where
  "free_pairs cs ps = filter (\<lambda>(r, hs). unused cs hs) ps"

lemma free_regions_suffix:
  assumes lay: "lay (b_chunks s) (b_regions s) L" and lim: "(\<Sum>r\<leftarrow>b_regions s. r_memory_size r) < 2 ^ 64"
  shows "b_regions s = rs1 @ rs2 \<Longrightarrow> L = L1 @ L2 \<Longrightarrow> length rs1 = length L1 \<Longrightarrow>
    free_regions s rs2 =
      Inr (map (\<lambda>(r, hs). r_ptr r) (free_pairs (b_chunks s) (zip rs2 L2)),
           \<Sum>(r, hs)\<leftarrow>free_pairs (b_chunks s) (zip rs2 L2). r_memory_size r) \<and>
    (\<Sum>(r, hs)\<leftarrow>free_pairs (b_chunks s) (zip rs2 L2). r_memory_size r) \<le> (\<Sum>r\<leftarrow>rs2. r_memory_size r)"
proof (induction rs2 arbitrary: rs1 L1 L2)
  case (Cons r rs2)
  let ?cs = "b_chunks s"
  have "list_all2 (region_ok ?cs) (rs1 @ r # rs2) (L1 @ L2)" using lay Cons.prems by (simp add: lay_def)
  then obtain hs L2' where L2: "L2 = hs # L2'" "region_ok ?cs r hs"
    using Cons.prems(3) by (auto simp: list_all2_append list_all2_Cons1)
  then have ch: "chain ?cs None (r_ptr r) hs None (r_end_ptr r)" by (simp add: region_ok_def)
  have h: "rm_get_handle (b_regions s) (r_ptr r) = Inr (head_or hs None)"
    using region_head(1) [OF lay [unfolded Cons.prems(1)] L2(2)] Cons.prems(1) by simp
  have u: "any_use ?cs (length ?cs) (head_or hs None) = Inr (\<not> unused ?cs hs)"
    using any_use_chain [OF ch chain_length_le [OF ch]] by (simp add: unused_def)
  have IH: "free_regions s rs2 =
      Inr (map (\<lambda>(r, hs). r_ptr r) (free_pairs ?cs (zip rs2 L2')),
           \<Sum>(r, hs)\<leftarrow>free_pairs ?cs (zip rs2 L2'). r_memory_size r)"
    "(\<Sum>(r, hs)\<leftarrow>free_pairs ?cs (zip rs2 L2'). r_memory_size r) \<le> (\<Sum>r\<leftarrow>rs2. r_memory_size r)"
    using Cons.IH [of "rs1 @ [r]" "L1 @ [hs]" L2'] Cons.prems L2(1) by simp_all
  have "r_memory_size r + (\<Sum>(r, hs)\<leftarrow>free_pairs ?cs (zip rs2 L2'). r_memory_size r) < 2 ^ 64"
    using IH(2) lim Cons.prems(1) by simp
  then show ?case using h u IH by (simp add: L2(1) free_pairs_def)
qed (simp add: free_pairs_def)

section \<open>Deleting the chunks of a region\<close>

text \<open>
  While the chunks of the region \<open>r\<close> go, from the first one on, the rest \<open>hs\<close> of its chain
  still reaches to the end of the region.
\<close>

definition dying :: "region list \<Rightarrow> region list \<Rightarrow> handle list list \<Rightarrow> handle list list \<Rightarrow>
    region \<Rightarrow> handle list \<Rightarrow> handle list \<Rightarrow> 'm bfc \<Rightarrow> bool" where
  "dying rs1 rs2 L1 L2 r hs fl s \<longleftrightarrow>
     b_regions s = rs1 @ r # rs2 \<and> regions_ok (rs1 @ r # rs2) \<and>
     list_all2 (region_ok (b_chunks s)) rs1 L1 \<and> list_all2 (region_ok (b_chunks s)) rs2 L2 \<and>
     length (r_handles r) * 256 = r_memory_size r \<and>
     (\<exists>pv q. chain (b_chunks s) pv q hs None (r_end_ptr r) \<and> r_ptr r \<le> q \<and> 256 dvd q - r_ptr r) \<and>
     inj_on (\<lambda>h. c_ptr (b_chunks s ! h)) (handles_of (L1 @ hs # L2)) \<and>
     distinct (concat (L1 @ hs # L2)) \<and>
     pool (b_chunks s) (handles_of (L1 @ hs # L2)) (b_free_chunks_list s) fl \<and>
     filed {} (b_chunks s) (b_bins s) (handles_of (L1 @ hs # L2)) \<and>
     account (b_chunks s) (handles_of (L1 @ hs # L2)) (st_bytes_in_use (b_stats s)) (b_next_allocation_id s) \<and>
     (\<forall>hs\<in>set (L1 @ L2). coalesced {} (b_chunks s) hs) \<and> unused (b_chunks s) hs"

lemma pool_push:
  assumes "pool cs H head fl" "h \<in> H" "h < length cs" "spare c" "c_next c = head"
  shows "pool (cs[h := c]) (H - {h}) (Some h) (h # fl)"
proof -
  have "h \<notin> set fl" using assms(1,2) by (auto simp: pool_def)
  then have "\<forall>x\<in>set fl. cs[h := c] ! x = cs ! x" by (auto simp: nth_upd)
  then show ?thesis
    using assms by (auto simp: pool_def nth_upd intro: free_list_cong)
qed

text \<open>The state after one chunk is taken out of its bin and deleted.\<close>

definition deleted :: "handle \<Rightarrow> nat \<Rightarrow> 'm bfc \<Rightarrow> region list \<Rightarrow> 'm bfc" where
  "deleted h b s rs = s\<lparr>b_regions := rs,
     b_chunks := (b_chunks s)[h := (b_chunks s ! h)\<lparr>c_allocation_id := -1, c_bin_num := None,
       c_next := b_free_chunks_list s\<rparr>],
     b_free_chunks_list := Some h,
     b_bins := (b_bins s)[b := bin_erase (b_chunks s) h (b_bins s ! b)]\<rparr>"

lemma delete_step:
  assumes d: "dying rs1 rs2 L1 L2 r (h # hs) fl s"
  obtains b i s1 where "valid_handle s h" "c_bin_num (b_chunks s ! h) = Some b"
    "b = BinNumForSize (c_size (b_chunks s ! h))" "b < kNumBins"
    "sorted_wrt (chunk_less (b_chunks s)) (bin_erase (b_chunks s) h (b_bins s ! b))"
    "set (bin_erase (b_chunks s) h (b_bins s ! b)) = set (b_bins s ! b) - {h}"
    "c_next (b_chunks s ! h) = head_or hs None"
    "RemoveFreeChunkFromBin h s = Inr s1"
    "DeleteChunk h s1 = Inr (deleted h b s (rs1 @ r\<lparr>r_handles := (r_handles r)[i := None]\<rparr> # rs2))"
proof -
  let ?cs = "b_chunks s" and ?H = "handles_of (L1 @ (h # hs) # L2)"
  obtain pv q where ch: "chain ?cs pv q (h # hs) None (r_end_ptr r)" and q: "r_ptr r \<le> q" "256 dvd q - r_ptr r"
    using d by (auto simp: dying_def)
  have f: "filed {} ?cs (b_bins s) ?H" and inj: "inj_on (\<lambda>h. c_ptr (?cs ! h)) ?H"
    and ok: "regions_ok (rs1 @ r # rs2)" "b_regions s = rs1 @ r # rs2"
    and len: "length (r_handles r) * 256 = r_memory_size r" and free: "\<not> c_in_use (?cs ! h)"
    using d by (auto simp: dying_def unused_def)
  have H: "h \<in> ?H" by simp
  have v: "valid_handle s h" using ch by (simp add: valid_handle_def)
  have e: "r_end_ptr r < 2 ^ 64" using ok by (simp add: regions_ok_def)
  have hb: "c_ptr (?cs ! h) = q" "q + c_size (?cs ! h) \<le> r_end_ptr r" "0 < c_size (?cs ! h)"
    using chain_bounds [OF ch, of h] ch by auto
  let ?b = "BinNumForSize (c_size (?cs ! h))"
  have b: "?b < kNumBins"
    using BinNumForSize_bounds(1) [of "c_size (?cs ! h)"] hb(2) e by (simp add: kNumBins_def)
  have bn: "c_bin_num (?cs ! h) = Some ?b" using filed_chunk [OF f H] free by simp
  have bin: "sorted_wrt (chunk_less ?cs) (b_bins s ! ?b)" "set (b_bins s ! ?b) = filed_in {} ?cs ?H ?b"
    "length (b_bins s) = kNumBins"
    using f b by (auto simp: filed_def)
  have hin: "h \<in> set (b_bins s ! ?b)" using bin(2) free H by (simp add: filed_in_def)
  have "\<forall>x\<in>set (b_bins s ! ?b). c_ptr (?cs ! x) = c_ptr (?cs ! h) \<longrightarrow> x = h"
  proof (intro ballI impI)
    fix x assume "x \<in> set (b_bins s ! ?b)" "c_ptr (?cs ! x) = c_ptr (?cs ! h)"
    moreover from this have "x \<in> ?H" using bin(2) by (simp add: filed_in_def)
    ultimately show "x = h" using inj_onD [OF inj] H by blast
  qed
  note er = bin_erase_correct [OF bin(1) this]
  let ?s1 = "upd_chunk h (\<lambda>c. c\<lparr>c_bin_num := None\<rparr>)
      (s\<lparr>b_bins := (b_bins s)[?b := bin_erase ?cs h (b_bins s ! ?b)]\<rparr>)"
  have rm: "RemoveFreeChunkFromBin h s = Inr ?s1"
    using v bn free b bin(3) er(3) [OF hin] by (simp add: RemoveFreeChunkFromBin_def)
  obtain i where i: "\<forall>v. rm_set_handle q v (rs1 @ r # rs2) =
       Inr (rs1 @ r\<lparr>r_handles := (r_handles r)[i := v]\<rparr> # rs2)"
    by (rule region_slot [OF ok(1) len q(1) _ q(2)]) (use hb in auto)
  have "DeleteChunk h ?s1 = Inr (deleted h ?b s (rs1 @ r\<lparr>r_handles := (r_handles r)[i := None]\<rparr> # rs2))"
    using v i hb(1) ok(2)
    by (simp add: DeleteChunk_def DeallocateChunk_def rm_erase_def upd_chunk_def valid_handle_def deleted_def)
  then show thesis using that [OF v bn refl b er(2,1) _ rm] ch by simp
qed

lemma delete_step_dying:
  assumes d: "dying rs1 rs2 L1 L2 r (h # hs) fl s"
  obtains s1 s2 i where "c_next (b_chunks s ! h) = head_or hs None" "valid_handle s h"
    "c_bin_num (b_chunks s ! h) \<noteq> None"
    "RemoveFreeChunkFromBin h s = Inr s1" "DeleteChunk h s1 = Inr s2"
    "dying rs1 rs2 L1 L2 (r\<lparr>r_handles := (r_handles r)[i := None]\<rparr>) hs (h # fl) s2"
    "live_allocs s2 = live_allocs s" "same_env s s2" "b_next_allocation_id s2 = b_next_allocation_id s"
    "\<forall>x. c_in_use (b_chunks s2 ! x) = c_in_use (b_chunks s ! x)"
proof -
  let ?cs = "b_chunks s" and ?H = "handles_of (L1 @ (h # hs) # L2)" and ?H' = "handles_of (L1 @ hs # L2)"
  obtain b i s1 where v: "valid_handle s h" and bn: "c_bin_num (?cs ! h) = Some b"
    and b: "b = BinNumForSize (c_size (?cs ! h))" "b < kNumBins"
    and er: "sorted_wrt (chunk_less ?cs) (bin_erase ?cs h (b_bins s ! b))"
      "set (bin_erase ?cs h (b_bins s ! b)) = set (b_bins s ! b) - {h}"
    and nx: "c_next (?cs ! h) = head_or hs None" and rm: "RemoveFreeChunkFromBin h s = Inr s1"
    and del: "DeleteChunk h s1 = Inr (deleted h b s (rs1 @ r\<lparr>r_handles := (r_handles r)[i := None]\<rparr> # rs2))"
    by (rule delete_step [OF d])
  let ?r' = "r\<lparr>r_handles := (r_handles r)[i := None]\<rparr>"
  let ?s' = "deleted h b s (rs1 @ ?r' # rs2)"
  let ?c' = "(?cs ! h)\<lparr>c_allocation_id := -1, c_bin_num := None, c_next := b_free_chunks_list s\<rparr>"
  let ?cs' = "?cs[h := ?c']"
  have cs': "b_chunks ?s' = ?cs'" by (simp add: deleted_def)
  have D: "b_regions s = rs1 @ r # rs2" "regions_ok (rs1 @ r # rs2)"
    "list_all2 (region_ok ?cs) rs1 L1" "list_all2 (region_ok ?cs) rs2 L2"
    "length (r_handles r) * 256 = r_memory_size r"
    "inj_on (\<lambda>h. c_ptr (?cs ! h)) ?H" "distinct (concat (L1 @ (h # hs) # L2))"
    "pool ?cs ?H (b_free_chunks_list s) fl" "filed {} ?cs (b_bins s) ?H"
    "account ?cs ?H (st_bytes_in_use (b_stats s)) (b_next_allocation_id s)"
    "\<forall>hs\<in>set (L1 @ L2). coalesced {} ?cs hs" "unused ?cs (h # hs)"
    using d by (simp_all add: dying_def)
  obtain pv q where ch: "chain ?cs pv q (h # hs) None (r_end_ptr r)" and q: "r_ptr r \<le> q" "256 dvd q - r_ptr r"
    using d by (auto simp: dying_def)
  have lt: "h < length ?cs" using v by (simp add: valid_handle_def)
  have H': "?H' = ?H - {h}" using D(7) by (auto simp: handles_of_def)
  have H: "h \<in> ?H" by simp
  have free: "\<not> c_in_use (?cs ! h)" using D(12) by (simp add: unused_def)
  have stay: "\<forall>x\<in>A. same_place ?cs ?cs' x" if "h \<notin> A" for A
    using that by (intro ballI same_place_refl) (auto simp: nth_upd)
  have use: "c_in_use (?cs' ! x) = c_in_use (?cs ! x)" for x using free by (auto simp: nth_upd)
  have user: "same_user (?cs ! x) (?cs' ! x)" if "c_in_use (?cs ! x)" for x
    using that free by (cases "x = h") auto
  have out: "h \<notin> handles_of L1" "h \<notin> handles_of L2" "h \<notin> set hs" using D(7) by (auto simp: handles_of_def)
  have "dying rs1 rs2 L1 L2 ?r' hs (h # fl) ?s'"
    unfolding dying_def cs'
  proof (intro conjI)
    show "b_regions ?s' = rs1 @ ?r' # rs2" by (simp add: deleted_def)
    show "regions_ok (rs1 @ ?r' # rs2)"
      using D(2) by (simp add: regions_ok_def sorted_wrt_append r_end_ptr_def)
    show "list_all2 (region_ok ?cs') rs1 L1"
      using D(3) by (rule list_all2_region_ok_cong) (use stay out in simp_all)
    show "list_all2 (region_ok ?cs') rs2 L2"
      using D(4) by (rule list_all2_region_ok_cong) (use stay out in simp_all)
    show "length (r_handles ?r') * 256 = r_memory_size ?r'" using D(5) by simp
    have "chain ?cs (Some h) (q + c_size (?cs ! h)) hs None (r_end_ptr r)" using ch by simp
    then have "chain ?cs' (Some h) (q + c_size (?cs ! h)) hs None (r_end_ptr r)"
      by (rule chain_cong) (use stay out in simp_all)
    moreover have "256 dvd (q - r_ptr r) + c_size (?cs ! h)" using q(2) ch by (intro dvd_add) simp_all
    then have "256 dvd q + c_size (?cs ! h) - r_ptr r" using q(1) by simp
    ultimately show "\<exists>pv q. chain ?cs' pv q hs None (r_end_ptr ?r') \<and> r_ptr ?r' \<le> q \<and> 256 dvd q - r_ptr ?r'"
      using q(1) by (intro exI [of _ "Some h"] exI [of _ "q + c_size (?cs ! h)"]) (simp add: r_end_ptr_def)
    have "inj_on (\<lambda>x. c_ptr (?cs ! x)) ?H'" using D(6) unfolding H' by (rule inj_on_subset) blast
    moreover have "inj_on (\<lambda>x. c_ptr (?cs' ! x)) ?H' = inj_on (\<lambda>x. c_ptr (?cs ! x)) ?H'"
      by (intro inj_on_cong) (simp add: nth_upd)
    ultimately show "inj_on (\<lambda>x. c_ptr (?cs' ! x)) ?H'" by simp
    show "distinct (concat (L1 @ hs # L2))" using D(7) by auto
    show "pool ?cs' ?H' (b_free_chunks_list ?s') (h # fl)"
      unfolding H' deleted_def using pool_push [OF D(8) H lt, of ?c'] filed_chunk [OF D(9) H]
      by (simp add: spare_def)
    have "filed {h} (?cs[h := (?cs ! h)\<lparr>c_bin_num := None\<rparr>]) ((b_bins s)[b := bin_erase ?cs h (b_bins s ! b)]) ?H"
      using filed_take_out [OF D(9) H lt free _ b(1) er] by simp
    then have "filed {} ?cs' ((b_bins s)[b := bin_erase ?cs h (b_bins s ! b)]) ?H'"
      by (rule filed_cong) (use out in \<open>auto simp: H' nth_upd\<close>)
    then show "filed {} ?cs' (b_bins ?s') ?H'" by (simp add: deleted_def)
    show "account ?cs' ?H' (st_bytes_in_use (b_stats ?s')) (b_next_allocation_id ?s')"
    proof (rule account_cong [of ?cs ?H])
      show "in_use_of ?cs' ?H' = in_use_of ?cs ?H" unfolding H' using use free by (auto simp: in_use_of_def)
    qed (use D(10) user in \<open>auto simp: deleted_def in_use_of_def\<close>)
    show "\<forall>hs\<in>set (L1 @ L2). coalesced {} ?cs' hs"
      using D(11) use by (blast intro: coalesced_cong)
    show "unused ?cs' hs" using D(12) use by (simp add: unused_def)
  qed
  moreover have "live_allocs ?s' = live_allocs s"
    by (rule live_allocs_cong) (use use user in \<open>auto simp: cs' in_use_of_def\<close>)
  moreover have "same_env s ?s'" by (simp add: same_env_def deleted_def D(1))
  ultimately show thesis
    using that [OF nx v _ rm del] bn use by (simp add: deleted_def)
qed

lemma delete_chain_ok:
  "dying rs1 rs2 L1 L2 r hs fl s \<Longrightarrow> length hs \<le> fuel \<Longrightarrow>
   \<exists>s' r' fl'. delete_chain fuel (head_or hs None) s = Inr s' \<and> dying rs1 rs2 L1 L2 r' [] fl' s' \<and>
     r_ptr r' = r_ptr r \<and> r_memory_size r' = r_memory_size r \<and> live_allocs s' = live_allocs s \<and>
     same_env s s' \<and> b_next_allocation_id s' = b_next_allocation_id s \<and>
     (\<forall>x. c_in_use (b_chunks s' ! x) = c_in_use (b_chunks s ! x))"
proof (induction hs arbitrary: r fl s fuel)
  case Nil
  then show ?case by auto
next
  case (Cons h hs)
  then obtain f where f: "fuel = Suc f" "length hs \<le> f" by (cases fuel) auto
  obtain s1 s2 i where st: "c_next (b_chunks s ! h) = head_or hs None" "valid_handle s h"
    "c_bin_num (b_chunks s ! h) \<noteq> None"
    "RemoveFreeChunkFromBin h s = Inr s1" "DeleteChunk h s1 = Inr s2"
    and d: "dying rs1 rs2 L1 L2 (r\<lparr>r_handles := (r_handles r)[i := None]\<rparr>) hs (h # fl) s2"
    and s2: "live_allocs s2 = live_allocs s" "same_env s s2" "b_next_allocation_id s2 = b_next_allocation_id s"
      "\<forall>x. c_in_use (b_chunks s2 ! x) = c_in_use (b_chunks s ! x)"
    by (rule delete_step_dying [OF Cons.prems(1)])
  have "delete_chain fuel (head_or (h # hs) None) s = delete_chain f (head_or hs None) s2"
    using st by (simp add: f(1) Let_def)
  with Cons.IH [OF d f(2)] s2 show ?case by (auto intro: same_env_trans)
qed

section \<open>Removing regions\<close>

lemma remove_region_ok:
  assumes d: "dying rs1 rs2 L1 L2 r [] fl s" and bu: "budget blocks s" and mem: "ok (b_mem s)"
    and laws: "sub_laws sub_alloc sub_free blocks ok" and pos: "0 < r_memory_size r"
    and s': "s' = s\<lparr>b_mem := sub_free (r_ptr r) (r_memory_size r) (b_mem s),
      b_total_region_allocated_bytes := size_wrap (b_total_region_allocated_bytes s + 2 ^ 64 - r_memory_size r),
      b_regions := rs1 @ rs2\<rparr>"
  shows "wf {} (L1 @ L2) fl s'" "budget blocks s'" "ok (b_mem s')" "live_allocs s' = live_allocs s"
proof -
  have rs: "b_regions s = rs1 @ r # rs2" "regions_ok (rs1 @ r # rs2)"
    "list_all2 (region_ok (b_chunks s)) rs1 L1" "list_all2 (region_ok (b_chunks s)) rs2 L2"
    using d by (simp_all add: dying_def)
  then have "lay (b_chunks s) (rs1 @ rs2) (L1 @ L2)"
    by (auto simp: lay_def list_all2_appendI regions_ok_def sorted_wrt_append)
  then show "wf {} (L1 @ L2) fl s'" using d by (simp add: dying_def wf_def s')
  have blk: "(r_ptr r, r_memory_size r) \<in> blocks (b_mem s)" using bu rs(1) by (simp add: budget_def)
  note fr = sub_free_block [OF laws mem blk]
  then show "ok (b_mem s')" by (simp add: s')
  have ne: "(r_ptr x, r_memory_size x) \<noteq> (r_ptr r, r_memory_size r)" if "x \<in> set (rs1 @ rs2)" for x
    using rs(2) that pos by (auto simp: regions_ok_def sorted_wrt_append r_end_ptr_def)
  have tot: "r_memory_size r \<le> b_total_region_allocated_bytes s" "b_total_region_allocated_bytes s < 2 ^ 64"
    using bu rs(1) by (auto simp: budget_def)
  then have wr: "size_wrap (b_total_region_allocated_bytes s + 2 ^ 64 - r_memory_size r) =
      b_total_region_allocated_bytes s - r_memory_size r"
    by (rule size_wrap_diff)
  have "\<forall>x\<in>set (rs1 @ rs2). (r_ptr x, r_memory_size x) \<in> blocks (sub_free (r_ptr r) (r_memory_size r) (b_mem s))"
    using fr ne bu rs(1) by (auto simp: budget_def)
  then show "budget blocks s'"
    using bu rs(1) wr max_internal_cong [of s' s] tot by (simp add: budget_def s')
  show "live_allocs s' = live_allocs s" by (simp add: live_allocs_def s')
qed

lemma wf_dying:
  assumes w: "wf {} (L1 @ hs # L2) fl s" and rs: "b_regions s = rs1 @ r # rs2" "length rs1 = length L1"
    and u: "unused (b_chunks s) hs"
  shows "dying rs1 rs2 L1 L2 r hs fl s" "region_ok (b_chunks s) r hs"
proof -
  have lay: "lay (b_chunks s) (rs1 @ r # rs2) (L1 @ hs # L2)" using wf_lay [OF w] rs(1) by simp
  then have ok: "list_all2 (region_ok (b_chunks s)) rs1 L1" "list_all2 (region_ok (b_chunks s)) rs2 L2"
    "region_ok (b_chunks s) r hs" "regions_ok (rs1 @ r # rs2)"
    using rs(2) by (simp_all add: lay_def list_all2_append)
  then have ch: "chain (b_chunks s) None (r_ptr r) hs None (r_end_ptr r)"
    and len: "length (r_handles r) * 256 = r_memory_size r"
    by (simp_all add: region_ok_def)
  have "\<exists>pv q. chain (b_chunks s) pv q hs None (r_end_ptr r) \<and> r_ptr r \<le> q \<and> 256 dvd q - r_ptr r"
    by (intro exI [of _ None] exI [of _ "r_ptr r"]) (simp add: ch)
  then show "dying rs1 rs2 L1 L2 r hs fl s"
    using w ok rs(1) u len lay_ptr_inj [OF lay] by (simp add: dying_def wf_def)
  show "region_ok (b_chunks s) r hs" by (rule ok(3))
qed

text \<open>What the return of regions leaves as it is.\<close>

definition same_limits :: "'m bfc \<Rightarrow> 'm bfc \<Rightarrow> bool" where
  "same_limits s s' \<longleftrightarrow> b_opts s' = b_opts s \<and> b_memory_limit s' = b_memory_limit s \<and>
     b_curr_region_allocation_bytes s' = b_curr_region_allocation_bytes s \<and>
     b_next_allocation_id s' = b_next_allocation_id s \<and> live_allocs s' = live_allocs s"

definition block_of :: "region \<Rightarrow> addr \<times> nat" where
  "block_of r = (r_ptr r, r_memory_size r)"

lemma delete_region_ok:
  assumes w: "wf {} (L1 @ hs # L2) fl s" and bu: "budget blocks s" and mem: "ok (b_mem s)"
    and laws: "sub_laws sub_alloc sub_free blocks ok"
    and rs: "b_regions s = rs1 @ r # rs2" "length rs1 = length L1" and u: "unused (b_chunks s) hs"
  obtains s1 s' fl' where "rm_get_handle (b_regions s) (r_ptr r) = Inr (head_or hs None)"
    "delete_chain (length (b_chunks s)) (head_or hs None) s = Inr s1"
    "s' = s1\<lparr>b_mem := sub_free (r_ptr (b_regions s1 ! length rs1)) (r_memory_size (b_regions s1 ! length rs1)) (b_mem s1),
      b_total_region_allocated_bytes :=
        size_wrap (b_total_region_allocated_bytes s1 + 2 ^ 64 - r_memory_size (b_regions s1 ! length rs1)),
      b_regions := take (length rs1) (b_regions s1) @ drop (Suc (length rs1)) (b_regions s1)\<rparr>"
    "wf {} (L1 @ L2) fl' s'" "budget blocks s'" "ok (b_mem s')" "same_limits s s'" "b_regions s' = rs1 @ rs2"
    "\<forall>x. c_in_use (b_chunks s' ! x) = c_in_use (b_chunks s ! x)"
proof -
  note d = wf_dying [OF w rs u]
  have lay: "lay (b_chunks s) (rs1 @ r # rs2) (L1 @ hs # L2)" using wf_lay [OF w] rs(1) by simp
  have ch: "chain (b_chunks s) None (r_ptr r) hs None (r_end_ptr r)" using d(2) by (simp add: region_ok_def)
  obtain s1 r' fl' where del: "delete_chain (length (b_chunks s)) (head_or hs None) s = Inr s1"
    and d1: "dying rs1 rs2 L1 L2 r' [] fl' s1" and r': "r_ptr r' = r_ptr r" "r_memory_size r' = r_memory_size r"
    and s1: "live_allocs s1 = live_allocs s" "same_env s s1" "b_next_allocation_id s1 = b_next_allocation_id s"
      "\<forall>x. c_in_use (b_chunks s1 ! x) = c_in_use (b_chunks s ! x)"
    using delete_chain_ok [OF d(1) chain_length_le [OF ch]] by blast
  have rs': "b_regions s1 = rs1 @ r' # rs2" using d1 by (simp add: dying_def)
  define s' where "s' = s1\<lparr>b_mem := sub_free (r_ptr r') (r_memory_size r') (b_mem s1),
      b_total_region_allocated_bytes := size_wrap (b_total_region_allocated_bytes s1 + 2 ^ 64 - r_memory_size r'),
      b_regions := rs1 @ rs2\<rparr>"
  have pos: "0 < r_memory_size r'" using region_head(2) [OF lay d(2)] r' by (simp add: r_end_ptr_def)
  have bu1: "budget blocks s1" using budget_same_env [OF s1(2)] bu by simp
  have mem1: "ok (b_mem s1)" using mem s1(2) by (simp add: same_env_def)
  note rem = remove_region_ok [OF d1 bu1 mem1 laws pos s'_def]
  show thesis
  proof (rule that [OF _ del _ rem(1,2,3)])
    show "rm_get_handle (b_regions s) (r_ptr r) = Inr (head_or hs None)"
      using region_head(1) [OF lay d(2)] rs(1) by simp
    show "same_limits s s'" using rem(4) s1 by (simp add: same_limits_def same_env_def s'_def)
  qed (use s1(4) in \<open>simp_all add: s'_def rs'\<close>)
qed

lemma same_limits_trans: "same_limits a b \<Longrightarrow> same_limits b c \<Longrightarrow> same_limits a c"
  by (simp add: same_limits_def)

lemma same_limits_refl [simp]: "same_limits s s"
  by (simp add: same_limits_def)

lemma DeallocateRegions_from_ok:
  assumes laws: "sub_laws sub_alloc sub_free blocks ok"
  shows "wf {} L fl s \<Longrightarrow> budget blocks s \<Longrightarrow> ok (b_mem s) \<Longrightarrow> todo = length (b_regions s) - i \<Longrightarrow>
    \<forall>(r, hs)\<in>set (zip (drop i (b_regions s)) (drop i L)). r_ptr r \<in> set ptrs \<longrightarrow> unused (b_chunks s) hs \<Longrightarrow>
    \<exists>s' L' fl'. DeallocateRegions_from sub_free ptrs todo i s = Inr s' \<and> wf {} L' fl' s' \<and>
      budget blocks s' \<and> ok (b_mem s') \<and> same_limits s s' \<and>
      b_regions s' = take i (b_regions s) @ filter (\<lambda>r. r_ptr r \<notin> set ptrs) (drop i (b_regions s))"
proof (induction todo arbitrary: i s L fl)
  case 0
  then have "DeallocateRegions_from sub_free ptrs 0 i s = Inr s" "length (b_regions s) \<le> i"
    by (simp_all add: DeallocateRegions_from.simps [of _ _ 0])
  then show ?case using 0 by (intro exI [of _ s] exI [of _ L] exI [of _ fl]) simp
next
  case (Suc todo)
  then have i: "i < length (b_regions s)" by linarith
  define rs1 rs2 r where "rs1 = take i (b_regions s)" and "rs2 = drop (Suc i) (b_regions s)" and "r = b_regions s ! i"
  have rs: "b_regions s = rs1 @ r # rs2" "length rs1 = i"
    using id_take_nth_drop [OF i] i by (simp_all add: rs1_def rs2_def r_def)
  have "list_all2 (region_ok (b_chunks s)) (rs1 @ r # rs2) L" using wf_lay [OF Suc.prems(1)] rs(1) by (simp add: lay_def)
  then obtain L1 hs L2 where L: "L = L1 @ hs # L2" "length rs1 = length L1"
    by (auto simp: list_all2_append1 list_all2_Cons1 dest: list_all2_lengthD)
  have un: "r_ptr r \<in> set ptrs \<longrightarrow> unused (b_chunks s) hs"
    "\<forall>(r, hs)\<in>set (zip rs2 L2). r_ptr r \<in> set ptrs \<longrightarrow> unused (b_chunks s) hs"
    using Suc.prems(5) L rs by simp_all
  show ?case
  proof (cases "r_ptr r \<in> set ptrs")
    case False
    have "DeallocateRegions_from sub_free ptrs (Suc todo) i s = DeallocateRegions_from sub_free ptrs todo (Suc i) s"
      using i False by (simp add: DeallocateRegions_from.simps [of _ _ "Suc todo"] r_def)
    moreover have "\<exists>s' L' fl'. DeallocateRegions_from sub_free ptrs todo (Suc i) s = Inr s' \<and> wf {} L' fl' s' \<and>
        budget blocks s' \<and> ok (b_mem s') \<and> same_limits s s' \<and>
        b_regions s' = take (Suc i) (b_regions s) @ filter (\<lambda>r. r_ptr r \<notin> set ptrs) (drop (Suc i) (b_regions s))"
      by (rule Suc.IH [OF Suc.prems(1-3)]) (use Suc.prems(4) un(2) L rs in simp_all)
    ultimately show ?thesis using False rs by simp
  next
    case True
    obtain s1 s' fl' where st: "rm_get_handle (b_regions s) (r_ptr r) = Inr (head_or hs None)"
      "delete_chain (length (b_chunks s)) (head_or hs None) s = Inr s1"
      "s' = s1\<lparr>b_mem := sub_free (r_ptr (b_regions s1 ! length rs1)) (r_memory_size (b_regions s1 ! length rs1)) (b_mem s1),
        b_total_region_allocated_bytes :=
          size_wrap (b_total_region_allocated_bytes s1 + 2 ^ 64 - r_memory_size (b_regions s1 ! length rs1)),
        b_regions := take (length rs1) (b_regions s1) @ drop (Suc (length rs1)) (b_regions s1)\<rparr>"
      and s': "wf {} (L1 @ L2) fl' s'" "budget blocks s'" "ok (b_mem s')" "same_limits s s'" "b_regions s' = rs1 @ rs2"
        "\<forall>x. c_in_use (b_chunks s' ! x) = c_in_use (b_chunks s ! x)"
      by (rule delete_region_ok [OF Suc.prems(1) [unfolded L(1)] Suc.prems(2,3) laws rs(1) L(2)]) (use un(1) True in auto)
    have "DeallocateRegions_from sub_free ptrs (Suc todo) i s = DeallocateRegions_from sub_free ptrs todo i s'"
      using i True st rs(2) by (simp add: DeallocateRegions_from.simps [of _ _ "Suc todo"] r_def Let_def)
    moreover have "\<exists>s'' L' fl'. DeallocateRegions_from sub_free ptrs todo i s' = Inr s'' \<and> wf {} L' fl' s'' \<and>
        budget blocks s'' \<and> ok (b_mem s'') \<and> same_limits s' s'' \<and>
        b_regions s'' = take i (b_regions s') @ filter (\<lambda>r. r_ptr r \<notin> set ptrs) (drop i (b_regions s'))"
      by (rule Suc.IH [OF s'(1-3)]) (use Suc.prems(4) un(2) L(2) rs s'(5,6) in \<open>simp_all add: unused_def\<close>)
    ultimately show ?thesis using True rs s'(5) same_limits_trans [OF s'(4)] by auto
  qed
qed

end
