(* ===== verification/BFC_Interface.thy ===== *)
theory BFC_Interface
  imports BFC_Regions
begin

text \<open>
  The interface of the allocator: allocation with its two fallbacks, release, garbage collection of
  regions, and the readings of the state. The properties are stated over the live allocations.
\<close>

section \<open>Garbage collection\<close>

lemma lay_region_pos:
  assumes "lay cs rs L" "r \<in> set rs"
  shows "r_ptr r < r_end_ptr r"
proof -
  obtain rs1 rs2 where rs: "rs = rs1 @ r # rs2" using assms(2) by (auto simp: in_set_conv_decomp)
  then obtain hs where "region_ok cs r hs"
    using assms(1) by (auto simp: lay_def list_all2_append1 list_all2_Cons1)
  then show ?thesis using region_head(2) [of cs rs1 r rs2 L] assms(1) rs by simp
qed

lemma lay_zip_inj:
  assumes lay: "lay cs rs L" and p: "(r, hs) \<in> set (zip rs L)" "(r', hs') \<in> set (zip rs L)"
    and x: "r_ptr r \<le> x" "x < r_end_ptr r" "r_ptr r' \<le> x" "x < r_end_ptr r'"
  shows "r' = r \<and> hs' = hs"
proof -
  obtain i where i: "i < length rs" "i < length L" "r = rs ! i" "hs = L ! i" using p(1) by (auto simp: set_zip)
  obtain j where j: "j < length rs" "j < length L" "r' = rs ! j" "hs' = L ! j" using p(2) by (auto simp: set_zip)
  have so: "sorted_wrt (\<lambda>r r'. r_end_ptr r \<le> r_ptr r') rs" using lay by (simp add: lay_def regions_ok_def)
  have "\<not> i < j" using sorted_wrt_nth_less [OF so, of i j] i j x by auto
  moreover have "\<not> j < i" using sorted_wrt_nth_less [OF so, of j i] i j x by auto
  ultimately show ?thesis using i j by auto
qed

lemma lay_zip_region: "lay cs rs L \<Longrightarrow> (r, hs) \<in> set (zip rs L) \<Longrightarrow> region_ok cs r hs"
  by (auto simp: lay_def list_all2_iff)

lemma lay_zip_ex: "lay cs rs L \<Longrightarrow> hs \<in> set L \<Longrightarrow> \<exists>r. (r, hs) \<in> set (zip rs L)"
  by (auto simp: lay_def set_zip in_set_conv_nth dest!: list_all2_lengthD)

definition holds_alloc :: "'m bfc \<Rightarrow> region \<Rightarrow> bool" where
  "holds_alloc s r \<longleftrightarrow> (\<exists>a\<in>live_allocs s. r_ptr r \<le> fst a \<and> fst a < r_end_ptr r)"

text \<open>A region of the layout holds a live allocation exactly when a chunk of it is in use.\<close>

lemma holds_alloc_iff:
  assumes w: "wf X L fl s" and p: "(r, hs) \<in> set (zip (b_regions s) L)"
  shows "holds_alloc s r \<longleftrightarrow> \<not> unused (b_chunks s) hs"
proof -
  let ?cs = "b_chunks s"
  note lay = wf_lay [OF w]
  have inside: "r_ptr r \<le> c_ptr (?cs ! h) \<and> c_ptr (?cs ! h) < r_end_ptr r"
    if "(r, hs) \<in> set (zip (b_regions s) L)" "h \<in> set hs" for r hs h
    using chain_bounds [of ?cs None "r_ptr r" hs None "r_end_ptr r" h] lay_zip_region [OF lay that(1)] that(2)
    by (auto simp: region_ok_def)
  show ?thesis
  proof
    assume "holds_alloc s r"
    then obtain h where h: "h \<in> in_use_of ?cs (handles_of L)" "r_ptr r \<le> c_ptr (?cs ! h)" "c_ptr (?cs ! h) < r_end_ptr r"
      using live_allocs_eq [OF w] by (auto simp: holds_alloc_def alloc_of_def)
    then obtain hs' where hs': "hs' \<in> set L" "h \<in> set hs'" by (auto simp: in_use_of_def mem_handles_of)
    then obtain r' where r': "(r', hs') \<in> set (zip (b_regions s) L)" using lay_zip_ex [OF lay] by blast
    have "hs' = hs" using lay_zip_inj [OF lay p r' h(2,3)] inside [OF r' hs'(2)] by simp
    then show "\<not> unused ?cs hs" using h(1) hs'(2) by (auto simp: unused_def in_use_of_def)
  next
    assume "\<not> unused ?cs hs"
    then obtain h where h: "h \<in> set hs" "c_in_use (?cs ! h)" by (auto simp: unused_def)
    then have "h \<in> in_use_of ?cs (handles_of L)"
      using set_zip_rightD [OF p] by (auto simp: in_use_of_def intro: handles_ofI)
    then have "alloc_of (?cs ! h) \<in> live_allocs s" using live_allocs_eq [OF w] by auto
    then show "holds_alloc s r" using inside [OF p h(1)] by (force simp: holds_alloc_def alloc_of_def)
  qed
qed

lemma DeallocateFreeRegions_ok:
  assumes w: "wf {} L fl s" and bu: "budget blocks s" and mem: "ok (b_mem s)"
    and laws: "sub_laws sub_alloc sub_free blocks ok"
  obtains (kept) "DeallocateFreeRegions sub_free n s = Inr (False, s)"
    | (freed) s' L' fl' where "DeallocateFreeRegions sub_free n s = Inr (True, s')" "wf {} L' fl' s'"
      "budget blocks s'" "ok (b_mem s')" "same_limits s s'"
      "b_regions s' = filter (holds_alloc s) (b_regions s)"
proof -
  let ?cs = "b_chunks s" and ?rs = "b_regions s"
  note lay = wf_lay [OF w]
  let ?fp = "free_pairs ?cs (zip ?rs L)"
  let ?ptrs = "map (\<lambda>(r, hs). r_ptr r) ?fp" and ?total = "\<Sum>(r, hs)\<leftarrow>?fp. r_memory_size r"
  have "(\<Sum>r\<leftarrow>?rs. r_memory_size r) < 2 ^ 64" using bu by (simp add: budget_def)
  then have fr: "free_regions s ?rs = Inr (?ptrs, ?total)"
    using free_regions_suffix [OF lay, of "[]" ?rs "[]" L] by simp
  have mem_ptrs: "r_ptr r \<in> set ?ptrs \<longleftrightarrow> unused ?cs hs" if p: "(r, hs) \<in> set (zip ?rs L)" for r hs
  proof
    assume "r_ptr r \<in> set ?ptrs"
    then obtain r' hs' where r': "(r', hs') \<in> set (zip ?rs L)" "unused ?cs hs'" "r_ptr r' = r_ptr r"
      by (auto simp: free_pairs_def)
    have "r_ptr r < r_end_ptr r" "r_ptr r' < r_end_ptr r'"
      using lay_region_pos [OF lay] p r'(1) by (auto dest: set_zip_leftD)
    then have "hs' = hs" using lay_zip_inj [OF lay p r'(1), of "r_ptr r"] r'(3) by simp
    then show "unused ?cs hs" using r'(2) by simp
  next
    assume "unused ?cs hs"
    then show "r_ptr r \<in> set ?ptrs" using p by (force simp: free_pairs_def)
  qed
  have un: "\<forall>(r, hs)\<in>set (zip ?rs L). r_ptr r \<in> set ?ptrs \<longrightarrow> unused ?cs hs" using mem_ptrs by blast
  have len: "length ?rs = length L" using lay by (auto simp: lay_def dest: list_all2_lengthD)
  have keep: "r_ptr r \<notin> set ?ptrs \<longleftrightarrow> holds_alloc s r" if r: "r \<in> set ?rs" for r
  proof -
    obtain hs where p: "(r, hs) \<in> set (zip ?rs L)" using r len by (auto simp: set_zip in_set_conv_nth)
    from mem_ptrs [OF p] holds_alloc_iff [OF w p] show ?thesis by simp
  qed
  obtain s' L' fl' where d: "DeallocateRegions sub_free ?ptrs s = Inr s'" "wf {} L' fl' s'"
    "budget blocks s'" "ok (b_mem s')" "same_limits s s'" "b_regions s' = filter (\<lambda>r. r_ptr r \<notin> set ?ptrs) ?rs"
    using DeallocateRegions_from_ok [OF laws w bu mem, of "length ?rs" 0 ?ptrs] un
    by (auto simp: DeallocateRegions_def)
  have flt: "filter (\<lambda>r. r_ptr r \<notin> set ?ptrs) ?rs = filter (holds_alloc s) ?rs"
    using keep by (intro filter_cong) auto
  have "DeallocateFreeRegions sub_free n s = Inr (False, s) \<or> DeallocateFreeRegions sub_free n s = Inr (True, s')"
    using fr d(1) unfolding DeallocateFreeRegions_def by simp
  then show thesis using kept freed [OF _ d(2-5)] d(6) flt by auto
qed

section \<open>Allocation\<close>

text \<open>The outcome of an allocation: nothing, or the address of a block that is long enough.\<close>

definition granted :: "'m bfc \<Rightarrow> nat \<Rightarrow> addr option \<Rightarrow> 'm bfc \<Rightarrow> bool" where
  "granted s num_bytes r s' \<longleftrightarrow>
     (case r of
        None \<Rightarrow> live_allocs s' = live_allocs s
      | Some p \<Rightarrow> \<exists>sz. RoundedBytes num_bytes \<le> sz \<and> sz < 2 * RoundedBytes num_bytes \<and>
          sz - RoundedBytes num_bytes < max_internal_fragmentation_bytes s \<and>
          live_allocs s' = insert (p, num_bytes, sz, b_next_allocation_id s) (live_allocs s))"

lemma bfc_invI: "wf {} L fl s \<Longrightarrow> budget blocks s \<Longrightarrow> ok (b_mem s) \<Longrightarrow> bfc_inv blocks ok s"
  by (auto simp: bfc_inv_def)

lemma FindChunkPtr_granted:
  assumes w: "wf {} L fl s" and bu: "budget blocks s" and mem: "ok (b_mem s)"
    and n: "0 < num_bytes" "num_bytes + 255 < 2 ^ 64"
  defines "n \<equiv> RoundedBytes num_bytes"
  shows "FindChunkPtr (BinNumForSize n) n num_bytes s = Inr (None, s) \<and> (\<forall>x\<in>free_of s L. c_size (b_chunks s ! x) < n) \<or>
    (\<exists>p s'. FindChunkPtr (BinNumForSize n) n num_bytes s = Inr (Some p, s') \<and> bfc_inv blocks ok s' \<and>
       granted s num_bytes (Some p) s')"
proof -
  note rb = RoundedBytes_bounds [OF n(2), folded n_def]
  have n64: "n < 2 ^ 64"
  proof -
    have "n = 256 * ((num_bytes + 255) div 256)" using RoundedBytes_eq [OF n(2)] by (simp add: n_def)
    also have "\<dots> \<le> num_bytes + 255" by simp
    finally show ?thesis using n(2) by simp
  qed
  show ?thesis
  proof (rule FindChunkPtr_ok [OF w bu n(1) rb(1,3) n64])
    fix h sz s' L' fl'
    assume f: "FindChunkPtr (BinNumForSize n) n num_bytes s = Inr (Some (c_ptr (b_chunks s ! h)), s')"
      "wf {} L' fl' s'" "same_env s s'" "n \<le> sz" "sz < 2 * n \<and> sz - n < max_internal_fragmentation_bytes s"
      "live_allocs s' = insert (c_ptr (b_chunks s ! h), num_bytes, sz, b_next_allocation_id s) (live_allocs s)"
    have "bfc_inv blocks ok s'"
      using f(2) by (rule bfc_invI) (use bu mem f(3) budget_same_env [OF f(3)] in \<open>simp_all add: same_env_def\<close>)
    then show ?thesis using f by (auto simp: granted_def n_def [symmetric])
  qed blast
qed

lemma granted_same_limits:
  assumes "granted s1 n r s'" "live_allocs s1 = live_allocs s" "b_next_allocation_id s1 = b_next_allocation_id s"
    and "max_internal_fragmentation_bytes s1 = max_internal_fragmentation_bytes s"
  shows "granted s n r s'"
  using assms by (auto simp: granted_def split: option.splits)

text \<open>Extension and search, as both fallbacks do it; a successful extension gives a large enough chunk.\<close>

lemma Extend_FindChunkPtr:
  assumes w: "wf {} L fl s" and bu: "budget blocks s" and mem: "ok (b_mem s)"
    and laws: "sub_laws sub_alloc sub_free blocks ok"
    and n: "0 < num_bytes" "num_bytes + 255 < 2 ^ 64" and curr: "0 < b_curr_region_allocation_bytes s"
  defines "n \<equiv> RoundedBytes num_bytes"
  obtains (failed) s1 where "Extend sub_alloc n s = Inr (False, s1)" "wf {} L fl s1" "budget blocks s1"
      "ok (b_mem s1)" "same_limits (s\<lparr>b_curr_region_allocation_bytes := b_curr_region_allocation_bytes s1\<rparr>) s1"
      "0 < b_curr_region_allocation_bytes s1"
    | (found) s1 p s' where "Extend sub_alloc n s = Inr (True, s1)"
      "FindChunkPtr (BinNumForSize n) n num_bytes s1 = Inr (Some p, s')" "bfc_inv blocks ok s'"
      "granted s num_bytes (Some p) s'"
proof -
  note rb = RoundedBytes_bounds [OF n(2), folded n_def]
  have np: "0 < n" using rb(4) [OF n(1)] by simp
  show thesis
  proof (rule Extend_ok [OF w bu mem laws np rb(3) curr])
    fix s1
    assume "Extend sub_alloc n s = Inr (False, s1)" "wf {} L fl s1" "budget blocks s1" "ok (b_mem s1)"
      "live_allocs s1 = live_allocs s" "0 < b_curr_region_allocation_bytes s1"
      "b_next_allocation_id s1 = b_next_allocation_id s" "b_opts s1 = b_opts s" "b_memory_limit s1 = b_memory_limit s"
    then show thesis using failed by (simp add: same_limits_def)
  next
    fix s1 L1 fl1 h
    assume e: "Extend sub_alloc n s = Inr (True, s1)" "wf {} L1 fl1 s1" "budget blocks s1" "ok (b_mem s1)"
      "live_allocs s1 = live_allocs s" "h \<in> free_of s1 L1" "n \<le> c_size (b_chunks s1 ! h)"
      "b_next_allocation_id s1 = b_next_allocation_id s" "b_opts s1 = b_opts s" "b_memory_limit s1 = b_memory_limit s"
    have "\<not> (\<forall>x\<in>free_of s1 L1. c_size (b_chunks s1 ! x) < n)" using e(6,7) by (auto simp: not_less)
    then obtain p s' where f: "FindChunkPtr (BinNumForSize n) n num_bytes s1 = Inr (Some p, s')"
      "bfc_inv blocks ok s'" "granted s1 num_bytes (Some p) s'"
      using FindChunkPtr_granted [where ok = ok, OF e(2,3,4) n, folded n_def] by blast
    show thesis
      by (rule found [OF e(1) f(1,2) granted_same_limits [OF f(3)]]) (use e max_internal_cong [of s1 s] in simp_all)
  qed
qed

lemma AllocateRaw_ok:
  assumes laws: "sub_laws sub_alloc sub_free blocks ok" and inv: "bfc_inv blocks ok s"
    and curr: "0 < b_curr_region_allocation_bytes s" and n: "0 < num_bytes" "num_bytes + 255 < 2 ^ 64"
  shows "\<exists>r s'. AllocateRaw sub_alloc sub_free num_bytes s = Inr (r, s') \<and> bfc_inv blocks ok s' \<and>
    granted s num_bytes r s'"
proof -
  obtain L fl where w: "wf {} L fl s" and bu: "budget blocks s" and mem: "ok (b_mem s)"
    using inv by (auto simp: bfc_inv_def)
  let ?n = "RoundedBytes num_bytes"
  let ?find = "FindChunkPtr (BinNumForSize ?n) ?n num_bytes"
  note AllocateRaw_def [simp] AllocateRawInternal_def [simp] Let_def [simp]
  consider (free) p s' where "?find s = Inr (Some p, s')" "bfc_inv blocks ok s'" "granted s num_bytes (Some p) s'"
    | (none) "?find s = Inr (None, s)"
    using FindChunkPtr_granted [where ok = ok, OF w bu mem n] by blast
  then show ?thesis
  proof cases
    case free
    then show ?thesis using n(1) by simp
  next
    case none
    show ?thesis
    proof (rule Extend_FindChunkPtr [OF w bu mem laws n curr])
      fix s1 p s'
      assume "Extend sub_alloc ?n s = Inr (True, s1)" "?find s1 = Inr (Some p, s')" "bfc_inv blocks ok s'"
        "granted s num_bytes (Some p) s'"
      then show ?thesis using none n(1) by simp
    next
      fix s1
      assume e: "Extend sub_alloc ?n s = Inr (False, s1)" "wf {} L fl s1" "budget blocks s1" "ok (b_mem s1)"
        "same_limits (s\<lparr>b_curr_region_allocation_bytes := b_curr_region_allocation_bytes s1\<rparr>) s1"
        "0 < b_curr_region_allocation_bytes s1"
      show ?thesis
      proof (rule DeallocateFreeRegions_ok [OF e(2,3) _ laws, of ?n])
        assume "DeallocateFreeRegions sub_free ?n s1 = Inr (False, s1)"
        then show ?thesis
          using none e n(1) bfc_invI [where ok = ok, OF e(2-4)] by (simp add: granted_def same_limits_def)
      next
        fix s2 L2 fl2
        assume d: "DeallocateFreeRegions sub_free ?n s1 = Inr (True, s2)" "wf {} L2 fl2 s2" "budget blocks s2"
          "ok (b_mem s2)" "same_limits s1 s2"
        have c2: "0 < b_curr_region_allocation_bytes s2" using d(5) e(6) by (simp add: same_limits_def)
        have lim: "live_allocs s2 = live_allocs s" "b_next_allocation_id s2 = b_next_allocation_id s"
          "max_internal_fragmentation_bytes s2 = max_internal_fragmentation_bytes s"
          using d(5) e(5) max_internal_cong [of s2 s] by (simp_all add: same_limits_def)
        show ?thesis
        proof (rule Extend_FindChunkPtr [OF d(2-4) laws n c2])
          fix s3 p s'
          assume x: "Extend sub_alloc ?n s2 = Inr (True, s3)" "?find s3 = Inr (Some p, s')" "bfc_inv blocks ok s'"
            "granted s2 num_bytes (Some p) s'"
          then show ?thesis using none e(1) d(1) n(1) granted_same_limits [OF x(4) lim] by simp
        next
          fix s3
          assume x: "Extend sub_alloc ?n s2 = Inr (False, s3)" "wf {} L2 fl2 s3" "budget blocks s3" "ok (b_mem s3)"
            "same_limits (s2\<lparr>b_curr_region_allocation_bytes := b_curr_region_allocation_bytes s3\<rparr>) s3"
          then show ?thesis
            using none e(1) d(1) n(1) bfc_invI [where ok = ok, OF x(2-4)] lim(1)
            by (simp add: granted_def same_limits_def)
        qed
      qed (rule e(4))
    qed
  qed
qed

text \<open>
  When the size of the next region has wrapped to 0, an extension that the limit would allow never
  ends; every call that does return still keeps the invariant.
\<close>

lemma Extend_zero:
  assumes "b_curr_region_allocation_bytes s = 0" "0 < n"
  shows "Extend sub_alloc n s = (if n > available_bytes s then Inr (False, s) else Inl Diverges)"
  using assms grow_curr_zero [OF assms(2)] by (simp add: Extend_def)

lemma AllocateRaw_returns:
  assumes laws: "sub_laws sub_alloc sub_free blocks ok" and inv: "bfc_inv blocks ok s"
    and n: "0 < num_bytes" "num_bytes + 255 < 2 ^ 64"
    and ret: "AllocateRaw sub_alloc sub_free num_bytes s = Inr (r, s')"
  shows "bfc_inv blocks ok s' \<and> granted s num_bytes r s'"
proof (cases "b_curr_region_allocation_bytes s = 0")
  case False
  then show ?thesis using AllocateRaw_ok [OF laws inv _ n] ret by auto
next
  case True
  obtain L fl where w: "wf {} L fl s" and bu: "budget blocks s" and mem: "ok (b_mem s)"
    using inv by (auto simp: bfc_inv_def)
  let ?n = "RoundedBytes num_bytes"
  have np: "0 < ?n" using RoundedBytes_bounds(4) [OF n(2,1)] by simp
  note ez = Extend_zero [OF _ np, of _ sub_alloc]
  note AllocateRaw_def [simp] AllocateRawInternal_def [simp] Let_def [simp]
  consider (free) p s1 where "FindChunkPtr (BinNumForSize ?n) ?n num_bytes s = Inr (Some p, s1)"
      "bfc_inv blocks ok s1" "granted s num_bytes (Some p) s1"
    | (none) "FindChunkPtr (BinNumForSize ?n) ?n num_bytes s = Inr (None, s)"
    using FindChunkPtr_granted [where ok = ok, OF w bu mem n] by blast
  then show ?thesis
  proof cases
    case free
    then show ?thesis using ret n(1) by simp
  next
    case none
    show ?thesis
    proof (rule DeallocateFreeRegions_ok [OF w bu _ laws, of ?n])
      assume "DeallocateFreeRegions sub_free ?n s = Inr (False, s)"
      then show ?thesis using ret none n(1) ez [OF True] inv by (auto simp: granted_def split: if_splits)
    next
      fix s2 L2 fl2
      assume d: "DeallocateFreeRegions sub_free ?n s = Inr (True, s2)" "wf {} L2 fl2 s2" "budget blocks s2"
        "ok (b_mem s2)" "same_limits s s2"
      have "b_curr_region_allocation_bytes s2 = 0" using d(5) True by (simp add: same_limits_def)
      from ez [OF this] show ?thesis
        using ret none n(1) ez [OF True] d bfc_invI [where ok = ok, OF d(2-4)]
        by (auto simp: granted_def same_limits_def split: if_splits)
    qed (rule mem)
  qed
qed

section \<open>Release\<close>

lemma live_alloc_chunk:
  assumes w: "wf {} L fl s" and a: "a \<in> live_allocs s"
  obtains h where "h \<in> handles_of L" "c_in_use (b_chunks s ! h)" "a = alloc_of (b_chunks s ! h)"
    "rm_get_handle (b_regions s) (fst a) = Inr (Some h)" "0 < fst a"
proof -
  obtain h where h: "h \<in> handles_of L" "c_in_use (b_chunks s ! h)" "a = alloc_of (b_chunks s ! h)"
    using a live_allocs_eq [OF w] by (auto simp: in_use_of_def)
  with lay_ptr_handle [OF wf_lay [OF w] h(1)] lay_bounds(4) [OF wf_lay [OF w] h(1)] that
  show thesis by (simp add: alloc_of_def)
qed

lemma DeallocateRaw_ok:
  assumes inv: "bfc_inv blocks ok s" and a: "a \<in> live_allocs s"
  shows "\<exists>s'. DeallocateRaw (fst a) s = Inr s' \<and> bfc_inv blocks ok s' \<and>
    live_allocs s' = (if rm_get_handle (b_regions s) (fst a) = Inr (Some 0) then live_allocs s
                      else live_allocs s - {a})"
proof -
  obtain L fl where w: "wf {} L fl s" and bu: "budget blocks s" and mem: "ok (b_mem s)"
    using inv by (auto simp: bfc_inv_def)
  obtain h where h: "h \<in> handles_of L" "c_in_use (b_chunks s ! h)" "a = alloc_of (b_chunks s ! h)"
    and g: "rm_get_handle (b_regions s) (fst a) = Inr (Some h)" and p: "0 < fst a"
    by (rule live_alloc_chunk [OF w a])
  show ?thesis
  proof (cases "h = 0")
    case True
    then show ?thesis using g p inv by (simp add: DeallocateRaw_def)
  next
    case False
    obtain s1 where m: "MarkFree h s = Inr s1" and w1: "wf (insert h {}) L fl s1"
      and l1: "live_allocs s1 = live_allocs s - {alloc_of (b_chunks s ! h)}" and e1: "same_env s s1"
      and "b_chunks s1 = (b_chunks s)[h := (b_chunks s ! h)\<lparr>c_allocation_id := -1\<rparr>]"
      and "st_bytes_in_use (b_stats s1) = st_bytes_in_use (b_stats s) - int (c_size (b_chunks s ! h))"
      by (rule MarkFree_ok [OF w h(1,2)])
    obtain h' L' fl' s2 where t: "TryToCoalesce h False s1 = Inr (h', s2)" and w2: "wf {h'} L' fl' s2"
      and l2: "live_allocs s2 = live_allocs s1" and e2: "same_env s1 s2" and f: "fenced {} (b_chunks s2) L' h'"
      by (rule TryToCoalesce_ok [OF w1])
    have f': "fenced ({h'} - {h'}) (b_chunks s2) L' h'" using f by simp
    obtain s3 where i: "InsertFreeChunkIntoBin h' s2 = Inr s3" and w3: "wf ({h'} - {h'}) L' fl' s3"
      and l3: "live_allocs s3 = live_allocs s2" and e3: "same_env s2 s3"
      by (rule InsertFreeChunkIntoBin_ok [OF w2 singletonI f'])
    have e: "same_env s s3" using e1 e2 e3 by (blast intro: same_env_trans)
    have "bfc_inv blocks ok s3"
      by (rule bfc_invI [of L' fl']) (use w3 bu mem e budget_same_env [OF e] in \<open>simp_all add: same_env_def\<close>)
    then show ?thesis using False g p m t i l1 l2 l3 h(3) by (simp add: DeallocateRaw_def)
  qed
qed

text \<open>A pointer to a chunk that is not in use is caught by the check in \<open>MarkFree\<close>.\<close>

lemma DeallocateRaw_double_free:
  assumes w: "wf {} L fl s" and h: "h \<in> free_of s L" "h \<noteq> 0"
  shows "DeallocateRaw (c_ptr (b_chunks s ! h)) s = Inl EnforceFailed"
proof -
  have H: "h \<in> handles_of L" "\<not> c_in_use (b_chunks s ! h)" using h by (simp_all add: free_of_def)
  note g = lay_ptr_handle [OF wf_lay [OF w] H(1)]
  have "MarkFree h s = Inl EnforceFailed" using H(2) wf_handles(4) [OF w H(1)] by (simp add: MarkFree_def enforce_def)
  then show ?thesis
    using g h(2) lay_bounds(4) [OF wf_lay [OF w] H(1)] by (simp add: DeallocateRaw_def)
qed

section \<open>What the invariant says of the live allocations\<close>

lemma bytes_in_use_eq:
  assumes "bfc_inv blocks ok s"
  shows "st_bytes_in_use (b_stats s) = (\<Sum>a\<in>live_allocs s. int (fst (snd (snd a))))"
proof -
  obtain L fl where w: "wf {} L fl s" using assms by (auto simp: bfc_inv_def)
  have "inj_on (\<lambda>h. alloc_of (b_chunks s ! h)) (in_use_of (b_chunks s) (handles_of L))"
    using alloc_of_inj [OF w] by (rule inj_on_subset) (auto simp: in_use_of_def)
  then have "(\<Sum>a\<in>live_allocs s. int (fst (snd (snd a)))) =
      (\<Sum>h\<in>in_use_of (b_chunks s) (handles_of L). int (c_size (b_chunks s ! h)))"
    unfolding live_allocs_eq [OF w] by (subst sum.reindex) (simp_all add: alloc_of_def)
  then show ?thesis using w by (simp add: wf_def account_def)
qed

lemma finite_live_allocs [simp]: "finite (live_allocs s)"
  by (simp add: live_allocs_def in_use_of_def)

lemma live_alloc_facts:
  assumes inv: "bfc_inv blocks ok s" and a: "(p, req, sz, i) \<in> live_allocs s"
  shows "0 < p" "0 < req" "req \<le> sz" "256 dvd sz" "0 < i" "i < b_next_allocation_id s"
    "\<exists>q k. (q, k) \<in> blocks (b_mem s) \<and> q \<le> p \<and> p + sz \<le> q + k \<and> 256 dvd p - q"
proof -
  obtain L fl where w: "wf {} L fl s" and bu: "budget blocks s" using inv by (auto simp: bfc_inv_def)
  obtain h where h: "h \<in> handles_of L" "c_in_use (b_chunks s ! h)" "(p, req, sz, i) = alloc_of (b_chunks s ! h)"
    by (rule live_alloc_chunk [OF w a])
  have acc: "account (b_chunks s) (handles_of L) (st_bytes_in_use (b_stats s)) (b_next_allocation_id s)"
    using w by (simp add: wf_def)
  have u: "h \<in> in_use_of (b_chunks s) (handles_of L)" using h by (simp add: in_use_of_def)
  note lb = lay_bounds [OF wf_lay [OF w] h(1)]
  show "0 < p" "256 dvd sz" using lb h(3) by (simp_all add: alloc_of_def)
  show "0 < req" "req \<le> sz" "0 < i" "i < b_next_allocation_id s"
    using acc u h(3) by (simp_all add: account_def alloc_of_def)
  obtain rs1 r rs2 L1 A B L2 where r: "b_regions s = rs1 @ r # rs2" "region_ok (b_chunks s) r (A @ h # B)"
    by (rule lay_locate [OF wf_lay [OF w] h(1)]) blast
  then have ch: "chain (b_chunks s) None (r_ptr r) (A @ h # B) None (r_end_ptr r)" by (simp add: region_ok_def)
  have "(r_ptr r, r_memory_size r) \<in> blocks (b_mem s)" using bu r(1) by (simp add: budget_def)
  then show "\<exists>q k. (q, k) \<in> blocks (b_mem s) \<and> q \<le> p \<and> p + sz \<le> q + k \<and> 256 dvd p - q"
    using chain_bounds [OF ch, of h] h(3)
    by (intro exI [of _ "r_ptr r"] exI [of _ "r_memory_size r"]) (simp add: alloc_of_def r_end_ptr_def)
qed

lemma lay_disjoint:
  assumes lay: "lay cs rs L" and h: "h \<in> handles_of L" "h' \<in> handles_of L" "h \<noteq> h'"
  shows "c_ptr (cs ! h) + c_size (cs ! h) \<le> c_ptr (cs ! h') \<or> c_ptr (cs ! h') + c_size (cs ! h') \<le> c_ptr (cs ! h)"
proof -
  obtain hs where hs: "hs \<in> set L" "h \<in> set hs" using h(1) by (auto simp: mem_handles_of)
  obtain hs' where hs': "hs' \<in> set L" "h' \<in> set hs'" using h(2) by (auto simp: mem_handles_of)
  obtain r where r: "(r, hs) \<in> set (zip rs L)" using lay_zip_ex [OF lay hs(1)] by blast
  obtain r' where r': "(r', hs') \<in> set (zip rs L)" using lay_zip_ex [OF lay hs'(1)] by blast
  have ch: "chain cs None (r_ptr r) hs None (r_end_ptr r)" "chain cs None (r_ptr r') hs' None (r_end_ptr r')"
    using lay_zip_region [OF lay] r r' by (auto simp: region_ok_def)
  note b = chain_bounds [OF ch(1) hs(2)] chain_bounds [OF ch(2) hs'(2)]
  show ?thesis
  proof (cases "hs' = hs")
    case True
    then show ?thesis using chain_disjoint [OF ch(1), of h h'] hs hs' h(3) by simp
  next
    case False
    have so: "sorted_wrt (\<lambda>r r'. r_end_ptr r \<le> r_ptr r') rs" using lay by (simp add: lay_def regions_ok_def)
    obtain i j where ij: "i < length rs" "r = rs ! i" "hs = L ! i" "j < length rs" "r' = rs ! j" "hs' = L ! j"
      using r r' by (auto simp: set_zip)
    then have "i < j \<or> j < i" using False by (metis linorder_neqE_nat)
    then have "r_end_ptr r \<le> r_ptr r' \<or> r_end_ptr r' \<le> r_ptr r"
      using sorted_wrt_nth_less [OF so, of i j] sorted_wrt_nth_less [OF so, of j i] ij by auto
    then show ?thesis using b by linarith
  qed
qed

lemma live_allocs_disjoint:
  assumes inv: "bfc_inv blocks ok s" and a: "(p, req, sz, i) \<in> live_allocs s" and b: "(p', req', sz', i') \<in> live_allocs s"
    and ne: "(p, req, sz, i) \<noteq> (p', req', sz', i')"
  shows "p + sz \<le> p' \<or> p' + sz' \<le> p" "i \<noteq> i'"
proof -
  obtain L fl where w: "wf {} L fl s" using inv by (auto simp: bfc_inv_def)
  obtain h where h: "h \<in> handles_of L" "c_in_use (b_chunks s ! h)" "(p, req, sz, i) = alloc_of (b_chunks s ! h)"
    by (rule live_alloc_chunk [OF w a])
  obtain h' where h': "h' \<in> handles_of L" "c_in_use (b_chunks s ! h')" "(p', req', sz', i') = alloc_of (b_chunks s ! h')"
    by (rule live_alloc_chunk [OF w b])
  have hh: "h \<noteq> h'" using ne h(3) h'(3) by auto
  show "p + sz \<le> p' \<or> p' + sz' \<le> p"
    using lay_disjoint [OF wf_lay [OF w] h(1) h'(1) hh] h(3) h'(3) by (simp add: alloc_of_def)
  have "inj_on (\<lambda>h. c_allocation_id (b_chunks s ! h)) (in_use_of (b_chunks s) (handles_of L))"
    using w by (simp add: wf_def account_def)
  then show "i \<noteq> i'"
    using hh h h' by (auto simp: alloc_of_def in_use_of_def dest: inj_onD)
qed

text \<open>What is granted next to the allocations that are live already.\<close>

lemma granted_fresh:
  assumes inv: "bfc_inv blocks ok s" "bfc_inv blocks ok s'" and g: "granted s n (Some p) s'"
  obtains sz where "n \<le> RoundedBytes n \<longrightarrow> n \<le> sz" "(p, n, sz, b_next_allocation_id s) \<in> live_allocs s'"
    "RoundedBytes n \<le> sz" "sz < 2 * RoundedBytes n"
    "live_allocs s' = insert (p, n, sz, b_next_allocation_id s) (live_allocs s)"
    "(p, n, sz, b_next_allocation_id s) \<notin> live_allocs s"
    "\<And>q req k i. (q, req, k, i) \<in> live_allocs s \<Longrightarrow> (p + sz \<le> q \<or> q + k \<le> p) \<and> q \<noteq> p"
proof -
  obtain sz where sz: "RoundedBytes n \<le> sz" "sz < 2 * RoundedBytes n"
    "live_allocs s' = insert (p, n, sz, b_next_allocation_id s) (live_allocs s)"
    using g by (auto simp: granted_def)
  have new: "(p, n, sz, b_next_allocation_id s) \<notin> live_allocs s"
    using live_alloc_facts(6) [OF inv(1)] by blast
  have "(p + sz \<le> q \<or> q + k \<le> p) \<and> q \<noteq> p" if q: "(q, req, k, i) \<in> live_allocs s" for q req k i
  proof -
    have q': "(q, req, k, i) \<in> live_allocs s'" "(p, n, sz, b_next_allocation_id s) \<in> live_allocs s'"
      using q sz(3) by auto
    have "(p, n, sz, b_next_allocation_id s) \<noteq> (q, req, k, i)" using q new by metis
    from live_allocs_disjoint(1) [OF inv(2) q'(2,1) this] show ?thesis
      using live_alloc_facts(2,3) [OF inv(2) q'(1)] live_alloc_facts(2,3) [OF inv(2) q'(2)] by auto
  qed
  then show thesis using that [OF _ _ sz new] sz by auto
qed

end
