(* ===== verification/BFC_Debug.thy ===== *)
theory BFC_Debug
  imports BFC_Interface
begin

text \<open>
  The readings of the allocator's state: the sizes of all chunks against the bytes of the regions,
  the largest free chunk, and the summary per bin, whose internal checks never fail.
\<close>

section \<open>Chunks and regions\<close>

lemma region_sum:
  "region_ok cs r hs \<Longrightarrow> r_memory_size r = (\<Sum>h\<leftarrow>hs. c_size (cs ! h))"
  using chain_end [of cs None "r_ptr r" hs None "r_end_ptr r"] by (simp add: region_ok_def r_end_ptr_def)

lemma lay_sum_list:
  "list_all2 (region_ok cs) rs L \<Longrightarrow> (\<Sum>h\<leftarrow>concat L. c_size (cs ! h)) = (\<Sum>r\<leftarrow>rs. r_memory_size r)"
  by (induction rs L rule: list_all2_induct) (auto simp: region_sum)

lemma sum_handles: "distinct (concat L) \<Longrightarrow> (\<Sum>h\<in>handles_of L. f h) = (\<Sum>h\<leftarrow>concat L. f h)"
  unfolding handles_of_def by (rule sum.distinct_set_conv_list)

lemma wf_sum:
  assumes "wf X L fl s"
  shows "(\<Sum>h\<in>handles_of L. c_size (b_chunks s ! h)) = (\<Sum>r\<leftarrow>b_regions s. r_memory_size r)"
proof -
  have "distinct (concat L)" "list_all2 (region_ok (b_chunks s)) (b_regions s) L"
    using assms by (simp_all add: wf_def lay_def)
  then show ?thesis
    using sum_handles [of L "\<lambda>h. c_size (b_chunks s ! h)"] lay_sum_list by metis
qed

lemma bytes_in_use_le:
  assumes "bfc_inv blocks ok s"
  shows "0 \<le> st_bytes_in_use (b_stats s)" "st_bytes_in_use (b_stats s) \<le> int (b_total_region_allocated_bytes s)"
    "b_total_region_allocated_bytes s \<le> b_memory_limit s"
proof -
  obtain L fl where w: "wf {} L fl s" and bu: "budget blocks s" using assms by (auto simp: bfc_inv_def)
  have u: "st_bytes_in_use (b_stats s) = (\<Sum>h\<in>in_use_of (b_chunks s) (handles_of L). int (c_size (b_chunks s ! h)))"
    using w by (simp add: wf_def account_def)
  then show "0 \<le> st_bytes_in_use (b_stats s)" by (simp add: sum_nonneg)
  have "(\<Sum>h\<in>in_use_of (b_chunks s) (handles_of L). int (c_size (b_chunks s ! h))) \<le>
      (\<Sum>h\<in>handles_of L. int (c_size (b_chunks s ! h)))"
    by (rule sum_mono2) (auto simp: in_use_of_def)
  also have "\<dots> = int (\<Sum>h\<in>handles_of L. c_size (b_chunks s ! h))" by simp
  also have "\<dots> = int (b_total_region_allocated_bytes s)"
    using wf_sum [OF w] bu by (simp add: budget_def)
  finally show "st_bytes_in_use (b_stats s) \<le> int (b_total_region_allocated_bytes s)" using u by simp
  show "b_total_region_allocated_bytes s \<le> b_memory_limit s" using bu by (simp add: budget_def)
qed

section \<open>The free chunks\<close>

definition free_handles :: "'m bfc \<Rightarrow> handle set" where
  "free_handles s = {h. h < length (b_chunks s) \<and> c_bin_num (b_chunks s ! h) \<noteq> None}"

lemma free_handles_eq:
  assumes "wf {} L fl s"
  shows "free_handles s = free_of s L"
proof -
  have p: "pool (b_chunks s) (handles_of L) (b_free_chunks_list s) fl" using assms by (simp add: wf_def)
  have "c_bin_num (b_chunks s ! h) \<noteq> None \<longleftrightarrow> \<not> c_in_use (b_chunks s ! h)" if "h \<in> handles_of L" for h
    using filed_chunk [OF wf_filed [OF assms] that] by simp
  moreover have "c_bin_num (b_chunks s ! h) = None" if "h \<in> set fl" for h
    using p that by (simp add: pool_def spare_def)
  moreover have "h < length (b_chunks s) \<longleftrightarrow> h \<in> handles_of L \<or> h \<in> set fl" for h
    using p by (auto simp: pool_def)
  ultimately show ?thesis by (auto simp: free_handles_def free_of_def)
qed

lemma LargestFreeChunk_max:
  assumes w: "wf {} L fl s"
  shows "LargestFreeChunk s = Max (insert 0 ((\<lambda>h. c_size (b_chunks s ! h)) ` free_of s L))"
proof (cases "List.find (\<lambda>b. b_bins s ! b \<noteq> []) (rev [0..<kNumBins])")
  case None
  then have "\<forall>b<kNumBins. b_bins s ! b = []" by (auto simp: find_None_iff)
  then have "free_of s L = {}" using free_in_bin [OF w] by force
  then show ?thesis using None by (simp add: LargestFreeChunk_def)
next
  case (Some b)
  then obtain i where i: "i < kNumBins" "b = rev [0..<kNumBins] ! i" "b_bins s ! b \<noteq> []"
    "\<forall>j<i. b_bins s ! (rev [0..<kNumBins] ! j) = []" by (auto simp: find_Some_iff)
  have b: "b < kNumBins" "i = kNumBins - Suc b" using i by (simp_all add: rev_nth)
  have above: "b_bins s ! c = []" if "b < c" "c < kNumBins" for c
    using i(4) [rule_format, of "kNumBins - Suc c"] that b by (simp add: rev_nth)
  let ?h = "last (b_bins s ! b)" and ?sz = "\<lambda>h. c_size (b_chunks s ! h)"
  have h: "?h \<in> set (b_bins s ! b)" using i(3) by simp
  note hm = bin_member [OF w b(1) h]
  have "?sz x \<le> ?sz ?h" if x: "x \<in> free_of s L" for x
  proof (cases "BinNumForSize (?sz x) = b")
    case True
    then have m: "x \<in> set (b_bins s ! b)" using free_in_bin(1) [OF w x] by simp
    then obtain j where j: "j < length (b_bins s ! b)" "x = b_bins s ! b ! j" by (auto simp: in_set_conv_nth)
    have so: "sorted_wrt (chunk_less (b_chunks s)) (b_bins s ! b)" using wf_filed [OF w] b(1) by (simp add: filed_def)
    show ?thesis
    proof (cases "j = length (b_bins s ! b) - 1")
      case True
      then show ?thesis using j i(3) by (simp add: last_conv_nth)
    next
      case False
      then have "chunk_less (b_chunks s) x ?h"
        using sorted_wrt_nth_less [OF so, of j "length (b_bins s ! b) - 1"] j i(3) by (simp add: last_conv_nth)
      then show ?thesis by (auto simp: chunk_less_def split: if_splits)
    qed
  next
    case False
    have "\<not> b < BinNumForSize (?sz x)" using above free_in_bin [OF w x] by force
    then have "BinNumForSize (?sz x) < BinNumForSize (?sz ?h)" using False hm by simp
    moreover have "?sz x < 2 ^ 64" using wf_size_lt [OF w] x by (simp add: free_of_def)
    ultimately show ?thesis using BinNumForSize_mono [of "?sz ?h" "?sz x"] by linarith
  qed
  then have "Max (insert 0 (?sz ` free_of s L)) = ?sz ?h"
    by (intro Max_eqI) (use hm in \<open>auto simp: free_of_def\<close>)
  then show ?thesis using Some by (simp add: LargestFreeChunk_def)
qed

section \<open>The summary per bin\<close>

definition note_chunk :: "chunk list \<Rightarrow> handle \<Rightarrow> bin_debug_info list \<Rightarrow> bin_debug_info list" where
  "note_chunk cs h infos =
     (let b = BinNumForSize (c_size (cs ! h)) in infos[b := bin_debug_add (cs ! h) (infos ! b)])"

lemma length_note_chunk [simp]: "length (note_chunk cs h infos) = length infos"
  by (simp add: note_chunk_def Let_def)

lemma debug_chain_ok:
  assumes w: "wf {} L fl s"
  shows "chain (b_chunks s) pv p hs None e \<Longrightarrow> set hs \<subseteq> handles_of L \<Longrightarrow> length hs \<le> fuel \<Longrightarrow>
    debug_chain s fuel (head_or hs None) infos = Inr (fold (note_chunk (b_chunks s)) hs infos)"
proof (induction hs arbitrary: pv p fuel infos)
  case (Cons h hs)
  then obtain f where f: "fuel = Suc f" "length hs \<le> f" by (cases fuel) auto
  let ?cs = "b_chunks s"
  have H: "h \<in> handles_of L" using Cons.prems by simp
  have c: "c_next (?cs ! h) = head_or hs None" "chain ?cs (Some h) (p + c_size (?cs ! h)) hs None e"
    using Cons.prems(1) by simp_all
  have v: "valid_handle s h" using wf_handles(4) [OF w H] .
  let ?b = "BinNumForSize (c_size (?cs ! h))"
  have b: "?b < kNumBins" by (rule wf_bin_lt [OF w H])
  have fi: "filed {} ?cs (b_bins s) (handles_of L)" by (rule wf_filed [OF w])
  have bin: "sorted_wrt (chunk_less ?cs) (b_bins s ! ?b)" "set (b_bins s ! ?b) = filed_in {} ?cs (handles_of L) ?b"
    using fi b by (auto simp: filed_def)
  have "\<forall>x\<in>set (b_bins s ! ?b). c_ptr (?cs ! x) = c_ptr (?cs ! h) \<longrightarrow> x = h"
    using inj_onD [OF lay_ptr_inj [OF wf_lay [OF w]]] H bin(2) by (fastforce simp: filed_in_def)
  note one = bin_erase_correct(3) [OF bin(1) this]
  have chk: "c_in_use (?cs ! h) \<or> bin_count ?cs h (b_bins s ! ?b) = 1 \<and> c_bin_num (?cs ! h) = Some ?b"
    using filed_chunk [OF fi H] one bin(2) H by (auto simp: filed_in_def)
  have "debug_chain s fuel (head_or (h # hs) None) infos = debug_chain s f (head_or hs None) (note_chunk ?cs h infos)"
    using v chk c(1) by (simp add: f(1) Let_def note_chunk_def)
  then show ?case using Cons.IH [OF c(2) _ f(2), of "note_chunk ?cs h infos"] Cons.prems(2) by simp
qed simp

lemma debug_regions_ok:
  assumes w: "wf {} L fl s"
  shows "b_regions s = rs1 @ rs2 \<Longrightarrow> L = L1 @ L2 \<Longrightarrow> length rs1 = length L1 \<Longrightarrow>
    debug_regions s rs2 infos = Inr (fold (note_chunk (b_chunks s)) (concat L2) infos)"
proof (induction rs2 arbitrary: rs1 L1 L2 infos)
  case Nil
  then show ?case using wf_lay [OF w] by (auto simp: lay_def dest: list_all2_lengthD)
next
  case (Cons r rs2)
  let ?cs = "b_chunks s"
  note lay = wf_lay [OF w]
  have "list_all2 (region_ok ?cs) (rs1 @ r # rs2) (L1 @ L2)" using lay Cons.prems by (simp add: lay_def)
  then obtain hs L2' where L2: "L2 = hs # L2'" "region_ok ?cs r hs"
    using Cons.prems(3) by (auto simp: list_all2_append list_all2_Cons1)
  then have ch: "chain ?cs None (r_ptr r) hs None (r_end_ptr r)" by (simp add: region_ok_def)
  have h: "rm_get_handle (b_regions s) (r_ptr r) = Inr (head_or hs None)"
    using region_head(1) [OF lay [unfolded Cons.prems(1)] L2(2)] Cons.prems(1) by simp
  have "set hs \<subseteq> handles_of L" using Cons.prems(2) L2(1) by auto
  note dc = debug_chain_ok [OF w ch this chain_length_le [OF ch]]
  show ?case
    using h dc Cons.IH [of "rs1 @ [r]" "L1 @ [hs]" L2'] Cons.prems L2(1) by simp
qed

lemma sum_list_upd:
  "b < length xs \<Longrightarrow> (\<Sum>x\<leftarrow>xs[b := y]. f x) + f (xs ! b) = (\<Sum>x\<leftarrow>xs. f x) + (f y :: nat)"
proof -
  assume b: "b < length xs"
  then have x: "xs = take b xs @ xs ! b # drop (Suc b) xs" by (rule id_take_nth_drop)
  have "xs[b := y] = take b xs @ y # drop (Suc b) xs" using b by (simp add: upd_conv_take_nth_drop)
  then have "(\<Sum>x\<leftarrow>xs[b := y]. f x) = (\<Sum>x\<leftarrow>take b xs. f x) + f y + (\<Sum>x\<leftarrow>drop (Suc b) xs. f x)" by simp
  moreover have "(\<Sum>x\<leftarrow>xs. f x) = (\<Sum>x\<leftarrow>take b xs. f x) + f (xs ! b) + (\<Sum>x\<leftarrow>drop (Suc b) xs. f x)"
    by (subst x) simp
  ultimately show ?thesis by simp
qed

text \<open>Every total over the bins grows by what the chunk adds to its own bin.\<close>

lemma fold_note_sum:
  assumes add: "\<And>c bd. f (bin_debug_add c bd) = f bd + g c"
  shows "\<forall>h\<in>set hs. BinNumForSize (c_size (cs ! h)) < length infos \<Longrightarrow>
    (\<Sum>x\<leftarrow>fold (note_chunk cs) hs infos. f x) = (\<Sum>x\<leftarrow>infos. f x) + (\<Sum>h\<leftarrow>hs. g (cs ! h) :: nat)"
proof (induction hs arbitrary: infos)
  case (Cons h hs)
  let ?b = "BinNumForSize (c_size (cs ! h))"
  have "(\<Sum>x\<leftarrow>note_chunk cs h infos. f x) = (\<Sum>x\<leftarrow>infos. f x) + g (cs ! h)"
    using sum_list_upd [of ?b infos f "bin_debug_add (cs ! h) (infos ! ?b)"] Cons.prems add
    by (simp add: note_chunk_def Let_def)
  then show ?case using Cons by simp
qed simp

lemma length_fold_note: "length (fold (note_chunk cs) hs infos) = length infos"
  by (induction hs arbitrary: infos) auto

lemma bin_debug_add_totals:
  "bd_total_bytes_in_bin (bin_debug_add c bd) = bd_total_bytes_in_bin bd + c_size c"
  "bd_total_chunks_in_bin (bin_debug_add c bd) = bd_total_chunks_in_bin bd + 1"
  "bd_total_bytes_in_use (bin_debug_add c bd) = bd_total_bytes_in_use bd + (if c_in_use c then c_size c else 0)"
  "bd_total_chunks_in_use (bin_debug_add c bd) = bd_total_chunks_in_use bd + (if c_in_use c then 1 else 0)"
  "bd_total_requested_bytes_in_use (bin_debug_add c bd) =
     bd_total_requested_bytes_in_use bd + (if c_in_use c then c_requested_size c else 0)"
  by (simp_all add: bin_debug_add_def Let_def)

lemma sum_list_in_use:
  assumes "distinct (concat L)"
  shows "(\<Sum>h\<leftarrow>concat L. if c_in_use (cs ! h) then f h else 0) = (\<Sum>h\<in>in_use_of cs (handles_of L). f h :: nat)"
proof -
  have "(\<Sum>h\<leftarrow>concat L. if c_in_use (cs ! h) then f h else 0) = (\<Sum>h\<in>handles_of L. if c_in_use (cs ! h) then f h else 0)"
    by (rule sum_handles [OF assms, symmetric])
  also have "\<dots> = (\<Sum>h\<in>in_use_of cs (handles_of L). f h)"
    by (simp add: in_use_of_def sum.inter_filter)
  finally show ?thesis .
qed

lemma get_bin_debug_info_totals:
  assumes inv: "bfc_inv blocks ok s"
  obtains infos where "get_bin_debug_info s = Inr infos" "length infos = kNumBins"
    "int (\<Sum>x\<leftarrow>infos. bd_total_bytes_in_use x) = st_bytes_in_use (b_stats s)"
    "(\<Sum>x\<leftarrow>infos. bd_total_bytes_in_bin x) = b_total_region_allocated_bytes s"
    "(\<Sum>x\<leftarrow>infos. bd_total_chunks_in_use x) = card (live_allocs s)"
    "(\<Sum>x\<leftarrow>infos. bd_total_requested_bytes_in_use x) = (\<Sum>a\<in>live_allocs s. fst (snd a))"
proof -
  obtain L fl where w: "wf {} L fl s" and bu: "budget blocks s" using inv by (auto simp: bfc_inv_def)
  let ?cs = "b_chunks s"
  let ?infos = "fold (note_chunk ?cs) (concat L) (replicate kNumBins bin_debug_init)"
  have get: "get_bin_debug_info s = Inr ?infos"
    using debug_regions_ok [OF w, of "[]" "b_regions s" "[]" L] by (simp add: get_bin_debug_info_def)
  have d: "distinct (concat L)" using w by (simp add: wf_def)
  have bins: "\<forall>h\<in>set (concat L). BinNumForSize (c_size (?cs ! h)) < length (replicate kNumBins bin_debug_init)"
    using wf_bin_lt [OF w] by (simp add: mem_handles_of)
  note tot = fold_note_sum [OF _ bins]
  have inj: "inj_on (\<lambda>h. alloc_of (?cs ! h)) (in_use_of ?cs (handles_of L))"
    using alloc_of_inj [OF w] by (rule inj_on_subset) (auto simp: in_use_of_def)
  have "int (\<Sum>x\<leftarrow>?infos. bd_total_bytes_in_use x) = st_bytes_in_use (b_stats s)"
    using tot [OF bin_debug_add_totals(3)] sum_list_in_use [OF d, of ?cs "\<lambda>h. c_size (?cs ! h)"] w
    by (simp add: bin_debug_init_def sum_list_replicate wf_def account_def)
  moreover have "(\<Sum>x\<leftarrow>?infos. bd_total_bytes_in_bin x) = b_total_region_allocated_bytes s"
    using tot [OF bin_debug_add_totals(1)] lay_sum_list [of ?cs "b_regions s" L] wf_lay [OF w] bu
    by (simp add: bin_debug_init_def sum_list_replicate lay_def budget_def)
  moreover have "(\<Sum>x\<leftarrow>?infos. bd_total_chunks_in_use x) = card (live_allocs s)"
    using tot [OF bin_debug_add_totals(4)] sum_list_in_use [OF d, of ?cs "\<lambda>h. 1"] card_image [OF inj]
    by (simp add: bin_debug_init_def sum_list_replicate live_allocs_eq [OF w])
  moreover have "(\<Sum>x\<leftarrow>?infos. bd_total_requested_bytes_in_use x) = (\<Sum>a\<in>live_allocs s. fst (snd a))"
    using tot [OF bin_debug_add_totals(5)] sum_list_in_use [OF d, of ?cs "\<lambda>h. c_requested_size (?cs ! h)"]
      sum.reindex [OF inj, of "\<lambda>a. fst (snd a)"]
    by (simp add: bin_debug_init_def sum_list_replicate live_allocs_eq [OF w] comp_def alloc_of_def)
  ultimately show thesis using that [OF get] by (simp add: length_fold_note)
qed

end
