(* ===== verification/BFC_Theorems.thy ===== *)
theory BFC_Theorems
  imports BFC_Debug Frame_Manager
begin

text \<open>
  The properties of the device allocator and a concrete run of it, on a sub-allocator that hands out
  consecutive addresses and keeps a list of the blocks that are out.
\<close>

section \<open>A concrete run\<close>

type_synonym demo_mem = "addr \<times> (addr \<times> nat) list"

definition demo_alloc :: "demo_mem sub_alloc" where
  "demo_alloc n m = (if fst m + n < 2 ^ 40 then (Some (fst m), (fst m + n, (fst m, n) # snd m)) else (None, m))"

definition demo_free :: "demo_mem sub_free" where
  "demo_free p n m = (fst m, removeAll (p, n) (snd m))"

definition demo_blocks :: "demo_mem \<Rightarrow> (addr \<times> nat) set" where
  "demo_blocks m = set (snd m)"

definition demo_ok :: "demo_mem \<Rightarrow> bool" where
  "demo_ok m \<longleftrightarrow> 0 < fst m \<and> (\<forall>(q, k)\<in>set (snd m). q + k \<le> fst m)"

lemma demo_laws: "sub_laws demo_alloc demo_free demo_blocks demo_ok"
  unfolding sub_laws_def demo_alloc_def demo_free_def demo_blocks_def demo_ok_def
  by (fastforce split: if_splits)

definition demo0 :: "demo_mem bfc" where
  "demo0 = projr (BFCAllocatorImpl_new False (4096, []) 1024 default_options)"

lemma bin_checks_all: "list_all bin_checks [0..<kNumBins]"
  using bin_checks_hold by (auto simp: list_all_iff kNumBins_def)

lemma demo_sizes:
  "RoundedBytes 300 = 512" "RoundedBytes 1024 = 1024" "BinNumForSize 512 = 1" "BinNumForSize 1024 = 2"
  using BinNumForSize_range [of 1 512] BinNumForSize_range [of 2 1024] by (simp_all add: RoundedBytes_eq)

lemma demo0_eq:
  "demo0 = \<lparr>b_opts = default_options, b_memory_limit = 1024, b_curr_region_allocation_bytes = 1024,
     b_total_region_allocated_bytes = 0, b_coalesce_regions = False, b_regions = [], b_chunks = [],
     b_free_chunks_list = None, b_next_allocation_id = 1, b_bins = replicate 21 [],
     b_stats = \<lparr>st_num_allocs = 0, st_bytes_in_use = 0, st_peak_bytes_in_use = 0,
                st_largest_alloc_size = 0, st_bytes_limit = 1024\<rparr>, b_mem = (4096, [])\<rparr>"
  using bin_checks_all
  by (simp add: demo0_def BFCAllocatorImpl_new_def default_options_def demo_sizes kNumBins_def)

lemma find_fit_hit:
  "b < 21 \<Longrightarrow> List.find (\<lambda>h. n \<le> c_size (b_chunks s ! h)) (b_bins s ! b) \<noteq> None \<Longrightarrow>
   find_fit s n b = Some (b, the (List.find (\<lambda>h. n \<le> c_size (b_chunks s ! h)) (b_bins s ! b)))"
  by (auto simp: find_fit.simps kNumBins_def)

lemma find_fit_miss:
  "b < 21 \<Longrightarrow> List.find (\<lambda>h. n \<le> c_size (b_chunks s ! h)) (b_bins s ! b) = None \<Longrightarrow>
   find_fit s n b = find_fit s n (b + 1)" "\<not> b < 21 \<Longrightarrow> find_fit s n b = None"
  by (simp_all add: find_fit.simps kNumBins_def)

lemmas bfc_run = FindChunkPtr_def Extend_def available_bytes_def
  find_fit_hit find_fit_miss grow_curr_stop new_region_chunk_def AllocateChunk_def upd_chunk_def rm_set_handle_def RegionFor_def
  upper_bound_region_def r_set_handle_def r_IndexFor_def AddAllocationRegion_def AllocationRegion_new_def
  n_handles_for_def TryToCoalesce_def InsertFreeChunkIntoBin_def RemoveFreeChunkIterFromBin_def SplitChunk_def
  use_chunk_def max_internal_fragmentation_bytes_def default_options_def chunk_init_def c_in_use_def
  valid_handle_def bfc_consts size_wrap_def r_end_ptr_def drop_bit_eq_div may_merge_def
  demo_alloc_def demo_free_def demo_sizes

lemma list_update_numeral: "(x # xs)[numeral v := y] = x # xs[pred_numeral v := y]"
  by (simp add: numeral_eq_Suc)


lemmas bfc_run_lists = bfc_run list_update_numeral Let_def

definition demo_stats :: "int \<Rightarrow> int \<Rightarrow> allocator_stats" where
  "demo_stats n bytes = \<lparr>st_num_allocs = n, st_bytes_in_use = bytes, st_peak_bytes_in_use = bytes,
     st_largest_alloc_size = (if n = 0 then 0 else 512), st_bytes_limit = 1024\<rparr>"

text \<open>The allocator after one and after two requests of 300 bytes.\<close>

definition demo1 :: "demo_mem bfc" where
  "demo1 = \<lparr>b_opts = default_options, b_memory_limit = 1024, b_curr_region_allocation_bytes = 2048,
     b_total_region_allocated_bytes = 1024, b_coalesce_regions = False,
     b_regions = [\<lparr>r_ptr = 4096, r_memory_size = 1024,
        r_handles = (replicate 4 None)[0 := Some 0, 2 := Some (Suc 0)]\<rparr>],
     b_chunks = [\<lparr>c_size = 512, c_requested_size = 300, c_allocation_id = 1, c_ptr = 4096,
          c_prev = None, c_next = Some (Suc 0), c_bin_num = None, c_freed_at_count = 0\<rparr>,
        \<lparr>c_size = 512, c_requested_size = 0, c_allocation_id = -1, c_ptr = 4608,
          c_prev = Some 0, c_next = None, c_bin_num = Some 1, c_freed_at_count = 0\<rparr>],
     b_free_chunks_list = None, b_next_allocation_id = 2,
     b_bins = (replicate 21 [])[2 := [], 1 := [Suc 0]], b_stats = demo_stats 1 512,
     b_mem = (5120, [(4096, 1024)])\<rparr>"

definition demo2 :: "demo_mem bfc" where
  "demo2 = demo1\<lparr>b_next_allocation_id := 3,
     b_chunks := [\<lparr>c_size = 512, c_requested_size = 300, c_allocation_id = 1, c_ptr = 4096,
          c_prev = None, c_next = Some (Suc 0), c_bin_num = None, c_freed_at_count = 0\<rparr>,
        \<lparr>c_size = 512, c_requested_size = 300, c_allocation_id = 2, c_ptr = 4608,
          c_prev = Some 0, c_next = None, c_bin_num = None, c_freed_at_count = 0\<rparr>],
     b_bins := (replicate 21 [])[2 := [], 1 := []], b_stats := demo_stats 2 1024\<rparr>"

lemma demo0_find: "FindChunkPtr 1 512 300 demo0 = Inr (None, demo0)"
  by (simp add: demo0_eq bfc_run_lists del: One_nat_def)

lemma demo0_extend_find:
  "\<exists>s. Extend demo_alloc 512 demo0 = Inr (True, s) \<and> FindChunkPtr 1 512 300 s = Inr (Some 4096, demo1)"
  by (simp add: demo0_eq demo1_def demo_stats_def bfc_run_lists del: One_nat_def)

lemma demo1_find: "FindChunkPtr 1 512 300 demo1 = Inr (Some 4608, demo2)"
  by (simp add: demo1_def demo2_def demo_stats_def bfc_run_lists del: One_nat_def)

lemma demo_runs:
  "AllocateRaw demo_alloc demo_free 300 demo0 = Inr (Some 4096, demo1)"
  "AllocateRaw demo_alloc demo_free 300 demo1 = Inr (Some 4608, demo2)"
  using demo0_find demo0_extend_find demo1_find
  by (auto simp: AllocateRaw_def AllocateRawInternal_def Let_def demo_sizes)

section \<open>The constructor\<close>

lemma free_list_empty: "pool [] {} None []"
  by (simp add: pool_def)

lemma BFCAllocatorImpl_new_ok:
  assumes "ok mem" "limit < 2 ^ 63"
    and "opt_fragmentation_fraction opts > 0 \<longrightarrow> opt_fragmentation_fraction opts * of_nat limit \<ge> 1"
  shows "\<exists>s. BFCAllocatorImpl_new False mem limit opts = Inr s \<and> bfc_inv blocks ok s \<and> live_allocs s = {} \<and>
    b_mem s = mem \<and> b_regions s = [] \<and>
    (0 < limit \<longrightarrow> 0 < b_curr_region_allocation_bytes s)"
proof -
  let ?m = "if opt_allow_growth opts then min limit (2 * 2 ^ 20) else limit"
  have m: "?m + 255 < 2 ^ 64" "?m \<le> limit" "0 < limit \<Longrightarrow> 0 < ?m" using assms(2) by auto
  have rb: "256 dvd RoundedBytes ?m" "RoundedBytes ?m < 2 ^ 64" "0 < limit \<Longrightarrow> 0 < RoundedBytes ?m"
    using RoundedBytes_bounds [OF m(1)] m assms(2) by auto
  obtain s where new: "BFCAllocatorImpl_new False mem limit opts = Inr s"
    and s: "b_opts s = opts" "b_memory_limit s = limit" "b_curr_region_allocation_bytes s = RoundedBytes ?m"
      "b_total_region_allocated_bytes s = 0" "\<not> b_coalesce_regions s" "b_regions s = []" "b_chunks s = []"
      "b_free_chunks_list s = None" "b_next_allocation_id s = 1" "b_bins s = replicate kNumBins []"
      "st_bytes_in_use (b_stats s) = 0" "b_mem s = mem"
    using bin_checks_all by (simp add: BFCAllocatorImpl_new_def)
  have "wf {} [] [] s"
    using free_list_empty
    by (simp add: wf_def s lay_def regions_ok_def filed_def filed_in_def account_def in_use_of_def)
  moreover have "0 < max_internal_fragmentation_bytes s"
    using assms(3) by (simp add: max_internal_fragmentation_bytes_def s)
  then have "budget blocks s" using assms(2) rb by (simp add: budget_def s)
  ultimately have "bfc_inv blocks ok s" using assms(1) by (auto simp: bfc_inv_def s)
  moreover have "live_allocs s = {}" by (simp add: live_allocs_def in_use_of_def s)
  ultimately show ?thesis using new s rb by auto
qed

lemma demo0_inv: "bfc_inv demo_blocks demo_ok demo0" "live_allocs demo0 = {}"
proof -
  obtain s where s: "BFCAllocatorImpl_new False (4096, []) 1024 default_options = Inr s"
    "bfc_inv demo_blocks demo_ok s" "live_allocs s = {}"
    using BFCAllocatorImpl_new_ok [of demo_ok "(4096, [])" 1024 default_options demo_blocks]
    by (auto simp: demo_ok_def default_options_def)
  then show "bfc_inv demo_blocks demo_ok demo0" "live_allocs demo0 = {}" by (simp_all add: demo0_def)
qed

lemma demo_invs: "bfc_inv demo_blocks demo_ok demo1" "bfc_inv demo_blocks demo_ok demo2"
proof -
  show d1: "bfc_inv demo_blocks demo_ok demo1"
    using AllocateRaw_returns [OF demo_laws demo0_inv(1) _ _ demo_runs(1)] by simp
  show "bfc_inv demo_blocks demo_ok demo2"
    using AllocateRaw_returns [OF demo_laws d1 _ _ demo_runs(2)] by simp
qed

lemma demo2_live: "live_allocs demo2 = {(4096, 300, 512, 1), (4608, 300, 512, 2)}"
proof -
  have "in_use_of (b_chunks demo2) {..<length (b_chunks demo2)} = {0, Suc 0}"
    by (auto simp: demo2_def in_use_of_def c_in_use_def nth_Cons' numeral_2_eq_2)
  then show ?thesis by (simp add: live_allocs_def) (simp add: demo2_def)
qed

section \<open>Runs of the allocator\<close>

text \<open>
  The calls a program makes: allocations of 1 to \<open>2 ^ 63 - 1\<close> bytes that return, releases of live
  addresses, the return of free regions and the reset of the statistics.
\<close>

inductive bfc_step :: "'m sub_alloc \<Rightarrow> 'm sub_free \<Rightarrow> 'm bfc \<Rightarrow> 'm bfc \<Rightarrow> bool"
  for sub_alloc sub_free where
  alloc: "0 < n \<Longrightarrow> n < 2 ^ 63 \<Longrightarrow> BFC_Alloc sub_alloc sub_free n s = Inr (r, s') \<Longrightarrow>
    bfc_step sub_alloc sub_free s s'"
| release: "a \<in> live_allocs s \<Longrightarrow> BFC_Free (fst a) s = Inr (st, s') \<Longrightarrow> bfc_step sub_alloc sub_free s s'"
| collect: "RealFree sub_free s = Inr s' \<Longrightarrow> bfc_step sub_alloc sub_free s s'"
| clear: "bfc_step sub_alloc sub_free s (ClearStats s)"

inductive_cases bfc_stepE: "bfc_step sub_alloc sub_free s s'"

definition bfc_reaches :: "'m sub_alloc \<Rightarrow> 'm sub_free \<Rightarrow> 'm bfc \<Rightarrow> 'm bfc \<Rightarrow> bool" where
  "bfc_reaches sub_alloc sub_free = rtranclp (bfc_step sub_alloc sub_free)"

lemma BFC_Alloc_Inr:
  assumes "0 < n" "n < 2 ^ 63" "BFC_Alloc sub_alloc sub_free n s = Inr ((st, r), s')"
  shows "AllocateRaw sub_alloc sub_free (nat n) s = Inr (r, s')" "nat n + 255 < 2 ^ 64" "0 < nat n"
proof -
  have "nat (n mod 2 ^ 64) = nat n" using assms(1,2) by simp
  then show "AllocateRaw sub_alloc sub_free (nat n) s = Inr (r, s')"
    using assms(3) by (auto simp: BFC_Alloc_def split: option.splits)
  have "nat n < 2 ^ 63" using assms(1,2) by (simp add: nat_less_iff)
  then show "nat n + 255 < 2 ^ 64" "0 < nat n" using assms(1) by simp_all
qed

lemma RealFree_ok:
  assumes laws: "sub_laws sub_alloc sub_free blocks ok" and inv: "bfc_inv blocks ok s"
  obtains s' where "RealFree sub_free s = Inr s'" "bfc_inv blocks ok s'" "same_limits s s'"
    "b_regions s' = b_regions s \<or> b_regions s' = filter (holds_alloc s) (b_regions s)"
proof -
  obtain L fl where w: "wf {} L fl s" and bu: "budget blocks s" and mem: "ok (b_mem s)"
    using inv by (auto simp: bfc_inv_def)
  show thesis
  proof (rule DeallocateFreeRegions_ok [OF w bu _ laws, of 0])
    assume "DeallocateFreeRegions sub_free 0 s = Inr (False, s)"
    then show thesis using that [of s] inv by (simp add: RealFree_def)
  next
    fix s' L' fl'
    assume d: "DeallocateFreeRegions sub_free 0 s = Inr (True, s')" "wf {} L' fl' s'" "budget blocks s'"
      "ok (b_mem s')" "same_limits s s'" "b_regions s' = filter (holds_alloc s) (b_regions s)"
    then show thesis using that [of s'] bfc_invI [where ok = ok, OF d(2-4)] by (simp add: RealFree_def)
  qed (rule mem)
qed

lemma ClearStats_inv: "bfc_inv blocks ok s \<Longrightarrow> bfc_inv blocks ok (ClearStats s)"
  using max_internal_cong [of "ClearStats s" s]
  by (simp add: bfc_inv_def wf_def budget_def ClearStats_def)

lemma bfc_step_inv:
  assumes laws: "sub_laws sub_alloc sub_free blocks ok" and inv: "bfc_inv blocks ok s"
    and "bfc_step sub_alloc sub_free s s'"
  shows "bfc_inv blocks ok s'"
  using assms(3)
proof (cases rule: bfc_step.cases)
  case (alloc n r)
  obtain st p where r: "r = (st, p)" by (cases r)
  show ?thesis
    using AllocateRaw_returns [OF laws inv] BFC_Alloc_Inr [OF alloc(1,2) alloc(3) [unfolded r]] by blast
next
  case (release a st)
  then show ?thesis using DeallocateRaw_ok [OF inv release(1)] by (auto simp: BFC_Free_def)
next
  case collect
  obtain s1 where "RealFree sub_free s = Inr s1" "bfc_inv blocks ok s1"
    by (rule RealFree_ok [OF laws inv])
  then show ?thesis using collect by simp
next
  case clear
  then show ?thesis using inv ClearStats_inv by simp
qed

lemma bfc_reaches_inv:
  assumes "sub_laws sub_alloc sub_free blocks ok" "bfc_inv blocks ok s" "bfc_reaches sub_alloc sub_free s s'"
  shows "bfc_inv blocks ok s'"
  using assms(3) unfolding bfc_reaches_def
  by (induction rule: rtranclp_induct) (use assms(1,2) bfc_step_inv in blast)+

section \<open>The contract of a device allocator\<close>

text \<open>
  The allocator as the frame managers see it: a call that does not return, or a number of bytes that
  no \<open>int64_t\<close> holds, delivers no address.
\<close>

definition bfc_device_alloc :: "'m sub_alloc \<Rightarrow> 'm sub_free \<Rightarrow> int \<Rightarrow> 'm bfc \<Rightarrow> addr option \<times> 'm bfc" where
  "bfc_device_alloc sub_alloc sub_free n s =
     (if n < 2 ^ 63
      then case BFC_Alloc sub_alloc sub_free n s of Inr ((_, r), s') \<Rightarrow> (r, s') | Inl _ \<Rightarrow> (None, s)
      else (None, s))"

definition live_ptrs :: "'m bfc \<Rightarrow> addr set" where
  "live_ptrs s = fst ` live_allocs s"

definition bfc_sound ::
  "'m sub_alloc \<Rightarrow> 'm sub_free \<Rightarrow> ('m \<Rightarrow> (addr \<times> nat) set) \<Rightarrow> ('m \<Rightarrow> bool) \<Rightarrow> 'm bfc \<Rightarrow> bool" where
  "bfc_sound sub_alloc sub_free blocks ok s \<longleftrightarrow> sub_laws sub_alloc sub_free blocks ok \<and> bfc_inv blocks ok s"

lemma bfc_device_alloc_cases:
  assumes s: "bfc_sound sub_alloc sub_free blocks ok s" and n: "0 < n"
    and a: "bfc_device_alloc sub_alloc sub_free n s = (r, s')"
  shows "bfc_sound sub_alloc sub_free blocks ok s' \<and>
    (case r of None \<Rightarrow> live_ptrs s' = live_ptrs s
     | Some p \<Rightarrow> p \<notin> live_ptrs s \<and> live_ptrs s' = insert p (live_ptrs s))"
proof (cases "n < 2 ^ 63 \<and> (\<exists>st. BFC_Alloc sub_alloc sub_free n s = Inr ((st, r), s'))")
  case True
  then obtain st where st: "n < 2 ^ 63" "BFC_Alloc sub_alloc sub_free n s = Inr ((st, r), s')" by blast
  note b = BFC_Alloc_Inr [OF n st]
  have laws: "sub_laws sub_alloc sub_free blocks ok" and inv: "bfc_inv blocks ok s"
    using s by (simp_all add: bfc_sound_def)
  have g: "bfc_inv blocks ok s'" "granted s (nat n) r s'"
    using AllocateRaw_returns [OF laws inv b(3,2,1)] by simp_all
  show ?thesis
  proof (cases r)
    case None
    then show ?thesis using g laws by (simp add: bfc_sound_def granted_def live_ptrs_def)
  next
    case (Some p)
    obtain sz where "live_allocs s' = insert (p, nat n, sz, b_next_allocation_id s) (live_allocs s)"
      "\<And>q req k i. (q, req, k, i) \<in> live_allocs s \<Longrightarrow> (p + sz \<le> q \<or> q + k \<le> p) \<and> q \<noteq> p"
      by (rule granted_fresh [OF inv g(1) g(2) [unfolded Some]]) blast
    then have "live_ptrs s' = insert p (live_ptrs s)" "p \<notin> live_ptrs s" by (force simp: live_ptrs_def)+
    then show ?thesis using Some g(1) laws by (simp add: bfc_sound_def)
  qed
next
  case False
  then have "r = None" "s' = s" using a by (auto simp: bfc_device_alloc_def split: if_splits sum.splits)
  then show ?thesis using s by simp
qed

interpretation bfc_dev: device_allocator "bfc_device_alloc sub_alloc sub_free" live_ptrs
  "bfc_sound sub_alloc sub_free blocks ok"
  for sub_alloc sub_free blocks ok
proof (unfold_locales, goal_cases)
  case (1 m n a m')
  then show ?case using bfc_device_alloc_cases [OF 1] by simp
next
  case (2 m n m')
  then show ?case using bfc_device_alloc_cases [OF 2] by simp
next
  case (3 m n r m')
  then show ?case using bfc_device_alloc_cases [OF 3] by simp
qed

section \<open>Properties\<close>

text \<open>
  C2: \<open>AllocateRaw\<close> with a positive region size always returns and fails no internal check. It
  keeps the invariant, and either it delivers no address and the live allocations are as before, or it
  delivers the address of a block of at least the requested and at most twice the rounded size, with a
  new number, disjoint from every live allocation.
\<close>

theorem AllocateRaw_grants:
  assumes laws: "sub_laws sub_alloc sub_free blocks ok" and inv: "bfc_inv blocks ok s"
    and curr: "0 < b_curr_region_allocation_bytes s" and n: "0 < num_bytes" "num_bytes + 255 < 2 ^ 64"
  shows "\<exists>r s'. AllocateRaw sub_alloc sub_free num_bytes s = Inr (r, s') \<and> bfc_inv blocks ok s' \<and>
    (case r of
       None \<Rightarrow> live_allocs s' = live_allocs s
     | Some p \<Rightarrow> \<exists>sz. num_bytes \<le> sz \<and> sz < 2 * RoundedBytes num_bytes \<and>
         live_allocs s' = insert (p, num_bytes, sz, b_next_allocation_id s) (live_allocs s) \<and>
         (\<forall>(q, req, k, i)\<in>live_allocs s. (p + sz \<le> q \<or> q + k \<le> p) \<and> i < b_next_allocation_id s))"
proof -
  obtain r s' where a: "AllocateRaw sub_alloc sub_free num_bytes s = Inr (r, s')" "bfc_inv blocks ok s'"
    and g: "granted s num_bytes r s'"
    using AllocateRaw_ok [OF laws inv curr n] by blast
  show ?thesis
  proof (cases r)
    case None
    then show ?thesis using a g by (simp add: granted_def)
  next
    case (Some p)
    obtain sz where sz: "num_bytes \<le> RoundedBytes num_bytes \<longrightarrow> num_bytes \<le> sz" "sz < 2 * RoundedBytes num_bytes"
      "live_allocs s' = insert (p, num_bytes, sz, b_next_allocation_id s) (live_allocs s)"
      "\<And>q req k i. (q, req, k, i) \<in> live_allocs s \<Longrightarrow> (p + sz \<le> q \<or> q + k \<le> p) \<and> q \<noteq> p"
      by (rule granted_fresh [OF inv a(2) g [unfolded Some]]) blast
    have "num_bytes \<le> sz" using sz(1) RoundedBytes_bounds(1) [OF n(2)] by simp
    moreover have "\<forall>(q, req, k, i)\<in>live_allocs s. (p + sz \<le> q \<or> q + k \<le> p) \<and> i < b_next_allocation_id s"
      using sz(4) live_alloc_facts(6) [OF inv] by blast
    ultimately show ?thesis using a sz(2,3) Some by auto
  qed
qed

theorem AllocateRaw_grants_witness:
  "\<exists>r s'. AllocateRaw demo_alloc demo_free 300 demo0 = Inr (r, s') \<and> bfc_inv demo_blocks demo_ok s'"
  using AllocateRaw_grants [OF demo_laws demo0_inv(1), of 300] by (auto simp: demo0_eq)

text \<open>
  C3: Releasing a live allocation returns, keeps the invariant, takes exactly this allocation away and
  lowers the bytes in use by its size, whatever is merged with its neighbours, unless its chunk has
  the handle 0.
\<close>

theorem DeallocateRaw_releases:
  assumes inv: "bfc_inv blocks ok s" and a: "(p, req, sz, i) \<in> live_allocs s"
    and h: "rm_get_handle (b_regions s) p \<noteq> Inr (Some 0)"
  shows "\<exists>s'. DeallocateRaw p s = Inr s' \<and> bfc_inv blocks ok s' \<and>
    live_allocs s' = live_allocs s - {(p, req, sz, i)} \<and>
    st_bytes_in_use (b_stats s') = st_bytes_in_use (b_stats s) - int sz"
proof -
  obtain s' where s': "DeallocateRaw p s = Inr s'" "bfc_inv blocks ok s'"
    "live_allocs s' = live_allocs s - {(p, req, sz, i)}"
    using DeallocateRaw_ok [OF inv a] h by auto
  moreover have "st_bytes_in_use (b_stats s') = st_bytes_in_use (b_stats s) - int sz"
    using a by (simp add: bytes_in_use_eq [OF inv] bytes_in_use_eq [OF s'(2)] s'(3) sum_diff1)
  ultimately show ?thesis by blast
qed

lemma demo2_handles: "rm_get_handle (b_regions demo2) 4608 = Inr (Some (Suc 0))"
  "rm_get_handle (b_regions demo2) 4096 = Inr (Some 0)"
  by (simp_all add: demo2_def demo1_def rm_get_handle_def r_get_handle_def bfc_run_lists)

theorem DeallocateRaw_releases_witness:
  "\<exists>s'. DeallocateRaw 4608 demo2 = Inr s' \<and> live_allocs s' = live_allocs demo2 - {(4608, 300, 512, 2)}"
  using DeallocateRaw_releases [OF demo_invs(2), of 4608 300 512 2] demo2_live demo2_handles by auto

text \<open>
  The chunk with the handle 0, the first one the allocator ever makes, is never released: the
  call returns without any effect, because 0 is taken for an unknown pointer.
\<close>

theorem DeallocateRaw_ignores_first_chunk:
  assumes inv: "bfc_inv blocks ok s" and used: "b_chunks s \<noteq> []" "c_in_use (b_chunks s ! 0)"
  shows "DeallocateRaw (c_ptr (b_chunks s ! 0)) s = Inr s \<and>
    (c_ptr (b_chunks s ! 0), c_requested_size (b_chunks s ! 0), c_size (b_chunks s ! 0),
     c_allocation_id (b_chunks s ! 0)) \<in> live_allocs s"
proof -
  obtain L fl where w: "wf {} L fl s" using inv by (auto simp: bfc_inv_def)
  have "0 \<in> in_use_of (b_chunks s) {..<length (b_chunks s)}" using used by (simp add: in_use_of_def)
  then have live: "alloc_of (b_chunks s ! 0) \<in> live_allocs s" and H: "0 \<in> handles_of L"
    using live_allocs_eq [OF w] wf_handles(3) [OF w] by (auto simp: in_use_of_def)
  have "DeallocateRaw (c_ptr (b_chunks s ! 0)) s = Inr s"
    using lay_ptr_handle [OF wf_lay [OF w] H] by (simp add: DeallocateRaw_def)
  with live show ?thesis by (simp add: alloc_of_def)
qed

theorem DeallocateRaw_ignores_first_chunk_witness:
  "AllocateRaw demo_alloc demo_free 300 demo0 = Inr (Some 4096, demo1) \<and> DeallocateRaw 4096 demo1 = Inr demo1"
  using DeallocateRaw_ignores_first_chunk [OF demo_invs(1)] demo_runs(1)
  by (simp add: demo1_def c_in_use_def)

text \<open>
  C1: In every state that a program reaches from the constructor by allocations, releases and
  collections, each live allocation has the size that was asked for, a multiple of 256 bytes inside one
  block of the sub-allocator, no two of them overlap, and the bytes in use are the sum of their sizes,
  below the memory limit.
\<close>

theorem bfc_reachable_safe:
  assumes laws: "sub_laws sub_alloc sub_free blocks ok" and mem: "ok mem" and lim: "limit < 2 ^ 63"
    and new: "BFCAllocatorImpl_new False mem limit default_options = Inr s0"
    and reach: "bfc_reaches sub_alloc sub_free s0 s"
  shows "(\<forall>(p, req, sz, i)\<in>live_allocs s. 0 < req \<and> req \<le> sz \<and> 256 dvd sz \<and>
      (\<exists>(q, k)\<in>blocks (b_mem s). q \<le> p \<and> p + sz \<le> q + k)) \<and>
    (\<forall>(p, req, sz, i)\<in>live_allocs s. \<forall>(p', req', sz', i')\<in>live_allocs s.
      i = i' \<or> p + sz \<le> p' \<or> p' + sz' \<le> p) \<and>
    st_bytes_in_use (b_stats s) = (\<Sum>(p, req, sz, i)\<in>live_allocs s. int sz) \<and>
    st_bytes_in_use (b_stats s) \<le> int (b_memory_limit s)"
proof -
  have "bfc_inv blocks ok s0"
    using BFCAllocatorImpl_new_ok [of ok mem limit default_options blocks] mem lim new
    by (auto simp: default_options_def)
  then have inv: "bfc_inv blocks ok s" using bfc_reaches_inv [OF laws _ reach] by blast
  show ?thesis
  proof (intro conjI)
    show "\<forall>(p, req, sz, i)\<in>live_allocs s. 0 < req \<and> req \<le> sz \<and> 256 dvd sz \<and>
        (\<exists>(q, k)\<in>blocks (b_mem s). q \<le> p \<and> p + sz \<le> q + k)"
      using live_alloc_facts [OF inv] by fast
    show "\<forall>(p, req, sz, i)\<in>live_allocs s. \<forall>(p', req', sz', i')\<in>live_allocs s.
        i = i' \<or> p + sz \<le> p' \<or> p' + sz' \<le> p"
      using live_allocs_disjoint(1) [OF inv] by blast
    show "st_bytes_in_use (b_stats s) = (\<Sum>(p, req, sz, i)\<in>live_allocs s. int sz)"
      unfolding bytes_in_use_eq [OF inv] by (rule sum.cong) auto
    show "st_bytes_in_use (b_stats s) \<le> int (b_memory_limit s)"
      using bytes_in_use_le(2,3) [OF inv] by linarith
  qed
qed

lemma demo_reaches: "bfc_reaches demo_alloc demo_free demo0 demo2"
proof -
  have "bfc_step demo_alloc demo_free demo0 demo1" "bfc_step demo_alloc demo_free demo1 demo2"
    by (rule bfc_step.alloc [of 300]; simp add: BFC_Alloc_def demo_runs)+
  then show ?thesis unfolding bfc_reaches_def by auto
qed

theorem bfc_reachable_safe_witness:
  "bfc_reaches demo_alloc demo_free demo0 demo2 \<and> st_bytes_in_use (b_stats demo2) \<le> int (b_memory_limit demo2)"
proof -
  have "BFCAllocatorImpl_new False (4096, []) 1024 default_options = Inr demo0"
    using bin_checks_all by (simp add: demo0_def BFCAllocatorImpl_new_def)
  from bfc_reachable_safe [OF demo_laws _ _ this demo_reaches] demo_reaches show ?thesis
    by (simp add: demo_ok_def)
qed

text \<open>
  The search is a best fit. It takes no chunk exactly when every free chunk is too small;
  otherwise the chunk it takes is the smallest free one that suffices, and the lowest of those of equal
  size.
\<close>

theorem FindChunkPtr_best_fit:
  assumes inv: "bfc_inv blocks ok s"
    and n: "0 < num_bytes" "num_bytes \<le> rounded" "256 dvd rounded" "rounded < 2 ^ 64"
  shows "\<exists>r s'. FindChunkPtr (BinNumForSize rounded) rounded num_bytes s = Inr (r, s') \<and>
    (case r of
       None \<Rightarrow> s' = s \<and> LargestFreeChunk s < rounded
     | Some p \<Rightarrow> \<exists>h\<in>free_handles s. p = c_ptr (b_chunks s ! h) \<and> rounded \<le> c_size (b_chunks s ! h) \<and>
         (\<forall>x\<in>free_handles s. rounded \<le> c_size (b_chunks s ! x) \<longrightarrow>
            c_size (b_chunks s ! h) < c_size (b_chunks s ! x) \<or>
            c_size (b_chunks s ! h) = c_size (b_chunks s ! x) \<and> p \<le> c_ptr (b_chunks s ! x)))"
proof -
  obtain L fl where w: "wf {} L fl s" and bu: "budget blocks s" using inv by (auto simp: bfc_inv_def)
  note fh = free_handles_eq [OF w]
  show ?thesis
  proof (rule FindChunkPtr_ok [OF w bu n])
    assume f: "FindChunkPtr (BinNumForSize rounded) rounded num_bytes s = Inr (None, s)"
      "\<forall>x\<in>free_of s L. c_size (b_chunks s ! x) < rounded"
    have "finite (free_of s L)" by (simp add: free_of_def)
    moreover have "0 < rounded" using n by simp
    ultimately have "LargestFreeChunk s < rounded"
      using f(2) unfolding LargestFreeChunk_max [OF w] by (subst Max_less_iff) auto
    then show ?thesis using f(1) by simp
  next
    fix h sz s' L' fl'
    assume f: "FindChunkPtr (BinNumForSize rounded) rounded num_bytes s = Inr (Some (c_ptr (b_chunks s ! h)), s')"
      "h \<in> free_of s L" "rounded \<le> c_size (b_chunks s ! h)"
      "\<forall>x\<in>free_of s L. rounded \<le> c_size (b_chunks s ! x) \<longrightarrow> \<not> chunk_less (b_chunks s) x h"
    then have "\<forall>x\<in>free_handles s. rounded \<le> c_size (b_chunks s ! x) \<longrightarrow>
        c_size (b_chunks s ! h) < c_size (b_chunks s ! x) \<or>
        c_size (b_chunks s ! h) = c_size (b_chunks s ! x) \<and> c_ptr (b_chunks s ! h) \<le> c_ptr (b_chunks s ! x)"
      unfolding fh by (auto simp: chunk_less_def not_less split: if_splits)
    then show ?thesis using f(1-3) fh by auto
  qed
qed

theorem FindChunkPtr_best_fit_witness:
  "\<exists>r s'. FindChunkPtr (BinNumForSize 512) 512 300 demo1 = Inr (r, s') \<and> r = Some 4608"
  using FindChunkPtr_best_fit [OF demo_invs(1), of 300 512] demo1_find by (simp add: demo_sizes)

text \<open>
  Garbage collection returns to the sub-allocator the regions that hold no live allocation, and
  only those; the live allocations, their numbers and the size of the next region stay as they are.
\<close>

theorem RealFree_collects:
  assumes laws: "sub_laws sub_alloc sub_free blocks ok" and inv: "bfc_inv blocks ok s"
  shows "\<exists>s'. RealFree sub_free s = Inr s' \<and> bfc_inv blocks ok s' \<and> live_allocs s' = live_allocs s \<and>
    b_next_allocation_id s' = b_next_allocation_id s \<and>
    b_curr_region_allocation_bytes s' = b_curr_region_allocation_bytes s \<and>
    (b_regions s' = b_regions s \<or>
     b_regions s' = filter (\<lambda>r. \<exists>a\<in>live_allocs s. r_ptr r \<le> fst a \<and> fst a < r_end_ptr r) (b_regions s))"
proof -
  have hf: "filter (holds_alloc s) rs =
      filter (\<lambda>r. \<exists>a\<in>live_allocs s. r_ptr r \<le> fst a \<and> fst a < r_end_ptr r) rs" for rs
    by (simp add: holds_alloc_def cong: filter_cong)
  obtain s' where "RealFree sub_free s = Inr s'" "bfc_inv blocks ok s'" "same_limits s s'"
    "b_regions s' = b_regions s \<or> b_regions s' = filter (holds_alloc s) (b_regions s)"
    by (rule RealFree_ok [OF laws inv])
  then show ?thesis unfolding hf by (auto simp: same_limits_def)
qed

theorem RealFree_collects_witness:
  "\<exists>s'. RealFree demo_free demo2 = Inr s' \<and> live_allocs s' = live_allocs demo2"
  using RealFree_collects [OF demo_laws demo_invs(2)] by blast

text \<open>
  The size of the next region is doubled in \<open>size_t\<close>. When it is \<open>2 ^ 63\<close>, a successful extension makes
  it 0, and the next extension that the memory limit would allow loops forever.
\<close>

theorem Extend_region_size_wraps:
  assumes laws: "sub_laws sub_alloc sub_free blocks ok" and inv: "bfc_inv blocks ok s"
    and curr: "b_curr_region_allocation_bytes s = 2 ^ 63" and n: "0 < n" "256 dvd n"
    and ext: "Extend sub_alloc n s = Inr (True, s')"
  shows "b_curr_region_allocation_bytes s' = 0 \<and>
    (\<forall>k>0. k \<le> available_bytes s' \<longrightarrow> Extend sub_alloc k s' = Inl Diverges)"
proof -
  obtain L fl where w: "wf {} L fl s" and bu: "budget blocks s" and mem: "ok (b_mem s)"
    using inv by (auto simp: bfc_inv_def)
  have av: "n \<le> available_bytes s" using ext by (simp add: Extend_def split: if_splits)
  also have "available_bytes s \<le> b_memory_limit s - b_total_region_allocated_bytes s"
    unfolding available_bytes_eq [OF bu] by simp
  also have "\<dots> \<le> b_memory_limit s" by simp
  also have "\<dots> \<le> 2 ^ 63" using bu by (simp add: budget_def)
  finally have "n \<le> 2 ^ 63" .
  then have "b_curr_region_allocation_bytes s' = size_wrap (2 ^ 63 * 2)"
    using ext curr by (rule_tac Extend_ok [OF w bu mem laws n, of _]) auto
  then have z: "b_curr_region_allocation_bytes s' = 0" by (simp add: size_wrap_def)
  then show ?thesis using Extend_zero [OF z, of _ sub_alloc] by auto
qed

text \<open>
  The count of leading zeros computes the same logarithm as the portable loop, and the bin of a
  size is the one whose range, a power of two times 256 bytes, contains it; all larger sizes share the
  last bin.
\<close>

theorem BinNumForSize_spec:
  assumes "bytes < 2 ^ 64"
  shows "(0 < bytes \<longrightarrow> int (Log2FloorNonZero bytes) = Log2FloorNonZeroSlow bytes \<and>
      2 ^ Log2FloorNonZero bytes \<le> bytes \<and> bytes < 2 ^ Suc (Log2FloorNonZero bytes)) \<and>
    (256 \<le> bytes \<longrightarrow> BinNumToSize (BinNumForSize bytes) \<le> bytes \<and> BinNumForSize bytes < kNumBins \<and>
      (BinNumForSize bytes + 1 < kNumBins \<longrightarrow> bytes < 2 * BinNumToSize (BinNumForSize bytes)))"
proof (intro conjI impI)
  assume pos: "0 < bytes"
  obtain k where k: "2 ^ k \<le> bytes" "bytes < 2 ^ Suc k" "k < 64" by (rule log2_obtain [OF pos assms])
  note e = Log2FloorNonZero_eq [OF k]
  show "int (Log2FloorNonZero bytes) = Log2FloorNonZeroSlow bytes"
    using log2_slow_loop_eq [OF k(1,2), of 0] by (simp add: e Log2FloorNonZeroSlow_def)
  show "2 ^ Log2FloorNonZero bytes \<le> bytes" "bytes < 2 ^ Suc (Log2FloorNonZero bytes)"
    using k by (simp_all add: e)
next
  assume big: "256 \<le> bytes"
  note b = BinNumForSize_bounds [OF assms]
  have m: "max bytes 256 = bytes" using big by simp
  show "BinNumForSize bytes < kNumBins" using b(1) by (simp add: kNumBins_def)
  show "BinNumToSize (BinNumForSize bytes) \<le> bytes" using b(1,2) m by (simp add: BinNumToSize_eq)
  show "bytes < 2 * BinNumToSize (BinNumForSize bytes)" if "BinNumForSize bytes + 1 < kNumBins"
    using b(1,3) m that by (simp add: BinNumToSize_eq kNumBins_def)
qed

theorem BinNumForSize_spec_witness: "int (Log2FloorNonZero 1000) = Log2FloorNonZeroSlow 1000"
  using BinNumForSize_spec [of 1000] by simp

text \<open>
  The summary per bin never fails one of its checks, and its totals are right: the bytes and the
  number of the chunks in use are those of the live allocations, and all chunks together cover the
  regions.
\<close>

theorem get_bin_debug_info_consistent:
  assumes "bfc_inv blocks ok s"
  shows "\<exists>infos. get_bin_debug_info s = Inr infos \<and> length infos = kNumBins \<and>
    int (\<Sum>x\<leftarrow>infos. bd_total_bytes_in_use x) = st_bytes_in_use (b_stats s) \<and>
    (\<Sum>x\<leftarrow>infos. bd_total_bytes_in_bin x) = b_total_region_allocated_bytes s \<and>
    (\<Sum>x\<leftarrow>infos. bd_total_chunks_in_use x) = card (live_allocs s) \<and>
    (\<Sum>x\<leftarrow>infos. bd_total_requested_bytes_in_use x) = (\<Sum>(p, req, sz, i)\<in>live_allocs s. req)"
proof -
  have e: "(\<Sum>a\<in>live_allocs s. fst (snd a)) = (\<Sum>(p, req, sz, i)\<in>live_allocs s. req)"
    by (rule sum.cong) auto
  show ?thesis by (rule get_bin_debug_info_totals [OF assms]) (use e in auto)
qed

theorem get_bin_debug_info_consistent_witness:
  "\<exists>infos. get_bin_debug_info demo2 = Inr infos \<and> (\<Sum>x\<leftarrow>infos. bd_total_requested_bytes_in_use x) = 600"
  using get_bin_debug_info_consistent [OF demo_invs(2)] demo2_live by auto

text \<open>
  A negative number of bytes is not rejected: it is converted to an unsigned number that
  \<open>RoundedBytes\<close> wraps to 0. The request succeeds with a chunk of size 0, and the next request gets
  the same address.
\<close>

theorem BFC_Alloc_negative_aliases:
  "\<exists>s s'. BFC_Alloc demo_alloc demo_free (-1) demo1 = Inr ((ALLSPARK_SUCCESS, Some 4608), s) \<and>
     BFC_Alloc demo_alloc demo_free 300 s = Inr ((ALLSPARK_SUCCESS, Some 4608), s')"
proof -
  have r0: "RoundedBytes 18446744073709551615 = 0" by (simp add: RoundedBytes_def size_wrap_def bfc_consts)
  have b0: "BinNumForSize 0 = 0" using BinNumForSize_eq [of 0 0] by simp
  have "\<exists>s. FindChunkPtr 0 0 18446744073709551615 demo1 = Inr (Some 4608, s) \<and>
      (\<exists>s'. FindChunkPtr 1 512 300 s = Inr (Some 4608, s'))"
    by (simp add: demo1_def demo_stats_def bfc_run_lists b0 bin_insert.simps del: One_nat_def)
  then obtain s s' where f: "FindChunkPtr 0 0 18446744073709551615 demo1 = Inr (Some 4608, s)"
    "FindChunkPtr 1 512 300 s = Inr (Some 4608, s')" by blast
  have "BFC_Alloc demo_alloc demo_free (-1) demo1 = Inr ((ALLSPARK_SUCCESS, Some 4608), s)"
    by (simp add: BFC_Alloc_def AllocateRaw_def AllocateRawInternal_def Let_def r0 b0 f(1))
  moreover have "BFC_Alloc demo_alloc demo_free 300 s = Inr ((ALLSPARK_SUCCESS, Some 4608), s')"
    by (simp add: BFC_Alloc_def AllocateRaw_def AllocateRawInternal_def Let_def demo_sizes f(2) del: One_nat_def)
  ultimately show ?thesis by blast
qed

end
