(* ===== verification/Cache_Memory.thy ===== *)
theory Cache_Memory
  imports Prefix_Insert Prefix_Fill BFC_Theorems
begin

text \<open>
  The caches on top of the device memory: the concurrent frame pool over an allocator whose blocks are
  disjoint, with the BFC allocator as the instance.
\<close>

section \<open>Allocators with disjoint blocks\<close>

text \<open>The allocator of a pool that in addition promises where its blocks lie.\<close>

locale block_allocator = device_allocator +
  fixes owns :: "'a \<Rightarrow> addr \<Rightarrow> int \<Rightarrow> bool"
  assumes owns_new: "ok m \<Longrightarrow> 0 < n \<Longrightarrow> alloc n m = (Some a, m') \<Longrightarrow> owns m' a n"
    and owns_keep: "ok m \<Longrightarrow> 0 < n \<Longrightarrow> alloc n m = (r, m') \<Longrightarrow> owns m a k \<Longrightarrow> owns m' a k"
    and owns_live: "ok m \<Longrightarrow> owns m a k \<Longrightarrow> a \<in> live m"
    and owns_disjoint: "ok m \<Longrightarrow> owns m a j \<Longrightarrow> owns m b k \<Longrightarrow> a \<noteq> b \<Longrightarrow>
      int a + j \<le> int b \<or> int b + k \<le> int a"

text \<open>Every frame of the pool is a block of its own.\<close>

definition cfm_backed ::
  "('m \<Rightarrow> bool) \<Rightarrow> ('m \<Rightarrow> addr \<Rightarrow> int \<Rightarrow> bool) \<Rightarrow> 'm concurrent_fm \<Rightarrow> bool" where
  "cfm_backed ok owns fm \<longleftrightarrow>
     ok (cfm_mem fm) \<and> 0 < cfm_frame_size fm \<and> distinct (map frame_data (cfm_created fm)) \<and>
     (\<forall>f\<in>set (cfm_created fm). frame_bytes f = cfm_frame_size fm \<and>
        owns (cfm_mem fm) (frame_data f) (frame_bytes f))"

definition frames_apart :: "cache_frame \<Rightarrow> cache_frame \<Rightarrow> bool" where
  "frames_apart f g \<longleftrightarrow>
     int (frame_data f) + frame_bytes f \<le> int (frame_data g) \<or>
     int (frame_data g) + frame_bytes g \<le> int (frame_data f)"

context block_allocator
begin

lemma create_backed:
  assumes b: "cfm_backed ok owns fm" and c: "cfm_createFrame enq_reliable alloc dealloc fm = (r, fm')"
  shows "cfm_backed ok owns fm'"
proof (cases "alloc (cfm_frame_size fm) (cfm_mem fm)")
  case (Pair x m')
  have pos: "ok (cfm_mem fm)" "0 < cfm_frame_size fm" using b by (simp_all add: cfm_backed_def)
  have kept: "owns m' (frame_data f) (cfm_frame_size fm)" if "f \<in> set (cfm_created fm)" for f
    using b that owns_keep [OF pos Pair] by (auto simp: cfm_backed_def)
  note law = alloc_ok [OF pos Pair] kept
  show ?thesis
  proof (cases x)
    case None
    then show ?thesis
      using b c Pair law by (auto simp: cfm_backed_def cfm_createFrame_def CacheFrame_Create_def)
  next
    case (Some a)
    have "a \<notin> live (cfm_mem fm)" "owns m' a (cfm_frame_size fm)"
      using alloc_Some [OF pos] owns_new [OF pos] Pair Some by auto
    moreover then have "a \<notin> frame_data ` set (cfm_created fm)"
      using b owns_live [OF pos(1)] by (auto simp: cfm_backed_def)
    ultimately show ?thesis
      using b c Pair Some law
      by (auto simp: cfm_backed_def cfm_createFrame_def CacheFrame_Create_def enq_reliable_def split: if_splits)
  qed
qed

lemma create_times_backed:
  "cfm_backed ok owns fm \<Longrightarrow> cfm_create_times enq_reliable alloc dealloc n fm = (r, fm') \<Longrightarrow>
   cfm_backed ok owns fm'"
proof (induction n arbitrary: fm)
  case 0
  then show ?case by simp
next
  case (Suc n)
  obtain b fm1 where c: "cfm_createFrame enq_reliable alloc dealloc fm = (b, fm1)" by fastforce
  with create_backed [OF Suc.prems(1)] Suc show ?case by (auto split: bool.splits)
qed

lemma Init_backed:
  assumes "ok mem" "0 < frame_size"
    "cfm_Init enq_reliable alloc dealloc frame_size (cfm_new dev init mem) = (r, fm)"
  shows "cfm_backed ok owns fm"
proof -
  let ?fm0 = "(cfm_new dev init mem)\<lparr>cfm_initialized := True, cfm_frame_size := frame_size\<rparr>"
  obtain b where c: "cfm_create_times enq_reliable alloc dealloc (nat init) ?fm0 = (b, fm)"
    using assms by (auto simp: cfm_Init_def cfm_new_def split: if_splits) (metis prod.collapse)
  have "cfm_backed ok owns ?fm0" using assms(1,2) by (simp add: cfm_backed_def cfm_new_def)
  then show ?thesis using c by (rule create_times_backed)
qed

lemma backed_apart:
  assumes "cfm_backed ok owns fm" "f \<in> set (cfm_created fm)" "g \<in> set (cfm_created fm)" "f \<noteq> g"
  shows "frames_apart f g"
proof -
  have "frame_data f \<noteq> frame_data g"
    using assms by (auto simp: cfm_backed_def distinct_map inj_on_def)
  moreover have "ok (cfm_mem fm)" "owns (cfm_mem fm) (frame_data f) (frame_bytes f)"
    "owns (cfm_mem fm) (frame_data g) (frame_bytes g)"
    using assms by (auto simp: cfm_backed_def)
  ultimately show ?thesis unfolding frames_apart_def by (intro owns_disjoint)
qed

end

section \<open>The BFC allocator promises this\<close>

definition bfc_owns :: "'m bfc \<Rightarrow> addr \<Rightarrow> int \<Rightarrow> bool" where
  "bfc_owns s a n \<longleftrightarrow> 0 < n \<and> (\<exists>sz i. (a, nat n, sz, i) \<in> live_allocs s)"

lemma bfc_device_alloc_live:
  assumes s: "bfc_sound sub_alloc sub_free blocks ok s" and n: "0 < n"
    and a: "bfc_device_alloc sub_alloc sub_free n s = (r, s')"
  shows "live_allocs s \<subseteq> live_allocs s' \<and> (\<forall>p. r = Some p \<longrightarrow> bfc_owns s' p n)"
proof (cases "n < 2 ^ 63 \<and> (\<exists>st. BFC_Alloc sub_alloc sub_free n s = Inr ((st, r), s'))")
  case True
  then obtain st where st: "n < 2 ^ 63" "BFC_Alloc sub_alloc sub_free n s = Inr ((st, r), s')" by blast
  note b = BFC_Alloc_Inr [OF n st]
  have "granted s (nat n) r s'"
    using AllocateRaw_returns [OF _ _ b(3,2,1)] s by (auto simp: bfc_sound_def)
  with n show ?thesis by (auto simp: granted_def bfc_owns_def split: option.splits)
next
  case False
  then have "r = None" "s' = s" using a by (auto simp: bfc_device_alloc_def split: if_splits sum.splits)
  then show ?thesis by simp
qed

interpretation bfc_blocks: block_allocator "bfc_device_alloc sub_alloc sub_free" live_ptrs
  "bfc_sound sub_alloc sub_free blocks ok" bfc_owns
  for sub_alloc sub_free blocks ok
proof (unfold_locales, goal_cases)
  case (1 m n a m')
  then show ?case using bfc_device_alloc_live [OF 1] by simp
next
  case (2 m n r m' a k)
  then show ?case using bfc_device_alloc_live [OF 2(1-3)] by (auto simp: bfc_owns_def)
next
  case (3 m a k)
  then show ?case by (force simp: bfc_owns_def live_ptrs_def)
next
  case (4 m a j b k)
  then obtain x i y l where ab: "(a, nat j, x, i) \<in> live_allocs m" "(b, nat k, y, l) \<in> live_allocs m"
    and pos: "0 < j" "0 < k" by (auto simp: bfc_owns_def)
  have inv: "bfc_inv blocks ok m" using 4(1) by (simp add: bfc_sound_def)
  have "nat j \<le> x" "nat k \<le> y" using live_alloc_facts(3) [OF inv] ab by auto
  moreover have "a + x \<le> b \<or> b + y \<le> a" using live_allocs_disjoint(1) [OF inv ab] 4(4) by simp
  ultimately show ?case using pos by linarith
qed

end
