(* ===== verification/Coordinator.thy ===== *)
theory Coordinator
  imports Prelude
begin

text \<open>
  \<open>PrefixCacheCoordinator::waitForOtherWorkers\<close> of \<open>prefix_cache_manager.h\<close>, the barrier at which
  the workers of all ranks meet before they insert into their prefix caches, as a step relation over
  the interleavings of the workers. Each step is what a worker does while it holds the mutex.
\<close>

section \<open>The barrier\<close>

text \<open>
  Where a worker is: outside the call, asleep in \<open>wait_cv.wait\<close>, or awake again but not yet in
  possession of the mutex to test the predicate. The two counters of calls are history variables.
\<close>

datatype worker_pc = Outside | Waiting | Woken

record coordinator =
  co_worker_count :: int
  co_worker_num :: int
  co_pc :: "nat \<Rightarrow> worker_pc"
  co_entered :: "nat \<Rightarrow> nat"
  co_returned :: "nat \<Rightarrow> nat"

definition PrefixCacheCoordinator_new :: "int \<Rightarrow> coordinator" where
  "PrefixCacheCoordinator_new nranks =
     \<lparr>co_worker_count = 0, co_worker_num = nranks, co_pc = (\<lambda>_. Outside),
      co_entered = (\<lambda>_. 0), co_returned = (\<lambda>_. 0)\<rparr>"

text \<open>\<open>notify_all\<close>.\<close>

definition wake :: "worker_pc \<Rightarrow> worker_pc" where
  "wake pc = (if pc = Waiting then Woken else pc)"

text \<open>A call from its start to its return or to the point where it sleeps.\<close>

definition enter_barrier :: "nat \<Rightarrow> coordinator \<Rightarrow> coordinator" where
  "enter_barrier w c =
     (let n = co_worker_count c + 1; entered = (co_entered c)(w := co_entered c w + 1) in
      if n = co_worker_num c then
        c\<lparr>co_worker_count := 0, co_pc := wake \<circ> co_pc c, co_entered := entered,
          co_returned := (co_returned c)(w := co_returned c w + 1)\<rparr>
      else if n = 0 then
        c\<lparr>co_worker_count := n, co_entered := entered,
          co_returned := (co_returned c)(w := co_returned c w + 1)\<rparr>
      else c\<lparr>co_worker_count := n, co_entered := entered, co_pc := (co_pc c)(w := Waiting)\<rparr>)"

text \<open>A worker that is awake takes the mutex and tests \<open>worker_count == 0\<close>.\<close>

definition recheck :: "nat \<Rightarrow> coordinator \<Rightarrow> coordinator" where
  "recheck w c =
     (if co_worker_count c = 0 then
        c\<lparr>co_pc := (co_pc c)(w := Outside), co_returned := (co_returned c)(w := co_returned c w + 1)\<rparr>
      else c\<lparr>co_pc := (co_pc c)(w := Waiting)\<rparr>)"

text \<open>The workers are those below the number of ranks. A wait may end without a notification.\<close>

inductive co_step :: "coordinator \<Rightarrow> coordinator \<Rightarrow> bool" where
  enter: "int w < co_worker_num c \<Longrightarrow> co_pc c w = Outside \<Longrightarrow> co_step c (enter_barrier w c)"
| test: "int w < co_worker_num c \<Longrightarrow> co_pc c w = Woken \<Longrightarrow> co_step c (recheck w c)"
| spurious: "int w < co_worker_num c \<Longrightarrow> co_pc c w = Waiting \<Longrightarrow>
    co_step c (c\<lparr>co_pc := (co_pc c)(w := Woken)\<rparr>)"

inductive co_reaches :: "coordinator \<Rightarrow> coordinator \<Rightarrow> bool" where
  refl: "co_reaches c c"
| step: "co_reaches c d \<Longrightarrow> co_step d e \<Longrightarrow> co_reaches c e"

inductive_cases co_stepE: "co_step c d"

lemma co_reaches_num: "co_reaches c d \<Longrightarrow> co_worker_num d = co_worker_num c"
  by (induction rule: co_reaches.induct)
    (auto elim!: co_stepE simp: enter_barrier_def recheck_def Let_def)

section \<open>What every interleaving keeps\<close>

text \<open>
  In the round with number \<open>r\<close> every worker has made \<open>r\<close> calls before, and those that have made one
  more are counted and inside.
\<close>

definition co_inv :: "nat \<Rightarrow> coordinator \<Rightarrow> bool" where
  "co_inv r c \<longleftrightarrow>
     0 < co_worker_num c \<and> 0 \<le> co_worker_count c \<and> co_worker_count c < co_worker_num c \<and>
     co_worker_count c = int (card {w. int w < co_worker_num c \<and> co_entered c w = Suc r}) \<and>
     (\<forall>w. int w < co_worker_num c \<longrightarrow>
        (co_entered c w = r \<or> co_entered c w = Suc r) \<and>
        co_returned c w = (if co_pc c w = Outside then co_entered c w else co_entered c w - 1) \<and>
        co_returned c w \<le> r \<and> (co_pc c w \<noteq> Outside \<longrightarrow> 0 < co_entered c w))"

lemma finite_workers [simp]: "finite {w. int w < n \<and> P w}"
  by (rule finite_subset [of _ "{..<nat n}"]) auto

lemma card_workers: "card {w. int w < n} = nat n"
proof -
  have "{w. int w < n} = {..<nat n}" by auto
  then show ?thesis by simp
qed

lemma workers_all:
  assumes "card {w. int w < n \<and> P w} = nat n"
  shows "\<forall>w. int w < n \<longrightarrow> P w"
proof -
  have "{w. int w < n \<and> P w} = {w. int w < n}"
    by (rule card_subset_eq) (use assms finite_workers [of n "\<lambda>_. True"] in \<open>auto simp: card_workers\<close>)
  then show ?thesis by blast
qed

lemma co_inv_new: "0 < n \<Longrightarrow> co_inv 0 (PrefixCacheCoordinator_new n)"
  by (simp add: co_inv_def PrefixCacheCoordinator_new_def)

lemma co_inv_recheck:
  assumes inv: "co_inv r c" and w: "int w < co_worker_num c" "co_pc c w = Woken"
  shows "co_inv r (recheck w c)"
proof (cases "co_worker_count c = 0")
  case True
  then have "card {w. int w < co_worker_num c \<and> co_entered c w = Suc r} = 0"
    using inv by (simp add: co_inv_def)
  then have "{w. int w < co_worker_num c \<and> co_entered c w = Suc r} = {}" by (simp only: card_0_eq finite_workers)
  with w(1) have "co_entered c w \<noteq> Suc r" by blast
  with inv w True show ?thesis by (auto simp: co_inv_def recheck_def)
next
  case False
  with inv w show ?thesis by (auto simp: co_inv_def recheck_def)
qed

lemma co_inv_enter:
  assumes inv: "co_inv r c" and w: "int w < co_worker_num c" "co_pc c w = Outside"
  shows "\<exists>r'. co_inv r' (enter_barrier w c)"
proof -
  let ?n = "co_worker_num c"
  let ?e = "(co_entered c)(w := co_entered c w + 1)"
  have ew: "co_entered c w = r" using inv w by (auto simp: co_inv_def)
  then have "{v. int v < ?n \<and> ?e v = Suc r} = insert w {v. int v < ?n \<and> co_entered c v = Suc r}"
    using w by auto
  then have card: "int (card {v. int v < ?n \<and> ?e v = Suc r}) = co_worker_count c + 1"
    using inv ew by (simp add: co_inv_def)
  show ?thesis
  proof (cases "co_worker_count c + 1 = ?n")
    case True
    have "\<forall>v. int v < ?n \<longrightarrow> ?e v = Suc r"
      by (rule workers_all) (use card True in simp)
    then have all: "?e v = Suc r" if "int v < ?n" for v using that by blast
    then have none: "{v. int v < ?n \<and> ?e v = Suc (Suc r)} = {}" by auto
    have "co_inv (Suc r) (enter_barrier w c)"
      unfolding co_inv_def
      using True all none inv w ew by (auto simp: enter_barrier_def Let_def co_inv_def wake_def)
    then show ?thesis ..
  next
    case False
    then have "co_inv r (enter_barrier w c)"
      using inv w ew card unfolding co_inv_def by (auto simp: enter_barrier_def Let_def)
    then show ?thesis ..
  qed
qed

lemma co_inv_spurious:
  "co_inv r c \<Longrightarrow> co_pc c w = Waiting \<Longrightarrow> co_inv r (c\<lparr>co_pc := (co_pc c)(w := Woken)\<rparr>)"
  by (auto simp: co_inv_def)

lemma co_inv_step: "co_step c d \<Longrightarrow> co_inv r c \<Longrightarrow> \<exists>r'. co_inv r' d"
  by (induction rule: co_step.induct) (auto intro: co_inv_enter co_inv_recheck co_inv_spurious)

lemma co_inv_reaches: "co_reaches c d \<Longrightarrow> co_inv r c \<Longrightarrow> \<exists>r'. co_inv r' d"
  by (induction rule: co_reaches.induct) (blast intro: co_inv_step)+

section \<open>Properties\<close>

text \<open>
  C27: In every interleaving no worker returns from its n-th call of the barrier before every worker
  has made its n-th call.
\<close>

theorem barrier_safe:
  assumes "0 < n" "co_reaches (PrefixCacheCoordinator_new n) c" "int v < co_worker_num c"
    "int w < co_worker_num c"
  shows "co_returned c v \<le> co_entered c w"
proof -
  obtain r where "co_inv r c" using co_inv_reaches [OF assms(2)] co_inv_new [OF assms(1)] by blast
  with assms(3,4) show ?thesis unfolding co_inv_def by (metis le_SucI order_trans order_refl)
qed

theorem barrier_safe_witness:
  "co_returned (enter_barrier 1 (enter_barrier 0 (PrefixCacheCoordinator_new 2))) 1 = 1 \<and>
   co_returned (enter_barrier 1 (enter_barrier 0 (PrefixCacheCoordinator_new 2))) 1
     \<le> co_entered (enter_barrier 1 (enter_barrier 0 (PrefixCacheCoordinator_new 2))) 0"
proof
  let ?c = "PrefixCacheCoordinator_new 2"
  show "co_returned (enter_barrier 1 (enter_barrier 0 ?c)) 1 = 1"
    by (simp add: PrefixCacheCoordinator_new_def enter_barrier_def)
  have "co_reaches ?c (enter_barrier 1 (enter_barrier 0 ?c))"
    by (rule co_reaches.step [OF co_reaches.step [OF co_reaches.refl co_step.enter] co_step.enter])
      (simp_all add: PrefixCacheCoordinator_new_def enter_barrier_def)
  then show "co_returned (enter_barrier 1 (enter_barrier 0 ?c)) 1
     \<le> co_entered (enter_barrier 1 (enter_barrier 0 ?c)) 0"
    by (rule barrier_safe [rotated]) (simp_all add: PrefixCacheCoordinator_new_def enter_barrier_def)
qed

text \<open>Nobody outside and a counter that is not 0: rechecks only put workers back to sleep.\<close>

definition co_stuck :: "coordinator \<Rightarrow> bool" where
  "co_stuck c \<longleftrightarrow>
     co_worker_count c \<noteq> 0 \<and> (\<forall>w. int w < co_worker_num c \<longrightarrow> co_pc c w \<noteq> Outside)"

lemma co_stuck_step:
  "co_step c d \<Longrightarrow> co_stuck c \<Longrightarrow> co_stuck d \<and> co_returned d = co_returned c"
  by (induction rule: co_step.induct) (auto simp: co_stuck_def recheck_def)

lemma co_stuck_reaches:
  "co_reaches c d \<Longrightarrow> co_stuck c \<Longrightarrow> co_stuck d \<and> co_returned d = co_returned c"
  by (induction rule: co_reaches.induct) (metis co_stuck_step)+

text \<open>
  C28: The barrier cannot be used twice: with two workers there is an interleaving (the worker that
  opened the barrier enters again before the other one has tested the counter) after which, whatever
  happens next, neither of the two ever returns from its call.
\<close>

theorem barrier_deadlock:
  "\<exists>c. co_reaches (PrefixCacheCoordinator_new 2) c \<and>
     (\<forall>d. co_reaches c d \<longrightarrow> co_returned d = co_returned c \<and> co_pc d 0 \<noteq> Outside \<and> co_pc d 1 \<noteq> Outside)"
proof -
  let ?c0 = "PrefixCacheCoordinator_new 2"
  let ?c3 = "enter_barrier 1 (enter_barrier 1 (enter_barrier 0 ?c0))"
  note defs = PrefixCacheCoordinator_new_def enter_barrier_def wake_def recheck_def
  have "co_reaches ?c0 ?c3"
    by (rule co_reaches.step [OF co_reaches.step [OF co_reaches.step [OF co_reaches.refl
            co_step.enter] co_step.enter] co_step.enter])
      (simp_all add: defs)
  moreover have "co_stuck ?c3"
    by (auto simp: co_stuck_def defs less_Suc_eq numeral_2_eq_2)
  then have "co_returned d = co_returned ?c3 \<and> co_pc d 0 \<noteq> Outside \<and> co_pc d 1 \<noteq> Outside"
    if "co_reaches ?c3 d" for d
  proof -
    from that \<open>co_stuck ?c3\<close> have *: "co_stuck d \<and> co_returned d = co_returned ?c3"
      by (rule co_stuck_reaches)
    moreover have "co_worker_num d = 2" using co_reaches_num [OF that] by (simp add: defs)
    ultimately show ?thesis unfolding co_stuck_def by simp
  qed
  ultimately show ?thesis by blast
qed

theorem barrier_deadlock_witness:
  "\<exists>c. co_reaches (PrefixCacheCoordinator_new 2) c \<and> co_pc c 0 \<noteq> Outside \<and> co_pc c 1 \<noteq> Outside"
  using barrier_deadlock co_reaches.refl by blast

text \<open>A single worker passes the barrier at every call without waiting.\<close>

theorem barrier_single_worker:
  "co_reaches (PrefixCacheCoordinator_new 1) c \<Longrightarrow> co_pc c 0 = Outside \<and> co_returned c 0 = co_entered c 0"
proof (induction "PrefixCacheCoordinator_new 1" c rule: co_reaches.induct)
  case refl
  then show ?case by (simp add: PrefixCacheCoordinator_new_def)
next
  case (step d e)
  then obtain r where "co_inv r d" using co_inv_reaches co_inv_new [of 1] by fastforce
  moreover have "co_worker_num d = 1"
    using co_reaches_num [OF step.hyps(1)] by (simp add: PrefixCacheCoordinator_new_def)
  ultimately have "co_worker_count d = 0" "co_worker_num d = 1" by (auto simp: co_inv_def)
  with step.hyps step show ?case
    by (auto elim!: co_stepE simp: enter_barrier_def wake_def)
qed

theorem barrier_single_worker_witness:
  "co_returned (enter_barrier 0 (enter_barrier 0 (PrefixCacheCoordinator_new 1))) 0 = 2"
proof -
  let ?c = "enter_barrier 0 (enter_barrier 0 (PrefixCacheCoordinator_new 1))"
  have "co_reaches (PrefixCacheCoordinator_new 1) ?c"
    by (rule co_reaches.step [OF co_reaches.step [OF co_reaches.refl co_step.enter] co_step.enter])
      (simp_all add: PrefixCacheCoordinator_new_def enter_barrier_def wake_def)
  from barrier_single_worker [OF this] show ?thesis
    by (simp add: PrefixCacheCoordinator_new_def enter_barrier_def)
qed

end
