(* ===== verification/Block_Pool.thy ===== *)
theory Block_Pool
  imports Frame_Manager "HOL-Library.Sublist"
begin

text \<open>
  The blocks that operators share for their intermediate tensors: one block
  (\<open>common/block_impl.h\<close>), the pool of blocks of a device context (\<open>common/block_allocator.h\<close>) and
  the assignment of blocks to the tensors of a model graph (\<open>common/memory_reuser.cpp\<close>).

  Blocks are objects in a store; \<open>place b\<close> is the address of the object \<open>b\<close>, which the order of
  the blocks uses, and the address of the temporary search key of \<open>Alloc\<close> is an argument. The device
  allocator and its release are parameters; the null pointer is 0.
\<close>

section \<open>Blocks\<close>

type_synonym 'm deallocator = "addr \<Rightarrow> 'm \<Rightarrow> as_status \<times> 'm"
type_synonym block_ptr = nat
type_synonym tensor_ptr = nat

record block =
  bl_device_id :: int
  bl_size :: int
  bl_ptr :: addr
  bl_tensors :: "tensor_ptr list"

definition bl_Free :: "'m deallocator \<Rightarrow> block \<Rightarrow> 'm \<Rightarrow> block \<times> 'm" where
  "bl_Free dealloc b m =
     (if bl_ptr b \<noteq> 0 then (b\<lparr>bl_ptr := 0, bl_size := 0\<rparr>, snd (dealloc (bl_ptr b) m)) else (b, m))"

text \<open>The status of the allocation is not looked at.\<close>

definition bl_Resize :: "'m allocator \<Rightarrow> 'm deallocator \<Rightarrow> int \<Rightarrow> block \<Rightarrow> 'm \<Rightarrow> block \<times> 'm" where
  "bl_Resize alloc dealloc new_size b m =
     (if bl_size b < new_size then
        (case bl_Free dealloc b m of (b1, m1) \<Rightarrow>
         case alloc new_size m1 of
           (Some a, m2) \<Rightarrow> (b1\<lparr>bl_ptr := a, bl_size := new_size\<rparr>, m2)
         | (None, m2) \<Rightarrow> (b1\<lparr>bl_size := new_size\<rparr>, m2))
      else (b, m))"

definition bl_Destory :: "'m deallocator \<Rightarrow> block \<Rightarrow> 'm \<Rightarrow> block \<times> 'm" where
  "bl_Destory dealloc b m =
     (if bl_ptr b \<noteq> 0 then (b\<lparr>bl_ptr := 0\<rparr>, snd (dealloc (bl_ptr b) m)) else (b, m))"

text \<open>
  \<open>Restore\<close> hands the null pointer itself, not its place, to the allocator, which then writes the new
  address through it; when the allocation fails nothing is written.
\<close>

definition bl_Restore :: "'m allocator \<Rightarrow> block \<Rightarrow> 'm \<Rightarrow> (unit, 'm) outcome" where
  "bl_Restore alloc b m =
     (if bl_ptr b = 0 \<and> bl_size b > 0 then
        (case alloc (bl_size b) m of (None, m') \<Rightarrow> ret () m' | (Some a, m') \<Rightarrow> (Inl UndefinedBehaviour, m'))
      else ret () m)"

definition bl_BindTensor :: "tensor_ptr \<Rightarrow> block \<Rightarrow> block" where
  "bl_BindTensor t b = b\<lparr>bl_tensors := List.insert t (bl_tensors b)\<rparr>"

definition bl_UnBindTensor :: "tensor_ptr \<Rightarrow> block \<Rightarrow> block" where
  "bl_UnBindTensor t b = b\<lparr>bl_tensors := removeAll t (bl_tensors b)\<rparr>"

definition BlockImpl_new ::
  "'m allocator \<Rightarrow> 'm deallocator \<Rightarrow> int \<Rightarrow> int \<Rightarrow> bool \<Rightarrow> 'm \<Rightarrow> block \<times> 'm" where
  "BlockImpl_new alloc dealloc nbytes device_id iskey m =
     (let b = \<lparr>bl_device_id = device_id, bl_size = 0, bl_ptr = 0, bl_tensors = []\<rparr> in
      if iskey then (b\<lparr>bl_size := nbytes\<rparr>, m) else bl_Resize alloc dealloc nbytes b m)"

text \<open>The order of blocks: by size, then by the address of the object.\<close>

definition bl_less :: "int \<times> addr \<Rightarrow> int \<times> addr \<Rightarrow> bool" where
  "bl_less a b = (if fst a \<noteq> fst b then fst a < fst b else snd a < snd b)"

section \<open>The pool\<close>

text \<open>
  \<open>free_blocks_\<close> is a \<open>std::set\<close> in the order of the blocks, \<open>allocated_blocks_\<close> one of pointers whose
  order no operation depends on. A set whose order no longer holds, because a block in it was
  resized by a tensor that still points to it, is not usable: its operations are undefined.
\<close>

record 'm block_pool =
  bp_blocks :: "block list"
  bp_free :: "block_ptr list"
  bp_allocated :: "block_ptr list"
  bp_mem :: 'm

definition block_key :: "(block_ptr \<Rightarrow> addr) \<Rightarrow> block list \<Rightarrow> block_ptr \<Rightarrow> int \<times> addr" where
  "block_key place bs b = (bl_size (bs ! b), place b)"

definition free_ordered :: "(block_ptr \<Rightarrow> addr) \<Rightarrow> 'm block_pool \<Rightarrow> bool" where
  "free_ordered place p =
     sorted_wrt (\<lambda>b c. bl_less (block_key place (bp_blocks p) b) (block_key place (bp_blocks p) c)) (bp_free p)"

text \<open>\<open>Alloc\<close>: the smallest block that is not less than the key, else the largest one, resized, else
  a new one.\<close>

definition bp_Alloc ::
  "(block_ptr \<Rightarrow> addr) \<Rightarrow> 'm allocator \<Rightarrow> 'm deallocator \<Rightarrow> addr \<Rightarrow> int \<Rightarrow> int \<Rightarrow> 'm block_pool \<Rightarrow>
   (block_ptr, 'm block_pool) outcome"
where
  "bp_Alloc place alloc dealloc key_addr nbytes device_id p =
     (let key = (bl_size (fst (BlockImpl_new alloc dealloc nbytes device_id True (bp_mem p))), key_addr) in
      if \<not> free_ordered place p then (Inl UndefinedBehaviour, p)
      else case dropWhile (\<lambda>b. bl_less (block_key place (bp_blocks p) b) key) (bp_free p) of
        b # _ \<Rightarrow>
          ret b (p\<lparr>bp_free := remove1 b (bp_free p), bp_allocated := List.insert b (bp_allocated p)\<rparr>)
      | [] \<Rightarrow>
          (if bp_free p \<noteq> [] then
             (let b = last (bp_free p) in
              case bl_Resize alloc dealloc nbytes (bp_blocks p ! b) (bp_mem p) of (blk, m) \<Rightarrow>
                ret b (p\<lparr>bp_blocks := (bp_blocks p)[b := blk], bp_free := butlast (bp_free p),
                        bp_allocated := List.insert b (bp_allocated p), bp_mem := m\<rparr>))
           else
             (case BlockImpl_new alloc dealloc nbytes device_id False (bp_mem p) of (blk, m) \<Rightarrow>
                let b = length (bp_blocks p) in
                ret b (p\<lparr>bp_blocks := bp_blocks p @ [blk],
                        bp_allocated := List.insert b (bp_allocated p), bp_mem := m\<rparr>))))"

text \<open>\<open>Free\<close>: a null pointer (\<open>None\<close>) and a block the pool did not hand out are ignored.\<close>

definition free_insert :: "(block_ptr \<Rightarrow> addr) \<Rightarrow> block_ptr \<Rightarrow> 'm block_pool \<Rightarrow> block_ptr list" where
  "free_insert place b p =
     (let k = block_key place (bp_blocks p);
          lower = takeWhile (\<lambda>c. bl_less (k c) (k b)) (bp_free p);
          upper = dropWhile (\<lambda>c. bl_less (k c) (k b)) (bp_free p)
      in case upper of
           [] \<Rightarrow> lower @ [b]
         | c # _ \<Rightarrow> if bl_less (k b) (k c) then lower @ b # upper else bp_free p)"

definition bp_Free ::
  "(block_ptr \<Rightarrow> addr) \<Rightarrow> block_ptr option \<Rightarrow> 'm block_pool \<Rightarrow> (unit, 'm block_pool) outcome" where
  "bp_Free place blk p =
     (case blk of
        None \<Rightarrow> ret () p
      | Some b \<Rightarrow>
          if b \<notin> set (bp_allocated p) then ret () p
          else if \<not> free_ordered place p then (Inl UndefinedBehaviour, p\<lparr>bp_allocated := remove1 b (bp_allocated p)\<rparr>)
          else ret () (p\<lparr>bp_allocated := remove1 b (bp_allocated p), bp_free := free_insert place b p\<rparr>))"

definition bp_Reset :: "(block_ptr \<Rightarrow> addr) \<Rightarrow> 'm block_pool \<Rightarrow> (unit, 'm block_pool) outcome" where
  "bp_Reset place p = forEach (\<lambda>b. bp_Free place (Some b)) (bp_allocated p) p"

text \<open>
  \<open>ResetPools\<close> drops the pointers of the pool. A block nobody else points to is destroyed with them,
  which gives its memory back.
\<close>

fun destroy_blocks ::
  "'m deallocator \<Rightarrow> block_ptr list \<Rightarrow> 'm block_pool \<Rightarrow> 'm block_pool" where
  "destroy_blocks dealloc [] p = p"
| "destroy_blocks dealloc (b # bs) p =
     (case bl_Free dealloc (bp_blocks p ! b) (bp_mem p) of (blk, m) \<Rightarrow>
        destroy_blocks dealloc bs (p\<lparr>bp_blocks := (bp_blocks p)[b := blk], bp_mem := m\<rparr>))"

definition bp_ResetPools :: "'m deallocator \<Rightarrow> block_ptr list \<Rightarrow> 'm block_pool \<Rightarrow> 'm block_pool" where
  "bp_ResetPools dealloc held p =
     (destroy_blocks dealloc (filter (\<lambda>b. b \<notin> set held) (bp_free p @ bp_allocated p)) p)
       \<lparr>bp_free := [], bp_allocated := []\<rparr>"

section \<open>Assignment of blocks to tensors\<close>

definition noreused :: "string list" where
  "noreused = [''cross_attention.key_value.out'', ''input_ids'', ''attention_mask'', ''fusion_input_ids'',
     ''fusion_attention_mask'', ''fusion_relative_position'', ''batch_offset'', ''transmask.out'',
     ''max_dec_ids'', ''generated_ids_global'', ''dec_ids'', ''next_beam_id'', ''hyps_ids'', ''hyps_beam_score'']"

definition checknoused :: "string \<Rightarrow> bool" where
  "checknoused name = list_ex (\<lambda>s. sublist s name) noreused"

text \<open>
  The state of the loop: the pool, the block of every tensor (\<open>block_\<close>), the number of visits that
  are left for every tensor (\<open>-1\<close> once its block was given back), and the tensors bound in this run.
\<close>

record 'm binding =
  bn_pool :: "'m block_pool"
  bn_block :: "(tensor_ptr \<times> block_ptr) list"
  bn_vis :: "(tensor_ptr \<times> int) list"
  bn_binded :: "tensor_ptr list"

definition map_get :: "('k \<times> int) list \<Rightarrow> 'k \<Rightarrow> int" where
  "map_get m k = (case map_of m k of None \<Rightarrow> 0 | Some n \<Rightarrow> n)"

fun count_visits :: "tensor_ptr list \<Rightarrow> (tensor_ptr \<times> int) list \<Rightarrow> (tensor_ptr \<times> int) list" where
  "count_visits [] vis = vis"
| "count_visits (t # ts) vis = count_visits ts (AList.update t (map_get vis t + 1) vis)"

definition BindingBlock :: "tensor_ptr \<Rightarrow> block_ptr \<Rightarrow> 'm binding \<Rightarrow> 'm binding" where
  "BindingBlock t b st =
     st\<lparr>bn_block := AList.update t b (bn_block st),
        bn_pool := (bn_pool st)\<lparr>bp_blocks := (bp_blocks (bn_pool st))[b := bl_BindTensor t (bp_blocks (bn_pool st) ! b)]\<rparr>\<rparr>"

definition bind_visit ::
  "(block_ptr \<Rightarrow> addr) \<Rightarrow> 'm allocator \<Rightarrow> 'm deallocator \<Rightarrow> (nat \<Rightarrow> addr) \<Rightarrow> int \<Rightarrow> (tensor_ptr \<Rightarrow> string) \<Rightarrow>
   tensor_ptr \<Rightarrow> 'm binding \<Rightarrow> (unit, 'm binding) outcome"
where
  "bind_visit place alloc dealloc keys device_id name t st =
     (if checknoused (name t) then ret () st
      else andThen
        (if t \<in> set (bn_binded st) then ret () st
         else case bp_Alloc place alloc dealloc (keys (length (bn_binded st))) 0 device_id (bn_pool st) of
           (Inl e, p) \<Rightarrow> (Inl e, st\<lparr>bn_pool := p\<rparr>)
         | (Inr b, p) \<Rightarrow>
             ret () ((BindingBlock t b (st\<lparr>bn_pool := p\<rparr>))\<lparr>bn_binded := t # bn_binded st\<rparr>))
        (\<lambda>_ st. ret () (st\<lparr>bn_vis := AList.update t (map_get (bn_vis st) t - 1) (bn_vis st)\<rparr>)))"

definition release_done ::
  "(block_ptr \<Rightarrow> addr) \<Rightarrow> tensor_ptr \<times> int \<Rightarrow> 'm binding \<Rightarrow> (unit, 'm binding) outcome" where
  "release_done place it st =
     (if snd it = 0 then
        (case bp_Free place (map_of (bn_block st) (fst it)) (bn_pool st) of
           (Inl e, p) \<Rightarrow> (Inl e, st\<lparr>bn_pool := p\<rparr>)
         | (Inr _, p) \<Rightarrow> ret () (st\<lparr>bn_pool := p, bn_vis := AList.update (fst it) (-1) (bn_vis st)\<rparr>))
      else ret () st)"

text \<open>One entry of the visit list: bind its tensors, then give back the blocks of those never visited
  again.\<close>

definition bind_step ::
  "(block_ptr \<Rightarrow> addr) \<Rightarrow> 'm allocator \<Rightarrow> 'm deallocator \<Rightarrow> (nat \<Rightarrow> addr) \<Rightarrow> int \<Rightarrow> (tensor_ptr \<Rightarrow> string) \<Rightarrow>
   tensor_ptr list \<Rightarrow> 'm binding \<Rightarrow> (unit, 'm binding) outcome"
where
  "bind_step place alloc dealloc keys device_id name ts st =
     andThen (forEach (bind_visit place alloc dealloc keys device_id name) ts st)
       (\<lambda>_ st1. forEach (release_done place) (bn_vis st1) st1)"

definition binding_with_algo_0 ::
  "(block_ptr \<Rightarrow> addr) \<Rightarrow> 'm allocator \<Rightarrow> 'm deallocator \<Rightarrow> (nat \<Rightarrow> addr) \<Rightarrow> int \<Rightarrow> (tensor_ptr \<Rightarrow> string) \<Rightarrow>
   tensor_ptr list list \<Rightarrow> (tensor_ptr \<times> block_ptr) list \<Rightarrow> 'm block_pool \<Rightarrow> (unit, 'm binding) outcome"
where
  "binding_with_algo_0 place alloc dealloc keys device_id name visit_list blocks pool =
     forEach (bind_step place alloc dealloc keys device_id name) visit_list
       \<lparr>bn_pool = pool, bn_block = blocks, bn_vis = count_visits (concat visit_list) [], bn_binded = []\<rparr>"

section \<open>Invariant of the pool\<close>

lemma bl_less_irrefl [simp]: "\<not> bl_less a a" by (simp add: bl_less_def)

lemma bl_less_trans: "bl_less a b \<Longrightarrow> bl_less b c \<Longrightarrow> bl_less a c"
  by (auto simp: bl_less_def split: if_splits)

lemma bl_less_total: "a \<noteq> b \<Longrightarrow> \<not> bl_less a b \<Longrightarrow> bl_less b a"
  by (cases a; cases b) (auto simp: bl_less_def split: if_splits)

lemma bl_less_size: "\<not> bl_less a b \<Longrightarrow> fst b \<le> fst a" "bl_less a b \<Longrightarrow> fst a \<le> fst b"
  by (auto simp: bl_less_def split: if_splits)

definition bp_inv :: "(block_ptr \<Rightarrow> addr) \<Rightarrow> 'm block_pool \<Rightarrow> bool" where
  "bp_inv place p \<longleftrightarrow>
     free_ordered place p \<and> distinct (bp_allocated p) \<and> set (bp_free p) \<inter> set (bp_allocated p) = {} \<and>
     (\<forall>b\<in>set (bp_free p) \<union> set (bp_allocated p). b < length (bp_blocks p))"

lemma free_ordered_distinct: "free_ordered place p \<Longrightarrow> distinct (bp_free p)"
  unfolding free_ordered_def by (induction "bp_free p" arbitrary: p rule: list.induct)
    (auto simp: distinct_conv_nth sorted_wrt_iff_nth_less, metis bl_less_irrefl nat_neq_iff)

lemma free_ordered_cong:
  "(\<And>b. b \<in> set xs \<Longrightarrow> bl_size (bp_blocks q ! b) = bl_size (bp_blocks p ! b)) \<Longrightarrow> bp_free q = xs \<Longrightarrow>
   sorted_wrt (\<lambda>b c. bl_less (block_key place (bp_blocks p) b) (block_key place (bp_blocks p) c)) xs \<Longrightarrow>
   free_ordered place q"
  by (auto simp: free_ordered_def block_key_def sorted_wrt_iff_nth_less)

lemma sorted_wrt_remove1: "sorted_wrt P xs \<Longrightarrow> sorted_wrt P (remove1 x xs)"
  by (induction xs) (auto dest: notin_set_remove1 [rotated] in_set_remove1 [THEN iffD1, rotated] set_remove1_subset [THEN subsetD])

lemma sorted_wrt_butlast: "sorted_wrt P xs \<Longrightarrow> sorted_wrt P (butlast xs)"
  by (induction xs) (auto dest: in_set_butlastD)

section \<open>Operations keep the invariant\<close>

lemma bl_Free_size: "bl_Free dealloc b m = (b', m') \<Longrightarrow> bl_size b' \<le> max 0 (bl_size b)"
  by (auto simp: bl_Free_def split: if_splits)

lemma bl_Resize_size: "bl_Resize alloc dealloc n b m = (b', m') \<Longrightarrow> bl_size b' = max n (bl_size b)"
  by (auto simp: bl_Resize_def split: prod.splits option.splits if_splits)

lemma bl_Resize_enough: "n \<le> bl_size b \<Longrightarrow> bl_Resize alloc dealloc n b m = (b, m)"
  by (simp add: bl_Resize_def)

text \<open>How a call of \<open>Alloc\<close> can go.\<close>

lemma bp_Alloc_cases:
  assumes "free_ordered place p"
  obtains (fit) b where
      "\<And>c. c \<in> set (bp_free p) \<Longrightarrow> n < bl_size (bp_blocks p ! c) \<Longrightarrow> bl_size (bp_blocks p ! b) \<le> bl_size (bp_blocks p ! c)"
      "b \<in> set (bp_free p)" "n \<le> bl_size (bp_blocks p ! b)"
      "bp_Alloc place alloc dealloc ka n dev p =
         ret b (p\<lparr>bp_free := remove1 b (bp_free p), bp_allocated := List.insert b (bp_allocated p)\<rparr>)"
  | (largest) b blk m where "b = last (bp_free p)" "bp_free p \<noteq> []"
      "\<And>c. c \<in> set (bp_free p) \<Longrightarrow> bl_size (bp_blocks p ! c) \<le> n \<and> bl_size (bp_blocks p ! c) \<le> bl_size (bp_blocks p ! b)"
      "bl_Resize alloc dealloc n (bp_blocks p ! b) (bp_mem p) = (blk, m)"
      "bp_Alloc place alloc dealloc ka n dev p =
         ret b (p\<lparr>bp_blocks := (bp_blocks p)[b := blk], bp_free := butlast (bp_free p),
           bp_allocated := List.insert b (bp_allocated p), bp_mem := m\<rparr>)"
  | (new) blk m where "bp_free p = []" "BlockImpl_new alloc dealloc n dev False (bp_mem p) = (blk, m)"
      "bp_Alloc place alloc dealloc ka n dev p =
         ret (length (bp_blocks p)) (p\<lparr>bp_blocks := bp_blocks p @ [blk],
           bp_allocated := List.insert (length (bp_blocks p)) (bp_allocated p), bp_mem := m\<rparr>)"
proof -
  let ?k = "block_key place (bp_blocks p)"
  let ?below = "\<lambda>b. bl_less (?k b) (n, ka)"
  have key: "bl_size (fst (BlockImpl_new alloc dealloc n dev True (bp_mem p))) = n"
    by (simp add: BlockImpl_new_def)
  show thesis
  proof (cases "dropWhile ?below (bp_free p)")
    case (Cons b rest)
    have split: "bp_free p = takeWhile ?below (bp_free p) @ b # rest" using Cons takeWhile_dropWhile_id [of ?below "bp_free p"] by simp
    have nb: "\<not> ?below b" using Cons by (metis hd_dropWhile list.sel(1) list.simps(3))
    have "bl_size (bp_blocks p ! b) \<le> bl_size (bp_blocks p ! c)"
      if c: "c \<in> set (bp_free p)" "n < bl_size (bp_blocks p ! c)" for c
    proof -
      have "c \<notin> set (takeWhile ?below (bp_free p))"
        using c(2) by (auto dest!: set_takeWhileD simp: bl_less_def block_key_def)
      then have "c \<in> set (b # rest)" using c(1) split by (metis UnE set_append)
      moreover have "bl_less (?k b) (?k d)" if "d \<in> set rest" for d
        using assms that unfolding free_ordered_def by (subst (asm) split) (auto simp: sorted_wrt_append)
      ultimately show ?thesis using bl_less_size(2) by (fastforce simp: block_key_def)
    qed
    moreover have "b \<in> set (bp_free p)" by (subst split) simp
    moreover have "n \<le> bl_size (bp_blocks p ! b)" using bl_less_size(1) [OF nb] by (simp add: block_key_def)
    ultimately show thesis
      using fit Cons assms by (simp add: bp_Alloc_def key)
  next
    case Nil
    show thesis
    proof (cases "bp_free p = []")
      case True
      then show thesis
        using new assms by (cases "BlockImpl_new alloc dealloc n dev False (bp_mem p)") (simp add: bp_Alloc_def Let_def)
    next
      case False
      have small: "bl_size (bp_blocks p ! c) \<le> n" if "c \<in> set (bp_free p)" for c
        using Nil that bl_less_size(2) by (fastforce simp: dropWhile_eq_Nil_conv block_key_def)
      have big: "bl_size (bp_blocks p ! c) \<le> bl_size (bp_blocks p ! last (bp_free p))" if "c \<in> set (bp_free p)" for c
      proof -
        have f: "bp_free p = butlast (bp_free p) @ [last (bp_free p)]" using False by simp
        have "sorted_wrt (\<lambda>b c. bl_less (?k b) (?k c)) (butlast (bp_free p) @ [last (bp_free p)])"
          using assms f by (simp add: free_ordered_def)
        then have "c \<in> set (butlast (bp_free p)) \<Longrightarrow> bl_less (?k c) (?k (last (bp_free p)))"
          by (auto simp: sorted_wrt_append)
        moreover have "c \<in> set (butlast (bp_free p)) \<or> c = last (bp_free p)" using that f by (metis UnE empty_iff list.set set_append singletonD)
        ultimately show ?thesis using bl_less_size(2) by (fastforce simp: block_key_def)
      qed
      obtain blk m where r: "bl_Resize alloc dealloc n (bp_blocks p ! last (bp_free p)) (bp_mem p) = (blk, m)"
        by (cases "bl_Resize alloc dealloc n (bp_blocks p ! last (bp_free p)) (bp_mem p)")
      show thesis
        using largest [OF refl False _ r] small big r Nil False assms by (simp add: bp_Alloc_def Let_def key)
    qed
  qed
qed

text \<open>What a call of \<open>Alloc\<close> leaves behind.\<close>

definition alloc_post ::
  "(block_ptr \<Rightarrow> addr) \<Rightarrow> int \<Rightarrow> block_ptr \<Rightarrow> 'm block_pool \<Rightarrow> 'm block_pool \<Rightarrow> bool" where
  "alloc_post place n b p p' \<longleftrightarrow>
     bp_inv place p' \<and> b \<notin> set (bp_allocated p) \<and> bp_allocated p' = b # bp_allocated p \<and>
     n \<le> bl_size (bp_blocks p' ! b) \<and>
     (\<forall>c<length (bp_blocks p). c \<noteq> b \<longrightarrow> bp_blocks p' ! c = bp_blocks p ! c) \<and>
     (bp_free p \<noteq> [] \<longrightarrow> length (bp_blocks p') = length (bp_blocks p)) \<and>
     (\<forall>c\<in>set (bp_free p). n \<le> bl_size (bp_blocks p ! c) \<longrightarrow> bp_mem p' = bp_mem p) \<and>
     (\<forall>c\<in>set (bp_free p). n < bl_size (bp_blocks p ! c) \<longrightarrow> bl_size (bp_blocks p' ! b) \<le> bl_size (bp_blocks p ! c))"

lemma bp_Alloc_post:
  assumes inv: "bp_inv place p"
  shows "\<exists>b p'. bp_Alloc place alloc dealloc ka n dev p = ret b p' \<and> alloc_post place n b p p'"
proof -
  have ord: "free_ordered place p" and dist: "distinct (bp_free p)"
    using inv free_ordered_distinct by (auto simp: bp_inv_def)
  from ord show ?thesis
  proof (cases rule: bp_Alloc_cases [where n = n and ka = ka and alloc = alloc and dealloc = dealloc and dev = dev])
    case (fit b)
    have "free_ordered place (p\<lparr>bp_free := remove1 b (bp_free p), bp_allocated := List.insert b (bp_allocated p)\<rparr>)"
      using ord by (simp add: free_ordered_def sorted_wrt_remove1)
    then show ?thesis using fit inv dist by (auto simp: alloc_post_def bp_inv_def List.insert_def)
  next
    case (largest b blk m)
    let ?p = "p\<lparr>bp_blocks := (bp_blocks p)[b := blk], bp_free := butlast (bp_free p),
      bp_allocated := List.insert b (bp_allocated p), bp_mem := m\<rparr>"
    have b: "b \<in> set (bp_free p)" "b \<notin> set (butlast (bp_free p))"
      using largest(1,2) dist by (auto simp: distinct_butlast dest: last_in_set)
         (metis append_butlast_last_id distinct_append disjoint_insert(1) list.set(2))
    have keep: "bp_blocks ?p ! c = bp_blocks p ! c" if "c \<noteq> b" for c using that by simp
    have ob: "free_ordered place ?p"
      by (rule free_ordered_cong [of "butlast (bp_free p)" ?p p])
        (use ord b in \<open>auto simp: free_ordered_def sorted_wrt_butlast nth_upd\<close>)
    have inv': "bp_inv place ?p"
      using ob inv b by (auto simp: bp_inv_def List.insert_def dest: in_set_butlastD)
    have sz: "bl_size blk = max n (bl_size (bp_blocks p ! b))" by (rule bl_Resize_size [OF largest(4)])
    have blt: "b < length (bp_blocks p)" "b \<notin> set (bp_allocated p)" using inv b(1) by (auto simp: bp_inv_def)
    have mem: "m = bp_mem p" if "c \<in> set (bp_free p)" "n \<le> bl_size (bp_blocks p ! c)" for c
    proof -
      have "n \<le> bl_size (bp_blocks p ! b)" using largest(3) [OF that(1)] that(2) by linarith
      then show ?thesis using largest(4) by (simp add: bl_Resize_enough)
    qed
    have none: "\<not> n < bl_size (bp_blocks p ! c)" if "c \<in> set (bp_free p)" for c using largest(3) [OF that] by simp
    show ?thesis
      using largest(5) inv' sz blt mem none by (auto simp: alloc_post_def List.insert_def)
  next
    case (new blk m)
    let ?b = "length (bp_blocks p)"
    have fresh: "?b \<notin> set (bp_allocated p)" using inv by (auto simp: bp_inv_def)
    have "bl_size blk = max n 0"
      using bl_Resize_size [OF new(2) [unfolded BlockImpl_new_def Let_def, simplified]] by simp
    then show ?thesis
      using new(1,3) inv fresh
      by (auto simp: alloc_post_def bp_inv_def List.insert_def free_ordered_def nth_append less_Suc_eq)
  qed
qed

text \<open>Giving a block back.\<close>

lemma free_insert_sorted:
  assumes ord: "free_ordered place p" and inj: "inj place" and new: "b \<notin> set (bp_free p)"
  shows "set (free_insert place b p) = insert b (set (bp_free p))"
    "sorted_wrt (\<lambda>b c. bl_less (block_key place (bp_blocks p) b) (block_key place (bp_blocks p) c)) (free_insert place b p)"
proof -
  let ?k = "block_key place (bp_blocks p)"
  let ?P = "\<lambda>c. bl_less (?k c) (?k b)"
  let ?lo = "takeWhile ?P (bp_free p)" and ?up = "dropWhile ?P (bp_free p)"
  have split: "?lo @ ?up = bp_free p" by simp
  have sorted: "sorted_wrt (\<lambda>b c. bl_less (?k b) (?k c)) (?lo @ ?up)" using ord by (simp add: free_ordered_def)
  have lo: "bl_less (?k c) (?k b)" if "c \<in> set ?lo" for c using that by (auto dest: set_takeWhileD)
  have hd: "bl_less (?k b) (?k (hd ?up))" if "?up \<noteq> []"
  proof -
    have "hd ?up \<noteq> b" using that new by (metis hd_in_set set_dropWhileD)
    then have "?k (hd ?up) \<noteq> ?k b" using inj by (auto simp: block_key_def inj_eq)
    then show ?thesis using hd_dropWhile [OF that] bl_less_total by blast
  qed
  have up: "bl_less (?k b) (?k c)" if "c \<in> set ?up" for c
  proof (cases ?up)
    case (Cons d ds)
    then show ?thesis using that hd sorted by (auto simp: sorted_wrt_append intro: bl_less_trans)
  next
    case Nil
    then show ?thesis using that by (simp only: Nil list.set empty_iff)
  qed
  have eq: "free_insert place b p = ?lo @ b # ?up"
  proof (cases ?up)
    case Nil
    then have "?lo = bp_free p" using split by (metis append_Nil2)
    then show ?thesis by (simp add: free_insert_def Let_def Nil del: dropWhile_eq_Nil_conv)
  next
    case (Cons d ds)
    then have "bl_less (?k b) (?k d)" using hd by (metis list.sel(1) list.simps(3))
    then show ?thesis using Cons by (simp add: free_insert_def Let_def)
  qed
  have "set (bp_free p) = set ?lo \<union> set ?up" using split by (metis set_append)
  then show "set (free_insert place b p) = insert b (set (bp_free p))" by (simp add: eq)
  show "sorted_wrt (\<lambda>b c. bl_less (?k b) (?k c)) (free_insert place b p)"
    unfolding eq using sorted lo up by (auto simp: sorted_wrt_append intro: bl_less_trans)
qed

lemma bp_Free_ok:
  assumes inv: "bp_inv place p" and inj: "inj place" and b: "b \<in> set (bp_allocated p)"
  shows "\<exists>p'. bp_Free place (Some b) p = ret () p' \<and> bp_inv place p' \<and> bp_blocks p' = bp_blocks p \<and>
    set (bp_allocated p') = set (bp_allocated p) - {b} \<and> set (bp_free p') = insert b (set (bp_free p))"
proof -
  have ord: "free_ordered place p" and dist: "distinct (bp_allocated p)" and new: "b \<notin> set (bp_free p)"
    using inv b by (auto simp: bp_inv_def)
  note ins = free_insert_sorted [OF ord inj new]
  have "bp_inv place (p\<lparr>bp_allocated := remove1 b (bp_allocated p), bp_free := free_insert place b p\<rparr>)"
    using inv b ins dist by (auto simp: bp_inv_def free_ordered_def)
  then show ?thesis using b ord ins(1) dist by (simp add: bp_Free_def)
qed

section \<open>Invariant of the assignment\<close>

text \<open>The blocks that are in use: those of bound tensors not yet given back.\<close>

definition in_use :: "'m binding \<Rightarrow> tensor_ptr \<Rightarrow> block_ptr option" where
  "in_use st t =
     (if t \<in> set (bn_binded st) \<and> 0 \<le> (case map_of (bn_vis st) t of None \<Rightarrow> -1 | Some n \<Rightarrow> n) then map_of (bn_block st) t else None)"

definition binding_inv ::
  "(block_ptr \<Rightarrow> addr) \<Rightarrow> (tensor_ptr \<Rightarrow> string) \<Rightarrow> block_ptr set \<Rightarrow> tensor_ptr list \<Rightarrow> 'm binding \<Rightarrow> bool" where
  "binding_inv place name A todo st \<longleftrightarrow>
     bp_inv place (bn_pool st) \<and> wf_map (bn_vis st) \<and>
     (\<forall>t n. map_of (bn_vis st) t = Some n \<longrightarrow> (t \<notin> set (bn_binded st) \<longrightarrow> 0 < n) \<and>
        (\<not> checknoused (name t) \<longrightarrow> n = int (count_list todo t) \<or> n = -1 \<and> t \<notin> set todo)) \<and>
     (\<forall>t\<in>set todo. map_of (bn_vis st) t \<noteq> None) \<and>
     (\<forall>t\<in>set (bn_binded st). \<not> checknoused (name t) \<and> map_of (bn_block st) t \<noteq> None) \<and>
     inj_on (in_use st) (dom (in_use st)) \<and> ran (in_use st) \<inter> A = {} \<and>
     set (bp_allocated (bn_pool st)) = A \<union> ran (in_use st)"

lemma inj_on_dom_upd: "inj_on f (dom f) \<Longrightarrow> b \<notin> ran f \<Longrightarrow> inj_on (f(t \<mapsto> b)) (dom (f(t \<mapsto> b)))"
  by (auto simp: inj_on_def ran_def dom_def)

lemma inj_on_dom_del: "inj_on f (dom f) \<Longrightarrow> inj_on (f(t := None)) (dom (f(t := None)))"
  by (auto simp: inj_on_def dom_def)

lemma ran_del: "inj_on f (dom f) \<Longrightarrow> f t = Some b \<Longrightarrow> ran (f(t := None)) = ran f - {b}"
  by (auto simp: ran_def inj_on_def dom_def) (metis option.inject)+

text \<open>A bound tensor that is still to be visited is in use.\<close>

lemma in_use_todo:
  assumes "binding_inv place name A todo st" "t \<in> set (bn_binded st)" "t \<in> set todo"
  shows "in_use st t = map_of (bn_block st) t" "map_of (bn_block st) t \<noteq> None"
proof -
  obtain n where n: "map_of (bn_vis st) t = Some n" using assms(1,3) by (auto simp: binding_inv_def)
  have "n = int (count_list todo t)"
    using assms n by (auto simp: binding_inv_def simp del: map_of_eq_Some_iff)
  then show "in_use st t = map_of (bn_block st) t" using n assms(2) by (simp add: in_use_def)
  show "map_of (bn_block st) t \<noteq> None" using assms(1,2) by (simp add: binding_inv_def)
qed

lemma map_get_Some [simp]: "map_of m k = Some n \<Longrightarrow> map_get m k = n" by (simp add: map_get_def)

lemma block_key_bind [simp]: "block_key place (bs[b := bl_BindTensor t (bs ! b)]) = block_key place bs"
  by (rule ext) (auto simp: block_key_def nth_upd bl_BindTensor_def)

lemma BindingBlock_pool_inv:
  "bp_inv place (bn_pool st) \<Longrightarrow> bp_inv place (bn_pool (BindingBlock t b st))"
  by (simp add: bp_inv_def BindingBlock_def free_ordered_def)

lemma binding_inv_count:
  assumes "binding_inv place name A todo st" "\<not> checknoused (name t)" "map_of (bn_vis st) t = Some n"
  shows "n = int (count_list todo t) \<or> n = -1 \<and> t \<notin> set todo"
  using assms unfolding binding_inv_def by blast

text \<open>The effect of one visit on the blocks in use.\<close>

lemma in_use_upd:
  "map_of (bn_vis st) t = Some n \<Longrightarrow> 0 < n \<Longrightarrow>
   in_use (st\<lparr>bn_vis := AList.update t (n - 1) (bn_vis st)\<rparr>) = in_use st"
  by (rule ext) (auto simp: in_use_def)

lemma in_use_done:
  "in_use (st\<lparr>bn_pool := p, bn_vis := AList.update t (-1) (bn_vis st)\<rparr>) = (in_use st)(t := None)"
  by (rule ext) (auto simp: in_use_def)

lemma in_use_bind:
  assumes "t \<notin> set (bn_binded st)" "map_of (bn_vis st) t = Some n" "0 < n"
  shows "in_use ((BindingBlock t b (st\<lparr>bn_pool := p\<rparr>))\<lparr>bn_binded := t # bn_binded st\<rparr>) = (in_use st)(t \<mapsto> b)"
  using assms by (intro ext) (auto simp: in_use_def BindingBlock_def)

lemma binding_inv_vis:
  assumes "binding_inv place name A (t # todo) st" "\<not> checknoused (name t)" "t \<in> set (bn_binded st)"
    and "map_of (bn_vis st) t = Some n"
  shows "binding_inv place name A todo (st\<lparr>bn_vis := AList.update t (n - 1) (bn_vis st)\<rparr>)"
proof -
  have n: "n = int (count_list todo t) + 1"
    using binding_inv_count [OF assms(1,2,4)] by simp
  show ?thesis
    unfolding binding_inv_def
    using assms in_use_upd [OF assms(4)] n
    by (auto simp: binding_inv_def simp del: map_of_eq_Some_iff split: if_splits)
qed

lemma binding_inv_bind:
  assumes inv: "binding_inv place name A todo st" and t: "\<not> checknoused (name t)" "t \<notin> set (bn_binded st)"
    "map_of (bn_vis st) t = Some n"
    and a: "alloc_post place k b (bn_pool st) p"
  shows "binding_inv place name A todo ((BindingBlock t b (st\<lparr>bn_pool := p\<rparr>))\<lparr>bn_binded := t # bn_binded st\<rparr>)"
    (is "binding_inv _ _ _ _ ?st")
proof -
  have pos: "0 < n" using inv t by (auto simp: binding_inv_def simp del: map_of_eq_Some_iff)
  have use: "in_use ?st = (in_use st)(t \<mapsto> b)" by (rule in_use_bind [OF t(2,3) pos])
  have fresh: "b \<notin> A" "b \<notin> ran (in_use st)" using inv a by (auto simp: binding_inv_def alloc_post_def)
  have t0: "in_use st t = None" using t(2) by (simp add: in_use_def)
  have pool: "bp_inv place (bn_pool ?st)" "bp_allocated (bn_pool ?st) = b # bp_allocated (bn_pool st)"
    using a BindingBlock_pool_inv [of place "st\<lparr>bn_pool := p\<rparr>"] by (auto simp: alloc_post_def BindingBlock_def)
  have vis: "bn_vis ?st = bn_vis st" "bn_binded ?st = t # bn_binded st"
    "map_of (bn_block ?st) = (map_of (bn_block st))(t \<mapsto> b)" by (simp_all add: BindingBlock_def)
  have "inj_on (in_use st) (dom (in_use st))" using inv by (simp add: binding_inv_def)
  then have i: "inj_on (in_use ?st) (dom (in_use ?st))" "ran (in_use ?st) = insert b (ran (in_use st))"
    unfolding use using inj_on_dom_upd [OF _ fresh(2)] ran_map_upd [where m = "in_use st" and a = t and b = b] t0
    by blast+
  show ?thesis
    unfolding binding_inv_def vis i(2) using pool i(1) inv t fresh
    by (auto simp: binding_inv_def simp del: map_of_eq_Some_iff)
qed

text \<open>One visit, and all visits of a step.\<close>

definition binding_grows :: "'m binding \<Rightarrow> 'm binding \<Rightarrow> bool" where
  "binding_grows st st' \<longleftrightarrow>
     set (bn_binded st) \<subseteq> set (bn_binded st') \<and>
     (\<forall>t\<in>set (bn_binded st). map_of (bn_block st') t = map_of (bn_block st) t)"

lemma binding_grows_trans: "binding_grows r s \<Longrightarrow> binding_grows s t \<Longrightarrow> binding_grows r t"
  by (auto simp: binding_grows_def)

lemma binding_grows_refl [simp]: "binding_grows s s" by (simp add: binding_grows_def)

lemma bind_visit_ok:
  assumes inv: "binding_inv place name A (t # todo) st"
  shows "\<exists>st'. bind_visit place alloc dealloc keys dev name t st = ret () st' \<and>
    binding_inv place name A todo st' \<and> binding_grows st st' \<and> dom (in_use st) \<subseteq> dom (in_use st') \<and>
    (\<not> checknoused (name t) \<longrightarrow> t \<in> dom (in_use st'))"
proof (cases "checknoused (name t)")
  case True
  have "count_list todo u = count_list (t # todo) u" if "\<not> checknoused (name u)" for u using that True by auto
  then have "binding_inv place name A todo st"
    using inv by (auto simp: binding_inv_def simp del: map_of_eq_Some_iff split: if_splits)
  then show ?thesis using True by (simp add: bind_visit_def)
next
  case False
  obtain n where n: "map_of (bn_vis st) t = Some n" using inv by (auto simp: binding_inv_def)
  have pos: "0 < n" using binding_inv_count [OF inv False n] by simp
  have step: "\<exists>st'. binding_inv place name A todo st' \<and> dom (in_use s1) \<subseteq> dom (in_use st') \<and> t \<in> dom (in_use st') \<and>
      binding_grows s1 st' \<and> st' = s1\<lparr>bn_vis := AList.update t (n - 1) (bn_vis s1)\<rparr>"
    if i: "binding_inv place name A (t # todo) s1" and m: "map_of (bn_vis s1) t = Some n" "t \<in> set (bn_binded s1)" for s1
    using binding_inv_vis [OF i False m(2,1)] in_use_upd [OF m(1) pos] in_use_todo [OF i m(2)]
    by (auto simp: binding_grows_def)
  show ?thesis
  proof (cases "t \<in> set (bn_binded st)")
    case True
    then show ?thesis using step [OF inv n] False n by (auto simp: bind_visit_def)
  next
    case new: False
    have "bp_inv place (bn_pool st)" using inv by (simp add: binding_inv_def)
    then obtain b p where a: "bp_Alloc place alloc dealloc (keys (length (bn_binded st))) 0 dev (bn_pool st) = ret b p"
      "alloc_post place 0 b (bn_pool st) p" using bp_Alloc_post by blast
    let ?s = "(BindingBlock t b (st\<lparr>bn_pool := p\<rparr>))\<lparr>bn_binded := t # bn_binded st\<rparr>"
    have s: "map_of (bn_vis ?s) t = Some n" "t \<in> set (bn_binded ?s)" using n by (simp_all add: BindingBlock_def)
    have g: "binding_grows st ?s" "dom (in_use st) \<subseteq> dom (in_use ?s)"
      using new in_use_bind [OF new n pos] by (auto simp: binding_grows_def BindingBlock_def)
    from step [OF binding_inv_bind [OF inv False new n a(2)] s] show ?thesis
      using False new a(1) g s(1) by (auto simp: bind_visit_def intro: binding_grows_trans)
  qed
qed

lemma bind_visits_ok:
  assumes "binding_inv place name A (ts @ todo) st"
  shows "\<exists>st'. forEach (bind_visit place alloc dealloc keys dev name) ts st = ret () st' \<and>
    binding_inv place name A todo st' \<and> binding_grows st st' \<and> dom (in_use st) \<subseteq> dom (in_use st') \<and>
    (\<forall>t\<in>set ts. \<not> checknoused (name t) \<longrightarrow> t \<in> dom (in_use st'))"
  using assms
proof (induction ts arbitrary: st)
  case (Cons t ts)
  have "binding_inv place name A (t # (ts @ todo)) st" using Cons.prems by simp
  from bind_visit_ok [OF this] obtain s1 where s1:
    "bind_visit place alloc dealloc keys dev name t st = ret () s1"
    "binding_inv place name A (ts @ todo) s1" "binding_grows st s1" "dom (in_use st) \<subseteq> dom (in_use s1)"
    "\<not> checknoused (name t) \<longrightarrow> t \<in> dom (in_use s1)" by blast
  from Cons.IH [OF s1(2)] obtain s2 where s2:
    "forEach (bind_visit place alloc dealloc keys dev name) ts s1 = ret () s2"
    "binding_inv place name A todo s2" "binding_grows s1 s2" "dom (in_use s1) \<subseteq> dom (in_use s2)"
    "\<forall>t\<in>set ts. \<not> checknoused (name t) \<longrightarrow> t \<in> dom (in_use s2)" by blast
  have "binding_grows st s2" using s1(3) s2(3) by (rule binding_grows_trans)
  then show ?case using s1 s2 by auto
qed simp

text \<open>The release of the blocks that are no longer needed.\<close>

lemma release_done_ok:
  assumes inv: "binding_inv place name A todo st" and inj: "inj place" and m: "map_of (bn_vis st) t = Some n"
  shows "\<exists>st'. release_done place (t, n) st = ret () st' \<and> binding_inv place name A todo st' \<and>
    bn_binded st' = bn_binded st \<and> bn_block st' = bn_block st \<and>
    map_of (bn_vis st') = (map_of (bn_vis st))(t \<mapsto> if n = 0 then -1 else n)"
proof (cases "n = 0")
  case True
  have b: "t \<in> set (bn_binded st)" using inv m True unfolding binding_inv_def by fastforce
  then have nt: "\<not> checknoused (name t)" using inv by (simp add: binding_inv_def)
  have t0: "t \<notin> set todo"
    using binding_inv_count [OF inv nt m] True by (auto simp: count_list_0_iff)
  obtain c where c: "map_of (bn_block st) t = Some c" using inv b by (auto simp: binding_inv_def)
  have use: "in_use st t = Some c" using b m True c by (simp add: in_use_def)
  have "bp_inv place (bn_pool st)" "c \<in> set (bp_allocated (bn_pool st))"
    using inv use by (auto simp: binding_inv_def ran_def)
  from bp_Free_ok [OF this(1) inj this(2)] obtain p where
    p: "bp_Free place (Some c) (bn_pool st) = ret () p" "bp_inv place p"
      "set (bp_allocated p) = set (bp_allocated (bn_pool st)) - {c}" by blast
  let ?s = "st\<lparr>bn_pool := p, bn_vis := AList.update t (-1) (bn_vis st)\<rparr>"
  have inj_use: "inj_on (in_use st) (dom (in_use st))" and cA: "c \<notin> A"
    using inv use by (auto simp: binding_inv_def ran_def)
  have i: "inj_on (in_use ?s) (dom (in_use ?s))" "ran (in_use ?s) = ran (in_use st) - {c}"
    unfolding in_use_done using inj_on_dom_del [OF inj_use] ran_del [of "in_use st" t c] inj_use use by blast+
  have "binding_inv place name A todo ?s"
    unfolding binding_inv_def i(2) using i(1) p inv b t0 nt cA
    by (auto simp: binding_inv_def simp del: map_of_eq_Some_iff)
  then show ?thesis using p(1) c True by (simp add: release_done_def)
qed (use inv m in \<open>auto simp: release_done_def fun_upd_idem\<close>)

lemma release_all_ok:
  assumes inv: "binding_inv place name A todo st" and inj: "inj place"
    and its: "wf_map its" "\<And>t n. (t, n) \<in> set its \<Longrightarrow> map_of (bn_vis st) t = Some n"
  shows "\<exists>st'. forEach (release_done place) its st = ret () st' \<and> binding_inv place name A todo st' \<and>
    bn_binded st' = bn_binded st \<and> bn_block st' = bn_block st \<and>
    (\<forall>t n. map_of (bn_vis st') t = Some n \<and> t \<in> fst ` set its \<longrightarrow> n \<noteq> 0) \<and>
    (\<forall>t. t \<notin> fst ` set its \<longrightarrow> map_of (bn_vis st') t = map_of (bn_vis st) t)"
  using inv its
proof (induction its arbitrary: st)
  case (Cons it its)
  obtain t n where it: "it = (t, n)" by (cases it)
  have "map_of (bn_vis st) t = Some n" using Cons.prems(3) it by simp
  from release_done_ok [OF Cons.prems(1) inj this] obtain s1 where s1:
    "release_done place (t, n) st = ret () s1" "binding_inv place name A todo s1"
    "bn_binded s1 = bn_binded st" "bn_block s1 = bn_block st"
    "map_of (bn_vis s1) = (map_of (bn_vis st))(t \<mapsto> if n = 0 then -1 else n)" by blast
  have new: "t \<notin> fst ` set its" "wf_map its" using Cons.prems(2) it by auto
  have "map_of (bn_vis s1) u = Some k" if "(u, k) \<in> set its" for u k
    using s1(5) Cons.prems(3) [of u k] new(1) that by force
  from Cons.IH [OF s1(2) new(2) this] obtain s2 where s2:
    "forEach (release_done place) its s1 = ret () s2" "binding_inv place name A todo s2"
    "bn_binded s2 = bn_binded s1" "bn_block s2 = bn_block s1"
    "\<forall>t n. map_of (bn_vis s2) t = Some n \<and> t \<in> fst ` set its \<longrightarrow> n \<noteq> 0"
    "\<forall>t. t \<notin> fst ` set its \<longrightarrow> map_of (bn_vis s2) t = map_of (bn_vis s1) t" by blast
  have "map_of (bn_vis s2) t = Some (if n = 0 then -1 else n)" using s2(6) new(1) s1(5) by simp
  then show ?case using it s1 s2 by (auto split: if_splits)
qed simp

section \<open>Tensors that live together\<close>

text \<open>A tensor is live at a step when the step lies between its first and its last visit.\<close>

definition live_at :: "tensor_ptr list list \<Rightarrow> tensor_ptr \<Rightarrow> nat \<Rightarrow> bool" where
  "live_at visit_list t i \<longleftrightarrow>
     list_ex (\<lambda>ts. t \<in> set ts) (take (Suc i) visit_list) \<and> list_ex (\<lambda>ts. t \<in> set ts) (drop i visit_list)"

definition kept_apart :: "'m binding \<Rightarrow> tensor_ptr \<Rightarrow> tensor_ptr \<Rightarrow> bool" where
  "kept_apart st t u \<longleftrightarrow>
     (case (map_of (bn_block st) t, map_of (bn_block st) u) of (Some b, Some c) \<Rightarrow> b \<noteq> c | _ \<Rightarrow> False)"

lemma in_use_apart:
  assumes "binding_inv place name A todo st" "t \<in> dom (in_use st)" "u \<in> dom (in_use st)" "t \<noteq> u"
  shows "kept_apart st t u"
proof -
  obtain b c where "in_use st t = Some b" "in_use st u = Some c" using assms(2,3) by auto
  moreover have "in_use st t \<noteq> in_use st u"
    using assms unfolding binding_inv_def inj_on_def by blast
  ultimately show ?thesis by (auto simp: kept_apart_def in_use_def split: if_splits)
qed

lemma kept_apart_grows:
  "kept_apart st t u \<Longrightarrow> t \<in> set (bn_binded st) \<Longrightarrow> u \<in> set (bn_binded st) \<Longrightarrow> binding_grows st st' \<Longrightarrow> kept_apart st' t u"
  by (auto simp: kept_apart_def binding_grows_def)

lemma in_use_binded: "dom (in_use st) \<subseteq> set (bn_binded st)"
  by (auto simp: in_use_def split: if_splits)

definition no_zero :: "'m binding \<Rightarrow> bool" where
  "no_zero st \<longleftrightarrow> (\<forall>t n. map_of (bn_vis st) t = Some n \<longrightarrow> n \<noteq> 0)"

definition live_from :: "tensor_ptr set \<Rightarrow> tensor_ptr list list \<Rightarrow> tensor_ptr \<Rightarrow> nat \<Rightarrow> bool" where
  "live_from B visit_list t i \<longleftrightarrow>
     (t \<in> B \<or> list_ex (\<lambda>ts. t \<in> set ts) (take (Suc i) visit_list)) \<and> list_ex (\<lambda>ts. t \<in> set ts) (drop i visit_list)"

lemma bind_step_ok:
  assumes inj: "inj place" and inv: "binding_inv place name A (ts @ todo) st"
  shows "\<exists>s1 s2. bind_step place alloc dealloc keys dev name ts st = ret () s2 \<and>
    binding_inv place name A todo s1 \<and> binding_inv place name A todo s2 \<and> no_zero s2 \<and>
    binding_grows st s1 \<and> bn_binded s2 = bn_binded s1 \<and> bn_block s2 = bn_block s1 \<and>
    dom (in_use st) \<subseteq> dom (in_use s1) \<and> (\<forall>t\<in>set ts. \<not> checknoused (name t) \<longrightarrow> t \<in> dom (in_use s1))"
proof -
  from bind_visits_ok [OF inv] obtain s1 where s1:
    "forEach (bind_visit place alloc dealloc keys dev name) ts st = ret () s1"
    "binding_inv place name A todo s1" "binding_grows st s1" "dom (in_use st) \<subseteq> dom (in_use s1)"
    "\<forall>t\<in>set ts. \<not> checknoused (name t) \<longrightarrow> t \<in> dom (in_use s1)" by blast
  have wf: "wf_map (bn_vis s1)" using s1(2) by (simp add: binding_inv_def)
  from release_all_ok [OF s1(2) inj wf] obtain s2 where s2:
    "forEach (release_done place) (bn_vis s1) s1 = ret () s2" "binding_inv place name A todo s2"
    "bn_binded s2 = bn_binded s1" "bn_block s2 = bn_block s1"
    "\<forall>t n. map_of (bn_vis s2) t = Some n \<and> t \<in> fst ` set (bn_vis s1) \<longrightarrow> n \<noteq> 0"
    "\<forall>t. t \<notin> fst ` set (bn_vis s1) \<longrightarrow> map_of (bn_vis s2) t = map_of (bn_vis s1) t" using wf by auto
  have "no_zero s2"
    unfolding no_zero_def using s2(5,6) by (metis map_of_eq_None_iff option.distinct(1))
  moreover have "bind_step place alloc dealloc keys dev name ts st = ret () s2"
    using s1(1) s2(1) by (simp add: bind_step_def)
  ultimately show ?thesis using s1 s2 by blast
qed

lemma bind_steps_ok:
  assumes inj: "inj place" and "binding_inv place name A (concat vl) st" "no_zero st"
  shows "\<exists>st'. forEach (bind_step place alloc dealloc keys dev name) vl st = ret () st' \<and>
    binding_inv place name A [] st' \<and> no_zero st' \<and> binding_grows st st' \<and>
    (\<forall>i t u. t \<noteq> u \<and> i < length vl \<and> \<not> checknoused (name t) \<and> \<not> checknoused (name u) \<and>
       live_from (set (bn_binded st)) vl t i \<and> live_from (set (bn_binded st)) vl u i \<longrightarrow> kept_apart st' t u)"
  using assms(2,3)
proof (induction vl arbitrary: st)
  case (Cons ts vl)
  have inv: "binding_inv place name A (ts @ concat vl) st" using Cons.prems(1) by simp
  from bind_step_ok [OF inj inv] obtain s1 s2 where s:
    "bind_step place alloc dealloc keys dev name ts st = ret () s2"
    "binding_inv place name A (concat vl) s1" "binding_inv place name A (concat vl) s2" "no_zero s2"
    "binding_grows st s1" "bn_binded s2 = bn_binded s1" "bn_block s2 = bn_block s1"
    "dom (in_use st) \<subseteq> dom (in_use s1)" "\<forall>t\<in>set ts. \<not> checknoused (name t) \<longrightarrow> t \<in> dom (in_use s1)" by blast
  from Cons.IH [OF s(3,4)] obtain s3 where s3:
    "forEach (bind_step place alloc dealloc keys dev name) vl s2 = ret () s3"
    "binding_inv place name A [] s3" "no_zero s3" "binding_grows s2 s3"
    "\<And>i t u. t \<noteq> u \<Longrightarrow> i < length vl \<Longrightarrow> \<not> checknoused (name t) \<Longrightarrow> \<not> checknoused (name u) \<Longrightarrow>
       live_from (set (bn_binded s2)) vl t i \<Longrightarrow> live_from (set (bn_binded s2)) vl u i \<Longrightarrow> kept_apart s3 t u" by blast
  have g: "binding_grows s1 s3" using s(6,7) s3(4) by (simp add: binding_grows_def)
  have now: "t \<in> dom (in_use s1)" if "live_from (set (bn_binded st)) (ts # vl) t 0" "\<not> checknoused (name t)" for t
  proof (cases "t \<in> set ts")
    case False
    then have "t \<in> set (bn_binded st)" "t \<in> set (ts @ concat vl)"
      using that(1) by (auto simp: live_from_def list_ex_iff)
    then show ?thesis using in_use_todo [OF inv] s(8) by (metis domIff subsetD)
  qed (use s(9) that(2) in blast)
  have later: "live_from (set (bn_binded s2)) vl t j"
    if "live_from (set (bn_binded st)) (ts # vl) t (Suc j)" "\<not> checknoused (name t)" for t j
    using that s(5,6,9) in_use_binded [of s1] by (auto simp: live_from_def binding_grows_def)
  have "kept_apart s3 t u" if h: "t \<noteq> u" "i < length (ts # vl)" "\<not> checknoused (name t)" "\<not> checknoused (name u)"
    "live_from (set (bn_binded st)) (ts # vl) t i" "live_from (set (bn_binded st)) (ts # vl) u i" for i t u
  proof (cases i)
    case 0
    have d: "t \<in> dom (in_use s1)" "u \<in> dom (in_use s1)" using now h 0 by blast+
    show ?thesis
      using in_use_apart [OF s(2) d h(1)] in_use_binded [of s1] d g by (blast intro: kept_apart_grows)
  next
    case (Suc j)
    then show ?thesis using s3(5) [OF h(1) _ h(3,4) later later] h by simp
  qed
  then show ?case using s(1) s3(1-3) binding_grows_trans [OF s(5) g] by auto
qed simp

lemma count_visits_map:
  "map_of (count_visits ts vis) t =
     (if t \<in> set ts then Some (map_get vis t + int (count_list ts t)) else map_of vis t)"
  by (induction ts arbitrary: vis) (auto simp: map_get_def)

lemma count_visits_wf: "wf_map vis \<Longrightarrow> wf_map (count_visits ts vis)"
  by (induction ts arbitrary: vis) auto

section \<open>Properties\<close>

text \<open>
  C22: \<open>binding_with_algo_0\<close> over a well-formed pool always succeeds, gives back every block it took,
  and binds two different tensors that are live at the same step (and may share memory at all) to two
  different blocks. Blocks in the pool at the same time are objects at different addresses.
\<close>

theorem binding_with_algo_0_apart:
  assumes "inj place" "bp_inv place pool"
  shows "\<exists>st. binding_with_algo_0 place alloc dealloc keys dev name visit_list blocks pool = ret () st \<and>
    bp_inv place (bn_pool st) \<and> set (bp_allocated (bn_pool st)) = set (bp_allocated pool) \<and>
    (\<forall>t u i. t \<noteq> u \<and> \<not> checknoused (name t) \<and> \<not> checknoused (name u) \<and> i < length visit_list \<and>
       live_at visit_list t i \<and> live_at visit_list u i \<longrightarrow> kept_apart st t u)"
proof -
  let ?st = "\<lparr>bn_pool = pool, bn_block = blocks, bn_vis = count_visits (concat visit_list) [], bn_binded = []\<rparr>"
  have "in_use ?st = (\<lambda>_. None)" by (rule ext) (simp add: in_use_def)
  then have inv: "binding_inv place name (set (bp_allocated pool)) (concat visit_list) ?st"
    using assms(2) by (auto simp: binding_inv_def count_visits_map count_visits_wf map_get_def count_list_0_iff
        simp del: map_of_eq_Some_iff intro: gr0I)
  have nz: "no_zero ?st" by (auto simp: no_zero_def count_visits_map map_get_def count_list_0_iff)
  from bind_steps_ok [OF assms(1) inv nz, where alloc = alloc and dealloc = dealloc and keys = keys and dev = dev]
  obtain st where
    st: "binding_with_algo_0 place alloc dealloc keys dev name visit_list blocks pool = ret () st"
      "binding_inv place name (set (bp_allocated pool)) [] st" "no_zero st"
    and apart: "\<And>i t u. t \<noteq> u \<and> i < length visit_list \<and> \<not> checknoused (name t) \<and> \<not> checknoused (name u) \<and>
       live_from {} visit_list t i \<and> live_from {} visit_list u i \<Longrightarrow> kept_apart st t u"
    unfolding binding_with_algo_0_def by auto
  have "in_use st t = None" for t
  proof (cases "t \<in> set (bn_binded st)")
    case True
    then have nt: "\<not> checknoused (name t)" using st(2) by (simp add: binding_inv_def)
    show ?thesis
      using binding_inv_count [OF st(2) nt] st(3) by (auto simp: in_use_def no_zero_def split: option.splits)
  qed (simp add: in_use_def)
  then have "ran (in_use st) = {}" by (auto simp: ran_def)
  then show ?thesis
    using st(1,2) apart by (auto simp: binding_inv_def live_at_def live_from_def)
qed

definition empty_pool :: "unit block_pool" where
  "empty_pool = \<lparr>bp_blocks = [], bp_free = [], bp_allocated = [], bp_mem = ()\<rparr>"

lemma empty_pool_inv: "bp_inv place empty_pool"
  by (simp add: bp_inv_def empty_pool_def free_ordered_def)

theorem binding_with_algo_0_apart_witness:
  "\<exists>st. binding_with_algo_0 id (\<lambda>n m. (Some 64, m)) (\<lambda>a m. (ALLSPARK_SUCCESS, m)) (\<lambda>n. 0) 0 (\<lambda>t. ''x'')
      [[0, 1], [1, 2], [2, 3]] [] empty_pool = ret () st \<and> kept_apart st 0 1 \<and> kept_apart st 1 2"
proof -
  have "\<not> checknoused ''x''" by code_simp
  moreover have "live_at [[0, 1], [1, 2], [2, 3]] 0 0" "live_at [[0, 1], [1, 2], [2, 3]] 1 0"
    "live_at [[0, 1], [1, 2], [2, 3]] 1 1" "live_at [[0, 1], [1, 2], [2, 3]] 2 1"
    by (simp_all add: live_at_def)
  ultimately show ?thesis
    using binding_with_algo_0_apart [of id empty_pool "\<lambda>n m. (Some 64, m)" "\<lambda>a m. (ALLSPARK_SUCCESS, m)"
        "\<lambda>n. 0" 0 "\<lambda>t. ''x''" "[[0, 1], [1, 2], [2, 3]]" "[]"] empty_pool_inv [of id]
    by (metis One_nat_def inj_on_id length_Cons list.size(3) n_not_Suc_n numeral_2_eq_2 zero_less_Suc lessI less_Suc_eq)
qed

text \<open>
  \<open>Alloc\<close> of a block pool: it delivers a block that is not in use and at least as large as asked
  for, and changes no other block. While the pool has a free block it makes no new one; when one of
  them is large enough it does not touch the device memory, and it takes none that is larger than
  the smallest block above the requested size.
\<close>

theorem bp_Alloc_best_fit:
  assumes "bp_inv place p"
  shows "\<exists>b p'. bp_Alloc place alloc dealloc ka n dev p = ret b p' \<and> alloc_post place n b p p'"
  using assms by (rule bp_Alloc_post)

definition small_pool :: "unit block_pool" where
  "small_pool =
     (let blk = \<lambda>n. \<lparr>bl_device_id = 0, bl_size = n, bl_ptr = 64, bl_tensors = []\<rparr> in
      \<lparr>bp_blocks = [blk 256, blk 1024, blk 512], bp_free = [0, 2, 1], bp_allocated = [], bp_mem = ()\<rparr>)"

theorem bp_Alloc_best_fit_witness:
  "\<exists>b p'. bp_Alloc id (\<lambda>n m. (None, m)) (\<lambda>a m. (ALLSPARK_SUCCESS, m)) 7 300 0 small_pool = ret b p' \<and>
     bl_size (bp_blocks p' ! b) = 512"
proof -
  have "bp_inv id small_pool"
    by (simp add: bp_inv_def small_pool_def free_ordered_def block_key_def bl_less_def)
  from bp_Alloc_best_fit [OF this, of "\<lambda>n m. (None, m)" "\<lambda>a m. (ALLSPARK_SUCCESS, m)" 7 300 0]
  obtain b p' where r: "bp_Alloc id (\<lambda>n m. (None, m)) (\<lambda>a m. (ALLSPARK_SUCCESS, m)) 7 300 0 small_pool = ret b p'"
    "alloc_post id 300 b small_pool p'" by blast
  then have "p' = small_pool\<lparr>bp_free := [0, 1], bp_allocated := [2]\<rparr>" "b = 2"
    by (simp_all add: bp_Alloc_def BlockImpl_new_def small_pool_def free_ordered_def block_key_def bl_less_def)
  with r show ?thesis by (auto simp: small_pool_def)
qed

end
