(* ===== verification/Tensor_Data.thy ===== *)
theory Tensor_Data
  imports Block_Pool BFC_Theorems
begin

text \<open>
  Buffers of tensors: \<open>core/tensor/data.cpp\<close> (dense and sparse data over a device allocator) and the
  operations of \<open>core/tensor/tensor.cpp\<close> that change the memory of a tensor, whose buffer is either a
  block shared with other tensors or data of its own. A pointer is an address, null is 0; a custom
  deleter is a function on the memory.
\<close>

section \<open>Data\<close>

record 'm dense_data =
  dd_name :: string
  dd_device_type :: device_type
  dd_raw_data :: addr
  dd_nbytes :: int
  dd_deleter :: "(addr \<Rightarrow> 'm \<Rightarrow> 'm) option"

definition Data_device_ok :: "device_type \<Rightarrow> bool" where
  "Data_device_ok dev = (dev = CPU \<or> dev = CUDA)"

text \<open>The two constructors that allocate; they differ in the deleter.\<close>

definition DenseData_new ::
  "'m allocator \<Rightarrow> string \<Rightarrow> int \<Rightarrow> device_type \<Rightarrow> (addr \<Rightarrow> 'm \<Rightarrow> 'm) option \<Rightarrow> 'm \<Rightarrow> ('m dense_data, 'm) outcome" where
  "DenseData_new alloc name nbytes dev deleter m =
     (let d = \<lparr>dd_name = name, dd_device_type = dev, dd_raw_data = 0, dd_nbytes = nbytes, dd_deleter = deleter\<rparr> in
      if \<not> Data_device_ok dev then throw ALLSPARK_PARAM_ERROR m
      else if nbytes \<noteq> 0 then
        (case alloc nbytes m of
           (Some a, m') \<Rightarrow> ret (d\<lparr>dd_raw_data := a\<rparr>) m'
         | (None, m') \<Rightarrow> throw ALLSPARK_MEMORY_ERROR m')
      else ret d m)"

definition DenseData_wrap ::
  "string \<Rightarrow> int \<Rightarrow> device_type \<Rightarrow> addr \<Rightarrow> (addr \<Rightarrow> 'm \<Rightarrow> 'm) option \<Rightarrow> 'm \<Rightarrow> ('m dense_data, 'm) outcome" where
  "DenseData_wrap name nbytes dev raw_data deleter m =
     (if \<not> Data_device_ok dev then throw ALLSPARK_PARAM_ERROR m
      else ret \<lparr>dd_name = name, dd_device_type = dev, dd_raw_data = raw_data, dd_nbytes = nbytes, dd_deleter = deleter\<rparr> m)"

definition DenseData_destroy :: "'m deallocator \<Rightarrow> 'm dense_data \<Rightarrow> 'm \<Rightarrow> 'm" where
  "DenseData_destroy dealloc d m =
     (if dd_raw_data d \<noteq> 0 then
        (case dd_deleter d of
           Some del \<Rightarrow> del (dd_raw_data d) m
         | None \<Rightarrow> snd (dealloc (dd_raw_data d) m))
      else m)"

definition status_ok :: "as_status \<Rightarrow> bool" where
  "status_ok st = (st = ALLSPARK_SUCCESS \<or> st = ALLSPARK_STREAMING)"

text \<open>\<open>Resize\<close>: the old buffer is given back first; the pointer to it stays when that or the new
  allocation fails.\<close>

definition dense_release ::
  "'m deallocator \<Rightarrow> 'm dense_data \<Rightarrow> 'm \<Rightarrow> as_status \<times> 'm dense_data \<times> 'm" where
  "dense_release dealloc d m =
     (if dd_raw_data d \<noteq> 0 then
        (case dd_deleter d of
           Some del \<Rightarrow> (ALLSPARK_SUCCESS, d\<lparr>dd_deleter := None\<rparr>, del (dd_raw_data d) m)
         | None \<Rightarrow> (case dealloc (dd_raw_data d) m of (st, m') \<Rightarrow> (st, d, m')))
      else (ALLSPARK_SUCCESS, d, m))"

definition DenseData_Resize ::
  "'m allocator \<Rightarrow> 'm deallocator \<Rightarrow> int \<Rightarrow> 'm dense_data \<Rightarrow> 'm \<Rightarrow> as_status \<times> 'm dense_data \<times> 'm" where
  "DenseData_Resize alloc dealloc nbytes d m =
     (if nbytes \<le> dd_nbytes d then (ALLSPARK_SUCCESS, d, m)
      else case dense_release dealloc d m of (st, d1, m1) \<Rightarrow>
        if \<not> status_ok st then (st, d1, m1)
        else case alloc nbytes m1 of
          (Some a, m2) \<Rightarrow> (ALLSPARK_SUCCESS, d1\<lparr>dd_raw_data := a, dd_nbytes := nbytes\<rparr>, m2)
        | (None, m2) \<Rightarrow> (ALLSPARK_MEMORY_ERROR, d1, m2))"

text \<open>Sparse data: two or three buffers. A constructor that throws half way keeps what it has taken,
  because no destructor runs for it.\<close>

fun alloc_all :: "'m allocator \<Rightarrow> int list \<Rightarrow> 'm \<Rightarrow> (addr list, 'm) outcome" where
  "alloc_all alloc [] m = ret [] m"
| "alloc_all alloc (n # ns) m =
     (case alloc n m of
        (None, m1) \<Rightarrow> throw ALLSPARK_MEMORY_ERROR m1
      | (Some a, m1) \<Rightarrow> andThen (alloc_all alloc ns m1) (\<lambda>as m2. ret (a # as) m2))"

record csc_data =
  csc_nnz :: int
  csc_raw_data :: addr
  csc_col_offsets :: addr
  csc_row_indices :: addr

definition CSCData_new ::
  "'m allocator \<Rightarrow> int \<Rightarrow> int \<Rightarrow> device_type \<Rightarrow> int \<Rightarrow> 'm \<Rightarrow> (csc_data, 'm) outcome" where
  "CSCData_new alloc nnz cols dev type_size m =
     (if \<not> Data_device_ok dev then throw ALLSPARK_PARAM_ERROR m
      else if nnz \<noteq> 0 then
        andThen (alloc_all alloc [nnz * type_size, (cols + 1) * 4, nnz * 4] m) (\<lambda>as m1.
          ret \<lparr>csc_nnz = nnz, csc_raw_data = as ! 0, csc_col_offsets = as ! 1, csc_row_indices = as ! 2\<rparr> m1)
      else ret \<lparr>csc_nnz = nnz, csc_raw_data = 0, csc_col_offsets = 0, csc_row_indices = 0\<rparr> m)"

definition CSCData_destroy :: "'m deallocator \<Rightarrow> csc_data \<Rightarrow> 'm \<Rightarrow> 'm" where
  "CSCData_destroy dealloc d m =
     (if csc_row_indices d \<noteq> 0 then
        snd (dealloc (csc_col_offsets d) (snd (dealloc (csc_row_indices d) (snd (dealloc (csc_raw_data d) m)))))
      else m)"

record ell_data =
  ell_nnz :: int
  ell_raw_data :: addr
  ell_row_indices :: addr

definition ELLData_new ::
  "'m allocator \<Rightarrow> int \<Rightarrow> int \<Rightarrow> device_type \<Rightarrow> int \<Rightarrow> 'm \<Rightarrow> (ell_data, 'm) outcome" where
  "ELLData_new alloc nnz cols dev type_size m =
     (if \<not> Data_device_ok dev then throw ALLSPARK_PARAM_ERROR m
      else if nnz \<noteq> 0 then
        andThen (alloc_all alloc [nnz * type_size, nnz * 2] m) (\<lambda>as m1.
          ret \<lparr>ell_nnz = nnz, ell_raw_data = as ! 0, ell_row_indices = as ! 1\<rparr> m1)
      else ret \<lparr>ell_nnz = nnz, ell_raw_data = 0, ell_row_indices = 0\<rparr> m)"

definition ELLData_destroy :: "'m deallocator \<Rightarrow> ell_data \<Rightarrow> 'm \<Rightarrow> 'm" where
  "ELLData_destroy dealloc d m =
     (if ell_row_indices d \<noteq> 0 then snd (dealloc (ell_row_indices d) (snd (dealloc (ell_raw_data d) m))) else m)"

section \<open>Tensors\<close>

text \<open>A tensor with dense data: its buffer is the bound block if there is one. Blocks and device
  memory are those of the pool of the device context.\<close>

record 'm as_tensor =
  at_name :: string
  at_backend :: device_type
  at_dtype :: data_type
  at_shape :: shape
  at_data :: "'m dense_data"
  at_block :: "block_ptr option"

definition at_GetDataPtr :: "'m block_pool \<Rightarrow> 'm as_tensor \<Rightarrow> addr" where
  "at_GetDataPtr p t = (case at_block t of Some b \<Rightarrow> bl_ptr (bp_blocks p ! b) | None \<Rightarrow> dd_raw_data (at_data t))"

definition at_GetSizeInByte :: "'m block_pool \<Rightarrow> 'm as_tensor \<Rightarrow> exn + int" where
  "at_GetSizeInByte p t =
     bindE (Shape_Count (at_shape t) 0) (\<lambda>cnt.
       Inr (max (cnt * int (SizeofType (at_dtype t)))
         (case at_block t of Some b \<Rightarrow> bl_size (bp_blocks p ! b) | None \<Rightarrow> dd_nbytes (at_data t))))"

definition at_SetShape ::
  "'m allocator \<Rightarrow> 'm deallocator \<Rightarrow> shape \<Rightarrow> 'm as_tensor \<times> 'm block_pool \<Rightarrow>
   (as_status, 'm as_tensor \<times> 'm block_pool) outcome"
where
  "at_SetShape alloc dealloc shape = (\<lambda>(t, p).
     case Shape_Count shape 0 of
       Inl e \<Rightarrow> (Inl e, (t, p))
     | Inr cnt \<Rightarrow>
         (let nbytes = cnt * int (SizeofType (at_dtype t)) in
          case at_block t of
            Some b \<Rightarrow>
              (case bl_Resize alloc dealloc nbytes (bp_blocks p ! b) (bp_mem p) of (blk, m) \<Rightarrow>
                 ret ALLSPARK_SUCCESS
                   (t\<lparr>at_shape := shape\<rparr>, p\<lparr>bp_blocks := (bp_blocks p)[b := blk], bp_mem := m\<rparr>))
          | None \<Rightarrow>
              (case DenseData_Resize alloc dealloc nbytes (at_data t) (bp_mem p) of (st, d, m) \<Rightarrow>
                 ret st (t\<lparr>at_data := d, at_shape := (if st = ALLSPARK_SUCCESS then shape else at_shape t)\<rparr>,
                         p\<lparr>bp_mem := m\<rparr>))))"

text \<open>\<open>Free\<close>: without a block the data is replaced by a buffer of one byte; the old one is destroyed
  when no other tensor shares it.\<close>

definition at_Free ::
  "'m allocator \<Rightarrow> 'm deallocator \<Rightarrow> bool \<Rightarrow> 'm as_tensor \<times> 'm block_pool \<Rightarrow>
   (as_status, 'm as_tensor \<times> 'm block_pool) outcome"
where
  "at_Free alloc dealloc shared = (\<lambda>(t, p).
     case at_block t of
       Some b \<Rightarrow>
         (case bl_Free dealloc (bp_blocks p ! b) (bp_mem p) of (blk, m) \<Rightarrow>
            ret ALLSPARK_SUCCESS (t, p\<lparr>bp_blocks := (bp_blocks p)[b := blk], bp_mem := m\<rparr>))
     | None \<Rightarrow>
         (case DenseData_new alloc (at_name t) 1 (at_backend t) None (bp_mem p) of
            (Inl e, m) \<Rightarrow> (Inl e, (t, p\<lparr>bp_mem := m\<rparr>))
          | (Inr d, m) \<Rightarrow>
              ret ALLSPARK_SUCCESS
                (t\<lparr>at_data := d\<rparr>, p\<lparr>bp_mem := if shared then m else DenseData_destroy dealloc (at_data t) m\<rparr>)))"

section \<open>Data over the BFC allocator\<close>





section \<open>A small run\<close>









section \<open>Properties\<close>



end
