(* ===== verification/Rich_Embedding.thy ===== *)
theory Rich_Embedding
  imports Prefix_Node
begin

text \<open>
  Multi-media inputs, \<open>common/extra_embedding.hpp\<close> and the copy loop of
  \<open>core/operator/general/rich_embedding/rich_embedding_op.cpp\<close>. The prompt holds runs of a
  placeholder token; the embeddings of a placeholder are listed under the decimal text of its token
  id, and the \<open>k\<close>-th run of a token is replaced by its \<open>k\<close>-th embedding. For the prefix cache
  the runs are overwritten with a hash of what was embedded.

  \<open>CityHash64\<close> is code outside the sources and a parameter. Positions and counts are
  \<open>int\<close> in the code and bounded by the sequence length.
\<close>

section \<open>Finding the placeholder runs\<close>

text \<open>A tensor of an embedding or of a hash input: its shape and its bytes.\<close>

record re_tensor =
  rt_shape :: shape
  rt_bytes :: "byte list"

type_synonym tensor_list_map = "(string \<times> re_tensor list) list"

record reinfo =
  re_place_holder_token :: "64 word"
  re_place_holder_str :: string
  re_start_pos :: int
  re_place_holder_cnt :: int
  re_offset :: int
  re_hash :: "64 word"
  re_embedding :: re_tensor

text \<open>The inner loop: how many tokens from \<open>pos\<close> on repeat the token at \<open>pos\<close>.\<close>

function run_end :: "64 word list \<Rightarrow> nat \<Rightarrow> 64 word \<Rightarrow> nat" where
  "run_end ids pos tok =
     (if Suc pos < length ids \<and> ids ! Suc pos = tok then run_end ids (Suc pos) tok else pos)"
  by pat_completeness auto
termination
  by (relation "measure (\<lambda>(ids, pos, tok). length ids - pos)") auto

declare run_end.simps [simp del]

lemma run_end_ge: "pos \<le> run_end ids pos tok"
  by (induction ids pos tok rule: run_end.induct) (subst run_end.simps, auto)

text \<open>\<open>std::map<int64_t, int>\<close>, whose \<open>operator[]\<close> creates a zero.\<close>

definition counter_of :: "(64 word \<times> nat) list \<Rightarrow> 64 word \<Rightarrow> nat" where
  "counter_of cnt tok = (case map_of cnt tok of Some n \<Rightarrow> n | None \<Rightarrow> 0)"

function parse_loop ::
  "tensor_list_map \<Rightarrow> 64 word list \<Rightarrow> nat \<Rightarrow> (64 word \<times> nat) list \<Rightarrow> reinfo list \<Rightarrow>
   exn + (as_status \<times> reinfo list)"
where
  "parse_loop ee ids pos cnt acc =
     (if pos < length ids then
        (let tok = ids ! pos; str = show_int (sint tok) in
         case map_of ee str of
           None \<Rightarrow> parse_loop ee ids (Suc pos) cnt acc
         | Some ts \<Rightarrow>
             (let last = run_end ids pos tok;
                  len = Suc (last - pos);
                  n = (if counter_of cnt tok \<noteq> 0 then counter_of cnt tok + 1 else 1);
                  cnt' = AList.update tok n cnt
              in if n > length ts then Inr (ALLSPARK_PARAM_ERROR, acc)
                 else bindE (Shape_at (rt_shape (ts ! (n - 1))) 0) (\<lambda>rows.
                   if int len \<noteq> rows then Inr (ALLSPARK_PARAM_ERROR, acc)
                   else parse_loop ee ids (Suc last) cnt'
                     (acc @ [\<lparr>re_place_holder_token = tok, re_place_holder_str = str,
                              re_start_pos = int pos, re_place_holder_cnt = int len, re_offset = 0,
                              re_hash = 0, re_embedding = ts ! (n - 1)\<rparr>]))))
      else Inr (ALLSPARK_SUCCESS, acc))"
  by pat_completeness auto
termination
  by (relation "measure (\<lambda>(ee, ids, pos, cnt, acc). length ids - pos)")
    (auto intro!: diff_less_mono2 simp: le_imp_less_Suc [OF run_end_ge])

declare parse_loop.simps [simp del]

definition ParseExtraEmbedding ::
  "tensor_list_map \<Rightarrow> 64 word list \<Rightarrow> exn + (as_status \<times> reinfo list)" where
  "ParseExtraEmbedding ee ids =
     (if ee = [] then Inr (ALLSPARK_SUCCESS, []) else parse_loop ee ids 0 [] [])"

section \<open>Moving the runs behind a cached prefix\<close>

definition update_reinfo :: "int \<Rightarrow> reinfo \<Rightarrow> reinfo" where
  "update_reinfo prefix_len r =
     (let cached_idx = prefix_len - 1;
          start_pos = re_start_pos r;
          end_pos = re_start_pos r + re_place_holder_cnt r - 1
      in if cached_idx < start_pos then r\<lparr>re_start_pos := start_pos - prefix_len, re_offset := 0\<rparr>
         else if start_pos \<le> cached_idx \<and> cached_idx < end_pos then
           r\<lparr>re_start_pos := 0, re_offset := prefix_len - start_pos\<rparr>
         else r\<lparr>re_start_pos := - 1, re_offset := re_place_holder_cnt r\<rparr>)"

definition UpdateREInfo :: "reinfo list \<Rightarrow> int \<Rightarrow> reinfo list" where
  "UpdateREInfo rs prefix_len = (if prefix_len = 0 then rs else map (update_reinfo prefix_len) rs)"

section \<open>Hashing\<close>

text \<open>\<open>Hash64\<close> reinterprets the hash of the bytes as a signed number, which is the same word.\<close>

type_synonym city_hash = "byte list \<Rightarrow> 64 word"

definition HashEmbedding :: "city_hash \<Rightarrow> tensor_list_map \<Rightarrow> reinfo list \<Rightarrow> as_status \<times> reinfo list" where
  "HashEmbedding city ee rs =
     (case map_of ee ''hash_input'' of
        None \<Rightarrow> (ALLSPARK_SUCCESS, rs)
      | Some ts \<Rightarrow>
          if length ts \<noteq> length rs then (ALLSPARK_PARAM_ERROR, rs)
          else (ALLSPARK_SUCCESS, map2 (\<lambda>t r. r\<lparr>re_hash := city (rt_bytes t)\<rparr>) ts rs))"

definition write_ids :: "reinfo \<Rightarrow> 64 word list \<Rightarrow> 64 word list" where
  "write_ids r ids =
     fold (\<lambda>k xs. xs[nat (re_start_pos r) + k := re_hash r]) [0..<nat (re_place_holder_cnt r)] ids"

definition ReplacePlaceHolder ::
  "device_type \<Rightarrow> reinfo list \<Rightarrow> 64 word list \<Rightarrow> as_status \<times> 64 word list" where
  "ReplacePlaceHolder dev rs ids =
     (if dev \<noteq> CPU then (ALLSPARK_PARAM_ERROR, ids) else (ALLSPARK_SUCCESS, fold write_ids rs ids))"

section \<open>The copy of the embeddings\<close>

text \<open>
  \<open>RichEmbeddingOp::Forward\<close>. A failed status leaves the loop; the elements of the CUDA output
  are written by a kernel that converts the 32-bit floats of the embedding to the type of the
  output, \<open>conv\<close>. Copies that leave a buffer are undefined.
\<close>

fun loopE :: "('x \<Rightarrow> 's \<Rightarrow> exn + (as_status \<times> 's)) \<Rightarrow> 'x list \<Rightarrow> 's \<Rightarrow> exn + (as_status \<times> 's)" where
  "loopE f [] s = Inr (ALLSPARK_SUCCESS, s)"
| "loopE f (x # xs) s =
     bindE (f x s) (\<lambda>(st, s'). if st \<noteq> ALLSPARK_SUCCESS then Inr (st, s') else loopE f xs s')"

definition float_at :: "byte list \<Rightarrow> nat \<Rightarrow> byte list" where
  "float_at bs i = take 4 (drop (4 * i) bs)"

definition write_from :: "nat \<Rightarrow> 'e list \<Rightarrow> 'e list \<Rightarrow> 'e list" where
  "write_from i xs out = take i out @ xs @ drop (i + length xs) out"

definition re_copy_cuda ::
  "(byte list \<Rightarrow> 'e) \<Rightarrow> nat \<Rightarrow> reinfo \<Rightarrow> 'e list \<Rightarrow> exn + (as_status \<times> 'e list)" where
  "re_copy_cuda conv hidden r out =
     (let start = nat (re_start_pos r); cnt = nat (re_place_holder_cnt r); off = nat (re_offset r);
          bs = rt_bytes (re_embedding r) in
      if re_start_pos r < 0 then Inr (ALLSPARK_SUCCESS, out)
      else defined_if (cnt * hidden * 4 \<le> length bs \<and> start * hidden + (cnt - off) * hidden \<le> length out)
        (Inr (ALLSPARK_SUCCESS,
           write_from (start * hidden)
             (map (\<lambda>k. conv (float_at bs (off * hidden + k))) [0..<(cnt - off) * hidden]) out)))"

text \<open>The CPU branch is a \<open>memcpy\<close> of bytes; its source pointer is advanced by
  \<open>offset * hidden_size_\<close> bytes.\<close>

definition re_copy_cpu ::
  "data_type \<Rightarrow> nat \<Rightarrow> reinfo \<Rightarrow> byte list \<Rightarrow> exn + (as_status \<times> byte list)" where
  "re_copy_cpu dtype hidden r out =
     (let start = nat (re_start_pos r); cnt = nat (re_place_holder_cnt r); off = nat (re_offset r);
          bs = rt_bytes (re_embedding r); word_size = SizeofType dtype;
          n = (cnt - off) * hidden * word_size in
      if re_start_pos r < 0 then Inr (ALLSPARK_SUCCESS, out)
      else if dtype \<noteq> FLOAT32 then Inr (ALLSPARK_RUNTIME_ERROR, out)
      else defined_if (off * hidden + n \<le> length bs \<and> start * hidden * word_size + n \<le> length out)
        (Inr (ALLSPARK_SUCCESS, write_from (start * hidden * word_size) (take n (drop (off * hidden) bs)) out)))"

definition RichEmbeddingOp_Forward ::
  "(reinfo \<Rightarrow> 'o \<Rightarrow> exn + (as_status \<times> 'o)) \<Rightarrow> bool \<Rightarrow> nat \<Rightarrow> tensor_list_map \<Rightarrow> 64 word list \<Rightarrow> int \<Rightarrow> 'o \<Rightarrow>
   exn + (as_status \<times> 'o)"
where
  "RichEmbeddingOp_Forward copy is_context batch_size ee ids prefix_len out =
     (if \<not> is_context then Inr (ALLSPARK_SUCCESS, out)
      else if ee = [] then Inr (ALLSPARK_SUCCESS, out)
      else if batch_size \<noteq> 1 then Inr (ALLSPARK_RUNTIME_ERROR, out)
      else bindE (ParseExtraEmbedding ee ids) (\<lambda>(st, rs).
        if st \<noteq> ALLSPARK_SUCCESS then Inr (st, out) else loopE copy (UpdateREInfo rs prefix_len) out))"

section \<open>What the scan finds\<close>

text \<open>The maximal runs of equal elements, with their start and length.\<close>

fun runs :: "nat \<Rightarrow> 'a list \<Rightarrow> (nat \<times> 'a \<times> nat) list" where
  "runs i [] = []"
| "runs i (x # xs) =
     (let n = length (takeWhile (\<lambda>y. y = x) xs) in (i, x, Suc n) # runs (i + Suc n) (drop n xs))"

definition is_placeholder :: "tensor_list_map \<Rightarrow> 64 word \<Rightarrow> bool" where
  "is_placeholder ee tok \<longleftrightarrow> map_of ee (show_int (sint tok)) \<noteq> None"

definition placeholder_runs :: "tensor_list_map \<Rightarrow> 64 word list \<Rightarrow> (nat \<times> 64 word \<times> nat) list" where
  "placeholder_runs ee ids = filter (\<lambda>(i, tok, n). is_placeholder ee tok) (runs 0 ids)"

text \<open>The number of earlier runs of the same token, and with it the embedding of a run.\<close>

definition earlier_runs :: "(nat \<times> 64 word \<times> nat) list \<Rightarrow> nat \<Rightarrow> nat" where
  "earlier_runs prs j = length (filter (\<lambda>r. fst (snd r) = fst (snd (prs ! j))) (take j prs))"

definition embeddings_of :: "tensor_list_map \<Rightarrow> 64 word \<Rightarrow> re_tensor list" where
  "embeddings_of ee tok = the (map_of ee (show_int (sint tok)))"

definition run_info :: "tensor_list_map \<Rightarrow> (nat \<times> 64 word \<times> nat) list \<Rightarrow> nat \<Rightarrow> reinfo" where
  "run_info ee prs j =
     (case prs ! j of (i, tok, n) \<Rightarrow>
        \<lparr>re_place_holder_token = tok, re_place_holder_str = show_int (sint tok), re_start_pos = int i,
         re_place_holder_cnt = int n, re_offset = 0, re_hash = 0,
         re_embedding = embeddings_of ee tok ! earlier_runs prs j\<rparr>)"

definition run_fits :: "tensor_list_map \<Rightarrow> (nat \<times> 64 word \<times> nat) list \<Rightarrow> nat \<Rightarrow> bool" where
  "run_fits ee prs j =
     (case prs ! j of (i, tok, n) \<Rightarrow>
        earlier_runs prs j < length (embeddings_of ee tok) \<and>
        Shape_at (rt_shape (embeddings_of ee tok ! earlier_runs prs j)) 0 = Inr (int n))"

lemma run_end_takeWhile:
  "pos < length ids \<Longrightarrow> run_end ids pos tok = pos + length (takeWhile (\<lambda>y. y = tok) (drop (Suc pos) ids))"
proof (induction ids pos tok rule: run_end.induct)
  case (1 ids pos tok)
  show ?case
  proof (cases "Suc pos < length ids")
    case True
    then have "drop (Suc pos) ids = ids ! Suc pos # drop (Suc (Suc pos)) ids" by (rule Cons_nth_drop_Suc [symmetric])
    with 1 True show ?thesis by (subst run_end.simps) auto
  next
    case False
    then show ?thesis by (subst run_end.simps) simp
  qed
qed

lemma runs_skip:
  assumes "\<not> P x"
  shows "filter (\<lambda>(i, y, n). P y) (runs i (x # xs)) = filter (\<lambda>(i, y, n). P y) (runs (Suc i) xs)"
proof (cases xs)
  case (Cons z zs)
  show ?thesis
  proof (cases "z = x")
    case True
    with assms Cons show ?thesis by (simp add: Let_def)
  next
    case False
    with assms Cons show ?thesis by (simp add: Let_def)
  qed
qed (use assms in simp)

lemma runs_drop:
  "pos < length ids \<Longrightarrow>
   runs pos (drop pos ids) =
     (let e = run_end ids pos (ids ! pos) in (pos, ids ! pos, Suc (e - pos)) # runs (Suc e) (drop (Suc e) ids))"
  by (simp add: Cons_nth_drop_Suc [symmetric] run_end_takeWhile Let_def add.commute add.left_commute)

definition shapes_ok :: "tensor_list_map \<Rightarrow> bool" where
  "shapes_ok ee \<longleftrightarrow> (\<forall>(k, ts) \<in> set ee. \<forall>t \<in> set ts. rt_shape t \<noteq> [])"

lemma Shape_at_0: "rt_shape t \<noteq> [] \<Longrightarrow> Shape_at (rt_shape t) 0 = Inr (hd (rt_shape t))"
  by (simp add: Shape_at_def hd_conv_nth)

definition parse_result :: "tensor_list_map \<Rightarrow> 64 word list \<Rightarrow> as_status \<times> reinfo list" where
  "parse_result ee ids =
     (let prs = placeholder_runs ee ids;
          good = takeWhile (run_fits ee prs) [0..<length prs]
      in (if length good = length prs then ALLSPARK_SUCCESS else ALLSPARK_PARAM_ERROR, map (run_info ee prs) good))"

lemma takeWhile_upt_stop:
  "j < n \<Longrightarrow> \<forall>i < j. P i \<Longrightarrow> \<not> P j \<Longrightarrow> takeWhile P [0..<n] = [0..<j]"
proof -
  assume a: "j < n" "\<forall>i < j. P i" "\<not> P j"
  have "[0..<n] = [0..<j] @ j # [Suc j..<n]" using a(1) by (metis less_imp_le_nat upt_add_eq_append upt_conv_Cons le_add_diff_inverse zero_le)
  with a(2,3) show ?thesis by (simp add: takeWhile_append)
qed

lemma parse_result_stop:
  assumes "j < length (placeholder_runs ee ids)" "\<forall>i < j. run_fits ee (placeholder_runs ee ids) i"
    "\<not> run_fits ee (placeholder_runs ee ids) j"
  shows "parse_result ee ids = (ALLSPARK_PARAM_ERROR, map (run_info ee (placeholder_runs ee ids)) [0..<j])"
  using assms by (simp add: parse_result_def Let_def takeWhile_upt_stop)

lemma parse_result_end:
  assumes "\<forall>i < length (placeholder_runs ee ids). run_fits ee (placeholder_runs ee ids) i"
  shows "parse_result ee ids =
    (ALLSPARK_SUCCESS, map (run_info ee (placeholder_runs ee ids)) [0..<length (placeholder_runs ee ids)])"
proof -
  have "takeWhile (run_fits ee (placeholder_runs ee ids)) [0..<length (placeholder_runs ee ids)]
    = [0..<length (placeholder_runs ee ids)]"
    using assms by (simp add: takeWhile_eq_all_conv)
  then show ?thesis by (simp only: parse_result_def Let_def length_upt minus_nat.diff_0 simp_thms if_True)
qed

text \<open>The state of the scan after \<open>j\<close> placeholder runs.\<close>

definition parse_state ::
  "tensor_list_map \<Rightarrow> 64 word list \<Rightarrow> nat \<Rightarrow> nat \<Rightarrow> (64 word \<times> nat) list \<Rightarrow> reinfo list \<Rightarrow> bool" where
  "parse_state ee ids j pos cnt acc \<longleftrightarrow>
     (let prs = placeholder_runs ee ids in
      j \<le> length prs \<and> filter (\<lambda>(i, tok, n). is_placeholder ee tok) (runs pos (drop pos ids)) = drop j prs \<and>
      (\<forall>tok. counter_of cnt tok = length (filter (\<lambda>r. fst (snd r) = tok) (take j prs))) \<and>
      acc = map (run_info ee prs) [0..<j] \<and> (\<forall>i < j. run_fits ee prs i))"

lemma parse_state_skip:
  assumes "parse_state ee ids j pos cnt acc" "pos < length ids" "\<not> is_placeholder ee (ids ! pos)"
  shows "parse_state ee ids j (Suc pos) cnt acc"
  using assms runs_skip [of "is_placeholder ee" "ids ! pos" pos "drop (Suc pos) ids"]
  by (simp add: parse_state_def Let_def Cons_nth_drop_Suc)

lemma parse_state_run:
  assumes "parse_state ee ids j pos cnt acc" "pos < length ids" "is_placeholder ee (ids ! pos)"
  defines "e \<equiv> run_end ids pos (ids ! pos)"
  shows "j < length (placeholder_runs ee ids)"
    and "placeholder_runs ee ids ! j = (pos, ids ! pos, Suc (e - pos))"
    and "earlier_runs (placeholder_runs ee ids) j = counter_of cnt (ids ! pos)"
    and "filter (\<lambda>(i, tok, n). is_placeholder ee tok) (runs (Suc e) (drop (Suc e) ids))
         = drop (Suc j) (placeholder_runs ee ids)"
proof -
  have d: "drop j (placeholder_runs ee ids) =
    (pos, ids ! pos, Suc (e - pos)) # filter (\<lambda>(i, tok, n). is_placeholder ee tok) (runs (Suc e) (drop (Suc e) ids))"
    using assms(1-3) by (simp add: parse_state_def Let_def runs_drop e_def)
  then show j: "j < length (placeholder_runs ee ids)" by (metis drop_all linorder_not_le list.distinct(1))
  show n: "placeholder_runs ee ids ! j = (pos, ids ! pos, Suc (e - pos))"
    using d j by (metis Cons_nth_drop_Suc list.inject)
  show "earlier_runs (placeholder_runs ee ids) j = counter_of cnt (ids ! pos)"
    using assms(1) n by (simp add: parse_state_def Let_def earlier_runs_def)
  show "filter (\<lambda>(i, tok, n). is_placeholder ee tok) (runs (Suc e) (drop (Suc e) ids))
         = drop (Suc j) (placeholder_runs ee ids)"
    using d j by (metis Cons_nth_drop_Suc list.inject)
qed

lemma parse_state_next:
  assumes st: "parse_state ee ids j pos cnt acc" and pos: "pos < length ids"
    and ph: "is_placeholder ee (ids ! pos)" and fits: "run_fits ee (placeholder_runs ee ids) j"
  shows "parse_state ee ids (Suc j) (Suc (run_end ids pos (ids ! pos)))
    (AList.update (ids ! pos) (Suc (counter_of cnt (ids ! pos))) cnt)
    (acc @ [run_info ee (placeholder_runs ee ids) j])"
proof -
  note r = parse_state_run [OF st pos ph]
  have "\<forall>i < Suc j. run_fits ee (placeholder_runs ee ids) i"
    using st fits by (auto simp: parse_state_def Let_def less_Suc_eq)
  then show ?thesis
    using st r by (auto simp: parse_state_def Let_def take_Suc_conv_app_nth counter_of_def)
qed

lemma parse_loop_result:
  assumes "shapes_ok ee" "parse_state ee ids j pos cnt acc"
  shows "parse_loop ee ids pos cnt acc = Inr (parse_result ee ids)"
  using assms
proof (induction ee ids pos cnt acc arbitrary: j rule: parse_loop.induct)
  case (1 ee ids pos cnt acc)
  let ?tok = "ids ! pos" and ?prs = "placeholder_runs ee ids"
  show ?case
  proof (cases "pos < length ids")
    case False
    with 1(4) have "j = length ?prs" by (simp add: parse_state_def Let_def)
    with False 1(4) show ?thesis
      by (simp add: parse_loop.simps [of ee ids pos] parse_result_end parse_state_def Let_def)
  next
    case pos: True
    show ?thesis
    proof (cases "map_of ee (show_int (sint ?tok))")
      case None
      then have "parse_state ee ids j (Suc pos) cnt acc"
        using parse_state_skip [OF 1(4) pos] by (simp add: is_placeholder_def)
      with 1(1) [OF pos refl refl None 1(3)] pos None show ?thesis
        by (simp add: parse_loop.simps [of ee ids pos])
    next
      case (Some ts)
      then have ph: "is_placeholder ee ?tok" by (simp add: is_placeholder_def)
      note r = parse_state_run [OF 1(4) pos ph]
      let ?c = "counter_of cnt ?tok"
      have acc: "acc = map (run_info ee ?prs) [0..<j]" and pre: "\<forall>i < j. run_fits ee ?prs i"
        using 1(4) by (simp_all add: parse_state_def Let_def)
      have n: "(if ?c \<noteq> 0 then ?c + 1 else 1) = Suc ?c" by simp
      have ts: "embeddings_of ee ?tok = ts" using Some by (simp add: embeddings_of_def)
      show ?thesis
      proof (cases "run_fits ee ?prs j")
        case False
        have "parse_result ee ids = (ALLSPARK_PARAM_ERROR, acc)"
          using parse_result_stop [OF r(1) pre False] acc by simp
        moreover have "?c < length ts \<Longrightarrow> \<exists>m. Shape_at (rt_shape (ts ! ?c)) 0 = Inr m"
          using 1(3) Some map_of_SomeD [OF Some] by (force simp: shapes_ok_def Shape_at_0)
        ultimately show ?thesis
          using False r ts pos Some n
          by (auto simp: parse_loop.simps [of ee ids pos] Let_def run_fits_def not_less)
      next
        case fits: True
        then have lt: "?c < length ts" and sh: "Shape_at (rt_shape (ts ! ?c)) 0 = Inr (int (Suc (run_end ids pos ?tok - pos)))"
          using r ts by (simp_all add: run_fits_def)
        have info: "run_info ee ?prs j = \<lparr>re_place_holder_token = ?tok, re_place_holder_str = show_int (sint ?tok),
          re_start_pos = int pos, re_place_holder_cnt = int (Suc (run_end ids pos ?tok - pos)), re_offset = 0,
          re_hash = 0, re_embedding = ts ! ?c\<rparr>"
          using r ts by (simp add: run_info_def)
        note nx = parse_state_next [OF 1(4) pos ph fits]
        show ?thesis
          using 1(2) [OF pos refl refl Some refl refl refl refl _ _ 1(3), of "int (Suc (run_end ids pos ?tok - pos))" "Suc j"]
            lt sh n nx info pos Some
          by (simp add: parse_loop.simps [of ee ids pos] Let_def)
      qed
    qed
  qed
qed

lemma parse_state_start: "parse_state ee ids 0 0 [] []"
  by (simp add: parse_state_def placeholder_runs_def counter_of_def Let_def)

lemma ParseExtraEmbedding_eq:
  "shapes_ok ee \<Longrightarrow> ee \<noteq> [] \<Longrightarrow> ParseExtraEmbedding ee ids = Inr (parse_result ee ids)"
  by (simp add: ParseExtraEmbedding_def parse_loop_result [OF _ parse_state_start])

lemma parse_success:
  assumes "shapes_ok ee" "ee \<noteq> []" "ParseExtraEmbedding ee ids = Inr (ALLSPARK_SUCCESS, rs)"
  shows "rs = map (run_info ee (placeholder_runs ee ids)) [0..<length (placeholder_runs ee ids)]"
proof -
  let ?prs = "placeholder_runs ee ids"
  let ?good = "takeWhile (run_fits ee ?prs) [0..<length ?prs]"
  have "(if length ?good = length ?prs then ALLSPARK_SUCCESS else ALLSPARK_PARAM_ERROR, map (run_info ee ?prs) ?good)
    = (ALLSPARK_SUCCESS, rs)"
    using assms ParseExtraEmbedding_eq [OF assms(1,2), of ids] by (simp add: parse_result_def Let_def)
  then have "length ?good = length [0..<length ?prs]" and rs: "rs = map (run_info ee ?prs) ?good"
    by (auto split: if_splits)
  then have "?good = [0..<length ?prs]" by (metis takeWhile_eq_take take_all order_refl)
  with rs show ?thesis by simp
qed

subsection \<open>Runs are the maximal blocks of equal tokens\<close>

lemma length_takeWhile_le_diff: "length (takeWhile P xs) \<le> length xs"
  by (rule length_takeWhile_le)

lemma takeWhile_eq_run: "k < length (takeWhile (\<lambda>y. y = x) xs) \<Longrightarrow> xs ! k = x"
  by (metis (mono_tags, lifting) nth_mem set_takeWhileD takeWhile_nth)

lemma runs_bounds:
  "(i, x, n) \<in> set (runs s xs) \<Longrightarrow>
   s \<le> i \<and> 0 < n \<and> i + n \<le> s + length xs \<and> (\<forall>k < n. xs ! (i - s + k) = x)"
proof (induction s xs rule: runs.induct)
  case (2 s y ys)
  let ?n = "length (takeWhile (\<lambda>z. z = y) ys)"
  have le: "?n \<le> length ys" by (rule length_takeWhile_le)
  show ?case
  proof (cases "(i, x, n) = (s, y, Suc ?n)")
    case True
    have "\<forall>k < Suc ?n. (y # ys) ! k = y"
      by (auto simp: nth_Cons takeWhile_eq_run split: nat.splits)
    with True le show ?thesis by simp
  next
    case False
    with 2(2) have "(i, x, n) \<in> set (runs (s + Suc ?n) (drop ?n ys))" by (auto simp: Let_def)
    from 2(1) [OF refl this] have b: "s + Suc ?n \<le> i" "0 < n" "i + n \<le> s + Suc ?n + length (drop ?n ys)"
      "\<forall>k < n. drop ?n ys ! (i - (s + Suc ?n) + k) = x" by blast+
    have "(y # ys) ! (i - s + k) = x" if "k < n" for k
    proof -
      have "drop ?n ys ! (i - (s + Suc ?n) + k) = ys ! (?n + (i - (s + Suc ?n) + k))"
        using le b(1,3) that by (intro nth_drop) simp
      moreover have "i - s + k = Suc (?n + (i - (s + Suc ?n) + k))" using b(1) by simp
      ultimately show ?thesis using b(4) that by simp
    qed
    with b le show ?thesis by simp
  qed
qed simp

lemma runs_ordered: "sorted_wrt (\<lambda>(i, x, n) (i', x', n'). i + n \<le> i') (runs s xs)"
proof (induction s xs rule: runs.induct)
  case (2 s y ys)
  then show ?case by (auto simp: Let_def dest: runs_bounds)
qed simp

lemma runs_cover:
  "s \<le> q \<Longrightarrow> q < s + length xs \<Longrightarrow> \<exists>i n. (i, xs ! (q - s), n) \<in> set (runs s xs) \<and> i \<le> q \<and> q < i + n"
proof (induction s xs rule: runs.induct)
  case (2 s y ys)
  let ?n = "length (takeWhile (\<lambda>z. z = y) ys)"
  have le: "?n \<le> length ys" by (rule length_takeWhile_le)
  show ?case
  proof (cases "q < s + Suc ?n")
    case True
    have "(y # ys) ! (q - s) = y" using True 2(2)
      by (cases "q - s") (auto intro: takeWhile_eq_run)
    moreover have "(s, y, Suc ?n) \<in> set (runs s (y # ys))" by (simp add: Let_def)
    ultimately show ?thesis using True 2(2) by metis
  next
    case False
    then have "s + Suc ?n \<le> q" by simp
    moreover have "q < s + Suc ?n + length (drop ?n ys)" using 2(3) le by simp
    ultimately have "\<exists>i n. (i, drop ?n ys ! (q - (s + Suc ?n)), n) \<in> set (runs (s + Suc ?n) (drop ?n ys)) \<and> i \<le> q \<and> q < i + n"
      by (rule 2(1) [OF refl])
    moreover have "drop ?n ys ! (q - (s + Suc ?n)) = (y # ys) ! (q - s)"
      using False le 2(3) by (auto simp: nth_Cons split: nat.splits intro: arg_cong [of _ _ "nth ys"])
    ultimately show ?thesis by (auto simp: Let_def)
  qed
qed simp

lemma runs_maximal:
  "(i, x, n) \<in> set (runs s xs) \<Longrightarrow> i + n < s + length xs \<Longrightarrow> xs ! (i + n - s) \<noteq> x"
proof (induction s xs rule: runs.induct)
  case (2 s y ys)
  let ?n = "length (takeWhile (\<lambda>z. z = y) ys)"
  have le: "?n \<le> length ys" by (rule length_takeWhile_le)
  show ?case
  proof (cases "(i, x, n) = (s, y, Suc ?n)")
    case True
    with 2(3) have "?n < length ys" by simp
    from nth_length_takeWhile [OF this] True show ?thesis by simp
  next
    case False
    with 2(2) have r: "(i, x, n) \<in> set (runs (s + Suc ?n) (drop ?n ys))" by (auto simp: Let_def)
    with 2(1) [OF refl r] 2(3) le have "drop ?n ys ! (i + n - (s + Suc ?n)) \<noteq> x" by simp
    moreover have "s + Suc ?n \<le> i" using runs_bounds [OF r] by simp
    moreover from this have "i + n - s = Suc (i + n - Suc s)" by linarith
    ultimately show ?thesis using le 2(3) by simp
  qed
qed simp

subsection \<open>Writing disjoint blocks\<close>

lemma length_write_from: "i + length xs \<le> length out \<Longrightarrow> length (write_from i xs out) = length out"
  by (simp add: write_from_def)

lemma nth_write_from:
  "i + length xs \<le> length out \<Longrightarrow> q < length out \<Longrightarrow>
   write_from i xs out ! q = (if i \<le> q \<and> q < i + length xs then xs ! (q - i) else out ! q)"
  by (auto simp: write_from_def nth_append min_def)

lemma fold_write_from:
  assumes "sorted_wrt (\<lambda>a b. fst a + length (snd a) \<le> fst b) ws"
    "\<forall>(i, xs) \<in> set ws. i + length xs \<le> length out"
  shows "length (fold (\<lambda>(i, xs). write_from i xs) ws out) = length out \<and>
    (\<forall>i xs k. (i, xs) \<in> set ws \<longrightarrow> k < length xs \<longrightarrow> fold (\<lambda>(i, xs). write_from i xs) ws out ! (i + k) = xs ! k) \<and>
    (\<forall>q < length out. (\<forall>(i, xs) \<in> set ws. \<not> (i \<le> q \<and> q < i + length xs)) \<longrightarrow>
      fold (\<lambda>(i, xs). write_from i xs) ws out ! q = out ! q)"
  using assms
proof (induction ws arbitrary: out)
  case (Cons w ws)
  obtain j ys where w: "w = (j, ys)" by (cases w)
  let ?o = "write_from j ys out" and ?f = "fold (\<lambda>(i, xs). write_from i xs) ws"
  have jl: "j + length ys \<le> length out" using Cons.prems w by simp
  have lo: "length ?o = length out" using jl by (rule length_write_from)
  have bnd: "\<forall>(i, xs) \<in> set ws. i + length xs \<le> length ?o" using Cons.prems lo by auto
  have after: "\<forall>(i, xs) \<in> set ws. j + length ys \<le> i" using Cons.prems(1) w by auto
  have "sorted_wrt (\<lambda>a b. fst a + length (snd a) \<le> fst b) ws" using Cons.prems(1) by simp
  note IH = Cons.IH [OF this bnd]
  have keep: "?f ?o ! q = ?o ! q" if "q < length out" "\<forall>(i, xs) \<in> set ws. \<not> (i \<le> q \<and> q < i + length xs)" for q
    using IH that lo by simp
  have first: "?f ?o ! (j + k) = ys ! k" if "k < length ys" for k
    using keep [of "j + k"] that after jl by (force simp: nth_write_from)
  have "?f ?o ! q = out ! q" if "q < length out" "\<forall>(i, xs) \<in> set (w # ws). \<not> (i \<le> q \<and> q < i + length xs)" for q
    using keep [of q] that jl w by (auto simp: nth_write_from)
  with first IH lo w show ?case by auto
qed simp

subsection \<open>The placeholder runs of a prompt\<close>

lemma placeholder_runs_ordered: "sorted_wrt (\<lambda>(i, x, n) (i', x', n'). i + n \<le> i') (placeholder_runs ee ids)"
  unfolding placeholder_runs_def by (rule sorted_wrt_filter [OF runs_ordered])

lemma placeholder_runs_bounds:
  "(i, x, n) \<in> set (placeholder_runs ee ids) \<Longrightarrow>
   0 < n \<and> i + n \<le> length ids \<and> (\<forall>q. i \<le> q \<and> q < i + n \<longrightarrow> ids ! q = x) \<and> is_placeholder ee x"
proof -
  assume "(i, x, n) \<in> set (placeholder_runs ee ids)"
  then have r: "(i, x, n) \<in> set (runs 0 ids)" "is_placeholder ee x" by (auto simp: placeholder_runs_def)
  moreover have "ids ! q = x" if "i \<le> q" "q < i + n" for q
    using runs_bounds [OF r(1)] that by (auto dest: spec [of _ "q - i"])
  ultimately show ?thesis using runs_bounds [OF r(1)] by auto
qed

lemma not_in_placeholder_run:
  "q < length ids \<Longrightarrow> \<not> is_placeholder ee (ids ! q) \<Longrightarrow> (i, x, n) \<in> set (placeholder_runs ee ids) \<Longrightarrow>
   \<not> (i \<le> q \<and> q < i + n)"
  using placeholder_runs_bounds by blast

section \<open>The hashed prompt\<close>

lemma write_ids_write_from:
  assumes "nat (re_start_pos r) + nat (re_place_holder_cnt r) \<le> length ids"
  shows "write_ids r ids = write_from (nat (re_start_pos r)) (replicate (nat (re_place_holder_cnt r)) (re_hash r)) ids"
proof -
  have "i + n \<le> length ids \<Longrightarrow>
    fold (\<lambda>k xs. xs[i + k := v]) [0..<n] ids = write_from i (replicate n v) ids" for i n and v :: "64 word"
  proof (induction n)
    case (Suc n)
    have "replicate (Suc n) v ! (q - i) = v" if "i \<le> q" "q < i + n" for q
      using that by (subst nth_replicate) simp_all
    with Suc show ?case
      by (intro nth_equalityI)
        (auto simp: nth_write_from length_write_from nth_list_update less_Suc_eq
           simp del: replicate_Suc)
  qed (simp add: write_from_def)
  with assms show ?thesis by (simp add: write_ids_def)
qed

lemma fold_write_ids:
  assumes "\<forall>r \<in> set rs. nat (re_start_pos r) + nat (re_place_holder_cnt r) \<le> length ids"
  shows "fold write_ids rs ids =
    fold (\<lambda>(i, xs). write_from i xs)
      (map (\<lambda>r. (nat (re_start_pos r), replicate (nat (re_place_holder_cnt r)) (re_hash r))) rs) ids"
  using assms
proof (induction rs arbitrary: ids)
  case (Cons r rs)
  then show ?case by (simp add: write_ids_write_from length_write_from)
qed simp

text \<open>The three steps of \<open>CreateTensorForHash\<close> on the tokens of a request with embeddings.\<close>

definition hashed_ids :: "city_hash \<Rightarrow> tensor_list_map \<Rightarrow> 64 word list \<Rightarrow> exn + (as_status \<times> 64 word list)" where
  "hashed_ids city ee ids =
     bindE (ParseExtraEmbedding ee ids) (\<lambda>(st, rs).
       if st \<noteq> ALLSPARK_SUCCESS then Inr (st, [])
       else case HashEmbedding city ee rs of (st, rs) \<Rightarrow>
         if st \<noteq> ALLSPARK_SUCCESS then Inr (st, [])
         else Inr (ALLSPARK_SUCCESS, snd (ReplacePlaceHolder CPU rs ids)))"

lemma hashed_ids_success:
  assumes "shapes_ok ee" "ee \<noteq> []" "map_of ee ''hash_input'' = Some hs"
    "hashed_ids city ee ids = Inr (ALLSPARK_SUCCESS, ids')"
  shows "length hs = length (placeholder_runs ee ids)"
    and "ids' = fold (\<lambda>(i, xs). write_from i xs)
      (map2 (\<lambda>h (i, x, n). (i, replicate n (city (rt_bytes h)))) hs (placeholder_runs ee ids)) ids"
proof -
  let ?prs = "placeholder_runs ee ids"
  obtain rs where p: "ParseExtraEmbedding ee ids = Inr (ALLSPARK_SUCCESS, rs)"
    and lh: "length hs = length rs"
    and ids': "ids' = fold write_ids (map2 (\<lambda>t r. r\<lparr>re_hash := city (rt_bytes t)\<rparr>) hs rs) ids"
    using assms(3,4) by (auto simp: hashed_ids_def HashEmbedding_def ReplacePlaceHolder_def split: if_splits)
  have rs: "rs = map (run_info ee ?prs) [0..<length ?prs]" by (rule parse_success [OF assms(1,2) p])
  show l: "length hs = length ?prs" using lh rs by simp
  let ?h = "map2 (\<lambda>t r. r\<lparr>re_hash := city (rt_bytes t)\<rparr>) hs rs"
  have b: "\<forall>r \<in> set ?h. nat (re_start_pos r) + nat (re_place_holder_cnt r) \<le> length ids"
  proof
    fix r assume "r \<in> set ?h"
    then obtain j where "j < length ?prs" "re_start_pos r = int (fst (?prs ! j))"
      "re_place_holder_cnt r = int (snd (snd (?prs ! j)))"
      using l rs by (auto simp: set_zip run_info_def split: prod.splits)
    then show "nat (re_start_pos r) + nat (re_place_holder_cnt r) \<le> length ids"
      using placeholder_runs_bounds [of "fst (?prs ! j)" "fst (snd (?prs ! j))" "snd (snd (?prs ! j))" ee ids]
      by simp
  qed
  have "map (\<lambda>r. (nat (re_start_pos r), replicate (nat (re_place_holder_cnt r)) (re_hash r))) ?h
    = map2 (\<lambda>h (i, x, n). (i, replicate n (city (rt_bytes h)))) hs ?prs"
    using l rs by (intro nth_equalityI) (auto simp: run_info_def split: prod.splits)
  then show "ids' = fold (\<lambda>(i, xs). write_from i xs)
      (map2 (\<lambda>h (i, x, n). (i, replicate n (city (rt_bytes h)))) hs ?prs) ids"
    unfolding ids' fold_write_ids [OF b] by (rule arg_cong)
qed

lemma hash_blocks_ok:
  assumes "length hs = length (placeholder_runs ee ids)"
  shows "sorted_wrt (\<lambda>a b. fst a + length (snd a) \<le> fst b)
      (map2 (\<lambda>h (i, x, n). (i, replicate n (f h))) hs (placeholder_runs ee ids))"
    and "\<forall>(i, xs) \<in> set (map2 (\<lambda>h (i, x, n). (i, replicate n (f h))) hs (placeholder_runs ee ids)).
      i + length xs \<le> length ids"
proof -
  show "sorted_wrt (\<lambda>a b. fst a + length (snd a) \<le> fst b)
      (map2 (\<lambda>h (i, x, n). (i, replicate n (f h))) hs (placeholder_runs ee ids))"
    using placeholder_runs_ordered [of ee ids] assms
    by (fastforce simp: sorted_wrt_iff_nth_less split: prod.splits)
  show "\<forall>(i, xs) \<in> set (map2 (\<lambda>h (i, x, n). (i, replicate n (f h))) hs (placeholder_runs ee ids)).
      i + length xs \<le> length ids"
    by (auto dest!: set_zip_rightD placeholder_runs_bounds)
qed

lemma hashed_ids_nth:
  assumes "shapes_ok ee" "ee \<noteq> []" "map_of ee ''hash_input'' = Some hs"
    "hashed_ids city ee ids = Inr (ALLSPARK_SUCCESS, ids')"
  shows "length ids' = length ids"
    and "j < length (placeholder_runs ee ids) \<Longrightarrow> placeholder_runs ee ids ! j = (i, x, n) \<Longrightarrow> k < n \<Longrightarrow>
      ids' ! (i + k) = city (rt_bytes (hs ! j))"
    and "q < length ids \<Longrightarrow> \<not> is_placeholder ee (ids ! q) \<Longrightarrow> ids' ! q = ids ! q"
proof -
  let ?prs = "placeholder_runs ee ids"
  let ?ws = "map2 (\<lambda>h (i, x, n). (i, replicate n (city (rt_bytes h)))) hs ?prs"
  note l = hashed_ids_success(1) [OF assms] and ids' = hashed_ids_success(2) [OF assms]
  note w = fold_write_from [OF hash_blocks_ok [OF l, of "\<lambda>h. city (rt_bytes h)"], folded ids']
  show "length ids' = length ids" using w by simp
  show "ids' ! (i + k) = city (rt_bytes (hs ! j))"
    if "j < length ?prs" "?prs ! j = (i, x, n)" "k < n"
  proof -
    have "?ws ! j = (i, replicate n (city (rt_bytes (hs ! j))))" "j < length ?ws" using that l by simp_all
    then have "(i, replicate n (city (rt_bytes (hs ! j)))) \<in> set ?ws" by (metis nth_mem)
    with w that(3) have "ids' ! (i + k) = replicate n (city (rt_bytes (hs ! j))) ! k" by simp
    with that(3) show ?thesis by simp
  qed
  show "ids' ! q = ids ! q" if "q < length ids" "\<not> is_placeholder ee (ids ! q)"
  proof -
    have "\<forall>(i, xs) \<in> set ?ws. \<not> (i \<le> q \<and> q < i + length xs)"
      using that not_in_placeholder_run [OF that] by (auto dest!: set_zip_rightD)
    with w that(1) show ?thesis by blast
  qed
qed

section \<open>The copied rows\<close>

text \<open>What one CUDA copy writes, when it writes.\<close>

definition re_block :: "(byte list \<Rightarrow> 'e) \<Rightarrow> nat \<Rightarrow> reinfo \<Rightarrow> nat \<times> 'e list" where
  "re_block conv hidden r =
     (nat (re_start_pos r) * hidden,
      map (\<lambda>k. conv (float_at (rt_bytes (re_embedding r)) (nat (re_offset r) * hidden + k)))
        [0..<(nat (re_place_holder_cnt r) - nat (re_offset r)) * hidden])"

abbreviation re_kept :: "reinfo list \<Rightarrow> reinfo list" where
  "re_kept rs \<equiv> filter (\<lambda>r. 0 \<le> re_start_pos r) rs"

lemma loop_cuda_success:
  assumes "loopE (re_copy_cuda conv hidden) rs out = Inr (ALLSPARK_SUCCESS, out')"
  shows "out' = fold (\<lambda>(i, xs). write_from i xs) (map (re_block conv hidden) (re_kept rs)) out \<and>
    (\<forall>(i, xs) \<in> set (map (re_block conv hidden) (re_kept rs)). i + length xs \<le> length out)"
  using assms
proof (induction rs arbitrary: out)
  case (Cons r rs)
  show ?case
  proof (cases "re_start_pos r < 0")
    case True
    with Cons show ?thesis by (simp add: re_copy_cuda_def [of conv hidden r out])
  next
    case False
    let ?w = "write_from (fst (re_block conv hidden r)) (snd (re_block conv hidden r)) out"
    have b: "fst (re_block conv hidden r) + length (snd (re_block conv hidden r)) \<le> length out"
      and n: "loopE (re_copy_cuda conv hidden) rs ?w = Inr (ALLSPARK_SUCCESS, out')"
      using Cons.prems False by (auto simp: re_copy_cuda_def [of conv hidden r out] re_block_def Let_def)
    with Cons.IH [OF n] False show ?thesis by (auto simp: length_write_from split: prod.splits)
  qed
qed simp

text \<open>The rows of the run \<open>(i, x, n)\<close> that lie behind the prefix.\<close>

lemma update_run_info:
  fixes ee prs j p
  assumes "prs ! j = (i, x, n)" "0 < n" "0 \<le> p"
  defines "r \<equiv> update_reinfo p (run_info ee prs j)"
  shows "0 \<le> re_start_pos r \<longleftrightarrow> nat p < i + n"
    and "nat p < i + n \<Longrightarrow> nat (re_start_pos r) = i - nat p"
    and "nat p < i + n \<Longrightarrow> nat (re_offset r) = nat p - i"
    and "re_place_holder_cnt r = int n" and "re_embedding r = embeddings_of ee x ! earlier_runs prs j"
  using assms by (auto simp: update_reinfo_def run_info_def Let_def)

lemma update_reinfo_0: "0 \<le> re_start_pos r \<Longrightarrow> re_offset r = 0 \<Longrightarrow> update_reinfo 0 r = r"
  by (simp add: update_reinfo_def Let_def)

lemma UpdateREInfo_runs:
  "UpdateREInfo (map (run_info ee prs) js) p = map (\<lambda>j. update_reinfo p (run_info ee prs j)) js"
  by (auto simp: UpdateREInfo_def update_reinfo_0 run_info_def split: prod.splits)

text \<open>The blocks that the loop writes behind a prefix of length \<open>p\<close>.\<close>

definition run_blocks :: "(byte list \<Rightarrow> 'e) \<Rightarrow> nat \<Rightarrow> tensor_list_map \<Rightarrow> 64 word list \<Rightarrow> int \<Rightarrow> (nat \<times> 'e list) list" where
  "run_blocks conv hidden ee ids p =
     map (\<lambda>j. re_block conv hidden (update_reinfo p (run_info ee (placeholder_runs ee ids) j)))
       (filter (\<lambda>j. 0 \<le> re_start_pos (update_reinfo p (run_info ee (placeholder_runs ee ids) j)))
         [0..<length (placeholder_runs ee ids)])"

lemma run_block_eq:
  assumes "placeholder_runs ee ids ! j = (i, x, n)" "j < length (placeholder_runs ee ids)" "0 \<le> p" "nat p < i + n"
  shows "re_block conv hidden (update_reinfo p (run_info ee (placeholder_runs ee ids) j)) =
    ((i - nat p) * hidden,
     map (\<lambda>k. conv (float_at (rt_bytes (embeddings_of ee x ! earlier_runs (placeholder_runs ee ids) j))
       ((nat p - i) * hidden + k))) [0..<(n - (nat p - i)) * hidden])"
proof -
  have "0 < n" using placeholder_runs_bounds [of i x n ee ids] assms(1,2) by (metis nth_mem)
  from update_run_info [OF assms(1) this assms(3)] assms(4) show ?thesis by (simp add: re_block_def)
qed

lemma run_blocks_mem:
  assumes "(s, xs) \<in> set (run_blocks conv hidden ee ids p)" "0 \<le> p"
  obtains j i x n where "j < length (placeholder_runs ee ids)" "placeholder_runs ee ids ! j = (i, x, n)"
    "nat p < i + n" "s = (i - nat p) * hidden" "length xs = (n - (nat p - i)) * hidden"
proof -
  let ?prs = "placeholder_runs ee ids"
  obtain j where j: "j < length ?prs" "0 \<le> re_start_pos (update_reinfo p (run_info ee ?prs j))"
    "(s, xs) = re_block conv hidden (update_reinfo p (run_info ee ?prs j))"
    using assms(1) by (auto simp: run_blocks_def)
  obtain i x n where r: "?prs ! j = (i, x, n)" by (cases "?prs ! j")
  have "0 < n" using placeholder_runs_bounds [of i x n ee ids] r j(1) by (metis nth_mem)
  then have "nat p < i + n" using update_run_info(1) [OF r _ assms(2)] j(2) by blast
  with run_block_eq [OF r j(1) assms(2), of conv hidden] j(1,3) r that show thesis by simp
qed

lemma run_blocks_ordered:
  assumes "0 \<le> p"
  shows "sorted_wrt (\<lambda>a b. fst a + length (snd a) \<le> fst b) (run_blocks conv hidden ee ids p)"
proof -
  let ?prs = "placeholder_runs ee ids" and ?r = "\<lambda>j. update_reinfo p (run_info ee (placeholder_runs ee ids) j)"
  have "fst (re_block conv hidden (?r j)) + length (snd (re_block conv hidden (?r j))) \<le> fst (re_block conv hidden (?r j'))"
    if kept: "0 \<le> re_start_pos (?r j)" "0 \<le> re_start_pos (?r j')" and j: "j < j'" "j' < length ?prs" for j j'
  proof -
    obtain i x n where r: "?prs ! j = (i, x, n)" by (cases "?prs ! j")
    obtain i' x' n' where r': "?prs ! j' = (i', x', n')" by (cases "?prs ! j'")
    have n: "0 < n" "0 < n'" using placeholder_runs_bounds [of i x n ee ids] placeholder_runs_bounds [of i' x' n' ee ids]
      r r' j by (metis nth_mem order_less_trans)+
    have o: "i + n \<le> i'" using sorted_wrt_nth_less [OF placeholder_runs_ordered j] r r' by simp
    have p: "nat p < i + n" "nat p < i' + n'"
      using update_run_info(1) [OF r n(1) assms] update_run_info(1) [OF r' n(2) assms] kept by blast+
    have "(i - nat p) + (n - (nat p - i)) \<le> i' - nat p" using o p by linarith
    then have "(i - nat p) * hidden + (n - (nat p - i)) * hidden \<le> (i' - nat p) * hidden"
      by (metis add_mult_distrib mult_le_mono1)
    with run_block_eq [OF r _ assms p(1), of conv hidden] run_block_eq [OF r' j(2) assms p(2), of conv hidden] j
    show ?thesis by simp
  qed
  then show ?thesis
    unfolding run_blocks_def sorted_wrt_map
    by (intro sorted_wrt_mono_rel [OF _ sorted_wrt_filter [OF sorted_wrt_upt]]) auto
qed

lemma forward_blocks:
  assumes "shapes_ok ee" "ee \<noteq> []"
    "RichEmbeddingOp_Forward (re_copy_cuda conv hidden) True 1 ee ids p out = Inr (ALLSPARK_SUCCESS, out')"
  shows "out' = fold (\<lambda>(i, xs). write_from i xs) (run_blocks conv hidden ee ids p) out"
    and "\<forall>(i, xs) \<in> set (run_blocks conv hidden ee ids p). i + length xs \<le> length out"
proof -
  let ?prs = "placeholder_runs ee ids"
  obtain rs where p: "ParseExtraEmbedding ee ids = Inr (ALLSPARK_SUCCESS, rs)"
    and l: "loopE (re_copy_cuda conv hidden) (UpdateREInfo rs p) out = Inr (ALLSPARK_SUCCESS, out')"
    using assms(2,3) by (auto simp: RichEmbeddingOp_Forward_def split: if_splits)
  have "UpdateREInfo rs p = map (\<lambda>j. update_reinfo p (run_info ee ?prs j)) [0..<length ?prs]"
    using parse_success [OF assms(1,2) p] by (simp add: UpdateREInfo_runs)
  then have "map (re_block conv hidden) (re_kept (UpdateREInfo rs p)) = run_blocks conv hidden ee ids p"
    by (simp add: run_blocks_def filter_map comp_def)
  with loop_cuda_success [OF l]
  show "out' = fold (\<lambda>(i, xs). write_from i xs) (run_blocks conv hidden ee ids p) out"
    and "\<forall>(i, xs) \<in> set (run_blocks conv hidden ee ids p). i + length xs \<le> length out" by simp_all
qed

lemma row_split:
  fixes q i p n c :: nat
  assumes "i \<le> q" "q < i + n" "p \<le> q" "c < hidden"
  obtains k where "(q - p) * hidden + c = (i - p) * hidden + k" "k < (n - (p - i)) * hidden"
    "(p - i) * hidden + k = (q - i) * hidden + c"
proof (rule that [of "(q - p - (i - p)) * hidden + c"])
  have "q - p = (i - p) + (q - p - (i - p))" using assms(1,3) by linarith
  then show "(q - p) * hidden + c = (i - p) * hidden + ((q - p - (i - p)) * hidden + c)"
    by (metis add.assoc add_mult_distrib)
  have "(p - i) + (q - p - (i - p)) = q - i" using assms(1,3) by linarith
  then show "(p - i) * hidden + ((q - p - (i - p)) * hidden + c) = (q - i) * hidden + c"
    by (metis add.assoc add_mult_distrib)
  have "Suc (q - p - (i - p)) \<le> n - (p - i)" using assms(1-3) by linarith
  then have "Suc (q - p - (i - p)) * hidden \<le> (n - (p - i)) * hidden" by (rule mult_le_mono1)
  with assms(4) show "(q - p - (i - p)) * hidden + c < (n - (p - i)) * hidden" by simp
qed

section \<open>Theorems\<close>

text \<open>C35: \<open>ParseExtraEmbedding\<close> finds exactly the maximal runs of placeholder tokens of the prompt, in
  order; the \<open>k\<close>-th run of a token is paired with the \<open>k\<close>-th embedding listed for it. The
  call succeeds if and only if every run has an embedding with as many rows as the run has tokens, and
  otherwise returns \<open>ALLSPARK_PARAM_ERROR\<close> with the runs before the first that does not fit.\<close>

theorem ParseExtraEmbedding_finds_runs:
  fixes ee :: tensor_list_map and ids :: "64 word list"
  assumes "shapes_ok ee" "ee \<noteq> []"
  defines "prs \<equiv> filter (\<lambda>(i, tok, n). is_placeholder ee tok) (runs 0 ids)"
  defines "good \<equiv> takeWhile (run_fits ee prs) [0..<length prs]"
  shows "ParseExtraEmbedding ee ids =
    Inr (if length good = length prs then ALLSPARK_SUCCESS else ALLSPARK_PARAM_ERROR, map (run_info ee prs) good)"
  using assms ParseExtraEmbedding_eq [OF assms(1,2), of ids]
  by (simp add: parse_result_def placeholder_runs_def Let_def)

definition demo_embedding :: "nat \<Rightarrow> byte list \<Rightarrow> re_tensor" where
  "demo_embedding rows bs = \<lparr>rt_shape = [int rows, 1], rt_bytes = bs\<rparr>"

definition demo_media :: tensor_list_map where
  "demo_media = [(''9'', [demo_embedding 2 [1, 0, 0, 0, 2, 0, 0, 0], demo_embedding 1 [3, 0, 0, 0]]),
                 (''hash_input'', [demo_embedding 2 [7], demo_embedding 1 [8]])]"

definition demo_ids :: "64 word list" where
  "demo_ids = [5, 9, 9, 6, 9]"

lemma demo_media_ok: "shapes_ok demo_media" "demo_media \<noteq> []"
  by (simp_all add: shapes_ok_def demo_media_def demo_embedding_def)

lemma demo_media_runs: "runs 0 demo_ids = [(0, 5, 1), (1, 9, 2), (3, 6, 1), (4, 9, 1)]"
  by (simp add: demo_ids_def Let_def)

lemma demo_is_placeholder:
  "is_placeholder demo_media 5 = False" "is_placeholder demo_media 6 = False" "is_placeholder demo_media 9 = True"
  by (code_simp+)

lemma demo_placeholder_runs: "placeholder_runs demo_media demo_ids = [(1, 9, 2), (4, 9, 1)]"
  by (simp add: placeholder_runs_def demo_media_runs demo_is_placeholder)

theorem ParseExtraEmbedding_finds_runs_witness:
  "map (\<lambda>r. (re_start_pos r, re_place_holder_cnt r)) (snd (projr (ParseExtraEmbedding demo_media demo_ids)))
     = [(1, 2), (4, 1)]"
proof -
  have "takeWhile (run_fits demo_media [(1, 9, 2), (4, 9, 1)]) [0..<length [(1::nat, 9::64 word, 2::nat), (4, 9, 1)]] = [0, 1]"
    by code_simp
  moreover have "filter (\<lambda>(i, tok, n). is_placeholder demo_media tok) (runs 0 demo_ids) = [(1, 9, 2), (4, 9, 1)]"
    by (simp add: demo_media_runs demo_is_placeholder)
  ultimately show ?thesis
    unfolding ParseExtraEmbedding_finds_runs [OF demo_media_ok] by (simp add: run_info_def)
qed

text \<open>C36: The prompt that keys the prefix cache has the length of the prompt; every token of the
  \<open>j\<close>-th placeholder run is replaced by the hash of the \<open>j\<close>-th hash input, and every other
  token is kept.\<close>

theorem hashed_prompt_replaces_runs:
  assumes "shapes_ok ee" "ee \<noteq> []" "map_of ee ''hash_input'' = Some hs"
    "hashed_ids city ee ids = Inr (ALLSPARK_SUCCESS, ids')"
  shows "length ids' = length ids \<and>
    (\<forall>q < length ids. \<not> is_placeholder ee (ids ! q) \<longrightarrow> ids' ! q = ids ! q) \<and>
    (\<forall>j < length (placeholder_runs ee ids). \<forall>i x n k. placeholder_runs ee ids ! j = (i, x, n) \<longrightarrow> k < n \<longrightarrow>
       ids' ! (i + k) = city (rt_bytes (hs ! j)))"
  using hashed_ids_nth [OF assms] by blast

definition demo_city :: city_hash where
  "demo_city bs = ucast (hd bs) + 1000"

theorem hashed_prompt_replaces_runs_witness:
  "hashed_ids demo_city demo_media demo_ids = Inr (ALLSPARK_SUCCESS, [5, 1007, 1007, 6, 1008]) \<and>
   [5, 1007, 1007, 6, 1008 :: 64 word] ! (1 + 1) = demo_city [7]"
proof -
  have h: "hashed_ids demo_city demo_media demo_ids = Inr (ALLSPARK_SUCCESS, [5, 1007, 1007, 6, 1008])"
    by code_simp
  have m: "map_of demo_media ''hash_input'' = Some [demo_embedding 2 [7], demo_embedding 1 [8]]"
    by (simp add: demo_media_def)
  have "placeholder_runs demo_media demo_ids ! 0 = (1, 9, 2)" by (simp add: demo_placeholder_runs)
  with hashed_prompt_replaces_runs [OF demo_media_ok m h] have
    "[5, 1007, 1007, 6, 1008 :: 64 word] ! (1 + 1) = demo_city (rt_bytes ([demo_embedding 2 [7], demo_embedding 1 [8]] ! 0))"
    by (metis demo_placeholder_runs length_Cons one_less_numeral_iff semiring_norm(76) zero_less_Suc)
  with h show ?thesis by (simp add: demo_embedding_def)
qed

text \<open>C37: When \<open>p\<close> tokens of the prompt come from the prefix cache, \<open>RichEmbeddingOp\<close> on CUDA
  writes, for every position \<open>q\<close> from \<open>p\<close> on inside a placeholder run, the row of the run's
  embedding that belongs to \<open>q\<close> into row \<open>q - p\<close> of the output, and leaves the rows of other
  tokens unchanged.\<close>

theorem RichEmbedding_copies_rows:
  assumes "shapes_ok ee" "ee \<noteq> []" "0 \<le> p"
    "RichEmbeddingOp_Forward (re_copy_cuda conv hidden) True 1 ee ids p out = Inr (ALLSPARK_SUCCESS, out')"
  shows "length out' = length out \<and>
    (\<forall>j < length (placeholder_runs ee ids). \<forall>i x n q c. placeholder_runs ee ids ! j = (i, x, n) \<longrightarrow>
       i \<le> q \<longrightarrow> q < i + n \<longrightarrow> nat p \<le> q \<longrightarrow> c < hidden \<longrightarrow>
       out' ! ((q - nat p) * hidden + c) =
         conv (float_at (rt_bytes (embeddings_of ee x ! earlier_runs (placeholder_runs ee ids) j)) ((q - i) * hidden + c))) \<and>
    (\<forall>q c. nat p \<le> q \<longrightarrow> q < length ids \<longrightarrow> c < hidden \<longrightarrow> \<not> is_placeholder ee (ids ! q) \<longrightarrow>
       (q - nat p) * hidden + c < length out \<longrightarrow>
       out' ! ((q - nat p) * hidden + c) = out ! ((q - nat p) * hidden + c))"
proof -
  let ?prs = "placeholder_runs ee ids" and ?ws = "run_blocks conv hidden ee ids p"
  note f = forward_blocks [OF assms(1,2,4)]
  note w = fold_write_from [OF run_blocks_ordered [OF assms(3), of conv hidden ee ids] f(2), folded f(1)]
  have "out' ! ((q - nat p) * hidden + c) =
      conv (float_at (rt_bytes (embeddings_of ee x ! earlier_runs ?prs j)) ((q - i) * hidden + c))"
    if j: "j < length ?prs" "?prs ! j = (i, x, n)" and q: "i \<le> q" "q < i + n" "nat p \<le> q" "c < hidden" for j i x n q c
  proof -
    have p: "nat p < i + n" using q by linarith
    let ?b = "re_block conv hidden (update_reinfo p (run_info ee ?prs j))"
    have n: "0 < n" using q by linarith
    have "0 \<le> re_start_pos (update_reinfo p (run_info ee ?prs j))"
      using update_run_info(1) [OF j(2) n assms(3)] p by blast
    then have "(fst ?b, snd ?b) \<in> set ?ws" using j(1) by (auto simp: run_blocks_def)
    note b = run_block_eq [OF j(2,1) assms(3) p, of conv hidden]
    from q obtain k where r: "(q - nat p) * hidden + c = (i - nat p) * hidden + k"
      "k < (n - (nat p - i)) * hidden" "(nat p - i) * hidden + k = (q - i) * hidden + c"
      by (rule row_split)
    have "out' ! (fst ?b + k) = snd ?b ! k"
      using w \<open>(fst ?b, snd ?b) \<in> set ?ws\<close> r(2) b by simp
    then show ?thesis using b r by simp
  qed
  moreover have "out' ! ((q - nat p) * hidden + c) = out ! ((q - nat p) * hidden + c)"
    if q: "nat p \<le> q" "q < length ids" "c < hidden" "\<not> is_placeholder ee (ids ! q)" "(q - nat p) * hidden + c < length out" for q c
  proof -
    have "\<not> (s \<le> (q - nat p) * hidden + c \<and> (q - nat p) * hidden + c < s + length xs)"
      if m: "(s, xs) \<in> set ?ws" for s xs
      using m assms(3)
    proof (cases rule: run_blocks_mem)
      case (1 j i x n)
      have out: "\<not> (i \<le> q \<and> q < i + n)" using not_in_placeholder_run [OF q(2,4)] 1(1,2) by (metis nth_mem)
      show ?thesis
      proof (cases "q < i")
        case True
        then have "Suc (q - nat p) \<le> i - nat p" using q(1) by linarith
        then have "Suc (q - nat p) * hidden \<le> (i - nat p) * hidden" by (rule mult_le_mono1)
        with 1(4) q(3) show ?thesis by simp
      next
        case False
        with out 1(3) have "(i - nat p) + (n - (nat p - i)) \<le> q - nat p" by linarith
        then have "((i - nat p) + (n - (nat p - i))) * hidden \<le> (q - nat p) * hidden" by (rule mult_le_mono1)
        with 1(4,5) show ?thesis by (simp add: add_mult_distrib)
      qed
    qed
    with w q(5) show ?thesis by blast
  qed
  ultimately show ?thesis using w by simp
qed

lemma demo_forward:
  "RichEmbeddingOp_Forward (re_copy_cuda hd 1) True 1 demo_media demo_ids 2 [0, 0, 0] = Inr (ALLSPARK_SUCCESS, [2, 0, 3])"
  by code_simp

theorem RichEmbedding_copies_rows_witness:
  "[2, 0, 3 :: byte] ! ((2 - nat 2) * 1 + 0) = hd (float_at [1, 0, 0, 0, 2, 0, 0, 0] ((2 - 1) * 1 + 0))"
proof -
  have "placeholder_runs demo_media demo_ids ! 0 = (1, 9, 2)" "0 < length (placeholder_runs demo_media demo_ids)"
    by (simp_all add: demo_placeholder_runs)
  then have "[2, 0, 3 :: byte] ! ((2 - nat 2) * 1 + 0) =
    hd (float_at (rt_bytes (embeddings_of demo_media 9 ! earlier_runs (placeholder_runs demo_media demo_ids) 0)) ((2 - 1) * 1 + 0))"
    using RichEmbedding_copies_rows [OF demo_media_ok _ demo_forward] by fastforce
  moreover have "rt_bytes (embeddings_of demo_media 9 ! 0) = [1, 0, 0, 0, 2, 0, 0, 0]" by code_simp
  ultimately show ?thesis by (simp add: earlier_runs_def)
qed

text \<open>The CPU branch agrees with the CUDA branch when no part of the run is cached, and copies from the
  wrong place of the embedding otherwise.\<close>

lemma cpu_copy_ignores_word_size:
  "\<exists>r out. re_offset r = 1 \<and> re_copy_cpu FLOAT32 1 r out = Inr (ALLSPARK_SUCCESS, [0, 0, 0, 2]) \<and>
     float_at (rt_bytes (re_embedding r)) 1 = [2, 0, 0, 0]"
proof (intro exI conjI)
  let ?r = "\<lparr>re_place_holder_token = 9, re_place_holder_str = ''9'', re_start_pos = 0, re_place_holder_cnt = 2,
    re_offset = 1, re_hash = 0, re_embedding = demo_embedding 2 [1, 0, 0, 0, 2, 0, 0, 0]\<rparr>"
  show "re_offset ?r = 1" by simp
  show "re_copy_cpu FLOAT32 1 ?r [0, 0, 0, 0] = Inr (ALLSPARK_SUCCESS, [0, 0, 0, 2])" by code_simp
  show "float_at (rt_bytes (re_embedding ?r)) 1 = [2, 0, 0, 0]" by code_simp
qed

end
