(* ===== verification/Model_State.thy ===== *)
theory Model_State
  imports Prefix_Fill Rich_Embedding
begin

text \<open>
  The state of \<open>AsModel\<close> (\<open>core/model/model.h\<close>): requests (\<open>common/request.h\<close>), generation
  contexts and the runtime context (\<open>common/generate_context.h\<close>), the token tensors of the requests
  and the cache managers. Objects that the code shares through pointers, tensors and requests, live in
  stores and are named by their index; a generation context is only reached through the list of the
  runtime context and is stored there.

  Numeric kernels and the random sampler are parameters: they see the state and change only the
  device tensors, whose type is \<open>'x\<close>. Time is a parameter of the operations that read the clock.
\<close>

section \<open>Token tensors\<close>

text \<open>
  A tensor of token ids: its shape, and its buffer, which may be larger than the shape says. An
  element that was never written is \<open>None\<close>. Growing beyond the buffer replaces it by a new one.
\<close>

record tok_tensor =
  tt_name :: string
  tt_device :: device_type
  tt_shape :: shape
  tt_buf :: "64 word option list"

type_synonym tensor_ptr = nat
type_synonym tensor_map = "(string \<times> tensor_ptr) list"

definition shape_count :: "shape \<Rightarrow> nat" where
  "shape_count s = (if s = [] then 0 else nat (prod_list s))"

definition tt_new :: "string \<Rightarrow> device_type \<Rightarrow> shape \<Rightarrow> tok_tensor" where
  "tt_new name dev s = \<lparr>tt_name = name, tt_device = dev, tt_shape = s, tt_buf = replicate (shape_count s) None\<rparr>"

definition tt_SetShape :: "shape \<Rightarrow> tok_tensor \<Rightarrow> tok_tensor" where
  "tt_SetShape s t =
     (if shape_count s \<le> length (tt_buf t) then t\<lparr>tt_shape := s\<rparr>
      else t\<lparr>tt_shape := s, tt_buf := replicate (shape_count s) None\<rparr>)"

text \<open>The elements that the shape covers.\<close>

definition tt_ids :: "tok_tensor \<Rightarrow> 64 word option list" where
  "tt_ids t = take (shape_count (tt_shape t)) (tt_buf t)"

text \<open>The tokens, when all of them were written.\<close>

definition tt_tokens :: "tok_tensor \<Rightarrow> exn + 64 word list" where
  "tt_tokens t = (if None \<in> set (tt_ids t) then Inl UndefinedBehaviour else Inr (map the (tt_ids t)))"

text \<open>\<open>AsTensor(new_name, src)\<close> copies the elements of the shape.\<close>

definition tt_copy :: "string \<Rightarrow> tok_tensor \<Rightarrow> exn + tok_tensor" where
  "tt_copy name t =
     (if tt_name t = name then Inl (AsException ALLSPARK_UNKNOWN_ERROR)
      else Inr \<lparr>tt_name = name, tt_device = tt_device t, tt_shape = tt_shape t, tt_buf = tt_ids t\<rparr>)"

text \<open>\<open>TensorUtils::DeepCopyWholeAsync\<close> needs equal shapes and copies the whole buffer of the source.\<close>

definition DeepCopyWhole :: "tok_tensor \<Rightarrow> tok_tensor \<Rightarrow> exn + tok_tensor" where
  "DeepCopyWhole dst src =
     (if tt_shape dst \<noteq> tt_shape src then Inl StdInvalidArgument
      else if tt_buf src = [] then Inr dst
      else if length (tt_buf dst) < length (tt_buf src) then Inl UndefinedBehaviour
      else Inr (dst\<lparr>tt_buf := tt_buf src @ drop (length (tt_buf src)) (tt_buf dst)\<rparr>))"

section \<open>Requests\<close>

datatype gen_status = Init | ContextFinished | Generating | GenerateFinished | GenerateInterrupted | InternalError

record gen_config =
  gc_do_sample :: bool
  gc_num_beams :: int
  gc_early_stopping :: bool
  gc_stop_words_ids :: "64 word list list"
  gc_eos_token_id :: int
  gc_max_length :: int
  gc_lora_name :: string
  gc_input_len :: int

type_synonym req_ptr = nat

record request =
  rq_id :: string
  rq_inputs :: tensor_map
  rq_outputs :: tensor_map
  rq_interim :: tensor_map
  rq_gen_cfg :: gen_config
  rq_finish :: bool
  rq_input_len :: int
  rq_origin_len :: int
  rq_prefill_chunk_len :: int
  rq_prefix_len :: int
  rq_prefix_len_gpu :: int
  rq_generated_len :: nat
  rq_status :: gen_status
  rq_extra_embedding :: tensor_list_map
  rq_enqueue_ts :: int
  rq_start_ts :: int
  rq_context_ts :: int
  rq_generate_ts :: int

definition Request_new ::
  "int \<Rightarrow> string \<Rightarrow> tensor_map \<Rightarrow> tensor_map \<Rightarrow> gen_config \<Rightarrow> tensor_map \<Rightarrow> request" where
  "Request_new now request_id ins outs gen_cfg interim =
     \<lparr>rq_id = request_id, rq_inputs = ins, rq_outputs = outs, rq_interim = interim, rq_gen_cfg = gen_cfg,
      rq_finish = False, rq_input_len = 0, rq_origin_len = 0, rq_prefill_chunk_len = 0, rq_prefix_len = 0,
      rq_prefix_len_gpu = 0, rq_generated_len = 0, rq_status = Init, rq_extra_embedding = [],
      rq_enqueue_ts = 0, rq_start_ts = now, rq_context_ts = 0, rq_generate_ts = 0\<rparr>"

section \<open>Generation contexts\<close>

record gen_context =
  gx_step :: int
  gx_in_length_bias :: int
  gx_max_length :: int
  gx_num_beams :: int
  gx_batch_size :: int
  gx_only_decoder :: bool
  gx_finish :: bool
  gx_current_batch :: int
  gx_generate_method :: int
  gx_gen_over :: bool
  gx_input_len :: int
  gx_real_input_len :: int
  gx_prefix_len :: int
  gx_gen_cfg :: gen_config
  gx_request :: req_ptr
  gx_engine_max_length :: int
  gx_virtual_k_cache :: "virtual_cache option"
  gx_virtual_v_cache :: "virtual_cache option"
  gx_prefix_cache_node_list :: "node_ptr list"

section \<open>The model\<close>

text \<open>The operators of a graph. Those that touch requests or caches are listed; the others compute on
  device tensors only and carry their name.\<close>

datatype as_op = PreProcessIdOp | EmbeddingT5Op | SpanAttnOp int | GenerateOp | UpdateIdOp string | KernelOp string

record model_cfg =
  mc_device :: device_type
  mc_max_length :: int
  mc_max_batch :: int
  mc_max_prefill_length :: int
  mc_span_size :: int
  mc_cache_config :: span_cache_config
  mc_layers :: int
  mc_heads :: int
  mc_size_per_head :: int
  mc_rank :: int
  mc_frame_manager :: bool
  mc_prefix_cache :: bool
  mc_pre_graph :: "as_op list"
  mc_decoder :: "as_op list"
  mc_gen_graph :: "as_op list"
  mc_post_graph :: "as_op list"
  mc_topo_ops :: "as_op list"

text \<open>
  \<open>am_pcm\<close> is the prefix cache manager together with the span and frame manager that it shares with
  the model; \<open>mc_frame_manager\<close> and \<open>mc_prefix_cache\<close> say whether the two pointers are set.
  \<open>am_act_shape\<close> is batch and length of the activations, \<open>am_attn_shape\<close> what an attention
  operator took from them when it was last reshaped.
\<close>

record ('d, 'm, 'x) as_model =
  am_tensors :: "tok_tensor list"
  am_requests :: "request list"
  am_pending :: "req_ptr list"
  am_request_map :: "(string \<times> req_ptr) list"
  am_gen_ctx_list :: "gen_context list"
  am_is_context :: bool
  am_current_batch :: nat
  am_unfinished :: int
  am_already_context_length :: int
  am_cache_set :: "(string \<times> bool) list"
  am_model_step :: int
  am_loras :: "string list"
  am_mask_shape :: shape
  am_act_shape :: "nat \<times> nat"
  am_attn_shape :: "int \<Rightarrow> nat \<times> nat"
  am_pcm :: "('d, 'm) pcm"
  am_x :: 'x

datatype op_phase = PhReshape | PhAlloc | PhForward

record ('d, 'm, 'x) model_env =
  en_enqueue :: enqueue_ok
  en_city :: city_hash
  en_now :: int
  en_kernel :: "as_op \<Rightarrow> op_phase \<Rightarrow> ('d, 'm, 'x) as_model \<Rightarrow> (as_status, 'x) outcome"
  en_sample :: "('d, 'm, 'x) as_model \<Rightarrow> 64 word list"

abbreviation frame_mgr :: "('d, 'm, 'x) as_model \<Rightarrow> 'm concurrent_fm" where
  "frame_mgr m \<equiv> csm_frame_manager (gpu_sm (am_pcm m))"

abbreviation tensor :: "('d, 'm, 'x) as_model \<Rightarrow> tensor_ptr \<Rightarrow> tok_tensor" where
  "tensor m t \<equiv> am_tensors m ! t"

abbreviation req :: "('d, 'm, 'x) as_model \<Rightarrow> req_ptr \<Rightarrow> request" where
  "req m r \<equiv> am_requests m ! r"

abbreviation ctx :: "('d, 'm, 'x) as_model \<Rightarrow> nat \<Rightarrow> gen_context" where
  "ctx m i \<equiv> am_gen_ctx_list m ! i"

definition upd_tensor :: "tensor_ptr \<Rightarrow> tok_tensor \<Rightarrow> ('d, 'm, 'x) as_model \<Rightarrow> ('d, 'm, 'x) as_model" where
  "upd_tensor p t m = m\<lparr>am_tensors := (am_tensors m)[p := t]\<rparr>"

definition new_tensor :: "tok_tensor \<Rightarrow> ('d, 'm, 'x) as_model \<Rightarrow> tensor_ptr \<times> ('d, 'm, 'x) as_model" where
  "new_tensor t m = (length (am_tensors m), m\<lparr>am_tensors := am_tensors m @ [t]\<rparr>)"

definition upd_req :: "req_ptr \<Rightarrow> (request \<Rightarrow> request) \<Rightarrow> ('d, 'm, 'x) as_model \<Rightarrow> ('d, 'm, 'x) as_model" where
  "upd_req r f m = m\<lparr>am_requests := (am_requests m)[r := f (req m r)]\<rparr>"

definition new_req :: "request \<Rightarrow> ('d, 'm, 'x) as_model \<Rightarrow> req_ptr \<times> ('d, 'm, 'x) as_model" where
  "new_req q m = (length (am_requests m), m\<lparr>am_requests := am_requests m @ [q]\<rparr>)"

definition upd_ctx :: "nat \<Rightarrow> (gen_context \<Rightarrow> gen_context) \<Rightarrow> ('d, 'm, 'x) as_model \<Rightarrow> ('d, 'm, 'x) as_model" where
  "upd_ctx i f m = m\<lparr>am_gen_ctx_list := (am_gen_ctx_list m)[i := f (ctx m i)]\<rparr>"

text \<open>\<open>map.at(key)\<close>, and \<open>map.insert\<close>, which keeps an entry that is already there.\<close>

definition map_at :: "tensor_map \<Rightarrow> string \<Rightarrow> exn + tensor_ptr" where
  "map_at tm key = (case map_of tm key of Some p \<Rightarrow> Inr p | None \<Rightarrow> Inl StdOutOfRange)"

definition map_insert :: "string \<Rightarrow> 'v \<Rightarrow> (string \<times> 'v) list \<Rightarrow> (string \<times> 'v) list" where
  "map_insert key v tm = (case map_of tm key of Some _ \<Rightarrow> tm | None \<Rightarrow> AList.update key v tm)"

text \<open>A pure computation that may fail, inside one with state.\<close>

definition liftE :: "exn + 'a \<Rightarrow> 's \<Rightarrow> ('a, 's) outcome" where
  "liftE v s = (v, s)"

text \<open>\<open>AS_CHECK_STATUS\<close>, and a test for success only.\<close>

definition checkStatus ::
  "(as_status, 's) outcome \<Rightarrow> ('s \<Rightarrow> (as_status, 's) outcome) \<Rightarrow> (as_status, 's) outcome" where
  "checkStatus a k =
     andThen a (\<lambda>st s. if st = ALLSPARK_SUCCESS \<or> st = ALLSPARK_STREAMING then k s else ret st s)"

definition thenOk ::
  "(as_status, 's) outcome \<Rightarrow> ('s \<Rightarrow> (as_status, 's) outcome) \<Rightarrow> (as_status, 's) outcome" where
  "thenOk a k = andThen a (\<lambda>st s. if st = ALLSPARK_SUCCESS then k s else ret st s)"

section \<open>The runtime context\<close>

definition GetGenCtxListSize :: "('d, 'm, 'x) as_model \<Rightarrow> int" where
  "GetGenCtxListSize m = int (length (am_gen_ctx_list m))"

definition PushBackGenCtx :: "gen_context \<Rightarrow> ('d, 'm, 'x) as_model \<Rightarrow> ('d, 'm, 'x) as_model" where
  "PushBackGenCtx g m =
     m\<lparr>am_gen_ctx_list := am_gen_ctx_list m @ [g\<lparr>gx_current_batch := int (length (am_gen_ctx_list m))\<rparr>]\<rparr>"

definition PopBackGenCtx :: "('d, 'm, 'x) as_model \<Rightarrow> (unit, ('d, 'm, 'x) as_model) outcome" where
  "PopBackGenCtx m =
     (if am_gen_ctx_list m = [] then (Inl UndefinedBehaviour, m)
      else ret () (m\<lparr>am_gen_ctx_list := butlast (am_gen_ctx_list m)\<rparr>))"

text \<open>\<open>FinishRequest\<close>: the last context takes the place of the finished one.\<close>

definition FinishRequest :: "nat \<Rightarrow> ('d, 'm, 'x) as_model \<Rightarrow> ('d, 'm, 'x) as_model" where
  "FinishRequest index m =
     (let m1 = upd_req (gx_request (ctx m index)) (\<lambda>q. q\<lparr>rq_finish := True, rq_status := GenerateFinished\<rparr>) m;
          gs = am_gen_ctx_list m1
      in m1\<lparr>am_gen_ctx_list := butlast (gs[index := (last gs)\<lparr>gx_current_batch := int index\<rparr>])\<rparr>)"

text \<open>\<open>LayerCacheManager\<close>: which named caches are set.\<close>

definition IsCacheSet :: "string \<Rightarrow> ('d, 'm, 'x) as_model \<Rightarrow> bool" where
  "IsCacheSet name m = (case map_of (am_cache_set m) name of Some b \<Rightarrow> b | None \<Rightarrow> False)"

definition CreateCache :: "string \<Rightarrow> ('d, 'm, 'x) as_model \<Rightarrow> ('d, 'm, 'x) as_model" where
  "CreateCache name m = m\<lparr>am_cache_set := AList.update name False (am_cache_set m)\<rparr>"

definition SetCache :: "string \<Rightarrow> ('d, 'm, 'x) as_model \<Rightarrow> ('d, 'm, 'x) as_model" where
  "SetCache name m = m\<lparr>am_cache_set := AList.update name True (am_cache_set m)\<rparr>"

definition ResetCache :: "string \<Rightarrow> ('d, 'm, 'x) as_model \<Rightarrow> ('d, 'm, 'x) as_model" where
  "ResetCache name m = m\<lparr>am_cache_set := AList.update name False (am_cache_set m)\<rparr>"

text \<open>\<open>ErrorProcess\<close> replaces the context that counts the steps of the model.\<close>

definition ErrorProcess :: "as_status \<Rightarrow> ('d, 'm, 'x) as_model \<Rightarrow> (as_status, ('d, 'm, 'x) as_model) outcome" where
  "ErrorProcess st m = ret st (m\<lparr>am_model_step := 0\<rparr>)"

end
