(* ===== verification/Model_Ops.thy ===== *)
theory Model_Ops
  imports Model_State
begin

text \<open>
  The operators that read and write requests, generation contexts and caches:
  \<open>PreProcessIdOp\<close>, \<open>EmbeddingT5Op\<close>, \<open>SpanAttnOp\<close>, \<open>GenerateOp\<close> and
  \<open>UpdateIdOp\<close> (\<open>core/operator/generate_opt\<close>, \<open>core/operator/general\<close>), and how a graph
  of operators is run. The arithmetic of all operators is the parameter \<open>en_kernel\<close>, the sampled
  tokens are the parameter \<open>en_sample\<close>.
\<close>

definition kernel ::
  "('d, 'm, 'x) model_env \<Rightarrow> as_op \<Rightarrow> op_phase \<Rightarrow> ('d, 'm, 'x) as_model \<Rightarrow> (as_status, ('d, 'm, 'x) as_model) outcome" where
  "kernel e op ph m = (case en_kernel e op ph m of (r, x) \<Rightarrow> (r, m\<lparr>am_x := x\<rparr>))"

text \<open>\<open>GetGenCtx(i)\<close>: an index outside the list is undefined.\<close>

definition with_ctx ::
  "nat \<Rightarrow> (gen_context \<Rightarrow> ('d, 'm, 'x) as_model \<Rightarrow> ('a, ('d, 'm, 'x) as_model) outcome) \<Rightarrow> ('d, 'm, 'x) as_model \<Rightarrow>
   ('a, ('d, 'm, 'x) as_model) outcome" where
  "with_ctx i k m = (if i < length (am_gen_ctx_list m) then k (ctx m i) m else (Inl UndefinedBehaviour, m))"

definition interim_at :: "req_ptr \<Rightarrow> string \<Rightarrow> ('d, 'm, 'x) as_model \<Rightarrow> (tensor_ptr, ('d, 'm, 'x) as_model) outcome" where
  "interim_at r name m = liftE (map_at (rq_interim (req m r)) name) m"

definition interim_insert :: "req_ptr \<Rightarrow> string \<Rightarrow> tensor_ptr \<Rightarrow> ('d, 'm, 'x) as_model \<Rightarrow> ('d, 'm, 'x) as_model" where
  "interim_insert r name p m = upd_req r (\<lambda>q. q\<lparr>rq_interim := map_insert name p (rq_interim q)\<rparr>) m"

text \<open>A new tensor under a name of \<open>interim\<close>; when the name is taken the new tensor is dropped.\<close>

definition interim_new :: "req_ptr \<Rightarrow> string \<Rightarrow> tok_tensor \<Rightarrow> ('d, 'm, 'x) as_model \<Rightarrow> ('d, 'm, 'x) as_model" where
  "interim_new r name t m = (case new_tensor t m of (p, m1) \<Rightarrow> interim_insert r name p m1)"

text \<open>An exception that \<open>AS_CHECK_EXCEPTION\<close> catches and throws again.\<close>

definition sliced :: "exn + 'a \<Rightarrow> exn + 'a" where
  "sliced r = (case r of Inl e \<Rightarrow> Inl (if is_exception e then StdException else e) | Inr x \<Rightarrow> Inr x)"

section \<open>PreProcessIdOp\<close>

text \<open>The buffer of a new tensor of the model's maximal length that is then given another shape.\<close>

definition work_tensor :: "model_cfg \<Rightarrow> string \<Rightarrow> device_type \<Rightarrow> shape \<Rightarrow> tok_tensor" where
  "work_tensor c name dev s = tt_SetShape s (tt_new name dev [1, mc_max_length c])"

definition copy_to_device ::
  "req_ptr \<Rightarrow> string \<Rightarrow> (tok_tensor \<Rightarrow> tok_tensor) \<Rightarrow> ('d, 'm, 'x) as_model \<Rightarrow> (unit, ('d, 'm, 'x) as_model) outcome" where
  "copy_to_device r name mk m =
     andThen (interim_at r name m) (\<lambda>src m.
     let m1 = interim_new r (name @ ''_gpu'') (mk (tensor m src)) m in
     andThen (interim_at r (name @ ''_gpu'') m1) (\<lambda>dst m.
     andThen (interim_at r name m) (\<lambda>src m.
     andThen (liftE (sliced (DeepCopyWhole (tensor m dst) (tensor m src))) m) (\<lambda>t m.
       ret () (upd_tensor dst t m)))))"

definition PreProcessIdOp_Forward ::
  "model_cfg \<Rightarrow> ('d, 'm, 'x) as_model \<Rightarrow> (as_status, ('d, 'm, 'x) as_model) outcome" where
  "PreProcessIdOp_Forward c =
     (\<lambda>m. with_ctx (am_current_batch m) (\<lambda>g m.
        let r = gx_request g in
        andThen (liftE (map_at (rq_outputs (req m r)) ''generated_ids_global'') m) (\<lambda>_ m.
        andThen (liftE (map_at (rq_inputs (req m r)) ''input_ids'') m) (\<lambda>ids m.
        let t = work_tensor c ''generated_ids'' CPU (tt_shape (tensor m ids)) in
        andThen (liftE (sliced (DeepCopyWhole t (tensor m ids))) m) (\<lambda>t m.
        let m1 = interim_new r ''generated_ids'' t m in
        if mc_device c \<noteq> CUDA then ret ALLSPARK_SUCCESS m1
        else
          andThen (copy_to_device r ''generated_ids''
                     (\<lambda>src. work_tensor c ''generated_ids_gpu'' CUDA (tt_shape src)) m1) (\<lambda>_ m.
          andThen (copy_to_device r ''new_input_ids''
                     (\<lambda>src. tt_new ''new_input_ids_gpu'' CUDA (tt_shape src)) m) (\<lambda>_ m.
            ret ALLSPARK_SUCCESS m)))))) m)"

section \<open>EmbeddingT5Op and SpanAttnOp\<close>

definition EmbeddingT5Op_Reshape ::
  "('d, 'm, 'x) model_env \<Rightarrow> ('d, 'm, 'x) as_model \<Rightarrow> (as_status, ('d, 'm, 'x) as_model) outcome" where
  "EmbeddingT5Op_Reshape e m =
     (if am_is_context m then
        with_ctx (am_current_batch m) (\<lambda>g m.
          andThen (interim_at (gx_request g) ''new_input_ids'' m) (\<lambda>p m.
          andThen (liftE (Shape_at (tt_shape (tensor m p)) 1) m) (\<lambda>n m.
            kernel e EmbeddingT5Op PhReshape (m\<lparr>am_act_shape := (1, nat n)\<rparr>)))) m
      else kernel e EmbeddingT5Op PhReshape (m\<lparr>am_act_shape := (length (am_gen_ctx_list m), 1)\<rparr>))"

definition SpanAttnOp_Reshape ::
  "('d, 'm, 'x) model_env \<Rightarrow> int \<Rightarrow> ('d, 'm, 'x) as_model \<Rightarrow> (as_status, ('d, 'm, 'x) as_model) outcome" where
  "SpanAttnOp_Reshape e layer m =
     kernel e (SpanAttnOp layer) PhReshape (m\<lparr>am_attn_shape := (am_attn_shape m)(layer := am_act_shape m)\<rparr>)"

text \<open>One context grows by \<open>seq_len_\<close> tokens in the layer: first its keys, then its values.\<close>

definition span_attn_grow ::
  "('d, 'm, 'x) model_env \<Rightarrow> int \<Rightarrow> nat \<Rightarrow> ('d, 'm, 'x) as_model \<Rightarrow> (as_status, ('d, 'm, 'x) as_model) outcome" where
  "span_attn_grow e layer i =
     with_ctx i (\<lambda>g m.
       case (gx_virtual_k_cache g, gx_virtual_v_cache g) of
         (Some vk, Some vv) \<Rightarrow>
           andThen (liftE (vc_GetSeqLength vk layer) m) (\<lambda>nk m.
           if gx_step g \<noteq> int nk then ret ALLSPARK_RUNTIME_ERROR m
           else andThen (liftE (vc_GetSeqLength vv layer) m) (\<lambda>nv m.
           if gx_step g \<noteq> int nv then ret ALLSPARK_RUNTIME_ERROR m
           else case vc_GetCache (en_enqueue e) layer (int (snd (am_attn_shape m layer))) (vk, gpu_sm (am_pcm m)) of
             (r, (vk', sm)) \<Rightarrow>
               andThen (r, upd_ctx i (\<lambda>g. g\<lparr>gx_virtual_k_cache := Some vk'\<rparr>) (m\<lparr>am_pcm := set_gpu_sm sm (am_pcm m)\<rparr>)) (\<lambda>_ m.
               case vc_GetCache (en_enqueue e) layer (int (snd (am_attn_shape m layer))) (vv, gpu_sm (am_pcm m)) of
                 (r, (vv', sm)) \<Rightarrow>
                   andThen (r, upd_ctx i (\<lambda>g. g\<lparr>gx_virtual_v_cache := Some vv'\<rparr>) (m\<lparr>am_pcm := set_gpu_sm sm (am_pcm m)\<rparr>))
                     (\<lambda>_ m. ret ALLSPARK_SUCCESS m))))
       | _ \<Rightarrow> (Inl UndefinedBehaviour, m))"

fun for_ctxs ::
  "(nat \<Rightarrow> 's \<Rightarrow> (as_status, 's) outcome) \<Rightarrow> nat list \<Rightarrow> 's \<Rightarrow> (as_status, 's) outcome" where
  "for_ctxs f [] m = ret ALLSPARK_SUCCESS m"
| "for_ctxs f (i # is) m = thenOk (f i m) (for_ctxs f is)"

definition SpanAttnOp_Alloc ::
  "('d, 'm, 'x) model_env \<Rightarrow> model_cfg \<Rightarrow> int \<Rightarrow> ('d, 'm, 'x) as_model \<Rightarrow> (as_status, ('d, 'm, 'x) as_model) outcome" where
  "SpanAttnOp_Alloc e c layer m =
     (if mc_span_size c = 0 then (Inl UndefinedBehaviour, m)
      else if am_is_context m then span_attn_grow e layer (am_current_batch m) m
      else for_ctxs (span_attn_grow e layer) [0..<fst (am_attn_shape m layer)] m)"

section \<open>GenerateOp\<close>

text \<open>
  \<open>fill_generated_ids_gpu\<close> and \<open>fill_generated_ids_cpu\<close>: the token ids of the batch that runs are
  extended by the sampled token. The pointers are taken for all contexts first, the tokens are written
  after that; two contexts never share a tensor.
\<close>

definition running_batch :: "('d, 'm, 'x) as_model \<Rightarrow> nat list" where
  "running_batch m = (if am_is_context m then [am_current_batch m] else [0..<length (am_gen_ctx_list m)])"

definition generated_len :: "gen_context \<Rightarrow> int" where
  "generated_len g = gx_step g + gx_in_length_bias g + 1"

definition extend_ids ::
  "req_ptr \<Rightarrow> string \<Rightarrow> int \<Rightarrow> ('d, 'm, 'x) as_model \<Rightarrow> (unit, ('d, 'm, 'x) as_model) outcome" where
  "extend_ids r name n m =
     andThen (interim_at r name m) (\<lambda>p m. ret () (upd_tensor p (tt_SetShape [1, n] (tensor m p)) m))"

definition write_last ::
  "req_ptr \<Rightarrow> string \<Rightarrow> int \<Rightarrow> 64 word \<Rightarrow> ('d, 'm, 'x) as_model \<Rightarrow> (unit, ('d, 'm, 'x) as_model) outcome" where
  "write_last r name n v m =
     andThen (interim_at r name m) (\<lambda>p m.
       let t = tensor m p; k = n - 1 in
       if k < 0 \<or> int (length (tt_buf t)) \<le> k then (Inl UndefinedBehaviour, m)
       else ret () (upd_tensor p (t\<lparr>tt_buf := (tt_buf t)[nat k := Some v]\<rparr>) m))"

definition extend_ctx :: "model_cfg \<Rightarrow> nat \<Rightarrow> ('d, 'm, 'x) as_model \<Rightarrow> (as_status, ('d, 'm, 'x) as_model) outcome" where
  "extend_ctx c i =
     with_ctx i (\<lambda>g m.
       andThen (extend_ids (gx_request g) ''generated_ids'' (generated_len g) m) (\<lambda>_ m.
       andThen (if mc_device c = CUDA then extend_ids (gx_request g) ''generated_ids_gpu'' (generated_len g) m
                else ret () m) (\<lambda>_ m.
         ret ALLSPARK_SUCCESS m)))"

definition write_ctx ::
  "model_cfg \<Rightarrow> (nat \<times> 64 word) \<Rightarrow> ('d, 'm, 'x) as_model \<Rightarrow> (unit, ('d, 'm, 'x) as_model) outcome" where
  "write_ctx c iv =
     with_ctx (fst iv) (\<lambda>g m.
       andThen (if mc_device c = CUDA
                then write_last (gx_request g) ''generated_ids_gpu'' (generated_len g) (snd iv) m
                else ret () m) (\<lambda>_ m.
         write_last (gx_request g) ''generated_ids'' (generated_len g) (snd iv) m))"

definition fill_generated_ids ::
  "model_cfg \<Rightarrow> 64 word list \<Rightarrow> ('d, 'm, 'x) as_model \<Rightarrow> (as_status, ('d, 'm, 'x) as_model) outcome" where
  "fill_generated_ids c dec_ids m =
     (if mc_device c \<noteq> CUDA \<and> mc_rank c \<noteq> 0 then ret ALLSPARK_SUCCESS m
      else if length dec_ids < length (running_batch m) then (Inl UndefinedBehaviour, m)
      else thenOk (for_ctxs (extend_ctx c) (running_batch m) m) (\<lambda>m.
        andThen (forEach (write_ctx c) (zip (running_batch m) dec_ids) m) (\<lambda>_ m. ret ALLSPARK_SUCCESS m)))"

text \<open>The generation method of the runtime context is never set and stays 0.\<close>

definition GenerateOp_Forward ::
  "('d, 'm, 'x) model_env \<Rightarrow> model_cfg \<Rightarrow> ('d, 'm, 'x) as_model \<Rightarrow> (as_status, ('d, 'm, 'x) as_model) outcome" where
  "GenerateOp_Forward e c m =
     thenOk (kernel e GenerateOp PhForward m) (\<lambda>m. fill_generated_ids c (en_sample e m) m)"

section \<open>UpdateIdOp\<close>

definition check_stop_words ::
  "int \<Rightarrow> 64 word option list \<Rightarrow> bool \<Rightarrow> 64 word list list \<Rightarrow> bool" where
  "check_stop_words gen_len out_host gen_over stop_words_ids =
     (gen_over \<or>
      list_ex (\<lambda>w. gen_len > int (length w) \<and>
                 take (length w) (drop (nat gen_len - length w) out_host) = map Some w) stop_words_ids)"

definition check_finish :: "nat \<Rightarrow> ('d, 'm, 'x) as_model \<Rightarrow> (unit, ('d, 'm, 'x) as_model) outcome" where
  "check_finish i =
     with_ctx i (\<lambda>g m.
       let pos = gx_step g + gx_in_length_bias g; cfg = gx_gen_cfg g in
       if gx_finish g then ret () m
       else if pos \<ge> gc_max_length cfg - 1 then ret () (upd_ctx i (\<lambda>g. g\<lparr>gx_finish := True\<rparr>) m)
       else andThen (interim_at (gx_request g) ''generated_ids'' m) (\<lambda>p m.
         let buf = tt_buf (tensor m p); outside = pos < 0 \<or> int (length buf) \<le> pos in
         if gc_early_stopping cfg \<and> outside then (Inl UndefinedBehaviour, m)
         else if gc_early_stopping cfg \<and> buf ! nat pos = Some (word_of_int (gc_eos_token_id cfg)) then
           ret () (upd_ctx i (\<lambda>g. g\<lparr>gx_finish := True\<rparr>) m)
         else if gx_generate_method g = 0 \<and> gc_stop_words_ids cfg \<noteq> [] then
           (if outside then (Inl UndefinedBehaviour, m)
            else let stop = check_stop_words (pos + 1) buf (gx_gen_over g) (gc_stop_words_ids cfg)
              in ret () (upd_ctx i (\<lambda>g. g\<lparr>gx_gen_over := stop, gx_finish := stop\<rparr>) m))
         else ret () m))"

definition copy_generated_ids ::
  "model_cfg \<Rightarrow> nat \<Rightarrow> bool \<Rightarrow> ('d, 'm, 'x) as_model \<Rightarrow> (unit, ('d, 'm, 'x) as_model) outcome" where
  "copy_generated_ids c i is_context =
     with_ctx i (\<lambda>g m.
       if mc_rank c \<noteq> 0 then ret () m
       else andThen (interim_at (gx_request g) ''generated_ids'' m) (\<lambda>lp m.
         andThen (liftE (map_at (rq_outputs (req m (gx_request g))) ''generated_ids_global'') m) (\<lambda>gp m.
         let lt = tensor m lp; gt = tt_SetShape (tt_shape lt) (tensor m gp);
             from = (if is_context then 0 else nat (gx_step g));
             n = (if is_context then nat (generated_len g) else 1)
         in if length (tt_buf lt) < from + n \<or> length (tt_buf gt) < from + n then (Inl UndefinedBehaviour, upd_tensor gp gt m)
            else ret () (upd_tensor gp (gt\<lparr>tt_buf := write_from from (take n (drop from (tt_buf lt))) (tt_buf gt)\<rparr>) m))))"

definition update_ctx :: "model_cfg \<Rightarrow> bool \<Rightarrow> nat \<Rightarrow> ('d, 'm, 'x) as_model \<Rightarrow> (as_status, ('d, 'm, 'x) as_model) outcome" where
  "update_ctx c is_context i m =
     andThen (check_finish i m) (\<lambda>_ m.
     andThen (copy_generated_ids c i is_context m) (\<lambda>_ m. ret ALLSPARK_SUCCESS m))"

definition UpdateIdOp_Forward ::
  "model_cfg \<Rightarrow> string \<Rightarrow> ('d, 'm, 'x) as_model \<Rightarrow> (as_status, ('d, 'm, 'x) as_model) outcome" where
  "UpdateIdOp_Forward c name m =
     (if name = ''update_id_first'' then ret ALLSPARK_SUCCESS m
      else for_ctxs (update_ctx c (am_is_context m)) (running_batch m) m)"

section \<open>Running operators\<close>

definition CallReshape ::
  "('d, 'm, 'x) model_env \<Rightarrow> as_op \<Rightarrow> ('d, 'm, 'x) as_model \<Rightarrow> (as_status, ('d, 'm, 'x) as_model) outcome" where
  "CallReshape e op m =
     (case op of
        PreProcessIdOp \<Rightarrow> ret ALLSPARK_SUCCESS m
      | EmbeddingT5Op \<Rightarrow> EmbeddingT5Op_Reshape e m
      | SpanAttnOp layer \<Rightarrow> SpanAttnOp_Reshape e layer m
      | GenerateOp \<Rightarrow> kernel e op PhReshape m
      | UpdateIdOp _ \<Rightarrow> ret ALLSPARK_SUCCESS m
      | KernelOp _ \<Rightarrow> kernel e op PhReshape m)"

definition CallAlloc ::
  "('d, 'm, 'x) model_env \<Rightarrow> model_cfg \<Rightarrow> as_op \<Rightarrow> ('d, 'm, 'x) as_model \<Rightarrow> (as_status, ('d, 'm, 'x) as_model) outcome" where
  "CallAlloc e c op m =
     (case op of
        SpanAttnOp layer \<Rightarrow> SpanAttnOp_Alloc e c layer m
      | KernelOp _ \<Rightarrow> kernel e op PhAlloc m
      | _ \<Rightarrow> ret ALLSPARK_SUCCESS m)"

definition CallForward ::
  "('d, 'm, 'x) model_env \<Rightarrow> model_cfg \<Rightarrow> as_op \<Rightarrow> ('d, 'm, 'x) as_model \<Rightarrow> (as_status, ('d, 'm, 'x) as_model) outcome" where
  "CallForward e c op m =
     (case op of
        PreProcessIdOp \<Rightarrow> PreProcessIdOp_Forward c m
      | GenerateOp \<Rightarrow> GenerateOp_Forward e c m
      | UpdateIdOp name \<Rightarrow> UpdateIdOp_Forward c name m
      | _ \<Rightarrow> kernel e op PhForward m)"

text \<open>A loop over the operators of a graph that stops at the first failure.\<close>

fun run_graph ::
  "(as_op \<Rightarrow> ('d, 'm, 'x) as_model \<Rightarrow> (as_status, ('d, 'm, 'x) as_model) outcome) \<Rightarrow> as_op list \<Rightarrow>
   ('d, 'm, 'x) as_model \<Rightarrow> (as_status, ('d, 'm, 'x) as_model) outcome" where
  "run_graph f [] m = ret ALLSPARK_SUCCESS m"
| "run_graph f (op # ops) m =
     andThen (f op m) (\<lambda>st m. if st \<noteq> ALLSPARK_SUCCESS then ErrorProcess st m else run_graph f ops m)"

text \<open>
  The allocation for all attention layers. Every operator gets a task of the thread pool, all tasks
  run, and the results are looked at in the order of the layers; here the tasks run in that order.
  More attention operators than layers overrun the vector of results.
\<close>

fun is_attention :: "as_op \<Rightarrow> bool" where
  "is_attention (SpanAttnOp layer) = True"
| "is_attention op = False"

fun run_tasks ::
  "(as_op \<Rightarrow> 's \<Rightarrow> (as_status, 's) outcome) \<Rightarrow> as_op list \<Rightarrow> 's \<Rightarrow> (exn + as_status) list \<times> 's" where
  "run_tasks f [] m = ([], m)"
| "run_tasks f (op # ops) m =
     (case f op m of (r, m1) \<Rightarrow> case run_tasks f ops m1 of (rs, m2) \<Rightarrow> (r # rs, m2))"

fun first_failure :: "(exn + as_status) list \<Rightarrow> exn + as_status" where
  "first_failure [] = Inr ALLSPARK_SUCCESS"
| "first_failure (Inl e # rs) = Inl e"
| "first_failure (Inr st # rs) = (if st \<noteq> ALLSPARK_SUCCESS then Inr st else first_failure rs)"

definition alloc_caches ::
  "('d, 'm, 'x) model_env \<Rightarrow> model_cfg \<Rightarrow> ('d, 'm, 'x) as_model \<Rightarrow> (as_status, ('d, 'm, 'x) as_model) outcome" where
  "alloc_caches e c m =
     (if mc_device c = CUDA then
        (let ops = filter is_attention (mc_decoder c); n = int (length ops) in
         if n > mc_layers c then (Inl UndefinedBehaviour, m)
         else case run_tasks (CallAlloc e c) ops m of
           (rs, m1) \<Rightarrow>
             if n \<noteq> mc_layers c then ErrorProcess ALLSPARK_RUNTIME_ERROR m1
             else andThen (first_failure rs, m1) (\<lambda>st m.
               if st \<noteq> ALLSPARK_SUCCESS then ErrorProcess st m else ret ALLSPARK_SUCCESS m))
      else run_graph (CallAlloc e c) (mc_decoder c) m)"

definition reshape_forward ::
  "('d, 'm, 'x) model_env \<Rightarrow> model_cfg \<Rightarrow> as_op \<Rightarrow> ('d, 'm, 'x) as_model \<Rightarrow> (as_status, ('d, 'm, 'x) as_model) outcome" where
  "reshape_forward e c op m = thenOk (CallReshape e op m) (CallForward e c op)"

end
