(* ===== verification/Model_Requests.thy ===== *)
theory Model_Requests
  imports Model_Ops
begin

text \<open>
  The life of a request in \<open>AsModel\<close>: it is queued (\<open>model_generation.cpp\<close>), admitted when a slot
  and enough cache frames are free (\<open>model_context.cpp\<close>), prefilled in one go or in chunks
  (\<open>model_request.cpp\<close>), decoded one token per step with the other running requests
  (\<open>model_decoder.cpp\<close>), and stopped.
\<close>

section \<open>Helpers\<close>

definition with_pcm ::
  "(('d, 'm) pcm \<Rightarrow> ('a, ('d, 'm) pcm) outcome) \<Rightarrow> ('d, 'm, 'x) as_model \<Rightarrow> ('a, ('d, 'm, 'x) as_model) outcome" where
  "with_pcm f m = (case f (am_pcm m) of (r, s) \<Rightarrow> (r, m\<lparr>am_pcm := s\<rparr>))"

definition isWarmupRequest :: "string \<Rightarrow> bool" where
  "isWarmupRequest request_id = (take (length ''warmup_request_'') request_id = ''warmup_request_'')"

text \<open>\<open>str.find(pat) != npos\<close>.\<close>

definition contains :: "string \<Rightarrow> string \<Rightarrow> bool" where
  "contains pat str = list_ex (\<lambda>i. take (length pat) (drop i str) = pat) [0..<Suc (length str)]"

definition tensor_tokens :: "tensor_ptr \<Rightarrow> ('d, 'm, 'x) as_model \<Rightarrow> (tokens, ('d, 'm, 'x) as_model) outcome" where
  "tensor_tokens p m = liftE (tt_tokens (tensor m p)) m"

text \<open>
  The destructor of a virtual cache gives the spans of all layers back. An exception that leaves a
  destructor ends the process.
\<close>

definition vc_destroy :: "enqueue_ok \<Rightarrow> virtual_cache \<Rightarrow> 'm concurrent_sm \<Rightarrow> (unit, 'm concurrent_sm) outcome" where
  "vc_destroy enq vc sm =
     (case forEach (\<lambda>l sm. case l of None \<Rightarrow> ret () sm | Some ca \<Rightarrow> CacheArray_destroy enq ca sm) (vc_layer_cache vc) sm of
        (Inl e, sm') \<Rightarrow> (Inl (if is_exception e then EnforceFailed else e), sm')
      | (Inr u, sm') \<Rightarrow> (Inr u, sm'))"

definition reset_vcache ::
  "('d, 'm, 'x) model_env \<Rightarrow> virtual_cache option \<Rightarrow> ('d, 'm, 'x) as_model \<Rightarrow> (unit, ('d, 'm, 'x) as_model) outcome" where
  "reset_vcache e vc m =
     (case vc of
        None \<Rightarrow> ret () m
      | Some vc \<Rightarrow> with_pcm (\<lambda>s. case vc_destroy (en_enqueue e) vc (gpu_sm s) of (r, sm) \<Rightarrow> (r, set_gpu_sm sm s)) m)"

section \<open>Tensors for the prefix hash\<close>

definition CreateTensorForHash ::
  "('d, 'm, 'x) model_env \<Rightarrow> req_ptr \<Rightarrow> tensor_map \<Rightarrow> string \<Rightarrow> ('d, 'm, 'x) as_model \<Rightarrow>
   (as_status, ('d, 'm, 'x) as_model) outcome"
where
  "CreateTensorForHash e r src_map name m =
     (let ee = rq_extra_embedding (req m r); dst_name = name @ ''_for_hash'' in
      if ee \<noteq> [] then
        if map_of ee ''hash_input'' = None then ret ALLSPARK_PARAM_ERROR m
        else
          andThen (liftE (map_at src_map name) m) (\<lambda>p m.
          andThen (tensor_tokens p m) (\<lambda>toks m.
          andThen (liftE (hashed_ids (en_city e) ee toks) m) (\<lambda>(st, ids') m.
          if \<not> (st = ALLSPARK_SUCCESS \<or> st = ALLSPARK_STREAMING) then ret st m
          else andThen (liftE (tt_copy dst_name (tensor m p)) m) (\<lambda>t m.
            ret ALLSPARK_SUCCESS
              (interim_new r dst_name (if tt_device t = CPU then t\<lparr>tt_buf := map Some ids'\<rparr> else t) m)))))
      else
        andThen (liftE (map_at src_map name) m) (\<lambda>p m.
        andThen (liftE (tt_copy dst_name (tensor m p)) m) (\<lambda>t m.
          ret ALLSPARK_SUCCESS (interim_new r dst_name t m))))"

section \<open>Stopping a request\<close>

definition StopPendingRequest :: "string \<Rightarrow> ('d, 'm, 'x) as_model \<Rightarrow> bool \<times> ('d, 'm, 'x) as_model" where
  "StopPendingRequest request_id m =
     (let is_it = (\<lambda>r. rq_id (req m r) = request_id) in
      (list_ex is_it (am_pending m),
       fold (\<lambda>r. upd_req r (\<lambda>q. q\<lparr>rq_status := GenerateFinished\<rparr>)) (filter is_it (am_pending m))
         (m\<lparr>am_pending := filter (\<lambda>r. \<not> is_it r) (am_pending m)\<rparr>)))"

text \<open>The last context of a request with this id.\<close>

definition find_ctx :: "string \<Rightarrow> ('d, 'm, 'x) as_model \<Rightarrow> nat option" where
  "find_ctx request_id m =
     (case filter (\<lambda>i. rq_id (req m (gx_request (ctx m i))) = request_id) [0..<length (am_gen_ctx_list m)] of
        [] \<Rightarrow> None
      | is \<Rightarrow> Some (last is))"

text \<open>The generated tokens go to the prefix cache, and the nodes of the request are released.\<close>

definition stop_save_prefix ::
  "('d, 'm, 'x) model_env \<Rightarrow> model_cfg \<Rightarrow> nat \<Rightarrow> ('d, 'm, 'x) as_model \<Rightarrow> (as_status, ('d, 'm, 'x) as_model) outcome" where
  "stop_save_prefix e c i m =
     (let r = gx_request (ctx m i) in
      checkStatus (CreateTensorForHash e r (rq_interim (req m r)) ''generated_ids'' m) (\<lambda>m.
      andThen (interim_at r ''generated_ids_for_hash'' m) (\<lambda>p m.
      andThen (tensor_tokens p m) (\<lambda>toks m.
      let g = ctx m i in
      if mc_span_size c = 0 then (Inl UndefinedBehaviour, m)
      else case (gx_virtual_k_cache g, gx_virtual_v_cache g) of
        (Some vk, Some vv) \<Rightarrow>
          andThen (with_pcm (Insert (en_enqueue e) (en_now e) toks
                     (c_div (gx_input_len g) (mc_span_size c) * mc_span_size c) (rq_start_ts (req m r))
                     (vc_layer_cache vk) (vc_layer_cache vv) (gx_prefix_cache_node_list g)) m) (\<lambda>nodes m.
          andThen (with_pcm (UnRef nodes) (upd_ctx i (\<lambda>g. g\<lparr>gx_prefix_cache_node_list := nodes\<rparr>) m)) (\<lambda>_ m.
            ret ALLSPARK_SUCCESS m))
      | _ \<Rightarrow> (Inl UndefinedBehaviour, m)))))"

definition stop_release_caches ::
  "('d, 'm, 'x) model_env \<Rightarrow> model_cfg \<Rightarrow> nat \<Rightarrow> ('d, 'm, 'x) as_model \<Rightarrow> (as_status, ('d, 'm, 'x) as_model) outcome" where
  "stop_release_caches e c i m =
     (if mc_device c \<noteq> CUDA then ret ALLSPARK_SUCCESS m
      else
        checkStatus (if mc_prefix_cache c then stop_save_prefix e c i m else ret ALLSPARK_SUCCESS m) (\<lambda>m.
        andThen (reset_vcache e (gx_virtual_k_cache (ctx m i)) (upd_ctx i (\<lambda>g. g\<lparr>gx_virtual_k_cache := None\<rparr>) m)) (\<lambda>_ m.
        andThen (reset_vcache e (gx_virtual_v_cache (ctx m i)) (upd_ctx i (\<lambda>g. g\<lparr>gx_virtual_v_cache := None\<rparr>) m)) (\<lambda>_ m.
        andThen (if mc_prefix_cache c \<and> isWarmupRequest (rq_id (req m (gx_request (ctx m i))))
                 then with_pcm (EvictAllUnrefered (en_enqueue e) (en_now e)) m else ret () m) (\<lambda>_ m.
          ret ALLSPARK_SUCCESS m)))))"

definition reshape_topo ::
  "('d, 'm, 'x) model_env \<Rightarrow> model_cfg \<Rightarrow> ('d, 'm, 'x) as_model \<Rightarrow> (as_status, ('d, 'm, 'x) as_model) outcome" where
  "reshape_topo e c m = run_graph (CallReshape e) (mc_topo_ops c) m"

definition StopRequest ::
  "('d, 'm, 'x) model_env \<Rightarrow> model_cfg \<Rightarrow> string \<Rightarrow> ('d, 'm, 'x) as_model \<Rightarrow> (as_status, ('d, 'm, 'x) as_model) outcome" where
  "StopRequest e c request_id m =
     (case StopPendingRequest request_id m of
        (True, m') \<Rightarrow> ret ALLSPARK_SUCCESS m'
      | (False, m') \<Rightarrow>
          (case find_ctx request_id m' of
             None \<Rightarrow> ret ALLSPARK_SUCCESS m'
           | Some i \<Rightarrow>
               let r = gx_request (ctx m' i) in
               checkStatus (stop_release_caches e c i m') (\<lambda>m.
               let m1 = upd_req r (\<lambda>q. q\<lparr>rq_extra_embedding := [], rq_interim := []\<rparr>) m;
                   m2 = FinishRequest i m1;
                   m3 = m2\<lparr>am_unfinished := am_unfinished m2 - 1\<rparr>
               in thenOk (if am_gen_ctx_list m3 \<noteq> [] then reshape_topo e c m3 else ret ALLSPARK_SUCCESS m3) (\<lambda>m.
                    ret ALLSPARK_SUCCESS (upd_req r (\<lambda>q. q\<lparr>rq_generate_ts := en_now e\<rparr>) m)))))"

text \<open>The loop over the running contexts, from the last to the first, that stops the finished ones.\<close>

fun stop_finished ::
  "('d, 'm, 'x) model_env \<Rightarrow> model_cfg \<Rightarrow> nat \<Rightarrow> ('d, 'm, 'x) as_model \<Rightarrow> (as_status, ('d, 'm, 'x) as_model) outcome" where
  "stop_finished e c 0 m = ret ALLSPARK_SUCCESS m"
| "stop_finished e c (Suc i) m =
     with_ctx i (\<lambda>g m.
       if gx_finish g
       then thenOk (StopRequest e c (rq_id (req m (gx_request g))) m) (stop_finished e c i)
       else stop_finished e c i m) m"

definition stop_all_finished ::
  "('d, 'm, 'x) model_env \<Rightarrow> model_cfg \<Rightarrow> ('d, 'm, 'x) as_model \<Rightarrow> (as_status, ('d, 'm, 'x) as_model) outcome" where
  "stop_all_finished e c m = stop_finished e c (length (am_gen_ctx_list m)) m"

section \<open>The context phase\<close>

text \<open>The state of the random sampler of a request is not modelled.\<close>

definition buildGenContext ::
  "model_cfg \<Rightarrow> req_ptr \<Rightarrow> ('d, 'm, 'x) as_model \<Rightarrow> (gen_context, ('d, 'm, 'x) as_model) outcome" where
  "buildGenContext c r m =
     andThen (liftE (map_at (rq_inputs (req m r)) ''input_ids'') m) (\<lambda>p m.
     andThen (liftE (Shape_at (tt_shape (tensor m p)) 1) m) (\<lambda>n m.
     let vc = (\<lambda>suffix. if mc_device c = CUDA \<and> mc_span_size c \<noteq> 0
                        then Some (SpannedVirtualCache_new (mc_cache_config c) (rq_id (req m r) @ suffix) (mc_layers c))
                        else None)
     in ret \<lparr>gx_step = 0, gx_in_length_bias = 0, gx_max_length = mc_max_length c, gx_num_beams = 1,
             gx_batch_size = 1, gx_only_decoder = False, gx_finish = False, gx_current_batch = 0,
             gx_generate_method = 0, gx_gen_over = False, gx_input_len = n, gx_real_input_len = n,
             gx_prefix_len = 0, gx_gen_cfg = (rq_gen_cfg (req m r))\<lparr>gc_input_len := n\<rparr>, gx_request = r,
             gx_engine_max_length = mc_max_length c, gx_virtual_k_cache = vc ''_k'',
             gx_virtual_v_cache = vc ''_v'', gx_prefix_cache_node_list = []\<rparr> m))"

definition runDecoderContext ::
  "('d, 'm, 'x) model_env \<Rightarrow> model_cfg \<Rightarrow> ('d, 'm, 'x) as_model \<Rightarrow> (as_status, ('d, 'm, 'x) as_model) outcome" where
  "runDecoderContext e c m =
     (let m = ResetCache ''rotary_inv_freq'' (ResetCache ''rotary_step'' m); i = am_current_batch m in
      with_ctx i (\<lambda>g m.
      let cfg = gx_gen_cfg g in
      andThen (interim_at (gx_request g) ''new_input_ids'' m) (\<lambda>p m.
      andThen (liftE (Shape_at (tt_shape (tensor m p)) 1) m) (\<lambda>in_length m.
      let m = upd_ctx i (\<lambda>g. g\<lparr>gx_batch_size := 1, gx_num_beams := gc_num_beams cfg,
                gx_generate_method := (if gc_do_sample cfg \<and> gc_num_beams cfg = 1 then 0 else 1)\<rparr>) m in
      if size_t_of in_length > size_t_of (gc_max_length cfg) then ErrorProcess ALLSPARK_PARAM_ERROR m
      else
        let m = upd_ctx i (\<lambda>g. g\<lparr>gx_only_decoder := True, gx_num_beams := 1, gx_step := gx_prefix_len g\<rparr>) m in
        thenOk (run_graph (CallReshape e) (mc_pre_graph c) m) (\<lambda>m.
        thenOk (run_graph (CallForward e c) (mc_pre_graph c) m) (\<lambda>m.
        thenOk (run_graph (CallReshape e) (mc_decoder c) m) (\<lambda>m.
        thenOk (alloc_caches e c m) (\<lambda>m.
        thenOk (run_graph (CallForward e c) (mc_decoder c) m) (\<lambda>m.
        let m = upd_ctx i (\<lambda>g. g\<lparr>gx_in_length_bias := (if gx_prefix_len g = 0 then gx_input_len g else in_length),
                                 gx_num_beams := gc_num_beams cfg\<rparr>) m in
        thenOk (run_graph (CallReshape e) (mc_gen_graph c) m) (\<lambda>m.
        thenOk (run_graph (CallForward e c) (mc_gen_graph c) m) (\<lambda>m.
        thenOk (run_graph (reshape_forward e c) (mc_post_graph c) m) (\<lambda>m.
          ret ALLSPARK_SUCCESS
            (upd_ctx i (\<lambda>g. g\<lparr>gx_in_length_bias := 0, gx_step := in_length + gx_prefix_len g\<rparr>) m)))))))))))) m)"

definition init_vcache ::
  "('d, 'm, 'x) model_env \<Rightarrow> model_cfg \<Rightarrow> int \<Rightarrow> virtual_cache option \<Rightarrow> ('d, 'm) pcm \<Rightarrow>
   (as_status \<times> virtual_cache option, ('d, 'm) pcm) outcome"
where
  "init_vcache e c layer vc s =
     (case vc of
        None \<Rightarrow> (Inl UndefinedBehaviour, s)
      | Some vc \<Rightarrow>
          (case vc_InitLayer (en_enqueue e) layer (mc_heads c) (mc_size_per_head c) 0
                  (c_div (mc_max_length c + mc_span_size c - 1) (mc_span_size c)) (vc, gpu_sm s) of
             (Inl ex, (vc', sm)) \<Rightarrow> (Inl ex, set_gpu_sm sm s)
           | (Inr st, (vc', sm)) \<Rightarrow> ret (st, Some vc') (set_gpu_sm sm s)))"

definition init_layer ::
  "('d, 'm, 'x) model_env \<Rightarrow> model_cfg \<Rightarrow> nat \<Rightarrow> nat \<Rightarrow> ('d, 'm, 'x) as_model \<Rightarrow> (as_status, ('d, 'm, 'x) as_model) outcome" where
  "init_layer e c i layer m =
     andThen (with_pcm (init_vcache e c (int layer) (gx_virtual_k_cache (ctx m i))) m) (\<lambda>(st, vk) m.
     let m = upd_ctx i (\<lambda>g. g\<lparr>gx_virtual_k_cache := vk\<rparr>) m in
     if \<not> (st = ALLSPARK_SUCCESS \<or> st = ALLSPARK_STREAMING) then ret st m
     else andThen (with_pcm (init_vcache e c (int layer) (gx_virtual_v_cache (ctx m i))) m) (\<lambda>(st, vv) m.
       ret st (upd_ctx i (\<lambda>g. g\<lparr>gx_virtual_v_cache := vv\<rparr>) m)))"

fun init_layers ::
  "('d, 'm, 'x) model_env \<Rightarrow> model_cfg \<Rightarrow> nat \<Rightarrow> nat list \<Rightarrow> ('d, 'm, 'x) as_model \<Rightarrow> (as_status, ('d, 'm, 'x) as_model) outcome" where
  "init_layers e c i [] m = ret ALLSPARK_SUCCESS m"
| "init_layers e c i (l # ls) m = checkStatus (init_layer e c i l m) (init_layers e c i ls)"

text \<open>The cached prefix is filled into the new caches; what is left of the prompt is a new tensor. When
  \<open>RefFill\<close> throws, the nodes that it has found so far are not recorded here.\<close>

definition fill_prefix ::
  "('d, 'm, 'x) model_env \<Rightarrow> nat \<Rightarrow> ('d, 'm, 'x) as_model \<Rightarrow> (as_status, ('d, 'm, 'x) as_model) outcome" where
  "fill_prefix e i m =
     (let r = gx_request (ctx m i) in
      andThen (liftE (map_at (rq_inputs (req m r)) ''input_ids'') m) (\<lambda>p m.
      andThen (interim_at r ''input_ids_for_hash'' m) (\<lambda>h m.
      andThen (tensor_tokens p m) (\<lambda>toks m.
      andThen (tensor_tokens h m) (\<lambda>toks_hash m.
      case (gx_virtual_k_cache (ctx m i), gx_virtual_v_cache (ctx m i)) of
        (Some vk, Some vv) \<Rightarrow>
          (case RefFill (en_enqueue e) (en_now e) toks toks_hash (rq_start_ts (req m r)) (vk, vv, am_pcm m) of
             (r', (vk', vv', s)) \<Rightarrow>
               andThen (r', upd_ctx i (\<lambda>g. g\<lparr>gx_virtual_k_cache := Some vk', gx_virtual_v_cache := Some vv'\<rparr>) (m\<lparr>am_pcm := s\<rparr>))
                 (\<lambda>(new_toks, prefix_len, nodes) m.
                   ret ALLSPARK_SUCCESS
                     (interim_new r ''new_input_ids''
                       \<lparr>tt_name = ''new_input_ids'', tt_device = CPU, tt_shape = [1, int (length new_toks)], tt_buf = map Some new_toks\<rparr>
                       (upd_ctx i (\<lambda>g. g\<lparr>gx_prefix_len := prefix_len, gx_prefix_cache_node_list := nodes\<rparr>) m))))
      | _ \<Rightarrow> (Inl UndefinedBehaviour, m))))))"

definition start_inputs ::
  "('d, 'm, 'x) model_env \<Rightarrow> model_cfg \<Rightarrow> req_ptr \<Rightarrow> nat \<Rightarrow> ('d, 'm, 'x) as_model \<Rightarrow> (as_status, ('d, 'm, 'x) as_model) outcome" where
  "start_inputs e c r i m =
     (if mc_prefix_cache c \<and> mc_device c = CUDA then fill_prefix e i m
      else
        andThen (liftE (map_at (rq_inputs (req m r)) ''input_ids'') m) (\<lambda>p m.
        andThen (liftE (Shape_at (tt_shape (tensor m p)) 0) m) (\<lambda>batch_now m.
        andThen (liftE (Shape_at (tt_shape (tensor m p)) 1) m) (\<lambda>seq_now m.
          ret ALLSPARK_SUCCESS ((interim_insert r ''new_input_ids'' p m)\<lparr>am_mask_shape := [batch_now, seq_now]\<rparr>)))))"

text \<open>The try block around \<open>runDecoderContext\<close>: an exception stops the request and is thrown again
  as a plain \<open>std::exception\<close>. A status that is returned is not looked at.\<close>

definition run_context_guarded ::
  "('d, 'm, 'x) model_env \<Rightarrow> model_cfg \<Rightarrow> req_ptr \<Rightarrow> ('d, 'm, 'x) as_model \<Rightarrow> (unit, ('d, 'm, 'x) as_model) outcome" where
  "run_context_guarded e c r m =
     (case runDecoderContext e c m of
        (Inr _, m1) \<Rightarrow> ret () m1
      | (Inl ex, m1) \<Rightarrow>
          if \<not> is_exception ex then (Inl ex, m1)
          else andThen (StopRequest e c (rq_id (req m1 r)) m1) (\<lambda>_ m2.
            (Inl StdException, upd_req r (\<lambda>q. q\<lparr>rq_status := GenerateInterrupted\<rparr>) m2)))"

text \<open>After the context phase the tokens of the prompt become nodes of the prefix cache.\<close>

definition insert_prefix ::
  "('d, 'm, 'x) model_env \<Rightarrow> model_cfg \<Rightarrow> nat \<Rightarrow> ('d, 'm, 'x) as_model \<Rightarrow> (unit, ('d, 'm, 'x) as_model) outcome" where
  "insert_prefix e c i m =
     (if \<not> (mc_device c = CUDA \<and> mc_prefix_cache c) then ret () m
      else
        let g = ctx m i; r = gx_request g in
        andThen (interim_at r ''input_ids_for_hash'' m) (\<lambda>p m.
        andThen (tensor_tokens p m) (\<lambda>toks m.
        case (gx_virtual_k_cache g, gx_virtual_v_cache g) of
          (Some vk, Some vv) \<Rightarrow>
            andThen (with_pcm (Insert (en_enqueue e) (en_now e) toks (gx_prefix_len g) (rq_start_ts (req m r))
                       (vc_layer_cache vk) (vc_layer_cache vv) (gx_prefix_cache_node_list g)) m) (\<lambda>nodes m.
              ret () (upd_ctx i (\<lambda>g. g\<lparr>gx_prefix_cache_node_list := nodes\<rparr>) m))
        | _ \<Rightarrow> (Inl UndefinedBehaviour, m))))"

definition StartRequest ::
  "('d, 'm, 'x) model_env \<Rightarrow> model_cfg \<Rightarrow> req_ptr \<Rightarrow> ('d, 'm, 'x) as_model \<Rightarrow> (as_status, ('d, 'm, 'x) as_model) outcome" where
  "StartRequest e c r m =
     (let lora_name = gc_lora_name (rq_gen_cfg (req m r)) in
      if lora_name \<noteq> [] \<and> lora_name \<notin> set (am_loras m) then
        andThen (StopRequest e c (rq_id (req m r)) m) (\<lambda>_ m.
          ret ALLSPARK_LORA_NOT_FOUND (upd_req r (\<lambda>q. q\<lparr>rq_status := GenerateFinished, rq_finish := True\<rparr>) m))
      else
        let batch = length (am_gen_ctx_list m) in
        andThen (buildGenContext c r m) (\<lambda>g m.
        let m = PushBackGenCtx g m in
        checkStatus (if mc_device c = CUDA then
                       (if mc_span_size c = 0 then (Inl UndefinedBehaviour, m)
                        else init_layers e c batch [0..<nat (mc_layers c)] m)
                     else ret ALLSPARK_SUCCESS m) (\<lambda>m.
        thenOk (start_inputs e c r batch m) (\<lambda>m.
        andThen (run_context_guarded e c r (m\<lparr>am_is_context := True, am_current_batch := batch\<rparr>)) (\<lambda>_ m.
        andThen (insert_prefix e c batch m) (\<lambda>_ m.
        thenOk (reshape_topo e c (m\<lparr>am_is_context := False, am_current_batch := 0\<rparr>)) (\<lambda>m.
          stop_all_finished e c
            (upd_req r (\<lambda>q. q\<lparr>rq_status := ContextFinished, rq_context_ts := en_now e\<rparr>) m))))))))"

definition PrefillChunkRequest ::
  "('d, 'm, 'x) model_env \<Rightarrow> model_cfg \<Rightarrow> req_ptr \<Rightarrow> ('d, 'm, 'x) as_model \<Rightarrow> (unit, ('d, 'm, 'x) as_model) outcome" where
  "PrefillChunkRequest e c r m =
     (let q = req m r; pop = (\<lambda>m. m\<lparr>am_pending := tl (am_pending m)\<rparr>);
          finish = (\<lambda>m. andThen (StartRequest e c r (pop m)) (\<lambda>_ m.
                     ret () (upd_req r (\<lambda>q. q\<lparr>rq_prefill_chunk_len := rq_input_len q\<rparr>) m)))
      in if contains ''warmup'' (rq_id q) then finish m
         else
           let new_len = rq_prefill_chunk_len q + mc_max_prefill_length c + 1 in
           if new_len \<ge> rq_input_len q then
             andThen (liftE (map_at (rq_inputs q) ''input_ids'') m) (\<lambda>p m.
               finish (upd_tensor p (tt_SetShape [1, rq_origin_len q] (tensor m p)) m))
           else
             case new_req (Request_new (en_now e) (rq_id q @ ''_chunk_prefill'') (rq_inputs q) (rq_outputs q)
                             ((rq_gen_cfg q)\<lparr>gc_max_length := new_len + 1\<rparr>) (rq_interim q)\<lparr>rq_input_len := new_len\<rparr>) m of
               (cr, m) \<Rightarrow>
                 andThen (liftE (map_at (rq_inputs q) ''input_ids'') m) (\<lambda>p m.
                 andThen (StartRequest e c cr (upd_tensor p (tt_SetShape [1, new_len] (tensor m p)) m)) (\<lambda>_ m.
                   ret () (upd_req r (\<lambda>q. q\<lparr>rq_prefill_chunk_len := new_len - 1\<rparr>) m))))"

section \<open>Admission\<close>

definition store_unfinished :: "('d, 'm, 'x) as_model \<Rightarrow> ('d, 'm, 'x) as_model" where
  "store_unfinished m = m\<lparr>am_unfinished := int (length (am_pending m)) + GetGenCtxListSize m\<rparr>"

definition min_gen_length :: int where
  "min_gen_length = 10"

text \<open>The frames that a prompt of this length needs together with its first generated tokens.\<close>

definition frames_needed :: "model_cfg \<Rightarrow> int \<Rightarrow> nat" where
  "frames_needed c len =
     size_t_of ((c_div (min (len + min_gen_length) (mc_max_length c)) (mc_span_size c) + 1) * 2 * mc_layers c)"

text \<open>How many frames the request at the head of the queue needs: its cached prefix is looked up, and
  when the free frames are not enough, unused nodes of the prefix cache are evicted.\<close>

definition admission_frames ::
  "('d, 'm, 'x) model_env \<Rightarrow> model_cfg \<Rightarrow> req_ptr \<Rightarrow> ('d, 'm, 'x) as_model \<Rightarrow>
   (as_status \<times> nat, ('d, 'm, 'x) as_model) outcome"
where
  "admission_frames e c r m =
     (if mc_span_size c = 0 then (Inl UndefinedBehaviour, m)
      else if \<not> mc_prefix_cache c then ret (ALLSPARK_SUCCESS, frames_needed c (rq_input_len (req m r))) m
      else
        andThen (CreateTensorForHash e r (rq_inputs (req m r)) ''input_ids'' m) (\<lambda>st m.
        if \<not> (st = ALLSPARK_SUCCESS \<or> st = ALLSPARK_STREAMING) then ret (st, 0) m
        else andThen (interim_at r ''input_ids_for_hash'' m) (\<lambda>p m.
        andThen (tensor_tokens p m) (\<lambda>toks m.
        andThen (with_pcm (RefOnly toks (rq_start_ts (req m r)) []) m) (\<lambda>(prefix_len, gpu_cached_len, nodes) m.
        let m = (if rq_prefill_chunk_len (req m r) = 0 then
                   upd_req r (\<lambda>q. q\<lparr>rq_prefill_chunk_len := prefix_len, rq_prefix_len := prefix_len,
                                    rq_prefix_len_gpu := gpu_cached_len\<rparr>)
                     (m\<lparr>am_pcm := UpdateCnt prefix_len (rq_input_len (req m r) - prefix_len) (am_pcm m)\<rparr>)
                 else m);
            need = frames_needed c (rq_input_len (req m r) - gpu_cached_len)
        in andThen (if need > cfm_CountFreeFrame (frame_mgr m)
                    then with_pcm (EvictUnrefered (en_enqueue e) (en_now e) (int need)) m else ret () m) (\<lambda>_ m.
           andThen (with_pcm (UnRef nodes) m) (\<lambda>_ m. ret (ALLSPARK_SUCCESS, need) m)))))))"

definition GenerateContinueContext ::
  "('d, 'm, 'x) model_env \<Rightarrow> model_cfg \<Rightarrow> bool \<Rightarrow> ('d, 'm, 'x) as_model \<Rightarrow> (as_status, ('d, 'm, 'x) as_model) outcome" where
  "GenerateContinueContext e c is_new_context m =
     (let m = (if is_new_context then m\<lparr>am_already_context_length := 0\<rparr> else m) in
      case am_pending m of
        [] \<Rightarrow> ret ALLSPARK_EMPTY_REQUEST m
      | r # rest \<Rightarrow>
          if \<not> GetGenCtxListSize m < mc_max_batch c then ret ALLSPARK_EMPTY_REQUEST m
          else if am_already_context_length m \<noteq> 0 \<and>
                  am_already_context_length m + rq_input_len (req m r) > mc_max_prefill_length c
          then ret ALLSPARK_EMPTY_REQUEST m
          else if mc_device c = CUDA \<and> mc_frame_manager c then
            andThen (admission_frames e c r m) (\<lambda>(st, need) m.
            if \<not> (st = ALLSPARK_SUCCESS \<or> st = ALLSPARK_STREAMING) then ret st m
            else if need \<le> cfm_CountFreeFrame (frame_mgr m) then
              andThen (PrefillChunkRequest e c r m) (\<lambda>_ m.
              let m = store_unfinished m; q = req m r in
              if rq_prefill_chunk_len q \<noteq> rq_input_len q then ret ALLSPARK_CHUNK_PREFILL m
              else ret ALLSPARK_SUCCESS (m\<lparr>am_already_context_length := am_already_context_length m + rq_input_len q\<rparr>))
            else
              ret ALLSPARK_EMPTY_REQUEST (store_unfinished
                (upd_req r (\<lambda>q. q\<lparr>rq_finish := True, rq_status := GenerateInterrupted\<rparr>)
                  (m\<lparr>am_pending := tl (am_pending m)\<rparr>))))
          else
            andThen (StartRequest e c r (m\<lparr>am_pending := tl (am_pending m)\<rparr>)) (\<lambda>_ m.
              ret ALLSPARK_SUCCESS (store_unfinished m)))"

section \<open>Decoding\<close>

definition step_all :: "('d, 'm, 'x) as_model \<Rightarrow> ('d, 'm, 'x) as_model" where
  "step_all m = m\<lparr>am_gen_ctx_list := map (\<lambda>g. g\<lparr>gx_step := gx_step g + 1\<rparr>) (am_gen_ctx_list m)\<rparr>"

definition decode_batch ::
  "('d, 'm, 'x) model_env \<Rightarrow> model_cfg \<Rightarrow> ('d, 'm, 'x) as_model \<Rightarrow> (as_status, ('d, 'm, 'x) as_model) outcome" where
  "decode_batch e c m =
     thenOk (alloc_caches e c m) (\<lambda>m.
     thenOk (run_graph (CallForward e c) (mc_decoder c) m) (\<lambda>m.
     thenOk (run_graph (CallReshape e) (mc_gen_graph c) (step_all m)) (\<lambda>m.
     thenOk (run_graph (CallForward e c) (mc_gen_graph c) m) (\<lambda>m.
       run_graph (reshape_forward e c) (mc_post_graph c) m))))"

definition GenerateContinueDecoder ::
  "('d, 'm, 'x) model_env \<Rightarrow> model_cfg \<Rightarrow> ('d, 'm, 'x) as_model \<Rightarrow> (as_status, ('d, 'm, 'x) as_model) outcome" where
  "GenerateContinueDecoder e c m =
     (let m = store_unfinished m in
      if length (am_gen_ctx_list m) = 0 then ret ALLSPARK_EMPTY_REQUEST m
      else
        let m = ResetCache ''rotary_inv_freq'' (ResetCache ''rotary_step'' (m\<lparr>am_model_step := am_model_step m + 1\<rparr>)) in
        thenOk (decode_batch e c m) (\<lambda>m.
        thenOk (stop_all_finished e c m) (\<lambda>m. ret ALLSPARK_STREAMING m)))"

definition GenerateContinue ::
  "('d, 'm, 'x) model_env \<Rightarrow> model_cfg \<Rightarrow> ('d, 'm, 'x) as_model \<Rightarrow> (as_status, ('d, 'm, 'x) as_model) outcome" where
  "GenerateContinue e c m = GenerateContinueDecoder e c m"

text \<open>The frames for the next step: a request needs two more per layer when its last span is full.\<close>

definition needs_new_span :: "model_cfg \<Rightarrow> gen_context \<Rightarrow> exn + nat" where
  "needs_new_span c g =
     (case gx_virtual_k_cache g of
        None \<Rightarrow> Inl UndefinedBehaviour
      | Some vk \<Rightarrow>
          bindE (vc_GetSeqLength vk 0) (\<lambda>n.
            if mc_span_size c = 0 then Inl UndefinedBehaviour
            else Inr (if n mod size_t_of (mc_span_size c) = 0 then 1 else 0)))"

fun new_span_batch :: "model_cfg \<Rightarrow> gen_context list \<Rightarrow> exn + nat" where
  "new_span_batch c [] = Inr 0"
| "new_span_batch c (g # gs) = bindE (needs_new_span c g) (\<lambda>k. bindE (new_span_batch c gs) (\<lambda>n. Inr (k + n)))"

definition AllocDecoderMemory ::
  "('d, 'm, 'x) model_env \<Rightarrow> model_cfg \<Rightarrow> ('d, 'm, 'x) as_model \<Rightarrow> (as_status, ('d, 'm, 'x) as_model) outcome" where
  "AllocDecoderMemory e c m =
     (let m = m\<lparr>am_is_context := False, am_current_batch := 0\<rparr> in
      if mc_device c = CUDA \<and> mc_frame_manager c then
        andThen (liftE (new_span_batch c (am_gen_ctx_list m)) m) (\<lambda>n m.
        let decoder_frame = mc_layers c * 2 * int n in
        andThen (if size_t_of decoder_frame > cfm_CountFreeFrame (frame_mgr m) \<and> mc_prefix_cache c
                 then with_pcm (EvictUnrefered (en_enqueue e) (en_now e) decoder_frame) m else ret () m) (\<lambda>_ m.
        if size_t_of decoder_frame > cfm_CountFreeFrame (frame_mgr m) then throw ALLSPARK_MEMORY_ERROR m
        else ret ALLSPARK_SUCCESS m))
      else ret ALLSPARK_SUCCESS m)"

section \<open>Queueing, release and statistics\<close>

text \<open>What \<open>StartRequestImpl\<close> takes from the request handle.\<close>

definition StartRequestImpl_model ::
  "('d, 'm, 'x) model_env \<Rightarrow> string \<Rightarrow> tensor_map \<Rightarrow> tensor_list_map \<Rightarrow> int \<Rightarrow> tensor_map \<Rightarrow> gen_config \<Rightarrow>
   ('d, 'm, 'x) as_model \<Rightarrow> (as_status, ('d, 'm, 'x) as_model) outcome"
where
  "StartRequestImpl_model e request_id ins mm_embedding create_ts outs gen_cfg m =
     andThen (liftE (map_at ins ''input_ids'') m) (\<lambda>p m.
     andThen (liftE (Shape_at (tt_shape (tensor m p)) 1) m) (\<lambda>n m.
     case new_req (Request_new (en_now e) request_id ins outs gen_cfg []
            \<lparr>rq_input_len := n, rq_origin_len := n, rq_extra_embedding := mm_embedding, rq_enqueue_ts := create_ts\<rparr>) m of
       (r, m) \<Rightarrow>
         ret ALLSPARK_SUCCESS (m\<lparr>am_pending := am_pending m @ [r],
                                 am_request_map := AList.update request_id r (am_request_map m)\<rparr>)))"

definition ReleaseRequest :: "string \<Rightarrow> ('d, 'm, 'x) as_model \<Rightarrow> as_status \<times> ('d, 'm, 'x) as_model" where
  "ReleaseRequest request_id m = (ALLSPARK_SUCCESS, m\<lparr>am_request_map := AList.delete request_id (am_request_map m)\<rparr>)"

definition GetRequestById :: "string \<Rightarrow> ('d, 'm, 'x) as_model \<Rightarrow> req_ptr option" where
  "GetRequestById request_id m = map_of (am_request_map m) request_id"

definition GetUnFinishedRequest :: "('d, 'm, 'x) as_model \<Rightarrow> nat" where
  "GetUnFinishedRequest m = size_t_of (am_unfinished m)"

definition GetFreeFrame :: "('d, 'm, 'x) as_model \<Rightarrow> int" where
  "GetFreeFrame m = int (cfm_CountFreeFrame (frame_mgr m))"

record engine_stat =
  es_span_size :: int
  es_total_span :: nat
  es_free_span :: nat
  es_used_span :: nat
  es_total_token :: nat
  es_free_token :: nat
  es_pendding_request :: nat
  es_running_request :: nat
  es_prefix :: "prefix_stat option"

definition tokens_of_spans :: "model_cfg \<Rightarrow> nat \<Rightarrow> nat" where
  "tokens_of_spans c n = n div nat (2 * mc_layers c) * nat (mc_span_size c)"

text \<open>The fields that \<open>AsModel\<close> fills in; without the cache managers the token counts are zero and
  the others keep what they were.\<close>

definition UpdateAsEngineStat :: "model_cfg \<Rightarrow> ('d, 'm, 'x) as_model \<Rightarrow> engine_stat \<Rightarrow> engine_stat" where
  "UpdateAsEngineStat c m st =
     (let st = (if mc_frame_manager c then
                  (let total = cfm_CountFrame (frame_mgr m); free = cfm_CountFreeFrame (frame_mgr m) in
                   st\<lparr>es_span_size := csm_span_size (gpu_sm (am_pcm m)), es_total_span := total, es_free_span := free,
                      es_used_span := total - free, es_total_token := tokens_of_spans c total,
                      es_free_token := tokens_of_spans c free,
                      es_prefix := (if mc_prefix_cache c then Some (UpdateEngineStat (am_pcm m)) else es_prefix st)\<rparr>)
                else st\<lparr>es_total_token := 0, es_free_token := 0\<rparr>)
      in st\<lparr>es_pendding_request := length (am_pending m), es_running_request := length (am_gen_ctx_list m)\<rparr>)"

end
