(* ===== verification/Model_Frame.thy ===== *)
theory Model_Frame
  imports Model_Requests
begin

text \<open>
  What the operators leave alone. A property of the model that does not depend on tensors, on device
  memory, on \<open>interim\<close> maps and on the caches of the contexts is kept by every operator, whatever its
  outcome; the locale states that contract once and is interpreted on the relation between the states
  before and after.
\<close>

section \<open>What an operator may change in a context or a request\<close>

definition gx_core :: "gen_context \<Rightarrow> gen_context" where
  "gx_core g = g\<lparr>gx_finish := False, gx_gen_over := False, gx_virtual_k_cache := None, gx_virtual_v_cache := None,
                 gx_prefix_cache_node_list := []\<rparr>"

definition gx_le :: "gen_context \<Rightarrow> gen_context \<Rightarrow> bool" where
  "gx_le g g' \<longleftrightarrow> gx_core g' = gx_core g \<and> (gx_finish g \<longrightarrow> gx_finish g')"

text \<open>What stays when the context phase sets its counters, too.\<close>

definition gx_ident :: "gen_context \<Rightarrow> req_ptr \<times> int \<times> gen_config \<times> int" where
  "gx_ident g = (gx_request g, gx_current_batch g, gx_gen_cfg g, gx_input_len g)"

definition rq_core :: "request \<Rightarrow> request" where
  "rq_core q = q\<lparr>rq_interim := [], rq_extra_embedding := [], rq_context_ts := 0, rq_generate_ts := 0\<rparr>"

lemma gx_le_refl [simp, intro]: "gx_le g g" by (simp add: gx_le_def)

lemma gx_le_trans: "gx_le g g' \<Longrightarrow> gx_le g' g'' \<Longrightarrow> gx_le g g''" by (simp add: gx_le_def)

lemma gx_core_fields:
  "gx_core g' = gx_core g \<Longrightarrow>
   gx_request g' = gx_request g \<and> gx_current_batch g' = gx_current_batch g \<and> gx_gen_cfg g' = gx_gen_cfg g \<and>
   gx_input_len g' = gx_input_len g \<and> gx_step g' = gx_step g \<and> gx_in_length_bias g' = gx_in_length_bias g \<and>
   gx_prefix_len g' = gx_prefix_len g"
  by (cases g; cases g') (simp add: gx_core_def)

lemma gx_core_ident: "gx_core g' = gx_core g \<Longrightarrow> gx_ident g' = gx_ident g"
  by (drule gx_core_fields) (simp add: gx_ident_def)

lemma gx_le_ident: "gx_le g g' \<Longrightarrow> gx_ident g' = gx_ident g"
  by (rule gx_core_ident) (simp add: gx_le_def)

lemma rq_core_fields:
  "rq_core q' = rq_core q \<Longrightarrow>
   rq_id q' = rq_id q \<and> rq_finish q' = rq_finish q \<and> rq_status q' = rq_status q \<and> rq_input_len q' = rq_input_len q \<and>
   rq_prefill_chunk_len q' = rq_prefill_chunk_len q \<and> rq_gen_cfg q' = rq_gen_cfg q \<and>
   rq_inputs q' = rq_inputs q \<and> rq_outputs q' = rq_outputs q"
  by (cases q; cases q') (simp add: rq_core_def)

lemma upd_ctx_simps [simp]:
  "am_pending (upd_ctx i w m) = am_pending m" "am_request_map (upd_ctx i w m) = am_request_map m"
  "am_unfinished (upd_ctx i w m) = am_unfinished m" "am_loras (upd_ctx i w m) = am_loras m"
  "am_already_context_length (upd_ctx i w m) = am_already_context_length m"
  "am_is_context (upd_ctx i w m) = am_is_context m" "am_current_batch (upd_ctx i w m) = am_current_batch m"
  "am_requests (upd_ctx i w m) = am_requests m" "am_tensors (upd_ctx i w m) = am_tensors m"
  "length (am_gen_ctx_list (upd_ctx i w m)) = length (am_gen_ctx_list m)"
  by (simp_all add: upd_ctx_def)

lemma upd_req_simps [simp]:
  "am_pending (upd_req r h m) = am_pending m" "am_request_map (upd_req r h m) = am_request_map m"
  "am_unfinished (upd_req r h m) = am_unfinished m" "am_loras (upd_req r h m) = am_loras m"
  "am_already_context_length (upd_req r h m) = am_already_context_length m"
  "am_is_context (upd_req r h m) = am_is_context m" "am_current_batch (upd_req r h m) = am_current_batch m"
  "am_gen_ctx_list (upd_req r h m) = am_gen_ctx_list m" "am_tensors (upd_req r h m) = am_tensors m"
  "length (am_requests (upd_req r h m)) = length (am_requests m)"
  by (simp_all add: upd_req_def)

section \<open>The contract\<close>

locale op_insensitive =
  fixes I :: "('d, 'm, 'x) as_model \<Rightarrow> bool"
  assumes I_tensors: "I m \<Longrightarrow> I (m\<lparr>am_tensors := ts\<rparr>)"
    and I_x: "I m \<Longrightarrow> I (m\<lparr>am_x := x\<rparr>)"
    and I_pcm: "I m \<Longrightarrow> I (m\<lparr>am_pcm := s\<rparr>)"
    and I_act: "I m \<Longrightarrow> I (m\<lparr>am_act_shape := a\<rparr>)"
    and I_attn: "I m \<Longrightarrow> I (m\<lparr>am_attn_shape := f\<rparr>)"
    and I_step: "I m \<Longrightarrow> I (m\<lparr>am_model_step := n\<rparr>)"
    and I_cache_set: "I m \<Longrightarrow> I (m\<lparr>am_cache_set := cs\<rparr>)"
    and I_req: "I m \<Longrightarrow> (\<And>q. rq_core (h q) = rq_core q) \<Longrightarrow> I (upd_req r h m)"
    and I_ctx: "I m \<Longrightarrow> gx_le (ctx m i) (w (ctx m i)) \<Longrightarrow> I (upd_ctx i w m)"
begin

lemma I_andThen: "I (snd a) \<Longrightarrow> (\<And>x s. I s \<Longrightarrow> I (snd (k x s))) \<Longrightarrow> I (snd (andThen a k))"
  by (cases a; cases "fst a") auto

lemma I_thenOk: "I (snd a) \<Longrightarrow> (\<And>s. I s \<Longrightarrow> I (snd (k s))) \<Longrightarrow> I (snd (thenOk a k))"
  by (auto simp: thenOk_def intro!: I_andThen)

lemma I_checkStatus: "I (snd a) \<Longrightarrow> (\<And>s. I s \<Longrightarrow> I (snd (k s))) \<Longrightarrow> I (snd (checkStatus a k))"
  by (auto simp: checkStatus_def intro!: I_andThen)

lemma I_liftE: "I m \<Longrightarrow> I (snd (liftE v m))"
  by (simp add: liftE_def)

lemma I_with_ctx:
  "I m \<Longrightarrow> (\<And>g. g = ctx m i \<Longrightarrow> i < length (am_gen_ctx_list m) \<Longrightarrow> I (snd (k g m))) \<Longrightarrow> I (snd (with_ctx i k m))"
  by (simp add: with_ctx_def)

lemma I_upd_tensor: "I m \<Longrightarrow> I (upd_tensor p t m)"
  by (simp add: upd_tensor_def I_tensors)

lemma I_interim_insert: "I m \<Longrightarrow> I (interim_insert r name p m)"
  by (simp add: interim_insert_def rq_core_def I_req)

lemma I_interim_new: "I m \<Longrightarrow> I (interim_new r name t m)"
  by (simp add: interim_new_def new_tensor_def I_interim_insert I_tensors)

lemma I_interim_at: "I m \<Longrightarrow> I (snd (interim_at r name m))"
  by (simp add: interim_at_def I_liftE)

lemma I_kernel: "I m \<Longrightarrow> I (snd (kernel e op ph m))"
  by (simp add: kernel_def I_x split: prod.split)

lemma I_with_pcm: "I m \<Longrightarrow> I (snd (with_pcm f m))"
  by (simp add: with_pcm_def I_pcm split: prod.split)

lemma I_tensor_tokens: "I m \<Longrightarrow> I (snd (tensor_tokens p m))"
  by (simp add: tensor_tokens_def I_liftE)

lemmas I_prims = I_andThen I_thenOk I_checkStatus I_liftE I_upd_tensor I_interim_insert I_interim_new
  I_interim_at I_kernel I_with_pcm I_tensor_tokens I_tensors I_act I_attn I_step I_cache_set I_pcm I_x

lemma I_copy_to_device: "I m \<Longrightarrow> I (snd (copy_to_device r name mk m))"
  unfolding copy_to_device_def Let_def by (intro I_prims; simp add: I_prims)

lemma I_PreProcessIdOp: "I m \<Longrightarrow> I (snd (PreProcessIdOp_Forward c m))"
  unfolding PreProcessIdOp_Forward_def Let_def
  by (rule I_with_ctx, assumption) (auto intro!: I_prims I_copy_to_device)

lemma I_EmbeddingT5Op: "I m \<Longrightarrow> I (snd (EmbeddingT5Op_Reshape e m))"
  unfolding EmbeddingT5Op_Reshape_def
  by (auto intro!: I_prims I_with_ctx)

lemma I_SpanAttnOp_Reshape: "I m \<Longrightarrow> I (snd (SpanAttnOp_Reshape e layer m))"
  unfolding SpanAttnOp_Reshape_def by (intro I_prims)

lemma I_ctx_caches:
  "I m \<Longrightarrow> I (upd_ctx i (\<lambda>g. g\<lparr>gx_virtual_k_cache := k\<rparr>) m)"
  "I m \<Longrightarrow> I (upd_ctx i (\<lambda>g. g\<lparr>gx_virtual_v_cache := v\<rparr>) m)"
  "I m \<Longrightarrow> I (upd_ctx i (\<lambda>g. g\<lparr>gx_virtual_k_cache := k, gx_virtual_v_cache := v\<rparr>) m)"
  "I m \<Longrightarrow> I (upd_ctx i (\<lambda>g. g\<lparr>gx_prefix_cache_node_list := ns\<rparr>) m)"
  "I m \<Longrightarrow> I (upd_ctx i (\<lambda>g. g\<lparr>gx_finish := True\<rparr>) m)"
  by (auto intro!: I_ctx simp: gx_le_def gx_core_def)

lemma I_grow_step:
  assumes "I m"
  shows "I (snd (case vc_GetCache enq layer n (v, sm) of
    (r, (v', sm')) \<Rightarrow> andThen (r, upd_ctx i (\<lambda>g. g\<lparr>gx_virtual_v_cache := Some v'\<rparr>) (m\<lparr>am_pcm := set_gpu_sm sm' s\<rparr>))
      (\<lambda>_ m. ret ALLSPARK_SUCCESS m)))"
  using assms by (auto intro!: I_prims I_ctx_caches split: prod.split)

lemma I_span_attn_grow: "I m \<Longrightarrow> I (snd (span_attn_grow e layer i m))"
  unfolding span_attn_grow_def
  by (rule I_with_ctx, assumption)
    (auto intro!: I_prims I_ctx_caches I_grow_step split: option.split prod.split)

lemma I_for_ctxs: "(\<And>i m. I m \<Longrightarrow> I (snd (f i m))) \<Longrightarrow> I m \<Longrightarrow> I (snd (for_ctxs f is m))"
  by (induction "is" arbitrary: m) (auto intro!: I_thenOk)

lemma I_forEach: "(\<And>x m. I m \<Longrightarrow> I (snd (f x m))) \<Longrightarrow> I m \<Longrightarrow> I (snd (forEach f xs m))"
  by (induction xs arbitrary: m) (auto intro!: I_andThen)

lemma I_SpanAttnOp_Alloc: "I m \<Longrightarrow> I (snd (SpanAttnOp_Alloc e c layer m))"
  by (simp add: SpanAttnOp_Alloc_def I_span_attn_grow I_for_ctxs)

lemma I_extend_ids: "I m \<Longrightarrow> I (snd (extend_ids r name n m))"
  unfolding extend_ids_def by (auto intro!: I_prims)

lemma I_write_last: "I m \<Longrightarrow> I (snd (write_last r name n v m))"
  unfolding write_last_def Let_def by (auto intro!: I_prims)

lemma I_extend_ctx: "I m \<Longrightarrow> I (snd (extend_ctx c i m))"
  unfolding extend_ctx_def by (rule I_with_ctx, assumption) (auto intro!: I_prims I_extend_ids)

lemma I_write_ctx: "I m \<Longrightarrow> I (snd (write_ctx c iv m))"
  unfolding write_ctx_def by (rule I_with_ctx, assumption) (auto intro!: I_prims I_write_last)

lemma I_GenerateOp: "I m \<Longrightarrow> I (snd (GenerateOp_Forward e c m))"
  unfolding GenerateOp_Forward_def fill_generated_ids_def
  by (auto intro!: I_prims I_for_ctxs I_extend_ctx I_forEach I_write_ctx)

lemma I_check_finish: "I m \<Longrightarrow> I (snd (check_finish i m))"
  unfolding check_finish_def Let_def
proof (rule I_with_ctx, assumption)
  fix g assume m: "I m" and g: "g = ctx m i"
  have stop: "I (upd_ctx i (\<lambda>g. g\<lparr>gx_gen_over := b, gx_finish := b\<rparr>) m)" if "\<not> gx_finish (ctx m i)" for b
    using m that by (auto intro!: I_ctx simp: gx_le_def gx_core_def)
  show "I (snd (if gx_finish g then ret () m
    else if gx_step g + gx_in_length_bias g \<ge> gc_max_length (gx_gen_cfg g) - 1
    then ret () (upd_ctx i (\<lambda>g. g\<lparr>gx_finish := True\<rparr>) m)
    else andThen (interim_at (gx_request g) ''generated_ids'' m) (\<lambda>p m.
      if gc_early_stopping (gx_gen_cfg g) \<and> (gx_step g + gx_in_length_bias g < 0 \<or>
        int (length (tt_buf (tensor m p))) \<le> gx_step g + gx_in_length_bias g) then (Inl UndefinedBehaviour, m)
      else if gc_early_stopping (gx_gen_cfg g) \<and> tt_buf (tensor m p) ! nat (gx_step g + gx_in_length_bias g)
        = Some (word_of_int (gc_eos_token_id (gx_gen_cfg g))) then ret () (upd_ctx i (\<lambda>g. g\<lparr>gx_finish := True\<rparr>) m)
      else if gx_generate_method g = 0 \<and> gc_stop_words_ids (gx_gen_cfg g) \<noteq> [] then
        (if gx_step g + gx_in_length_bias g < 0 \<or>
          int (length (tt_buf (tensor m p))) \<le> gx_step g + gx_in_length_bias g then (Inl UndefinedBehaviour, m)
         else ret () (upd_ctx i (\<lambda>ga. ga\<lparr>gx_gen_over := check_stop_words (gx_step g + gx_in_length_bias g + 1)
             (tt_buf (tensor m p)) (gx_gen_over g) (gc_stop_words_ids (gx_gen_cfg g)),
           gx_finish := check_stop_words (gx_step g + gx_in_length_bias g + 1)
             (tt_buf (tensor m p)) (gx_gen_over g) (gc_stop_words_ids (gx_gen_cfg g))\<rparr>) m))
      else ret () m)))"
    using m stop g
    by (auto simp: interim_at_def liftE_def map_at_def intro!: I_ctx_caches split: option.split)
qed

lemma I_copy_generated_ids: "I m \<Longrightarrow> I (snd (copy_generated_ids c i b m))"
  unfolding copy_generated_ids_def Let_def
  by (rule I_with_ctx, assumption) (auto intro!: I_prims)

lemma I_UpdateIdOp: "I m \<Longrightarrow> I (snd (UpdateIdOp_Forward c name m))"
  unfolding UpdateIdOp_Forward_def update_ctx_def
  by (auto intro!: I_prims I_for_ctxs I_check_finish I_copy_generated_ids)

lemma I_CallReshape: "I m \<Longrightarrow> I (snd (CallReshape e op m))"
  by (auto simp: CallReshape_def intro!: I_prims I_EmbeddingT5Op I_SpanAttnOp_Reshape split: as_op.split)

lemma I_CallAlloc: "I m \<Longrightarrow> I (snd (CallAlloc e c op m))"
  by (auto simp: CallAlloc_def intro!: I_prims I_SpanAttnOp_Alloc split: as_op.split)

lemma I_CallForward: "I m \<Longrightarrow> I (snd (CallForward e c op m))"
  by (auto simp: CallForward_def intro!: I_prims I_PreProcessIdOp I_GenerateOp I_UpdateIdOp split: as_op.split)

lemma I_ErrorProcess: "I m \<Longrightarrow> I (snd (ErrorProcess st m))"
  by (simp add: ErrorProcess_def I_step)

lemma I_run_graph: "(\<And>op m. I m \<Longrightarrow> I (snd (f op m))) \<Longrightarrow> I m \<Longrightarrow> I (snd (run_graph f ops m))"
  by (induction ops arbitrary: m) (auto intro!: I_andThen I_ErrorProcess)

lemma I_run_tasks: "(\<And>op m. I m \<Longrightarrow> I (snd (f op m))) \<Longrightarrow> I m \<Longrightarrow> I (snd (run_tasks f ops m))"
proof (induction ops arbitrary: m)
  case (Cons op ops)
  from Cons.prems have "I (snd (f op m))" by blast
  from Cons.IH [OF Cons.prems(1) this] show ?case by (auto split: prod.split)
qed simp

lemma I_alloc_caches: "I m \<Longrightarrow> I (snd (alloc_caches e c m))"
proof -
  assume m: "I m"
  have "I (snd (run_tasks (CallAlloc e c) ops m))" for ops
    using m by (rule I_run_tasks [rotated]) (rule I_CallAlloc)
  then show ?thesis
    unfolding alloc_caches_def Let_def
    using m by (auto intro!: I_andThen I_ErrorProcess I_run_graph I_CallAlloc split: prod.split) (metis snd_conv)+
qed

lemma I_reshape_forward: "I m \<Longrightarrow> I (snd (reshape_forward e c op m))"
  unfolding reshape_forward_def by (intro I_thenOk I_CallReshape I_CallForward)

lemma I_reshape_topo: "I m \<Longrightarrow> I (snd (reshape_topo e c m))"
  unfolding reshape_topo_def by (intro I_run_graph I_CallReshape)

lemma I_CreateTensorForHash: "I m \<Longrightarrow> I (snd (CreateTensorForHash e r src name m))"
  unfolding CreateTensorForHash_def Let_def
  by (auto intro!: I_prims split: prod.split)

lemma I_reset_vcache: "I m \<Longrightarrow> I (snd (reset_vcache e vc m))"
  unfolding reset_vcache_def by (auto intro!: I_prims split: option.split)

lemma I_stop_save_prefix: "I m \<Longrightarrow> I (snd (stop_save_prefix e c i m))"
  unfolding stop_save_prefix_def Let_def
  by (auto intro!: I_prims I_CreateTensorForHash I_ctx_caches split: option.split prod.split)

lemma I_stop_release_caches: "I m \<Longrightarrow> I (snd (stop_release_caches e c i m))"
  unfolding stop_release_caches_def
  by (auto intro!: I_prims I_stop_save_prefix I_reset_vcache I_ctx_caches split: option.split prod.split)

lemmas I_ops = I_CallReshape I_CallForward I_alloc_caches I_reshape_forward I_run_graph I_reshape_topo

end

text \<open>The context phase also sets the counters of a context and the flags of the runtime context.\<close>

locale context_insensitive = op_insensitive I for I :: "('d, 'm, 'x) as_model \<Rightarrow> bool" +
  assumes I_ident: "I m \<Longrightarrow> gx_ident (w (ctx m i)) = gx_ident (ctx m i) \<Longrightarrow> I (upd_ctx i w m)"
    and I_mask: "I m \<Longrightarrow> I (m\<lparr>am_mask_shape := sh\<rparr>)"
    and I_flags: "I m \<Longrightarrow> I (m\<lparr>am_is_context := b, am_current_batch := n\<rparr>)"
begin

lemma I_ResetCache: "I m \<Longrightarrow> I (ResetCache name m)"
  by (simp add: ResetCache_def I_cache_set)

lemma I_runDecoderContext: "I m \<Longrightarrow> I (snd (runDecoderContext e c m))"
  unfolding runDecoderContext_def Let_def
  by (rule I_with_ctx, intro I_ResetCache, assumption)
    (intro I_andThen I_interim_at I_liftE I_ResetCache; auto intro!: I_thenOk I_ops I_ErrorProcess I_ident simp: gx_ident_def)

lemma I_init_layer: "I m \<Longrightarrow> I (snd (init_layer e c i l m))"
  unfolding init_layer_def Let_def
  by (auto intro!: I_prims I_ctx_caches split: prod.split)

lemma I_init_layers: "I m \<Longrightarrow> I (snd (init_layers e c i ls m))"
  by (induction ls arbitrary: m) (auto intro!: I_checkStatus I_init_layer)

lemma I_fill_prefix: "I m \<Longrightarrow> I (snd (fill_prefix e i m))"
  unfolding fill_prefix_def Let_def
  by (auto intro!: I_prims I_ctx_caches I_ident simp: gx_ident_def split: option.split prod.split)

lemma I_start_inputs: "I m \<Longrightarrow> I (snd (start_inputs e c r i m))"
  unfolding start_inputs_def
  by (auto intro!: I_prims I_fill_prefix I_mask)

lemma I_insert_prefix: "I m \<Longrightarrow> I (snd (insert_prefix e c i m))"
  unfolding insert_prefix_def Let_def
  by (auto intro!: I_prims I_ctx_caches split: option.split prod.split)

end

section \<open>Interpretations\<close>

text \<open>The states before and after an operator.\<close>

definition ops_keep :: "('d, 'm, 'x) as_model \<Rightarrow> ('d, 'm, 'x) as_model \<Rightarrow> bool" where
  "ops_keep m m' \<longleftrightarrow>
     am_pending m' = am_pending m \<and> am_request_map m' = am_request_map m \<and> am_unfinished m' = am_unfinished m \<and>
     am_already_context_length m' = am_already_context_length m \<and> am_loras m' = am_loras m \<and>
     am_is_context m' = am_is_context m \<and> am_current_batch m' = am_current_batch m \<and>
     list_all2 gx_le (am_gen_ctx_list m) (am_gen_ctx_list m') \<and>
     map rq_core (am_requests m') = map rq_core (am_requests m)"

lemma map_update_same: "f (h (xs ! i)) = f (xs ! i) \<Longrightarrow> map f (xs[i := h (xs ! i)]) = map f xs"
  by (cases "i < length xs") (simp_all add: map_update list_update_beyond, metis list_update_id map_update nth_map)

lemma list_all2_update_right:
  assumes "list_all2 R xs ys" "\<And>a. R a (ys ! i) \<Longrightarrow> R a y"
  shows "list_all2 R xs (ys[i := y])"
  using assms by (cases "i < length ys") (auto simp: list_all2_conv_all_nth nth_list_update list_update_beyond)

interpretation keep: op_insensitive "ops_keep m0" for m0 :: "('d, 'm, 'x) as_model"
proof
  fix m :: "('d, 'm, 'x) as_model" and i w assume a: "ops_keep m0 m" "gx_le (ctx m i) (w (ctx m i))"
  have "list_all2 gx_le (am_gen_ctx_list m0) ((am_gen_ctx_list m)[i := w (ctx m i)])"
    using a by (intro list_all2_update_right) (auto simp: ops_keep_def intro: gx_le_trans)
  then have "list_all2 gx_le (am_gen_ctx_list m0) (am_gen_ctx_list (upd_ctx i w m))" by (simp add: upd_ctx_def)
  with a show "ops_keep m0 (upd_ctx i w m)" by (simp add: ops_keep_def)
qed (auto simp: ops_keep_def upd_req_def map_update_same)

lemma ops_keep_refl [simp, intro]: "ops_keep m m"
  by (simp add: ops_keep_def list.rel_refl)

lemma ops_keep_trans: "ops_keep m m' \<Longrightarrow> ops_keep m' m'' \<Longrightarrow> ops_keep m m''"
  using list_all2_trans [of gx_le gx_le gx_le] by (auto simp: ops_keep_def intro: gx_le_trans)

text \<open>The states before and after the context phase.\<close>

definition ctx_keep :: "('d, 'm, 'x) as_model \<Rightarrow> ('d, 'm, 'x) as_model \<Rightarrow> bool" where
  "ctx_keep m m' \<longleftrightarrow>
     am_pending m' = am_pending m \<and> am_request_map m' = am_request_map m \<and> am_unfinished m' = am_unfinished m \<and>
     am_already_context_length m' = am_already_context_length m \<and> am_loras m' = am_loras m \<and>
     map gx_ident (am_gen_ctx_list m') = map gx_ident (am_gen_ctx_list m) \<and>
     map rq_core (am_requests m') = map rq_core (am_requests m)"

lemma upd_ctx_ident:
  "gx_ident (w (ctx m i)) = gx_ident (ctx m i) \<Longrightarrow> map gx_ident (am_gen_ctx_list (upd_ctx i w m)) = map gx_ident (am_gen_ctx_list m)"
  by (simp add: upd_ctx_def map_update_same)

interpretation ckeep: context_insensitive "ctx_keep m0" for m0 :: "('d, 'm, 'x) as_model"
proof
  fix m :: "('d, 'm, 'x) as_model" and i w assume a: "ctx_keep m0 m" "gx_le (ctx m i) (w (ctx m i))"
  have "gx_ident (w (ctx m i)) = gx_ident (ctx m i)" using a(2) by (rule gx_le_ident)
  from upd_ctx_ident [of w m i, OF this] a(1) show "ctx_keep m0 (upd_ctx i w m)" by (simp add: ctx_keep_def)
next
  fix m :: "('d, 'm, 'x) as_model" and i w assume a: "ctx_keep m0 m" "gx_ident (w (ctx m i)) = gx_ident (ctx m i)"
  from upd_ctx_ident [of w m i, OF a(2)] a(1) show "ctx_keep m0 (upd_ctx i w m)" by (simp add: ctx_keep_def)
qed (auto simp: ctx_keep_def upd_req_def map_update_same)

lemma ctx_keep_refl [simp, intro]: "ctx_keep m m" by (simp add: ctx_keep_def)

lemma ctx_keep_trans: "ctx_keep m m' \<Longrightarrow> ctx_keep m' m'' \<Longrightarrow> ctx_keep m m''" by (simp add: ctx_keep_def)

lemma list_all2_gx_le_ident: "list_all2 gx_le xs ys \<Longrightarrow> map gx_ident ys = map gx_ident xs"
  by (induction rule: list_all2_induct) (auto dest: gx_le_ident)

lemma ops_keep_ctx_keep: "ops_keep m m' \<Longrightarrow> ctx_keep m m'"
  using list_all2_gx_le_ident [of "am_gen_ctx_list m" "am_gen_ctx_list m'"] by (simp add: ops_keep_def ctx_keep_def)

end
