(* ===== verification/Model_Invariant.thy ===== *)
theory Model_Invariant
  imports Model_Frame
begin

text \<open>
  The invariant of the scheduler of \<open>AsModel\<close> and what stopping and starting a request do to it: every
  request is pending or running at most once, and a running context knows its place in the batch.
\<close>

section \<open>The invariant\<close>

definition running :: "('d, 'm, 'x) as_model \<Rightarrow> req_ptr list" where
  "running m = map gx_request (am_gen_ctx_list m)"

definition model_inv :: "('d, 'm, 'x) as_model \<Rightarrow> bool" where
  "model_inv m \<longleftrightarrow>
     (\<forall>r \<in> set (am_pending m) \<union> set (running m). r < length (am_requests m)) \<and>
     distinct (am_pending m @ running m) \<and>
     (\<forall>i < length (am_gen_ctx_list m). gx_current_batch (ctx m i) = int i)"

lemma map_ident_running: "map gx_ident gs = map gx_ident gs' \<Longrightarrow> map gx_request gs = map gx_request gs'"
  by (metis (mono_tags, lifting) comp_apply fst_conv gx_ident_def list.map_comp map_eq_conv)

lemma ctx_keep_facts:
  assumes "ctx_keep m m'"
  shows "am_pending m' = am_pending m" "running m' = running m" "length (am_requests m') = length (am_requests m)"
    "length (am_gen_ctx_list m') = length (am_gen_ctx_list m)"
    "r < length (am_requests m) \<Longrightarrow> rq_core (req m' r) = rq_core (req m r)"
    "i < length (am_gen_ctx_list m) \<Longrightarrow> gx_ident (ctx m' i) = gx_ident (ctx m i)"
    "am_unfinished m' = am_unfinished m" "am_request_map m' = am_request_map m"
proof -
  show l: "length (am_requests m') = length (am_requests m)"
    and l': "length (am_gen_ctx_list m') = length (am_gen_ctx_list m)"
    using assms by (auto simp: ctx_keep_def dest: map_eq_imp_length_eq)
  have q: "map rq_core (am_requests m') = map rq_core (am_requests m)" using assms by (simp add: ctx_keep_def)
  show "rq_core (req m' r) = rq_core (req m r)" if "r < length (am_requests m)"
    using arg_cong [OF q, of "\<lambda>xs. xs ! r"] that l by simp
  have g: "map gx_ident (am_gen_ctx_list m') = map gx_ident (am_gen_ctx_list m)" using assms by (simp add: ctx_keep_def)
  then show "running m' = running m" unfolding running_def by (rule map_ident_running)
  show "gx_ident (ctx m' i) = gx_ident (ctx m i)" if "i < length (am_gen_ctx_list m)"
    using arg_cong [OF g, of "\<lambda>xs. xs ! i"] that l' by simp
qed (use assms in \<open>simp_all add: ctx_keep_def\<close>)

lemma model_inv_keep: "ctx_keep m m' \<Longrightarrow> model_inv m \<Longrightarrow> model_inv m'"
  using ctx_keep_facts [of m m'] by (auto simp: model_inv_def gx_ident_def)

section \<open>Removing a context\<close>

definition remove_ctx :: "nat \<Rightarrow> gen_context list \<Rightarrow> gen_context list" where
  "remove_ctx i gs = butlast (gs[i := (last gs)\<lparr>gx_current_batch := int i\<rparr>])"

lemma butlast_update': "butlast (xs[i := x]) = (if i = length xs - 1 then butlast xs else (butlast xs)[i := x])"
  by (cases xs rule: rev_cases) (auto simp: list_update_append list_update_beyond split: nat.splits)

lemma length_remove_ctx [simp]: "length (remove_ctx i gs) = length gs - 1"
  by (simp add: remove_ctx_def)

lemma nth_remove_ctx:
  assumes "i < length gs" "j < length gs - 1"
  shows "remove_ctx i gs ! j = (if j = i then (last gs)\<lparr>gx_current_batch := int i\<rparr> else gs ! j)"
  using assms by (auto simp: remove_ctx_def nth_butlast nth_list_update)

lemma mset_remove_ctx:
  assumes "i < length gs"
  shows "mset (map gx_request (remove_ctx i gs)) + {#gx_request (gs ! i)#} = mset (map gx_request gs)"
proof -
  obtain hs g where gs: "gs = hs @ [g]" using assms by (cases gs rule: rev_cases) auto
  show ?thesis
  proof (cases "i = length hs")
    case True
    with gs show ?thesis by (simp add: remove_ctx_def butlast_update')
  next
    case False
    then have "i < length hs" using assms gs by simp
    with gs show ?thesis
      by (simp add: remove_ctx_def butlast_update' map_update mset_update nth_append in_multiset_in_set)
  qed
qed

lemma FinishRequest_simps:
  "am_gen_ctx_list (FinishRequest i m) = remove_ctx i (am_gen_ctx_list m)"
  "am_pending (FinishRequest i m) = am_pending m"
  "am_requests (FinishRequest i m) =
     (am_requests m)[gx_request (ctx m i) := (req m (gx_request (ctx m i)))\<lparr>rq_finish := True, rq_status := GenerateFinished\<rparr>]"
  "am_unfinished (FinishRequest i m) = am_unfinished m" "am_request_map (FinishRequest i m) = am_request_map m"
  "am_already_context_length (FinishRequest i m) = am_already_context_length m"
  by (simp_all add: FinishRequest_def remove_ctx_def Let_def upd_req_def)

lemma running_FinishRequest:
  assumes "model_inv m" "i < length (am_gen_ctx_list m)"
  shows "set (running (FinishRequest i m)) = set (running m) - {gx_request (ctx m i)}" "distinct (running (FinishRequest i m))"
proof -
  have eq: "mset (running (FinishRequest i m)) + {#gx_request (ctx m i)#} = mset (running m)"
    unfolding running_def FinishRequest_simps by (rule mset_remove_ctx [OF assms(2)])
  moreover have "distinct (running m)" using assms(1) by (simp add: model_inv_def)
  ultimately have d: "distinct (gx_request (ctx m i) # running (FinishRequest i m))"
    by (metis add_mset_add_single mset.simps(2) mset_eq_imp_distinct_iff)
  then show "distinct (running (FinishRequest i m))" by simp
  have "set (running m) = insert (gx_request (ctx m i)) (set (running (FinishRequest i m)))"
    using eq by (metis add_mset_add_single mset.simps(2) mset_eq_setD list.simps(15))
  with d show "set (running (FinishRequest i m)) = set (running m) - {gx_request (ctx m i)}" by auto
qed

lemma model_inv_FinishRequest:
  assumes "model_inv m" "i < length (am_gen_ctx_list m)"
  shows "model_inv (FinishRequest i m)"
proof -
  note r = running_FinishRequest [OF assms]
  have "gx_current_batch (ctx (FinishRequest i m) j) = int j" if "j < length (am_gen_ctx_list (FinishRequest i m))" for j
    using that assms by (auto simp: FinishRequest_simps nth_remove_ctx model_inv_def)
  with r assms(1) show ?thesis by (auto simp: model_inv_def FinishRequest_simps)
qed

lemma model_inv_unfinished [simp]: "model_inv (m\<lparr>am_unfinished := n\<rparr>) = model_inv m"
  by (simp add: model_inv_def running_def)

section \<open>StopRequest\<close>

text \<open>The pending requests with an id lose their place and get the status of a finished request.\<close>

lemma fold_upd_req:
  "am_pending (fold (\<lambda>r. upd_req r h) rs m) = am_pending m"
  "am_gen_ctx_list (fold (\<lambda>r. upd_req r h) rs m) = am_gen_ctx_list m"
  "am_unfinished (fold (\<lambda>r. upd_req r h) rs m) = am_unfinished m"
  "am_request_map (fold (\<lambda>r. upd_req r h) rs m) = am_request_map m"
  "length (am_requests (fold (\<lambda>r. upd_req r h) rs m)) = length (am_requests m)"
  by (induction rs arbitrary: m) simp_all

lemma fold_upd_req_nth:
  "distinct rs \<Longrightarrow> r < length (am_requests m) \<Longrightarrow>
   req (fold (\<lambda>r. upd_req r h) rs m) r = (if r \<in> set rs then h (req m r) else req m r)"
proof (induction rs arbitrary: m)
  case (Cons a rs)
  have "req (upd_req a h m) r = (if r = a then h (req m r) else req m r)"
    using Cons.prems(2) by (simp add: upd_req_def nth_list_update)
  with Cons.IH [of "upd_req a h m"] Cons.prems show ?case by auto
qed simp

lemma StopPendingRequest_simps:
  "am_pending (snd (StopPendingRequest i m)) = filter (\<lambda>r. rq_id (req m r) \<noteq> i) (am_pending m)"
  "am_gen_ctx_list (snd (StopPendingRequest i m)) = am_gen_ctx_list m"
  "am_unfinished (snd (StopPendingRequest i m)) = am_unfinished m"
  "length (am_requests (snd (StopPendingRequest i m))) = length (am_requests m)"
  by (simp_all add: StopPendingRequest_def Let_def fold_upd_req)

lemma StopPendingRequest_none:
  assumes "\<forall>r \<in> set (am_pending m). rq_id (req m r) \<noteq> i"
  shows "StopPendingRequest i m = (False, m)"
proof -
  have "filter (\<lambda>r. rq_id (req m r) = i) (am_pending m) = []" "filter (\<lambda>r. rq_id (req m r) \<noteq> i) (am_pending m) = am_pending m"
    using assms by (auto simp: filter_empty_conv filter_id_conv)
  with assms show ?thesis by (auto simp: StopPendingRequest_def list_ex_iff)
qed

lemma find_ctx_Some:
  "find_ctx k m = Some i \<Longrightarrow> i < length (am_gen_ctx_list m) \<and> rq_id (req m (gx_request (ctx m i))) = k"
proof -
  assume a: "find_ctx k m = Some i"
  let ?l = "filter (\<lambda>i. rq_id (req m (gx_request (ctx m i))) = k) [0..<length (am_gen_ctx_list m)]"
  have "?l \<noteq> []" "i = last ?l" using a by (auto simp: find_ctx_def split: list.splits)
  then have "i \<in> set ?l" by (metis last_in_set)
  then show ?thesis by simp
qed

text \<open>The contexts of a stopped request are removed; everything else that scheduling looks at stays.\<close>

definition stopped :: "nat \<Rightarrow> ('d, 'm, 'x) as_model \<Rightarrow> ('d, 'm, 'x) as_model \<Rightarrow> bool" where
  "stopped i m m' \<longleftrightarrow>
     (\<exists>m1. ops_keep m m1 \<and> ops_keep ((FinishRequest i m1)\<lparr>am_unfinished := am_unfinished m1 - 1\<rparr>) m')"

lemma StopRequest_result:
  assumes none: "\<forall>r \<in> set (am_pending m). rq_id (req m r) \<noteq> k" and i: "find_ctx k m = Some i"
    and st: "StopRequest e c k m = (res, m')"
  shows "ops_keep m m' \<and> res \<noteq> Inr ALLSPARK_SUCCESS \<or> stopped i m m'"
proof -
  let ?r = "gx_request (ctx m i)"
  let ?fin = "\<lambda>m1. (FinishRequest i m1)\<lparr>am_unfinished := am_unfinished m1 - 1\<rparr>"
  let ?clr = "\<lambda>m1. upd_req ?r (\<lambda>q. q\<lparr>rq_extra_embedding := [], rq_interim := []\<rparr>) m1"
  let ?rest = "\<lambda>m3. thenOk (if am_gen_ctx_list m3 \<noteq> [] then reshape_topo e c m3 else ret ALLSPARK_SUCCESS m3) (\<lambda>m.
    ret ALLSPARK_SUCCESS (upd_req ?r (\<lambda>q. q\<lparr>rq_generate_ts := en_now e\<rparr>) m))"
  have eq: "StopRequest e c k m = checkStatus (stop_release_caches e c i m) (\<lambda>m1. ?rest (?fin (?clr m1)))"
    using none i by (simp add: StopRequest_def StopPendingRequest_none Let_def FinishRequest_simps cong: if_cong)
  obtain r1 m1 where rc: "stop_release_caches e c i m = (r1, m1)" by (cases "stop_release_caches e c i m")
  have k1: "ops_keep m m1" using keep.I_stop_release_caches [OF ops_keep_refl, of m e c i] rc by simp
  show ?thesis
  proof (cases "r1 = Inr ALLSPARK_SUCCESS \<or> r1 = Inr ALLSPARK_STREAMING")
    case False
    then have "res = r1 \<and> m' = m1" using eq rc st by (cases r1) (auto simp: checkStatus_def)
    with k1 False show ?thesis by auto
  next
    case True
    have k2: "ops_keep m (?clr m1)" by (rule keep.I_req [OF k1]) (simp add: rq_core_def)
    have "checkStatus (r1, m1) (\<lambda>m1. ?rest (?fin (?clr m1))) = ?rest (?fin (?clr m1))"
      using True by (elim disjE) (simp_all only: checkStatus_def andThen.simps simp_thms if_True)
    then have "(res, m') = ?rest (?fin (?clr m1))" using trans [OF st [symmetric] eq [unfolded rc]] by (rule trans [rotated])
    then have "m' = snd (?rest (?fin (?clr m1)))" by (metis snd_conv)
    moreover have "ops_keep (?fin (?clr m1)) (snd (?rest (?fin (?clr m1))))"
      by (rule keep.I_thenOk) (auto intro!: keep.I_reshape_topo keep.I_req simp: rq_core_def)
    ultimately show ?thesis using k2 unfolding stopped_def by (metis)
  qed
qed

lemma stopped_facts:
  assumes "stopped i m m'" "model_inv m" "i < length (am_gen_ctx_list m)"
  shows "model_inv m'" "am_pending m' = am_pending m" "set (running m') = set (running m) - {gx_request (ctx m i)}"
    "Suc (length (am_gen_ctx_list m')) = length (am_gen_ctx_list m)" "length (am_requests m') = length (am_requests m)"
    "am_unfinished m' = am_unfinished m - 1"
    "rq_finish (req m' (gx_request (ctx m i))) \<and> rq_status (req m' (gx_request (ctx m i))) = GenerateFinished"
    "r < length (am_requests m) \<Longrightarrow> r \<noteq> gx_request (ctx m i) \<Longrightarrow> rq_core (req m' r) = rq_core (req m r)"
    "r < length (am_requests m) \<Longrightarrow> rq_id (req m' r) = rq_id (req m r)"
    "am_request_map m' = am_request_map m"
proof -
  obtain m1 where m1: "ops_keep m m1" "ops_keep ((FinishRequest i m1)\<lparr>am_unfinished := am_unfinished m1 - 1\<rparr>) m'"
    using assms(1) by (auto simp: stopped_def)
  note k1 = ctx_keep_facts [OF ops_keep_ctx_keep [OF m1(1)]] and k2 = ctx_keep_facts [OF ops_keep_ctx_keep [OF m1(2)]]
  have inv1: "model_inv m1" using model_inv_keep [OF ops_keep_ctx_keep [OF m1(1)] assms(2)] .
  have i1: "i < length (am_gen_ctx_list m1)" using assms(3) k1 by simp
  have g: "gx_request (ctx m1 i) = gx_request (ctx m i)" using k1(6) [OF assms(3)] by (simp add: gx_ident_def)
  have rl: "gx_request (ctx m i) < length (am_requests m)"
    using assms(2,3) by (auto simp: model_inv_def running_def)
  note run = running_FinishRequest [OF inv1 i1]
  show "model_inv m'"
    by (rule model_inv_keep [OF ops_keep_ctx_keep [OF m1(2)]]) (simp add: model_inv_FinishRequest inv1 i1)
  show "am_pending m' = am_pending m" "length (am_requests m') = length (am_requests m)"
    "am_unfinished m' = am_unfinished m - 1" "am_request_map m' = am_request_map m"
    using k1 k2 by (simp_all add: FinishRequest_simps)
  have "running m' = running (FinishRequest i m1)" using k2(2) by (simp add: running_def)
  then show "set (running m') = set (running m) - {gx_request (ctx m i)}" using run g k1 by simp
  show "Suc (length (am_gen_ctx_list m')) = length (am_gen_ctx_list m)"
    using k1 k2 i1 by (simp add: FinishRequest_simps)
  have core: "rq_core (req m' r) = rq_core (am_requests (FinishRequest i m1) ! r)" if "r < length (am_requests m)" for r
    using k2(5) [of r] that k1 by (simp add: FinishRequest_simps)
  show "rq_finish (req m' (gx_request (ctx m i))) \<and> rq_status (req m' (gx_request (ctx m i))) = GenerateFinished"
    using rq_core_fields [OF core [OF rl]] rl g k1 by (simp add: FinishRequest_simps)
  show "rq_core (req m' r) = rq_core (req m r)" if "r < length (am_requests m)" "r \<noteq> gx_request (ctx m i)"
    using core [OF that(1)] k1(5) [OF that(1)] that g by (simp add: FinishRequest_simps)
  show "rq_id (req m' r) = rq_id (req m r)" if "r < length (am_requests m)"
    using rq_core_fields [OF core [OF that]] rq_core_fields [OF k1(5) [OF that]] that g k1(3)
    by (cases "r = gx_request (ctx m i)") (simp_all add: FinishRequest_simps)
qed

lemma StopRequest_pending:
  assumes "\<exists>r \<in> set (am_pending m). rq_id (req m r) = k"
  shows "StopRequest e c k m = ret ALLSPARK_SUCCESS (snd (StopPendingRequest k m))"
proof -
  have "fst (StopPendingRequest k m) = True" using assms by (auto simp: StopPendingRequest_def Let_def list_ex_iff)
  then obtain m' where "StopPendingRequest k m = (True, m')" by (cases "StopPendingRequest k m") simp
  then show ?thesis by (simp add: StopRequest_def)
qed

lemma StopRequest_unknown:
  assumes "\<forall>r \<in> set (am_pending m). rq_id (req m r) \<noteq> k" "find_ctx k m = None"
  shows "StopRequest e c k m = ret ALLSPARK_SUCCESS m"
  using assms by (simp add: StopRequest_def StopPendingRequest_none)

text \<open>The batch only shrinks, whatever the outcome.\<close>

definition shrinks :: "('d, 'm, 'x) as_model \<Rightarrow> ('d, 'm, 'x) as_model \<Rightarrow> bool" where
  "shrinks m m' \<longleftrightarrow>
     set (am_pending m') \<subseteq> set (am_pending m) \<and> set (running m') \<subseteq> set (running m) \<and>
     length (am_gen_ctx_list m') \<le> length (am_gen_ctx_list m) \<and> length (am_requests m') = length (am_requests m) \<and>
     model_inv m'"

lemma shrinks_refl: "model_inv m \<Longrightarrow> shrinks m m" by (simp add: shrinks_def)

lemma shrinks_trans: "shrinks m m' \<Longrightarrow> shrinks m' m'' \<Longrightarrow> shrinks m m''" by (auto simp: shrinks_def)

lemma shrinks_keep: "model_inv m \<Longrightarrow> ctx_keep m m' \<Longrightarrow> shrinks m m'"
  using ctx_keep_facts [of m m'] model_inv_keep [of m m'] by (simp add: shrinks_def)

lemma StopRequest_shrinks:
  assumes "model_inv m"
  shows "shrinks m (snd (StopRequest e c k m))"
proof (cases "\<exists>r \<in> set (am_pending m). rq_id (req m r) = k")
  case True
  have "model_inv (snd (StopPendingRequest k m))"
    using assms by (auto simp: model_inv_def StopPendingRequest_simps running_def)
  with True show ?thesis
    by (auto simp: StopRequest_pending shrinks_def StopPendingRequest_simps running_def)
next
  case False
  then have none: "\<forall>r \<in> set (am_pending m). rq_id (req m r) \<noteq> k" by blast
  show ?thesis
  proof (cases "find_ctx k m")
    case None
    with none assms show ?thesis by (simp add: StopRequest_unknown shrinks_refl)
  next
    case (Some i)
    obtain res m' where st: "StopRequest e c k m = (res, m')" by (cases "StopRequest e c k m")
    from StopRequest_result [OF none Some st] show ?thesis
    proof (elim disjE conjE)
      assume "ops_keep m m'"
      with st assms show ?thesis by (simp add: shrinks_keep ops_keep_ctx_keep)
    next
      assume "stopped i m m'"
      from stopped_facts [OF this assms] find_ctx_Some [OF Some] st show ?thesis by (auto simp: shrinks_def)
    qed
  qed
qed

lemma stop_finished_shrinks: "model_inv m \<Longrightarrow> shrinks m (snd (stop_finished e c n m))"
proof (induction n arbitrary: m)
  case 0
  then show ?case by (simp add: shrinks_refl)
next
  case (Suc n)
  obtain res m1 where st: "StopRequest e c (rq_id (req m (gx_request (ctx m n)))) m = (res, m1)"
    by (cases "StopRequest e c (rq_id (req m (gx_request (ctx m n)))) m")
  have s1: "shrinks m m1" using StopRequest_shrinks [OF Suc.prems, of e c "rq_id (req m (gx_request (ctx m n)))"] st by simp
  then have "shrinks m1 (snd (stop_finished e c n m1))" by (intro Suc.IH) (simp add: shrinks_def)
  from shrinks_trans [OF s1 this] s1 Suc st show ?case
    by (cases res) (auto simp: with_ctx_def thenOk_def shrinks_refl)
qed

section \<open>StartRequest\<close>

lemma buildGenContext_cases:
  obtains (fails) ex where "buildGenContext c r m = (Inl ex, m)"
  | (builds) g where "buildGenContext c r m = (Inr g, m)" "gx_request g = r" "\<not> gx_finish g" "gx_in_length_bias g = 0"
      "gc_max_length (gx_gen_cfg g) = gc_max_length (rq_gen_cfg (req m r))"
proof (cases "map_at (rq_inputs (req m r)) ''input_ids''")
  case (Inl ex)
  then show thesis by (intro fails) (simp add: buildGenContext_def liftE_def)
next
  case (Inr p)
  show thesis
  proof (cases "Shape_at (tt_shape (tensor m p)) 1")
    case (Inl ex)
    with Inr show thesis by (intro fails) (simp add: buildGenContext_def liftE_def)
  next
    case (Inr n)
    with \<open>map_at (rq_inputs (req m r)) ''input_ids'' = Inr p\<close>
    have "\<exists>g. buildGenContext c r m = (Inr g, m) \<and> gx_request g = r \<and> \<not> gx_finish g \<and> gx_in_length_bias g = 0 \<and>
      gc_max_length (gx_gen_cfg g) = gc_max_length (rq_gen_cfg (req m r))"
      by (simp add: buildGenContext_def liftE_def Let_def)
    with builds show thesis by blast
  qed
qed

lemma PushBackGenCtx_facts:
  assumes "model_inv m" "r < length (am_requests m)" "r \<notin> set (am_pending m)" "r \<notin> set (running m)" "gx_request g = r"
  shows "model_inv (PushBackGenCtx g m)" "running (PushBackGenCtx g m) = running m @ [r]"
    "am_pending (PushBackGenCtx g m) = am_pending m" "am_requests (PushBackGenCtx g m) = am_requests m"
    "length (am_gen_ctx_list (PushBackGenCtx g m)) = Suc (length (am_gen_ctx_list m))"
  using assms by (auto simp: PushBackGenCtx_def model_inv_def running_def nth_append less_Suc_eq)

lemma snd_andThen: "J (snd a) \<Longrightarrow> (\<And>x s. J s \<Longrightarrow> J (snd (k x s))) \<Longrightarrow> J (snd (andThen a k))"
  by (cases a; cases "fst a") auto

lemma snd_thenOk: "J (snd a) \<Longrightarrow> (\<And>s. J s \<Longrightarrow> J (snd (k s))) \<Longrightarrow> J (snd (thenOk a k))"
  by (cases a; cases "fst a") (auto simp: thenOk_def)

lemma snd_checkStatus: "J (snd a) \<Longrightarrow> (\<And>s. J s \<Longrightarrow> J (snd (k s))) \<Longrightarrow> J (snd (checkStatus a k))"
  by (cases a; cases "fst a") (auto simp: checkStatus_def)

lemma shrinks_ctx_keep: "shrinks m s \<Longrightarrow> ctx_keep s s' \<Longrightarrow> shrinks m s'"
  by (metis shrinks_def shrinks_keep shrinks_trans)

lemma shrinks_inv: "shrinks m s \<Longrightarrow> model_inv s" by (simp add: shrinks_def)

lemma shrinks_stop: "shrinks m s \<Longrightarrow> shrinks m (snd (StopRequest e c k s))"
  by (meson StopRequest_shrinks shrinks_inv shrinks_trans)

lemma shrinks_stop_all: "shrinks m s \<Longrightarrow> shrinks m (snd (stop_all_finished e c s))"
  unfolding stop_all_finished_def by (meson stop_finished_shrinks shrinks_inv shrinks_trans)

text \<open>Fields of a request that the invariant does not look at.\<close>

lemma shrinks_upd_req: "shrinks m s \<Longrightarrow> shrinks m (upd_req r h s)"
  by (auto simp: shrinks_def model_inv_def running_def)

lemma shrinks_guarded: "shrinks m s \<Longrightarrow> shrinks m (snd (run_context_guarded e c r s))"
proof -
  assume s: "shrinks m s"
  obtain res s1 where rd: "runDecoderContext e c s = (res, s1)" by (cases "runDecoderContext e c s")
  have "ctx_keep s s1" using ckeep.I_runDecoderContext [OF ctx_keep_refl, of s e c] rd by simp
  with s have s1: "shrinks m s1" by (rule shrinks_ctx_keep)
  show ?thesis
  proof (cases res)
    case (Inl ex)
    have "shrinks m (snd (andThen (StopRequest e c (rq_id (req s1 r)) s1) (\<lambda>_ m2.
      (Inl StdException :: exn + unit, upd_req r (\<lambda>q. q\<lparr>rq_status := GenerateInterrupted\<rparr>) m2))))"
      by (rule snd_andThen [where J = "shrinks m"]) (auto intro: shrinks_stop s1 shrinks_upd_req)
    with Inl rd s1 show ?thesis by (simp add: run_context_guarded_def)
  qed (use rd s1 in \<open>simp add: run_context_guarded_def\<close>)
qed

text \<open>Everything that follows the push of the new context.\<close>

definition start_body ::
  "('d, 'm, 'x) model_env \<Rightarrow> model_cfg \<Rightarrow> req_ptr \<Rightarrow> nat \<Rightarrow> ('d, 'm, 'x) as_model \<Rightarrow> (as_status, ('d, 'm, 'x) as_model) outcome" where
  "start_body e c r batch m =
     checkStatus (if mc_device c = CUDA then
                    (if mc_span_size c = 0 then (Inl UndefinedBehaviour, m)
                     else init_layers e c batch [0..<nat (mc_layers c)] m)
                  else ret ALLSPARK_SUCCESS m) (\<lambda>m.
     thenOk (start_inputs e c r batch m) (\<lambda>m.
     andThen (run_context_guarded e c r (m\<lparr>am_is_context := True, am_current_batch := batch\<rparr>)) (\<lambda>_ m.
     andThen (insert_prefix e c batch m) (\<lambda>_ m.
     thenOk (reshape_topo e c (m\<lparr>am_is_context := False, am_current_batch := 0\<rparr>)) (\<lambda>m.
       stop_all_finished e c
         (upd_req r (\<lambda>q. q\<lparr>rq_status := ContextFinished, rq_context_ts := en_now e\<rparr>) m))))))"

lemma start_body_shrinks: "shrinks m0 m \<Longrightarrow> shrinks m0 (snd (start_body e c r batch m))"
proof -
  have flags: "shrinks m0 (s\<lparr>am_is_context := b, am_current_batch := n\<rparr>)" if "shrinks m0 s" for s b n
    by (rule shrinks_ctx_keep [OF that]) (rule ckeep.I_flags [OF ctx_keep_refl])
  have init: "shrinks m0 (snd (init_layers e c batch ls s))" if "shrinks m0 s" for s ls
    by (rule shrinks_ctx_keep [OF that]) (rule ckeep.I_init_layers [OF ctx_keep_refl])
  have inputs: "shrinks m0 (snd (start_inputs e c r batch s))" if "shrinks m0 s" for s
    by (rule shrinks_ctx_keep [OF that]) (rule ckeep.I_start_inputs [OF ctx_keep_refl])
  have pre: "shrinks m0 (snd (insert_prefix e c batch s))" if "shrinks m0 s" for s
    by (rule shrinks_ctx_keep [OF that]) (rule ckeep.I_insert_prefix [OF ctx_keep_refl])
  have topo: "shrinks m0 (snd (reshape_topo e c s))" if "shrinks m0 s" for s
    by (rule shrinks_ctx_keep [OF that]) (rule ckeep.I_reshape_topo [OF ctx_keep_refl])
  assume "shrinks m0 m"
  then show ?thesis
    unfolding start_body_def
    by (intro snd_checkStatus [where J = "shrinks m0"] snd_thenOk [where J = "shrinks m0"] snd_andThen [where J = "shrinks m0"])
      (auto intro!: init inputs shrinks_guarded flags pre topo shrinks_stop_all shrinks_upd_req)
qed

lemma StartRequest_body:
  "StartRequest e c r m =
     (if gc_lora_name (rq_gen_cfg (req m r)) \<noteq> [] \<and> gc_lora_name (rq_gen_cfg (req m r)) \<notin> set (am_loras m) then
        andThen (StopRequest e c (rq_id (req m r)) m) (\<lambda>_ m.
          ret ALLSPARK_LORA_NOT_FOUND (upd_req r (\<lambda>q. q\<lparr>rq_status := GenerateFinished, rq_finish := True\<rparr>) m))
      else andThen (buildGenContext c r m) (\<lambda>g m. start_body e c r (length (am_gen_ctx_list m)) (PushBackGenCtx g m)))"
proof -
  have "andThen (buildGenContext c r m) (\<lambda>g m'. start_body e c r (length (am_gen_ctx_list m)) (PushBackGenCtx g m'))
    = andThen (buildGenContext c r m) (\<lambda>g m'. start_body e c r (length (am_gen_ctx_list m')) (PushBackGenCtx g m'))"
    by (rule buildGenContext_cases [of c r m]) simp_all
  then show ?thesis unfolding StartRequest_def start_body_def Let_def by simp
qed

text \<open>A request that is started is at most added to the batch.\<close>

definition admits :: "req_ptr \<Rightarrow> ('d, 'm, 'x) as_model \<Rightarrow> ('d, 'm, 'x) as_model \<Rightarrow> bool" where
  "admits r m m' \<longleftrightarrow>
     set (am_pending m') \<subseteq> set (am_pending m) \<and> set (running m') \<subseteq> insert r (set (running m)) \<and>
     length (am_gen_ctx_list m') \<le> Suc (length (am_gen_ctx_list m)) \<and> length (am_requests m') = length (am_requests m) \<and>
     model_inv m'"

lemma StartRequest_admits:
  assumes "model_inv m" "r < length (am_requests m)" "r \<notin> set (am_pending m)" "r \<notin> set (running m)"
  shows "admits r m (snd (StartRequest e c r m))"
proof (cases "gc_lora_name (rq_gen_cfg (req m r)) \<noteq> [] \<and> gc_lora_name (rq_gen_cfg (req m r)) \<notin> set (am_loras m)")
  case True
  have "shrinks m (snd (andThen (StopRequest e c (rq_id (req m r)) m) (\<lambda>_ m.
      ret ALLSPARK_LORA_NOT_FOUND (upd_req r (\<lambda>q. q\<lparr>rq_status := GenerateFinished, rq_finish := True\<rparr>) m))))"
    by (rule snd_andThen [where J = "shrinks m"]) (auto intro: StopRequest_shrinks assms(1) shrinks_upd_req)
  with True show ?thesis by (auto simp: StartRequest_body shrinks_def admits_def)
next
  case False
  show ?thesis
  proof (cases rule: buildGenContext_cases [of c r m])
    case (fails ex)
    with False assms(1) show ?thesis by (auto simp: StartRequest_body admits_def)
  next
    case (builds g)
    note p = PushBackGenCtx_facts [OF assms builds(2)]
    from start_body_shrinks [OF shrinks_refl [OF p(1)], of e c r "length (am_gen_ctx_list m)"] builds(1) False p
    show ?thesis by (auto simp: StartRequest_body admits_def shrinks_def)
  qed
qed

end
