(* ===== verification/Model_Progress.thy ===== *)
theory Model_Progress
  imports Model_Invariant
begin

text \<open>
  What the calls of the scheduler of \<open>AsModel\<close> keep: the batch stays within its bound, a request that
  has reached its length is marked by the next step, and stopping what has finished loses no request.
\<close>

section \<open>Admission keeps the queue and the batch\<close>

definition sched_keep :: "('d, 'm, 'x) as_model \<Rightarrow> ('d, 'm, 'x) as_model \<Rightarrow> bool" where
  "sched_keep m m' \<longleftrightarrow>
     am_pending m' = am_pending m \<and> am_unfinished m' = am_unfinished m \<and>
     am_already_context_length m' = am_already_context_length m \<and>
     map gx_ident (am_gen_ctx_list m') = map gx_ident (am_gen_ctx_list m) \<and>
     length (am_requests m') = length (am_requests m)"

interpretation skeep: op_insensitive "sched_keep m0" for m0 :: "('d, 'm, 'x) as_model"
proof
  fix m :: "('d, 'm, 'x) as_model" and i w assume a: "sched_keep m0 m" "gx_le (ctx m i) (w (ctx m i))"
  from upd_ctx_ident [of w m i, OF gx_le_ident [OF a(2)]] a(1) show "sched_keep m0 (upd_ctx i w m)"
    by (simp add: sched_keep_def)
qed (auto simp: sched_keep_def)

lemma sched_keep_refl [simp, intro]: "sched_keep m m" by (simp add: sched_keep_def)

lemma sched_keep_upd_req: "sched_keep m0 m \<Longrightarrow> sched_keep m0 (upd_req r h m)" by (simp add: sched_keep_def)

lemma sched_keep_model_inv: "sched_keep m m' \<Longrightarrow> model_inv m \<Longrightarrow> model_inv m'"
proof -
  assume k: "sched_keep m m'" and inv: "model_inv m"
  have g: "map gx_ident (am_gen_ctx_list m') = map gx_ident (am_gen_ctx_list m)" using k by (simp add: sched_keep_def)
  have r: "running m' = running m" unfolding running_def by (rule map_ident_running [OF g])
  have l: "length (am_gen_ctx_list m') = length (am_gen_ctx_list m)" using g by (rule map_eq_imp_length_eq)
  have "gx_current_batch (ctx m' i) = gx_current_batch (ctx m i)" if "i < length (am_gen_ctx_list m)" for i
    using arg_cong [OF g, of "\<lambda>xs. fst (snd (xs ! i))"] that l by (simp add: gx_ident_def)
  with inv r l k show ?thesis by (simp add: model_inv_def sched_keep_def)
qed

lemma sched_keep_running: "sched_keep m m' \<Longrightarrow> running m' = running m"
  unfolding running_def by (rule map_ident_running) (simp add: sched_keep_def)

lemma sched_keep_size: "sched_keep m m' \<Longrightarrow> length (am_gen_ctx_list m') = length (am_gen_ctx_list m)"
  by (rule map_eq_imp_length_eq [of gx_ident _ gx_ident]) (simp add: sched_keep_def)

lemma admission_frames_keep: "sched_keep m0 m \<Longrightarrow> sched_keep m0 (snd (admission_frames e c r m))"
proof -
  assume "sched_keep m0 m"
  then show ?thesis
    unfolding admission_frames_def Let_def
    by (auto intro!: skeep.I_prims skeep.I_CreateTensorForHash sched_keep_upd_req split: prod.split)
qed

section \<open>The batch is bounded\<close>

text \<open>The bound on the batch that a step keeps.\<close>

definition fits :: "nat \<Rightarrow> ('d, 'm, 'x) as_model \<Rightarrow> bool" where
  "fits n m \<longleftrightarrow> model_inv m \<and> length (am_gen_ctx_list m) \<le> n"

lemma fits_upd_req: "fits n m \<Longrightarrow> fits n (upd_req r h m)"
  by (auto simp: fits_def model_inv_def running_def)

lemma fits_sched_keep: "fits n m \<Longrightarrow> sched_keep m m' \<Longrightarrow> fits n m'"
  using sched_keep_model_inv [of m m'] sched_keep_size [of m m'] by (simp add: fits_def)

lemma fits_ctx_keep: "fits n m \<Longrightarrow> ctx_keep m m' \<Longrightarrow> fits n m'"
  using model_inv_keep [of m m'] ctx_keep_facts(4) [of m m'] by (simp add: fits_def)

lemma fits_shrinks: "fits n m \<Longrightarrow> shrinks m m' \<Longrightarrow> fits n m'"
  by (auto simp: fits_def shrinks_def)

lemma fits_start:
  assumes "fits n m" "r < length (am_requests m)" "r \<notin> set (am_pending m)" "r \<notin> set (running m)"
  shows "fits (Suc n) (snd (StartRequest e c r m))"
  using StartRequest_admits [of m r e c] assms by (auto simp: fits_def admits_def)

lemma fits_tensors [simp]: "fits n (m\<lparr>am_tensors := ts\<rparr>) = fits n m"
  by (simp add: fits_def model_inv_def running_def)

lemma fits_unfinished [simp]: "fits n (m\<lparr>am_unfinished := u\<rparr>) = fits n m"
  by (simp add: fits_def)

lemma fits_already [simp]: "fits n (m\<lparr>am_already_context_length := u\<rparr>) = fits n m"
  by (simp add: fits_def model_inv_def running_def)

lemma fits_pop:
  assumes "fits n m" "am_pending m = r # rest"
  shows "fits n (m\<lparr>am_pending := rest\<rparr>)" "r < length (am_requests m)" "r \<notin> set rest" "r \<notin> set (running m)"
  using assms by (auto simp: fits_def model_inv_def running_def)

lemma fits_new_req: "fits n m \<Longrightarrow> fits n (m\<lparr>am_requests := am_requests m @ [q]\<rparr>)"
  by (auto simp: fits_def model_inv_def running_def intro: less_SucI)

lemma prefill_finish_fits:
  assumes "fits n m" "am_pending m = r # rest"
  shows "fits (Suc n) (snd (andThen (StartRequest e c r (m\<lparr>am_pending := tl (am_pending m)\<rparr>)) (\<lambda>_ m.
    ret () (upd_req r (\<lambda>q. q\<lparr>rq_prefill_chunk_len := rq_input_len q\<rparr>) m))))"
proof (rule snd_andThen [where J = "fits (Suc n)"])
  note p = fits_pop [OF assms]
  show "fits (Suc n) (snd (StartRequest e c r (m\<lparr>am_pending := tl (am_pending m)\<rparr>)))"
    by (rule fits_start) (use p assms in \<open>simp_all add: running_def\<close>)
qed (simp add: fits_upd_req)

lemma PrefillChunkRequest_fits:
  assumes "fits n m" "am_pending m = r # rest"
  shows "fits (Suc n) (snd (PrefillChunkRequest e c r m))"
proof -
  let ?q = "req m r" and ?len = "rq_prefill_chunk_len (req m r) + mc_max_prefill_length c + 1"
  have n: "fits n s \<Longrightarrow> fits (Suc n) s" for s :: "('a, 'b, 'c) as_model" by (simp add: fits_def)
  have chunk: "fits (Suc n) (snd (andThen (StartRequest e c (length (am_requests m)) s) (\<lambda>_ m.
      ret () (upd_req r (\<lambda>q. q\<lparr>rq_prefill_chunk_len := ?len - 1\<rparr>) m))))"
    if "s = (m\<lparr>am_requests := am_requests m @ [x]\<rparr>)\<lparr>am_tensors := ts\<rparr>" for s x ts
  proof (rule snd_andThen [where J = "fits (Suc n)"])
    have "fits n s" using fits_new_req [OF assms(1)] that by simp
    moreover have "length (am_requests m) \<notin> set (am_pending m) \<union> set (running m)"
      using assms(1) by (auto simp: fits_def model_inv_def)
    ultimately show "fits (Suc n) (snd (StartRequest e c (length (am_requests m)) s))"
      using that by (intro fits_start) (simp_all add: running_def)
  qed (simp add: fits_upd_req)
  show ?thesis
  proof (cases "map_at (rq_inputs ?q) ''input_ids''")
    case (Inl ex)
    then show ?thesis
      using prefill_finish_fits [OF assms] fits_new_req [OF assms(1)] assms(1)
      by (auto simp: PrefillChunkRequest_def Let_def liftE_def new_req_def n)
  next
    case (Inr p)
    have fin: "fits (Suc n) (snd (andThen (StartRequest e c r (m\<lparr>am_tensors := ts, am_pending := tl (am_pending m)\<rparr>)) (\<lambda>_ m.
      ret () (upd_req r (\<lambda>q. q\<lparr>rq_prefill_chunk_len := rq_input_len q\<rparr>) m))))" for ts
      using prefill_finish_fits [of n "m\<lparr>am_tensors := ts\<rparr>" r rest e c] assms by simp
    from Inr show ?thesis
      using prefill_finish_fits [OF assms] fin chunk [OF refl]
      by (auto simp: PrefillChunkRequest_def Let_def liftE_def new_req_def upd_tensor_def)
  qed
qed

lemma GenerateContinueContext_fits:
  assumes "fits n m" "mc_max_batch c \<le> int n"
  shows "fits n (snd (GenerateContinueContext e c b m))"
proof -
  let ?m = "if b then m\<lparr>am_already_context_length := 0\<rparr> else m"
  have m: "fits n ?m" using assms(1) by simp
  show ?thesis
  proof (cases "am_pending ?m")
    case Nil
    with m show ?thesis by (simp add: GenerateContinueContext_def Let_def)
  next
    case (Cons r rest)
    show ?thesis
    proof (cases "GetGenCtxListSize ?m < mc_max_batch c")
      case False
      with Cons m show ?thesis by (simp add: GenerateContinueContext_def Let_def)
    next
      case True
      then obtain k where k: "n = Suc k" and mk: "fits k ?m"
        using assms(2) m by (cases n) (auto simp: GetGenCtxListSize_def fits_def)
      obtain res m1 where ad: "admission_frames e c r ?m = (res, m1)" by (cases "admission_frames e c r ?m")
      have sk: "sched_keep ?m m1" using admission_frames_keep [OF sched_keep_refl, of ?m e c r] ad by simp
      have m1: "fits k m1" using fits_sched_keep [OF mk sk] .
      have p1: "am_pending m1 = r # rest" using sk Cons by (simp add: sched_keep_def)
      note pc = PrefillChunkRequest_fits [OF m1 p1, of e c]
      have pop: "fits k (m1\<lparr>am_pending := rest\<rparr>)" using fits_pop [OF m1 p1] by simp
      have st: "fits n (snd (StartRequest e c r (?m\<lparr>am_pending := rest\<rparr>)))"
        using fits_pop [OF mk Cons] unfolding k by (intro fits_start) (simp_all add: running_def)
      have up: "fits (Suc k) s" if "fits k s" for s :: "('a, 'b, 'c) as_model" using that by (simp add: fits_def)
      have A: "fits n (snd (andThen (admission_frames e c r ?m) (\<lambda>(st, need) m.
            if \<not> (st = ALLSPARK_SUCCESS \<or> st = ALLSPARK_STREAMING) then ret st m
            else if need \<le> cfm_CountFreeFrame (frame_mgr m) then
              andThen (PrefillChunkRequest e c r m) (\<lambda>_ m.
              let m = store_unfinished m; q = req m r in
              if rq_prefill_chunk_len q \<noteq> rq_input_len q then ret ALLSPARK_CHUNK_PREFILL m
              else ret ALLSPARK_SUCCESS (m\<lparr>am_already_context_length := am_already_context_length m + rq_input_len q\<rparr>))
            else
              ret ALLSPARK_EMPTY_REQUEST (store_unfinished
                (upd_req r (\<lambda>q. q\<lparr>rq_finish := True, rq_status := GenerateInterrupted\<rparr>)
                  (m\<lparr>am_pending := tl (am_pending m)\<rparr>))))))"
      proof (cases res)
        case (Inr sn)
        have "fits (Suc k) (snd (andThen (PrefillChunkRequest e c r m1) (\<lambda>_ m.
              let m = store_unfinished m; q = req m r in
              if rq_prefill_chunk_len q \<noteq> rq_input_len q then ret ALLSPARK_CHUNK_PREFILL m
              else ret ALLSPARK_SUCCESS (m\<lparr>am_already_context_length := am_already_context_length m + rq_input_len q\<rparr>))))"
          by (rule snd_andThen [where J = "fits (Suc k)"]) (use pc in \<open>simp_all add: Let_def store_unfinished_def\<close>)
        then show ?thesis using Inr ad m1 pop p1 up k
          by (auto simp: store_unfinished_def intro: fits_upd_req split: prod.split)
      qed (use ad m1 up k in simp)
      have B: "fits n (snd (andThen (StartRequest e c r (?m\<lparr>am_pending := tl (am_pending ?m)\<rparr>)) (\<lambda>_ m.
              ret ALLSPARK_SUCCESS (store_unfinished m))))"
        by (rule snd_andThen [where J = "fits n"]) (use st Cons in \<open>simp_all add: store_unfinished_def\<close>)
      from A B Cons m True show ?thesis
        unfolding GenerateContinueContext_def Let_def by (simp only: list.case if_False split: if_split) auto
    qed
  qed
qed

section \<open>One decoding step\<close>

lemma ops_keep_snd:
  "ops_keep m0 m \<Longrightarrow> ops_keep m0 (snd (run_graph (CallReshape e) ops m))"
  "ops_keep m0 m \<Longrightarrow> ops_keep m0 (snd (run_graph (CallForward e c) ops m))"
  "ops_keep m0 m \<Longrightarrow> ops_keep m0 (snd (run_graph (reshape_forward e c) ops m))"
  "ops_keep m0 m \<Longrightarrow> ops_keep m0 (snd (alloc_caches e c m))"
  by (intro keep.I_run_graph keep.I_CallReshape keep.I_CallForward keep.I_reshape_forward keep.I_alloc_caches; assumption)+

text \<open>Before the steps are counted nothing that scheduling looks at changes, and after that neither.\<close>

lemma thenOk_result:
  assumes "thenOk a k = (res, m')"
  obtains (stop) m1 where "a = (res, m')" "res \<noteq> Inr ALLSPARK_SUCCESS"
  | (go) m1 where "a = (Inr ALLSPARK_SUCCESS, m1)" "k m1 = (res, m')"
  using assms by (cases a; cases "fst a") (auto simp: thenOk_def split: if_splits)

lemma decode_batch_result:
  assumes "decode_batch e c m = (res, m')"
  shows "ops_keep m m' \<and> res \<noteq> Inr ALLSPARK_SUCCESS \<or> (\<exists>m1. ops_keep m m1 \<and> ops_keep (step_all m1) m')"
proof -
  let ?tail = "\<lambda>m. thenOk (run_graph (CallReshape e) (mc_gen_graph c) (step_all m)) (\<lambda>m.
     thenOk (run_graph (CallForward e c) (mc_gen_graph c) m) (\<lambda>m. run_graph (reshape_forward e c) (mc_post_graph c) m))"
  have tail: "ops_keep (step_all s) (snd (?tail s))" for s
    by (intro keep.I_thenOk ops_keep_snd ops_keep_refl; assumption)
  obtain r1 m1 where a: "alloc_caches e c m = (r1, m1)" by (cases "alloc_caches e c m")
  have k1: "ops_keep m m1" using ops_keep_snd(4) [OF ops_keep_refl, of m e c] a by simp
  obtain r2 m2 where b: "run_graph (CallForward e c) (mc_decoder c) m1 = (r2, m2)"
    by (cases "run_graph (CallForward e c) (mc_decoder c) m1")
  have k2: "ops_keep m m2" using ops_keep_snd(2) [OF k1, of e c "mc_decoder c"] b by simp
  have eq: "decode_batch e c m = thenOk (r1, m1) (\<lambda>m. thenOk (run_graph (CallForward e c) (mc_decoder c) m) ?tail)"
    by (simp add: decode_batch_def a)
  consider "r1 \<noteq> Inr ALLSPARK_SUCCESS" | "r1 = Inr ALLSPARK_SUCCESS" "r2 \<noteq> Inr ALLSPARK_SUCCESS"
    | "r1 = Inr ALLSPARK_SUCCESS" "r2 = Inr ALLSPARK_SUCCESS" by blast
  then show ?thesis
  proof cases
    case 1
    then have "res = r1 \<and> m' = m1" using assms eq by (cases r1) (auto simp: thenOk_def)
    with 1 k1 show ?thesis by simp
  next
    case 2
    then have "res = r2 \<and> m' = m2" using assms eq b by (cases r2) (auto simp: thenOk_def)
    with 2 k2 show ?thesis by simp
  next
    case 3
    then have "?tail m2 = (res, m')" using assms eq b by (simp add: thenOk_def)
    with tail [of m2] k2 show ?thesis by (metis snd_conv)
  qed
qed

lemma step_all_ctx_keep: "ctx_keep m (step_all m)"
  by (simp add: ctx_keep_def step_all_def gx_ident_def)

lemma decode_batch_ctx_keep: "ctx_keep m (snd (decode_batch e c m))"
proof -
  obtain res m' where d: "decode_batch e c m = (res, m')" by (cases "decode_batch e c m")
  from decode_batch_result [OF d] show ?thesis
    unfolding d snd_conv by (metis ctx_keep_trans ops_keep_ctx_keep step_all_ctx_keep)
qed

lemma decode_start_keep:
  "ctx_keep (store_unfinished m) (ResetCache a (ResetCache b ((store_unfinished m)\<lparr>am_model_step := n\<rparr>)))"
  by (simp add: ctx_keep_def ResetCache_def)

lemma GenerateContinueDecoder_fits:
  assumes "fits n m"
  shows "fits n (snd (GenerateContinueDecoder e c m))"
proof -
  let ?m = "ResetCache ''rotary_inv_freq'' (ResetCache ''rotary_step''
    ((store_unfinished m)\<lparr>am_model_step := am_model_step (store_unfinished m) + 1\<rparr>))"
  have s: "fits n (store_unfinished m)" using assms by (simp add: store_unfinished_def)
  have "fits n ?m" by (rule fits_ctx_keep [OF s decode_start_keep])
  then have "fits n (snd (decode_batch e c ?m))" by (rule fits_ctx_keep [OF _ decode_batch_ctx_keep])
  moreover have "fits n (snd (thenOk (stop_all_finished e c s) (\<lambda>m. ret ALLSPARK_STREAMING m)))" if "fits n s" for s
  proof (rule snd_thenOk [where J = "fits n"])
    have "model_inv s" using that by (simp add: fits_def)
    from fits_shrinks [OF that shrinks_stop_all [OF shrinks_refl [OF this]]]
    show "fits n (snd (stop_all_finished e c s))" .
  qed simp
  ultimately have "fits n (snd (thenOk (decode_batch e c ?m) (\<lambda>m. thenOk (stop_all_finished e c m) (\<lambda>m. ret ALLSPARK_STREAMING m))))"
    by (rule snd_thenOk [where J = "fits n"])
  with s show ?thesis by (simp add: GenerateContinueDecoder_def Let_def)
qed

lemma AllocDecoderMemory_fits: "fits n m \<Longrightarrow> fits n (snd (AllocDecoderMemory e c m))"
proof -
  assume m: "fits n m"
  have fl: "sched_keep m (m\<lparr>am_is_context := False, am_current_batch := 0\<rparr>)" by (simp add: sched_keep_def)
  have "sched_keep m (snd (AllocDecoderMemory e c m))"
    unfolding AllocDecoderMemory_def Let_def by (auto intro!: skeep.I_prims fl)
  with m show ?thesis by (rule fits_sched_keep)
qed

section \<open>A request that has reached its length finishes\<close>

definition overdue :: "gen_context \<Rightarrow> bool" where
  "overdue g \<longleftrightarrow> gx_step g + gx_in_length_bias g \<ge> gc_max_length (gx_gen_cfg g) - 1"

lemma ops_keep_length: "ops_keep m m' \<Longrightarrow> length (am_gen_ctx_list m') = length (am_gen_ctx_list m)"
  by (rule ctx_keep_facts(4) [OF ops_keep_ctx_keep])

lemma ops_keep_ctx:
  assumes "ops_keep m m'" "i < length (am_gen_ctx_list m)"
  shows "i < length (am_gen_ctx_list m')" "gx_core (ctx m' i) = gx_core (ctx m i)"
    "gx_finish (ctx m i) \<Longrightarrow> gx_finish (ctx m' i)" "overdue (ctx m' i) = overdue (ctx m i)"
proof -
  have l: "list_all2 gx_le (am_gen_ctx_list m) (am_gen_ctx_list m')" using assms(1) by (simp add: ops_keep_def)
  then show "i < length (am_gen_ctx_list m')" using assms(2) by (simp add: list_all2_lengthD)
  have g: "gx_le (ctx m i) (ctx m' i)" using l assms(2) by (rule list_all2_nthD)
  then show c: "gx_core (ctx m' i) = gx_core (ctx m i)" and "gx_finish (ctx m i) \<Longrightarrow> gx_finish (ctx m' i)"
    by (simp_all add: gx_le_def)
  show "overdue (ctx m' i) = overdue (ctx m i)" using gx_core_fields [OF c] by (simp add: overdue_def)
qed

lemma check_finish_overdue:
  assumes "i < length (am_gen_ctx_list m)" "overdue (ctx m i)"
  shows "gx_finish (ctx (snd (check_finish i m)) i)"
  using assms by (auto simp: check_finish_def with_ctx_def overdue_def upd_ctx_def Let_def)

lemma update_ctx_overdue:
  assumes "update_ctx c b i m = (res, m')" "i < length (am_gen_ctx_list m)" "overdue (ctx m i)"
  shows "gx_finish (ctx m' i)"
proof -
  obtain r1 m1 where cf: "check_finish i m = (r1, m1)" by (cases "check_finish i m")
  have f1: "gx_finish (ctx m1 i)" using check_finish_overdue [OF assms(2,3)] cf by simp
  have k1: "ops_keep m m1" using keep.I_check_finish [OF ops_keep_refl, of m i] cf by simp
  have "ops_keep m1 m'"
  proof (cases r1)
    case (Inr u)
    have "ops_keep m1 (snd (andThen (copy_generated_ids c i b m1) (\<lambda>_ m. ret ALLSPARK_SUCCESS m)))"
      by (rule keep.I_andThen) (auto intro: keep.I_copy_generated_ids)
    then show ?thesis using assms(1) cf Inr by (simp add: update_ctx_def)
  qed (use assms(1) cf in \<open>simp add: update_ctx_def\<close>)
  from ops_keep_ctx(3) [OF this _ f1] ops_keep_ctx(1) [OF k1 assms(2)] show ?thesis by blast
qed

lemma update_ctx_keep: "update_ctx c b i m = (res, m') \<Longrightarrow> ops_keep m m'"
proof -
  assume u: "update_ctx c b i m = (res, m')"
  have "ops_keep m (snd (update_ctx c b i m))"
    unfolding update_ctx_def by (auto intro!: keep.I_andThen keep.I_check_finish keep.I_copy_generated_ids)
  with u show ?thesis by simp
qed

lemma for_ctxs_overdue:
  assumes "for_ctxs (update_ctx c b) is m = (Inr ALLSPARK_SUCCESS, m')" "i \<in> set is"
    "i < length (am_gen_ctx_list m)" "overdue (ctx m i)"
  shows "gx_finish (ctx m' i)"
  using assms
proof (induction "is" arbitrary: m)
  case (Cons j js)
  from Cons.prems(1) obtain m1 where u: "update_ctx c b j m = (Inr ALLSPARK_SUCCESS, m1)"
    and rest: "for_ctxs (update_ctx c b) js m1 = (Inr ALLSPARK_SUCCESS, m')"
    by (auto simp: thenOk_def split: if_splits)
  note k = ops_keep_ctx [OF update_ctx_keep [OF u] Cons.prems(3)]
  have "ops_keep m1 m'"
    using keep.I_for_ctxs [of m1 "update_ctx c b" m1 js] rest
    by (metis ops_keep_refl ops_keep_trans snd_conv update_ctx_keep surj_pair)
  show ?case
  proof (cases "i = j")
    case True
    have "gx_finish (ctx m1 i)" using update_ctx_overdue [OF u] Cons.prems(3,4) True by simp
    with ops_keep_ctx(3) [OF \<open>ops_keep m1 m'\<close> k(1)] show ?thesis by blast
  next
    case False
    with Cons.IH [OF rest] Cons.prems(2,4) k show ?thesis by simp
  qed
qed simp

lemma UpdateIdOp_overdue:
  assumes "UpdateIdOp_Forward c name m = (Inr ALLSPARK_SUCCESS, m')" "name \<noteq> ''update_id_first''" "\<not> am_is_context m"
    "i < length (am_gen_ctx_list m)" "overdue (ctx m i)"
  shows "gx_finish (ctx m' i)"
  using assms for_ctxs_overdue [of c False "[0..<length (am_gen_ctx_list m)]" m m' i]
  by (simp add: UpdateIdOp_Forward_def running_batch_def)

lemma run_graph_overdue:
  assumes "run_graph f ops m = (Inr ALLSPARK_SUCCESS, m')" "UpdateIdOp name \<in> set ops" "name \<noteq> ''update_id_first''"
    "\<not> am_is_context m" "i < length (am_gen_ctx_list m)" "overdue (ctx m i)" "f = CallForward e c \<or> f = reshape_forward e c"
  shows "gx_finish (ctx m' i)"
  using assms(1,2,4-6)
proof (induction ops arbitrary: m)
  case (Cons op ops)
  from Cons.prems(1) obtain m1 where u: "f op m = (Inr ALLSPARK_SUCCESS, m1)"
    and rest: "run_graph f ops m1 = (Inr ALLSPARK_SUCCESS, m')"
    by (auto simp: ErrorProcess_def split: if_splits)
  have fk: "ops_keep s (snd (f op s))" for op s
    using assms(7) keep.I_CallForward [OF ops_keep_refl] keep.I_reshape_forward [OF ops_keep_refl] by blast
  have k1: "ops_keep m m1" using fk [of m op] u by simp
  note k = ops_keep_ctx [OF k1 Cons.prems(4)]
  have k2: "ops_keep m1 m'"
    using keep.I_run_graph [of m1 f m1 ops, OF _ ops_keep_refl] fk rest by (metis ops_keep_trans snd_conv)
  show ?case
  proof (cases "op = UpdateIdOp name")
    case True
    with u assms(7) have "UpdateIdOp_Forward c name m = (Inr ALLSPARK_SUCCESS, m1)"
      by (auto simp: CallForward_def reshape_forward_def CallReshape_def thenOk_def)
    from UpdateIdOp_overdue [OF this assms(3) Cons.prems(3-5)] have "gx_finish (ctx m1 i)" .
    with ops_keep_ctx(3) [OF k2 k(1)] show ?thesis by blast
  next
    case False
    with Cons.IH [OF rest] Cons.prems k k1 show ?thesis by (simp add: ops_keep_def)
  qed
qed simp

text \<open>The finish flags after a whole decoding step.\<close>

lemma decode_batch_overdue:
  assumes d: "decode_batch e c m = (Inr ALLSPARK_SUCCESS, m')"
    and u: "UpdateIdOp name \<in> set (mc_gen_graph c) \<union> set (mc_post_graph c)" "name \<noteq> ''update_id_first''"
    and m: "\<not> am_is_context m" and i: "i < length (am_gen_ctx_list m')" "overdue (ctx m' i)"
  shows "gx_finish (ctx m' i)"
proof -
  from d obtain m1 m2 m3 m4 where
    a: "alloc_caches e c m = (Inr ALLSPARK_SUCCESS, m1)"
    and b: "run_graph (CallForward e c) (mc_decoder c) m1 = (Inr ALLSPARK_SUCCESS, m2)"
    and g: "run_graph (CallReshape e) (mc_gen_graph c) (step_all m2) = (Inr ALLSPARK_SUCCESS, m3)"
    and h: "run_graph (CallForward e c) (mc_gen_graph c) m3 = (Inr ALLSPARK_SUCCESS, m4)"
    and p: "run_graph (reshape_forward e c) (mc_post_graph c) m4 = (Inr ALLSPARK_SUCCESS, m')"
    unfolding decode_batch_def by (auto simp: thenOk_def split: if_splits)
  have k: "ops_keep m m2" "ops_keep (step_all m2) m3" "ops_keep m3 m4" "ops_keep m4 m'"
    using ops_keep_snd(4) [OF ops_keep_refl, of m e c] ops_keep_snd(2) [of m m1 e c "mc_decoder c"] a b
      ops_keep_snd(1) [OF ops_keep_refl, of "step_all m2" e "mc_gen_graph c"] g
      ops_keep_snd(2) [OF ops_keep_refl, of m3 e c "mc_gen_graph c"] h
      ops_keep_snd(3) [OF ops_keep_refl, of m4 e c "mc_post_graph c"] p by simp_all
  have ctxt: "\<not> am_is_context m3" "\<not> am_is_context m4" using m k by (simp_all add: ops_keep_def step_all_def)
  have i4: "i < length (am_gen_ctx_list m4)" using i(1) ops_keep_length [OF k(4)] by simp
  have i3: "i < length (am_gen_ctx_list m3)" using i4 ops_keep_length [OF k(3)] by simp
  have o4: "overdue (ctx m4 i)" using ops_keep_ctx(4) [OF k(4) i4] i(2) by simp
  have o3: "overdue (ctx m3 i)" using ops_keep_ctx(4) [OF k(3) i3] o4 by simp
  show ?thesis
  proof (cases "UpdateIdOp name \<in> set (mc_gen_graph c)")
    case True
    from run_graph_overdue [OF h True u(2) ctxt(1) i3 o3] have "gx_finish (ctx m4 i)" by blast
    with ops_keep_ctx(3) [OF k(4) i4] show ?thesis by blast
  next
    case False
    with u(1) have "UpdateIdOp name \<in> set (mc_post_graph c)" by blast
    from run_graph_overdue [OF p this u(2) ctxt(2) i4 o4] show ?thesis by blast
  qed
qed

section \<open>Stopping what has finished\<close>

text \<open>No two pending or running requests have the same id.\<close>

definition ids_distinct :: "('d, 'm, 'x) as_model \<Rightarrow> bool" where
  "ids_distinct m \<longleftrightarrow> distinct (map (\<lambda>r. rq_id (req m r)) (am_pending m @ running m))"

text \<open>What a context is about, apart from its place.\<close>

definition gx_progress :: "gen_context \<Rightarrow> req_ptr \<times> int \<times> int \<times> gen_config" where
  "gx_progress g = (gx_request g, gx_step g, gx_in_length_bias g, gx_gen_cfg g)"

lemma gx_core_progress: "gx_core g' = gx_core g \<Longrightarrow> gx_progress g' = gx_progress g"
  by (drule gx_core_fields) (simp add: gx_progress_def)

definition settled :: "('d, 'm, 'x) as_model \<Rightarrow> ('d, 'm, 'x) as_model \<Rightarrow> bool" where
  "settled m m' \<longleftrightarrow>
     am_pending m' = am_pending m \<and> set (running m') \<subseteq> set (running m) \<and>
     (\<forall>r \<in> set (running m) - set (running m'). rq_finish (req m' r) \<and> rq_status (req m' r) = GenerateFinished) \<and>
     (\<forall>r < length (am_requests m). r \<notin> set (running m) - set (running m') \<longrightarrow> rq_core (req m' r) = rq_core (req m r)) \<and>
     (\<forall>r < length (am_requests m). rq_id (req m' r) = rq_id (req m r)) \<and>
     am_unfinished m' - int (length (am_gen_ctx_list m')) = am_unfinished m - int (length (am_gen_ctx_list m)) \<and>
     gx_progress ` set (am_gen_ctx_list m') \<subseteq> gx_progress ` set (am_gen_ctx_list m) \<and>
     length (am_requests m') = length (am_requests m) \<and> model_inv m' \<and> ids_distinct m'"

lemma settled_refl: "model_inv m \<Longrightarrow> ids_distinct m \<Longrightarrow> settled m m"
  by (simp add: settled_def)

lemma settledD:
  assumes "settled m m'"
  shows "am_pending m' = am_pending m" "set (running m') \<subseteq> set (running m)"
    "r \<in> set (running m) \<Longrightarrow> r \<notin> set (running m') \<Longrightarrow> rq_finish (req m' r) \<and> rq_status (req m' r) = GenerateFinished"
    "r < length (am_requests m) \<Longrightarrow> r \<notin> set (running m) \<or> r \<in> set (running m') \<Longrightarrow> rq_core (req m' r) = rq_core (req m r)"
    "r < length (am_requests m) \<Longrightarrow> rq_id (req m' r) = rq_id (req m r)"
    "am_unfinished m' - int (length (am_gen_ctx_list m')) = am_unfinished m - int (length (am_gen_ctx_list m))"
    "gx_progress ` set (am_gen_ctx_list m') \<subseteq> gx_progress ` set (am_gen_ctx_list m)"
    "length (am_requests m') = length (am_requests m)" "model_inv m'" "ids_distinct m'"
  using assms unfolding settled_def by blast+

lemma settled_trans:
  assumes "settled m m'" "settled m' m''" "model_inv m"
  shows "settled m m''"
proof -
  have rl: "r < length (am_requests m)" if "r \<in> set (running m)" for r
    using that assms(3) by (simp add: model_inv_def)
  have "rq_finish (req m'' r) \<and> rq_status (req m'' r) = GenerateFinished"
    if r: "r \<in> set (running m)" "r \<notin> set (running m'')" for r
  proof (cases "r \<in> set (running m')")
    case True
    with r assms(2) show ?thesis by (simp add: settled_def)
  next
    case False
    then have "rq_finish (req m' r) \<and> rq_status (req m' r) = GenerateFinished" using r assms(1) by (simp add: settled_def)
    moreover have "rq_core (req m'' r) = rq_core (req m' r)" using False assms(1,2) rl [OF r(1)] by (simp add: settled_def)
    note rq_core_fields [OF this]
    ultimately show ?thesis by simp
  qed
  moreover have "rq_core (req m'' r) = rq_core (req m r)"
    if r: "r < length (am_requests m)" "r \<notin> set (running m) - set (running m'')" for r
  proof -
    have "rq_core (req m' r) = rq_core (req m r)"
      using settledD(4) [OF assms(1) r(1)] settledD(2) [OF assms(2)] r(2) by blast
    moreover have "rq_core (req m'' r) = rq_core (req m' r)"
      using settledD(4) [OF assms(2), of r] settledD(8) [OF assms(1)] settledD(2) [OF assms(1)] r by auto
    ultimately show ?thesis by simp
  qed
  moreover have "\<forall>r < length (am_requests m). rq_id (req m'' r) = rq_id (req m r)"
    using settledD(5) [OF assms(1)] settledD(5) [OF assms(2)] settledD(8) [OF assms(1)] by simp
  moreover note subset_trans [OF settledD(2) [OF assms(2)] settledD(2) [OF assms(1)]]
  moreover note subset_trans [OF settledD(7) [OF assms(2)] settledD(7) [OF assms(1)]]
  moreover note trans [OF settledD(1) [OF assms(2)] settledD(1) [OF assms(1)]]
  moreover note trans [OF settledD(6) [OF assms(2)] settledD(6) [OF assms(1)]]
  moreover note trans [OF settledD(8) [OF assms(2)] settledD(8) [OF assms(1)]] settledD(9,10) [OF assms(2)]
  ultimately show ?thesis unfolding settled_def by blast
qed

lemma ids_distinct_sub:
  assumes "ids_distinct m" "am_pending m' = am_pending m" "set (running m') \<subseteq> set (running m)" "model_inv m" "model_inv m'"
    "\<forall>r < length (am_requests m). rq_id (req m' r) = rq_id (req m r)"
  shows "ids_distinct m'"
proof -
  have sub: "set (am_pending m' @ running m') \<subseteq> set (am_pending m @ running m)" using assms(2,3) by auto
  have id: "rq_id (req m' r) = rq_id (req m r)" if "r \<in> set (am_pending m' @ running m')" for r
    using that sub assms(4,6) by (auto simp: model_inv_def)
  have "inj_on (\<lambda>r. rq_id (req m r)) (set (am_pending m @ running m))"
    using assms(1) unfolding ids_distinct_def distinct_map by (rule conjunct2)
  then have "inj_on (\<lambda>r. rq_id (req m' r)) (set (am_pending m' @ running m'))"
    using sub id by (meson inj_on_cong inj_on_subset)
  moreover have "distinct (am_pending m' @ running m')" using assms(5) by (simp add: model_inv_def)
  ultimately show ?thesis unfolding ids_distinct_def distinct_map by blast
qed

lemma settled_keep:
  assumes "ops_keep m m'" "model_inv m" "ids_distinct m"
  shows "settled m m'"
proof -
  note k = ctx_keep_facts [OF ops_keep_ctx_keep [OF assms(1)]]
  have inv: "model_inv m'" using model_inv_keep [OF ops_keep_ctx_keep [OF assms(1)] assms(2)] .
  have ids: "\<forall>r < length (am_requests m). rq_id (req m' r) = rq_id (req m r)" using k(5) rq_core_fields by blast
  have "gx_progress ` set (am_gen_ctx_list m') \<subseteq> gx_progress ` set (am_gen_ctx_list m)"
  proof
    fix x assume "x \<in> gx_progress ` set (am_gen_ctx_list m')"
    then obtain i where "i < length (am_gen_ctx_list m')" "x = gx_progress (ctx m' i)" by (auto simp: in_set_conv_nth)
    with ops_keep_ctx(2) [OF assms(1), of i] k(4) show "x \<in> gx_progress ` set (am_gen_ctx_list m)"
      by (auto dest!: gx_core_progress)
  qed
  with k inv ids ids_distinct_sub [OF assms(3) k(1) _ assms(2) inv ids] show ?thesis by (simp add: settled_def)
qed

lemma stopped_progress:
  assumes "stopped i m m'" "i < length (am_gen_ctx_list m)"
  shows "gx_progress ` set (am_gen_ctx_list m') \<subseteq> gx_progress ` set (am_gen_ctx_list m)"
    "j < i \<Longrightarrow> gx_request (ctx m' j) = gx_request (ctx m j) \<and> (gx_finish (ctx m j) \<longrightarrow> gx_finish (ctx m' j))"
proof -
  obtain m1 where m1: "ops_keep m m1" "ops_keep ((FinishRequest i m1)\<lparr>am_unfinished := am_unfinished m1 - 1\<rparr>) m'"
    using assms(1) by (auto simp: stopped_def)
  let ?f = "(FinishRequest i m1)\<lparr>am_unfinished := am_unfinished m1 - 1\<rparr>"
  have i1: "i < length (am_gen_ctx_list m1)" using assms(2) ops_keep_length [OF m1(1)] by simp
  have lf: "length (am_gen_ctx_list ?f) = length (am_gen_ctx_list m1) - 1" by (simp add: FinishRequest_simps)
  show "gx_progress ` set (am_gen_ctx_list m') \<subseteq> gx_progress ` set (am_gen_ctx_list m)"
  proof
    fix x assume "x \<in> gx_progress ` set (am_gen_ctx_list m')"
    then obtain j where j: "j < length (am_gen_ctx_list m')" "x = gx_progress (ctx m' j)" by (auto simp: in_set_conv_nth)
    have jf: "j < length (am_gen_ctx_list ?f)" using j(1) ops_keep_length [OF m1(2)] by simp
    have "x = gx_progress (ctx ?f j)" using gx_core_progress [OF ops_keep_ctx(2) [OF m1(2) jf]] j(2) by simp
    also have "\<dots> = gx_progress (ctx m1 (if j = i then length (am_gen_ctx_list m1) - 1 else j))"
      using jf i1 lf last_conv_nth [of "am_gen_ctx_list m1"] by (fastforce simp: FinishRequest_simps nth_remove_ctx gx_progress_def)
    finally have x: "x = gx_progress (ctx m1 (if j = i then length (am_gen_ctx_list m1) - 1 else j))" .
    have l: "(if j = i then length (am_gen_ctx_list m1) - 1 else j) < length (am_gen_ctx_list m)"
      using jf lf ops_keep_length [OF m1(1)] i1 by auto
    show "x \<in> gx_progress ` set (am_gen_ctx_list m)"
      using gx_core_progress [OF ops_keep_ctx(2) [OF m1(1) l]] x l by auto
  qed
  show "gx_request (ctx m' j) = gx_request (ctx m j) \<and> (gx_finish (ctx m j) \<longrightarrow> gx_finish (ctx m' j))" if "j < i"
  proof -
    have jm: "j < length (am_gen_ctx_list m)" and jf: "j < length (am_gen_ctx_list ?f)"
      using that assms(2) i1 lf by simp_all
    have "ctx ?f j = ctx m1 j" using that i1 by (simp add: FinishRequest_simps nth_remove_ctx)
    then show ?thesis
      using ops_keep_ctx(3) [OF m1(1) jm] ops_keep_ctx(3) [OF m1(2) jf]
        gx_core_fields [OF ops_keep_ctx(2) [OF m1(1) jm]] gx_core_fields [OF ops_keep_ctx(2) [OF m1(2) jf]] by simp
  qed
qed

lemma stopped_settled:
  assumes "stopped i m m'" "model_inv m" "ids_distinct m" "i < length (am_gen_ctx_list m)"
  shows "settled m m'"
proof -
  note f = stopped_facts [OF assms(1,2,4)]
  have "ids_distinct m'" by (rule ids_distinct_sub [OF assms(3) f(2) _ assms(2) f(1)]) (use f(3,9) in auto)
  moreover have "gx_request (ctx m i) \<in> set (running m)" using assms(4) by (simp add: running_def)
  moreover have "\<forall>r < length (am_requests m). r \<notin> set (running m) - set (running m') \<longrightarrow> rq_core (req m' r) = rq_core (req m r)"
    using f(3,8) calculation(2) by auto
  ultimately show ?thesis
    using f stopped_progress(1) [OF assms(1,4)] unfolding settled_def by auto
qed

text \<open>With distinct ids the context that is found is the one whose id was asked for.\<close>

lemma filter_upt_eq: "i < n \<Longrightarrow> filter (\<lambda>j. j = i) [0..<n] = [i]"
  by (induction n) (auto simp: less_Suc_eq filter_empty_conv)

lemma find_ctx_self:
  assumes "model_inv m" "ids_distinct m" "i < length (am_gen_ctx_list m)"
  shows "find_ctx (rq_id (req m (gx_request (ctx m i)))) m = Some i"
    "\<forall>r \<in> set (am_pending m). rq_id (req m r) \<noteq> rq_id (req m (gx_request (ctx m i)))"
proof -
  let ?id = "\<lambda>r. rq_id (req m r)"
  have d: "distinct (map ?id (running m))" and disj: "set (map ?id (am_pending m)) \<inter> set (map ?id (running m)) = {}"
    using assms(2) unfolding ids_distinct_def map_append distinct_append by simp_all
  have inj: "?id (gx_request (ctx m j)) = ?id (gx_request (ctx m i)) \<longleftrightarrow> j = i" if "j < length (am_gen_ctx_list m)" for j
    using nth_eq_iff_index_eq [OF d, of j i] that assms(3) by (simp add: running_def)
  have "filter (\<lambda>j. ?id (gx_request (ctx m j)) = ?id (gx_request (ctx m i))) [0..<length (am_gen_ctx_list m)]
    = filter (\<lambda>j. j = i) [0..<length (am_gen_ctx_list m)]" using inj by (intro filter_cong) auto
  also have "\<dots> = [i]" using filter_upt_eq [OF assms(3)] .
  finally show "find_ctx (?id (gx_request (ctx m i))) m = Some i" unfolding find_ctx_def by simp
  have "?id (gx_request (ctx m i)) \<in> set (map ?id (running m))" using assms(3) by (auto simp: running_def)
  with disj show "\<forall>r \<in> set (am_pending m). ?id r \<noteq> ?id (gx_request (ctx m i))" by auto
qed

text \<open>One turn of the loop that stops the finished contexts.\<close>

lemma StopRequest_self:
  assumes "model_inv m" "ids_distinct m" "i < length (am_gen_ctx_list m)"
    "StopRequest e c (rq_id (req m (gx_request (ctx m i)))) m = (res, m')"
  shows "settled m m'" "stopped i m m' \<or> ops_keep m m' \<and> res \<noteq> Inr ALLSPARK_SUCCESS"
  using StopRequest_result [OF find_ctx_self(2,1) [OF assms(1-3)] assms(4)]
    settled_keep [OF _ assms(1,2)] stopped_settled [OF _ assms(1-3)] by blast+

lemma stop_finished_settled:
  "model_inv m \<Longrightarrow> ids_distinct m \<Longrightarrow> settled m (snd (stop_finished e c n m))"
proof (induction n arbitrary: m)
  case 0
  then show ?case by (simp add: settled_refl)
next
  case (Suc n)
  show ?case
  proof (cases "n < length (am_gen_ctx_list m) \<and> gx_finish (ctx m n)")
    case True
    obtain res m1 where st: "StopRequest e c (rq_id (req m (gx_request (ctx m n)))) m = (res, m1)"
      by (cases "StopRequest e c (rq_id (req m (gx_request (ctx m n)))) m")
    have s1: "settled m m1" using StopRequest_self(1) [OF Suc.prems _ st] True by simp
    have "settled m1 (snd (stop_finished e c n m1))" by (rule Suc.IH [OF settledD(9,10) [OF s1]])
    from settled_trans [OF s1 this Suc.prems(1)] s1 True st show ?thesis
      by (cases res) (simp_all add: with_ctx_def thenOk_def)
  qed (use Suc in \<open>auto simp: with_ctx_def settled_refl\<close>)
qed

text \<open>When the loop succeeds, no context that had finished is left.\<close>

lemma stop_finished_removes:
  "stop_finished e c n m = (Inr ALLSPARK_SUCCESS, m') \<Longrightarrow> model_inv m \<Longrightarrow> ids_distinct m \<Longrightarrow> j < n \<Longrightarrow>
   j < length (am_gen_ctx_list m) \<Longrightarrow> gx_finish (ctx m j) \<Longrightarrow> gx_request (ctx m j) \<notin> set (running m')"
proof (induction n arbitrary: m)
  case (Suc n)
  have n: "n < length (am_gen_ctx_list m)" using Suc.prems(1) by (simp add: with_ctx_def split: if_splits)
  show ?case
  proof (cases "gx_finish (ctx m n)")
    case False
    with Suc.prems n have "stop_finished e c n m = (Inr ALLSPARK_SUCCESS, m')" "j \<noteq> n" by (auto simp: with_ctx_def)
    with Suc.IH [of m] Suc.prems show ?thesis by simp
  next
    case True
    from Suc.prems(1) True n obtain m1 where
      st: "StopRequest e c (rq_id (req m (gx_request (ctx m n)))) m = (Inr ALLSPARK_SUCCESS, m1)"
      and rest: "stop_finished e c n m1 = (Inr ALLSPARK_SUCCESS, m')"
      by (auto simp: with_ctx_def thenOk_def split: if_splits)
    have s: "stopped n m m1" using StopRequest_self(2) [OF Suc.prems(2,3) n st] by blast
    note f = stopped_facts [OF s Suc.prems(2) n] and d = settledD [OF StopRequest_self(1) [OF Suc.prems(2,3) n st]]
    have sub: "set (running m') \<subseteq> set (running m1)"
      using settledD(2) [OF stop_finished_settled [OF d(9,10)], of e c n] rest by simp
    show ?thesis
    proof (cases "j = n")
      case True
      with sub f(3) show ?thesis by auto
    next
      case False
      with Suc.prems(4) have j: "j < n" by simp
      note p = stopped_progress(2) [OF s n j]
      have "j < length (am_gen_ctx_list m1)" using f(4) n j by simp
      from Suc.IH [OF rest d(9,10) j this] p Suc.prems(6) show ?thesis by simp
    qed
  qed
qed simp

end
