(* ===== verification/Model_Theorems.thy ===== *)
theory Model_Theorems
  imports Model_Progress
begin

text \<open>
  Properties of the scheduler of \<open>AsModel\<close>: the invariant and the bound on the batch hold in every
  reachable state, decoding ends for every request, no running request is lost, and what stopping a
  request does. The witnesses run a small model on the CPU.
\<close>

section \<open>Statuses of the operators\<close>

text \<open>A kernel reports success or an error, never one of the two statuses by which the scheduler tells
  its caller that it streams or that there was nothing to do.\<close>

definition scheduling :: "as_status \<Rightarrow> bool" where
  "scheduling st \<longleftrightarrow> st = ALLSPARK_STREAMING \<or> st = ALLSPARK_EMPTY_REQUEST"

definition plain_kernels :: "('d, 'm, 'x) model_env \<Rightarrow> bool" where
  "plain_kernels e \<longleftrightarrow> (\<forall>op ph m st x. en_kernel e op ph m = (Inr st, x) \<longrightarrow> \<not> scheduling st)"

definition plain :: "(as_status, 's) outcome \<Rightarrow> bool" where
  "plain a \<longleftrightarrow> (\<forall>st. fst a = Inr st \<longrightarrow> \<not> scheduling st)"

lemma plain_ret [simp]: "plain (ret st s) \<longleftrightarrow> \<not> scheduling st" by (simp add: plain_def)

lemma plain_Inl [simp]: "plain (Inl ex, s)" by (simp add: plain_def)

lemma scheduling_simps [simp]:
  "\<not> scheduling ALLSPARK_SUCCESS" "\<not> scheduling ALLSPARK_RUNTIME_ERROR" "\<not> scheduling ALLSPARK_PARAM_ERROR"
  by (simp_all add: scheduling_def)

lemma plain_andThen: "(\<And>x s. plain (k x s)) \<Longrightarrow> plain (andThen a k)"
  by (cases a; cases "fst a") (auto simp: plain_def)

lemma plain_thenOk: "plain a \<Longrightarrow> (\<And>s. plain (k s)) \<Longrightarrow> plain (thenOk a k)"
  by (cases a; cases "fst a") (auto simp: plain_def thenOk_def)

lemma plain_checkStatus: "plain a \<Longrightarrow> (\<And>s. plain (k s)) \<Longrightarrow> plain (checkStatus a k)"
  by (cases a; cases "fst a") (auto simp: plain_def checkStatus_def)

lemma plain_with_ctx: "(\<And>g. plain (k g m)) \<Longrightarrow> plain (with_ctx i k m)"
  by (simp add: with_ctx_def)

lemma plain_kernel: "plain_kernels e \<Longrightarrow> plain (kernel e op ph m)"
  by (cases "en_kernel e op ph m"; cases "fst (en_kernel e op ph m)") (fastforce simp: plain_def kernel_def plain_kernels_def)+

lemmas plain_intros = plain_andThen plain_thenOk plain_checkStatus plain_with_ctx plain_kernel

lemma plain_for_ctxs: "(\<And>i m. plain (f i m)) \<Longrightarrow> plain (for_ctxs f is m)"
  by (induction "is" arbitrary: m) (auto intro: plain_thenOk)

lemma plain_CallReshape: "plain_kernels e \<Longrightarrow> plain (CallReshape e op m)"
  by (cases op) (auto simp: CallReshape_def EmbeddingT5Op_Reshape_def SpanAttnOp_Reshape_def intro!: plain_intros)

lemma plain_span_attn_grow: "plain (span_attn_grow e layer i m)"
  unfolding span_attn_grow_def by (intro plain_with_ctx) (auto intro!: plain_intros split: option.split prod.split)

lemma plain_CallAlloc: "plain_kernels e \<Longrightarrow> plain (CallAlloc e c op m)"
  by (cases op) (auto simp: CallAlloc_def SpanAttnOp_Alloc_def intro!: plain_intros plain_for_ctxs plain_span_attn_grow)

lemma plain_CallForward: "plain_kernels e \<Longrightarrow> plain (CallForward e c op m)"
  by (cases op) (auto simp: CallForward_def PreProcessIdOp_Forward_def GenerateOp_Forward_def fill_generated_ids_def
    extend_ctx_def UpdateIdOp_Forward_def update_ctx_def Let_def intro!: plain_intros plain_for_ctxs)

lemma plain_run_graph: "(\<And>op m. plain (f op m)) \<Longrightarrow> plain (run_graph f ops m)"
proof (induction ops arbitrary: m)
  case (Cons op ops)
  show ?case
  proof (cases "f op m")
    case (Pair r m1)
    with Cons.prems [of op m] Cons show ?thesis by (cases r) (auto simp: plain_def ErrorProcess_def)
  qed
qed simp

lemma first_failure_plain: "(\<And>r. r \<in> set rs \<Longrightarrow> \<forall>st. r = Inr st \<longrightarrow> \<not> scheduling st) \<Longrightarrow>
  first_failure rs = Inr st \<Longrightarrow> \<not> scheduling st"
  by (induction rs rule: first_failure.induct) (auto split: if_splits)

lemma run_tasks_plain: "(\<And>op m. plain (f op m)) \<Longrightarrow> r \<in> set (fst (run_tasks f ops m)) \<Longrightarrow> r = Inr st \<Longrightarrow> \<not> scheduling st"
proof (induction ops arbitrary: m)
  case (Cons op ops)
  obtain r1 m1 where f: "f op m = (r1, m1)" by (cases "f op m")
  obtain rs m2 where t: "run_tasks f ops m1 = (rs, m2)" by (cases "run_tasks f ops m1")
  from Cons.prems(2) f t consider "r = r1" | "r \<in> set (fst (run_tasks f ops m1))" by auto
  then show ?case
  proof cases
    case 1
    with Cons.prems(1) [of op m] Cons.prems(3) f show ?thesis by (simp add: plain_def)
  qed (use Cons in blast)
qed simp

lemma plain_alloc_caches:
  assumes "plain_kernels e"
  shows "plain (alloc_caches e c m)"
proof (cases "mc_device c = CUDA")
  case True
  obtain rs m1 where t: "run_tasks (CallAlloc e c) (filter is_attention (mc_decoder c)) m = (rs, m1)"
    by (cases "run_tasks (CallAlloc e c) (filter is_attention (mc_decoder c)) m")
  have rs: "r \<in> set rs \<Longrightarrow> r = Inr st \<Longrightarrow> \<not> scheduling st" for r st
    using run_tasks_plain [of "CallAlloc e c" r "filter is_attention (mc_decoder c)" m st] plain_CallAlloc [OF assms] t by simp
  have "\<not> scheduling st" if "first_failure rs = Inr st" for st using first_failure_plain [OF _ that] rs by blast
  with True t show ?thesis
    by (cases "first_failure rs") (auto simp: alloc_caches_def Let_def ErrorProcess_def)
qed (auto simp: alloc_caches_def intro: plain_run_graph plain_CallAlloc assms)

lemma plain_decode_batch: "plain_kernels e \<Longrightarrow> plain (decode_batch e c m)"
  unfolding decode_batch_def reshape_forward_def
  by (intro plain_thenOk plain_run_graph plain_alloc_caches plain_CallForward plain_CallReshape; assumption)

lemma parse_loop_status: "parse_loop ee ids pos cnt acc = Inr (st, rs) \<Longrightarrow> \<not> scheduling st"
proof (induction "length ids - pos" arbitrary: pos cnt acc rule: less_induct)
  case less
  have IH: "\<not> scheduling st" if "parse_loop ee ids p cnt' acc' = Inr (st, rs)" "pos < p" "pos < length ids" for p cnt' acc'
    using less.hyps [OF _ that(1)] that(2,3) by simp
  from less.prems run_end_ge [of pos ids] show ?case
    by (subst (asm) parse_loop.simps) (auto simp: Let_def less_Suc_eq_le dest!: IH split: if_splits option.splits)
qed

lemma plain_CreateTensorForHash: "plain (CreateTensorForHash e r tm name m)"
proof -
  have p: "\<not> scheduling st" if "ParseExtraEmbedding ee ids = Inr (st, rs)" for ee ids st rs
    using that parse_loop_status by (auto simp: ParseExtraEmbedding_def split: if_splits)
  have q: "\<not> scheduling (fst (HashEmbedding ci ee rs))" for ci ee rs
    by (simp add: HashEmbedding_def split: option.split)
  have h: "\<not> scheduling st" if h: "hashed_ids ci ee toks = Inr (st, ids)" for ci ee toks st ids
  proof -
    obtain st0 rs where pe: "ParseExtraEmbedding ee toks = Inr (st0, rs)"
      using h by (cases "ParseExtraEmbedding ee toks") (auto simp: hashed_ids_def)
    show ?thesis using h p [OF pe] q [of ci ee rs] pe
      by (auto simp: hashed_ids_def split: if_splits prod.splits)
  qed
  have key: "plain (andThen (hashed_ids (en_city e) ee toks, s) k)"
    if "\<And>st ids s. \<not> scheduling st \<Longrightarrow> plain (k (st, ids) s)" for ee toks s and k :: "as_status \<times> 64 word list \<Rightarrow> _ \<Rightarrow> (as_status, _) outcome"
    using h that by (cases "hashed_ids (en_city e) ee toks") auto
  show ?thesis
    unfolding CreateTensorForHash_def Let_def liftE_def
    by (auto intro!: plain_andThen key)
qed

lemma plain_StopRequest:
  assumes "plain_kernels e"
  shows "plain (StopRequest e c k m)"
proof -
  have s: "plain (stop_release_caches e c i s)" for i s
    unfolding stop_release_caches_def stop_save_prefix_def Let_def
    by (auto intro!: plain_checkStatus plain_andThen plain_CreateTensorForHash split: option.split)
  have t: "plain (reshape_topo e c s)" for s
    unfolding reshape_topo_def by (intro plain_run_graph plain_CallReshape assms)
  show ?thesis
    unfolding StopRequest_def Let_def
    by (auto intro!: plain_checkStatus plain_thenOk s t split: prod.split option.split bool.split)
qed

lemma plain_stop_finished: "plain_kernels e \<Longrightarrow> plain (stop_finished e c n m)"
  by (induction n arbitrary: m) (auto intro!: plain_with_ctx plain_thenOk plain_StopRequest)

text \<open>So a decoding step that streams has gone through all its stages.\<close>

lemma GenerateContinueDecoder_streaming:
  assumes "GenerateContinueDecoder e c m = (Inr ALLSPARK_STREAMING, m')" "plain_kernels e"
  obtains m1 where "am_gen_ctx_list m \<noteq> []"
    "decode_batch e c (ResetCache ''rotary_inv_freq'' (ResetCache ''rotary_step''
       ((store_unfinished m)\<lparr>am_model_step := am_model_step m + 1\<rparr>))) = (Inr ALLSPARK_SUCCESS, m1)"
    "stop_all_finished e c m1 = (Inr ALLSPARK_SUCCESS, m')"
proof -
  let ?m = "ResetCache ''rotary_inv_freq'' (ResetCache ''rotary_step''
       ((store_unfinished m)\<lparr>am_model_step := am_model_step m + 1\<rparr>))"
  have ne: "am_gen_ctx_list m \<noteq> []"
    and eq: "thenOk (decode_batch e c ?m) (\<lambda>m. thenOk (stop_all_finished e c m) (\<lambda>m. ret ALLSPARK_STREAMING m))
      = (Inr ALLSPARK_STREAMING, m')"
    using assms(1) by (auto simp: GenerateContinueDecoder_def store_unfinished_def Let_def split: if_splits)
  obtain r1 m1 where d: "decode_batch e c ?m = (r1, m1)" by (cases "decode_batch e c ?m")
  have r1: "r1 = Inr ALLSPARK_SUCCESS"
    using eq d plain_decode_batch [OF assms(2), of c ?m]
    by (cases r1) (auto simp: thenOk_def plain_def scheduling_def split: if_splits)
  obtain r2 m2 where s: "stop_all_finished e c m1 = (r2, m2)" by (cases "stop_all_finished e c m1")
  have "r2 = Inr ALLSPARK_SUCCESS" "m2 = m'"
    using eq d s r1 plain_stop_finished [OF assms(2), of c "length (am_gen_ctx_list m1)" m1]
    by (cases r2; auto simp: thenOk_def plain_def scheduling_def stop_all_finished_def split: if_splits)+
  with that ne d r1 s show thesis by simp
qed

section \<open>A decoding step\<close>

lemma StopRequest_is_context: "am_is_context (snd (StopRequest e c k m)) = am_is_context m"
proof (cases "\<exists>r \<in> set (am_pending m). rq_id (req m r) = k")
  case True
  have "am_is_context (fold (\<lambda>r. upd_req r h) rs s) = am_is_context s" for h rs and s :: "('a, 'b, 'c) as_model"
    by (induction rs arbitrary: s) simp_all
  with True show ?thesis by (simp add: StopRequest_pending StopPendingRequest_def Let_def)
next
  case False
  then have none: "\<forall>r \<in> set (am_pending m). rq_id (req m r) \<noteq> k" by blast
  show ?thesis
  proof (cases "find_ctx k m")
    case (Some i)
    have "am_is_context (FinishRequest i s) = am_is_context s" for s :: "('a, 'b, 'c) as_model"
      by (simp add: FinishRequest_def Let_def)
    with StopRequest_result [OF none Some, of e c "fst (StopRequest e c k m)" "snd (StopRequest e c k m)"] show ?thesis
      by (auto simp: stopped_def ops_keep_def)
  qed (simp add: StopRequest_unknown none)
qed

lemma stop_finished_is_context: "am_is_context (snd (stop_finished e c n m)) = am_is_context m"
proof (induction n arbitrary: m)
  case (Suc n)
  have "am_is_context (snd (thenOk (StopRequest e c k m) (stop_finished e c n))) = am_is_context m" for k
    by (rule snd_thenOk [where J = "\<lambda>s. am_is_context s = am_is_context m"]) (simp_all add: StopRequest_is_context Suc)
  with Suc show ?case by (simp add: with_ctx_def)
qed simp

lemma decode_batch_steps:
  assumes "decode_batch e c m = (Inr ALLSPARK_SUCCESS, m')"
  shows "length (am_gen_ctx_list m') = length (am_gen_ctx_list m)" "am_is_context m' = am_is_context m"
    "i < length (am_gen_ctx_list m) \<Longrightarrow> gx_progress (ctx m' i) =
      (gx_request (ctx m i), gx_step (ctx m i) + 1, gx_in_length_bias (ctx m i), gx_gen_cfg (ctx m i))"
proof -
  obtain m1 where k: "ops_keep m m1" "ops_keep (step_all m1) m'" using decode_batch_result [OF assms] by blast
  show "length (am_gen_ctx_list m') = length (am_gen_ctx_list m)"
    using ops_keep_length [OF k(1)] ops_keep_length [OF k(2)] by (simp add: step_all_def)
  show "am_is_context m' = am_is_context m" using k by (simp add: ops_keep_def step_all_def)
  assume i: "i < length (am_gen_ctx_list m)"
  then have i1: "i < length (am_gen_ctx_list m1)" using ops_keep_length [OF k(1)] by simp
  then have i2: "i < length (am_gen_ctx_list (step_all m1))" by (simp add: step_all_def)
  from gx_core_fields [OF ops_keep_ctx(2) [OF k(1) i]] gx_core_fields [OF ops_keep_ctx(2) [OF k(2) i2]] i1
  show "gx_progress (ctx m' i) =
      (gx_request (ctx m i), gx_step (ctx m i) + 1, gx_in_length_bias (ctx m i), gx_gen_cfg (ctx m i))"
    by (simp add: gx_progress_def step_all_def)
qed

text \<open>The contexts after a step that streams: each is one of before, one token further and not at its limit.\<close>

definition advanced :: "gen_context \<Rightarrow> gen_context \<Rightarrow> bool" where
  "advanced g g' \<longleftrightarrow>
     gx_request g' = gx_request g \<and> gx_step g' = gx_step g + 1 \<and> gx_in_length_bias g' = gx_in_length_bias g \<and>
     gx_gen_cfg g' = gx_gen_cfg g \<and> gx_step g' + gx_in_length_bias g' < gc_max_length (gx_gen_cfg g') - 1"

definition updates_ids :: "model_cfg \<Rightarrow> bool" where
  "updates_ids c = list_ex (\<lambda>op. case op of UpdateIdOp name \<Rightarrow> name \<noteq> ''update_id_first'' | _ \<Rightarrow> False)
     (mc_gen_graph c @ mc_post_graph c)"

lemma updates_idsE:
  assumes "updates_ids c"
  obtains name where "UpdateIdOp name \<in> set (mc_gen_graph c) \<union> set (mc_post_graph c)" "name \<noteq> ''update_id_first''"
proof -
  obtain op where "op \<in> set (mc_gen_graph c) \<union> set (mc_post_graph c)"
    "case op of UpdateIdOp name \<Rightarrow> name \<noteq> ''update_id_first'' | _ \<Rightarrow> False"
    using assms by (auto simp: updates_ids_def list_ex_iff)
  with that show thesis by (cases op) auto
qed

text \<open>A state between two calls of the scheduler.\<close>

definition idle :: "('d, 'm, 'x) as_model \<Rightarrow> bool" where
  "idle m \<longleftrightarrow> model_inv m \<and> ids_distinct m \<and> \<not> am_is_context m"

definition retired :: "('d, 'm, 'x) as_model \<Rightarrow> req_ptr set \<Rightarrow> bool" where
  "retired m rs \<longleftrightarrow> (\<forall>r \<in> rs. rq_finish (req m r) \<and> rq_status (req m r) = GenerateFinished)"

lemma decode_start_facts:
  assumes "idle m" "s = ResetCache a (ResetCache b ((store_unfinished m)\<lparr>am_model_step := n\<rparr>))"
  shows "idle s" "am_gen_ctx_list s = am_gen_ctx_list m" "am_requests s = am_requests m" "am_pending s = am_pending m"
    "am_unfinished s = int (length (am_pending m)) + int (length (am_gen_ctx_list m))"
  using assms by (auto simp: idle_def model_inv_def ids_distinct_def running_def ResetCache_def store_unfinished_def GetGenCtxListSize_def)

lemma ids_distinct_ctx_keep: "ctx_keep m m' \<Longrightarrow> model_inv m \<Longrightarrow> ids_distinct m \<Longrightarrow> ids_distinct m'"
proof -
  assume k: "ctx_keep m m'" and inv: "model_inv m" "ids_distinct m"
  note f = ctx_keep_facts [OF k]
  have ids: "\<forall>r < length (am_requests m). rq_id (req m' r) = rq_id (req m r)" using f(5) rq_core_fields by blast
  have "set (running m') \<subseteq> set (running m)" using f(2) by simp
  from ids_distinct_sub [OF inv(2) f(1) this inv(1) model_inv_keep [OF k inv(1)] ids] show "ids_distinct m'" .
qed

lemma decoder_step_facts:
  assumes "GenerateContinueDecoder e c m = (Inr ALLSPARK_STREAMING, m')" "plain_kernels e" "updates_ids c" "idle m"
  shows "idle m'" "am_pending m' = am_pending m" "set (running m') \<subseteq> set (running m)"
    "retired m' (set (running m) - set (running m'))"
    "g' \<in> set (am_gen_ctx_list m') \<Longrightarrow> \<exists>g \<in> set (am_gen_ctx_list m). advanced g g'"
    "am_unfinished m' = int (length (am_pending m')) + GetGenCtxListSize m'"
    "length (am_requests m') = length (am_requests m)"
    "r < length (am_requests m) \<Longrightarrow> r \<notin> set (running m) \<or> r \<in> set (running m') \<Longrightarrow> rq_core (req m' r) = rq_core (req m r)"
proof -
  let ?s = "ResetCache ''rotary_inv_freq'' (ResetCache ''rotary_step''
       ((store_unfinished m)\<lparr>am_model_step := am_model_step m + 1\<rparr>))"
  obtain m1 where d: "decode_batch e c ?s = (Inr ALLSPARK_SUCCESS, m1)"
    and st: "stop_all_finished e c m1 = (Inr ALLSPARK_SUCCESS, m')"
    using GenerateContinueDecoder_streaming [OF assms(1,2)] by metis
  note s = decode_start_facts [OF assms(4) refl, of "''rotary_inv_freq''" "''rotary_step''" "am_model_step m + 1"]
  have k: "ctx_keep ?s m1" using decode_batch_ctx_keep [of ?s e c] d by simp
  note kf = ctx_keep_facts [OF k] and ds = decode_batch_steps [OF d]
  have inv1: "model_inv m1" and ids1: "ids_distinct m1"
    using model_inv_keep [OF k] ids_distinct_ctx_keep [OF k] s(1) by (auto simp: idle_def)
  have set: "settled m1 m'" using stop_finished_settled [OF inv1 ids1, of e c "length (am_gen_ctx_list m1)"] st
    by (simp add: stop_all_finished_def)
  note sd = settledD [OF set]
  have run: "running m1 = running m" using kf(2) s(2) by (simp add: running_def)
  show "am_pending m' = am_pending m" using sd(1) kf(1) s(4) by simp
  show "length (am_requests m') = length (am_requests m)" using sd(8) kf(3) s(3) by simp
  show "set (running m') \<subseteq> set (running m)" using sd(2) run by simp
  show "retired m' (set (running m) - set (running m'))" using sd(3) run unfolding retired_def by auto
  show "am_unfinished m' = int (length (am_pending m')) + GetGenCtxListSize m'"
    using sd(1,6) kf(1,4,7) s(2,4,5) by (simp add: GetGenCtxListSize_def)
  show "rq_core (req m' r) = rq_core (req m r)"
    if "r < length (am_requests m)" "r \<notin> set (running m) \<or> r \<in> set (running m')"
    using sd(4) [of r] kf(3) kf(5) [of r] s(3) run that by simp
  have "\<not> am_is_context m'"
    using stop_finished_is_context [of e c "length (am_gen_ctx_list m1)" m1] st ds(2) s(1) by (simp add: stop_all_finished_def idle_def)
  with sd(9,10) show "idle m'" by (simp add: idle_def)
  show "\<exists>g \<in> set (am_gen_ctx_list m). advanced g g'" if g': "g' \<in> set (am_gen_ctx_list m')"
  proof -
    have "gx_progress g' \<in> gx_progress ` set (am_gen_ctx_list m1)" using sd(7) g' by blast
    then obtain i where i: "i < length (am_gen_ctx_list m1)" and p: "gx_progress g' = gx_progress (ctx m1 i)"
      by (auto simp: in_set_conv_nth)
    have im: "i < length (am_gen_ctx_list m)" using i ds(1) s(2) by simp
    obtain name where u: "UpdateIdOp name \<in> set (mc_gen_graph c) \<union> set (mc_post_graph c)" "name \<noteq> ''update_id_first''"
      using updates_idsE [OF assms(3)] by blast
    have r': "gx_request (ctx m1 i) \<in> set (running m')"
      using p g' unfolding gx_progress_def running_def prod.inject by (metis image_eqI set_map)
    have "\<not> gx_finish (ctx m1 i)"
      using stop_finished_removes [of e c _ m1 m' i] st inv1 ids1 i r' by (auto simp: stop_all_finished_def)
    then have "\<not> overdue (ctx m1 i)"
      using decode_batch_overdue [OF d u _ i] s(1) by (auto simp: idle_def)
    then have "advanced (ctx m i) g'"
      using p ds(3) [of i] im s(2) by (auto simp: advanced_def gx_progress_def overdue_def)
    then show ?thesis using im by auto
  qed
qed

section \<open>Series of decoding steps\<close>

text \<open>Steps that stream or find nothing to do, each with its own clock, kernels and samples.\<close>

fun decode_steps ::
  "model_cfg \<Rightarrow> ('d, 'm, 'x) model_env list \<Rightarrow> ('d, 'm, 'x) as_model \<Rightarrow> ('d, 'm, 'x) as_model option" where
  "decode_steps c [] m = Some m"
| "decode_steps c (e # es) m =
     (case GenerateContinue e c m of
        (Inr st, m1) \<Rightarrow> if scheduling st then decode_steps c es m1 else None
      | _ \<Rightarrow> None)"

lemma GenerateContinueDecoder_empty:
  assumes "GenerateContinueDecoder e c m = (Inr ALLSPARK_EMPTY_REQUEST, m')" "plain_kernels e"
  shows "am_gen_ctx_list m = [] \<and> m' = store_unfinished m"
proof (rule ccontr)
  assume n: "\<not> (am_gen_ctx_list m = [] \<and> m' = store_unfinished m)"
  let ?m = "ResetCache ''rotary_inv_freq'' (ResetCache ''rotary_step''
       ((store_unfinished m)\<lparr>am_model_step := am_model_step m + 1\<rparr>))"
  have "thenOk (decode_batch e c ?m) (\<lambda>m. thenOk (stop_all_finished e c m) (\<lambda>m. ret ALLSPARK_STREAMING m))
      = (Inr ALLSPARK_EMPTY_REQUEST, m')"
    using assms(1) n by (auto simp: GenerateContinueDecoder_def store_unfinished_def Let_def split: if_splits)
  then show False
    using plain_decode_batch [OF assms(2), of c ?m] plain_stop_finished [OF assms(2), of c]
    by (auto simp: thenOk_def plain_def scheduling_def stop_all_finished_def split: if_splits) (metis fst_conv)
qed

text \<open>What a series of steps has done to the batch.\<close>

definition advanced_by :: "int \<Rightarrow> gen_context \<Rightarrow> gen_context \<Rightarrow> bool" where
  "advanced_by n g g' \<longleftrightarrow>
     gx_request g' = gx_request g \<and> gx_step g' = gx_step g + n \<and> gx_in_length_bias g' = gx_in_length_bias g \<and>
     gx_gen_cfg g' = gx_gen_cfg g \<and> (0 < n \<longrightarrow> gx_step g' + gx_in_length_bias g' < gc_max_length (gx_gen_cfg g') - 1)"

definition progressed :: "int \<Rightarrow> ('d, 'm, 'x) as_model \<Rightarrow> ('d, 'm, 'x) as_model \<Rightarrow> bool" where
  "progressed n m m' \<longleftrightarrow>
     idle m' \<and> am_pending m' = am_pending m \<and> length (am_requests m') = length (am_requests m) \<and>
     set (running m') \<subseteq> set (running m) \<and> retired m' (set (running m) - set (running m')) \<and>
     (\<forall>g' \<in> set (am_gen_ctx_list m'). \<exists>g \<in> set (am_gen_ctx_list m). advanced_by n g g')"

lemma progressed_step:
  assumes "GenerateContinueDecoder e c m = (Inr ALLSPARK_STREAMING, m1)" "plain_kernels e" "updates_ids c" "idle m"
    "progressed n m1 m'" "0 \<le> n" "\<forall>r < length (am_requests m1). r \<notin> set (running m1) \<longrightarrow> rq_core (req m' r) = rq_core (req m1 r)"
  shows "progressed (n + 1) m m'"
proof -
  note f = decoder_step_facts [OF assms(1-4)]
  have sub: "set (running m') \<subseteq> set (running m)" using f(3) assms(5) by (auto simp: progressed_def)
  have "rq_finish (req m' r) \<and> rq_status (req m' r) = GenerateFinished"
    if r: "r \<in> set (running m)" "r \<notin> set (running m')" for r
  proof (cases "r \<in> set (running m1)")
    case True
    with r assms(5) show ?thesis by (simp add: progressed_def retired_def)
  next
    case False
    have "r < length (am_requests m1)" using r(1) assms(4) f(7) by (auto simp: idle_def model_inv_def)
    then have "rq_core (req m' r) = rq_core (req m1 r)" using False assms(7) by blast
    note rq_core_fields [OF this]
    then show ?thesis using f(4) r False by (auto simp: retired_def)
  qed
  then have ret: "retired m' (set (running m) - set (running m'))" by (simp add: retired_def)
  have adv: "\<exists>g \<in> set (am_gen_ctx_list m). advanced_by (n + 1) g g'" if g': "g' \<in> set (am_gen_ctx_list m')" for g'
  proof -
    obtain g1 where g1: "g1 \<in> set (am_gen_ctx_list m1)" "advanced_by n g1 g'" using assms(5) g' by (auto simp: progressed_def)
    obtain g where g: "g \<in> set (am_gen_ctx_list m)" "advanced g g1" using f(5) [OF g1(1)] by blast
    have "advanced_by (n + 1) g g'"
      using g(2) g1(2) assms(6) by (cases "n = 0") (auto simp: advanced_by_def advanced_def)
    with g(1) show ?thesis by blast
  qed
  from assms(5) f(2,7) sub ret adv show ?thesis by (simp add: progressed_def)
qed

lemma decode_steps_progressed:
  "decode_steps c es m = Some m' \<Longrightarrow> \<forall>e \<in> set es. plain_kernels e \<Longrightarrow> updates_ids c \<Longrightarrow> idle m \<Longrightarrow>
   progressed (int (length es)) m m' \<and>
   (\<forall>r < length (am_requests m). r \<notin> set (running m) \<longrightarrow> rq_core (req m' r) = rq_core (req m r))"
proof (induction es arbitrary: m)
  case Nil
  then show ?case by (auto simp: progressed_def retired_def advanced_by_def)
next
  case (Cons e es)
  from Cons.prems(1) obtain st m1 where g: "GenerateContinueDecoder e c m = (Inr st, m1)" and sch: "scheduling st"
    and rest: "decode_steps c es m1 = Some m'"
    by (auto simp: GenerateContinue_def split: prod.splits sum.splits if_splits)
  have pk: "plain_kernels e" "\<forall>e \<in> set es. plain_kernels e" using Cons.prems(2) by simp_all
  show ?case
  proof (cases "st = ALLSPARK_STREAMING")
    case True
    note g' = g [unfolded True]
    note f = decoder_step_facts [OF g' pk(1) Cons.prems(3,4)]
    note IH = Cons.IH [OF rest pk(2) Cons.prems(3) f(1)]
    have "progressed (int (length es) + 1) m m'"
      using progressed_step [OF g' pk(1) Cons.prems(3,4)] IH by simp
    moreover have "rq_core (req m' r) = rq_core (req m r)" if "r < length (am_requests m)" "r \<notin> set (running m)" for r
      using IH f(3,7) f(8) [of r] that by auto
    ultimately show ?thesis by (simp add: add.commute)
  next
    case False
    with sch g have e: "am_gen_ctx_list m = []" "m1 = store_unfinished m"
      using GenerateContinueDecoder_empty [of e c m m1] pk(1) by (auto simp: scheduling_def)
    have s: "running (store_unfinished m) = running m" "am_pending (store_unfinished m) = am_pending m"
      "am_requests (store_unfinished m) = am_requests m" "am_gen_ctx_list (store_unfinished m) = am_gen_ctx_list m"
      by (simp_all add: store_unfinished_def running_def)
    have "idle m1" using Cons.prems(4) e
      by (simp add: idle_def model_inv_def ids_distinct_def s) (simp add: store_unfinished_def)
    from Cons.IH [OF rest pk(2) Cons.prems(3) this] e s show ?thesis
      by (auto simp: progressed_def running_def)
  qed
qed

section \<open>Reachable states\<close>

text \<open>The calls that the engine makes on a model, in any order, with any outcome and any environment.\<close>

inductive model_reach :: "model_cfg \<Rightarrow> ('d, 'm, 'x) as_model \<Rightarrow> bool" for c :: model_cfg where
  init: "am_pending m = [] \<Longrightarrow> am_gen_ctx_list m = [] \<Longrightarrow> model_reach c m"
| queue: "model_reach c m \<Longrightarrow> model_reach c (snd (StartRequestImpl_model e request_id ins mm ts outs gen_cfg m))"
| admit: "model_reach c m \<Longrightarrow> model_reach c (snd (GenerateContinueContext e c is_new_context m))"
| alloc: "model_reach c m \<Longrightarrow> model_reach c (snd (AllocDecoderMemory e c m))"
| decode: "model_reach c m \<Longrightarrow> model_reach c (snd (GenerateContinue e c m))"
| stop: "model_reach c m \<Longrightarrow> model_reach c (snd (StopRequest e c request_id m))"
| release: "model_reach c m \<Longrightarrow> model_reach c (snd (ReleaseRequest request_id m))"

lemma fits_queue: "fits n m \<Longrightarrow> fits n (snd (StartRequestImpl_model e request_id ins mm ts outs gen_cfg m))"
proof -
  assume m: "fits n m"
  have new: "fits n (m\<lparr>am_requests := am_requests m @ [q], am_pending := am_pending m @ [length (am_requests m)],
      am_request_map := rm\<rparr>)" for q rm
    using m by (auto simp: fits_def model_inv_def running_def intro: less_SucI)
  show ?thesis
  proof (cases "map_at ins ''input_ids''")
    case (Inr p)
    with m new show ?thesis
      by (cases "Shape_at (tt_shape (tensor m p)) 1") (simp_all add: StartRequestImpl_model_def liftE_def new_req_def)
  qed (use m in \<open>simp add: StartRequestImpl_model_def liftE_def\<close>)
qed

lemma model_reach_fits: "model_reach c m \<Longrightarrow> fits (nat (mc_max_batch c)) m"
proof (induction rule: model_reach.induct)
  case (init m)
  then show ?case by (simp add: fits_def model_inv_def running_def)
next
  case (queue m)
  from queue.IH show ?case by (rule fits_queue)
next
  case (admit m)
  from admit.IH show ?case by (rule GenerateContinueContext_fits) simp
next
  case (alloc m)
  then show ?case by (intro AllocDecoderMemory_fits)
next
  case (decode m)
  then show ?case unfolding GenerateContinue_def by (intro GenerateContinueDecoder_fits)
next
  case (stop m e k)
  then have "model_inv m" by (simp add: fits_def)
  from fits_shrinks [OF stop.IH StopRequest_shrinks [OF this]] show ?case .
next
  case (release m)
  then show ?case by (simp add: ReleaseRequest_def fits_def model_inv_def running_def)
qed

section \<open>A small model on the CPU\<close>

text \<open>One request with a prompt of two tokens that may grow to five.\<close>

definition demo_gen :: "int \<Rightarrow> gen_config" where
  "demo_gen n = \<lparr>gc_do_sample = True, gc_num_beams = 1, gc_early_stopping = False, gc_stop_words_ids = [], gc_eos_token_id = 0,
     gc_max_length = n, gc_lora_name = [], gc_input_len = 0\<rparr>"

definition demo_model :: "(nat, unit, unit) as_model" where
  "demo_model = \<lparr>am_tensors =
      [\<lparr>tt_name = ''input_ids'', tt_device = CPU, tt_shape = [1, 2], tt_buf = [Some 5, Some 6]\<rparr>,
       \<lparr>tt_name = ''generated_ids_global'', tt_device = CPU, tt_shape = [1, 0], tt_buf = replicate 8 None\<rparr>],
     am_requests = [], am_pending = [], am_request_map = [], am_gen_ctx_list = [], am_is_context = False,
     am_current_batch = 0, am_unfinished = 0, am_already_context_length = 0, am_cache_set = [], am_model_step = 0,
     am_loras = [], am_mask_shape = [], am_act_shape = (0, 0), am_attn_shape = (\<lambda>_. (0, 0)),
     am_pcm = demo_pcm [] [], am_x = ()\<rparr>"

definition demo_cfg :: model_cfg where
  "demo_cfg = \<lparr>mc_device = CPU, mc_max_length = 8, mc_max_batch = 2, mc_max_prefill_length = 8, mc_span_size = 0,
     mc_cache_config = \<lparr>cfg_mode = AsCacheDefault, cfg_span_size = 0, cfg_span_num_init = 0, cfg_span_num_grow = 0\<rparr>,
     mc_layers = 1, mc_heads = 1, mc_size_per_head = 1, mc_rank = 0, mc_frame_manager = False, mc_prefix_cache = False,
     mc_pre_graph = [PreProcessIdOp], mc_decoder = [EmbeddingT5Op], mc_gen_graph = [GenerateOp, UpdateIdOp ''update_id''],
     mc_post_graph = [], mc_topo_ops = [EmbeddingT5Op]\<rparr>"

definition demo_env :: "64 word \<Rightarrow> (nat, unit, unit) model_env" where
  "demo_env v = \<lparr>en_enqueue = (\<lambda>_ _. True), en_city = (\<lambda>_. 0), en_now = 0,
     en_kernel = (\<lambda>op ph m. ret ALLSPARK_SUCCESS (am_x m)), en_sample = (\<lambda>m. replicate (length (running_batch m)) v)\<rparr>"

definition demo_tensor :: "64 word list \<Rightarrow> string \<Rightarrow> tok_tensor" where
  "demo_tensor toks name = \<lparr>tt_name = name, tt_device = CPU, tt_shape = [1, int (length toks)],
     tt_buf = map Some toks @ replicate (8 - length toks) None\<rparr>"

definition demo_ctx :: "int \<Rightarrow> gen_context" where
  "demo_ctx n = \<lparr>gx_step = n, gx_in_length_bias = 0, gx_max_length = 8, gx_num_beams = 1,
     gx_batch_size = 1, gx_only_decoder = True, gx_finish = False, gx_current_batch = 0,
     gx_generate_method = 0, gx_gen_over = False, gx_input_len = 2, gx_real_input_len = 2,
     gx_prefix_len = 0, gx_gen_cfg = (demo_gen 5)\<lparr>gc_input_len := 2\<rparr>, gx_request = 0,
     gx_engine_max_length = 8, gx_virtual_k_cache = None, gx_virtual_v_cache = None, gx_prefix_cache_node_list = []\<rparr>"

definition demo_request :: request where
  "demo_request = (Request_new 0 ''a'' [(''input_ids'', 0)] [(''generated_ids_global'', 1)] (demo_gen 5)
      [(''new_input_ids'', 0), (''generated_ids'', 2)])\<lparr>rq_input_len := 2, rq_origin_len := 2, rq_status := ContextFinished\<rparr>"

definition demo_at :: "64 word list \<Rightarrow> int \<Rightarrow> (nat, unit, unit) as_model" where
  "demo_at toks k = demo_model\<lparr>
     am_tensors := [tensor demo_model 0, demo_tensor toks ''generated_ids_global'', demo_tensor toks ''generated_ids''],
     am_requests := [demo_request], am_gen_ctx_list := [demo_ctx (int (length toks) - 1)], am_unfinished := 1,
     am_request_map := [(''a'', 0)], am_model_step := k, am_act_shape := (1, 1), am_mask_shape := [1, 2],
     am_cache_set := [(''rotary_step'', False), (''rotary_inv_freq'', False)]\<rparr>"

definition demo_queued :: "(nat, unit, unit) as_model" where
  "demo_queued = demo_model\<lparr>
     am_requests := [(Request_new 0 ''a'' [(''input_ids'', 0)] [(''generated_ids_global'', 1)] (demo_gen 5) [])
       \<lparr>rq_input_len := 2, rq_origin_len := 2\<rparr>],
     am_pending := [0], am_request_map := [(''a'', 0)]\<rparr>"

lemmas demo_defs = demo_at_def demo_request_def demo_ctx_def demo_tensor_def demo_model_def demo_cfg_def demo_env_def demo_gen_def
  Request_new_def

lemmas demo_run = GenerateContinueDecoder_def store_unfinished_def GetGenCtxListSize_def ResetCache_def decode_batch_def thenOk_def
  alloc_caches_def CallAlloc_def CallForward_def CallReshape_def EmbeddingT5Op_Reshape_def kernel_def step_all_def
  GenerateOp_Forward_def fill_generated_ids_def running_batch_def extend_ctx_def with_ctx_def extend_ids_def interim_at_def
  map_at_def liftE_def upd_tensor_def tt_SetShape_def shape_count_def generated_len_def write_ctx_def write_last_def Let_def
  UpdateIdOp_Forward_def update_ctx_def check_finish_def copy_generated_ids_def write_from_def stop_all_finished_def

lemma replicate_numeral: "replicate (numeral n) x = x # replicate (pred_numeral n) x"
  by (simp add: numeral_eq_Suc)

lemmas demo_stop = StopRequest_def StopPendingRequest_def find_ctx_def checkStatus_def stop_release_caches_def upd_req_def FinishRequest_def
  upd_ctx_def

lemma demo_step: "GenerateContinueDecoder (demo_env 8) demo_cfg (demo_at [5, 6, 7] 0) = (Inr ALLSPARK_STREAMING, demo_at [5, 6, 7, 8] 1)"
  by (simp add: demo_defs demo_run replicate_numeral)

lemma demo_last_step: "\<exists>m'. GenerateContinueDecoder (demo_env 9) demo_cfg (demo_at [5, 6, 7, 8] 1) = (Inr ALLSPARK_STREAMING, m')"
  by (simp add: demo_defs demo_run demo_stop replicate_numeral)

lemma demo_stop_running: "fst (StopRequest (demo_env 9) demo_cfg ''a'' (demo_at [5, 6, 7] 0)) = Inr ALLSPARK_SUCCESS"
  by (simp add: demo_defs demo_run demo_stop)

lemmas demo_start = GenerateContinueContext_def StartRequest_def buildGenContext_def PushBackGenCtx_def start_inputs_def
  interim_insert_def map_insert_def run_context_guarded_def runDecoderContext_def PreProcessIdOp_Forward_def work_tensor_def
  DeepCopyWhole_def sliced_def interim_new_def new_tensor_def insert_prefix_def reshape_topo_def tt_new_def Shape_at_def

lemma demo_queue: "StartRequestImpl_model (demo_env 0) ''a'' [(''input_ids'', 0)] [] 0 [(''generated_ids_global'', 1)] (demo_gen 5) demo_model
   = (Inr ALLSPARK_SUCCESS, demo_queued)"
  by (simp add: demo_queued_def StartRequestImpl_model_def demo_defs demo_run new_req_def Shape_at_def)

lemma demo_admit: "GenerateContinueContext (demo_env 7) demo_cfg True demo_queued = (Inr ALLSPARK_SUCCESS, demo_at [5, 6, 7] 0)"
  by (simp add: demo_queued_def demo_defs demo_run demo_stop demo_start replicate_numeral size_t_of_def)
lemma demo_plain: "plain_kernels (demo_env v)"
  by (simp add: plain_kernels_def demo_env_def)

lemma demo_reach: "model_reach demo_cfg demo_queued" "model_reach demo_cfg (demo_at [5, 6, 7] 0)"
proof -
  have "model_reach demo_cfg demo_model" by (rule model_reach.init) (simp_all add: demo_model_def)
  from model_reach.queue [OF this] show q: "model_reach demo_cfg demo_queued" by (metis demo_queue snd_conv)
  from model_reach.admit [OF q] show "model_reach demo_cfg (demo_at [5, 6, 7] 0)" by (metis demo_admit snd_conv)
qed

lemma demo_idle: "idle (demo_at [5, 6, 7] 0)"
proof -
  have "model_inv (demo_at [5, 6, 7] 0)" using model_reach_fits [OF demo_reach(2)] by (simp add: fits_def)
  then show ?thesis by (simp add: idle_def ids_distinct_def running_def demo_defs)
qed

lemma demo_updates: "updates_ids demo_cfg" by (simp add: updates_ids_def demo_cfg_def)

lemma stopped_running:
  assumes "stopped i m m'" "i < length (am_gen_ctx_list m)"
  shows "running m' = butlast ((running m)[i := last (running m)])"
proof -
  obtain m1 where m1: "ops_keep m m1" "ops_keep ((FinishRequest i m1)\<lparr>am_unfinished := am_unfinished m1 - 1\<rparr>) m'"
    using assms(1) by (auto simp: stopped_def)
  have r1: "running m1 = running m" by (rule ctx_keep_facts(2) [OF ops_keep_ctx_keep [OF m1(1)]])
  have ne: "am_gen_ctx_list m1 \<noteq> []" using assms(2) ops_keep_length [OF m1(1)] by auto
  have "running m' = map gx_request (remove_ctx i (am_gen_ctx_list m1))"
    using ctx_keep_facts(2) [OF ops_keep_ctx_keep [OF m1(2)]] by (simp add: running_def FinishRequest_simps)
  also have "\<dots> = butlast ((running m1)[i := last (running m1)])"
    using ne by (simp add: remove_ctx_def running_def map_butlast map_update last_map)
  finally show ?thesis using r1 by simp
qed

section \<open>Properties\<close>

text \<open>C4: in every state that the calls of the engine can reach, failed calls included, no request is
  pending or running twice, every context knows its place in the batch, and the batch is not larger than
  the configured maximum.\<close>

theorem reachable_batch_bounded:
  assumes "model_reach c m"
  shows "model_inv m \<and> GetGenCtxListSize m \<le> max 0 (mc_max_batch c)"
  using model_reach_fits [OF assms] by (auto simp: fits_def GetGenCtxListSize_def)

theorem reachable_batch_bounded_witness:
  "model_reach demo_cfg (demo_at [5, 6, 7] 0) \<and> model_inv (demo_at [5, 6, 7] 0) \<and> GetGenCtxListSize (demo_at [5, 6, 7] 0) \<le> 2"
  using reachable_batch_bounded [OF demo_reach(2)] demo_reach(2) by (simp add: demo_cfg_def)

text \<open>C6: a decoding step that streams moves every request that stays in the batch exactly one token
  forward, and none of them has reached its maximal length; a request that left the batch is finished; the
  queue is not touched, all other requests keep their data, the counter of unfinished requests is exact,
  and the state is fit for the next call.\<close>

theorem decoder_step_accounts:
  assumes "GenerateContinueDecoder e c m = (Inr ALLSPARK_STREAMING, m')" "plain_kernels e" "updates_ids c" "idle m"
  shows "(\<forall>g' \<in> set (am_gen_ctx_list m'). \<exists>g \<in> set (am_gen_ctx_list m). advanced g g') \<and>
    set (running m') \<subseteq> set (running m) \<and> retired m' (set (running m) - set (running m')) \<and>
    am_pending m' = am_pending m \<and> am_unfinished m' = int (length (am_pending m')) + GetGenCtxListSize m' \<and>
    (\<forall>r < length (am_requests m). r \<notin> set (running m) \<longrightarrow> rq_core (req m' r) = rq_core (req m r)) \<and> idle m'"
  using decoder_step_facts [OF assms] by blast

theorem decoder_step_accounts_witness:
  "\<exists>g \<in> set (am_gen_ctx_list (demo_at [5, 6, 7] 0)). advanced g (ctx (demo_at [5, 6, 7, 8] 1) 0)"
  using decoder_step_accounts [OF demo_step demo_plain demo_updates demo_idle] by (simp add: demo_at_def)

text \<open>C5: decoding ends. After as many steps as the running request with the most tokens left may still
  produce, none of them failing, the batch is empty and every request that was running is finished, whatever
  the kernels and the sampler deliver; the requests in the queue have not moved.\<close>

theorem decoding_terminates:
  assumes "decode_steps c es m = Some m'" "\<forall>e \<in> set es. plain_kernels e" "updates_ids c" "idle m" "es \<noteq> []"
    "\<forall>g \<in> set (am_gen_ctx_list m).
       gc_max_length (gx_gen_cfg g) - 1 - (gx_step g + gx_in_length_bias g) \<le> int (length es)"
  shows "am_gen_ctx_list m' = [] \<and> retired m' (set (running m)) \<and> am_pending m' = am_pending m"
proof -
  have p: "progressed (int (length es)) m m'" using decode_steps_progressed [OF assms(1-4)] by blast
  have "am_gen_ctx_list m' = []"
  proof (rule ccontr)
    assume "am_gen_ctx_list m' \<noteq> []"
    then obtain g' where "g' \<in> set (am_gen_ctx_list m')" by (cases "am_gen_ctx_list m'") auto
    then obtain g where "g \<in> set (am_gen_ctx_list m)" "advanced_by (int (length es)) g g'"
      using p by (auto simp: progressed_def)
    with assms(5,6) show False by (fastforce simp: advanced_by_def)
  qed
  with p show ?thesis by (simp add: progressed_def running_def)
qed

theorem decoding_terminates_witness:
  "\<exists>m'. decode_steps demo_cfg [demo_env 8, demo_env 9] (demo_at [5, 6, 7] 0) = Some m' \<and> am_gen_ctx_list m' = [] \<and> retired m' {0}"
proof -
  obtain m' where "GenerateContinueDecoder (demo_env 9) demo_cfg (demo_at [5, 6, 7, 8] 1) = (Inr ALLSPARK_STREAMING, m')"
    using demo_last_step by blast
  then have run: "decode_steps demo_cfg [demo_env 8, demo_env 9] (demo_at [5, 6, 7] 0) = Some m'"
    by (simp add: GenerateContinue_def demo_step scheduling_def)
  have "am_gen_ctx_list m' = [] \<and> retired m' (set (running (demo_at [5, 6, 7] 0))) \<and> am_pending m' = am_pending (demo_at [5, 6, 7] 0)"
    by (rule decoding_terminates [OF run _ demo_updates demo_idle]) (simp_all add: demo_plain, simp add: demo_defs)
  with run show ?thesis by (simp add: running_def demo_defs)
qed

text \<open>C18: stopping a running request that succeeds removes its context and no other: the last context
  takes its place, the request is marked as finished, the counter of unfinished requests goes down by one,
  and no other request changes.\<close>

theorem StopRequest_removes:
  assumes "model_inv m" "ids_distinct m" "i < length (am_gen_ctx_list m)" "r = gx_request (ctx m i)"
    "StopRequest e c (rq_id (req m r)) m = (Inr ALLSPARK_SUCCESS, m')"
  shows "running m' = butlast ((running m)[i := last (running m)]) \<and> am_pending m' = am_pending m \<and>
    retired m' {r} \<and> am_unfinished m' = am_unfinished m - 1 \<and>
    (\<forall>q < length (am_requests m). q \<noteq> r \<longrightarrow> rq_core (req m' q) = rq_core (req m q)) \<and> model_inv m' \<and> ids_distinct m'"
proof -
  note self = StopRequest_self [OF assms(1-3) assms(5) [unfolded assms(4)]]
  then have s: "stopped i m m'" by blast
  note f = stopped_facts [OF s assms(1,3)]
  have "running m' = butlast ((running m)[i := last (running m)])"
    by (rule stopped_running [OF s assms(3)])
  with f settledD(10) [OF self(1)] assms(4) show ?thesis by (auto simp: retired_def)
qed

theorem StopRequest_removes_witness:
  "\<exists>m'. StopRequest (demo_env 9) demo_cfg ''a'' (demo_at [5, 6, 7] 0) = (Inr ALLSPARK_SUCCESS, m') \<and> running m' = [] \<and> retired m' {0}"
proof -
  obtain m' where run: "StopRequest (demo_env 9) demo_cfg ''a'' (demo_at [5, 6, 7] 0) = (Inr ALLSPARK_SUCCESS, m')"
    using demo_stop_running by (cases "StopRequest (demo_env 9) demo_cfg ''a'' (demo_at [5, 6, 7] 0)") simp
  have i: "model_inv (demo_at [5, 6, 7] 0)" "ids_distinct (demo_at [5, 6, 7] 0)" using demo_idle by (simp_all add: idle_def)
  have at: "0 < length (am_gen_ctx_list (demo_at [5, 6, 7] 0))" "0 = gx_request (ctx (demo_at [5, 6, 7] 0) 0)"
    "rq_id (req (demo_at [5, 6, 7] 0) 0) = ''a''" "running (demo_at [5, 6, 7] 0) = [0]" by (simp_all add: running_def demo_defs)
  from StopRequest_removes [OF i at(1,2), of "demo_env 9" demo_cfg m'] run at show ?thesis by simp
qed

text \<open>A request that is stopped while it waits in the queue leaves the queue with the status of a
  finished request, but its \<open>finish\<close> flag stays as it was and the counter of unfinished requests is
  not lowered: who waits for the flag, as the result queue of the engine does, waits forever.\<close>

theorem StopRequest_pending_never_finishes:
  assumes "r \<in> set (am_pending m)" "model_inv m"
  shows "\<exists>m'. StopRequest e c (rq_id (req m r)) m = (Inr ALLSPARK_SUCCESS, m') \<and> r \<notin> set (am_pending m') \<and>
    rq_status (req m' r) = GenerateFinished \<and> rq_finish (req m' r) = rq_finish (req m r) \<and> am_unfinished m' = am_unfinished m \<and>
    am_gen_ctx_list m' = am_gen_ctx_list m"
proof -
  let ?k = "rq_id (req m r)"
  let ?m = "snd (StopPendingRequest ?k m)"
  have "distinct (filter (\<lambda>r. rq_id (req m r) = ?k) (am_pending m))" "r < length (am_requests m)"
    using assms by (auto simp: model_inv_def)
  then have "req ?m r = (req m r)\<lparr>rq_status := GenerateFinished\<rparr>"
    using fold_upd_req_nth [of "filter (\<lambda>r. rq_id (req m r) = ?k) (am_pending m)" r
        "m\<lparr>am_pending := filter (\<lambda>r. rq_id (req m r) \<noteq> ?k) (am_pending m)\<rparr>" "\<lambda>q. q\<lparr>rq_status := GenerateFinished\<rparr>"] assms(1)
    by (simp add: StopPendingRequest_def Let_def)
  then show ?thesis
    using StopRequest_pending [of m ?k e c] assms(1) by (intro exI [of _ ?m]) (auto simp: StopPendingRequest_simps)
qed

theorem StopRequest_pending_never_finishes_witness:
  "\<exists>m'. StopRequest (demo_env 9) demo_cfg ''a'' demo_queued = (Inr ALLSPARK_SUCCESS, m') \<and> am_pending m' = [] \<and>
     \<not> rq_finish (req m' 0) \<and> rq_status (req m' 0) = GenerateFinished"
proof -
  have i: "model_inv demo_queued" using model_reach_fits [OF demo_reach(1)] by (simp add: fits_def)
  have q: "0 \<in> set (am_pending demo_queued)" "am_pending demo_queued = [0]" "rq_id (req demo_queued 0) = ''a''"
    "\<not> rq_finish (req demo_queued 0)" by (simp_all add: demo_queued_def Request_new_def)
  obtain m' where m': "StopRequest (demo_env 9) demo_cfg ''a'' demo_queued = (Inr ALLSPARK_SUCCESS, m')" "0 \<notin> set (am_pending m')"
    "rq_status (req m' 0) = GenerateFinished" "rq_finish (req m' 0) = rq_finish (req demo_queued 0)"
    using StopRequest_pending_never_finishes [OF q(1) i, of "demo_env 9" demo_cfg] q(3) by auto
  have "set (am_pending m') \<subseteq> {0}"
    using StopRequest_shrinks [OF i, of "demo_env 9" demo_cfg "''a''"] m'(1) q(2) by (auto simp: shrinks_def)
  then have "am_pending m' = []" using m'(2) by (cases "am_pending m'") auto
  with m' q show ?thesis by simp
qed

end
