(* ===== verification/Model_Tokens.thy ===== *)
theory Model_Tokens
  imports Model_Theorems
begin

text \<open>
  What the generation operators do to the tokens of a request: the token that was sampled is appended
  behind the tokens that were there, for every context of the batch that runs and for nobody else.
\<close>

section \<open>Updates of several tensors\<close>

definition apply_at :: "nat \<times> ('a \<Rightarrow> 'a) \<Rightarrow> 'a list \<Rightarrow> 'a list" where
  "apply_at pf xs = xs[fst pf := snd pf (xs ! fst pf)]"

lemma length_apply_at [simp]: "length (apply_at pf xs) = length xs" by (simp add: apply_at_def)

lemma length_fold_apply_at [simp]: "length (fold apply_at pfs xs) = length xs"
  by (induction pfs arbitrary: xs) simp_all

lemma fold_apply_at_other: "p \<notin> fst ` set pfs \<Longrightarrow> fold apply_at pfs xs ! p = xs ! p"
  by (induction pfs arbitrary: xs) (auto simp: apply_at_def)

lemma fold_apply_at_nth:
  "distinct (map fst pfs) \<Longrightarrow> (p, f) \<in> set pfs \<Longrightarrow> p < length xs \<Longrightarrow> fold apply_at pfs xs ! p = f (xs ! p)"
proof (induction pfs arbitrary: xs)
  case (Cons pf pfs)
  show ?case
  proof (cases "pf = (p, f)")
    case True
    with Cons.prems have "p \<notin> fst ` set pfs" by simp
    with True Cons.prems(3) show ?thesis by (simp add: fold_apply_at_other) (simp add: apply_at_def)
  next
    case False
    with Cons.prems have in': "(p, f) \<in> set pfs" by simp
    then have "fst pf \<noteq> p" using Cons.prems(1) by (metis fst_conv image_eqI distinct.simps(2) list.simps(9) set_map)
    with Cons.IH [of "apply_at pf xs"] Cons.prems in' show ?thesis by (simp add: apply_at_def)
  qed
qed simp

section \<open>The tensors of the running batch\<close>

definition id_tensor :: "string \<Rightarrow> ('d, 'm, 'x) as_model \<Rightarrow> nat \<Rightarrow> tensor_ptr option" where
  "id_tensor name m i = map_of (rq_interim (req m (gx_request (ctx m i)))) name"

definition id_names :: "model_cfg \<Rightarrow> string list" where
  "id_names c = ''generated_ids'' # (if mc_device c = CUDA then [''generated_ids_gpu''] else [])"

definition id_tensors :: "model_cfg \<Rightarrow> ('d, 'm, 'x) as_model \<Rightarrow> nat \<Rightarrow> tensor_ptr list" where
  "id_tensors c m i = map (\<lambda>name. the (id_tensor name m i)) (id_names c)"

text \<open>The batch before its tokens are stored: every running context has its tensors, on CUDA one on the
  host and one on the device, no two of them the same. Each holds as many ids as the step and the bias of
  the context say, in the context phase those of the prompt, and has room for one more.\<close>

definition ids_ready :: "model_cfg \<Rightarrow> ('d, 'm, 'x) as_model \<Rightarrow> bool" where
  "ids_ready c m \<longleftrightarrow>
     (\<forall>i \<in> set (running_batch m). i < length (am_gen_ctx_list m) \<and> 1 \<le> generated_len (ctx m i) \<and>
        (\<forall>name \<in> set (id_names c). id_tensor name m i \<noteq> None) \<and>
        (\<forall>p \<in> set (id_tensors c m i). tt_shape (tensor m p) = [1, generated_len (ctx m i) - 1] \<and>
           generated_len (ctx m i) \<le> int (length (tt_buf (tensor m p))))) \<and>
     distinct (concat (map (id_tensors c m) (running_batch m))) \<and>
     (\<forall>p \<in> set (concat (map (id_tensors c m) (running_batch m))). p < length (am_tensors m))"

abbreviation at_tensors :: "('d, 'm, 'x) as_model \<Rightarrow> tok_tensor list \<Rightarrow> ('d, 'm, 'x) as_model" where
  "at_tensors m ts \<equiv> m\<lparr>am_tensors := ts\<rparr>"

lemma id_tensor_at [simp]: "id_tensor name (at_tensors m ts) i = id_tensor name m i"
  by (simp add: id_tensor_def)

definition grow_ids :: "model_cfg \<Rightarrow> ('d, 'm, 'x) as_model \<Rightarrow> nat \<Rightarrow> (tensor_ptr \<times> (tok_tensor \<Rightarrow> tok_tensor)) list" where
  "grow_ids c m i = map (\<lambda>p. (p, tt_SetShape [1, generated_len (ctx m i)])) (id_tensors c m i)"

definition put_token :: "int \<Rightarrow> 64 word \<Rightarrow> tok_tensor \<Rightarrow> tok_tensor" where
  "put_token n v t = t\<lparr>tt_buf := (tt_buf t)[nat (n - 1) := Some v]\<rparr>"

definition put_ids ::
  "model_cfg \<Rightarrow> ('d, 'm, 'x) as_model \<Rightarrow> nat \<times> 64 word \<Rightarrow> (tensor_ptr \<times> (tok_tensor \<Rightarrow> tok_tensor)) list" where
  "put_ids c m iv = rev (map (\<lambda>p. (p, put_token (generated_len (ctx m (fst iv))) (snd iv))) (id_tensors c m (fst iv)))"

lemma extend_ids_eq:
  "id_tensor name m i = Some p \<Longrightarrow>
   extend_ids (gx_request (ctx m i)) name n (at_tensors m ts) = ret () (at_tensors m (apply_at (p, tt_SetShape [1, n]) ts))"
  by (simp add: extend_ids_def interim_at_def liftE_def map_at_def id_tensor_def upd_tensor_def apply_at_def)

lemma extend_ctx_eq:
  assumes "i < length (am_gen_ctx_list m)" "\<forall>name \<in> set (id_names c). id_tensor name m i \<noteq> None"
  shows "extend_ctx c i (at_tensors m ts) = ret ALLSPARK_SUCCESS (at_tensors m (fold apply_at (grow_ids c m i) ts))"
  using assms
  by (auto simp: extend_ctx_def with_ctx_def grow_ids_def id_tensors_def id_names_def extend_ids_eq split: if_splits)

lemma extend_all:
  "\<forall>i \<in> set is. i < length (am_gen_ctx_list m) \<and> (\<forall>name \<in> set (id_names c). id_tensor name m i \<noteq> None) \<Longrightarrow>
   for_ctxs (extend_ctx c) is (at_tensors m ts) =
     ret ALLSPARK_SUCCESS (at_tensors m (fold apply_at (concat (map (grow_ids c m) is)) ts))"
  by (induction "is" arbitrary: ts) (simp_all add: extend_ctx_eq thenOk_def)

lemma write_last_eq:
  assumes "id_tensor name m i = Some p" "1 \<le> n" "n \<le> int (length (tt_buf (ts ! p)))"
  shows "write_last (gx_request (ctx m i)) name n v (at_tensors m ts) = ret () (at_tensors m (apply_at (p, put_token n v) ts))"
  using assms
  by (auto simp: write_last_def interim_at_def liftE_def map_at_def id_tensor_def upd_tensor_def apply_at_def put_token_def Let_def)

lemma length_put_token [simp]: "length (tt_buf (put_token n v t)) = length (tt_buf t)"
  by (simp add: put_token_def)

lemma length_apply_put:
  "length (tt_buf (apply_at (p, put_token n v) ts ! q)) = length (tt_buf (ts ! q))"
  by (cases "p < length ts") (auto simp: apply_at_def nth_list_update list_update_beyond)

lemma length_fold_put_ids:
  "length (tt_buf (fold apply_at (put_ids c m iv) ts ! q)) = length (tt_buf (ts ! q))"
proof -
  have "length (tt_buf (fold apply_at (map (\<lambda>p. (p, put_token n v)) ps) ts ! q)) = length (tt_buf (ts ! q))" for ps n v
    by (induction ps arbitrary: ts) (simp_all add: length_apply_put)
  then show ?thesis by (simp add: put_ids_def rev_map)
qed

lemma write_ctx_eq:
  assumes "fst iv < length (am_gen_ctx_list m)" "\<forall>name \<in> set (id_names c). id_tensor name m (fst iv) \<noteq> None"
    "1 \<le> generated_len (ctx m (fst iv))"
    "\<forall>p \<in> set (id_tensors c m (fst iv)). generated_len (ctx m (fst iv)) \<le> int (length (tt_buf (ts ! p)))"
  shows "write_ctx c iv (at_tensors m ts) = ret () (at_tensors m (fold apply_at (put_ids c m iv) ts))"
  using assms
  by (auto simp: write_ctx_def with_ctx_def put_ids_def id_tensors_def id_names_def write_last_eq length_apply_put split: if_splits)

lemma write_all:
  "\<forall>(i, v) \<in> set ivs. i < length (am_gen_ctx_list m) \<and> (\<forall>name \<in> set (id_names c). id_tensor name m i \<noteq> None) \<and>
     1 \<le> generated_len (ctx m i) \<and> (\<forall>p \<in> set (id_tensors c m i). generated_len (ctx m i) \<le> int (length (tt_buf (ts ! p)))) \<Longrightarrow>
   forEach (write_ctx c) ivs (at_tensors m ts) = ret () (at_tensors m (fold apply_at (concat (map (put_ids c m) ivs)) ts))"
proof (induction ivs arbitrary: ts)
  case (Cons iv ivs)
  have w: "write_ctx c iv (at_tensors m ts) = ret () (at_tensors m (fold apply_at (put_ids c m iv) ts))"
    by (rule write_ctx_eq) (use Cons.prems in auto)
  have "forEach (write_ctx c) ivs (at_tensors m (fold apply_at (put_ids c m iv) ts)) =
    ret () (at_tensors m (fold apply_at (concat (map (put_ids c m) ivs)) (fold apply_at (put_ids c m iv) ts)))"
    by (rule Cons.IH) (use Cons.prems in \<open>simp add: length_fold_put_ids\<close>)
  with w show ?case by simp
qed simp

section \<open>The batch as a whole\<close>

lemma distinct_running_batch [simp]: "distinct (running_batch m)"
  by (simp add: running_batch_def)

lemma running_batch_at [simp]: "running_batch (at_tensors m ts) = running_batch m"
  by (simp add: running_batch_def)

lemma length_SetShape: "nat n \<le> length (tt_buf (tt_SetShape [1, n] t))"
  by (simp add: tt_SetShape_def shape_count_def)

lemma distinct_put_ids:
  "distinct (concat (map (id_tensors c m) (map fst ivs))) \<Longrightarrow> distinct (map fst (concat (map (put_ids c m) ivs)))"
proof -
  have "mset (map fst (concat (map (put_ids c m) ivs))) = mset (concat (map (id_tensors c m) (map fst ivs)))"
    by (induction ivs) (simp_all add: put_ids_def comp_def rev_map)
  then show "distinct (concat (map (id_tensors c m) (map fst ivs))) \<Longrightarrow> distinct (map fst (concat (map (put_ids c m) ivs)))"
    using mset_eq_imp_distinct_iff by blast
qed

lemma map_fst_grow_ids: "map fst (concat (map (grow_ids c m) is)) = concat (map (id_tensors c m) is)"
  by (induction "is") (simp_all add: grow_ids_def comp_def)

lemma fill_generated_ids_eq:
  assumes "ids_ready c m" "length (running_batch m) \<le> length toks" "mc_device c = CUDA \<or> mc_rank c = 0"
  defines "ts1 \<equiv> fold apply_at (concat (map (grow_ids c m) (running_batch m))) (am_tensors m)"
  shows "fill_generated_ids c toks m = ret ALLSPARK_SUCCESS
      (at_tensors m (fold apply_at (concat (map (put_ids c m) (zip (running_batch m) toks))) ts1))"
    "i \<in> set (running_batch m) \<Longrightarrow> q \<in> set (id_tensors c m i) \<Longrightarrow> ts1 ! q = tt_SetShape [1, generated_len (ctx m i)] (tensor m q)"
proof -
  let ?B = "running_batch m"
  have r: "i < length (am_gen_ctx_list m)" "1 \<le> generated_len (ctx m i)"
    "\<forall>name \<in> set (id_names c). id_tensor name m i \<noteq> None" if "i \<in> set ?B" for i
    using assms(1) that by (auto simp: ids_ready_def)
  have g: "ts1 ! q = tt_SetShape [1, generated_len (ctx m i)] (tensor m q)"
    if "i \<in> set ?B" "q \<in> set (id_tensors c m i)" for i q
    unfolding ts1_def
  proof (rule fold_apply_at_nth)
    show "distinct (map fst (concat (map (grow_ids c m) ?B)))"
      using assms(1) by (simp only: map_fst_grow_ids ids_ready_def)
    show "(q, tt_SetShape [1, generated_len (ctx m i)]) \<in> set (concat (map (grow_ids c m) ?B))"
      using that by (auto simp: grow_ids_def)
    show "q < length (am_tensors m)" using assms(1) that by (auto simp: ids_ready_def)
  qed
  then show "i \<in> set ?B \<Longrightarrow> q \<in> set (id_tensors c m i) \<Longrightarrow> ts1 ! q = tt_SetShape [1, generated_len (ctx m i)] (tensor m q)" .
  have e: "for_ctxs (extend_ctx c) ?B m = ret ALLSPARK_SUCCESS (at_tensors m ts1)"
    using extend_all [of ?B m c "am_tensors m"] r by (simp add: ts1_def)
  have "generated_len (ctx m i) \<le> int (length (tt_buf (ts1 ! q)))" if "i \<in> set ?B" "q \<in> set (id_tensors c m i)" for i q
    using g [OF that] length_SetShape [of "generated_len (ctx m i)" "tensor m q"] by simp
  then have "forEach (write_ctx c) (zip ?B toks) (at_tensors m ts1) =
      ret () (at_tensors m (fold apply_at (concat (map (put_ids c m) (zip ?B toks))) ts1))"
    using r by (intro write_all) (auto dest!: set_zip_leftD)
  with e assms(2,3) show "fill_generated_ids c toks m = ret ALLSPARK_SUCCESS
      (at_tensors m (fold apply_at (concat (map (put_ids c m) (zip ?B toks))) ts1))"
    by (auto simp: fill_generated_ids_def thenOk_def)
qed

lemma put_token_ids:
  assumes "1 \<le> n" "n \<le> int (length (tt_buf t))"
  shows "tt_ids (put_token n v (tt_SetShape [1, n] t)) = take (nat n - 1) (tt_buf t) @ [Some v]"
    "tt_shape (put_token n v (tt_SetShape [1, n] t)) = [1, n]"
proof -
  have n: "nat (n - 1) = nat n - 1" "nat n = Suc (nat n - 1)" "nat n - 1 < length (tt_buf t)" using assms by auto
  have "take (nat n) ((tt_buf t)[nat n - 1 := Some v]) = take (nat n - 1) (tt_buf t) @ [Some v]"
    by (subst n(2)) (use n(3) in \<open>simp add: take_Suc_conv_app_nth\<close>)
  with assms n show "tt_ids (put_token n v (tt_SetShape [1, n] t)) = take (nat n - 1) (tt_buf t) @ [Some v]"
    by (simp add: put_token_def tt_SetShape_def tt_ids_def shape_count_def nat_le_iff)
qed (simp add: put_token_def tt_SetShape_def)

text \<open>C17: after the sampled tokens have been stored, the ids of every context of the running batch are the
  ids before with its own sampled token behind them, in the copy on the host and, on CUDA, in the copy on the
  device; contexts, requests and every tensor that belongs to nobody in the batch are as they were, and the
  call succeeds. This holds in the context phase and in a decoding step for a batch whose ids are as long as
  the steps of the contexts say.\<close>

theorem fill_generated_ids_appends:
  assumes "ids_ready c m" "length (running_batch m) \<le> length toks" "mc_device c = CUDA \<or> mc_rank c = 0"
  shows "\<exists>ts. fill_generated_ids c toks m = ret ALLSPARK_SUCCESS (m\<lparr>am_tensors := ts\<rparr>) \<and>
    (\<forall>k < length (running_batch m). let i = running_batch m ! k in
       \<forall>p \<in> set (id_tensors c m i). tt_shape (ts ! p) = [1, generated_len (ctx m i)] \<and>
         tt_ids (ts ! p) = tt_ids (tensor m p) @ [Some (toks ! k)]) \<and>
    (\<forall>p. p \<notin> set (concat (map (id_tensors c m) (running_batch m))) \<longrightarrow> ts ! p = tensor m p)"
proof -
  let ?B = "running_batch m"
  let ?ts1 = "fold apply_at (concat (map (grow_ids c m) ?B)) (am_tensors m)"
  let ?ts = "fold apply_at (concat (map (put_ids c m) (zip ?B toks))) ?ts1"
  note eq = fill_generated_ids_eq [OF assms]
  have mf: "map fst (zip ?B toks) = ?B" using assms(2) by (simp add: map_fst_zip_take)
  have dist: "distinct (map fst (concat (map (put_ids c m) (zip ?B toks))))"
    by (rule distinct_put_ids) (use assms(1) mf in \<open>simp only: ids_ready_def\<close>)
  have "tt_shape (?ts ! p) = [1, generated_len (ctx m i)] \<and> tt_ids (?ts ! p) = tt_ids (tensor m p) @ [Some (toks ! k)]"
    if k: "k < length ?B" and i: "i = ?B ! k" and pi: "p \<in> set (id_tensors c m i)" for k i p
  proof -
    let ?n = "generated_len (ctx m i)"
    have iB: "i \<in> set ?B" using k i by simp
    have le: "1 \<le> ?n" "?n \<le> int (length (tt_buf (tensor m p)))" and pl: "p < length (am_tensors m)"
      and sh: "tt_shape (tensor m p) = [1, ?n - 1]"
      using assms(1) iB pi by (auto simp: ids_ready_def)
    have old: "tt_ids (tensor m p) = take (nat ?n - 1) (tt_buf (tensor m p))"
      using le by (simp add: tt_ids_def sh shape_count_def nat_diff_distrib)
    have "(i, toks ! k) \<in> set (zip ?B toks)" using k i assms(2) by (auto simp: in_set_zip intro: exI [of _ k])
    then have "(p, put_token ?n (toks ! k)) \<in> set (concat (map (put_ids c m) (zip ?B toks)))"
      using pi by (force simp: put_ids_def)
    from fold_apply_at_nth [OF dist this, of ?ts1] pl
    have "?ts ! p = put_token ?n (toks ! k) (?ts1 ! p)" by simp
    then show ?thesis using eq(2) [OF iB pi] put_token_ids [OF le] old by simp
  qed
  moreover have "?ts ! p = tensor m p" if "p \<notin> set (concat (map (id_tensors c m) ?B))" for p
  proof -
    have "p \<notin> fst ` set (concat (map (put_ids c m) (zip ?B toks)))" "p \<notin> fst ` set (concat (map (grow_ids c m) ?B))"
      using that by (auto simp: put_ids_def grow_ids_def dest: set_zip_leftD)
    then show ?thesis by (metis fold_apply_at_other)
  qed
  ultimately show ?thesis using eq(1) unfolding Let_def by blast
qed

theorem fill_generated_ids_appends_witness:
  "\<exists>ts. fill_generated_ids demo_cfg [9] (step_all (demo_at [5, 6, 7] 0)) =
       ret ALLSPARK_SUCCESS ((step_all (demo_at [5, 6, 7] 0))\<lparr>am_tensors := ts\<rparr>) \<and>
     tt_ids (ts ! 2) = [Some 5, Some 6, Some 7, Some 9]"
proof -
  let ?m = "step_all (demo_at [5, 6, 7] 0)"
  have b: "running_batch ?m = [0]" and p: "id_tensor ''generated_ids'' ?m 0 = Some 2" and n: "generated_len (ctx ?m 0) = 4"
    and buf: "tensor ?m 2 = demo_tensor [5, 6, 7] ''generated_ids''"
    and ids: "tt_ids (demo_tensor [5, 6, 7] ''generated_ids'') = [Some 5, Some 6, Some 7]"
    by (simp_all add: running_batch_def id_tensor_def generated_len_def step_all_def demo_defs tt_ids_def shape_count_def
        replicate_numeral)
  have names: "id_names demo_cfg = [''generated_ids'']" by (simp add: id_names_def demo_cfg_def)
  have t: "id_tensors demo_cfg ?m 0 = [2]" by (simp add: id_tensors_def names p)
  have len: "length (am_gen_ctx_list ?m) = 1" "length (am_tensors ?m) = 3"
    "tt_shape (demo_tensor [5, 6, 7] ''generated_ids'') = [1, 3]" "length (tt_buf (demo_tensor [5, 6, 7] ''generated_ids'')) = 8"
    by (simp_all add: step_all_def demo_defs)
  have "ids_ready demo_cfg ?m" by (simp add: ids_ready_def b p n buf t names len del: One_nat_def)
  moreover have "mc_device demo_cfg = CUDA \<or> mc_rank demo_cfg = 0" by (simp add: demo_cfg_def)
  ultimately obtain ts where "fill_generated_ids demo_cfg [9] ?m = ret ALLSPARK_SUCCESS (?m\<lparr>am_tensors := ts\<rparr>)"
    "tt_ids (ts ! 2) = tt_ids (tensor ?m 2) @ [Some 9]"
    using fill_generated_ids_appends [of demo_cfg ?m "[9]"] by (auto simp: b t Let_def)
  with buf ids show ?thesis by auto
qed

end
