(* ===== verification/Engine_Queue.thy ===== *)
theory Engine_Queue
  imports Model_State
begin

text \<open>
  The result queue of a request (\<open>common/result_queue.cpp\<close>, \<open>common/engine_runtime.h\<close>): the engine
  appends what was generated and sets the status, the user takes it. Both run at the same time, so a
  call that waits is modelled with the events of the other threads between its looks at the queue. The
  lock-free queue below it is a list; that its allocations fail is left out.
\<close>

section \<open>Generated elements\<close>

record gen_element =
  ge_ids :: "64 word list"
  ge_log_probs :: "(int \<times> rat) list list"
  ge_token_logprobs :: "rat list"
  ge_prefix_cache_len :: int
  ge_prefix_len_gpu :: int
  ge_prefix_len_cpu :: int

definition GeneratedElements_new :: gen_element where
  "GeneratedElements_new = \<lparr>ge_ids = [], ge_log_probs = [], ge_token_logprobs = [], ge_prefix_cache_len = 0,
     ge_prefix_len_gpu = 0, ge_prefix_len_cpu = 0\<rparr>"

text \<open>Only the first token of the other element is taken.\<close>

definition AppendNewSingleElementToEnd :: "gen_element \<Rightarrow> gen_element \<Rightarrow> exn + gen_element" where
  "AppendNewSingleElementToEnd rhs e =
     (case ge_ids rhs of
        [] \<Rightarrow> Inl UndefinedBehaviour
      | t # _ \<Rightarrow> Inr (e\<lparr>ge_ids := ge_ids e @ [t], ge_log_probs := ge_log_probs e @ take 1 (ge_log_probs rhs),
                       ge_token_logprobs := ge_token_logprobs e @ take 1 (ge_token_logprobs rhs),
                       ge_prefix_cache_len := ge_prefix_cache_len rhs, ge_prefix_len_gpu := ge_prefix_len_gpu rhs,
                       ge_prefix_len_cpu := ge_prefix_len_cpu rhs\<rparr>))"

fun append_all :: "gen_element list \<Rightarrow> gen_element \<Rightarrow> exn + gen_element" where
  "append_all [] acc = Inr acc"
| "append_all (e # es) acc = bindE (AppendNewSingleElementToEnd e acc) (append_all es)"

section \<open>The queue\<close>

record result_queue =
  rs_status :: gen_status
  rs_store :: "gen_element list"
  rs_generate_length :: nat
  rs_uuid :: string
  rs_closed :: bool
  rs_get_user :: int
  rs_stat :: "(string \<times> int) list"

definition stat_keys :: "string list" where
  "stat_keys = [''arrival_time'', ''first_token_time'', ''last_token_time'', ''time_to_first_token'', ''finished_time'',
     ''time_in_queue'', ''context_cached_length'', ''context_token_length'', ''generated_token_length'', ''context_tps'',
     ''generate_tps'']"

definition InitStatInfo :: "result_queue \<Rightarrow> result_queue" where
  "InitStatInfo q = q\<lparr>rs_stat := fold (\<lambda>k. AList.update k 0) stat_keys (rs_stat q)\<rparr>"

text \<open>The counter of tokens is not initialised: it starts with whatever was in its memory.\<close>

definition ResultQueueImpl_new :: "nat \<Rightarrow> string \<Rightarrow> result_queue" where
  "ResultQueueImpl_new garbage uuid = InitStatInfo
     \<lparr>rs_status = Init, rs_store = [], rs_generate_length = garbage, rs_uuid = uuid, rs_closed = False,
      rs_get_user = 0, rs_stat = []\<rparr>"

definition UpdateStatInfo :: "string \<Rightarrow> int \<Rightarrow> result_queue \<Rightarrow> result_queue" where
  "UpdateStatInfo key v q =
     (if map_of (rs_stat q) key = None then q else q\<lparr>rs_stat := AList.update key v (rs_stat q)\<rparr>)"

definition SetStatus :: "gen_status \<Rightarrow> result_queue \<Rightarrow> result_queue" where
  "SetStatus st q = q\<lparr>rs_status := st\<rparr>"

definition AppendGenerateElement :: "gen_element \<Rightarrow> result_queue \<Rightarrow> result_queue" where
  "AppendGenerateElement e q =
     q\<lparr>rs_generate_length := (rs_generate_length q + length (ge_ids e)) mod 2 ^ 64, rs_store := rs_store q @ [e]\<rparr>"

definition GeneratedLength :: "result_queue \<Rightarrow> nat" where
  "GeneratedLength q = rs_generate_length q"

text \<open>
  The statistics for the user. A missing key reads as 0. The rates are exact quotients; a rate over no
  time is a division by zero in \<open>float\<close>, whose conversion to \<open>long\<close> is undefined.
\<close>

definition stat_of :: "string \<Rightarrow> (string \<times> int) list \<Rightarrow> int" where
  "stat_of k m = (case map_of m k of Some v \<Rightarrow> v | None \<Rightarrow> 0)"

definition long_rate :: "int \<Rightarrow> int \<Rightarrow> exn + int" where
  "long_rate tokens ms = (if ms = 0 then Inl UndefinedBehaviour else Inr (c_div (tokens * 1000) ms))"

definition RequestStatInfo :: "result_queue \<Rightarrow> exn + (string \<times> int) list" where
  "RequestStatInfo q =
     (let m = rs_stat q; ttft_ms = stat_of ''time_to_first_token'' m;
          ctx_ms = max 0 (ttft_ms - stat_of ''time_in_queue'' m);
          gen_ms = stat_of ''finished_time'' m - ttft_ms
      in bindE (if ttft_ms > 0
                then bindE (long_rate (stat_of ''context_token_length'' m) ctx_ms) (\<lambda>v. Inr (AList.update ''context_tps'' v m))
                else Inr m) (\<lambda>m.
         if gen_ms > 0
         then bindE (long_rate (stat_of ''generated_token_length'' m) gen_ms) (\<lambda>v. Inr (AList.update ''generate_tps'' v m))
         else Inr m))"

section \<open>Taking elements\<close>

text \<open>What other threads do to the queue, and one look of a waiting call at it: what happened before
  the attempt to take an element, what happened after it, in a failed attempt before the status is read, the
  clock, and whether the check of the devices finds them idle.\<close>

datatype queue_event = EvAppend gen_element | EvStatus gen_status | EvClose

fun apply_event :: "queue_event \<Rightarrow> result_queue \<Rightarrow> result_queue" where
  "apply_event (EvAppend e) q = AppendGenerateElement e q"
| "apply_event (EvStatus st) q = SetStatus st q"
| "apply_event EvClose q = q\<lparr>rs_closed := True\<rparr>"

record look =
  lk_before :: "queue_event list"
  lk_after :: "queue_event list"
  lk_now :: int
  lk_hang :: bool

datatype get_result = Elements gen_element | NullPtr | Waiting gen_element

definition final_status :: "gen_status \<Rightarrow> bool" where
  "final_status st = (st = GenerateFinished \<or> st = GenerateInterrupted \<or> st = InternalError)"

definition drop_user :: "result_queue \<Rightarrow> result_queue" where
  "drop_user q = q\<lparr>rs_get_user := rs_get_user q - 1\<rparr>"

definition warn_timeout :: int where
  "warn_timeout = 10000"

text \<open>The loop of \<open>GetWithTimeout\<close>. It returns the result, the looks that were not made, and the queue;
  when the looks are used up it is still waiting.\<close>

fun get_loop ::
  "int \<Rightarrow> look list \<Rightarrow> int \<Rightarrow> gen_element \<Rightarrow> result_queue \<Rightarrow> exn + (get_result \<times> look list \<times> result_queue)"
where
  "get_loop timeout_ms [] start acc q = Inr (Waiting acc, [], q)"
| "get_loop timeout_ms (l # ls) start acc q =
     (let q = fold apply_event (lk_before l) q; others = fold apply_event (lk_after l) in
      if rs_closed q then Inr (Elements acc, ls, drop_user (others q))
      else if rs_store q \<noteq> [] then
        bindE (append_all (rs_store q) acc) (\<lambda>acc. get_loop timeout_ms ls start acc (others (q\<lparr>rs_store := []\<rparr>)))
      else
        let q = others q; waited = lk_now l - start in
        if final_status (rs_status q) then
          bindE (append_all (rs_store q) acc) (\<lambda>acc. Inr (Elements acc, ls, drop_user (q\<lparr>rs_store := []\<rparr>)))
        else if ge_ids acc \<noteq> [] then Inr (Elements acc, ls, drop_user q)
        else if 0 < timeout_ms \<and> timeout_ms \<le> waited then Inr (NullPtr, ls, drop_user q)
        else if warn_timeout \<le> waited then
          (if lk_hang l then Inl EnforceFailed
           else if rs_closed q then Inr (Elements acc, ls, drop_user q)
           else get_loop timeout_ms ls (lk_now l) acc q)
        else get_loop timeout_ms ls start acc q)"

definition GetWithTimeout ::
  "int \<Rightarrow> int \<Rightarrow> look list \<Rightarrow> result_queue \<Rightarrow> exn + (get_result \<times> look list \<times> result_queue)" where
  "GetWithTimeout timeout_ms now looks q =
     get_loop timeout_ms looks now GeneratedElements_new (q\<lparr>rs_get_user := rs_get_user q + 1\<rparr>)"

definition Get :: "int \<Rightarrow> look list \<Rightarrow> result_queue \<Rightarrow> exn + (get_result \<times> look list \<times> result_queue)" where
  "Get now looks q = GetWithTimeout (-1) now looks q"

text \<open>\<open>GetNoWait\<close> takes what is there.\<close>

definition GetNoWait :: "result_queue \<Rightarrow> exn + (gen_element \<times> result_queue)" where
  "GetNoWait q =
     (if rs_closed q then Inr (GeneratedElements_new, q)
      else bindE (append_all (rs_store q) GeneratedElements_new) (\<lambda>e. Inr (e, q\<lparr>rs_store := []\<rparr>)))"

section \<open>What a call delivers\<close>

definition heads :: "gen_element list \<Rightarrow> 64 word list" where
  "heads es = map (\<lambda>e. hd (ge_ids e)) es"

definition appended :: "look list \<Rightarrow> gen_element list" where
  "appended ls = concat (map (\<lambda>l. concat (map (\<lambda>ev. case ev of EvAppend e \<Rightarrow> [e] | _ \<Rightarrow> []) (lk_before l @ lk_after l))) ls)"

fun result_ids :: "get_result \<Rightarrow> 64 word list" where
  "result_ids (Elements e) = ge_ids e"
| "result_ids NullPtr = []"
| "result_ids (Waiting e) = ge_ids e"

lemma append_all_ids: "append_all es acc = Inr acc' \<Longrightarrow> ge_ids acc' = ge_ids acc @ heads es"
  by (induction es arbitrary: acc)
    (auto simp: AppendNewSingleElementToEnd_def heads_def split: list.splits)

definition events_appended :: "queue_event list \<Rightarrow> gen_element list" where
  "events_appended evs = concat (map (\<lambda>ev. case ev of EvAppend e \<Rightarrow> [e] | _ \<Rightarrow> []) evs)"

lemma fold_apply_event_store: "rs_store (fold apply_event evs q) = rs_store q @ events_appended evs"
  by (induction evs arbitrary: q)
    (auto simp: events_appended_def AppendGenerateElement_def SetStatus_def split: queue_event.split)

lemma appended_Cons: "appended (l # ls) = events_appended (lk_before l) @ events_appended (lk_after l) @ appended ls"
  by (simp add: appended_def events_appended_def)

lemma appended_Nil [simp]: "appended [] = []" by (simp add: appended_def)

lemma heads_append [simp]: "heads (xs @ ys) = heads xs @ heads ys" by (simp add: heads_def)

lemma heads_Nil [simp]: "heads [] = []" by (simp add: heads_def)

lemma drop_user_store [simp]: "rs_store (drop_user q) = rs_store q" by (simp add: drop_user_def)

text \<open>Nothing is lost, whatever the other threads do at the same time.\<close>

lemma get_loop_heads:
  "get_loop timeout_ms ls start acc q = Inr (res, rest, q') \<Longrightarrow>
   \<exists>used. ls = used @ rest \<and> result_ids res @ heads (rs_store q') = ge_ids acc @ heads (rs_store q) @ heads (appended used)"
proof (induction ls arbitrary: start acc q)
  case Nil
  then show ?case by auto
next
  case (Cons l ls)
  define q1 where "q1 = fold apply_event (lk_before l) q"
  define q2 where "q2 = fold apply_event (lk_after l) q1"
  have s1: "rs_store q1 = rs_store q @ events_appended (lk_before l)"
    and s2: "rs_store q2 = rs_store q1 @ events_appended (lk_after l)"
    by (simp_all add: q1_def q2_def fold_apply_event_store)
  have fin: ?case if "rest = ls" "result_ids res @ heads (rs_store q') = ge_ids acc @ heads (rs_store q2)"
    using that s1 s2 by (intro exI [of _ "[l]"]) (simp add: appended_Cons)
  have go: ?case if g: "get_loop timeout_ms ls st acc' q3 = Inr (res, rest, q')"
    and h: "ge_ids acc' @ heads (rs_store q3) = ge_ids acc @ heads (rs_store q2)" for st acc' q3
  proof -
    obtain used where u: "ls = used @ rest"
      "result_ids res @ heads (rs_store q') = ge_ids acc' @ heads (rs_store q3) @ heads (appended used)"
      using Cons.IH [OF g] by blast
    have "result_ids res @ heads (rs_store q') = (ge_ids acc' @ heads (rs_store q3)) @ heads (appended used)"
      using u(2) by simp
    also have "\<dots> = ge_ids acc @ heads (rs_store q) @ heads (appended (l # used))"
      unfolding h by (simp add: s1 s2 appended_Cons)
    finally show ?thesis using u(1) by (intro exI [of _ "l # used"] conjI) simp_all
  qed
  let ?rec = "\<lambda>st acc q. get_loop timeout_ms ls st acc q = Inr (res, rest, q')"
  have step: "(if rs_closed q1 then Inr (Elements acc, ls, drop_user q2)
      else if rs_store q1 \<noteq> [] then
        bindE (append_all (rs_store q1) acc)
          (\<lambda>acc. get_loop timeout_ms ls start acc (fold apply_event (lk_after l) (q1\<lparr>rs_store := []\<rparr>)))
      else if final_status (rs_status q2) then
        bindE (append_all (rs_store q2) acc) (\<lambda>acc. Inr (Elements acc, ls, drop_user (q2\<lparr>rs_store := []\<rparr>)))
      else if ge_ids acc \<noteq> [] then Inr (Elements acc, ls, drop_user q2)
      else if 0 < timeout_ms \<and> timeout_ms \<le> lk_now l - start then Inr (NullPtr, ls, drop_user q2)
      else if warn_timeout \<le> lk_now l - start then
        (if lk_hang l then Inl EnforceFailed
         else if rs_closed q2 then Inr (Elements acc, ls, drop_user q2)
         else get_loop timeout_ms ls (lk_now l) acc q2)
      else get_loop timeout_ms ls start acc q2) = Inr (res, rest, q')"
    using Cons.prems by (simp only: get_loop.simps Let_def q1_def [symmetric] q2_def [symmetric])
  show ?case
  proof (cases "rs_closed q1")
    case True
    with step show ?thesis by (intro fin) auto
  next
    case opened: False
    show ?thesis
    proof (cases "rs_store q1 = []")
      case False
      with step opened obtain acc' where "append_all (rs_store q1) acc = Inr acc'"
        "?rec start acc' (fold apply_event (lk_after l) (q1\<lparr>rs_store := []\<rparr>))" by auto
      from go [OF this(2)] append_all_ids [OF this(1)] s2 show ?thesis by (simp add: fold_apply_event_store)
    next
      case empty: True
      show ?thesis
      proof (cases "final_status (rs_status q2)")
        case True
        with step opened empty obtain acc' where "append_all (rs_store q2) acc = Inr acc'" "rest = ls" "res = Elements acc'"
          "q' = drop_user (q2\<lparr>rs_store := []\<rparr>)" by auto
        with append_all_ids [OF this(1)] show ?thesis by (intro fin) auto
      next
        case waiting: False
        show ?thesis
        proof (cases "ge_ids acc \<noteq> [] \<or> 0 < timeout_ms \<and> timeout_ms \<le> lk_now l - start \<or>
            (warn_timeout \<le> lk_now l - start \<and> (lk_hang l \<or> rs_closed q2))")
          case True
          with step opened empty waiting show ?thesis by (intro fin) (auto split: if_splits)
        next
          case False
          with step opened empty waiting have "\<exists>st. ?rec st acc q2" by (cases "warn_timeout \<le> lk_now l - start") auto
          then show ?thesis using go by blast
        qed
      qed
    qed
  qed
qed

section \<open>Properties\<close>

text \<open>C19: taking results loses nothing: whatever other threads append and set while a call waits,
  the tokens it returns followed by those that are still in the queue are the first tokens of the elements
  that were in the queue and of those that were appended meanwhile, in this order, and when the call times out it
  has taken none.\<close>

theorem GetWithTimeout_loses_nothing:
  assumes "GetWithTimeout timeout_ms now looks q = Inr (res, rest, q')"
  shows "\<exists>used. looks = used @ rest \<and>
    result_ids res @ heads (rs_store q') = heads (rs_store q) @ heads (appended used)"
  using get_loop_heads [OF assms [unfolded GetWithTimeout_def]] by (simp add: GeneratedElements_new_def)

definition demo_el :: "64 word list \<Rightarrow> gen_element" where
  "demo_el ts = GeneratedElements_new\<lparr>ge_ids := ts\<rparr>"

definition demo_looks :: "look list" where
  "demo_looks = [\<lparr>lk_before = [], lk_after = [EvAppend (demo_el [7])], lk_now = 20, lk_hang = False\<rparr>,
     \<lparr>lk_before = [EvAppend (demo_el [8, 9])], lk_after = [], lk_now = 40, lk_hang = False\<rparr>,
     \<lparr>lk_before = [], lk_after = [EvAppend (demo_el [3]), EvStatus GenerateFinished], lk_now = 60, lk_hang = False\<rparr>]"

lemma demo_looks_run:
  "\<exists>q'. GetWithTimeout 5000 0 demo_looks (AppendGenerateElement (demo_el [5]) (ResultQueueImpl_new 0 ''a'')) =
     Inr (Elements (demo_el [5, 7, 8, 3]), [], q')"
  by (simp add: demo_looks_def GetWithTimeout_def AppendGenerateElement_def ResultQueueImpl_new_def InitStatInfo_def demo_el_def
      GeneratedElements_new_def AppendNewSingleElementToEnd_def SetStatus_def final_status_def)

theorem GetWithTimeout_loses_nothing_witness:
  "\<exists>q' :: result_queue. [5, 7, 8, 3] @ heads (rs_store q') = [5 :: 64 word] @ heads (appended demo_looks)"
proof -
  obtain q' where run: "GetWithTimeout 5000 0 demo_looks (AppendGenerateElement (demo_el [5]) (ResultQueueImpl_new 0 ''a'')) =
     Inr (Elements (demo_el [5, 7, 8, 3]), [], q')" using demo_looks_run by blast
  have "[5, 7, 8, 3] @ heads (rs_store q') = [5 :: 64 word] @ heads (appended demo_looks)"
    using GetWithTimeout_loses_nothing [OF run]
    by (simp add: demo_el_def AppendGenerateElement_def ResultQueueImpl_new_def InitStatInfo_def heads_def)
  then show ?thesis ..
qed

text \<open>C40: a timeout of more than ten seconds never expires while the thread keeps polling: the warning after
  ten seconds restarts the clock that the timeout is measured with. For a queue that gets no element and no
  final status the call is still waiting after any number of looks, however much time has passed.\<close>

definition no_result :: "look \<Rightarrow> bool" where
  "no_result l \<longleftrightarrow> lk_before l = [] \<and> lk_after l = [] \<and> \<not> lk_hang l"

fun steady :: "int \<Rightarrow> int \<Rightarrow> look list \<Rightarrow> bool" where
  "steady gap now [] = True"
| "steady gap now (l # ls) = (now \<le> lk_now l \<and> lk_now l \<le> now + gap \<and> steady gap (lk_now l) ls)"

lemma get_loop_waits:
  assumes "rs_store q = []" "\<not> final_status (rs_status q)" "\<not> rs_closed q" "ge_ids acc = []" "warn_timeout + gap \<le> timeout_ms"
  shows "\<forall>l \<in> set ls. no_result l \<Longrightarrow> steady gap now ls \<Longrightarrow> now < start + warn_timeout \<Longrightarrow>
    get_loop timeout_ms ls start acc q = Inr (Waiting acc, [], q)"
proof (induction ls arbitrary: now start)
  case (Cons l ls)
  have n: "lk_before l = []" "lk_after l = []" "\<not> lk_hang l" using Cons.prems(1) by (simp_all add: no_result_def)
  have t: "lk_now l - start < timeout_ms" "steady gap (lk_now l) ls" using Cons.prems(2,3) assms(5) by auto
  show ?case
  proof (cases "warn_timeout \<le> lk_now l - start")
    case True
    with Cons.IH [of "lk_now l" "lk_now l"] Cons.prems n t assms show ?thesis by (simp add: warn_timeout_def)
  next
    case False
    with Cons.IH [of "lk_now l" start] Cons.prems n t assms show ?thesis by simp
  qed
qed simp

theorem GetWithTimeout_never_expires:
  assumes "rs_store q = []" "\<not> final_status (rs_status q)" "\<not> rs_closed q" "warn_timeout + gap \<le> timeout_ms"
    "\<forall>l \<in> set looks. no_result l" "steady gap now looks"
  shows "\<exists>acc q'. GetWithTimeout timeout_ms now looks q = Inr (Waiting acc, [], q')"
  using get_loop_waits [of "q\<lparr>rs_get_user := rs_get_user q + 1\<rparr>" GeneratedElements_new gap timeout_ms looks now now] assms
  by (auto simp: GetWithTimeout_def GeneratedElements_new_def warn_timeout_def)

definition demo_idle_looks :: "look list" where
  "demo_idle_looks = map (\<lambda>t. \<lparr>lk_before = [], lk_after = [], lk_now = t, lk_hang = False\<rparr>) [4000, 8000, 12000, 16000, 20000, 24000]"

theorem GetWithTimeout_never_expires_witness:
  "\<exists>acc q'. GetWithTimeout 15000 0 demo_idle_looks (ResultQueueImpl_new 0 ''a'') = Inr (Waiting acc, [], q')"
  by (rule GetWithTimeout_never_expires [of _ 4000])
    (simp_all add: ResultQueueImpl_new_def InitStatInfo_def final_status_def warn_timeout_def demo_idle_looks_def no_result_def)

end
