(* ===== verification/Engine_State.thy ===== *)
theory Engine_State
  imports Engine_Queue Model_Requests
begin

text \<open>
  The state of \<open>AsEngineImpl\<close> for one model (\<open>common/as_engine_impl.h\<close>, \<open>ModelControlState\<close> and
  \<open>RequestHandle\<close> of \<open>common/engine_runtime.h\<close>, \<open>common/engine_control_message.h\<close>) and the calls of
  the user (\<open>as_engine_request.cpp\<close>, \<open>as_engine_lora.cpp\<close>, \<open>as_engine_model_lifecycle.cpp\<close>,
  \<open>InputParamsVerify\<close> and \<open>RichInputVerify\<close> of \<open>as_engine.cpp\<close>). A call puts a message into the
  queue of the model and, except for the start of a request, waits for the reply of the engine's thread.
\<close>

section \<open>Control messages\<close>

datatype control_id =
    BuildModelMsg | StartModelMsg | StopModelMsg | ReleaseModelMsg | GracefulStopModelMsg
  | StartRequestMsg | SyncRequestMsg | StopRequestMsg | ReleaseRequestMsg | SyncAllRequestMsg | UnknownRequestMsg

text \<open>Floating point values: a number or \<open>NaN\<close>, with which every comparison is false. Rounding and
  infinities are left out.\<close>

type_synonym flt = "rat option"

definition flt_less :: "flt \<Rightarrow> flt \<Rightarrow> bool" where
  "flt_less a b = (case (a, b) of (Some x, Some y) \<Rightarrow> x < y | _ \<Rightarrow> False)"

text \<open>The configuration of a request as the user gives it: the part that the model keeps, and the
  parameters of sampling.\<close>

record generate_config = gen_config +
  gc_temperature :: flt
  gc_top_k :: int
  gc_top_p :: flt
  gc_repetition_penalty :: flt
  gc_presence_penalty :: flt
  gc_frequency_penalty :: flt
  gc_logprobs :: bool
  gc_top_logprobs :: int

record request_content =
  qc_inputs :: "(string \<times> tok_tensor) list"
  qc_config :: generate_config
  qc_mm :: tensor_list_map

record request_handle =
  rh_uuid :: string
  rh_generate_length :: nat
  rh_context_length :: nat
  rh_continue_count :: nat
  rh_create_ts :: int
  rh_inputs :: "(string \<times> tok_tensor) list"
  rh_mm_embedding :: tensor_list_map

type_synonym promise = nat

record control_message =
  cm_msg :: control_id
  cm_promise :: promise
  cm_uuid :: string
  cm_config :: "generate_config option"
  cm_handle :: "request_handle option"
  cm_queue :: "result_queue option"

definition control_uuid :: string where
  "control_uuid = ''Control-Unknown-UUID''"

section \<open>Engine\<close>

datatype eviction_strategy = MaxLength | Random
datatype scheduling_strategy = ContextPriority | Balance

record engine_cfg =
  ec_registered :: bool
  ec_is_generate :: bool
  ec_max_length :: int
  ec_max_batch :: int
  ec_cuda :: bool
  ec_eviction :: eviction_strategy
  ec_scheduling :: scheduling_strategy
  ec_model :: model_cfg

text \<open>
  The workers are the models of the ranks. The handle and the queue of a request are shared with the
  user and kept in the two maps; a promise is an index into \<open>eg_promises\<close> and holds the reply once it is
  given. \<open>eg_waiting\<close> is the promise for which a call holds \<open>lora_lock_\<close>. The last fields are the
  variables of the engine's thread. \<open>eg_loras_in_use\<close> is the entry of the model in the map of the same
  name, a multiset whose order does not matter.
\<close>

record ('d, 'm, 'x) engine =
  eg_workers :: "('d, 'm, 'x) as_model list"
  eg_msg_queue :: "control_message list"
  eg_handles :: "(string \<times> request_handle) list"
  eg_queues :: "(string \<times> result_queue) list"
  eg_model_stopping :: bool
  eg_model_stopped :: bool
  eg_promises :: "as_status option list"
  eg_waiting :: "promise option"
  eg_lora_use_count :: int
  eg_loras_in_use :: "string list option"
  eg_prefill_token :: int
  eg_generated_token :: int
  eg_looping :: bool
  eg_no_execution :: bool
  eg_asleep :: bool
  eg_graceful_stop :: bool
  eg_final_released :: bool
  eg_stop_promise :: "promise option"
  eg_synchronizing :: bool
  eg_deferred :: "promise option"
  eg_sync_pending :: "string list"

definition set_promise :: "promise \<Rightarrow> as_status \<Rightarrow> ('d, 'm, 'x) engine \<Rightarrow> ('d, 'm, 'x) engine" where
  "set_promise p st eg = eg\<lparr>eg_promises := (eg_promises eg)[p := Some st]\<rparr>"

definition new_promise :: "('d, 'm, 'x) engine \<Rightarrow> promise \<times> ('d, 'm, 'x) engine" where
  "new_promise eg = (length (eg_promises eg), eg\<lparr>eg_promises := eg_promises eg @ [None]\<rparr>)"

definition rank_cfg :: "engine_cfg \<Rightarrow> nat \<Rightarrow> model_cfg" where
  "rank_cfg c i = (ec_model c)\<lparr>mc_rank := int i\<rparr>"

text \<open>\<open>StartModel\<close>: a new control state and a new thread.\<close>

definition engine_start :: "('d, 'm, 'x) as_model list \<Rightarrow> string list option \<Rightarrow> int \<Rightarrow> ('d, 'm, 'x) engine" where
  "engine_start ms in_use use_count =
     \<lparr>eg_workers = ms, eg_msg_queue = [], eg_handles = [], eg_queues = [], eg_model_stopping = False,
      eg_model_stopped = False, eg_promises = [], eg_waiting = None, eg_lora_use_count = use_count, eg_loras_in_use = in_use,
      eg_prefill_token = 0, eg_generated_token = 0, eg_looping = True, eg_no_execution = False, eg_asleep = False, eg_graceful_stop = False,
      eg_final_released = False, eg_stop_promise = None, eg_synchronizing = False, eg_deferred = None, eg_sync_pending = []\<rparr>"

section \<open>Checks of a request\<close>

definition top_logprobs_limit :: int where
  "top_logprobs_limit = 10"

definition sampling_eps :: flt where
  "sampling_eps = Some (1 / 100000)"

text \<open>\<open>inputs["input_ids"]\<close> makes a null entry when there is none, which is then dereferenced.\<close>

definition input_ids :: "(string \<times> tok_tensor) list \<Rightarrow> exn + tok_tensor" where
  "input_ids ins = (case map_of ins ''input_ids'' of None \<Rightarrow> Inl UndefinedBehaviour | Some t \<Rightarrow> Inr t)"

definition dl_shape :: "tok_tensor \<Rightarrow> nat \<Rightarrow> exn + int" where
  "dl_shape t i = (if i < length (tt_shape t) then Inr (tt_shape t ! i) else Inl UndefinedBehaviour)"

definition greedy :: "generate_config \<Rightarrow> generate_config" where
  "greedy g = (if flt_less (gc_temperature g) sampling_eps
     then g\<lparr>gc_top_k := 1, gc_top_p := Some 0, gc_temperature := Some 1\<rparr> else g)"

definition limit_top_p :: "generate_config \<Rightarrow> generate_config" where
  "limit_top_p g = (if flt_less (map_option (\<lambda>x. \<bar>x - 1\<bar>) (gc_top_p g)) (Some (1 / 1000000))
     then g\<lparr>gc_top_p := Some (99 / 100)\<rparr> else g)"

definition outside :: "rat \<Rightarrow> rat \<Rightarrow> flt \<Rightarrow> bool" where
  "outside lo hi x = (flt_less x (Some lo) \<or> flt_less (Some hi) x)"

definition InputParamsVerify :: "engine_cfg \<Rightarrow> request_content \<Rightarrow> exn + (as_status \<times> generate_config)" where
  "InputParamsVerify c q =
     (let g = qc_config q; limit = ec_max_length c in
      if \<not> ec_registered c then Inr (ALLSPARK_PARAM_ERROR, g)
      else if \<not> ec_is_generate c then Inr (ALLSPARK_INVALID_CALL_ERROR, g)
      else if limit \<noteq> 0 \<and> gc_max_length g > limit then Inr (ALLSPARK_EXCEED_LIMIT_ERROR, g)
      else bindE (input_ids (qc_inputs q)) (\<lambda>t. bindE (dl_shape t 1) (\<lambda>input_length.
        if limit \<noteq> 0 \<and> input_length > limit - 2 then Inr (ALLSPARK_EXCEED_LIMIT_ERROR, g)
        else if input_length \<le> 0 then Inr (ALLSPARK_EXCEED_LIMIT_ERROR, g)
        else bindE (dl_shape t 0) (\<lambda>input_batch.
          if gc_top_k g < 0 then Inr (ALLSPARK_PARAM_ERROR, g)
          else if outside 0 1 (gc_top_p g) then Inr (ALLSPARK_PARAM_ERROR, g)
          else let g = limit_top_p (greedy g) in
          if ec_max_batch c \<noteq> 0 \<and> input_batch > ec_max_batch c then Inr (ALLSPARK_EXCEED_LIMIT_ERROR, g)
          else if gc_logprobs g \<and> gc_top_logprobs g > top_logprobs_limit then Inr (ALLSPARK_PARAM_ERROR, g)
          else if outside 0 2 (gc_repetition_penalty g) then Inr (ALLSPARK_PARAM_ERROR, g)
          else if outside (- 2) 2 (gc_presence_penalty g) then Inr (ALLSPARK_PARAM_ERROR, g)
          else if outside (- 2) 2 (gc_frequency_penalty g) then Inr (ALLSPARK_PARAM_ERROR, g)
          else Inr (ALLSPARK_SUCCESS, g)))))"

text \<open>The tokens are read as one row of \<open>shape[1]\<close> elements.\<close>

definition RichInputVerify :: "request_content \<Rightarrow> exn + as_status" where
  "RichInputVerify q =
     bindE (input_ids (qc_inputs q)) (\<lambda>t.
     if tt_device t \<noteq> CPU then Inr ALLSPARK_PARAM_ERROR
     else bindE (dl_shape t 1) (\<lambda>n.
       let row = take (nat n) (tt_buf t) in
       if length row < nat n \<or> None \<in> set row then Inl UndefinedBehaviour
       else bindE (ParseExtraEmbedding (qc_mm q) (map the row)) (\<lambda>(st, _). Inr st)))"

section \<open>The calls of the user\<close>

text \<open>\<open>lora_use_count_\<close> and \<open>loras_in_use_\<close>.\<close>

definition lora_acquire :: "string \<Rightarrow> ('d, 'm, 'x) engine \<Rightarrow> ('d, 'm, 'x) engine" where
  "lora_acquire name eg = eg\<lparr>eg_lora_use_count := eg_lora_use_count eg + 1,
     eg_loras_in_use := Some (name # (case eg_loras_in_use eg of None \<Rightarrow> [] | Some xs \<Rightarrow> xs))\<rparr>"

definition lora_release_found :: "string \<Rightarrow> ('d, 'm, 'x) engine \<Rightarrow> ('d, 'm, 'x) engine" where
  "lora_release_found name eg =
     (case eg_loras_in_use eg of
        None \<Rightarrow> eg
      | Some xs \<Rightarrow>
          if name \<in> set xs
          then eg\<lparr>eg_loras_in_use := Some (remove1 name xs), eg_lora_use_count := eg_lora_use_count eg - 1\<rparr>
          else eg)"

definition lora_in_use :: "string \<Rightarrow> ('d, 'm, 'x) engine \<Rightarrow> bool" where
  "lora_in_use name eg = (case eg_loras_in_use eg of None \<Rightarrow> False | Some xs \<Rightarrow> name \<in> set xs)"

text \<open>What a call observes: a status at once, or the promise whose reply it waits for.\<close>

datatype reply = Now as_status | Await promise

definition post :: "bool \<Rightarrow> control_message \<Rightarrow> ('d, 'm, 'x) engine \<Rightarrow> ('d, 'm, 'x) engine" where
  "post queued msg eg = (if queued then eg\<lparr>eg_msg_queue := eg_msg_queue eg @ [msg]\<rparr> else eg)"

text \<open>
  \<open>StartRequest\<close>. The parameter \<open>queued\<close> says whether the message could be put into the queue,
  \<open>new_uuid\<close> is the generated name, \<open>garbage\<close> the uninitialised counter of the new result queue.
\<close>

definition send_start ::
  "bool \<Rightarrow> int \<Rightarrow> nat \<Rightarrow> string \<Rightarrow> request_content \<Rightarrow> generate_config \<Rightarrow> ('d, 'm, 'x) engine \<Rightarrow>
   (as_status, ('d, 'm, 'x) engine) outcome"
where
  "send_start queued now garbage uuid q g eg =
     (let lora = gc_lora_name g; eg = (if lora \<noteq> [] then lora_acquire lora eg else eg) in
      andThen (bindE (input_ids (qc_inputs q)) (\<lambda>t. dl_shape t 1), eg) (\<lambda>n eg.
      let handle = \<lparr>rh_uuid = uuid, rh_generate_length = 0, rh_context_length = nat n, rh_continue_count = 0,
                    rh_create_ts = now, rh_inputs = qc_inputs q, rh_mm_embedding = qc_mm q\<rparr>
      in case new_promise eg of
           (p, eg) \<Rightarrow>
             if eg_model_stopping eg then ret ALLSPARK_REQUEST_DENIED eg
             else if queued then
               ret ALLSPARK_SUCCESS (post True \<lparr>cm_msg = StartRequestMsg, cm_promise = p, cm_uuid = uuid, cm_config = Some g,
                 cm_handle = Some handle, cm_queue = Some (ResultQueueImpl_new garbage uuid)\<rparr> eg)
             else ret ALLSPARK_RUNTIME_ERROR (if lora \<noteq> [] then lora_release_found lora eg else eg)))"

definition StartRequestApi ::
  "engine_cfg \<Rightarrow> bool \<Rightarrow> int \<Rightarrow> nat \<Rightarrow> string \<Rightarrow> string \<Rightarrow> request_content option \<Rightarrow> ('d, 'm, 'x) engine \<Rightarrow>
   (as_status, ('d, 'm, 'x) engine) outcome"
where
  "StartRequestApi c queued now garbage new_uuid customized_uuid info eg =
     (let uuid = (if customized_uuid = [] then new_uuid else customized_uuid) in
      case info of
        None \<Rightarrow> ret ALLSPARK_PARAM_ERROR eg
      | Some q \<Rightarrow>
          andThen (InputParamsVerify c q, eg) (\<lambda>(st, g) eg.
          if st \<noteq> ALLSPARK_SUCCESS then ret st eg
          else andThen (RichInputVerify q, eg) (\<lambda>st eg.
          if st \<noteq> ALLSPARK_SUCCESS then ret st eg
          else if eg_workers eg = [] then (Inl UndefinedBehaviour, eg)
          else if gc_lora_name g \<noteq> [] \<and> gc_lora_name g \<notin> set (am_loras (hd (eg_workers eg)))
          then ret ALLSPARK_LORA_NOT_FOUND eg
          else send_start queued now garbage uuid q g eg)))"

definition control_call ::
  "control_id \<Rightarrow> bool \<Rightarrow> string \<Rightarrow> ('d, 'm, 'x) engine \<Rightarrow> reply \<times> ('d, 'm, 'x) engine" where
  "control_call kind queued uuid eg =
     (case new_promise eg of
        (p, eg) \<Rightarrow>
          if queued
          then (Await p, post True \<lparr>cm_msg = kind, cm_promise = p, cm_uuid = uuid, cm_config = None, cm_handle = None,
                                   cm_queue = None\<rparr> (eg\<lparr>eg_waiting := Some p\<rparr>))
          else (Now ALLSPARK_RUNTIME_ERROR, eg))"

definition StopRequestApi :: "bool \<Rightarrow> string option \<Rightarrow> ('d, 'm, 'x) engine \<Rightarrow> reply \<times> ('d, 'm, 'x) engine" where
  "StopRequestApi queued handle eg =
     (case handle of None \<Rightarrow> (Now ALLSPARK_EMPTY_REQUEST, eg) | Some uuid \<Rightarrow> control_call StopRequestMsg queued uuid eg)"

definition ReleaseRequestApi :: "bool \<Rightarrow> string option \<Rightarrow> ('d, 'm, 'x) engine \<Rightarrow> reply \<times> ('d, 'm, 'x) engine" where
  "ReleaseRequestApi queued handle eg =
     (case handle of None \<Rightarrow> (Now ALLSPARK_EMPTY_REQUEST, eg) | Some uuid \<Rightarrow> control_call ReleaseRequestMsg queued uuid eg)"

definition SyncRequestApi :: "bool \<Rightarrow> string option \<Rightarrow> ('d, 'm, 'x) engine \<Rightarrow> reply \<times> ('d, 'm, 'x) engine" where
  "SyncRequestApi queued handle eg =
     (case handle of
        Some uuid \<Rightarrow> control_call SyncRequestMsg queued uuid eg
      | None \<Rightarrow> control_call SyncAllRequestMsg queued ''<ALL>'' eg)"

text \<open>The reply has come: \<open>StopRequest\<close> and \<open>ReleaseRequest\<close> report success whatever it is.\<close>

definition finish_call :: "control_id \<Rightarrow> promise \<Rightarrow> ('d, 'm, 'x) engine \<Rightarrow> (as_status \<times> ('d, 'm, 'x) engine) option" where
  "finish_call kind p eg =
     (case (if p < length (eg_promises eg) then eg_promises eg ! p else None) of
        None \<Rightarrow> None
      | Some st \<Rightarrow>
          Some (if kind = StopRequestMsg \<or> kind = ReleaseRequestMsg then ALLSPARK_SUCCESS else st, eg\<lparr>eg_waiting := None\<rparr>))"

text \<open>\<open>StopModel\<close> does not take \<open>lora_lock_\<close>.\<close>

definition StopModelApi :: "bool \<Rightarrow> ('d, 'm, 'x) engine \<Rightarrow> reply \<times> ('d, 'm, 'x) engine" where
  "StopModelApi queued eg =
     (case new_promise eg of
        (p, eg) \<Rightarrow>
          if eg_model_stopping eg then (Now ALLSPARK_REQUEST_DENIED, eg)
          else if queued
          then (Await p, post True \<lparr>cm_msg = GracefulStopModelMsg, cm_promise = p, cm_uuid = control_uuid, cm_config = None,
                                   cm_handle = None, cm_queue = None\<rparr> (eg\<lparr>eg_model_stopping := True\<rparr>))
          else (Now ALLSPARK_RUNTIME_ERROR, eg))"

text \<open>
  The two calls that load and unload a LoRA on all ranks; the work of the weight manager is the
  parameter \<open>rank_load\<close>. All ranks run; the first failing status is reported.
\<close>

fun first_bad :: "as_status list \<Rightarrow> as_status" where
  "first_bad [] = ALLSPARK_SUCCESS"
| "first_bad (st # sts) = (if st = ALLSPARK_SUCCESS \<or> st = ALLSPARK_STREAMING then (if sts = [] then st else first_bad sts) else st)"

definition on_workers ::
  "(('d, 'm, 'x) as_model \<Rightarrow> as_status \<times> ('d, 'm, 'x) as_model) \<Rightarrow> ('d, 'm, 'x) engine \<Rightarrow> as_status \<times> ('d, 'm, 'x) engine" where
  "on_workers f eg = (let rs = map f (eg_workers eg) in (first_bad (map fst rs), eg\<lparr>eg_workers := map snd rs\<rparr>))"

definition LoadLoraByName ::
  "(string \<Rightarrow> ('d, 'm, 'x) as_model \<Rightarrow> as_status \<times> ('d, 'm, 'x) as_model) \<Rightarrow> string option \<Rightarrow> ('d, 'm, 'x) engine \<Rightarrow>
   as_status \<times> ('d, 'm, 'x) engine"
where
  "LoadLoraByName rank_load name eg =
     (case name of
        None \<Rightarrow> (ALLSPARK_PARAM_ERROR, eg)
      | Some lora \<Rightarrow>
          if lora = [] then (ALLSPARK_PARAM_ERROR, eg)
          else if lora \<in> set (am_loras (hd (eg_workers eg))) then (ALLSPARK_LORA_ALREADY_LOADED, eg)
          else if lora_in_use lora eg then (ALLSPARK_LORA_IN_USE, eg)
          else if eg_model_stopping eg then (ALLSPARK_REQUEST_DENIED, eg)
          else on_workers (rank_load lora) eg)"

definition UnloadLoraByName ::
  "(string \<Rightarrow> ('d, 'm, 'x) as_model \<Rightarrow> as_status \<times> ('d, 'm, 'x) as_model) \<Rightarrow> string option \<Rightarrow> ('d, 'm, 'x) engine \<Rightarrow>
   as_status \<times> ('d, 'm, 'x) engine"
where
  "UnloadLoraByName rank_unload name eg =
     (case name of
        None \<Rightarrow> (ALLSPARK_PARAM_ERROR, eg)
      | Some lora \<Rightarrow>
          if lora = [] then (ALLSPARK_PARAM_ERROR, eg)
          else if lora \<notin> set (am_loras (hd (eg_workers eg))) then (ALLSPARK_LORA_NOT_FOUND, eg)
          else if lora_in_use lora eg then (ALLSPARK_LORA_IN_USE, eg)
          else if eg_model_stopping eg then (ALLSPARK_REQUEST_DENIED, eg)
          else on_workers (rank_unload lora) eg)"

end
