(* ===== verification/Engine_Loop.thy ===== *)
theory Engine_Loop
  imports Engine_State
begin

text \<open>
  The thread of the engine (\<open>common/as_engine.cpp\<close>): it sends work to all ranks and joins their results
  (\<open>RunTextGenerationContext\<close>, \<open>RunTextGenerationContinue\<close>, \<open>StopRequestByRequestID\<close> and the others),
  hands new tokens to the result queues (\<open>UpdateResult\<close>), handles control messages and, when the cache is
  full, stops a victim. The ranks share nothing but the handle of a request, so the order in which they
  run does not matter; the input tensors of a handle, which the ranks only reshape, all alike, are copied to each of them.
\<close>

section \<open>Work for all ranks\<close>

definition on_ranks ::
  "(nat \<Rightarrow> 's \<Rightarrow> ('a, 's) outcome) \<Rightarrow> 's list \<Rightarrow> (exn + 'a) list \<times> 's list" where
  "on_ranks f ms = (let rs = map (\<lambda>i. f i (ms ! i)) [0..<length ms] in (map fst rs, map snd rs))"

text \<open>The results of all ranks: the last failing status wins, an exception counts as a runtime error.\<close>

definition as_status_ok :: "as_status \<Rightarrow> bool" where
  "as_status_ok st = (st = ALLSPARK_SUCCESS \<or> st = ALLSPARK_STREAMING)"

fun join_ranks :: "(as_status \<Rightarrow> bool) \<Rightarrow> as_status \<Rightarrow> (exn + as_status) list \<Rightarrow> exn + as_status" where
  "join_ranks ok failed [] = Inr failed"
| "join_ranks ok failed (Inr st # rs) = join_ranks ok (if ok st then failed else st) rs"
| "join_ranks ok failed (Inl ex # rs) =
     (if is_exception ex then join_ranks ok ALLSPARK_RUNTIME_ERROR rs else Inl ex)"

text \<open>The handler around a task: running out of memory is told by its name.\<close>

definition task_status :: "exn + as_status \<Rightarrow> exn + as_status" where
  "task_status r =
     (case r of
        Inl ex \<Rightarrow>
          (if ex = AsException ALLSPARK_MEMORY_ERROR \<or> ex = AsException ALLSPARK_CACHE_MEMORY_OUT
           then Inr ALLSPARK_CACHE_MEMORY_OUT
           else if is_exception ex then Inr ALLSPARK_RUNTIME_ERROR else Inl ex)
      | Inr st \<Rightarrow> Inr st)"

type_synonym ('d, 'm, 'x) rank_env = "nat \<Rightarrow> ('d, 'm, 'x) model_env"

definition ranks_call ::
  "(nat \<Rightarrow> ('d, 'm, 'x) as_model \<Rightarrow> (as_status, ('d, 'm, 'x) as_model) outcome) \<Rightarrow>
   ((exn + as_status) list \<Rightarrow> exn + as_status) \<Rightarrow> ('d, 'm, 'x) engine \<Rightarrow> (as_status, ('d, 'm, 'x) engine) outcome"
where
  "ranks_call f join eg =
     (case on_ranks f (eg_workers eg) of (rs, ms) \<Rightarrow> (join rs, eg\<lparr>eg_workers := ms\<rparr>))"

definition RunTextGenerationContext ::
  "('d, 'm, 'x) rank_env \<Rightarrow> engine_cfg \<Rightarrow> bool \<Rightarrow> ('d, 'm, 'x) engine \<Rightarrow> (as_status, ('d, 'm, 'x) engine) outcome" where
  "RunTextGenerationContext e c is_new_context eg =
     (if \<not> ec_registered c then ret ALLSPARK_PARAM_ERROR eg
      else if \<not> ec_is_generate c then ret ALLSPARK_INVALID_CALL_ERROR eg
      else ranks_call (\<lambda>i. GenerateContinueContext (e i) (rank_cfg c i) is_new_context)
             (\<lambda>rs. join_ranks (\<lambda>st. st = ALLSPARK_SUCCESS) ALLSPARK_SUCCESS (map task_status rs)) eg)"

text \<open>\<open>GenerateContinue\<close> of a model throws no exception of its own; \<open>ALLSPARK_MEMORY_ERROR\<close> is thrown on.\<close>

fun join_continue :: "as_status \<Rightarrow> (exn + as_status) list \<Rightarrow> exn + as_status" where
  "join_continue failed [] = Inr failed"
| "join_continue failed (Inr st # rs) = join_continue (if as_status_ok st then failed else st) rs"
| "join_continue failed (Inl ex # rs) =
     (if ex = AsException ALLSPARK_MEMORY_ERROR then Inl ex
      else if is_exception ex then join_continue ALLSPARK_RUNTIME_ERROR rs else Inl ex)"

fun first_not_success :: "(exn + as_status) list \<Rightarrow> exn + as_status" where
  "first_not_success [] = Inr ALLSPARK_SUCCESS"
| "first_not_success (Inl ex # rs) = Inl ex"
| "first_not_success (Inr st # rs) = (if st \<noteq> ALLSPARK_SUCCESS then Inr st else first_not_success rs)"

definition RunTextGenerationContinue ::
  "('d, 'm, 'x) rank_env \<Rightarrow> engine_cfg \<Rightarrow> ('d, 'm, 'x) engine \<Rightarrow> (as_status, ('d, 'm, 'x) engine) outcome" where
  "RunTextGenerationContinue e c eg =
     (if \<not> ec_registered c then ret ALLSPARK_PARAM_ERROR eg
      else if \<not> ec_is_generate c then ret ALLSPARK_INVALID_CALL_ERROR eg
      else thenOk (ranks_call (\<lambda>i. AllocDecoderMemory (e i) (rank_cfg c i)) (\<lambda>rs. first_not_success (map task_status rs)) eg) (\<lambda>eg.
        ranks_call (\<lambda>i. GenerateContinue (e i) (rank_cfg c i)) (join_continue ALLSPARK_SUCCESS) eg))"

definition StopRequestByRequestID ::
  "('d, 'm, 'x) rank_env \<Rightarrow> engine_cfg \<Rightarrow> string \<Rightarrow> ('d, 'm, 'x) engine \<Rightarrow> (as_status, ('d, 'm, 'x) engine) outcome" where
  "StopRequestByRequestID e c uuid eg =
     (if \<not> ec_registered c then ret ALLSPARK_PARAM_ERROR eg
      else ranks_call (\<lambda>i. StopRequest (e i) (rank_cfg c i) uuid) (join_ranks as_status_ok ALLSPARK_SUCCESS) eg)"

definition ReleaseRequestByRequestID ::
  "engine_cfg \<Rightarrow> string \<Rightarrow> ('d, 'm, 'x) engine \<Rightarrow> (as_status, ('d, 'm, 'x) engine) outcome" where
  "ReleaseRequestByRequestID c uuid eg =
     (if \<not> ec_registered c then ret ALLSPARK_PARAM_ERROR eg
      else ranks_call (\<lambda>i m. case ReleaseRequest uuid m of (st, m) \<Rightarrow> ret st m) (join_ranks as_status_ok ALLSPARK_SUCCESS) eg)"

text \<open>\<open>StartRequestImpl\<close>: the tensor of the generated tokens is made with the engine's maximal length and
  is not written.\<close>

fun place_tensors :: "(string \<times> tok_tensor) list \<Rightarrow> ('d, 'm, 'x) as_model \<Rightarrow> tensor_map \<times> ('d, 'm, 'x) as_model" where
  "place_tensors [] m = ([], m)"
| "place_tensors ((name, t) # ts) m =
     (case new_tensor t m of (p, m) \<Rightarrow> case place_tensors ts m of (tm, m) \<Rightarrow> ((name, p) # tm, m))"

definition rank_start ::
  "('d, 'm, 'x) model_env \<Rightarrow> engine_cfg \<Rightarrow> request_handle \<Rightarrow> gen_config \<Rightarrow> ('d, 'm, 'x) as_model \<Rightarrow>
   (as_status, ('d, 'm, 'x) as_model) outcome"
where
  "rank_start e c h cfg m =
     (case place_tensors (rh_inputs h) m of (ins, m) \<Rightarrow>
      case place_tensors [(''generated_ids_global'', tt_new ''generated_ids_global'' CPU [1, ec_max_length c])] m of (outs, m) \<Rightarrow>
        StartRequestImpl_model e (rh_uuid h) ins (rh_mm_embedding h) (rh_create_ts h) outs cfg m)"

definition StartRequestImpl ::
  "('d, 'm, 'x) rank_env \<Rightarrow> engine_cfg \<Rightarrow> request_handle \<Rightarrow> gen_config \<Rightarrow> ('d, 'm, 'x) engine \<Rightarrow>
   (as_status, ('d, 'm, 'x) engine) outcome"
where
  "StartRequestImpl e c h cfg eg =
     ranks_call (\<lambda>i. rank_start (e i) c h cfg) (join_ranks as_status_ok ALLSPARK_SUCCESS) eg"

section \<open>The context phase of the engine\<close>

text \<open>
  With \<open>ContextPriority\<close> contexts are run until none is left or a chunk has been run; \<open>None\<close> stands for a
  loop that does not end. The first argument gives every round its environment.
\<close>

partial_function (option) context_loop ::
  "(nat \<Rightarrow> ('d, 'm, 'x) rank_env) \<Rightarrow> engine_cfg \<Rightarrow> nat \<Rightarrow> ('d, 'm, 'x) engine \<Rightarrow>
   ((as_status, ('d, 'm, 'x) engine) outcome) option"
where
  "context_loop e c n eg =
     (case RunTextGenerationContext (e n) c (n = 0) eg of
        (Inl ex, eg) \<Rightarrow> Some (Inl ex, eg)
      | (Inr st, eg) \<Rightarrow>
          if st \<noteq> ALLSPARK_SUCCESS \<and> st \<noteq> ALLSPARK_EMPTY_REQUEST \<and> st \<noteq> ALLSPARK_CHUNK_PREFILL then Some (ret st eg)
          else if st = ALLSPARK_CHUNK_PREFILL \<or> st = ALLSPARK_EMPTY_REQUEST then Some (ret ALLSPARK_SUCCESS eg)
          else context_loop e c (Suc n) eg)"

definition RunEngineContext ::
  "(nat \<Rightarrow> ('d, 'm, 'x) rank_env) \<Rightarrow> engine_cfg \<Rightarrow> ('d, 'm, 'x) engine \<Rightarrow> (as_status, ('d, 'm, 'x) engine) outcome" where
  "RunEngineContext e c eg =
     (case ec_scheduling c of
        ContextPriority \<Rightarrow> (case context_loop e c 0 eg of None \<Rightarrow> (Inl Diverges, eg) | Some r \<Rightarrow> r)
      | Balance \<Rightarrow> RunTextGenerationContext (e 0) c True eg)"

section \<open>Handing out results\<close>

text \<open>The log probabilities that the model has stored for a request, when the request wants them.\<close>

type_synonym log_probs = "string \<Rightarrow> ((int \<times> rat) list list \<times> rat list) option"

text \<open>Elements of a buffer: outside it, or never written, the read is undefined.\<close>

definition read_buf :: "nat \<Rightarrow> nat \<Rightarrow> 'a option list \<Rightarrow> exn + 'a list" where
  "read_buf from n buf =
     (let xs = take n (drop from buf) in
      if length xs < n \<or> None \<in> set xs then Inl UndefinedBehaviour else Inr (map the xs))"

definition read_list :: "nat \<Rightarrow> nat \<Rightarrow> 'a list \<Rightarrow> exn + 'a list" where
  "read_list from n xs = (if length xs < from + n then Inl UndefinedBehaviour else Inr (take n (drop from xs)))"

definition stat_updates :: "request \<Rightarrow> request_handle \<Rightarrow> gen_element \<Rightarrow> result_queue \<Rightarrow> result_queue" where
  "stat_updates q h ele rq =
     fold (\<lambda>(k, v). UpdateStatInfo k v)
       [(''context_token_length'', int (rh_context_length h)), (''context_cached_length'', ge_prefix_cache_len ele),
        (''generated_token_length'', int (rh_generate_length h)), (''arrival_time'', rq_enqueue_ts q),
        (''first_token_time'', rq_context_ts q), (''last_token_time'', rq_generate_ts q),
        (''time_in_queue'', max 0 (rq_start_ts q - rq_enqueue_ts q)),
        (''time_to_first_token'', max 0 (rq_context_ts q - rq_enqueue_ts q)),
        (''finished_time'', max 0 (rq_generate_ts q - rq_start_ts q))] rq"

text \<open>
  \<open>FetchGenerationResultAndIncreaseCounter\<close>: the tokens that the request has produced since the last
  call, with the handle, request and queue updated; nothing when there is no new token.
\<close>

definition FetchGenerationResult ::
  "log_probs \<Rightarrow> request \<Rightarrow> tok_tensor \<Rightarrow> request_handle \<Rightarrow> result_queue \<Rightarrow>
   exn + (gen_element option \<times> request \<times> request_handle \<times> result_queue)"
where
  "FetchGenerationResult lp q t h rq =
     (if shape_count (tt_shape t) = 0 then Inr (None, q, h, rq)
      else bindE (Shape_at (tt_shape t) 1) (\<lambda>n.
        let new_length = size_t_of n; old_length = (rh_context_length h + rh_generate_length h) mod 2 ^ 64 in
        if new_length \<le> old_length then Inr (None, q, h, rq)
        else
          let k = new_length - old_length in
          bindE (read_buf old_length k (tt_buf t)) (\<lambda>ids.
          bindE (case lp (rq_id q) of
                   None \<Rightarrow> Inr ([], [])
                 | Some (lps, tlps) \<Rightarrow>
                     bindE (read_list (rh_generate_length h) k lps) (\<lambda>a.
                     bindE (read_list (rh_generate_length h) k tlps) (\<lambda>b. Inr (a, b)))) (\<lambda>(a, b).
          let ele = \<lparr>ge_ids = ids, ge_log_probs = a, ge_token_logprobs = b, ge_prefix_cache_len = rq_prefix_len q,
                     ge_prefix_len_gpu = rq_prefix_len_gpu q, ge_prefix_len_cpu = rq_prefix_len q - rq_prefix_len_gpu q\<rparr>;
              g = size_t_of (int new_length - int (rh_context_length h));
              h = h\<lparr>rh_generate_length := g\<rparr>
          in Inr (Some ele, q\<lparr>rq_generated_len := g\<rparr>, h, stat_updates q h ele rq)))))"

text \<open>The map entry of a request, its queue, its model data.\<close>

definition set_handle :: "string \<Rightarrow> request_handle \<Rightarrow> ('d, 'm, 'x) engine \<Rightarrow> ('d, 'm, 'x) engine" where
  "set_handle k h eg = eg\<lparr>eg_handles := AList.update k h (eg_handles eg)\<rparr>"

definition set_queue :: "string \<Rightarrow> result_queue \<Rightarrow> ('d, 'm, 'x) engine \<Rightarrow> ('d, 'm, 'x) engine" where
  "set_queue k q eg = eg\<lparr>eg_queues := AList.update k q (eg_queues eg)\<rparr>"

definition set_rank0 :: "('d, 'm, 'x) as_model \<Rightarrow> ('d, 'm, 'x) engine \<Rightarrow> ('d, 'm, 'x) engine" where
  "set_rank0 m eg = eg\<lparr>eg_workers := (eg_workers eg)[0 := m]\<rparr>"

definition updateSyncStatus :: "string \<Rightarrow> ('d, 'm, 'x) engine \<Rightarrow> ('d, 'm, 'x) engine" where
  "updateSyncStatus uuid eg =
     (if eg_synchronizing eg then eg\<lparr>eg_sync_pending := removeAll uuid (eg_sync_pending eg)\<rparr> else eg)"

definition lora_release :: "string \<Rightarrow> ('d, 'm, 'x) engine \<Rightarrow> ('d, 'm, 'x) engine" where
  "lora_release lora eg =
     (if eg_lora_use_count eg > 0 \<and> lora \<noteq> [] then
        (case eg_loras_in_use eg of
           None \<Rightarrow> eg
         | Some xs \<Rightarrow> eg\<lparr>eg_loras_in_use := Some (remove1 lora xs), eg_lora_use_count := eg_lora_use_count eg - 1\<rparr>)
      else eg)"

text \<open>A request of rank 0 that has begun: its new tokens are appended, and it is finished when the
  model has finished it. The first part counts the call, the last part stores what was fetched.\<close>

definition begin_update ::
  "string \<Rightarrow> request_handle \<Rightarrow> result_queue \<Rightarrow> request \<Rightarrow> ('d, 'm, 'x) engine \<Rightarrow>
   request_handle \<times> result_queue \<times> ('d, 'm, 'x) engine"
where
  "begin_update key h q rq eg =
     (let h = h\<lparr>rh_continue_count := (rh_continue_count h + 1) mod 2 ^ 64\<rparr> in
      if rh_continue_count h = 1
      then (h, SetStatus Generating q, set_handle key h (set_queue (rh_uuid h) (SetStatus Generating q)
             (eg\<lparr>eg_prefill_token := eg_prefill_token eg + rq_input_len rq\<rparr>)))
      else (h, q, set_handle key h (set_queue (rh_uuid h) q eg)))"

definition deliver ::
  "string \<Rightarrow> req_ptr \<Rightarrow> gen_element option \<Rightarrow> request \<Rightarrow> request_handle \<Rightarrow> result_queue \<Rightarrow> ('d, 'm, 'x) engine \<Rightarrow>
   ('d, 'm, 'x) engine"
where
  "deliver key r ele rq h q eg =
     (let q = (case ele of None \<Rightarrow> q | Some el \<Rightarrow> AppendGenerateElement el q);
          eg = (case ele of None \<Rightarrow> eg
                | Some el \<Rightarrow> eg\<lparr>eg_generated_token := eg_generated_token eg + int (length (ge_ids el))\<rparr>);
          eg = set_rank0 (upd_req r (\<lambda>_. rq) (hd (eg_workers eg))) (set_handle key h eg);
          eg = (if rs_status q = GenerateInterrupted then updateSyncStatus (rh_uuid h) (set_queue (rh_uuid h) q eg)
                else if rq_finish rq then updateSyncStatus (rh_uuid h) (set_queue (rh_uuid h) (SetStatus GenerateFinished q) eg)
                else set_queue (rh_uuid h) q eg)
      in if rq_status rq = GenerateFinished then lora_release (gc_lora_name (rq_gen_cfg rq)) eg else eg)"

definition update_running ::
  "log_probs \<Rightarrow> string \<Rightarrow> request_handle \<Rightarrow> result_queue \<Rightarrow> req_ptr \<Rightarrow> ('d, 'm, 'x) engine \<Rightarrow> (unit, ('d, 'm, 'x) engine) outcome"
where
  "update_running lp key h q r eg =
     (let m = hd (eg_workers eg) in
      case begin_update key h q (req m r) eg of (h, q, eg) \<Rightarrow>
        andThen (liftE (map_at (rq_outputs (req m r)) ''generated_ids_global'') eg) (\<lambda>p eg.
        andThen (liftE (FetchGenerationResult lp (req m r) (tensor m p) h q) eg) (\<lambda>(ele, rq, h, q) eg.
          ret () (deliver key r ele rq h q eg))))"

definition update_entry :: "log_probs \<Rightarrow> string \<Rightarrow> ('d, 'm, 'x) engine \<Rightarrow> (unit, ('d, 'm, 'x) engine) outcome" where
  "update_entry lp key eg =
     (case map_of (eg_handles eg) key of
        None \<Rightarrow> ret () eg
      | Some h \<Rightarrow>
          (case map_of (eg_queues eg) (rh_uuid h) of
             None \<Rightarrow> ret () eg
           | Some q \<Rightarrow>
               if rs_status q = GenerateFinished \<or> rs_status q = GenerateInterrupted
               then ret () (updateSyncStatus (rh_uuid h) eg)
               else if eg_workers eg = [] then (Inl UndefinedBehaviour, eg)
               else
                 (case GetRequestById (rh_uuid h) (hd (eg_workers eg)) of
                    None \<Rightarrow> ret () eg
                  | Some r \<Rightarrow>
                      let st = rq_status (req (hd (eg_workers eg)) r) in
                      if st = Init then ret () eg
                      else if st = GenerateInterrupted
                      then ret () (updateSyncStatus (rh_uuid h) (set_queue (rh_uuid h) (SetStatus GenerateInterrupted q) eg))
                      else update_running lp key h q r eg)))"

definition UpdateResult :: "log_probs \<Rightarrow> ('d, 'm, 'x) engine \<Rightarrow> (unit, ('d, 'm, 'x) engine) outcome" where
  "UpdateResult lp eg = forEach (update_entry lp) (map fst (eg_handles eg)) eg"

section \<open>Victims\<close>

text \<open>The first of the longest, or a random one. There is always a request to choose from.\<close>

fun longest :: "nat list \<Rightarrow> nat \<Rightarrow> nat \<Rightarrow> nat" where
  "longest lens x 0 = x"
| "longest lens x (Suc k) =
     (let i = length lens - Suc k in longest lens (if lens ! i > lens ! x then i else x) k)"

definition ChooseVictimRequest :: "engine_cfg \<Rightarrow> nat \<Rightarrow> string list \<Rightarrow> nat list \<Rightarrow> string" where
  "ChooseVictimRequest c random ids lens =
     (case ec_eviction c of
        MaxLength \<Rightarrow> ids ! longest lens 0 (length lens)
      | Random \<Rightarrow> ids ! (random mod length ids))"

definition generating :: "('d, 'm, 'x) engine \<Rightarrow> request_handle list" where
  "generating eg = filter (\<lambda>h. case map_of (eg_queues eg) (rh_uuid h) of None \<Rightarrow> False | Some q \<Rightarrow> rs_status q = Generating)
     (map snd (eg_handles eg))"

definition missing_queue :: "('d, 'm, 'x) engine \<Rightarrow> bool" where
  "missing_queue eg = list_ex (\<lambda>(_, h). map_of (eg_queues eg) (rh_uuid h) = None) (eg_handles eg)"

text \<open>The decoding step, repeated with one request less as long as the cache is full. Any other failure
  aborts the process. A handle without queue would be a null pointer.\<close>

partial_function (option) decode_loop ::
  "(nat \<Rightarrow> ('d, 'm, 'x) rank_env) \<Rightarrow> (nat \<Rightarrow> nat) \<Rightarrow> engine_cfg \<Rightarrow> nat \<Rightarrow> ('d, 'm, 'x) engine \<Rightarrow>
   ((unit, ('d, 'm, 'x) engine) outcome) option"
where
  "decode_loop e rand c n eg =
     (case RunTextGenerationContinue (e (2 * n)) c eg of
        (Inl ex, eg) \<Rightarrow> Some (Inl ex, eg)
      | (Inr st, eg) \<Rightarrow>
          if st = ALLSPARK_SUCCESS \<or> st = ALLSPARK_EMPTY_REQUEST then Some (ret () eg)
          else if st \<noteq> ALLSPARK_CACHE_MEMORY_OUT then Some (Inl EnforceFailed, eg)
          else if missing_queue eg then Some (Inl UndefinedBehaviour, eg)
          else if generating eg = [] then Some (ret () eg)
          else
            let victim = ChooseVictimRequest c (rand n) (map rh_uuid (generating eg))
                  (map (\<lambda>h. rh_context_length h + rh_generate_length h) (generating eg))
            in (case StopRequestByRequestID (e (2 * n + 1)) c victim eg of
                  (Inl ex, eg) \<Rightarrow> Some (Inl ex, eg)
                | (Inr _, eg) \<Rightarrow>
                    (case map_of (eg_queues eg) victim of
                       None \<Rightarrow> Some (Inl UndefinedBehaviour, eg)
                     | Some q \<Rightarrow> decode_loop e rand c (Suc n) (set_queue victim (SetStatus GenerateInterrupted q) eg))))"

section \<open>Control messages\<close>

definition unfinished :: "('d, 'm, 'x) engine \<Rightarrow> nat" where
  "unfinished eg = GetUnFinishedRequest (hd (eg_workers eg))"

definition handle_start ::
  "('d, 'm, 'x) rank_env \<Rightarrow> engine_cfg \<Rightarrow> control_message \<Rightarrow> ('d, 'm, 'x) engine \<Rightarrow> (unit, ('d, 'm, 'x) engine) outcome" where
  "handle_start e c msg eg =
     (if eg_graceful_stop eg then ret () (set_promise (cm_promise msg) ALLSPARK_REQUEST_DENIED (eg\<lparr>eg_no_execution := True\<rparr>))
      else case (cm_handle msg, cm_queue msg, cm_config msg) of
        (Some h, Some q, Some g) \<Rightarrow>
          let eg = eg\<lparr>eg_queues := map_insert (cm_uuid msg) q (eg_queues eg),
                      eg_handles := map_insert (cm_uuid msg) h (eg_handles eg)\<rparr>
          in (case map_of (eg_handles eg) (cm_uuid msg) of
                None \<Rightarrow> (Inl StdOutOfRange, eg)
              | Some h \<Rightarrow> andThen (StartRequestImpl e c h (gen_config.truncate g) eg) (\<lambda>_ eg. ret () eg))
      | _ \<Rightarrow> (Inl UndefinedBehaviour, eg))"

definition handle_release ::
  "('d, 'm, 'x) rank_env \<Rightarrow> engine_cfg \<Rightarrow> control_message \<Rightarrow> ('d, 'm, 'x) engine \<Rightarrow> (unit, ('d, 'm, 'x) engine) outcome" where
  "handle_release e c msg eg =
     andThen (StopRequestByRequestID e c (cm_uuid msg) eg) (\<lambda>ret_stop eg.
     andThen (ReleaseRequestByRequestID c (cm_uuid msg) eg) (\<lambda>ret_release eg.
     let eg = (if map_of (eg_queues eg) (cm_uuid msg) \<noteq> None
               then eg\<lparr>eg_queues := AList.delete (cm_uuid msg) (eg_queues eg),
                       eg_handles := AList.delete (cm_uuid msg) (eg_handles eg)\<rparr>
               else eg);
         eg = (if eg_graceful_stop eg \<and> unfinished eg = 0 \<and> eg_msg_queue eg = [] then eg\<lparr>eg_final_released := True\<rparr> else eg)
     in ret () (set_promise (cm_promise msg) (if ret_stop \<noteq> ALLSPARK_SUCCESS then ret_stop else ret_release) eg)))"

definition handle_message ::
  "('d, 'm, 'x) rank_env \<Rightarrow> engine_cfg \<Rightarrow> control_message \<Rightarrow> ('d, 'm, 'x) engine \<Rightarrow> (unit, ('d, 'm, 'x) engine) outcome" where
  "handle_message e c msg eg =
     (case cm_msg msg of
        GracefulStopModelMsg \<Rightarrow>
          ret () (eg\<lparr>eg_graceful_stop := True, eg_model_stopping := True, eg_stop_promise := Some (cm_promise msg)\<rparr>)
      | StopModelMsg \<Rightarrow>
          ret () (set_promise (cm_promise msg) ALLSPARK_SUCCESS (eg\<lparr>eg_looping := False, eg_no_execution := True\<rparr>))
      | StartRequestMsg \<Rightarrow> handle_start e c msg eg
      | StopRequestMsg \<Rightarrow>
          andThen (StopRequestByRequestID e c (cm_uuid msg) eg) (\<lambda>st eg. ret () (set_promise (cm_promise msg) st eg))
      | SyncRequestMsg \<Rightarrow>
          ret () (eg\<lparr>eg_sync_pending := List.insert (cm_uuid msg) (eg_sync_pending eg),
                    eg_deferred := Some (cm_promise msg), eg_synchronizing := True\<rparr>)
      | SyncAllRequestMsg \<Rightarrow>
          ret () (eg\<lparr>eg_sync_pending := fold (\<lambda>(_, h). List.insert (rh_uuid h)) (eg_handles eg) (eg_sync_pending eg),
                    eg_deferred := Some (cm_promise msg), eg_synchronizing := True\<rparr>)
      | ReleaseRequestMsg \<Rightarrow> handle_release e c msg eg
      | _ \<Rightarrow> ret () eg)"

text \<open>
  All messages are handled, unless a synchronisation begins. An idle engine then sleeps until the next
  message, which is the result \<open>True\<close>; when it wakes up it goes on in the same loop.
\<close>

definition may_sleep :: "('d, 'm, 'x) engine \<Rightarrow> bool" where
  "may_sleep eg = (eg_sync_pending eg = [] \<and> \<not> eg_graceful_stop eg \<and> unfinished eg = 0 \<and> eg_handles eg = [] \<and>
     \<not> eg_model_stopping eg)"

fun handle_messages ::
  "(nat \<Rightarrow> ('d, 'm, 'x) rank_env) \<Rightarrow> engine_cfg \<Rightarrow> nat \<Rightarrow> control_message list \<Rightarrow> ('d, 'm, 'x) engine \<Rightarrow>
   (bool, ('d, 'm, 'x) engine) outcome"
where
  "handle_messages e c n [] eg = ret (may_sleep eg) eg"
| "handle_messages e c n (msg # msgs) eg =
     andThen (handle_message (e n) c msg (eg\<lparr>eg_msg_queue := msgs\<rparr>)) (\<lambda>_ eg.
       if eg_synchronizing eg then ret False eg else handle_messages e c (Suc n) msgs eg)"

section \<open>One round of the loop\<close>

record ('d, 'm, 'x) engine_env =
  ee_message :: "nat \<Rightarrow> ('d, 'm, 'x) rank_env"
  ee_context :: "nat \<Rightarrow> ('d, 'm, 'x) rank_env"
  ee_continue :: "nat \<Rightarrow> ('d, 'm, 'x) rank_env"
  ee_random :: "nat \<Rightarrow> nat"
  ee_log_probs :: log_probs
  ee_sem_retry :: bool

definition finish_sync :: "('d, 'm, 'x) engine \<Rightarrow> (unit, ('d, 'm, 'x) engine) outcome" where
  "finish_sync eg =
     (if eg_synchronizing eg \<and> eg_sync_pending eg = [] then
        (case eg_deferred eg of
           None \<Rightarrow> (Inl UndefinedBehaviour, eg)
         | Some p \<Rightarrow> ret () (set_promise p ALLSPARK_SUCCESS (eg\<lparr>eg_synchronizing := False, eg_deferred := None\<rparr>)))
      else ret () eg)"

text \<open>The end of the thread after \<open>StopModel\<close>.\<close>

definition stop_check :: "('d, 'm, 'x) engine \<Rightarrow> (unit, ('d, 'm, 'x) engine) outcome" where
  "stop_check eg =
     (if unfinished eg = 0 \<and> eg_msg_queue eg = [] \<and> eg_graceful_stop eg then
        (case eg_stop_promise eg of
           None \<Rightarrow> (Inl UndefinedBehaviour, eg)
         | Some p \<Rightarrow>
             if eg_queues eg = [] \<and> eg_handles eg = []
             then ret () (set_promise p ALLSPARK_SUCCESS (eg\<lparr>eg_final_released := True, eg_model_stopped := True, eg_looping := False\<rparr>))
             else ret () (set_promise p ALLSPARK_RUNTIME_ERROR (eg\<lparr>eg_model_stopped := True, eg_looping := False\<rparr>)))
      else ret () eg)"

definition run_phase ::
  "('d, 'm, 'x) engine_env \<Rightarrow> engine_cfg \<Rightarrow> ('d, 'm, 'x) engine \<Rightarrow> (unit, ('d, 'm, 'x) engine) outcome" where
  "run_phase e c eg =
     andThen (RunEngineContext (ee_context e) c eg) (\<lambda>_ eg.
     andThen (UpdateResult (ee_log_probs e) eg) (\<lambda>_ eg.
     andThen (case decode_loop (ee_continue e) (ee_random e) c 0 eg of None \<Rightarrow> (Inl Diverges, eg) | Some r \<Rightarrow> r) (\<lambda>_ eg.
     andThen (UpdateResult (ee_log_probs e) eg) (\<lambda>_ eg.
     andThen (finish_sync eg) (\<lambda>_ eg. stop_check eg)))))"

definition loop_round ::
  "('d, 'm, 'x) engine_env \<Rightarrow> engine_cfg \<Rightarrow> ('d, 'm, 'x) engine \<Rightarrow> (unit, ('d, 'm, 'x) engine) outcome" where
  "loop_round e c eg =
     (if eg_asleep eg \<and> eg_msg_queue eg = [] \<or> \<not> eg_asleep eg \<and> \<not> eg_looping eg then ret () eg
      else
        let eg = (if eg_asleep eg then eg\<lparr>eg_asleep := False\<rparr> else eg\<lparr>eg_no_execution := False\<rparr>) in
        andThen (if eg_synchronizing eg then ret False eg else handle_messages (ee_message e) c 0 (eg_msg_queue eg) eg) (\<lambda>sleeps eg.
        if sleeps then ret () (eg\<lparr>eg_asleep := True\<rparr>)
        else
          let eg = (if ec_cuda c then eg else eg\<lparr>eg_no_execution := ee_sem_retry e\<rparr>) in
          if eg_no_execution eg then ret () eg else run_phase e c eg))"

end
