(* ===== verification/Engine_Invariant.thy ===== *)
theory Engine_Invariant
  imports Engine_Loop Model_Theorems
begin

text \<open>
  The invariant of the engine: on every rank the scheduler's invariant and the bound on the batch, the maps
  of handles and of result queues have the same keys, every message that starts a request carries its
  handle and its queue, and whoever waits has left a promise. It is kept by every call of the user and by
  every round of the loop, failed rounds included.
\<close>

section \<open>Fields of a request that never change\<close>

definition rq_fixed :: "request \<Rightarrow> string \<times> int \<times> tensor_map \<times> tensor_map \<times> gen_config" where
  "rq_fixed q = (rq_id q, rq_input_len q, rq_inputs q, rq_outputs q, rq_gen_cfg q)"

definition fixed_keep :: "('d, 'm, 'x) as_model \<Rightarrow> ('d, 'm, 'x) as_model \<Rightarrow> bool" where
  "fixed_keep m m' \<longleftrightarrow> (\<exists>qs. map rq_fixed (am_requests m') = map rq_fixed (am_requests m) @ qs)"

lemma rq_core_fixed: "rq_core q' = rq_core q \<Longrightarrow> rq_fixed q' = rq_fixed q"
  by (drule rq_core_fields) (simp add: rq_fixed_def)

lemma fixed_keep_refl [simp, intro]: "fixed_keep m m" by (simp add: fixed_keep_def)

lemma fixed_keep_trans: "fixed_keep m m' \<Longrightarrow> fixed_keep m' m'' \<Longrightarrow> fixed_keep m m''"
  by (auto simp: fixed_keep_def)

lemma fixed_keep_upd_req: "fixed_keep m0 m \<Longrightarrow> (\<And>q. rq_fixed (h q) = rq_fixed q) \<Longrightarrow> fixed_keep m0 (upd_req r h m)"
  by (simp add: fixed_keep_def upd_req_def map_update_same)

lemma fixed_keep_requests: "fixed_keep m0 m \<Longrightarrow> am_requests m' = am_requests m \<Longrightarrow> fixed_keep m0 m'"
  by (simp add: fixed_keep_def)

interpretation fixed: context_insensitive "fixed_keep m0" for m0 :: "('d, 'm, 'x) as_model"
  by unfold_locales (auto intro: fixed_keep_upd_req rq_core_fixed fixed_keep_requests simp: upd_ctx_def)

lemma fixed_keep_at:
  assumes "fixed_keep m m'" "r < length (am_requests m)"
  shows "rq_fixed (req m' r) = rq_fixed (req m r)" "r < length (am_requests m')"
proof -
  obtain qs where q: "map rq_fixed (am_requests m') = map rq_fixed (am_requests m) @ qs"
    using assms(1) by (auto simp: fixed_keep_def)
  have "length (am_requests m) \<le> length (am_requests m')" using arg_cong [OF q, of length] by simp
  with assms(2) show l: "r < length (am_requests m')" by simp
  show "rq_fixed (req m' r) = rq_fixed (req m r)"
    using arg_cong [OF q, of "\<lambda>xs. xs ! r"] assms(2) l by (simp add: nth_append)
qed

lemma fixed_keep_fold: "fixed_keep m0 m \<Longrightarrow> (\<And>q. rq_fixed (h q) = rq_fixed q) \<Longrightarrow> fixed_keep m0 (fold (\<lambda>r. upd_req r h) rs m)"
  by (induction rs arbitrary: m) (simp_all add: fixed_keep_upd_req)

lemma fixed_keep_finish: "fixed_keep m0 m \<Longrightarrow> fixed_keep m0 (FinishRequest i m)"
  by (simp add: fixed_keep_def FinishRequest_simps map_update_same rq_fixed_def
      map_update_same [of rq_fixed "\<lambda>q. q\<lparr>rq_finish := True, rq_status := GenerateFinished\<rparr>"])

lemma ctx_keep_fixed: "ctx_keep m m' \<Longrightarrow> fixed_keep m m'"
proof -
  assume "ctx_keep m m'"
  then have c: "map rq_core (am_requests m') = map rq_core (am_requests m)" by (simp add: ctx_keep_def)
  then have l: "length (am_requests m') = length (am_requests m)" by (rule map_eq_imp_length_eq)
  have "rq_fixed (am_requests m' ! i) = rq_fixed (am_requests m ! i)" if "i < length (am_requests m)" for i
    using arg_cong [OF c, of "\<lambda>xs. xs ! i"] that l by (intro rq_core_fixed) simp
  then have "map rq_fixed (am_requests m') = map rq_fixed (am_requests m)"
    using l by (intro nth_equalityI) simp_all
  then show ?thesis by (simp add: fixed_keep_def)
qed

lemma fixed_keep_StopRequest: "fixed_keep m (snd (StopRequest e c k m))"
proof (cases "\<exists>r \<in> set (am_pending m). rq_id (req m r) = k")
  case True
  have "fixed_keep m (snd (StopPendingRequest k m))"
    unfolding StopPendingRequest_def Let_def
    by (simp, rule fixed_keep_fold) (simp_all add: fixed_keep_def rq_fixed_def)
  with True show ?thesis by (simp add: StopRequest_pending)
next
  case False
  then have none: "\<forall>r \<in> set (am_pending m). rq_id (req m r) \<noteq> k" by blast
  show ?thesis
  proof (cases "find_ctx k m")
    case None
    with none show ?thesis by (simp add: StopRequest_unknown)
  next
    case (Some i)
    obtain res m' where st: "StopRequest e c k m = (res, m')" by (cases "StopRequest e c k m")
    from StopRequest_result [OF none Some st] show ?thesis
    proof (elim disjE conjE)
      assume "ops_keep m m'"
      with st show ?thesis by (simp add: ctx_keep_fixed ops_keep_ctx_keep)
    next
      assume "stopped i m m'"
      then obtain m1 where m1: "ops_keep m m1" "ops_keep ((FinishRequest i m1)\<lparr>am_unfinished := am_unfinished m1 - 1\<rparr>) m'"
        by (auto simp: stopped_def)
      have "fixed_keep m m1" using m1(1) by (simp add: ctx_keep_fixed ops_keep_ctx_keep)
      then have f: "fixed_keep m ((FinishRequest i m1)\<lparr>am_unfinished := am_unfinished m1 - 1\<rparr>)"
        using fixed_keep_requests [OF fixed_keep_finish [of m m1 i]] by simp
      from fixed_keep_trans [OF f ctx_keep_fixed [OF ops_keep_ctx_keep [OF m1(2)]]] st show ?thesis by simp
    qed
  qed
qed

lemma fixed_keep_stop: "fixed_keep m0 m \<Longrightarrow> fixed_keep m0 (snd (StopRequest e c k m))"
  using fixed_keep_trans fixed_keep_StopRequest by blast

lemma fixed_keep_stop_finished: "fixed_keep m0 m \<Longrightarrow> fixed_keep m0 (snd (stop_finished e c n m))"
proof (induction n arbitrary: m)
  case (Suc n)
  have "fixed_keep m0 (snd (thenOk (StopRequest e c k m) (stop_finished e c n)))" for k
    by (rule fixed.I_thenOk) (simp_all add: fixed_keep_stop Suc)
  with Suc show ?case by (simp add: with_ctx_def)
qed simp

lemma fixed_keep_guarded: "fixed_keep m0 m \<Longrightarrow> fixed_keep m0 (snd (run_context_guarded e c r m))"
proof -
  assume m: "fixed_keep m0 m"
  obtain res s where rd: "runDecoderContext e c m = (res, s)" by (cases "runDecoderContext e c m")
  have s: "fixed_keep m0 s" using fixed.I_runDecoderContext [OF m, of e c] rd by simp
  have "fixed_keep m0 (snd (andThen (StopRequest e c (rq_id (req s r)) s) (\<lambda>_ m2.
      (Inl StdException :: exn + unit, upd_req r (\<lambda>q. q\<lparr>rq_status := GenerateInterrupted\<rparr>) m2))))"
    by (rule fixed.I_andThen) (simp_all add: fixed_keep_stop s fixed_keep_upd_req rq_fixed_def)
  with rd s show ?thesis by (cases res) (simp_all add: run_context_guarded_def)
qed

lemma fixed_keep_StartRequest: "fixed_keep m0 m \<Longrightarrow> fixed_keep m0 (snd (StartRequest e c r m))"
proof -
  assume m: "fixed_keep m0 m"
  have body: "fixed_keep m0 (snd (start_body e c r batch s))" if "fixed_keep m0 s" for batch s
    unfolding start_body_def
    by (intro fixed.I_checkStatus fixed.I_thenOk fixed.I_andThen)
      (auto intro!: fixed.I_init_layers fixed.I_start_inputs fixed_keep_guarded fixed.I_insert_prefix fixed.I_reshape_topo
        fixed_keep_stop_finished fixed_keep_upd_req that fixed.I_flags simp: rq_fixed_def stop_all_finished_def)
  have stop: "fixed_keep m0 (snd (andThen (StopRequest e c (rq_id (req m r)) m) (\<lambda>_ m.
      ret ALLSPARK_LORA_NOT_FOUND (upd_req r (\<lambda>q. q\<lparr>rq_status := GenerateFinished, rq_finish := True\<rparr>) m))))"
    by (rule fixed.I_andThen) (simp_all add: fixed_keep_stop m fixed_keep_upd_req rq_fixed_def)
  have push: "fixed_keep m0 (PushBackGenCtx g m)" for g
    by (rule fixed_keep_requests [OF m]) (simp add: PushBackGenCtx_def)
  show ?thesis
    unfolding StartRequest_body
    by (rule buildGenContext_cases [of c r m]) (simp_all add: stop m body push)
qed

section \<open>Every successful context takes a request from the queue\<close>

lemma set_pending_start:
  assumes "fits n m" "am_pending m = r # rest"
  shows "set (am_pending (snd (StartRequest e c r (m\<lparr>am_pending := rest\<rparr>)))) \<subseteq> set rest"
proof -
  note p = fits_pop [OF assms]
  have "admits r (m\<lparr>am_pending := rest\<rparr>) (snd (StartRequest e c r (m\<lparr>am_pending := rest\<rparr>)))"
    using p by (intro StartRequest_admits) (simp_all add: fits_def running_def)
  then show ?thesis by (simp add: admits_def)
qed

lemma prefill_finish_pending:
  assumes "fits n m" "am_pending m = r # rest"
    "andThen (StartRequest e c r (m\<lparr>am_pending := tl (am_pending m)\<rparr>)) (\<lambda>_ m.
       ret () (upd_req r (\<lambda>q. q\<lparr>rq_prefill_chunk_len := rq_input_len q\<rparr>) m)) = (Inr (), m')"
  shows "set (am_pending m') \<subseteq> set rest"
proof -
  obtain st m1 where "StartRequest e c r (m\<lparr>am_pending := rest\<rparr>) = (Inr st, m1)"
    "m' = upd_req r (\<lambda>q. q\<lparr>rq_prefill_chunk_len := rq_input_len q\<rparr>) m1"
    using assms(2,3) by auto
  with set_pending_start [OF assms(1,2), of e c] show ?thesis by simp
qed

lemma PrefillChunkRequest_pending:
  assumes "fits n m" "am_pending m = r # rest" "PrefillChunkRequest e c r m = (Inr (), m')"
  shows "set (am_pending m') \<subseteq> set rest \<or> rq_prefill_chunk_len (req m' r) < rq_input_len (req m' r)"
proof (cases "contains ''warmup'' (rq_id (req m r))")
  case True
  with assms(3) have "set (am_pending m') \<subseteq> set rest"
    by (intro prefill_finish_pending [OF assms(1,2)]) (simp add: PrefillChunkRequest_def Let_def)
  then show ?thesis ..
next
  case no_warmup: False
  let ?len = "rq_prefill_chunk_len (req m r) + mc_max_prefill_length c + 1"
  show ?thesis
  proof (cases "?len \<ge> rq_input_len (req m r)")
    case True
    with no_warmup assms(3) obtain p where p: "map_at (rq_inputs (req m r)) ''input_ids'' = Inr p"
      by (cases "map_at (rq_inputs (req m r)) ''input_ids''") (simp_all add: PrefillChunkRequest_def Let_def liftE_def)
    let ?m = "upd_tensor p (tt_SetShape [1, rq_origin_len (req m r)] (tensor m p)) m"
    have "fits n ?m" "am_pending ?m = r # rest" using assms(1,2) by (simp_all add: upd_tensor_def)
    moreover have "andThen (StartRequest e c r (?m\<lparr>am_pending := tl (am_pending ?m)\<rparr>)) (\<lambda>_ m.
       ret () (upd_req r (\<lambda>q. q\<lparr>rq_prefill_chunk_len := rq_input_len q\<rparr>) m)) = (Inr (), m')"
      using True no_warmup assms(3) p by (simp add: PrefillChunkRequest_def Let_def liftE_def del: andThen_eq_ret)
    ultimately have "set (am_pending m') \<subseteq> set rest" by (rule prefill_finish_pending)
    then show ?thesis ..
  next
    case False
    have r: "r < length (am_requests m)" using assms(1,2) by (simp add: fits_def model_inv_def)
    obtain q ts st m1 where st: "StartRequest e c (length (am_requests m)) (m\<lparr>am_requests := am_requests m @ [q], am_tensors := ts\<rparr>)
        = (Inr st, m1)" and m': "m' = upd_req r (\<lambda>q. q\<lparr>rq_prefill_chunk_len := ?len - 1\<rparr>) m1"
      using False no_warmup assms(3)
      by (cases "map_at (rq_inputs (req m r)) ''input_ids''")
        (auto simp: PrefillChunkRequest_def Let_def liftE_def new_req_def upd_tensor_def)
    have "fixed_keep m (m\<lparr>am_requests := am_requests m @ [q], am_tensors := ts\<rparr>)" by (simp add: fixed_keep_def)
    then have f: "fixed_keep m m1" using fixed_keep_StartRequest [of m _ e c "length (am_requests m)"] st by (metis snd_conv)
    have "rq_input_len (req m1 r) = rq_input_len (req m r)" "r < length (am_requests m1)"
      using fixed_keep_at [OF f r] by (simp_all add: rq_fixed_def)
    then show ?thesis using m' False by (simp add: upd_req_def)
  qed
qed

lemma pending_shorter:
  assumes "fits n m" "am_pending m = r # rest" "set (am_pending m') \<subseteq> set rest" "fits k m'"
  shows "length (am_pending m') < length (am_pending m)"
proof -
  have d: "distinct (am_pending m')" "distinct (am_pending m)" using assms(1,4) by (auto simp: fits_def model_inv_def)
  have "length (am_pending m') = card (set (am_pending m'))" using d by (simp add: distinct_card)
  also have "\<dots> \<le> card (set rest)" by (rule card_mono) (use assms(3) in auto)
  also have "\<dots> \<le> length rest" by (rule card_length)
  finally show ?thesis using assms(2) by simp
qed

lemma GenerateContinueContext_consumes:
  assumes "fits n m" "mc_max_batch c \<le> int n" "GenerateContinueContext e c b m = (Inr ALLSPARK_SUCCESS, m')"
  shows "length (am_pending m') < length (am_pending m)"
proof -
  let ?m = "if b then m\<lparr>am_already_context_length := 0\<rparr> else m"
  have m: "fits n ?m" and pm: "am_pending ?m = am_pending m" using assms(1) by simp_all
  have m': "fits n m'" using GenerateContinueContext_fits [OF assms(1,2), of e b] assms(3) by simp
  obtain r rest where p: "am_pending ?m = r # rest"
    using assms(3) by (cases "am_pending ?m") (auto simp: GenerateContinueContext_def Let_def)
  have "set (am_pending m') \<subseteq> set rest"
  proof (cases "mc_device c = CUDA \<and> mc_frame_manager c")
    case False
    then obtain st m1 where "StartRequest e c r (?m\<lparr>am_pending := rest\<rparr>) = (Inr st, m1)" "m' = store_unfinished m1"
      using assms(3) p unfolding GenerateContinueContext_def Let_def
      by (simp only: p list.case list.sel if_False simp_thms split: if_splits) auto
    with set_pending_start [OF m p, of e c] show ?thesis by (simp add: store_unfinished_def)
  next
    case True
    obtain res m1 where ad: "admission_frames e c r ?m = (res, m1)" by (cases "admission_frames e c r ?m")
    have sk: "sched_keep ?m m1" using admission_frames_keep [OF sched_keep_refl, of ?m e c r] ad by simp
    have m1: "fits n m1" using fits_sched_keep [OF m sk] .
    have p1: "am_pending m1 = r # rest" using sk p by (simp add: sched_keep_def)
    have "andThen (res, m1) (\<lambda>(st, need) m.
            if \<not> (st = ALLSPARK_SUCCESS \<or> st = ALLSPARK_STREAMING) then ret st m
            else if need \<le> cfm_CountFreeFrame (frame_mgr m) then
              andThen (PrefillChunkRequest e c r m) (\<lambda>_ m.
              let m = store_unfinished m; q = req m r in
              if rq_prefill_chunk_len q \<noteq> rq_input_len q then ret ALLSPARK_CHUNK_PREFILL m
              else ret ALLSPARK_SUCCESS (m\<lparr>am_already_context_length := am_already_context_length m + rq_input_len q\<rparr>))
            else
              ret ALLSPARK_EMPTY_REQUEST (store_unfinished
                (upd_req r (\<lambda>q. q\<lparr>rq_finish := True, rq_status := GenerateInterrupted\<rparr>)
                  (m\<lparr>am_pending := tl (am_pending m)\<rparr>)))) = (Inr ALLSPARK_SUCCESS, m')"
      using assms(3) p True ad unfolding GenerateContinueContext_def Let_def
      by (simp only: p list.case if_True simp_thms split: if_splits) auto
    then obtain m2 where pc: "PrefillChunkRequest e c r m1 = (Inr (), m2)"
      and full: "rq_prefill_chunk_len (req m2 r) = rq_input_len (req m2 r)"
      and m'2: "am_pending m' = am_pending m2"
      by (cases res) (auto simp: Let_def store_unfinished_def split: if_splits prod.splits)
    from PrefillChunkRequest_pending [OF m1 p1 pc] full m'2 show ?thesis by simp
  qed
  from pending_shorter [OF m p this m'] pm show ?thesis by simp
qed

section \<open>The invariant\<close>

definition batch_max :: "engine_cfg \<Rightarrow> nat" where
  "batch_max c = nat (mc_max_batch (ec_model c))"

definition maps_agree :: "(string \<times> request_handle) list \<Rightarrow> (string \<times> result_queue) list \<Rightarrow> bool" where
  "maps_agree hs qs \<longleftrightarrow>
     wf_map hs \<and> wf_map qs \<and> (\<forall>k. map_of hs k = None \<longleftrightarrow> map_of qs k = None) \<and>
     (\<forall>k h. map_of hs k = Some h \<longrightarrow> rh_uuid h = k)"

definition start_ok :: "control_message \<Rightarrow> bool" where
  "start_ok msg \<longleftrightarrow>
     (cm_msg msg = StartRequestMsg \<longrightarrow>
        (\<exists>h q g. cm_handle msg = Some h \<and> cm_queue msg = Some q \<and> cm_config msg = Some g \<and> rh_uuid h = cm_uuid msg))"

definition engine_inv :: "engine_cfg \<Rightarrow> ('d, 'm, 'x) engine \<Rightarrow> bool" where
  "engine_inv c eg \<longleftrightarrow>
     eg_workers eg \<noteq> [] \<and> (\<forall>m \<in> set (eg_workers eg). fits (batch_max c) m) \<and>
     maps_agree (eg_handles eg) (eg_queues eg) \<and> (\<forall>msg \<in> set (eg_msg_queue eg). start_ok msg) \<and>
     (eg_synchronizing eg \<longrightarrow> eg_deferred eg \<noteq> None) \<and> (eg_graceful_stop eg \<longrightarrow> eg_stop_promise eg \<noteq> None)"

lemma engine_inv_others [simp]:
  "engine_inv c (eg\<lparr>eg_promises := ps\<rparr>) = engine_inv c eg"
  "engine_inv c (eg\<lparr>eg_waiting := w\<rparr>) = engine_inv c eg"
  "engine_inv c (eg\<lparr>eg_lora_use_count := n\<rparr>) = engine_inv c eg"
  "engine_inv c (eg\<lparr>eg_loras_in_use := l\<rparr>) = engine_inv c eg"
  "engine_inv c (eg\<lparr>eg_prefill_token := i\<rparr>) = engine_inv c eg"
  "engine_inv c (eg\<lparr>eg_generated_token := i\<rparr>) = engine_inv c eg"
  "engine_inv c (eg\<lparr>eg_looping := b\<rparr>) = engine_inv c eg"
  "engine_inv c (eg\<lparr>eg_no_execution := b\<rparr>) = engine_inv c eg"
  "engine_inv c (eg\<lparr>eg_asleep := b\<rparr>) = engine_inv c eg"
  "engine_inv c (eg\<lparr>eg_final_released := b\<rparr>) = engine_inv c eg"
  "engine_inv c (eg\<lparr>eg_model_stopping := b\<rparr>) = engine_inv c eg"
  "engine_inv c (eg\<lparr>eg_model_stopped := b\<rparr>) = engine_inv c eg"
  "engine_inv c (eg\<lparr>eg_sync_pending := xs\<rparr>) = engine_inv c eg"
  "engine_inv c (set_promise p st eg) = engine_inv c eg"
  by (simp_all add: engine_inv_def set_promise_def)

lemma maps_agree_handle: "maps_agree hs qs \<Longrightarrow> map_of hs k \<noteq> None \<Longrightarrow> rh_uuid h = k \<Longrightarrow> maps_agree (AList.update k h hs) qs"
  by (auto simp: maps_agree_def)

lemma maps_agree_queue: "maps_agree hs qs \<Longrightarrow> map_of qs k \<noteq> None \<Longrightarrow> maps_agree hs (AList.update k q qs)"
  by (auto simp: maps_agree_def)

lemma maps_agree_insert: "maps_agree hs qs \<Longrightarrow> rh_uuid h = k \<Longrightarrow> maps_agree (map_insert k h hs) (map_insert k q qs)"
  by (auto simp: maps_agree_def map_insert_def simp del: map_of_eq_Some_iff split: option.split)

lemma maps_agree_delete: "maps_agree hs qs \<Longrightarrow> maps_agree (AList.delete k hs) (AList.delete k qs)"
  by (auto simp: maps_agree_def)

lemma set_fields [simp]:
  "eg_handles (set_queue k q eg) = eg_handles eg" "eg_workers (set_queue k q eg) = eg_workers eg"
  "map_of (eg_queues (set_queue k q eg)) = (map_of (eg_queues eg))(k \<mapsto> q)"
  "eg_queues (set_handle k h eg) = eg_queues eg" "eg_workers (set_handle k h eg) = eg_workers eg"
  "map_of (eg_handles (set_handle k h eg)) = (map_of (eg_handles eg))(k \<mapsto> h)"
  "eg_handles (set_rank0 m eg) = eg_handles eg" "eg_queues (set_rank0 m eg) = eg_queues eg"
  by (simp_all add: set_queue_def set_handle_def set_rank0_def)

lemma set_handle_inv: "engine_inv c eg \<Longrightarrow> map_of (eg_handles eg) k \<noteq> None \<Longrightarrow> rh_uuid h = k \<Longrightarrow> engine_inv c (set_handle k h eg)"
  by (simp add: engine_inv_def set_handle_def maps_agree_handle)

lemma set_queue_inv: "engine_inv c eg \<Longrightarrow> map_of (eg_queues eg) k \<noteq> None \<Longrightarrow> engine_inv c (set_queue k q eg)"
  by (simp add: engine_inv_def set_queue_def maps_agree_queue)

lemma set_rank0_inv: "engine_inv c eg \<Longrightarrow> fits (batch_max c) m \<Longrightarrow> engine_inv c (set_rank0 m eg)"
  by (auto simp: engine_inv_def set_rank0_def dest!: set_update_subset_insert [THEN subsetD])

lemma updateSyncStatus_inv [simp]: "engine_inv c (updateSyncStatus k eg) = engine_inv c eg"
  by (simp add: updateSyncStatus_def)

lemma lora_release_inv [simp]: "engine_inv c (lora_release l eg) = engine_inv c eg"
  by (simp add: lora_release_def engine_inv_def split: option.split)

section \<open>Work for all ranks keeps it\<close>

lemma on_ranks_snd: "snd (on_ranks f ms) = map (\<lambda>i. snd (f i (ms ! i))) [0..<length ms]"
  by (simp add: on_ranks_def Let_def)

lemma ranks_call_snd: "snd (ranks_call f j eg) = eg\<lparr>eg_workers := snd (on_ranks f (eg_workers eg))\<rparr>"
  by (simp add: ranks_call_def split: prod.split)

lemma ranks_call_inv:
  assumes "engine_inv c eg" "\<And>i m. fits (batch_max c) m \<Longrightarrow> fits (batch_max c) (snd (f i m))"
  shows "engine_inv c (snd (ranks_call f j eg))"
  using assms unfolding engine_inv_def ranks_call_snd on_ranks_snd by auto

definition but_ranks :: "('d, 'm, 'x) engine \<Rightarrow> ('d, 'm, 'x) engine \<Rightarrow> bool" where
  "but_ranks eg eg' \<longleftrightarrow> eg\<lparr>eg_workers := []\<rparr> = eg'\<lparr>eg_workers := []\<rparr>"

lemma but_ranks_refl [simp]: "but_ranks eg eg" by (simp add: but_ranks_def)

lemma but_ranks_trans: "but_ranks a b \<Longrightarrow> but_ranks b d \<Longrightarrow> but_ranks a d" by (simp add: but_ranks_def)

lemma but_ranks_call [simp]: "but_ranks eg (snd (ranks_call f j eg))"
  by (simp add: but_ranks_def ranks_call_snd)

lemma but_ranks_fields:
  "but_ranks eg eg' \<Longrightarrow> eg_handles eg' = eg_handles eg \<and> eg_queues eg' = eg_queues eg \<and> eg_msg_queue eg' = eg_msg_queue eg \<and>
   eg_sync_pending eg' = eg_sync_pending eg \<and> eg_synchronizing eg' = eg_synchronizing eg \<and> eg_promises eg' = eg_promises eg \<and>
   eg_graceful_stop eg' = eg_graceful_stop eg \<and> eg_deferred eg' = eg_deferred eg \<and> eg_stop_promise eg' = eg_stop_promise eg \<and>
   eg_looping eg' = eg_looping eg \<and> eg_model_stopping eg' = eg_model_stopping eg \<and> eg_no_execution eg' = eg_no_execution eg"
  by (cases eg; cases eg') (simp add: but_ranks_def)

lemma batch_max_rank: "mc_max_batch (rank_cfg c i) \<le> int (batch_max c)"
  by (simp add: rank_cfg_def batch_max_def)

lemma RunTextGenerationContext_inv: "engine_inv c eg \<Longrightarrow> engine_inv c (snd (RunTextGenerationContext e c b eg))"
  by (auto simp: RunTextGenerationContext_def intro!: ranks_call_inv GenerateContinueContext_fits batch_max_rank)

lemma RunTextGenerationContext_but: "but_ranks eg (snd (RunTextGenerationContext e c b eg))"
  by (simp add: RunTextGenerationContext_def)

lemma RunTextGenerationContinue_inv: "engine_inv c eg \<Longrightarrow> engine_inv c (snd (RunTextGenerationContinue e c eg))"
  unfolding RunTextGenerationContinue_def
  by (auto intro!: snd_thenOk [where J = "engine_inv c"] ranks_call_inv AllocDecoderMemory_fits GenerateContinueDecoder_fits
      simp: GenerateContinue_def)

lemma RunTextGenerationContinue_but: "but_ranks eg (snd (RunTextGenerationContinue e c eg))"
  unfolding RunTextGenerationContinue_def
  by (auto intro!: snd_thenOk [where J = "but_ranks eg"] intro: but_ranks_trans)

lemma StopRequest_fits: "fits n m \<Longrightarrow> fits n (snd (StopRequest e c k m))"
  using fits_shrinks StopRequest_shrinks [of m e c k] by (auto simp: fits_def)

lemma StopRequestByRequestID_inv: "engine_inv c eg \<Longrightarrow> engine_inv c (snd (StopRequestByRequestID e c k eg))"
  by (auto simp: StopRequestByRequestID_def intro!: ranks_call_inv StopRequest_fits)

lemma StopRequestByRequestID_but: "but_ranks eg (snd (StopRequestByRequestID e c k eg))"
  by (simp add: StopRequestByRequestID_def)

lemma ReleaseRequestByRequestID_inv: "engine_inv c eg \<Longrightarrow> engine_inv c (snd (ReleaseRequestByRequestID c k eg))"
  by (auto simp: ReleaseRequestByRequestID_def ReleaseRequest_def fits_def model_inv_def running_def intro!: ranks_call_inv)

lemma ReleaseRequestByRequestID_but: "but_ranks eg (snd (ReleaseRequestByRequestID c k eg))"
  by (simp add: ReleaseRequestByRequestID_def)

lemma place_tensors_model: "\<exists>xs. snd (place_tensors ts m) = m\<lparr>am_tensors := am_tensors m @ xs\<rparr>"
proof (induction ts arbitrary: m)
  case (Cons t ts)
  obtain xs where "snd (place_tensors ts (m\<lparr>am_tensors := am_tensors m @ [snd t]\<rparr>)) = m\<lparr>am_tensors := am_tensors m @ snd t # xs\<rparr>"
    using Cons.IH [of "m\<lparr>am_tensors := am_tensors m @ [snd t]\<rparr>"] by auto
  then show ?case by (cases t) (auto simp: new_tensor_def split: prod.split)
qed (auto intro: exI [of _ "[]"])

lemma place_tensors_fits: "fits n m \<Longrightarrow> fits n (snd (place_tensors ts m))"
  using place_tensors_model [of ts m] by auto

lemma StartRequestImpl_inv: "engine_inv c eg \<Longrightarrow> engine_inv c (snd (StartRequestImpl e c h cfg eg))"
proof -
  have "fits n (snd (rank_start e' c h cfg m))" if "fits n m" for n e' and m :: "('a, 'b, 'c) as_model"
  proof -
    obtain ins m1 where i: "place_tensors (rh_inputs h) m = (ins, m1)" by (cases "place_tensors (rh_inputs h) m")
    let ?ts = "[(''generated_ids_global'', tt_new ''generated_ids_global'' CPU [1, ec_max_length c])]"
    obtain outs m2 where o: "place_tensors ?ts m1 = (outs, m2)" by (cases "place_tensors ?ts m1")
    have "fits n m2" using place_tensors_fits [OF place_tensors_fits [OF that], of ?ts "rh_inputs h"] i o by simp
    from fits_queue [OF this] show ?thesis unfolding rank_start_def i o prod.case by simp
  qed
  then show "engine_inv c eg \<Longrightarrow> ?thesis" unfolding StartRequestImpl_def by (auto intro!: ranks_call_inv)
qed

lemma StartRequestImpl_but: "but_ranks eg (snd (StartRequestImpl e c h cfg eg))"
  by (simp add: StartRequestImpl_def)

section \<open>Handing out results keeps it\<close>

lemma FetchGenerationResult_uuid:
  "FetchGenerationResult lp q t h rq = Inr (ele, q', h', rq') \<Longrightarrow> rh_uuid h' = rh_uuid h"
  by (auto simp: FetchGenerationResult_def Let_def split: if_splits option.splits)

lemma engine_inv_entry:
  assumes "engine_inv c eg" "map_of (eg_handles eg) k = Some h"
  shows "rh_uuid h = k" "map_of (eg_queues eg) k \<noteq> None"
proof -
  have a: "maps_agree (eg_handles eg) (eg_queues eg)" using assms(1) by (simp add: engine_inv_def)
  show "rh_uuid h = k" using a assms(2) unfolding maps_agree_def by blast
  have "(map_of (eg_handles eg) k = None) = (map_of (eg_queues eg) k = None)" using a unfolding maps_agree_def by blast
  with assms(2) show "map_of (eg_queues eg) k \<noteq> None" by simp
qed

lemma engine_inv_hd: "engine_inv c eg \<Longrightarrow> fits (batch_max c) (hd (eg_workers eg))"
  by (auto simp: engine_inv_def)

lemma set_both_inv:
  "engine_inv c s \<Longrightarrow> map_of (eg_handles s) k \<noteq> None \<Longrightarrow> map_of (eg_queues s) k \<noteq> None \<Longrightarrow> rh_uuid h = k \<Longrightarrow>
   engine_inv c (set_handle k h (set_queue k q s))"
  by (intro set_handle_inv set_queue_inv) simp_all

lemma begin_update_inv:
  assumes "engine_inv c eg" "map_of (eg_handles eg) key = Some h" "begin_update key h q rq eg = (h1, q1, eg1)"
  shows "engine_inv c eg1" "map_of (eg_handles eg1) key = Some h1" "map_of (eg_queues eg1) key = Some q1"
    "eg_workers eg1 = eg_workers eg" "rh_uuid h1 = key"
proof -
  note key = engine_inv_entry [OF assms(1,2)]
  from assms key show "engine_inv c eg1" "map_of (eg_handles eg1) key = Some h1"
    "map_of (eg_queues eg1) key = Some q1" "eg_workers eg1 = eg_workers eg" "rh_uuid h1 = key"
    by (auto simp: begin_update_def Let_def intro!: set_both_inv split: if_splits)
qed

lemma deliver_inv:
  assumes "engine_inv c eg" "map_of (eg_handles eg) key \<noteq> None" "rh_uuid h = key"
  shows "engine_inv c (deliver key r ele rq h q eg)"
proof -
  have k: "map_of (eg_queues eg) key \<noteq> None" using assms(1,2) engine_inv_entry(2) by blast
  have "engine_inv c (set_queue key q' (set_rank0 (upd_req r (\<lambda>_. rq) (hd (eg_workers eg))) (set_handle key h s)))"
    if "engine_inv c s" "eg_handles s = eg_handles eg" "eg_queues s = eg_queues eg" for q' s
    using that assms(2,3) k engine_inv_hd [OF assms(1)] by (intro set_queue_inv set_rank0_inv set_handle_inv fits_upd_req) simp_all
  with assms show ?thesis by (simp add: deliver_def Let_def split: option.split)
qed

lemma update_running_inv:
  assumes "engine_inv c eg" "map_of (eg_handles eg) key = Some h"
  shows "engine_inv c (snd (update_running lp key h q r eg))"
proof -
  let ?m = "hd (eg_workers eg)"
  obtain h1 q1 eg1 where b: "begin_update key h q (req ?m r) eg = (h1, q1, eg1)" by (cases "begin_update key h q (req ?m r) eg")
  note inv1 = begin_update_inv [OF assms b]
  have "engine_inv c (snd (andThen (FetchGenerationResult lp (req ?m r) t h1 q1, eg1) (\<lambda>(ele, rq, h, q) eg.
      ret () (deliver key r ele rq h q eg))))" for t
  proof (cases "FetchGenerationResult lp (req ?m r) t h1 q1")
    case (Inr x)
    obtain ele rq h2 q2 where x: "x = (ele, rq, h2, q2)" by (cases x)
    have "rh_uuid h2 = key" using FetchGenerationResult_uuid Inr x inv1(5) by simp
    from deliver_inv [OF inv1(1) _ this] inv1(2) Inr x show ?thesis by simp
  qed (use inv1(1) in simp)
  then show ?thesis using b inv1(1)
    by (cases "map_at (rq_outputs (req ?m r)) ''generated_ids_global''") (simp_all add: update_running_def Let_def liftE_def)
qed

lemma update_entry_inv: "engine_inv c eg \<Longrightarrow> engine_inv c (snd (update_entry lp key eg))"
proof -
  assume inv: "engine_inv c eg"
  show ?thesis
  proof (cases "map_of (eg_handles eg) key")
    case (Some h)
    note key = engine_inv_entry [OF inv Some]
    then obtain q where q: "map_of (eg_queues eg) key = Some q" by blast
    have r: "engine_inv c (snd (update_running lp key h q r eg))" for r by (rule update_running_inv [OF inv Some])
    show ?thesis
      using Some q key inv r set_queue_inv [OF inv key(2)]
      by (auto simp: update_entry_def Let_def simp del: map_of_eq_Some_iff split: option.split)
  qed (use inv in \<open>simp add: update_entry_def\<close>)
qed

lemma forEach_inv: "(\<And>x s. J s \<Longrightarrow> J (snd (f x s))) \<Longrightarrow> J s \<Longrightarrow> J (snd (forEach f xs s))"
  by (induction xs arbitrary: s) (auto intro: snd_andThen [where J = J])

lemma UpdateResult_inv: "engine_inv c eg \<Longrightarrow> engine_inv c (snd (UpdateResult lp eg))"
  unfolding UpdateResult_def by (rule forEach_inv [where J = "engine_inv c"]) (rule update_entry_inv)

end
