(* ===== verification/Engine_Rounds.thy ===== *)
theory Engine_Rounds
  imports Engine_Invariant
begin

text \<open>
  The loops of the engine's thread end, and every round and every call of the user keeps the invariant.
\<close>

section \<open>The context loop ends\<close>

lemma on_ranks_fst: "fst (on_ranks f ms) = map (\<lambda>i. fst (f i (ms ! i))) [0..<length ms]"
  by (simp add: on_ranks_def Let_def)

lemma join_ranks_success:
  "join_ranks (\<lambda>st. st = ALLSPARK_SUCCESS) failed rs = Inr ALLSPARK_SUCCESS \<Longrightarrow>
   failed = ALLSPARK_SUCCESS \<and> (\<forall>r \<in> set rs. r = Inr ALLSPARK_SUCCESS)"
  by (induction "\<lambda>st. st = ALLSPARK_SUCCESS" failed rs rule: join_ranks.induct) (auto split: if_splits)

lemma task_status_success: "task_status r = Inr ALLSPARK_SUCCESS \<Longrightarrow> r = Inr ALLSPARK_SUCCESS"
  by (cases r) (auto simp: task_status_def split: if_splits)

lemma RunTextGenerationContext_consumes:
  assumes "engine_inv c eg" "RunTextGenerationContext e c b eg = (Inr ALLSPARK_SUCCESS, eg')"
  shows "length (am_pending (hd (eg_workers eg'))) < length (am_pending (hd (eg_workers eg)))"
proof -
  let ?f = "\<lambda>i. GenerateContinueContext (e i) (rank_cfg c i) b" and ?ms = "eg_workers eg"
  have ne: "?ms \<noteq> []" and m0: "fits (batch_max c) (hd ?ms)" using assms(1) by (auto simp: engine_inv_def)
  have r: "ranks_call ?f (\<lambda>rs. join_ranks (\<lambda>st. st = ALLSPARK_SUCCESS) ALLSPARK_SUCCESS (map task_status rs)) eg
      = (Inr ALLSPARK_SUCCESS, eg')"
    using assms(2) by (simp add: RunTextGenerationContext_def split: if_splits)
  then have "join_ranks (\<lambda>st. st = ALLSPARK_SUCCESS) ALLSPARK_SUCCESS (map task_status (fst (on_ranks ?f ?ms))) = Inr ALLSPARK_SUCCESS"
    by (simp add: ranks_call_def split: prod.splits)
  from join_ranks_success [OF this] have "\<forall>r \<in> set (fst (on_ranks ?f ?ms)). r = Inr ALLSPARK_SUCCESS"
    by (auto dest: task_status_success)
  moreover have "fst (?f 0 (?ms ! 0)) \<in> set (fst (on_ranks ?f ?ms))"
    using ne by (auto simp: on_ranks_fst intro!: image_eqI [of _ _ 0])
  ultimately have ok: "fst (?f 0 (hd ?ms)) = Inr ALLSPARK_SUCCESS" using ne by (simp add: hd_conv_nth)
  have "eg_workers eg' = snd (on_ranks ?f ?ms)"
    using arg_cong [OF r, of snd] by (auto simp: ranks_call_snd)
  then have "hd (eg_workers eg') = snd (?f 0 (hd ?ms))"
    using ne by (simp add: on_ranks_snd hd_conv_nth)
  moreover have "?f 0 (hd ?ms) = (Inr ALLSPARK_SUCCESS, snd (?f 0 (hd ?ms)))" using ok by (metis prod.collapse)
  ultimately show ?thesis using GenerateContinueContext_consumes [OF m0 batch_max_rank] by metis
qed

text \<open>What all runs of a loop have in common: they end, keep the invariant and touch the ranks only.\<close>

lemma context_loop_ends:
  "engine_inv c eg \<Longrightarrow> \<exists>r eg'. context_loop e c n eg = Some (r, eg') \<and> engine_inv c eg' \<and> but_ranks eg eg'"
proof (induction "length (am_pending (hd (eg_workers eg)))" arbitrary: n eg rule: less_induct)
  case less
  obtain r eg1 where run: "RunTextGenerationContext (e n) c (n = 0) eg = (r, eg1)"
    by (cases "RunTextGenerationContext (e n) c (n = 0) eg")
  have inv: "engine_inv c eg1" and but: "but_ranks eg eg1"
    using RunTextGenerationContext_inv [OF less.prems, of "e n" "n = 0"] RunTextGenerationContext_but [of eg "e n" c "n = 0"] run
    by simp_all
  show ?case
  proof (cases "r = Inr ALLSPARK_SUCCESS")
    case True
    then have "length (am_pending (hd (eg_workers eg1))) < length (am_pending (hd (eg_workers eg)))"
      using RunTextGenerationContext_consumes [OF less.prems] run by simp
    from less.hyps [OF this inv] obtain r' eg' where "context_loop e c (Suc n) eg1 = Some (r', eg')"
      "engine_inv c eg'" "but_ranks eg1 eg'" by blast
    moreover from this have "context_loop e c n eg = Some (r', eg')"
      using run True by (subst context_loop.simps) simp
    ultimately show ?thesis using but but_ranks_trans by blast
  next
    case False
    have "\<exists>r'. context_loop e c n eg = Some (r', eg1)"
      using run False by (subst context_loop.simps) (cases r, auto)
    then show ?thesis using inv but by blast
  qed
qed

lemma RunEngineContext_keeps:
  assumes "engine_inv c eg"
  shows "engine_inv c (snd (RunEngineContext e c eg))"
    "but_ranks eg (snd (RunEngineContext e c eg))"
  using context_loop_ends [OF assms, of e 0] RunTextGenerationContext_inv [OF assms, of "e 0" True]
    RunTextGenerationContext_but [of eg "e 0" c True]
  by (auto simp: RunEngineContext_def split: scheduling_strategy.split)

section \<open>What handing out results leaves alone\<close>

text \<open>The queue of a request says that it has ended.\<close>

definition ended :: "('d, 'm, 'x) engine \<Rightarrow> string \<Rightarrow> bool" where
  "ended eg k \<longleftrightarrow> (\<exists>q. map_of (eg_queues eg) k = Some q \<and> (rs_status q = GenerateFinished \<or> rs_status q = GenerateInterrupted))"

text \<open>Between two messages: only requests that have ended leave the set that a synchronisation waits for, and
  who has ended stays so.\<close>

definition hands_out :: "('d, 'm, 'x) engine \<Rightarrow> ('d, 'm, 'x) engine \<Rightarrow> bool" where
  "hands_out eg eg' \<longleftrightarrow>
     (\<forall>k. map_of (eg_handles eg') k = None \<longleftrightarrow> map_of (eg_handles eg) k = None) \<and>
     eg_msg_queue eg' = eg_msg_queue eg \<and> eg_synchronizing eg' = eg_synchronizing eg \<and> eg_deferred eg' = eg_deferred eg \<and>
     eg_graceful_stop eg' = eg_graceful_stop eg \<and> eg_stop_promise eg' = eg_stop_promise eg \<and> eg_looping eg' = eg_looping eg \<and>
     eg_promises eg' = eg_promises eg \<and> set (eg_sync_pending eg') \<subseteq> set (eg_sync_pending eg) \<and>
     (\<forall>k \<in> set (eg_sync_pending eg) - set (eg_sync_pending eg'). map_of (eg_handles eg) k \<noteq> None \<and> ended eg' k) \<and>
     (\<forall>k. ended eg k \<longrightarrow> ended eg' k)"

lemma hands_out_refl [simp, intro]: "hands_out eg eg" by (simp add: hands_out_def)

lemma hands_out_trans: "hands_out a b \<Longrightarrow> hands_out b d \<Longrightarrow> hands_out a d"
  unfolding hands_out_def by (elim conjE, intro conjI; (simp; fail | blast))

lemma hands_out_but: "but_ranks eg eg' \<Longrightarrow> hands_out eg eg'"
  by (drule but_ranks_fields) (simp add: hands_out_def ended_def)

lemma hands_out_queue:
  "(ended eg k \<Longrightarrow> rs_status q = GenerateFinished \<or> rs_status q = GenerateInterrupted) \<Longrightarrow> hands_out eg (set_queue k q eg)"
  by (auto simp: hands_out_def ended_def) (auto simp: set_queue_def)

lemma hands_out_handle: "map_of (eg_handles eg) k \<noteq> None \<Longrightarrow> hands_out eg (set_handle k h eg)"
  by (auto simp: hands_out_def ended_def) (auto simp: set_handle_def)

lemma hands_out_rank0: "hands_out eg (set_rank0 m eg)"
  by (simp add: hands_out_def ended_def set_rank0_def)

lemma hands_out_lora: "hands_out eg (lora_release l eg)"
  by (auto simp: hands_out_def ended_def lora_release_def split: option.split)

lemma hands_out_sync: "ended eg k \<Longrightarrow> map_of (eg_handles eg) k \<noteq> None \<Longrightarrow> hands_out eg (updateSyncStatus k eg)"
  by (auto simp: hands_out_def ended_def updateSyncStatus_def)

lemma begin_update_hands:
  assumes "engine_inv c eg" "map_of (eg_handles eg) key = Some h" "\<not> ended eg key" "begin_update key h q rq eg = (h1, q1, eg1)"
  shows "hands_out eg eg1"
proof -
  note key = engine_inv_entry [OF assms(1,2)]
  have "hands_out eg (set_handle key h' (set_queue key q' s))"
    if "s = eg \<or> s = eg\<lparr>eg_prefill_token := n\<rparr>" for h' q' s n
  proof -
    have "hands_out eg s" using that by (auto simp: hands_out_def ended_def)
    moreover have "hands_out s (set_queue key q' s)" using that assms(3) by (intro hands_out_queue) (auto simp: ended_def)
    moreover have "hands_out (set_queue key q' s) (set_handle key h' (set_queue key q' s))"
      using that assms(2) by (intro hands_out_handle) auto
    ultimately show ?thesis by (meson hands_out_trans)
  qed
  with assms(4) key(1) show ?thesis by (auto simp: begin_update_def Let_def split: if_splits)
qed

lemma deliver_hands:
  assumes "map_of (eg_handles eg) key \<noteq> None" "rh_uuid h = key" "\<not> ended eg key"
  shows "hands_out eg (deliver key r ele rq h q eg)"
proof -
  let ?s = "\<lambda>s. set_rank0 (upd_req r (\<lambda>_. rq) (hd (eg_workers eg))) (set_handle key h s)"
  have base: "hands_out eg (?s s)" "map_of (eg_handles (?s s)) key \<noteq> None" "\<not> ended (?s s) key"
    if "s = eg \<or> s = eg\<lparr>eg_generated_token := n\<rparr>" for s n
  proof -
    have "hands_out eg s" using that by (auto simp: hands_out_def ended_def)
    moreover have "hands_out s (set_handle key h s)" using that assms(1) by (intro hands_out_handle) auto
    ultimately show "hands_out eg (?s s)" by (meson hands_out_trans hands_out_rank0)
    show "map_of (eg_handles (?s s)) key \<noteq> None" "\<not> ended (?s s) key" using that assms(3) by (auto simp: ended_def)
  qed
  have stored: "hands_out eg (set_queue key q' (?s s))" if "s = eg \<or> s = eg\<lparr>eg_generated_token := n\<rparr>" for s n q'
    using base [OF that] hands_out_queue [of "?s s" key q'] hands_out_trans by blast
  have synced: "hands_out eg (updateSyncStatus key (set_queue key q' (?s s)))"
    if "s = eg \<or> s = eg\<lparr>eg_generated_token := n\<rparr>" "rs_status q' = GenerateFinished \<or> rs_status q' = GenerateInterrupted" for s n q'
  proof -
    have "ended (set_queue key q' (?s s)) key" using that(2) by (simp add: ended_def)
    moreover have "map_of (eg_handles (set_queue key q' (?s s))) key \<noteq> None" by simp
    ultimately show ?thesis using hands_out_sync stored [OF that(1)] hands_out_trans by blast
  qed
  have lora: "hands_out eg (if b then lora_release l s else s)" if "hands_out eg s" for b l s
    using that hands_out_trans [OF that hands_out_lora] by simp
  show ?thesis
    unfolding deliver_def Let_def assms(2)
    by (rule lora) (auto simp: SetStatus_def intro!: stored synced split: option.split)
qed

lemma update_entry_hands: "engine_inv c eg \<Longrightarrow> hands_out eg (snd (update_entry lp key eg))"
proof -
  assume inv: "engine_inv c eg"
  show ?thesis
  proof (cases "map_of (eg_handles eg) key")
    case (Some h)
    note key = engine_inv_entry [OF inv Some]
    then obtain q where q: "map_of (eg_queues eg) key = Some q" by blast
    have run: "hands_out eg (snd (update_running lp key h q r eg))" if ne: "\<not> ended eg key" for r
    proof -
      let ?m = "hd (eg_workers eg)"
      obtain h1 q1 eg1 where b: "begin_update key h q (req ?m r) eg = (h1, q1, eg1)" by (cases "begin_update key h q (req ?m r) eg")
      note i = begin_update_inv [OF inv Some b] and bh = begin_update_hands [OF inv Some ne b]
      have ne1: "\<not> ended eg1 key"
        using b i(3) ne q by (auto simp: ended_def begin_update_def Let_def SetStatus_def split: if_splits)
      have "hands_out eg (snd (andThen (FetchGenerationResult lp (req ?m r) t h1 q1, eg1) (\<lambda>(ele, rq, h, q) eg.
          ret () (deliver key r ele rq h q eg))))" for t
      proof (cases "FetchGenerationResult lp (req ?m r) t h1 q1")
        case (Inr x)
        obtain ele rq h2 q2 where x: "x = (ele, rq, h2, q2)" by (cases x)
        have "rh_uuid h2 = key" using FetchGenerationResult_uuid Inr x i(5) by simp
        from hands_out_trans [OF bh deliver_hands [OF _ this ne1]] i(2) Inr x show ?thesis by simp
      qed (use bh in simp)
      then show ?thesis using b bh
        by (cases "map_at (rq_outputs (req ?m r)) ''generated_ids_global''") (simp_all add: update_running_def Let_def liftE_def)
    qed
    show ?thesis
    proof (cases "ended eg key")
      case True
      then show ?thesis using Some q key by (auto simp: update_entry_def ended_def intro!: hands_out_sync)
    next
      case False
      let ?s = "set_queue key (SetStatus GenerateInterrupted q) eg"
      have "hands_out eg ?s" "ended ?s key" using False by (auto intro: hands_out_queue simp: ended_def SetStatus_def)
      then have "hands_out eg (updateSyncStatus key ?s)" using hands_out_sync Some hands_out_trans by fastforce
      with False Some q key run [OF False] show ?thesis
        by (auto simp: update_entry_def Let_def ended_def simp del: map_of_eq_Some_iff split: option.split)
    qed
  qed (simp add: update_entry_def)
qed

lemma UpdateResult_hands: "engine_inv c eg \<Longrightarrow> hands_out eg (snd (UpdateResult lp eg))"
proof -
  assume inv: "engine_inv c eg"
  have "(\<lambda>s. engine_inv c s \<and> hands_out eg s) (snd (forEach (update_entry lp) ks eg))" for ks
    by (rule forEach_inv) (use inv in \<open>auto intro: update_entry_inv hands_out_trans update_entry_hands\<close>)
  then show ?thesis by (simp add: UpdateResult_def)
qed

section \<open>The decoding loop ends\<close>

lemma longest_less: "x < length lens \<Longrightarrow> k \<le> length lens \<Longrightarrow> longest lens x k < length lens"
  by (induction k arbitrary: x) (auto simp: Let_def)

lemma ChooseVictimRequest_in:
  assumes "ids \<noteq> []" "length lens = length ids"
  shows "ChooseVictimRequest c random ids lens \<in> set ids"
  using assms longest_less [of 0 lens "length lens"]
  by (auto simp: ChooseVictimRequest_def split: eviction_strategy.split)

lemma generating_but: "but_ranks eg eg' \<Longrightarrow> generating eg' = generating eg"
  using but_ranks_fields by (fastforce simp: generating_def)

lemma length_filter_strict:
  "\<forall>x \<in> set xs. P x \<longrightarrow> Q x \<Longrightarrow> y \<in> set xs \<Longrightarrow> Q y \<Longrightarrow> \<not> P y \<Longrightarrow> length (filter P xs) < length (filter Q xs)"
proof (induction xs)
  case (Cons x xs)
  have le: "length (filter P ys) \<le> length (filter Q ys)" if "\<forall>x \<in> set ys. P x \<longrightarrow> Q x" for ys
    using that by (induction ys) auto
  show ?case
  proof (cases "y \<in> set xs")
    case True
    with Cons show ?thesis by auto
  next
    case False
    with Cons.prems have "y = x" by simp
    with le [of xs] Cons.prems show ?thesis by (simp add: less_Suc_eq_le)
  qed
qed simp

lemma set_victim_generating:
  assumes "h \<in> set (generating eg)" "rh_uuid h = k"
  shows "length (generating (set_queue k (SetStatus GenerateInterrupted q) eg)) < length (generating eg)"
  unfolding generating_def set_fields
  by (rule length_filter_strict [of _ _ _ h])
    (use assms in \<open>auto simp: SetStatus_def generating_def split: option.splits if_splits\<close>)

lemma decode_loop_ends:
  "engine_inv c eg \<Longrightarrow> \<exists>r eg'. decode_loop e rand c n eg = Some (r, eg') \<and> engine_inv c eg' \<and> hands_out eg eg'"
proof (induction "length (generating eg)" arbitrary: n eg rule: less_induct)
  case less
  obtain r eg1 where run: "RunTextGenerationContinue (e (2 * n)) c eg = (r, eg1)"
    by (cases "RunTextGenerationContinue (e (2 * n)) c eg")
  have inv1: "engine_inv c eg1" and but1: "but_ranks eg eg1"
    using RunTextGenerationContinue_inv [OF less.prems, of "e (2 * n)"] RunTextGenerationContinue_but [of eg "e (2 * n)" c] run
    by simp_all
  let ?ids = "map rh_uuid (generating eg1)" and ?lens = "map (\<lambda>h. rh_context_length h + rh_generate_length h) (generating eg1)"
  note hands1 = hands_out_but [OF but1]
  define victim where "victim = ChooseVictimRequest c (rand n) ?ids ?lens"
  obtain s eg2 where stop: "StopRequestByRequestID (e (2 * n + 1)) c victim eg1 = (s, eg2)"
    by (cases "StopRequestByRequestID (e (2 * n + 1)) c victim eg1")
  have inv2: "engine_inv c eg2" and but2: "but_ranks eg1 eg2"
    using StopRequestByRequestID_inv [OF inv1, of "e (2 * n + 1)" victim] StopRequestByRequestID_but [of eg1 "e (2 * n + 1)" c victim] stop
    by simp_all
  show ?case
  proof (cases "r = Inr ALLSPARK_CACHE_MEMORY_OUT \<and> \<not> missing_queue eg1 \<and> generating eg1 \<noteq> []")
    case False
    have "\<exists>r'. decode_loop e rand c n eg = Some (r', eg1)"
      using run False by (subst decode_loop.simps) (cases r, auto)
    then show ?thesis using inv1 hands1 by blast
  next
    case True
    note hands2 = hands_out_trans [OF hands1 hands_out_but [OF but2]]
    have step: "decode_loop e rand c n eg = (case (s, eg2) of
        (Inl ex, eg) \<Rightarrow> Some (Inl ex, eg)
      | (Inr _, eg) \<Rightarrow>
          (case map_of (eg_queues eg) victim of
             None \<Rightarrow> Some (Inl UndefinedBehaviour, eg)
           | Some q \<Rightarrow> decode_loop e rand c (Suc n) (set_queue victim (SetStatus GenerateInterrupted q) eg)))"
      using run True stop by (subst decode_loop.simps) (simp add: Let_def flip: victim_def)
    show ?thesis
    proof (cases "map_of (eg_queues eg2) victim")
      case None
      with step inv2 hands2 show ?thesis by (cases s) auto
    next
      case (Some q)
      have "victim \<in> set ?ids" unfolding victim_def using True by (intro ChooseVictimRequest_in) auto
      then obtain h where h: "h \<in> set (generating eg2)" "rh_uuid h = victim"
        using generating_but [OF but2] by auto
      from set_victim_generating [OF h, of q] have "length (generating (set_queue victim (SetStatus GenerateInterrupted q) eg2)) < length (generating eg)"
        using generating_but [OF but1] generating_but [OF but2] by simp
      from less.hyps [OF this set_queue_inv [OF inv2], of "Suc n"] Some obtain r' eg3 where
        rest: "decode_loop e rand c (Suc n) (set_queue victim (SetStatus GenerateInterrupted q) eg2) = Some (r', eg3)"
        "engine_inv c eg3" "hands_out (set_queue victim (SetStatus GenerateInterrupted q) eg2) eg3" by auto
      have "hands_out eg (set_queue victim (SetStatus GenerateInterrupted q) eg2)"
        by (rule hands_out_trans [OF hands2 hands_out_queue]) (simp add: SetStatus_def)
      from hands_out_trans [OF this rest(3)] rest(1,2) Some step inv2 hands2 show ?thesis by (cases s) auto
    qed
  qed
qed

section \<open>Messages and rounds\<close>

lemma handle_start_inv:
  assumes "engine_inv c eg" "start_ok msg" "cm_msg msg = StartRequestMsg"
  shows "engine_inv c (snd (handle_start e c msg eg))"
proof -
  obtain h q g where m: "cm_handle msg = Some h" "cm_queue msg = Some q" "cm_config msg = Some g" "rh_uuid h = cm_uuid msg"
    using assms(2,3) by (auto simp: start_ok_def)
  let ?eg = "eg\<lparr>eg_queues := map_insert (cm_uuid msg) q (eg_queues eg), eg_handles := map_insert (cm_uuid msg) h (eg_handles eg)\<rparr>"
  have inv: "engine_inv c ?eg" using assms(1) maps_agree_insert [OF _ m(4)] by (simp add: engine_inv_def)
  have "engine_inv c (snd (andThen (StartRequestImpl e c h' (gen_config.truncate g) ?eg) (\<lambda>_ eg. ret () eg)))" for h'
    by (rule snd_andThen [where J = "engine_inv c"]) (simp_all add: StartRequestImpl_inv inv)
  then show ?thesis
    using inv m(1-3) assms(1)
    by (cases "map_of (eg_handles ?eg) (cm_uuid msg)"; cases "eg_graceful_stop eg") (simp_all add: handle_start_def Let_def)
qed

lemma delete_entry_inv:
  "engine_inv c eg \<Longrightarrow> engine_inv c (eg\<lparr>eg_queues := AList.delete k (eg_queues eg), eg_handles := AList.delete k (eg_handles eg)\<rparr>)"
  by (simp add: engine_inv_def maps_agree_delete)

lemma handle_release_inv: "engine_inv c eg \<Longrightarrow> engine_inv c (snd (handle_release e c msg eg))"
  unfolding handle_release_def
proof (rule snd_andThen [where J = "engine_inv c"])
  fix ret_stop s assume s: "engine_inv c s"
  let ?k = "\<lambda>ret_release eg. let eg = (if map_of (eg_queues eg) (cm_uuid msg) \<noteq> None
               then eg\<lparr>eg_queues := AList.delete (cm_uuid msg) (eg_queues eg),
                       eg_handles := AList.delete (cm_uuid msg) (eg_handles eg)\<rparr>
               else eg);
         eg = (if eg_graceful_stop eg \<and> unfinished eg = 0 \<and> eg_msg_queue eg = [] then eg\<lparr>eg_final_released := True\<rparr> else eg)
     in ret () (set_promise (cm_promise msg) (if ret_stop \<noteq> ALLSPARK_SUCCESS then ret_stop else ret_release) eg)"
  have "engine_inv c (snd (?k st s'))" if "engine_inv c s'" for st s'
    using that delete_entry_inv [OF that, of "cm_uuid msg"] by (simp add: Let_def)
  then show "engine_inv c (snd (andThen (ReleaseRequestByRequestID c (cm_uuid msg) s) ?k))"
    by (intro snd_andThen [where J = "engine_inv c"] ReleaseRequestByRequestID_inv s)
qed (rule StopRequestByRequestID_inv)

lemma handle_message_inv:
  assumes "engine_inv c eg" "start_ok msg"
  shows "engine_inv c (snd (handle_message e c msg eg))"
proof -
  have st: "engine_inv c (snd (andThen (StopRequestByRequestID e c (cm_uuid msg) eg) (\<lambda>st eg. ret () (set_promise (cm_promise msg) st eg))))"
    by (rule snd_andThen [where J = "engine_inv c"]) (simp_all add: StopRequestByRequestID_inv assms(1))
  show ?thesis
  proof (cases "cm_msg msg")
    case SyncRequestMsg
    with assms(1) show ?thesis by (simp add: handle_message_def engine_inv_def)
  next
    case SyncAllRequestMsg
    with assms(1) show ?thesis by (simp add: handle_message_def engine_inv_def)
  next
    case GracefulStopModelMsg
    with assms(1) show ?thesis by (simp add: handle_message_def engine_inv_def)
  qed (use assms st in \<open>simp_all add: handle_message_def handle_start_inv handle_release_inv\<close>)
qed

lemma handle_messages_inv:
  "engine_inv c eg \<Longrightarrow> \<forall>msg \<in> set msgs. start_ok msg \<Longrightarrow> engine_inv c (snd (handle_messages e c n msgs eg))"
proof (induction msgs arbitrary: n eg)
  case (Cons msg msgs)
  have "engine_inv c (eg\<lparr>eg_msg_queue := msgs\<rparr>)" using Cons.prems by (simp add: engine_inv_def)
  then have "engine_inv c (snd (handle_message (e n) c msg (eg\<lparr>eg_msg_queue := msgs\<rparr>)))"
    by (rule handle_message_inv) (use Cons.prems in simp)
  with Cons show ?case by (auto intro!: snd_andThen [where J = "engine_inv c"])
qed simp

lemma finish_sync_inv: "engine_inv c eg \<Longrightarrow> engine_inv c (snd (finish_sync eg))"
  by (auto simp: finish_sync_def engine_inv_def set_promise_def split: option.split)

lemma stop_check_inv: "engine_inv c eg \<Longrightarrow> engine_inv c (snd (stop_check eg))"
  by (auto simp: stop_check_def split: option.split)

lemma run_phase_inv: "engine_inv c eg \<Longrightarrow> engine_inv c (snd (run_phase e c eg))"
proof -
  assume inv: "engine_inv c eg"
  have dec: "engine_inv c (snd (case decode_loop (ee_continue e) (ee_random e) c 0 s of None \<Rightarrow> (Inl Diverges, s) | Some r \<Rightarrow> r))"
    if "engine_inv c s" for s
    using decode_loop_ends [OF that, of "ee_continue e" "ee_random e" 0] by auto
  show ?thesis
    unfolding run_phase_def
    by (intro snd_andThen [where J = "engine_inv c"] RunEngineContext_keeps UpdateResult_inv dec finish_sync_inv stop_check_inv inv)
qed

lemma loop_round_inv:
  assumes "engine_inv c eg"
  shows "engine_inv c (snd (loop_round e c eg))"
proof -
  let ?eg = "if eg_asleep eg then eg\<lparr>eg_asleep := False\<rparr> else eg\<lparr>eg_no_execution := False\<rparr>"
  have inv: "engine_inv c ?eg" and ok: "\<forall>msg \<in> set (eg_msg_queue ?eg). start_ok msg" using assms by (auto simp: engine_inv_def)
  have "engine_inv c (snd (andThen
      (if eg_synchronizing ?eg then ret False ?eg else handle_messages (ee_message e) c 0 (eg_msg_queue ?eg) ?eg) (\<lambda>sleeps eg.
        if sleeps then ret () (eg\<lparr>eg_asleep := True\<rparr>)
        else
          let eg = (if ec_cuda c then eg else eg\<lparr>eg_no_execution := ee_sem_retry e\<rparr>) in
          if eg_no_execution eg then ret () eg else run_phase e c eg)))"
    by (rule snd_andThen [where J = "engine_inv c"]) (use inv ok in \<open>simp_all add: Let_def handle_messages_inv run_phase_inv\<close>)
  with assms show ?thesis by (simp add: loop_round_def Let_def)
qed

section \<open>Calls of the user and reachable states\<close>

lemma post_inv: "engine_inv c eg \<Longrightarrow> start_ok msg \<Longrightarrow> engine_inv c (post b msg eg)"
  by (auto simp: post_def engine_inv_def)

lemma lora_calls_inv [simp]: "engine_inv c (lora_acquire l eg) = engine_inv c eg" "engine_inv c (lora_release_found l eg) = engine_inv c eg"
  by (simp_all add: lora_acquire_def lora_release_found_def split: option.split)

lemma new_promise_inv: "new_promise eg = (p, eg') \<Longrightarrow> engine_inv c eg' = engine_inv c eg"
  by (auto simp: new_promise_def)

lemma send_start_inv: "engine_inv c eg \<Longrightarrow> engine_inv c (snd (send_start queued now garbage uuid q g eg))"
proof -
  assume inv: "engine_inv c eg"
  let ?eg = "if gc_lora_name g \<noteq> [] then lora_acquire (gc_lora_name g) eg else eg"
  obtain p eg1 where p: "new_promise ?eg = (p, eg1)" by (cases "new_promise ?eg")
  have i: "engine_inv c ?eg" "engine_inv c eg1" using inv new_promise_inv [OF p] by simp_all
  then show ?thesis
    by (cases "bindE (input_ids (qc_inputs q)) (\<lambda>t. dl_shape t 1)")
      (simp_all add: send_start_def Let_def p post_inv start_ok_def del: bindE_eq_Inr)
qed

lemma StartRequestApi_inv:
  assumes "engine_inv c eg"
  shows "engine_inv c (snd (StartRequestApi c queued now garbage new_uuid customized_uuid info eg))"
proof (cases info)
  case (Some q)
  then show ?thesis
    unfolding StartRequestApi_def Let_def Some option.case
    using assms by (cases "InputParamsVerify c q"; cases "RichInputVerify q") (auto simp: send_start_inv split: prod.split)
qed (use assms in \<open>simp add: StartRequestApi_def Let_def\<close>)

lemma control_call_inv:
  "engine_inv c eg \<Longrightarrow> kind \<noteq> StartRequestMsg \<Longrightarrow> engine_inv c (snd (control_call kind queued uuid eg))"
  by (auto simp: control_call_def new_promise_def start_ok_def intro!: post_inv)

text \<open>A call that loads or unloads a LoRA changes the list of loaded ones and device data on every rank.\<close>

definition loads_only :: "(('d, 'm, 'x) as_model \<Rightarrow> as_status \<times> ('d, 'm, 'x) as_model) \<Rightarrow> bool" where
  "loads_only f \<longleftrightarrow> (\<forall>m. \<exists>ls x. snd (f m) = m\<lparr>am_loras := ls, am_x := x\<rparr>)"

lemma on_workers_inv:
  assumes "engine_inv c eg" "loads_only f"
  shows "engine_inv c (snd (on_workers f eg))"
proof -
  have "fits n (snd (f m))" if "fits n m" for n m
  proof -
    obtain ls x where "snd (f m) = m\<lparr>am_loras := ls, am_x := x\<rparr>" using assms(2) unfolding loads_only_def by blast
    with that show ?thesis by (simp add: fits_def model_inv_def running_def)
  qed
  with assms(1) show ?thesis by (simp add: engine_inv_def on_workers_def Let_def)
qed

text \<open>The calls and the rounds of the thread in any order. A call that holds \<open>lora_lock_\<close> while it waits
  keeps the others out; \<open>StopModel\<close> and taking results need no lock.\<close>

inductive engine_reach :: "engine_cfg \<Rightarrow> ('d, 'm, 'x) engine \<Rightarrow> bool" for c :: engine_cfg where
  start: "ms \<noteq> [] \<Longrightarrow> \<forall>m \<in> set ms. am_pending m = [] \<and> am_gen_ctx_list m = [] \<Longrightarrow> engine_reach c (engine_start ms in_use n)"
| start_request: "engine_reach c eg \<Longrightarrow> eg_waiting eg = None \<Longrightarrow>
    StartRequestApi c queued now garbage new_uuid customized_uuid info eg = (Inr st, eg') \<Longrightarrow> engine_reach c eg'"
| stop_request: "engine_reach c eg \<Longrightarrow> eg_waiting eg = None \<Longrightarrow> engine_reach c (snd (StopRequestApi queued handle eg))"
| release_request: "engine_reach c eg \<Longrightarrow> eg_waiting eg = None \<Longrightarrow> engine_reach c (snd (ReleaseRequestApi queued handle eg))"
| sync_request: "engine_reach c eg \<Longrightarrow> eg_waiting eg = None \<Longrightarrow> engine_reach c (snd (SyncRequestApi queued handle eg))"
| finish: "engine_reach c eg \<Longrightarrow> eg_waiting eg = Some p \<Longrightarrow> finish_call kind p eg = Some (st, eg') \<Longrightarrow> engine_reach c eg'"
| load_lora: "engine_reach c eg \<Longrightarrow> eg_waiting eg = None \<Longrightarrow> (\<And>l. loads_only (f l)) \<Longrightarrow> engine_reach c (snd (LoadLoraByName f name eg))"
| unload_lora: "engine_reach c eg \<Longrightarrow> eg_waiting eg = None \<Longrightarrow> (\<And>l. loads_only (f l)) \<Longrightarrow> engine_reach c (snd (UnloadLoraByName f name eg))"
| stop_model: "engine_reach c eg \<Longrightarrow> engine_reach c (snd (StopModelApi queued eg))"
| take_results: "engine_reach c eg \<Longrightarrow> map_of (eg_queues eg) k = Some q \<Longrightarrow> GetNoWait q = Inr (e, q') \<Longrightarrow> engine_reach c (set_queue k q' eg)"
| round: "engine_reach c eg \<Longrightarrow> loop_round e c eg = (Inr (), eg') \<Longrightarrow> engine_reach c eg'"

lemma engine_start_inv:
  "ms \<noteq> [] \<Longrightarrow> \<forall>m \<in> set ms. am_pending m = [] \<and> am_gen_ctx_list m = [] \<Longrightarrow> engine_inv c (engine_start ms in_use n)"
  by (auto simp: engine_inv_def engine_start_def maps_agree_def fits_def model_inv_def running_def)

lemma engine_reach_engine_inv: "engine_reach c eg \<Longrightarrow> engine_inv c eg"
proof (induction rule: engine_reach.induct)
  case (start_request eg queued now garbage new_uuid customized_uuid info st eg')
  from StartRequestApi_inv [OF start_request.IH, of queued now garbage new_uuid customized_uuid info] start_request.hyps
  show ?case by simp
next
  case (stop_request eg queued handle)
  then show ?case by (auto simp: StopRequestApi_def control_call_inv split: option.split)
next
  case (release_request eg queued handle)
  then show ?case by (auto simp: ReleaseRequestApi_def control_call_inv split: option.split)
next
  case (sync_request eg queued handle)
  then show ?case by (auto simp: SyncRequestApi_def control_call_inv split: option.split)
next
  case (finish eg p kind st eg')
  then show ?case by (auto simp: finish_call_def split: option.splits)
next
  case (load_lora eg f name)
  then show ?case by (auto simp: LoadLoraByName_def on_workers_inv split: option.split)
next
  case (unload_lora eg f name)
  then show ?case by (auto simp: UnloadLoraByName_def on_workers_inv split: option.split)
next
  case (stop_model eg queued)
  then show ?case by (auto simp: StopModelApi_def new_promise_def start_ok_def intro!: post_inv)
next
  case (take_results eg k q e q')
  then show ?case by (intro set_queue_inv) simp_all
next
  case (round eg e eg')
  from loop_round_inv [OF round.IH, of e] round.hyps show ?case by simp
qed (rule engine_start_inv)

end
