(* ===== verification/Engine_Rules.thy ===== *)
theory Engine_Rules
  imports Engine_Rounds
begin

text \<open>
  Facts that the properties of the engine rest on: the tokens that a series of calls hands to a result
  queue, the choice of the longest request, and what a round of the loop does to the messages, to a pending
  synchronisation and to the promises.
\<close>

section \<open>Delivery of tokens\<close>

text \<open>The output tensor of a request holds these tokens.\<close>

definition holds_tokens :: "tok_tensor \<Rightarrow> 64 word list \<Rightarrow> bool" where
  "holds_tokens t xs \<longleftrightarrow> tt_shape t = [1, int (length xs)] \<and> take (length xs) (tt_buf t) = map Some xs \<and> length xs < 2 ^ 64"

lemma read_buf_tokens:
  assumes "take (length xs) buf = map Some xs" "old < length xs"
  shows "read_buf old (length xs - old) buf = Inr (drop old xs)"
proof -
  have "take (length xs - old) (drop old buf) = drop old (take (length xs) buf)" by (simp add: drop_take)
  also have "\<dots> = map Some (drop old xs)" using assms(1) by (simp add: drop_map)
  finally show ?thesis by (auto simp: read_buf_def Let_def)
qed

text \<open>The element that a call may hand out, as a list.\<close>

definition the_list :: "'a option \<Rightarrow> 'a list" where
  "the_list x = (case x of None \<Rightarrow> [] | Some y \<Rightarrow> [y])"

lemma the_list_simps [simp]: "the_list None = []" "the_list (Some y) = [y]" by (simp_all add: the_list_def)

lemma read_list_entries:
  assumes "g + k \<le> length xs"
  shows "read_list g k xs = Inr (take k (drop g xs))"
  using assms by (simp add: read_list_def)

text \<open>
  What a call finds: the output tensor with the tokens \<open>xs\<close>, and, when the request wants them, at least one
  entry of the two lists of log probabilities for every token behind the prompt.
\<close>

type_synonym probs = "(int \<times> rat) list"

definition finds :: "bool \<Rightarrow> nat \<Rightarrow> string \<Rightarrow> log_probs \<times> tok_tensor \<Rightarrow> 64 word list \<times> probs list \<times> rat list \<Rightarrow> bool" where
  "finds wants prompt uid call found =
     (case (call, found) of ((lp, t), (xs, as, bs)) \<Rightarrow>
        holds_tokens t xs \<and> lp uid = (if wants then Some (as, bs) else None) \<and>
        (wants \<longrightarrow> length xs - prompt \<le> length as \<and> length xs - prompt \<le> length bs))"

text \<open>The part of a list of log probabilities that belongs to the tokens from \<open>start\<close> to \<open>stop\<close>, counted
  with the prompt.\<close>

definition logs_between :: "bool \<Rightarrow> nat \<Rightarrow> nat \<Rightarrow> nat \<Rightarrow> 'a list \<Rightarrow> 'a list" where
  "logs_between wants prompt start stop ps = (if wants then take (stop - start) (drop (start - prompt) ps) else [])"

lemma logs_between_append:
  assumes "prompt \<le> start" "wants \<Longrightarrow> mid - prompt \<le> length ps"
  shows "logs_between wants prompt start mid ps @ logs_between wants prompt (max start mid) (max mid stop) (ps @ qs) =
    logs_between wants prompt start (max mid stop) (ps @ qs)"
proof (cases "wants \<and> start \<le> mid")
  case True
  define a b where "a = mid - start" and "b = start - prompt"
  have len: "a + b \<le> length ps" "mid - prompt = a + b" "max mid stop - start = a + (max mid stop - mid)"
    using True assms by (auto simp: a_def b_def)
  have "take a (drop b (ps @ qs)) = take a (drop b ps)" using len(1) by simp
  moreover have "drop a (drop b (ps @ qs)) = drop (mid - prompt) (ps @ qs)" using len(2) by (simp only: drop_drop)
  ultimately show ?thesis
    using True len(3) take_add [of a "max mid stop - mid" "drop b (ps @ qs)"]
    by (simp add: logs_between_def max.absorb2 a_def [symmetric] b_def [symmetric])
qed (auto simp: logs_between_def max_def)

lemma Fetch_step:
  assumes "finds wants (rh_context_length h) (rq_id q) (lp, t) (xs, as, bs)" "rh_context_length h + rh_generate_length h < 2 ^ 64"
  defines "old \<equiv> rh_context_length h + rh_generate_length h"
  shows "\<exists>ele q' h' rq'. FetchGenerationResult lp q t h rq = Inr (ele, q', h', rq') \<and> rq_id q' = rq_id q \<and>
    rh_context_length h' = rh_context_length h \<and>
    concat (map ge_ids (the_list ele)) = drop old xs \<and>
    concat (map ge_log_probs (the_list ele)) = logs_between wants (rh_context_length h) old (length xs) as \<and>
    concat (map ge_token_logprobs (the_list ele)) = logs_between wants (rh_context_length h) old (length xs) bs \<and>
    rh_context_length h' + rh_generate_length h' = max old (length xs)"
proof -
  have t: "tt_shape t = [1, int (length xs)]" "take (length xs) (tt_buf t) = map Some xs" "length xs < 2 ^ 64"
    and lp: "lp (rq_id q) = (if wants then Some (as, bs) else None)"
    and room: "wants \<Longrightarrow> length xs - rh_context_length h \<le> length as" "wants \<Longrightarrow> length xs - rh_context_length h \<le> length bs"
    using assms(1) by (simp_all add: finds_def holds_tokens_def)
  have len: "size_t_of (int (length xs)) = length xs" "old mod 2 ^ 64 = old" using t(3) assms(2) by (simp_all add: old_def)
  have sh: "Shape_at (tt_shape t) 1 = Inr (int (length xs))" using t(1) by (simp add: Shape_at_def)
  show ?thesis
  proof (cases "length xs \<le> old")
    case True
    then have "FetchGenerationResult lp q t h rq = Inr (None, q, h, rq)"
      using sh len by (simp add: FetchGenerationResult_def Let_def old_def)
    with True show ?thesis by (simp add: logs_between_def old_def)
  next
    case False
    then have ne: "shape_count (tt_shape t) \<noteq> 0" using t(1) by (auto simp: shape_count_def)
    have g: "size_t_of (int (length xs) - int (rh_context_length h)) = length xs - rh_context_length h"
      using False t(3) size_t_of_nat [of "length xs - rh_context_length h"] by (simp add: of_nat_diff old_def)
    have k: "rh_generate_length h + (length xs - old) = length xs - rh_context_length h" using False by (simp add: old_def)
    show ?thesis
      using False ne sh len g lp read_buf_tokens [OF t(2), of old] room k
      by (auto simp: FetchGenerationResult_def Let_def read_list_entries logs_between_def old_def [symmetric] split: if_splits)
        (simp_all add: old_def)
  qed
qed

text \<open>The calls that follow each other for one request, each on the log probabilities and the output tensor
  of its time, with the elements that they hand out.\<close>

fun fetch_series ::
  "request \<Rightarrow> request_handle \<Rightarrow> result_queue \<Rightarrow> (log_probs \<times> tok_tensor) list \<Rightarrow> exn + (gen_element list \<times> request_handle)" where
  "fetch_series q h rq [] = Inr ([], h)"
| "fetch_series q h rq ((lp, t) # calls) =
     bindE (FetchGenerationResult lp q t h rq) (\<lambda>(ele, q, h, rq).
     bindE (fetch_series q h rq calls) (\<lambda>(els, h). Inr (the_list ele @ els, h)))"

text \<open>Tokens and log probabilities are only appended.\<close>

definition growing :: "(64 word list \<times> probs list \<times> rat list) list \<Rightarrow> bool" where
  "growing = sorted_wrt (\<lambda>(xs, as, bs) (xs', as', bs'). (\<exists>zs. xs' = xs @ zs) \<and> (\<exists>zs. as' = as @ zs) \<and> (\<exists>zs. bs' = bs @ zs))"

lemma fetch_series_delivers:
  "list_all2 (finds wants prompt uid) calls founds \<Longrightarrow> rh_context_length h = prompt \<Longrightarrow> rq_id q = uid \<Longrightarrow> growing founds \<Longrightarrow> founds \<noteq> [] \<Longrightarrow>
   last founds = (xs, as, bs) \<Longrightarrow> rh_context_length h + rh_generate_length h < 2 ^ 64 \<Longrightarrow>
   \<exists>els h'. fetch_series q h rq calls = Inr (els, h') \<and>
     concat (map ge_ids els) = drop (rh_context_length h + rh_generate_length h) xs \<and>
     concat (map ge_log_probs els) =
       logs_between wants (rh_context_length h) (rh_context_length h + rh_generate_length h) (length xs) as \<and>
     concat (map ge_token_logprobs els) =
       logs_between wants (rh_context_length h) (rh_context_length h + rh_generate_length h) (length xs) bs"
proof (induction calls founds arbitrary: q h rq rule: list_all2_induct)
  case (Cons call calls found founds)
  let ?c = "rh_context_length h" and ?old = "rh_context_length h + rh_generate_length h"
  obtain lp t ys as1 bs1 where eqs: "call = (lp, t)" "found = (ys, as1, bs1)" by (cases call, cases found) auto
  obtain ele q' h' rq' where f: "FetchGenerationResult lp q t h rq = Inr (ele, q', h', rq')" "rq_id q' = rq_id q"
    "rh_context_length h' = ?c" "concat (map ge_ids (the_list ele)) = drop ?old ys"
    "concat (map ge_log_probs (the_list ele)) = logs_between wants ?c ?old (length ys) as1"
    "concat (map ge_token_logprobs (the_list ele)) = logs_between wants ?c ?old (length ys) bs1"
    "rh_context_length h' + rh_generate_length h' = max ?old (length ys)"
    using Fetch_step [of wants h q lp t ys as1 bs1 rq] Cons.hyps(1) Cons.prems(1,2,6) eqs by blast
  show ?case
  proof (cases founds)
    case Nil
    with Cons.hyps have "calls = []" by simp
    with f Nil eqs Cons.prems(5) show ?thesis by simp
  next
    case (Cons fd fds)
    have "growing founds" using Cons.prems(3) by (simp add: growing_def)
    have ext: "\<exists>zs. xs = ys @ zs" "\<exists>zs. as = as1 @ zs" "\<exists>zs. bs = bs1 @ zs"
    proof -
      have "(xs, as, bs) \<in> set founds" using Cons.prems(5) Cons by (metis last_ConsR last_in_set list.distinct(1))
      with Cons.prems(3) eqs show "\<exists>zs. xs = ys @ zs" "\<exists>zs. as = as1 @ zs" "\<exists>zs. bs = bs1 @ zs"
        by (fastforce simp: growing_def)+
    qed
    have lt: "max ?old (length ys) < 2 ^ 64" using Cons.prems(6) Cons.hyps(1) eqs by (simp add: finds_def holds_tokens_def)
    obtain els h2 where s: "fetch_series q' h' rq' calls = Inr (els, h2)"
      "concat (map ge_ids els) = drop (max ?old (length ys)) xs"
      "concat (map ge_log_probs els) = logs_between wants ?c (max ?old (length ys)) (length xs) as"
      "concat (map ge_token_logprobs els) = logs_between wants ?c (max ?old (length ys)) (length xs) bs"
      using Cons.IH [of h' q' rq'] f Cons Cons.prems(1,2,5) lt \<open>growing founds\<close> by auto
    have le: "max (length ys) (length xs) = length xs" using ext(1) by auto
    have room: "wants \<Longrightarrow> length ys - ?c \<le> length as1" "wants \<Longrightarrow> length ys - ?c \<le> length bs1"
      using Cons.hyps(1) Cons.prems(1) eqs by (simp_all add: finds_def)
    have "drop ?old ys @ drop (max ?old (length ys)) xs = drop ?old xs" using ext(1) by (auto simp: max_def)
    moreover have "logs_between wants ?c ?old (length ys) as1 @ logs_between wants ?c (max ?old (length ys)) (length xs) as =
      logs_between wants ?c ?old (length xs) as"
      using ext(2) logs_between_append [of ?c ?old wants "length ys" as1 "length xs"] room(1) le by auto
    moreover have "logs_between wants ?c ?old (length ys) bs1 @ logs_between wants ?c (max ?old (length ys)) (length xs) bs =
      logs_between wants ?c ?old (length xs) bs"
      using ext(3) logs_between_append [of ?c ?old wants "length ys" bs1 "length xs"] room(2) le by auto
    ultimately show ?thesis using f s Cons eqs by simp
  qed
qed simp

section \<open>Victims\<close>

lemma longest_first:
  "k \<le> length lens \<Longrightarrow> x < length lens \<Longrightarrow> x \<le> length lens - k \<Longrightarrow> \<forall>j < length lens - k. lens ! j \<le> lens ! x \<Longrightarrow>
   \<forall>j < x. lens ! j < lens ! x \<Longrightarrow>
   (\<forall>j < length lens. lens ! j \<le> lens ! longest lens x k) \<and> (\<forall>j < longest lens x k. lens ! j < lens ! longest lens x k)"
proof (induction k arbitrary: x)
  case (Suc k)
  let ?i = "length lens - Suc k"
  have i: "?i < length lens" "length lens - k = Suc ?i" using Suc.prems(1) by simp_all
  show ?case
  proof (cases "lens ! ?i > lens ! x")
    case True
    then have "\<forall>j < length lens - k. lens ! j \<le> lens ! ?i" "\<forall>j < ?i. lens ! j < lens ! ?i"
      using Suc.prems(4) i(2) by (auto simp: less_Suc_eq)
    with Suc.IH [of ?i] i True Suc.prems(1) show ?thesis by (simp add: Let_def)
  next
    case False
    then have "\<forall>j < length lens - k. lens ! j \<le> lens ! x" using Suc.prems(4) i(2) by (auto simp: less_Suc_eq)
    with Suc.IH [of x] Suc.prems i False show ?thesis by (simp add: Let_def)
  qed
qed simp

section \<open>A round of the loop\<close>

lemma run_phase_parts:
  assumes "engine_inv c eg" "run_phase e c eg = (Inr (), eg')"
  obtains eg1 eg2 where "hands_out eg eg1" "engine_inv c eg1" "finish_sync eg1 = (Inr (), eg2)" "stop_check eg2 = (Inr (), eg')"
proof -
  obtain st s1 s2 s3 s4 s5 where r: "RunEngineContext (ee_context e) c eg = (Inr st, s1)"
    "UpdateResult (ee_log_probs e) s1 = (Inr (), s2)"
    "(case decode_loop (ee_continue e) (ee_random e) c 0 s2 of None \<Rightarrow> (Inl Diverges, s2) | Some r \<Rightarrow> r) = (Inr (), s3)"
    "UpdateResult (ee_log_probs e) s3 = (Inr (), s4)" "finish_sync s4 = (Inr (), s5)" "stop_check s5 = (Inr (), eg')"
    using assms(2) by (auto simp: run_phase_def)
  have 1: "engine_inv c s1" "hands_out eg s1"
    using RunEngineContext_keeps [OF assms(1), of "ee_context e"] r(1) by (auto intro: hands_out_but)
  have 2: "engine_inv c s2" "hands_out s1 s2"
    using UpdateResult_inv [OF 1(1), of "ee_log_probs e"] UpdateResult_hands [OF 1(1), of "ee_log_probs e"] r(2) by simp_all
  have 3: "engine_inv c s3" "hands_out s2 s3"
    using decode_loop_ends [OF 2(1), of "ee_continue e" "ee_random e" 0] r(3) by auto
  have 4: "engine_inv c s4" "hands_out s3 s4"
    using UpdateResult_inv [OF 3(1), of "ee_log_probs e"] UpdateResult_hands [OF 3(1), of "ee_log_probs e"] r(4) by simp_all
  from that [OF _ 4(1) r(5,6)] 1(2) 2(2) 3(2) 4(2) show thesis by (meson hands_out_trans)
qed

lemma stop_check_keeps:
  "stop_check eg = (Inr (), eg') \<Longrightarrow> eg_msg_queue eg' = eg_msg_queue eg \<and> eg_synchronizing eg' = eg_synchronizing eg \<and>
   eg_sync_pending eg' = eg_sync_pending eg \<and> (\<forall>k. ended eg' k = ended eg k) \<and> eg_handles eg' = eg_handles eg \<and>
   eg_graceful_stop eg' = eg_graceful_stop eg \<and> eg_queues eg' = eg_queues eg \<and> eg_workers eg' = eg_workers eg \<and>
   eg_stop_promise eg' = eg_stop_promise eg"
  by (auto simp: stop_check_def set_promise_def ended_def split: if_splits option.splits)

lemma finish_sync_keeps:
  "finish_sync eg = (Inr (), eg') \<Longrightarrow> eg_msg_queue eg' = eg_msg_queue eg \<and> eg_sync_pending eg' = eg_sync_pending eg \<and>
   (\<forall>k. ended eg' k = ended eg k) \<and> eg_handles eg' = eg_handles eg \<and> eg_looping eg' = eg_looping eg \<and>
   (eg_synchronizing eg \<and> \<not> eg_synchronizing eg' \<longrightarrow> eg_sync_pending eg = [])"
  by (auto simp: finish_sync_def set_promise_def ended_def split: if_splits option.splits)

lemma sync_round:
  assumes inv: "engine_inv c eg" and sync: "eg_synchronizing eg" and run: "loop_round e c eg = (Inr (), eg')"
  shows "eg_msg_queue eg' = eg_msg_queue eg \<and>
    (\<forall>k \<in> set (eg_sync_pending eg). k \<in> set (eg_sync_pending eg') \<or> map_of (eg_handles eg) k \<noteq> None \<and> ended eg' k) \<and>
    (\<not> eg_synchronizing eg' \<longrightarrow> eg_sync_pending eg' = []) \<and>
    (\<forall>k. map_of (eg_handles eg') k = None \<longleftrightarrow> map_of (eg_handles eg) k = None)"
proof -
  let ?eg = "if eg_asleep eg then eg\<lparr>eg_asleep := False\<rparr> else eg\<lparr>eg_no_execution := False\<rparr>"
  let ?s = "if ec_cuda c then ?eg else ?eg\<lparr>eg_no_execution := ee_sem_retry e\<rparr>"
  have s: "engine_inv c ?s" "eg_msg_queue ?s = eg_msg_queue eg" "eg_synchronizing ?s" "eg_sync_pending ?s = eg_sync_pending eg"
    "eg_handles ?s = eg_handles eg" using inv sync by simp_all
  have "eg' = eg \<or> eg' = ?s \<or> run_phase e c ?s = (Inr (), eg')"
    using run sync by (auto simp: loop_round_def Let_def split: if_splits)
  then show ?thesis
  proof (elim disjE)
    assume "run_phase e c ?s = (Inr (), eg')"
    then obtain eg1 eg2 where p: "hands_out ?s eg1" "finish_sync eg1 = (Inr (), eg2)" "stop_check eg2 = (Inr (), eg')"
      using run_phase_parts [OF s(1)] by metis
    have h: "eg_msg_queue eg1 = eg_msg_queue eg" "eg_synchronizing eg1"
      "\<forall>k \<in> set (eg_sync_pending eg) - set (eg_sync_pending eg1). map_of (eg_handles eg) k \<noteq> None \<and> ended eg1 k"
      "\<forall>k. map_of (eg_handles eg1) k = None \<longleftrightarrow> map_of (eg_handles eg) k = None"
      using p(1) s unfolding hands_out_def by simp_all
    note f = finish_sync_keeps [OF p(2)] and g = stop_check_keeps [OF p(3)]
    show ?thesis using f g h by (auto simp del: map_of_eq_Some_iff)
  qed (use s sync in simp_all)
qed

text \<open>The promises of the messages and of \<open>StopModel\<close> exist, and nobody sends the deprecated message.\<close>

definition posted :: "('d, 'm, 'x) engine \<Rightarrow> control_message list \<Rightarrow> bool" where
  "posted eg msgs \<longleftrightarrow>
     (\<forall>msg \<in> set msgs. cm_msg msg \<noteq> StopModelMsg \<and> cm_promise msg < length (eg_promises eg)) \<and>
     (\<forall>p. eg_stop_promise eg = Some p \<longrightarrow> p < length (eg_promises eg))"

lemma handle_message_looping:
  assumes "cm_msg msg \<noteq> StopModelMsg" "handle_message e c msg eg = (Inr (), eg')"
  shows "eg_looping eg' = eg_looping eg \<and> eg_msg_queue eg' = eg_msg_queue eg \<and> length (eg_promises eg') = length (eg_promises eg) \<and>
    (eg_stop_promise eg' = eg_stop_promise eg \<or> eg_stop_promise eg' = Some (cm_promise msg))"
proof -
  let ?J = "\<lambda>s. eg_looping s = eg_looping eg \<and> eg_msg_queue s = eg_msg_queue eg \<and> length (eg_promises s) = length (eg_promises eg) \<and>
    eg_stop_promise s = eg_stop_promise eg"
  have but: "?J s'" if "?J s" "but_ranks s s'" for s s' using but_ranks_fields [OF that(2)] that(1) by simp
  have stop: "?J (snd (StopRequestByRequestID e c k s))" if "?J s" for k s using but [OF that StopRequestByRequestID_but] .
  have release: "?J (snd (ReleaseRequestByRequestID c k s))" if "?J s" for k s using but [OF that ReleaseRequestByRequestID_but] .
  have impl: "?J (snd (StartRequestImpl e c h g s))" if "?J s" for h g s using but [OF that StartRequestImpl_but] .
  have st: "?J (snd (andThen (StopRequestByRequestID e c k eg) (\<lambda>st eg. ret () (set_promise p st eg))))" for k p
    by (rule snd_andThen [where J = ?J]) (simp_all add: stop set_promise_def)
  have rel: "?J (snd (handle_release e c msg eg))"
    unfolding handle_release_def Let_def
    by (intro snd_andThen [where J = ?J]) (simp_all add: stop release set_promise_def)
  have start: "?J (snd (handle_start e c msg eg))"
    unfolding handle_start_def Let_def
    by (auto simp: set_promise_def split: option.split intro!: snd_andThen [where J = ?J]) (use impl in auto)
  show ?thesis
    using assms st [of "cm_uuid msg" "cm_promise msg"] rel start
    by (cases "cm_msg msg") (auto simp: handle_message_def del: andThen_eq_ret)
qed

lemma handle_messages_looping:
  "posted eg msgs \<Longrightarrow> handle_messages e c n msgs eg = (Inr b, eg') \<Longrightarrow> eg_msg_queue eg = msgs \<Longrightarrow>
   eg_looping eg' = eg_looping eg \<and> posted eg' (eg_msg_queue eg')"
proof (induction msgs arbitrary: n eg)
  case (Cons msg msgs)
  then obtain s where s: "handle_message (e n) c msg (eg\<lparr>eg_msg_queue := msgs\<rparr>) = (Inr (), s)"
    "(if eg_synchronizing s then ret False s else handle_messages e c (Suc n) msgs s) = (Inr b, eg')" by auto
  have "cm_msg msg \<noteq> StopModelMsg" using Cons.prems(1) by (simp add: posted_def)
  note m = handle_message_looping [OF this s(1)]
  have "posted s msgs" using m Cons.prems(1) by (auto simp: posted_def)
  with m s(2) Cons.IH [of s "Suc n"] show ?case by (auto split: if_splits)
qed simp

lemma run_phase_posted:
  assumes "engine_inv c eg" "run_phase e c eg = (Inr (), eg')" "posted eg (eg_msg_queue eg)"
  shows "posted eg' (eg_msg_queue eg')"
proof -
  obtain eg1 eg2 where p: "hands_out eg eg1" "finish_sync eg1 = (Inr (), eg2)" "stop_check eg2 = (Inr (), eg')"
    using run_phase_parts [OF assms(1,2)] by metis
  have "posted eg1 (eg_msg_queue eg1)" using p(1) assms(3) by (simp add: hands_out_def posted_def)
  moreover have "length (eg_promises eg2) = length (eg_promises eg1) \<and> eg_stop_promise eg2 = eg_stop_promise eg1"
    using p(2) by (auto simp: finish_sync_def set_promise_def split: if_splits option.splits)
  moreover have "length (eg_promises eg') = length (eg_promises eg2)"
    using p(3) by (auto simp: stop_check_def set_promise_def split: if_splits option.splits)
  ultimately show ?thesis
    using finish_sync_keeps [OF p(2)] stop_check_keeps [OF p(3)] by (simp add: posted_def)
qed

text \<open>A round: messages, then work; the thread ends in \<open>stop_check\<close> only.\<close>

lemma loop_round_parts:
  assumes inv: "engine_inv c eg" and run: "loop_round e c eg = (Inr (), eg')" and post: "posted eg (eg_msg_queue eg)"
  shows "posted eg' (eg_msg_queue eg') \<and>
    (eg_looping eg \<and> \<not> eg_looping eg' \<longrightarrow> (\<exists>eg2. eg_looping eg2 \<and> posted eg2 (eg_msg_queue eg2) \<and> stop_check eg2 = (Inr (), eg')))"
proof (cases "eg_asleep eg \<and> eg_msg_queue eg = [] \<or> \<not> eg_asleep eg \<and> \<not> eg_looping eg")
  case True
  with run post show ?thesis by (auto simp: loop_round_def)
next
  case False
  let ?eg = "if eg_asleep eg then eg\<lparr>eg_asleep := False\<rparr> else eg\<lparr>eg_no_execution := False\<rparr>"
  have b: "engine_inv c ?eg" "eg_looping ?eg = eg_looping eg" "eg_msg_queue ?eg = eg_msg_queue eg" "posted ?eg (eg_msg_queue ?eg)"
    using inv post by (simp_all add: posted_def)
  obtain sl s where m: "(if eg_synchronizing ?eg then ret False ?eg else handle_messages (ee_message e) c 0 (eg_msg_queue ?eg) ?eg) = (Inr sl, s)"
    and rest: "(if sl then ret () (s\<lparr>eg_asleep := True\<rparr>)
        else
          let eg = (if ec_cuda c then s else s\<lparr>eg_no_execution := ee_sem_retry e\<rparr>) in
          if eg_no_execution eg then ret () eg else run_phase e c eg) = (Inr (), eg')"
    using run False unfolding loop_round_def Let_def by (auto split: if_splits)
  have ok: "\<forall>msg \<in> set (eg_msg_queue ?eg). start_ok msg" using inv by (auto simp: engine_inv_def)
  have s: "engine_inv c s" "eg_looping s = eg_looping eg" "posted s (eg_msg_queue s)"
  proof -
    show "eg_looping s = eg_looping eg" "posted s (eg_msg_queue s)"
      using m handle_messages_looping [OF b(4), of "ee_message e" c 0 sl s] b by (auto split: if_splits)
    show "engine_inv c s"
      using m handle_messages_inv [OF b(1) ok, of "ee_message e" 0] b(1) by (auto split: if_splits)
  qed
  let ?s = "if ec_cuda c then s else s\<lparr>eg_no_execution := ee_sem_retry e\<rparr>"
  have i: "engine_inv c ?s" "eg_looping ?s = eg_looping eg" "posted ?s (eg_msg_queue ?s)" using s by (simp_all add: posted_def)
  consider (idle) "eg' = s\<lparr>eg_asleep := True\<rparr> \<or> eg' = ?s" | (run) "run_phase e c ?s = (Inr (), eg')"
    using rest by (auto simp: Let_def split: if_splits)
  then show ?thesis
  proof cases
    case idle
    with s i show ?thesis by (auto simp: posted_def)
  next
    case run
    then obtain eg1 eg2 where p: "hands_out ?s eg1" "finish_sync eg1 = (Inr (), eg2)" "stop_check eg2 = (Inr (), eg')"
      using run_phase_parts [OF i(1)] by metis
    have "eg_looping eg2 = eg_looping eg" using finish_sync_keeps [OF p(2)] p(1) i(2) by (simp add: hands_out_def)
    moreover have "posted eg2 (eg_msg_queue eg2)"
    proof -
      have "posted eg1 (eg_msg_queue eg1)" using p(1) i(3) by (simp add: hands_out_def posted_def)
      then show ?thesis
        using p(2) by (auto simp: finish_sync_def posted_def set_promise_def split: if_splits option.splits)
    qed
    ultimately show ?thesis using run_phase_posted [OF i(1) run i(3)] p(3) by auto
  qed
qed

lemma posted_call: "posted eg (eg_msg_queue eg) \<Longrightarrow> kind \<noteq> StopModelMsg \<Longrightarrow>
    posted (snd (control_call kind queued uuid eg)) (eg_msg_queue (snd (control_call kind queued uuid eg)))"
  by (auto simp: control_call_def new_promise_def post_def posted_def)

lemma lora_calls_posted [simp]: "posted (lora_acquire l eg) = posted eg" "posted (lora_release_found l eg) = posted eg"
  "eg_msg_queue (lora_acquire l eg) = eg_msg_queue eg" "eg_msg_queue (lora_release_found l eg) = eg_msg_queue eg"
  by (simp_all add: fun_eq_iff posted_def lora_acquire_def lora_release_found_def split: option.split)

lemma send_start_posted:
  assumes "posted eg (eg_msg_queue eg)" "send_start queued now garbage uuid q g eg = (Inr st, eg')"
  shows "posted eg' (eg_msg_queue eg')"
proof -
  have "posted (if gc_lora_name g \<noteq> [] then lora_acquire (gc_lora_name g) eg else eg)
      (eg_msg_queue (if gc_lora_name g \<noteq> [] then lora_acquire (gc_lora_name g) eg else eg))" using assms(1) by simp
  with assms(2) show ?thesis
    by (auto simp: send_start_def Let_def new_promise_def post_def split: if_splits)
      (auto simp: posted_def lora_acquire_def lora_release_found_def split: option.splits)
qed

lemma on_workers_posted: "posted eg (eg_msg_queue eg) \<Longrightarrow> posted (snd (on_workers f eg)) (eg_msg_queue (snd (on_workers f eg)))"
  by (simp add: on_workers_def Let_def posted_def)

lemma engine_reach_posted: "engine_reach c eg \<Longrightarrow> posted eg (eg_msg_queue eg)"
proof (induction rule: engine_reach.induct)
  case (start ms in_use n)
  then show ?case by (simp add: posted_def engine_start_def)
next
  case (start_request eg queued now garbage new_uuid customized_uuid info st eg')
  then show ?case
    by (auto simp: StartRequestApi_def Let_def send_start_posted split: option.splits if_splits)
next
  case (stop_request eg queued handle)
  then show ?case by (auto simp: StopRequestApi_def posted_call split: option.split)
next
  case (release_request eg queued handle)
  then show ?case by (auto simp: ReleaseRequestApi_def posted_call split: option.split)
next
  case (sync_request eg queued handle)
  then show ?case by (auto simp: SyncRequestApi_def posted_call split: option.split)
next
  case (finish eg p kind st eg')
  then show ?case by (auto simp: finish_call_def posted_def split: option.splits)
next
  case (load_lora eg f name)
  then show ?case by (auto simp: LoadLoraByName_def on_workers_posted split: option.split)
next
  case (unload_lora eg f name)
  then show ?case by (auto simp: UnloadLoraByName_def on_workers_posted split: option.split)
next
  case (stop_model eg queued)
  then show ?case by (auto simp: StopModelApi_def new_promise_def post_def posted_def)
next
  case (take_results eg k q e q')
  then show ?case by (simp add: posted_def set_queue_def)
next
  case (round eg e eg')
  then show ?case using loop_round_parts engine_reach_engine_inv by blast
qed

end
