(* ===== verification/Engine_Theorems.thy ===== *)
theory Engine_Theorems
  imports Engine_Rules
begin

text \<open>
  Properties of the engine: its reachable states, the end of its loops, what is handed to the result
  queues, synchronisation, the end of its thread, the choice of victims and the checks of a request, and
  two defects. The witnesses run one rank with the small CPU model of \<open>Model_Theorems\<close>.
\<close>

section \<open>A small engine\<close>

definition demo_ecfg :: engine_cfg where
  "demo_ecfg = \<lparr>ec_registered = True, ec_is_generate = True, ec_max_length = 8, ec_max_batch = 2, ec_cuda = False,
     ec_eviction = MaxLength, ec_scheduling = ContextPriority, ec_model = demo_cfg\<rparr>"

definition demo_config :: "int \<Rightarrow> string \<Rightarrow> generate_config" where
  "demo_config n lora = \<lparr>gc_do_sample = True, gc_num_beams = 1, gc_early_stopping = False, gc_stop_words_ids = [], gc_eos_token_id = 0,
     gc_max_length = n, gc_lora_name = lora, gc_input_len = 0, gc_temperature = Some 1, gc_top_k = 50, gc_top_p = Some (1 / 2),
     gc_repetition_penalty = Some 1, gc_presence_penalty = Some 0, gc_frequency_penalty = None, gc_logprobs = False, gc_top_logprobs = 0\<rparr>"

definition demo_input :: "tok_tensor" where
  "demo_input = \<lparr>tt_name = ''input_ids'', tt_device = CPU, tt_shape = [1, 2], tt_buf = [Some 5, Some 6]\<rparr>"

definition demo_content :: "int \<Rightarrow> string \<Rightarrow> request_content" where
  "demo_content n lora = \<lparr>qc_inputs = [(''input_ids'', demo_input)], qc_config = demo_config n lora, qc_mm = []\<rparr>"

definition demo_handle :: "request_handle" where
  "demo_handle = \<lparr>rh_uuid = ''a'', rh_generate_length = 0, rh_context_length = 2, rh_continue_count = 0, rh_create_ts = 0,
     rh_inputs = [(''input_ids'', demo_input)], rh_mm_embedding = []\<rparr>"

definition demo_start_msg :: "int \<Rightarrow> string \<Rightarrow> control_message" where
  "demo_start_msg n lora = \<lparr>cm_msg = StartRequestMsg, cm_promise = 0, cm_uuid = ''a'', cm_config = Some (demo_config n lora),
     cm_handle = Some demo_handle, cm_queue = Some (ResultQueueImpl_new 0 ''a'')\<rparr>"

text \<open>One rank that has loaded the LoRA of the request, if the request has one.\<close>

definition demo_engine :: "string \<Rightarrow> (nat, unit, unit) engine" where
  "demo_engine lora = engine_start [demo_model\<lparr>am_loras := [lora]\<rparr>] None 0"

definition demo_acquired :: "string \<Rightarrow> (nat, unit, unit) engine" where
  "demo_acquired lora = (if lora = [] then demo_engine lora else lora_acquire lora (demo_engine lora))"

lemma demo_verify: "InputParamsVerify demo_ecfg (demo_content n lora) = (if n \<le> 8 then Inr (ALLSPARK_SUCCESS, demo_config n lora)
    else Inr (ALLSPARK_EXCEED_LIMIT_ERROR, demo_config n lora))"
  by (simp add: InputParamsVerify_def demo_ecfg_def demo_content_def demo_config_def input_ids_def demo_input_def dl_shape_def Let_def
      outside_def flt_less_def greedy_def limit_top_p_def sampling_eps_def top_logprobs_limit_def)

lemma demo_rich: "RichInputVerify (demo_content n lora) = Inr ALLSPARK_SUCCESS"
  by (simp add: RichInputVerify_def demo_content_def input_ids_def demo_input_def dl_shape_def Let_def ParseExtraEmbedding_def numeral_2_eq_2)

lemma demo_parts: "qc_inputs (demo_content n lora) = [(''input_ids'', demo_input)]" "qc_mm (demo_content n lora) = []"
  "gc_lora_name (demo_config n lora) = lora" "tt_shape demo_input = [1, 2]"
  by (simp_all add: demo_content_def demo_config_def demo_input_def)

definition demo_posted :: "int \<Rightarrow> string \<Rightarrow> (nat, unit, unit) engine" where
  "demo_posted n lora = (demo_acquired lora)\<lparr>eg_promises := [None], eg_msg_queue := [demo_start_msg n lora]\<rparr>"

lemma demo_start_call: "n \<le> 8 \<Longrightarrow> StartRequestApi demo_ecfg True 0 0 ''a'' [] (Some (demo_content n lora)) (demo_engine lora) =
    (Inr ALLSPARK_SUCCESS, demo_posted n lora)"
  by (simp add: StartRequestApi_def demo_verify demo_rich demo_parts send_start_def input_ids_def dl_shape_def Let_def
      demo_posted_def demo_acquired_def demo_engine_def engine_start_def new_promise_def post_def demo_start_msg_def demo_handle_def
      lora_acquire_def)

lemmas engine_run = handle_message_def handle_start_def StartRequestImpl_def ranks_call_def on_ranks_def rank_start_def
  as_status_ok_def StartRequestImpl_model_def new_tensor_def new_req_def map_insert_def generate_config.defs gen_config.truncate_def

definition demo_started :: "int \<Rightarrow> string \<Rightarrow> (nat, unit, unit) engine" where
  "demo_started n lora = (demo_acquired lora)\<lparr>eg_promises := [None],
     eg_workers := [demo_model\<lparr>
       am_tensors := am_tensors demo_model @ [demo_input, tt_new ''generated_ids_global'' CPU [1, 8]],
       am_requests := [(Request_new 0 ''a'' [(''input_ids'', 2)] [(''generated_ids_global'', 3)] ((demo_gen n)\<lparr>gc_lora_name := lora\<rparr>) [])
         \<lparr>rq_input_len := 2, rq_origin_len := 2\<rparr>],
       am_pending := [0], am_request_map := [(''a'', 0)], am_loras := [lora]\<rparr>],
     eg_handles := [(''a'', demo_handle)], eg_queues := [(''a'', ResultQueueImpl_new 0 ''a'')]\<rparr>"

lemmas engine_defs = demo_started_def demo_posted_def demo_acquired_def demo_engine_def engine_start_def demo_handle_def demo_input_def
  demo_ecfg_def rank_cfg_def lora_acquire_def

lemma demo_handle_start:
  "handle_message (\<lambda>_. demo_env 7) demo_ecfg (demo_start_msg n lora) ((demo_posted n lora)\<lparr>eg_msg_queue := []\<rparr>) = (Inr (), demo_started n lora)"
  by (simp add: engine_run engine_defs demo_start_msg_def demo_defs Shape_at_def demo_config_def Let_def liftE_def map_at_def)

text \<open>The flag says that the round stops after the messages, as it does on the CPU when not all parts of the
  machine have as many messages.\<close>

definition demo_eenv :: "bool \<Rightarrow> (nat, unit, unit) engine_env" where
  "demo_eenv retry = \<lparr>ee_message = (\<lambda>_ _. demo_env 7), ee_context = (\<lambda>_ _. demo_env 7), ee_continue = (\<lambda>_ _. demo_env 7),
     ee_random = (\<lambda>_. 0), ee_log_probs = (\<lambda>_. None), ee_sem_retry = retry\<rparr>"

lemma demo_started_fields:
  "eg_synchronizing (demo_started n lora) = False" "eg_handles (demo_started n lora) = [(''a'', demo_handle)]"
  "eg_queues (demo_started n lora) = [(''a'', ResultQueueImpl_new 0 ''a'')]" "eg_asleep (demo_posted n lora) = False"
  "eg_looping (demo_posted n lora) = True" "eg_synchronizing (demo_posted n lora) = False"
  "eg_msg_queue (demo_posted n lora) = [demo_start_msg n lora]" "(demo_posted n lora)\<lparr>eg_no_execution := False\<rparr> = demo_posted n lora"
  by (auto simp: engine_defs)

lemma demo_message_round:
  "loop_round (demo_eenv True) demo_ecfg (demo_posted n lora) = (Inr (), (demo_started n lora)\<lparr>eg_no_execution := True\<rparr>)"
  by (simp add: loop_round_def demo_eenv_def demo_started_fields demo_handle_start may_sleep_def Let_def) (simp add: demo_ecfg_def)

lemma demo_eviction: "ec_eviction demo_ecfg = MaxLength" by (simp add: demo_ecfg_def)

lemma demo_engine_reach: "engine_reach demo_ecfg (demo_engine lora)"
  unfolding demo_engine_def by (rule engine_reach.start) (simp_all add: demo_model_def)

lemma demo_posted_reach: "n \<le> 8 \<Longrightarrow> engine_reach demo_ecfg (demo_posted n lora)"
  by (rule engine_reach.start_request [OF demo_engine_reach _ demo_start_call]) (simp_all add: demo_engine_def engine_start_def)

lemma demo_started_reach: "n \<le> 8 \<Longrightarrow> engine_reach demo_ecfg ((demo_started n lora)\<lparr>eg_no_execution := True\<rparr>)"
  by (rule engine_reach.round [OF demo_posted_reach demo_message_round])

lemma demo_engine_fields:
  "eg_workers (demo_engine lora) = [demo_model\<lparr>am_loras := [lora]\<rparr>]" "eg_handles (demo_engine lora) = []" "eg_queues (demo_engine lora) = []"
  "eg_waiting (demo_engine lora) = None" "eg_msg_queue (demo_engine lora) = []" "eg_promises (demo_engine lora) = []"
  "eg_asleep (demo_engine lora) = False" "eg_looping (demo_engine lora) = True" "eg_synchronizing (demo_engine lora) = False"
  "eg_graceful_stop (demo_engine lora) = False" "eg_sync_pending (demo_engine lora) = []" "eg_model_stopping (demo_engine lora) = False"
  "eg_stop_promise (demo_engine lora) = None"
  by (simp_all add: demo_engine_def engine_start_def)

text \<open>A rank without requests does nothing.\<close>

lemma demo_idle_rank:
  "GenerateContinueContext (demo_env 7) (rank_cfg demo_ecfg 0) b (demo_model\<lparr>am_loras := ls\<rparr>) = (Inr ALLSPARK_EMPTY_REQUEST, demo_model\<lparr>am_loras := ls\<rparr>)"
  "AllocDecoderMemory (demo_env 7) (rank_cfg demo_ecfg 0) (demo_model\<lparr>am_loras := ls\<rparr>) = (Inr ALLSPARK_SUCCESS, demo_model\<lparr>am_loras := ls\<rparr>)"
  "GenerateContinue (demo_env 7) (rank_cfg demo_ecfg 0) (demo_model\<lparr>am_loras := ls\<rparr>) = (Inr ALLSPARK_EMPTY_REQUEST, demo_model\<lparr>am_loras := ls\<rparr>)"
  by (simp_all add: GenerateContinueContext_def AllocDecoderMemory_def GenerateContinue_def demo_ecfg_def rank_cfg_def demo_defs demo_run)

lemma demo_idle_phase:
  assumes "eg_workers eg = [demo_model\<lparr>am_loras := ls\<rparr>]" "eg_handles eg = []"
  shows "run_phase (demo_eenv b) demo_ecfg eg = andThen (finish_sync eg) (\<lambda>_ eg. stop_check eg)"
proof -
  have cfg: "ec_registered demo_ecfg" "ec_is_generate demo_ecfg" "ec_scheduling demo_ecfg = ContextPriority" by (simp_all add: demo_ecfg_def)
  have w: "eg\<lparr>eg_workers := [demo_model\<lparr>am_loras := ls\<rparr>]\<rparr> = eg" using assms(1) by simp
  have 1: "RunTextGenerationContext (\<lambda>_. demo_env 7) demo_ecfg True eg = (Inr ALLSPARK_EMPTY_REQUEST, eg)"
    using assms(1) w by (simp add: RunTextGenerationContext_def ranks_call_def on_ranks_def cfg task_status_def demo_idle_rank)
  have 2: "RunTextGenerationContinue (\<lambda>_. demo_env 7) demo_ecfg eg = (Inr ALLSPARK_EMPTY_REQUEST, eg)"
    using assms(1) w by (simp add: RunTextGenerationContinue_def ranks_call_def on_ranks_def cfg task_status_def demo_idle_rank thenOk_def
        as_status_ok_def)
  show ?thesis
    using assms(2) 1 2 by (simp add: run_phase_def RunEngineContext_def cfg demo_eenv_def context_loop.simps [of _ _ 0] UpdateResult_def
        decode_loop.simps [of _ _ _ 0])
qed
lemma demo_config_cpu: "ec_cuda demo_ecfg = False" by (simp add: demo_ecfg_def)

text \<open>The engine has been asked for the synchronisation of an unknown request.\<close>

definition demo_syncing :: "(nat, unit, unit) engine" where
  "demo_syncing = (demo_engine [])\<lparr>eg_promises := [None], eg_waiting := Some 0, eg_synchronizing := True, eg_deferred := Some 0,
     eg_sync_pending := [''b''], eg_no_execution := True\<rparr>"

lemma demo_syncing_reach: "engine_reach demo_ecfg demo_syncing"
proof -
  let ?s = "snd (SyncRequestApi True (Some ''b'') (demo_engine []))"
  have "engine_reach demo_ecfg ?s" by (rule engine_reach.sync_request [OF demo_engine_reach]) (simp add: demo_engine_fields)
  moreover have "loop_round (demo_eenv True) demo_ecfg ?s = (Inr (), demo_syncing)"
    by (simp add: SyncRequestApi_def control_call_def new_promise_def post_def loop_round_def demo_engine_fields handle_message_def
        demo_eenv_def demo_config_cpu demo_syncing_def)
  ultimately show ?thesis by (rule engine_reach.round)
qed

lemma demo_syncing_round: "loop_round (demo_eenv False) demo_ecfg demo_syncing = (Inr (), demo_syncing\<lparr>eg_no_execution := False\<rparr>)"
proof -
  let ?s = "demo_syncing\<lparr>eg_no_execution := False\<rparr>"
  have "run_phase (demo_eenv False) demo_ecfg ?s = andThen (finish_sync ?s) (\<lambda>_ eg. stop_check eg)"
    by (rule demo_idle_phase) (simp_all add: demo_syncing_def demo_engine_fields)
  then have "run_phase (demo_eenv False) demo_ecfg ?s = (Inr (), ?s)"
    by (simp add: finish_sync_def stop_check_def demo_syncing_def demo_engine_fields)
  moreover have "eg_asleep demo_syncing = False" "eg_looping demo_syncing" "eg_synchronizing demo_syncing"
    by (simp_all add: demo_syncing_def demo_engine_fields)
  ultimately show ?thesis
    by (simp add: loop_round_def demo_config_cpu demo_eenv_def)
qed

definition demo_release :: control_message where
  "demo_release = \<lparr>cm_msg = ReleaseRequestMsg, cm_promise = 0, cm_uuid = ''a'', cm_config = None, cm_handle = None, cm_queue = None\<rparr>"

lemma fold_upd_req_tensors: "am_tensors (fold (\<lambda>r. upd_req r f) rs m) = am_tensors m"
  by (induction rs arbitrary: m) (simp_all add: upd_req_def)

section \<open>Properties\<close>

text \<open>C7: in every state that the calls of the user and the rounds of the thread can reach, in any order
  and with any failures, every rank has a batch within its maximum and sound queues, and the two maps of the
  engine have the same keys, one entry for each, with every handle under its own name: no handle is without
  its queue.\<close>

theorem engine_reachable:
  assumes "engine_reach c eg"
  shows "eg_workers eg \<noteq> [] \<and>
    (\<forall>m \<in> set (eg_workers eg). model_inv m \<and> GetGenCtxListSize m \<le> max 0 (mc_max_batch (ec_model c))) \<and>
    wf_map (eg_handles eg) \<and> wf_map (eg_queues eg) \<and>
    (\<forall>k. map_of (eg_handles eg) k = None \<longleftrightarrow> map_of (eg_queues eg) k = None) \<and>
    (\<forall>k h. map_of (eg_handles eg) k = Some h \<longrightarrow> rh_uuid h = k) \<and> \<not> missing_queue eg"
proof -
  have inv: "engine_inv c eg" using assms by (rule engine_reach_engine_inv)
  then have agree: "maps_agree (eg_handles eg) (eg_queues eg)" by (simp add: engine_inv_def)
  have "GetGenCtxListSize m \<le> max 0 (mc_max_batch (ec_model c))" if "m \<in> set (eg_workers eg)" for m
    using inv that by (auto simp: engine_inv_def fits_def batch_max_def GetGenCtxListSize_def)
  moreover have "\<not> missing_queue eg"
  proof -
    have "map_of (eg_queues eg) (rh_uuid h) \<noteq> None" if "(k, h) \<in> set (eg_handles eg)" for k h
    proof -
      have "map_of (eg_handles eg) k = Some h" using agree that by (simp add: maps_agree_def)
      with agree show ?thesis unfolding maps_agree_def by (metis option.distinct(1))
    qed
    then show ?thesis by (auto simp: missing_queue_def list_ex_iff)
  qed
  ultimately show ?thesis using inv agree by (auto simp: engine_inv_def fits_def maps_agree_def simp del: map_of_eq_Some_iff)
qed

theorem engine_reachable_witness:
  "engine_reach demo_ecfg ((demo_started 5 [])\<lparr>eg_no_execution := True\<rparr>) \<and> \<not> missing_queue ((demo_started 5 [])\<lparr>eg_no_execution := True\<rparr>) \<and>
   model_inv (hd (eg_workers ((demo_started 5 [])\<lparr>eg_no_execution := True\<rparr>)))"
proof -
  have r: "engine_reach demo_ecfg ((demo_started 5 [])\<lparr>eg_no_execution := True\<rparr>)" by (rule demo_started_reach) simp
  from engine_reachable [OF r] r show ?thesis by (metis list.set_sel(1))
qed

text \<open>C8: the two loops of a round end: running contexts stops because every successful run takes a request
  from the queue of rank 0, and decoding stops because every victim leaves the running requests, whatever
  the kernels, the sampler and the allocators do.\<close>

theorem engine_loops_end:
  assumes "engine_reach c eg"
  shows "context_loop e c n eg \<noteq> None \<and> decode_loop e rand c n eg \<noteq> None"
  using context_loop_ends [OF engine_reach_engine_inv [OF assms], of e n]
    decode_loop_ends [OF engine_reach_engine_inv [OF assms], of e rand n] by auto

theorem engine_loops_end_witness:
  "engine_reach demo_ecfg (demo_engine []) \<and> context_loop (\<lambda>_ _. demo_env 7) demo_ecfg 0 (demo_engine []) \<noteq> None"
  using engine_loops_end [OF demo_engine_reach] demo_engine_reach by blast

text \<open>C9: over any series of calls for one request, whose tokens and log probabilities are only appended
  between the calls, the elements handed to its result queue hold together exactly the tokens generated since
  the first call, each once and in order, and nothing of the prompt; with them come the log probabilities of
  these tokens when the request wants them, and none when it does not.\<close>

theorem fetch_delivers_all:
  assumes "list_all2 (finds wants (rh_context_length h) (rq_id q)) calls founds" "growing founds" "founds \<noteq> []"
    "last founds = (xs, as, bs)" "rh_context_length h + rh_generate_length h < 2 ^ 64"
  shows "\<exists>els h'. fetch_series q h rq calls = Inr (els, h') \<and>
    concat (map ge_ids els) = drop (rh_context_length h + rh_generate_length h) xs \<and>
    concat (map ge_log_probs els) =
      (if wants then take (length xs - (rh_context_length h + rh_generate_length h)) (drop (rh_generate_length h) as) else []) \<and>
    concat (map ge_token_logprobs els) =
      (if wants then take (length xs - (rh_context_length h + rh_generate_length h)) (drop (rh_generate_length h) bs) else [])"
  using fetch_series_delivers [OF assms(1) refl refl assms(2-5), of rq] by (simp only: logs_between_def diff_add_inverse)

text \<open>Three calls on two, two and four generated tokens behind a prompt of two, one of which the user has
  got already, with their log probabilities.\<close>

definition demo_call :: "64 word list \<Rightarrow> log_probs \<times> tok_tensor" where
  "demo_call xs = ((\<lambda>_. Some (map (\<lambda>x. [(uint x, 1 / 2)]) (drop 2 xs), map (\<lambda>x. 1 / 2) (drop 2 xs))), demo_tensor xs ''t'')"

definition demo_found :: "64 word list \<Rightarrow> 64 word list \<times> probs list \<times> rat list" where
  "demo_found xs = (xs, map (\<lambda>x. [(uint x, 1 / 2)]) (drop 2 xs), map (\<lambda>x. 1 / 2) (drop 2 xs))"

theorem fetch_delivers_all_witness:
  "\<exists>els h'. fetch_series demo_request (demo_handle\<lparr>rh_generate_length := 1\<rparr>) (ResultQueueImpl_new 0 ''a'')
       [demo_call [5, 6, 7, 8], demo_call [5, 6, 7, 8], demo_call [5, 6, 7, 8, 9, 10]] = Inr (els, h') \<and>
     concat (map ge_ids els) = [8, 9, 10] \<and>
     concat (map ge_log_probs els) = [[(8, 1 / 2)], [(9, 1 / 2)], [(10, 1 / 2)]] \<and>
     concat (map ge_token_logprobs els) = [1 / 2, 1 / 2, 1 / 2]"
  using fetch_delivers_all [of True "demo_handle\<lparr>rh_generate_length := 1\<rparr>" demo_request
      "map demo_call [[5, 6, 7, 8], [5, 6, 7, 8], [5, 6, 7, 8, 9, 10]]"
      "map demo_found [[5, 6, 7, 8], [5, 6, 7, 8], [5, 6, 7, 8, 9, 10]]" "[5, 6, 7, 8, 9, 10]"
      "[[(7, 1 / 2)], [(8, 1 / 2)], [(9, 1 / 2)], [(10, 1 / 2)]]" "[1 / 2, 1 / 2, 1 / 2, 1 / 2]" "ResultQueueImpl_new 0 ''a''"]
  by (simp add: demo_call_def demo_found_def finds_def holds_tokens_def demo_tensor_def growing_def demo_handle_def)

text \<open>C21: the victim of a full cache, with the strategy of the maximal length, is the first of the longest
  running requests: none is longer, and every earlier one is shorter.\<close>

theorem victim_is_first_longest:
  assumes "ec_eviction c = MaxLength" "ids \<noteq> []" "length lens = length ids"
  shows "\<exists>v < length ids. ChooseVictimRequest c random ids lens = ids ! v \<and>
    (\<forall>j < length ids. lens ! j \<le> lens ! v) \<and> (\<forall>j < v. lens ! j < lens ! v)"
  using assms longest_first [of "length lens" lens 0] longest_less [of 0 lens "length lens"]
  by (intro exI [of _ "longest lens 0 (length lens)"]) (auto simp: ChooseVictimRequest_def)

theorem victim_is_first_longest_witness:
  "ChooseVictimRequest demo_ecfg 0 [''a'', ''b'', ''c''] [3, 7, 7] = ''b''"
proof -
  let ?ids = "[''a'', ''b'', ''c'']" and ?lens = "[3, 7, 7] :: nat list"
  have "\<exists>v < length ?ids. ChooseVictimRequest demo_ecfg 0 ?ids ?lens = ?ids ! v \<and>
      (\<forall>j < length ?ids. ?lens ! j \<le> ?lens ! v) \<and> (\<forall>j < v. ?lens ! j < ?lens ! v)"
    by (rule victim_is_first_longest [OF demo_eviction]) simp_all
  then obtain v where v: "v < length ?ids" "ChooseVictimRequest demo_ecfg 0 ?ids ?lens = ?ids ! v"
    "\<forall>j < length ?ids. ?lens ! j \<le> ?lens ! v" "\<forall>j < v. ?lens ! j < ?lens ! v" by blast
  have "v = 1" using v(1) v(3) [rule_format, of 1] v(4) [rule_format, of 1] by (cases v rule: nat.exhaust) (auto simp: less_Suc_eq)
  with v(2) show ?thesis by simp
qed

text \<open>C10: while a synchronisation is pending, a round handles no message and loses none, and a request leaves
  the set that is waited for only when its result queue has ended; the synchronisation ends only when the set
  is empty. So a name without handle, as of a request that has been released, is waited for forever, while the
  caller of \<open>SyncRequest\<close> keeps all other calls out.\<close>

theorem sync_waits_for_all:
  assumes "engine_reach c eg" "eg_synchronizing eg" "loop_round e c eg = (Inr (), eg')"
  shows "eg_msg_queue eg' = eg_msg_queue eg \<and>
    (\<forall>k \<in> set (eg_sync_pending eg). k \<in> set (eg_sync_pending eg') \<or> map_of (eg_handles eg) k \<noteq> None \<and> ended eg' k) \<and>
    (\<not> eg_synchronizing eg' \<longrightarrow> (\<forall>k \<in> set (eg_sync_pending eg). ended eg' k)) \<and>
    (\<forall>k \<in> set (eg_sync_pending eg). map_of (eg_handles eg) k = None \<longrightarrow>
       eg_synchronizing eg' \<and> k \<in> set (eg_sync_pending eg') \<and> map_of (eg_handles eg') k = None)"
  using sync_round [OF engine_reach_engine_inv [OF assms(1)] assms(2,3)] by auto

theorem sync_waits_for_all_witness:
  "engine_reach demo_ecfg demo_syncing \<and> (\<exists>eg'. loop_round (demo_eenv False) demo_ecfg demo_syncing = (Inr (), eg') \<and>
     eg_synchronizing eg' \<and> ''b'' \<in> set (eg_sync_pending eg'))"
proof -
  have "eg_synchronizing demo_syncing" "''b'' \<in> set (eg_sync_pending demo_syncing)" "map_of (eg_handles demo_syncing) ''b'' = None"
    by (simp_all add: demo_syncing_def demo_engine_fields)
  with sync_waits_for_all [OF demo_syncing_reach _ demo_syncing_round] demo_syncing_reach demo_syncing_round show ?thesis by blast
qed

text \<open>C11: the thread of a model ends only after \<open>StopModel\<close>, with no unfinished request on rank 0 and no
  message left; its caller is answered with success exactly when every request has been released.\<close>

theorem thread_ends_clean:
  assumes "engine_reach c eg" "eg_looping eg" "loop_round e c eg = (Inr (), eg')" "\<not> eg_looping eg'"
  shows "eg_graceful_stop eg' \<and> eg_model_stopped eg' \<and> unfinished eg' = 0 \<and> eg_msg_queue eg' = [] \<and>
    (\<exists>p < length (eg_promises eg'). eg_stop_promise eg' = Some p \<and>
       eg_promises eg' ! p = Some (if eg_queues eg' = [] \<and> eg_handles eg' = [] then ALLSPARK_SUCCESS else ALLSPARK_RUNTIME_ERROR))"
proof -
  obtain eg2 where s: "eg_looping eg2" "posted eg2 (eg_msg_queue eg2)" "stop_check eg2 = (Inr (), eg')"
    using loop_round_parts [OF engine_reach_engine_inv [OF assms(1)] assms(3) engine_reach_posted [OF assms(1)]] assms(2,4) by blast
  with assms(4) obtain p where p: "eg_stop_promise eg2 = Some p" "p < length (eg_promises eg2)"
    by (auto simp: stop_check_def posted_def split: if_splits option.splits)
  with s assms(4) show ?thesis
    by (auto simp: stop_check_def set_promise_def unfinished_def split: if_splits)
qed

theorem thread_ends_clean_witness:
  "\<exists>eg'. loop_round (demo_eenv False) demo_ecfg (snd (StopModelApi True (demo_engine []))) = (Inr (), eg') \<and>
     eg_model_stopped eg' \<and> eg_promises eg' = [Some ALLSPARK_SUCCESS]"
proof -
  let ?s = "snd (StopModelApi True (demo_engine []))"
  have reach: "engine_reach demo_ecfg ?s" by (rule engine_reach.stop_model [OF demo_engine_reach])
  let ?t = "(demo_engine [])\<lparr>eg_promises := [None], eg_model_stopping := True, eg_graceful_stop := True, eg_stop_promise := Some 0\<rparr>"
  let ?u = "set_promise 0 ALLSPARK_SUCCESS (?t\<lparr>eg_final_released := True, eg_model_stopped := True, eg_looping := False\<rparr>)"
  have s: "eg_looping ?s" "eg_asleep ?s = False" "eg_synchronizing ?s = False" "eg_msg_queue ?s = [\<lparr>cm_msg = GracefulStopModelMsg, cm_promise = 0,
     cm_uuid = control_uuid, cm_config = None, cm_handle = None, cm_queue = None\<rparr>]"
    by (simp_all add: StopModelApi_def new_promise_def post_def demo_engine_fields)
  have t: "?s\<lparr>eg_no_execution := False, eg_msg_queue := [], eg_graceful_stop := True, eg_model_stopping := True, eg_stop_promise := Some 0\<rparr> = ?t"
    and t': "?t\<lparr>eg_no_execution := False\<rparr> = ?t"
    by (simp_all add: StopModelApi_def new_promise_def post_def demo_engine_fields) (simp_all add: demo_engine_def engine_start_def)
  have "run_phase (demo_eenv False) demo_ecfg ?t = andThen (finish_sync ?t) (\<lambda>_ eg. stop_check eg)"
    by (rule demo_idle_phase) (simp_all add: demo_engine_fields)
  then have p: "run_phase (demo_eenv False) demo_ecfg ?t = (Inr (), ?u)"
    by (simp add: finish_sync_def stop_check_def demo_engine_fields unfinished_def GetUnFinishedRequest_def demo_defs size_t_of_def)
  have run: "loop_round (demo_eenv False) demo_ecfg ?s = (Inr (), ?u)"
    using s t t' p by (simp add: loop_round_def handle_message_def may_sleep_def demo_config_cpu demo_eenv_def demo_engine_fields Let_def)
  have "\<not> eg_looping ?u" by (simp add: set_promise_def)
  from thread_ends_clean [OF reach s(1) run this] run show ?thesis by (auto simp: set_promise_def demo_engine_fields)
qed

text \<open>C38: the use of a LoRA that \<open>StartRequest\<close> has counted is given back only when a request is seen to
  finish. Releasing a request that is still running removes its handle and leaves the count: the LoRA stays in
  use, and from then on it can neither be unloaded nor loaded again.\<close>

theorem release_keeps_lora_in_use:
  assumes "engine_reach c eg" "cm_msg msg = ReleaseRequestMsg" "handle_message e c msg eg = (Inr (), eg')"
    "lora_in_use l eg" "l \<noteq> []"
  shows "map_of (eg_handles eg') (cm_uuid msg) = None \<and> map_of (eg_queues eg') (cm_uuid msg) = None \<and>
    eg_loras_in_use eg' = eg_loras_in_use eg \<and> eg_lora_use_count eg' = eg_lora_use_count eg \<and>
    (l \<in> set (am_loras (hd (eg_workers eg'))) \<longrightarrow> UnloadLoraByName f (Some l) eg' = (ALLSPARK_LORA_IN_USE, eg')) \<and>
    (l \<notin> set (am_loras (hd (eg_workers eg'))) \<longrightarrow> LoadLoraByName f (Some l) eg' = (ALLSPARK_LORA_IN_USE, eg'))"
proof -
  let ?J = "\<lambda>s. eg_loras_in_use s = eg_loras_in_use eg \<and> eg_lora_use_count s = eg_lora_use_count eg \<and> eg_handles s = eg_handles eg \<and>
    eg_queues s = eg_queues eg"
  have but: "?J s'" if "?J s" "but_ranks s s'" for s s'
    using that by (cases s; cases s') (simp add: but_ranks_def)
  obtain st s1 where s1: "StopRequestByRequestID e c (cm_uuid msg) eg = (Inr st, s1)"
    and r1: "\<exists>st s2. ReleaseRequestByRequestID c (cm_uuid msg) s1 = (Inr st, s2)"
    using assms(2,3) by (auto simp: handle_message_def handle_release_def)
  then obtain st2 s2 where s2: "ReleaseRequestByRequestID c (cm_uuid msg) s1 = (Inr st2, s2)" by blast
  have j1: "?J s1" using but [of eg s1] StopRequestByRequestID_but [of eg e c "cm_uuid msg"] s1 by simp
  have j: "?J s2" using but [OF j1, of s2] ReleaseRequestByRequestID_but [of s1 c "cm_uuid msg"] s2 by simp
  have m: "maps_agree (eg_handles eg) (eg_queues eg)" using engine_reach_engine_inv [OF assms(1)] by (simp add: engine_inv_def)
  have none: "map_of (eg_handles eg) (cm_uuid msg) = None" if "map_of (eg_queues eg) (cm_uuid msg) = None"
    using m that unfolding maps_agree_def by blast
  have gone: "map_of (eg_handles eg') (cm_uuid msg) = None \<and> map_of (eg_queues eg') (cm_uuid msg) = None \<and>
    eg_loras_in_use eg' = eg_loras_in_use eg \<and> eg_lora_use_count eg' = eg_lora_use_count eg"
    using assms(2,3) s1 s2 j none
    by (auto simp: handle_message_def handle_release_def Let_def set_promise_def delete_conv split: if_splits simp del: map_of_eq_Some_iff)
  then have "lora_in_use l eg'" using assms(4) by (simp add: lora_in_use_def)
  with gone assms(5) show ?thesis by (simp add: UnloadLoraByName_def LoadLoraByName_def)
qed

theorem release_keeps_lora_in_use_witness:
  "\<exists>eg'. handle_message (\<lambda>_. demo_env 7) demo_ecfg demo_release ((demo_started 5 ''l'')\<lparr>eg_no_execution := True\<rparr>) = (Inr (), eg') \<and>
     eg_handles eg' = [] \<and> UnloadLoraByName (\<lambda>_. Pair ALLSPARK_SUCCESS) (Some ''l'') eg' = (ALLSPARK_LORA_IN_USE, eg')"
proof -
  let ?s = "(demo_started 5 ''l'')\<lparr>eg_no_execution := True\<rparr>"
  obtain eg' where run: "handle_message (\<lambda>_. demo_env 7) demo_ecfg demo_release ?s = (Inr (), eg')"
    and st: "eg_handles eg' = []" "''l'' \<in> set (am_loras (hd (eg_workers eg')))"
    by (simp add: handle_message_def handle_release_def demo_release_def StopRequestByRequestID_def ReleaseRequestByRequestID_def
        ReleaseRequest_def ranks_call_def on_ranks_def engine_defs demo_defs demo_stop as_status_ok_def Let_def set_promise_def)
  have "lora_in_use ''l'' ?s" "cm_msg demo_release = ReleaseRequestMsg"
    by (simp_all add: lora_in_use_def engine_defs demo_release_def)
  with release_keeps_lora_in_use [OF demo_started_reach _ run, of "''l''" "\<lambda>_. Pair ALLSPARK_SUCCESS"] run st show ?thesis by auto
qed

text \<open>C20: a request that passes the checks has a prompt that fits the engine with two places to spare, a
  maximal length within the engine's, a batch within the maximum, a temperature that is not tiny and a
  \<open>top_p\<close> below one, or a value that is not a number, which no comparison rejects.\<close>

theorem accepted_parameters:
  assumes "InputParamsVerify c q = Inr (ALLSPARK_SUCCESS, g)"
  shows "ec_registered c \<and> ec_is_generate c \<and>
    (\<exists>t. map_of (qc_inputs q) ''input_ids'' = Some t \<and> 1 < length (tt_shape t) \<and> 0 < tt_shape t ! 1 \<and>
       (ec_max_length c \<noteq> 0 \<longrightarrow> tt_shape t ! 1 \<le> ec_max_length c - 2 \<and> gc_max_length g \<le> ec_max_length c) \<and>
       (ec_max_batch c \<noteq> 0 \<longrightarrow> tt_shape t ! 0 \<le> ec_max_batch c)) \<and>
    0 \<le> gc_top_k g \<and> (\<forall>x. gc_temperature g = Some x \<longrightarrow> 1 / 100000 \<le> x) \<and>
    (\<forall>x. gc_top_p g = Some x \<longrightarrow> 0 \<le> x \<and> x \<le> 1 - 1 / 1000000) \<and>
    (\<forall>x. gc_repetition_penalty g = Some x \<longrightarrow> 0 \<le> x \<and> x \<le> 2) \<and>
    (\<forall>x. gc_presence_penalty g = Some x \<longrightarrow> \<bar>x\<bar> \<le> 2) \<and> (\<forall>x. gc_frequency_penalty g = Some x \<longrightarrow> \<bar>x\<bar> \<le> 2) \<and>
    (gc_logprobs g \<longrightarrow> gc_top_logprobs g \<le> 10)"
proof -
  let ?g = "limit_top_p (greedy (qc_config q))"
  obtain t where t: "map_of (qc_inputs q) ''input_ids'' = Some t" "1 < length (tt_shape t)" "0 < tt_shape t ! 1"
    "ec_registered c" "ec_is_generate c" "g = ?g" "0 \<le> gc_top_k (qc_config q)" "\<not> outside 0 1 (gc_top_p (qc_config q))"
    "ec_max_length c \<noteq> 0 \<longrightarrow> tt_shape t ! 1 \<le> ec_max_length c - 2 \<and> gc_max_length (qc_config q) \<le> ec_max_length c"
    "ec_max_batch c \<noteq> 0 \<longrightarrow> tt_shape t ! 0 \<le> ec_max_batch c" "gc_logprobs ?g \<longrightarrow> gc_top_logprobs ?g \<le> 10"
    "\<not> outside 0 2 (gc_repetition_penalty ?g)" "\<not> outside (- 2) 2 (gc_presence_penalty ?g)" "\<not> outside (- 2) 2 (gc_frequency_penalty ?g)"
    using assms
    by (auto simp: InputParamsVerify_def Let_def input_ids_def dl_shape_def top_logprobs_limit_def split: if_splits option.splits)
  have in_range: "\<forall>x. v = Some x \<longrightarrow> lo \<le> x \<and> x \<le> hi" if "\<not> outside lo hi v" for lo hi v
    using that by (auto simp: outside_def flt_less_def)
  have same: "gc_max_length ?g = gc_max_length (qc_config q)" by (simp add: greedy_def limit_top_p_def)
  have k: "0 \<le> gc_top_k ?g" using t(7) by (simp add: greedy_def limit_top_p_def)
  have temp: "\<forall>x. gc_temperature ?g = Some x \<longrightarrow> 1 / 100000 \<le> x"
    by (auto simp: greedy_def limit_top_p_def flt_less_def sampling_eps_def)
  have p: "\<forall>x. gc_top_p ?g = Some x \<longrightarrow> 0 \<le> x \<and> x \<le> 1 - 1 / 1000000"
    using in_range [OF t(8)] by (auto simp: greedy_def limit_top_p_def flt_less_def abs_if split: option.splits if_splits)
  show ?thesis
    using t same k temp p in_range [OF t(12)] in_range [OF t(13)] in_range [OF t(14)] by (auto simp: abs_le_iff)
qed

theorem accepted_parameters_witness:
  "InputParamsVerify demo_ecfg (demo_content 5 []) = Inr (ALLSPARK_SUCCESS, demo_config 5 []) \<and> gc_max_length (demo_config 5 []) \<le> ec_max_length demo_ecfg"
proof -
  have v: "InputParamsVerify demo_ecfg (demo_content 5 []) = Inr (ALLSPARK_SUCCESS, demo_config 5 [])" by (simp add: demo_verify)
  moreover have "ec_max_length demo_ecfg \<noteq> 0" by (simp add: demo_ecfg_def)
  ultimately show ?thesis using accepted_parameters [OF v] by auto
qed

text \<open>C39: a request that is stopped while it waits in the queue of rank 0 is given the status of a finished
  one, but its output tensor still has the shape it was made with and has never been written. The next
  \<open>UpdateResult\<close> takes the whole tensor for generated tokens and reads memory that was never initialised.\<close>

theorem stop_pending_reads_unwritten:
  assumes "engine_reach c eg" "map_of (eg_handles eg) k = Some h" "map_of (eg_queues eg) k = Some q"
    "rs_status q \<noteq> GenerateFinished \<and> rs_status q \<noteq> GenerateInterrupted"
    "GetRequestById k (hd (eg_workers eg)) = Some r" "r \<in> set (am_pending (hd (eg_workers eg)))"
    "rq_id (req (hd (eg_workers eg)) r) = k" "map_at (rq_outputs (req (hd (eg_workers eg)) r)) ''generated_ids_global'' = Inr p"
    "tensor (hd (eg_workers eg)) p = tt_new name dev [1, int n]" "rh_context_length h + rh_generate_length h < n" "n < 2 ^ 64"
    "ec_registered c" "StopRequestByRequestID e c k eg = (Inr st, eg')"
  shows "r \<notin> set (am_pending (hd (eg_workers eg'))) \<and> rq_status (req (hd (eg_workers eg')) r) = GenerateFinished \<and>
    fst (update_entry lp k eg') = Inl UndefinedBehaviour"
proof -
  let ?m = "hd (eg_workers eg)"
  let ?m' = "snd (StopPendingRequest k ?m)"
  have inv: "engine_inv c eg" using assms(1) by (rule engine_reach_engine_inv)
  then have ne: "eg_workers eg \<noteq> []" and mi: "model_inv ?m" by (auto simp: engine_inv_def fits_def)
  have uuid: "rh_uuid h = k" using engine_inv_entry(1) [OF inv assms(2)] .
  have "StopRequest (e 0) (rank_cfg c 0) k ?m = ret ALLSPARK_SUCCESS ?m'"
    using assms(6,7) by (intro StopRequest_pending) blast
  then have w: "hd (eg_workers eg') = ?m'" "eg_workers eg' \<noteq> []"
    using arg_cong [OF assms(13), of snd] ne assms(12)
    by (auto simp: StopRequestByRequestID_def ranks_call_snd on_ranks_snd hd_map hd_conv_nth)
  have but: "but_ranks eg eg'" using StopRequestByRequestID_but [of eg e c k] assms(13) by simp
  have same: "eg_handles eg' = eg_handles eg" "eg_queues eg' = eg_queues eg" using but_ranks_fields [OF but] by simp_all
  have "distinct (filter (\<lambda>r. rq_id (req ?m r) = k) (am_pending ?m))" "r < length (am_requests ?m)"
    using mi assms(6) by (auto simp: model_inv_def)
  then have rq: "req ?m' r = (req ?m r)\<lparr>rq_status := GenerateFinished\<rparr>"
    using fold_upd_req_nth [of "filter (\<lambda>r. rq_id (req ?m r) = k) (am_pending ?m)" r
        "?m\<lparr>am_pending := filter (\<lambda>r. rq_id (req ?m r) \<noteq> k) (am_pending ?m)\<rparr>" "\<lambda>q. q\<lparr>rq_status := GenerateFinished\<rparr>"] assms(6,7)
    by (simp add: StopPendingRequest_def Let_def)
  have fr: "am_tensors ?m' = am_tensors ?m" "am_request_map ?m' = am_request_map ?m"
    by (simp_all add: StopPendingRequest_def Let_def fold_upd_req fold_upd_req_tensors)
  have none: "read_buf old (n - old) (tt_buf (tt_new name dev [1, int n])) = Inl UndefinedBehaviour" if "old < n" for old
    using that by (auto simp: read_buf_def tt_new_def shape_count_def Let_def)
  have fetch: "FetchGenerationResult lp' q2 (tensor ?m' p) h2 q3 = Inl UndefinedBehaviour"
    if "rh_context_length h2 + rh_generate_length h2 = rh_context_length h + rh_generate_length h" for lp' q2 h2 q3
    using that assms(9-11) fr none [OF assms(10)]
    by (simp add: FetchGenerationResult_def tt_new_def shape_count_def Shape_at_def Let_def)
  have "fst (update_running lp k h q r eg') = Inl UndefinedBehaviour"
  proof -
    obtain h2 q2 eg2 where b: "begin_update k h q (req ?m' r) eg' = (h2, q2, eg2)" by (cases "begin_update k h q (req ?m' r) eg'")
    then have "rh_context_length h2 + rh_generate_length h2 = rh_context_length h + rh_generate_length h"
      by (auto simp: begin_update_def Let_def split: if_splits)
    from fetch [OF this] b w rq assms(8) show ?thesis by (simp add: update_running_def liftE_def Let_def)
  qed
  then have "fst (update_entry lp k eg') = Inl UndefinedBehaviour"
    using assms(2-5) same w fr rq uuid by (simp add: update_entry_def GetRequestById_def Let_def)
  with w rq assms(7) show ?thesis by (simp add: StopPendingRequest_simps)
qed

theorem stop_pending_reads_unwritten_witness:
  "\<exists>eg'. StopRequestByRequestID (\<lambda>_. demo_env 7) demo_ecfg ''a'' ((demo_started 5 [])\<lparr>eg_no_execution := True\<rparr>) = (Inr ALLSPARK_SUCCESS, eg') \<and>
     fst (update_entry (\<lambda>_. None) ''a'' eg') = Inl UndefinedBehaviour"
proof -
  let ?eg = "(demo_started 5 [])\<lparr>eg_no_execution := True\<rparr>"
  obtain eg' where run: "StopRequestByRequestID (\<lambda>_. demo_env 7) demo_ecfg ''a'' ?eg = (Inr ALLSPARK_SUCCESS, eg')"
    by (simp add: StopRequestByRequestID_def ranks_call_def on_ranks_def engine_defs demo_defs demo_stop as_status_ok_def)
  have "fst (update_entry (\<lambda>_. None) ''a'' eg') = Inl UndefinedBehaviour"
    by (rule stop_pending_reads_unwritten [OF demo_started_reach _ _ _ _ _ _ _ _ _ _ _ run, of demo_handle "ResultQueueImpl_new 0 ''a''" 0 3
          "''generated_ids_global''" CPU 8, THEN conjunct2, THEN conjunct2])
      (simp_all add: engine_defs demo_defs GetRequestById_def map_at_def ResultQueueImpl_new_def InitStatInfo_def)
  with run show ?thesis by blast
qed

end
