(* ===== verification/Weight_Data.thy ===== *)
theory Weight_Data
  imports Common_Types "HOL-Library.Word"
begin

text \<open>
  The contents of dense tensors and the copies between them: the functions of
  \<open>core/tensor/tensor_utils.cpp\<close> and \<open>core/tensor/tensor.cpp\<close> that the loading of weights uses. A
  buffer is the list of its bytes and a pointer into it an offset; a copy that leaves one of the two
  buffers is undefined behaviour. The code is the one of a build with CUDA: the calls of that library
  are parameters, as are the bytes that freshly allocated memory happens to hold. Allocation succeeds
  here (its failure is the subject of the theory on tensor data), the sizes are unbounded numbers
  except for the products that the source forms in \<open>int\<close>, and an \<open>assert\<close> has no effect. No caller
  passes a device context, so a copy is never asynchronous.
\<close>

section \<open>Bytes\<close>

type_synonym byte = "8 word"

definition memcpy :: "byte list \<Rightarrow> nat \<Rightarrow> byte list \<Rightarrow> nat \<Rightarrow> nat \<Rightarrow> exn + byte list" where
  "memcpy dst d src s n =
     defined_if (d + n \<le> length dst \<and> s + n \<le> length src)
       (Inr (take d dst @ take n (drop s src) @ drop (d + n) dst))"

definition memset :: "byte list \<Rightarrow> nat \<Rightarrow> byte \<Rightarrow> nat \<Rightarrow> exn + byte list" where
  "memset dst d v n = defined_if (d + n \<le> length dst) (Inr (take d dst @ replicate n v @ drop (d + n) dst))"

text \<open>The loops over the rows, each copied by \<open>memcpy\<close> or set by \<open>memset\<close>. The source runs the rows in
  parallel; they do not overlap as long as a row is not wider than the pitch of the target.\<close>

fun copy_rows ::
  "byte list \<Rightarrow> nat \<Rightarrow> nat \<Rightarrow> byte list \<Rightarrow> nat \<Rightarrow> nat \<Rightarrow> nat \<Rightarrow> nat \<Rightarrow> exn + byte list" where
  "copy_rows dst d dpitch src s spitch width 0 = Inr dst"
| "copy_rows dst d dpitch src s spitch width (Suc h) =
     bindE (memcpy dst d src s width) (\<lambda>dst'.
       copy_rows dst' (d + dpitch) dpitch src (s + spitch) spitch width h)"

fun set_rows :: "byte list \<Rightarrow> nat \<Rightarrow> nat \<Rightarrow> byte \<Rightarrow> nat \<Rightarrow> exn + byte list" where
  "set_rows dst d pitch v 0 = Inr dst"
| "set_rows dst d pitch v (Suc h) =
     bindE (memset dst d v pitch) (\<lambda>dst'. set_rows dst' (d + pitch) pitch v h)"

text \<open>A loop whose body may fail, over the values of its index.\<close>

fun forE :: "('x \<Rightarrow> 's \<Rightarrow> exn + 's) \<Rightarrow> 'x list \<Rightarrow> 's \<Rightarrow> exn + 's" where
  "forE f [] s = Inr s"
| "forE f (x # xs) s = bindE (f x s) (forE f xs)"

text \<open>A product in \<open>int\<close> of numbers that are not negative.\<close>

definition int_mul :: "nat \<Rightarrow> nat \<Rightarrow> exn + nat" where
  "int_mul a b = defined_if (a * b \<le> 2147483647) (Inr (a * b))"

section \<open>The environment\<close>

record weight_env =
  we_fresh :: "nat \<Rightarrow> byte list"
  we_cudaMemcpy :: "byte list \<Rightarrow> nat \<Rightarrow> byte list \<Rightarrow> nat \<Rightarrow> nat \<Rightarrow> exn + byte list"
  we_cudaMemcpy2D :: "byte list \<Rightarrow> nat \<Rightarrow> nat \<Rightarrow> byte list \<Rightarrow> nat \<Rightarrow> nat \<Rightarrow> nat \<Rightarrow> nat \<Rightarrow> exn + byte list"
  we_cudaMemset :: "byte list \<Rightarrow> byte \<Rightarrow> nat \<Rightarrow> exn + byte list"

text \<open>The documented behaviour of the library: inside the buffers the calls copy and set bytes; the
  two-dimensional copy takes rows that are not wider than the two pitches.\<close>

definition weight_env_ok :: "weight_env \<Rightarrow> bool" where
  "weight_env_ok e \<longleftrightarrow>
     (\<forall>n. length (we_fresh e n) = n) \<and>
     (\<forall>dst d src s n. d + n \<le> length dst \<and> s + n \<le> length src \<longrightarrow>
        we_cudaMemcpy e dst d src s n = memcpy dst d src s n) \<and>
     (\<forall>dst d dp src s sp w h. w \<le> dp \<and> w \<le> sp \<longrightarrow>
        we_cudaMemcpy2D e dst d dp src s sp w h = copy_rows dst d dp src s sp w h) \<and>
     (\<forall>dst v n. n \<le> length dst \<longrightarrow> we_cudaMemset e dst v n = memset dst 0 v n)"

definition bytes_env :: weight_env where
  "bytes_env = \<lparr>we_fresh = (\<lambda>n. replicate n 0), we_cudaMemcpy = memcpy, we_cudaMemcpy2D = copy_rows,
     we_cudaMemset = (\<lambda>dst v n. memset dst 0 v n)\<rparr>"

lemma bytes_env_ok: "weight_env_ok bytes_env"
  by (simp add: weight_env_ok_def bytes_env_def)

section \<open>Tensors\<close>

record wtensor =
  wt_device :: device_type
  wt_dtype :: data_type
  wt_shape :: "nat list"
  wt_bytes :: "byte list"

definition dims_Count :: "nat list \<Rightarrow> nat" where
  "dims_Count s = (if s = [] then 0 else prod_list s)"

definition wt_stride :: "wtensor \<Rightarrow> nat" where
  "wt_stride t = last (wt_shape t) * SizeofType (wt_dtype t)"

definition wt_nbytes :: "wtensor \<Rightarrow> nat" where
  "wt_nbytes t = dims_Count (wt_shape t) * SizeofType (wt_dtype t)"

definition wt_GetSizeInByte :: "wtensor \<Rightarrow> nat" where
  "wt_GetSizeInByte t = max (wt_nbytes t) (length (wt_bytes t))"

definition wt_new :: "weight_env \<Rightarrow> device_type \<Rightarrow> data_type \<Rightarrow> nat list \<Rightarrow> wtensor" where
  "wt_new e dev ty s =
     \<lparr>wt_device = dev, wt_dtype = ty, wt_shape = s, wt_bytes = we_fresh e (dims_Count s * SizeofType ty)\<rparr>"

definition wt_SetShape :: "weight_env \<Rightarrow> nat list \<Rightarrow> wtensor \<Rightarrow> wtensor" where
  "wt_SetShape e s t =
     (let n = dims_Count s * SizeofType (wt_dtype t) in
      t\<lparr>wt_bytes := (if n \<le> length (wt_bytes t) then wt_bytes t else we_fresh e n), wt_shape := s\<rparr>)"

definition wt_Free :: "weight_env \<Rightarrow> wtensor \<Rightarrow> wtensor" where
  "wt_Free e t = t\<lparr>wt_bytes := we_fresh e 1\<rparr>"

definition on_device :: "device_type \<Rightarrow> device_type \<Rightarrow> bool" where
  "on_device a b \<longleftrightarrow> a = CUDA \<or> b = CUDA"

definition CopyData ::
  "weight_env \<Rightarrow> byte list \<Rightarrow> device_type \<Rightarrow> byte list \<Rightarrow> device_type \<Rightarrow> nat \<Rightarrow> exn + byte list" where
  "CopyData e dst dst_device src src_device nbytes =
     (if nbytes = 0 then Inr dst
      else if on_device src_device dst_device then we_cudaMemcpy e dst 0 src 0 nbytes
      else if src_device = CPU \<and> dst_device = CPU then memcpy dst 0 src 0 nbytes
      else Inr dst)"

definition wt_CopyDataFrom :: "weight_env \<Rightarrow> byte list \<Rightarrow> nat \<Rightarrow> device_type \<Rightarrow> wtensor \<Rightarrow> exn + wtensor" where
  "wt_CopyDataFrom e src src_bytes src_device t =
     (if wt_nbytes t = 0 then Inr t
      else
        (let n = min src_bytes (wt_nbytes t) in
         if src_device = CPU \<and> wt_device t = CPU then
           bindE (memcpy (wt_bytes t) 0 src 0 n) (\<lambda>b. Inr (t\<lparr>wt_bytes := b\<rparr>))
         else if on_device src_device (wt_device t) then
           bindE (we_cudaMemcpy e (wt_bytes t) 0 src 0 n) (\<lambda>b. Inr (t\<lparr>wt_bytes := b\<rparr>))
         else Inl (AsException ALLSPARK_RUNTIME_ERROR)))"

definition wt_ShareData :: "wtensor \<Rightarrow> wtensor \<Rightarrow> exn + wtensor" where
  "wt_ShareData rhs t =
     (if wt_shape t \<noteq> wt_shape rhs \<or> wt_dtype t \<noteq> wt_dtype rhs \<or> wt_device t \<noteq> wt_device rhs
      then Inl StdInvalidArgument
      else Inr (t\<lparr>wt_bytes := wt_bytes rhs\<rparr>))"

section \<open>Copies between tensors\<close>

definition dim :: "wtensor \<Rightarrow> nat \<Rightarrow> exn + nat" where
  "dim t i = defined_if (i < length (wt_shape t)) (Inr (wt_shape t ! i))"

definition DeepCopyVectorPart ::
  "weight_env \<Rightarrow> wtensor \<Rightarrow> nat \<Rightarrow> wtensor \<Rightarrow> nat \<Rightarrow> nat \<Rightarrow> exn + wtensor" where
  "DeepCopyVectorPart e dst dst_col src src_col len =
     (if length (wt_shape dst) \<noteq> length (wt_shape src) \<or> length (wt_shape dst) \<noteq> 1
      then Inl (AsMessage ''DeepCopyVector only support 1d tensor'')
      else if wt_dtype dst \<noteq> wt_dtype src then Inl (AsMessage ''Copy with different type vector'')
      else if len + src_col > wt_shape src ! 0 \<or> len + dst_col > wt_shape dst ! 0
      then Inl (AsMessage ''DeepCopyVector copy tensor will beyoud src tensor size. '')
      else
        bindE ((if on_device (wt_device src) (wt_device dst) then we_cudaMemcpy e else memcpy)
            (wt_bytes dst) (SizeofType (wt_dtype dst) * dst_col)
            (wt_bytes src) (SizeofType (wt_dtype src) * src_col) (len * SizeofType (wt_dtype dst)))
          (\<lambda>b. Inr (dst\<lparr>wt_bytes := b\<rparr>)))"

definition DeepCopyVector :: "weight_env \<Rightarrow> wtensor \<Rightarrow> wtensor \<Rightarrow> nat \<Rightarrow> exn + wtensor" where
  "DeepCopyVector e dst src src_col =
     (if dims_Count (wt_shape dst) > dims_Count (wt_shape src)
      then Inl (AsMessage ''DeepCopyVector copy dst tensor larger than src tensor'')
      else bindE (dim dst 0) (DeepCopyVectorPart e dst 0 src src_col))"

definition DeepCopyMatrix2DPart ::
  "weight_env \<Rightarrow> wtensor \<Rightarrow> nat \<Rightarrow> nat \<Rightarrow> wtensor \<Rightarrow> nat \<Rightarrow> nat \<Rightarrow> nat \<Rightarrow> nat \<Rightarrow> exn + wtensor" where
  "DeepCopyMatrix2DPart e dst dst_col dst_row src src_col src_row width height =
     (if length (wt_shape dst) \<noteq> length (wt_shape src) \<or> length (wt_shape dst) \<noteq> 2
      then Inl (AsMessage ''DeepCopyMatrix only support 2d tensor'')
      else if wt_dtype dst \<noteq> wt_dtype src then Inl (AsMessage ''Copy with different type vector'')
      else if height + src_row > wt_shape src ! 0 \<or> width + src_col > wt_shape src ! 1 \<or>
        height + dst_row > wt_shape dst ! 0 \<or> width + dst_col > wt_shape dst ! 1
      then Inl (AsMessage ''DeepCopymatrix copy tensor will beyoud src tensor size. '')
      else
        bindE ((if on_device (wt_device src) (wt_device dst) then we_cudaMemcpy2D e else copy_rows)
            (wt_bytes dst) (dst_row * wt_stride dst + dst_col * SizeofType (wt_dtype dst)) (wt_stride dst)
            (wt_bytes src) (src_row * wt_stride src + src_col * SizeofType (wt_dtype src)) (wt_stride src)
            (width * SizeofType (wt_dtype dst)) height)
          (\<lambda>b. Inr (dst\<lparr>wt_bytes := b\<rparr>)))"

definition DeepCopyMatrix2D :: "weight_env \<Rightarrow> wtensor \<Rightarrow> wtensor \<Rightarrow> nat \<Rightarrow> nat \<Rightarrow> exn + wtensor" where
  "DeepCopyMatrix2D e dst src src_col src_row =
     (if dims_Count (wt_shape dst) > dims_Count (wt_shape src)
      then Inl (AsMessage ''DeepCopymatrix copy dst tensor larger than src tensor'')
      else bindE (dim dst 1) (\<lambda>w. bindE (dim dst 0) (DeepCopyMatrix2DPart e dst 0 0 src src_col src_row w)))"

text \<open>\<open>CopyMatrix2D\<close> on the host: a row is copied with the length of the stride of the target; the
  width is not used.\<close>

definition CopyMatrix2D ::
  "weight_env \<Rightarrow> byte list \<Rightarrow> nat \<Rightarrow> byte list \<Rightarrow> nat \<Rightarrow> device_type \<Rightarrow> device_type \<Rightarrow> nat \<Rightarrow> nat \<Rightarrow> nat \<Rightarrow> nat \<Rightarrow>
   exn + byte list"
where
  "CopyMatrix2D e dst d src s dst_device src_device dst_stride src_stride height width =
     (if on_device src_device dst_device then we_cudaMemcpy2D e dst d dst_stride src s src_stride width height
      else copy_rows dst d dst_stride src s src_stride dst_stride height)"

definition wt_Memset :: "weight_env \<Rightarrow> wtensor \<Rightarrow> byte \<Rightarrow> exn + wtensor" where
  "wt_Memset e t v =
     (if wt_bytes t = [] then Inr t
      else if wt_device t = CPU then
        (case wt_shape t of
           [n] \<Rightarrow> bindE (memset (wt_bytes t) 0 v (wt_GetSizeInByte t)) (\<lambda>b. Inr (t\<lparr>wt_bytes := b\<rparr>))
         | [h, w] \<Rightarrow> bindE (set_rows (wt_bytes t) 0 (wt_stride t) v h) (\<lambda>b. Inr (t\<lparr>wt_bytes := b\<rparr>))
         | _ \<Rightarrow> Inr t)
      else if wt_device t = CUDA then
        bindE (we_cudaMemset e (wt_bytes t) v (wt_GetSizeInByte t)) (\<lambda>b. Inr (t\<lparr>wt_bytes := b\<rparr>))
      else Inr t)"

end
