(* ===== verification/Weight_Splitter.thy ===== *)
theory Weight_Splitter
  imports Weight_Data
begin

text \<open>
  The splitting of a weight over the ranks of a model (\<open>runtime/weight/weight_splitter.cpp\<close>) and the
  loader that uses it (\<open>DenseWeightLoader::LoadFromMemory\<close> in \<open>weight_loader.cpp\<close>). Every class of
  splitters has its test, the new shape of the part and the copy of the data; the factory is a choice
  by the mode. Dimensions and group lengths are natural numbers here that fit in \<open>int\<close>: the loader
  stops with undefined behaviour, which stands for what lies outside the model, when the header of
  the weight holds others. A rank is one of \<open>rank_size > 0\<close> many.
\<close>

section \<open>Weight information\<close>

datatype split_mode =
    NOSPLIT | VSPLIT | HSPLIT | QKVSPLIT | KVSPLIT | HSPLIT_QUANTIZE | GROUP_VSPLIT | MQA_VSPLIT
  | BATCH_VSPLIT | BATCH_HSPLIT | BATCH_KVSPLIT | SPLIT_OTHER int

text \<open>The header of a weight. A data type that the parser does not set is \<open>None\<close>, and the data mode
  is kept as the number that was read.\<close>

record tensor_info =
  ti_shape :: shape
  ti_dtype :: "data_type option"
  ti_mode :: int
  ti_split_mode :: split_mode
  ti_nnz :: int
  ti_group_list :: "int list"

definition dims :: "tensor_info \<Rightarrow> nat list" where
  "dims info = map nat (ti_shape info)"

definition groups :: "tensor_info \<Rightarrow> nat list" where
  "groups info = map nat (ti_group_list info)"

definition nranks :: "rank_info \<Rightarrow> nat" where
  "nranks ri = nat (rank_size ri)"

definition rank_no :: "rank_info \<Rightarrow> nat" where
  "rank_no ri = nat (rank_id ri)"

text \<open>The new shape of a part: the old buffer is given up first.\<close>

definition reshape :: "weight_env \<Rightarrow> nat list \<Rightarrow> wtensor \<Rightarrow> wtensor" where
  "reshape e s t = wt_SetShape e s (wt_Free e t)"

section \<open>No split\<close>

definition NoSplit_CopyWeight ::
  "weight_env \<Rightarrow> wtensor \<Rightarrow> wtensor option \<Rightarrow> byte list \<Rightarrow> nat \<Rightarrow> exn + wtensor" where
  "NoSplit_CopyWeight e dst whole ptr len =
     (case whole of
        Some w \<Rightarrow>
          if wt_device dst = wt_device w then wt_ShareData w dst
          else wt_CopyDataFrom e ptr len CPU (dst\<lparr>wt_bytes := we_fresh e len\<rparr>)
      | None \<Rightarrow> wt_CopyDataFrom e ptr len CPU (dst\<lparr>wt_bytes := we_fresh e len\<rparr>))"

section \<open>Vertical and horizontal split\<close>

definition VSplit_IsSplittable :: "rank_info \<Rightarrow> tensor_info \<Rightarrow> bool" where
  "VSplit_IsSplittable ri info =
     (case dims info of
        [h, w] \<Rightarrow> w mod nranks ri = 0
      | [n] \<Rightarrow> n mod nranks ri = 0
      | _ \<Rightarrow> False)"

definition VSplit_SetShape :: "weight_env \<Rightarrow> rank_info \<Rightarrow> tensor_info \<Rightarrow> wtensor \<Rightarrow> wtensor" where
  "VSplit_SetShape e ri info t =
     (case dims info of
        [h, w] \<Rightarrow> reshape e [h, w div nranks ri] t
      | [n] \<Rightarrow> reshape e [n div nranks ri] t
      | _ \<Rightarrow> t)"

definition VSplit_CopyWeight ::
  "weight_env \<Rightarrow> rank_info \<Rightarrow> tensor_info \<Rightarrow> wtensor \<Rightarrow> wtensor option \<Rightarrow> exn + wtensor" where
  "VSplit_CopyWeight e ri info dst whole =
     (case whole of
        None \<Rightarrow> Inr dst
      | Some src \<Rightarrow>
          (case dims info of
             [h, w] \<Rightarrow> DeepCopyMatrix2D e dst src (w div nranks ri * rank_no ri) 0
           | [n] \<Rightarrow> DeepCopyVector e dst src (n div nranks ri * rank_no ri)
           | _ \<Rightarrow> Inr dst))"

definition HSplit_IsSplittable :: "rank_info \<Rightarrow> tensor_info \<Rightarrow> bool" where
  "HSplit_IsSplittable ri info =
     (case dims info of
        [h, w] \<Rightarrow> h mod nranks ri = 0
      | [n] \<Rightarrow> n mod nranks ri = 0
      | _ \<Rightarrow> False)"

definition HSplit_SetShape :: "weight_env \<Rightarrow> rank_info \<Rightarrow> tensor_info \<Rightarrow> wtensor \<Rightarrow> wtensor" where
  "HSplit_SetShape e ri info t =
     (case dims info of
        [h, w] \<Rightarrow> reshape e [h div nranks ri, w] t
      | [n] \<Rightarrow> reshape e [n] t
      | _ \<Rightarrow> t)"

definition HSplit_CopyWeight ::
  "weight_env \<Rightarrow> rank_info \<Rightarrow> tensor_info \<Rightarrow> wtensor \<Rightarrow> wtensor option \<Rightarrow> exn + wtensor" where
  "HSplit_CopyWeight e ri info dst whole =
     (case whole of
        None \<Rightarrow> Inr dst
      | Some src \<Rightarrow>
          (case dims info of
             [h, w] \<Rightarrow> DeepCopyMatrix2D e dst src 0 (rank_no ri * h div nranks ri)
           | [n] \<Rightarrow> if rank_no ri = 0 then DeepCopyVector e dst src 0 else wt_Memset e dst 0
           | _ \<Rightarrow> Inr dst))"

section \<open>Batched weights of experts\<close>

definition BatchVSplit_IsSplittable :: "rank_info \<Rightarrow> tensor_info \<Rightarrow> bool" where
  "BatchVSplit_IsSplittable ri info =
     (case dims info of
        [b, h, w] \<Rightarrow> w mod nranks ri = 0
      | _ \<Rightarrow> False)"

definition BatchVSplit_SetShape :: "weight_env \<Rightarrow> rank_info \<Rightarrow> tensor_info \<Rightarrow> wtensor \<Rightarrow> wtensor" where
  "BatchVSplit_SetShape e ri info t =
     (case dims info of
        [b, h, w] \<Rightarrow> reshape e [b, h, w div nranks ri] t
      | [b, w] \<Rightarrow> reshape e [b, w div nranks ri] t
      | _ \<Rightarrow> t)"

text \<open>One matrix of the batch, with the indices of its first element in the whole and in the part.\<close>

definition copy_sub_matrix ::
  "weight_env \<Rightarrow> wtensor \<Rightarrow> nat \<Rightarrow> nat \<Rightarrow> nat \<Rightarrow> nat \<Rightarrow> wtensor \<Rightarrow> exn + wtensor" where
  "copy_sub_matrix e src src_idx dst_idx height width dst =
     bindE (CopyMatrix2D e (wt_bytes dst) (dst_idx * SizeofType (wt_dtype src))
              (wt_bytes src) (src_idx * SizeofType (wt_dtype src))
              (wt_device dst) (wt_device src) (wt_stride dst) (wt_stride src) height width)
       (\<lambda>b. Inr (dst\<lparr>wt_bytes := b\<rparr>))"

definition batch_v_copy ::
  "weight_env \<Rightarrow> rank_info \<Rightarrow> wtensor \<Rightarrow> nat \<Rightarrow> nat \<Rightarrow> nat \<Rightarrow> wtensor \<Rightarrow> exn + wtensor" where
  "batch_v_copy e ri src batch height width =
     forE (\<lambda>i dst.
       bindE (int_mul i height) (\<lambda>ih.
       bindE (int_mul ih width) (\<lambda>ihw.
         let w' = width div nranks ri in
         copy_sub_matrix e src (ihw + w' * rank_no ri) (ih * w') height (wt_stride dst) dst)))
     [0..<batch]"

definition BatchVSplit_CopyWeight ::
  "weight_env \<Rightarrow> rank_info \<Rightarrow> tensor_info \<Rightarrow> wtensor \<Rightarrow> wtensor option \<Rightarrow> exn + wtensor" where
  "BatchVSplit_CopyWeight e ri info dst whole =
     (case whole of
        None \<Rightarrow> Inr dst
      | Some src \<Rightarrow>
          (case dims info of
             [b, h, w] \<Rightarrow> batch_v_copy e ri src b h w dst
           | [b, w] \<Rightarrow> batch_v_copy e ri src b 1 w dst
           | _ \<Rightarrow> Inr dst))"

definition BatchKVSplit_IsSplittable :: "rank_info \<Rightarrow> tensor_info \<Rightarrow> bool" where
  "BatchKVSplit_IsSplittable ri info =
     (case dims info of
        [b, h, w] \<Rightarrow> w mod nranks ri = 0
      | [b, w] \<Rightarrow> w mod nranks ri = 0
      | _ \<Rightarrow> False)"

definition batch_kv_copy ::
  "weight_env \<Rightarrow> rank_info \<Rightarrow> wtensor \<Rightarrow> nat \<Rightarrow> nat \<Rightarrow> nat \<Rightarrow> wtensor \<Rightarrow> exn + wtensor" where
  "batch_kv_copy e ri src batch height whole_width =
     (let width = whole_width div 2; w' = width div nranks ri in
      forE (\<lambda>b.
        forE (\<lambda>i dst.
          bindE (int_mul b height) (\<lambda>bh.
          bindE (int_mul bh width) (\<lambda>bhw.
          bindE (int_mul bhw 2) (\<lambda>bhw2.
            copy_sub_matrix e src (bhw2 + i * width + w' * rank_no ri) (bh * w' * 2 + i * w')
              height (wt_stride dst div 2) dst))))
        [0..<2])
      [0..<batch])"

definition BatchKVSplit_CopyWeight ::
  "weight_env \<Rightarrow> rank_info \<Rightarrow> tensor_info \<Rightarrow> wtensor \<Rightarrow> wtensor option \<Rightarrow> exn + wtensor" where
  "BatchKVSplit_CopyWeight e ri info dst whole =
     (case whole of
        None \<Rightarrow> Inr dst
      | Some src \<Rightarrow>
          (case dims info of
             [b, h, w] \<Rightarrow> batch_kv_copy e ri src b h w dst
           | [b, w] \<Rightarrow> batch_kv_copy e ri src b 1 w dst
           | _ \<Rightarrow> Inr dst))"

definition BatchHSplit_IsSplittable :: "rank_info \<Rightarrow> tensor_info \<Rightarrow> bool" where
  "BatchHSplit_IsSplittable ri info =
     (case dims info of
        [b, h, w] \<Rightarrow> h mod nranks ri = 0
      | _ \<Rightarrow> False)"

definition BatchHSplit_SetShape :: "weight_env \<Rightarrow> rank_info \<Rightarrow> tensor_info \<Rightarrow> wtensor \<Rightarrow> wtensor" where
  "BatchHSplit_SetShape e ri info t =
     (case dims info of
        [b, h, w] \<Rightarrow> reshape e [b, h div nranks ri, w] t
      | _ \<Rightarrow> t)"

definition BatchHSplit_CopyWeight ::
  "weight_env \<Rightarrow> rank_info \<Rightarrow> tensor_info \<Rightarrow> wtensor \<Rightarrow> wtensor option \<Rightarrow> exn + wtensor" where
  "BatchHSplit_CopyWeight e ri info dst whole =
     (case whole of
        None \<Rightarrow> Inr dst
      | Some src \<Rightarrow>
          (case dims info of
             [b, h, w] \<Rightarrow>
               (let h' = h div nranks ri in
                forE (\<lambda>i dst.
                  bindE (int_mul i h) (\<lambda>ih.
                  bindE (int_mul ih w) (\<lambda>ihw.
                    copy_sub_matrix e src (ihw + rank_no ri * h' * w) (i * h' * w) h' (wt_stride dst) dst)))
                [0..<b] dst)
           | _ \<Rightarrow> Inr dst))"

section \<open>Weights of several matrices side by side\<close>

text \<open>The template over the number of matrices: 3 for queries, keys and values, 2 for keys and values.\<close>

definition BatchGEMM_IsSplittable :: "nat \<Rightarrow> rank_info \<Rightarrow> tensor_info \<Rightarrow> bool" where
  "BatchGEMM_IsSplittable cnt ri info =
     (case dims info of
        [h, w] \<Rightarrow> w mod (cnt * nranks ri) = 0
      | [n] \<Rightarrow> n mod (nranks ri * cnt) = 0
      | _ \<Rightarrow> False)"

definition BatchGEMM_CopyWeight ::
  "nat \<Rightarrow> weight_env \<Rightarrow> rank_info \<Rightarrow> tensor_info \<Rightarrow> wtensor \<Rightarrow> wtensor option \<Rightarrow> exn + wtensor" where
  "BatchGEMM_CopyWeight cnt e ri info dst whole =
     (case whole of
        None \<Rightarrow> Inr dst
      | Some src \<Rightarrow>
          (case dims info of
             [h, w] \<Rightarrow>
               (let width = w div cnt; w' = width div nranks ri in
                forE (\<lambda>i dst.
                  DeepCopyMatrix2DPart e dst (i * width div nranks ri) 0 src
                    (i * width + w' * rank_no ri) 0 w' h)
                [0..<cnt] dst)
           | [n] \<Rightarrow>
               (let width = n div cnt; len = n div nranks ri div cnt in
                forE (\<lambda>i dst.
                  DeepCopyVectorPart e dst (i * (width div nranks ri)) src
                    (width * i + width div nranks ri * rank_no ri) len)
                [0..<cnt] dst)
           | _ \<Rightarrow> Inr dst))"

definition GroupList_IsSplittable :: "rank_info \<Rightarrow> tensor_info \<Rightarrow> bool" where
  "GroupList_IsSplittable ri info =
     (list_all (\<lambda>g. g mod nranks ri = 0) (groups info) \<and>
      (case dims info of
         [h, w] \<Rightarrow> w mod nranks ri = 0 \<and> w = sum_list (groups info)
       | [n] \<Rightarrow> n mod nranks ri = 0 \<and> n = sum_list (groups info)
       | _ \<Rightarrow> False))"

text \<open>The loops over the groups, with the sum of the lengths before the current one.\<close>

fun group_copy_matrix ::
  "weight_env \<Rightarrow> rank_info \<Rightarrow> wtensor \<Rightarrow> nat \<Rightarrow> nat \<Rightarrow> nat list \<Rightarrow> wtensor \<Rightarrow> exn + wtensor" where
  "group_copy_matrix e ri src h prefix_sum [] dst = Inr dst"
| "group_copy_matrix e ri src h prefix_sum (g # gs) dst =
     (let w' = g div nranks ri in
      bindE (DeepCopyMatrix2DPart e dst (prefix_sum div nranks ri) 0 src
               (prefix_sum + w' * rank_no ri) 0 w' h)
        (group_copy_matrix e ri src h (prefix_sum + g) gs))"

fun group_copy_vector ::
  "weight_env \<Rightarrow> rank_info \<Rightarrow> wtensor \<Rightarrow> nat \<Rightarrow> nat list \<Rightarrow> wtensor \<Rightarrow> exn + wtensor" where
  "group_copy_vector e ri src prefix_sum [] dst = Inr dst"
| "group_copy_vector e ri src prefix_sum (g # gs) dst =
     bindE (DeepCopyVectorPart e dst (prefix_sum div nranks ri) src
              (prefix_sum + g div nranks ri * rank_no ri) (g div nranks ri))
       (group_copy_vector e ri src (prefix_sum + g) gs)"

definition GroupList_CopyWeight ::
  "weight_env \<Rightarrow> rank_info \<Rightarrow> tensor_info \<Rightarrow> wtensor \<Rightarrow> wtensor option \<Rightarrow> exn + wtensor" where
  "GroupList_CopyWeight e ri info dst whole =
     (case whole of
        None \<Rightarrow> Inr dst
      | Some src \<Rightarrow>
          (case dims info of
             [h, w] \<Rightarrow> group_copy_matrix e ri src h 0 (groups info) dst
           | [n] \<Rightarrow> group_copy_vector e ri src 0 (groups info) dst
           | _ \<Rightarrow> Inr dst))"

definition MQA_IsSplittable :: "rank_info \<Rightarrow> tensor_info \<Rightarrow> bool" where
  "MQA_IsSplittable ri info =
     (length (groups info) = 3 \<and> groups info ! 0 mod nranks ri = 0 \<and>
      (case dims info of
         [h, w] \<Rightarrow> w = sum_list (groups info)
       | [n] \<Rightarrow> n = sum_list (groups info)
       | _ \<Rightarrow> False))"

definition mqa_width :: "rank_info \<Rightarrow> tensor_info \<Rightarrow> nat" where
  "mqa_width ri info = groups info ! 0 div nranks ri + groups info ! 1 + groups info ! 2"

definition MQA_SetShape :: "weight_env \<Rightarrow> rank_info \<Rightarrow> tensor_info \<Rightarrow> wtensor \<Rightarrow> wtensor" where
  "MQA_SetShape e ri info t =
     (case dims info of
        [h, w] \<Rightarrow> reshape e [h, mqa_width ri info] t
      | [n] \<Rightarrow> reshape e [mqa_width ri info] t
      | _ \<Rightarrow> t)"

text \<open>The first group is split, the others are copied whole to every rank: the columns of the part and
  of the whole and the length of each copy.\<close>

fun mqa_pieces :: "rank_info \<Rightarrow> bool \<Rightarrow> nat \<Rightarrow> nat \<Rightarrow> nat list \<Rightarrow> (nat \<times> nat \<times> nat) list" where
  "mqa_pieces ri first src_sum dst_sum [] = []"
| "mqa_pieces ri first src_sum dst_sum (g # gs) =
     (let len = (if first then g div nranks ri else g) in
      (dst_sum, (if first then src_sum + len * rank_no ri else src_sum), len) #
      mqa_pieces ri False (src_sum + g) (dst_sum + len) gs)"

definition MQA_CopyWeight ::
  "weight_env \<Rightarrow> rank_info \<Rightarrow> tensor_info \<Rightarrow> wtensor \<Rightarrow> wtensor option \<Rightarrow> exn + wtensor" where
  "MQA_CopyWeight e ri info dst whole =
     (case whole of
        None \<Rightarrow> Inr dst
      | Some src \<Rightarrow>
          (case dims info of
             [h, w] \<Rightarrow>
               forE (\<lambda>(d, s, len) dst. DeepCopyMatrix2DPart e dst d 0 src s 0 len h)
                 (mqa_pieces ri True 0 0 (groups info)) dst
           | [n] \<Rightarrow>
               forE (\<lambda>(d, s, len) dst. DeepCopyVectorPart e dst d src s len)
                 (mqa_pieces ri True 0 0 (groups info)) dst
           | _ \<Rightarrow> Inr dst))"

section \<open>The factory and the loader\<close>

fun GetSplitterByMode :: "split_mode \<Rightarrow> exn + split_mode" where
  "GetSplitterByMode HSPLIT_QUANTIZE = Inl (AsMessage ''unsupported split mode.'')"
| "GetSplitterByMode (SPLIT_OTHER n) = Inl (AsMessage ''unsupported split mode.'')"
| "GetSplitterByMode mode = Inr mode"

fun IsSplittable :: "split_mode \<Rightarrow> rank_info \<Rightarrow> tensor_info \<Rightarrow> bool" where
  "IsSplittable NOSPLIT ri info = True"
| "IsSplittable VSPLIT ri info = VSplit_IsSplittable ri info"
| "IsSplittable HSPLIT ri info = HSplit_IsSplittable ri info"
| "IsSplittable QKVSPLIT ri info = BatchGEMM_IsSplittable 3 ri info"
| "IsSplittable KVSPLIT ri info = BatchGEMM_IsSplittable 2 ri info"
| "IsSplittable GROUP_VSPLIT ri info = GroupList_IsSplittable ri info"
| "IsSplittable MQA_VSPLIT ri info = MQA_IsSplittable ri info"
| "IsSplittable BATCH_VSPLIT ri info = BatchVSplit_IsSplittable ri info"
| "IsSplittable BATCH_HSPLIT ri info = BatchHSplit_IsSplittable ri info"
| "IsSplittable BATCH_KVSPLIT ri info = BatchKVSplit_IsSplittable ri info"
| "IsSplittable _ ri info = False"

text \<open>Four classes share the new shape of a vertical split, and two that of a batched one.\<close>

fun split_SetShape :: "split_mode \<Rightarrow> weight_env \<Rightarrow> rank_info \<Rightarrow> tensor_info \<Rightarrow> wtensor \<Rightarrow> wtensor" where
  "split_SetShape NOSPLIT e ri info t = wt_SetShape e (dims info) t"
| "split_SetShape VSPLIT e ri info t = VSplit_SetShape e ri info t"
| "split_SetShape HSPLIT e ri info t = HSplit_SetShape e ri info t"
| "split_SetShape QKVSPLIT e ri info t = VSplit_SetShape e ri info t"
| "split_SetShape KVSPLIT e ri info t = VSplit_SetShape e ri info t"
| "split_SetShape GROUP_VSPLIT e ri info t = VSplit_SetShape e ri info t"
| "split_SetShape MQA_VSPLIT e ri info t = MQA_SetShape e ri info t"
| "split_SetShape BATCH_VSPLIT e ri info t = BatchVSplit_SetShape e ri info t"
| "split_SetShape BATCH_HSPLIT e ri info t = BatchHSplit_SetShape e ri info t"
| "split_SetShape BATCH_KVSPLIT e ri info t = BatchVSplit_SetShape e ri info t"
| "split_SetShape _ e ri info t = t"

fun split_CopyWeight ::
  "split_mode \<Rightarrow> weight_env \<Rightarrow> rank_info \<Rightarrow> tensor_info \<Rightarrow> wtensor \<Rightarrow> wtensor option \<Rightarrow> byte list \<Rightarrow> nat \<Rightarrow>
   exn + wtensor"
where
  "split_CopyWeight NOSPLIT e ri info dst whole ptr len = NoSplit_CopyWeight e dst whole ptr len"
| "split_CopyWeight VSPLIT e ri info dst whole ptr len = VSplit_CopyWeight e ri info dst whole"
| "split_CopyWeight HSPLIT e ri info dst whole ptr len = HSplit_CopyWeight e ri info dst whole"
| "split_CopyWeight QKVSPLIT e ri info dst whole ptr len = BatchGEMM_CopyWeight 3 e ri info dst whole"
| "split_CopyWeight KVSPLIT e ri info dst whole ptr len = BatchGEMM_CopyWeight 2 e ri info dst whole"
| "split_CopyWeight GROUP_VSPLIT e ri info dst whole ptr len = GroupList_CopyWeight e ri info dst whole"
| "split_CopyWeight MQA_VSPLIT e ri info dst whole ptr len = MQA_CopyWeight e ri info dst whole"
| "split_CopyWeight BATCH_VSPLIT e ri info dst whole ptr len = BatchVSplit_CopyWeight e ri info dst whole"
| "split_CopyWeight BATCH_HSPLIT e ri info dst whole ptr len = BatchHSplit_CopyWeight e ri info dst whole"
| "split_CopyWeight BATCH_KVSPLIT e ri info dst whole ptr len = BatchKVSplit_CopyWeight e ri info dst whole"
| "split_CopyWeight _ e ri info dst whole ptr len = Inr dst"

text \<open>The numbers of the header that the model covers; the lengths of the groups are added in \<open>int\<close>.\<close>

definition info_in_range :: "tensor_info \<Rightarrow> bool" where
  "info_in_range info \<longleftrightarrow>
     list_all (\<lambda>d. 0 \<le> d \<and> d \<le> 2147483647) (ti_shape info @ ti_group_list info) \<and>
     sum_list (ti_group_list info) \<le> 2147483647"

text \<open>\<open>LoadFromMemory\<close> of a loader that has not been used yet; \<open>ptr\<close> are the \<open>len\<close> bytes of the file. Every
  splitter processes the mode it was made for.\<close>

definition DenseWeightLoader_LoadFromMemory ::
  "weight_env \<Rightarrow> rank_info \<Rightarrow> tensor_info \<Rightarrow> byte list \<Rightarrow> wtensor \<Rightarrow> exn + wtensor" where
  "DenseWeightLoader_LoadFromMemory e ri info ptr out =
     bindE (GetSplitterByMode (ti_split_mode info)) (\<lambda>mode.
     defined_if (info_in_range info \<and> 0 < rank_size ri)
       (if \<not> IsSplittable mode ri info then Inl (AsMessage ''model file cannot split'')
        else case ti_dtype info of
          None \<Rightarrow> Inl UndefinedBehaviour
        | Some ty \<Rightarrow>
            (let whole = wt_SetShape e (dims info) (wt_new e (wt_device out) ty (dims info)) in
             bindE (CopyData e (wt_bytes whole) (wt_device whole) ptr CPU (length ptr)) (\<lambda>b.
               split_CopyWeight mode e ri info (split_SetShape mode e ri info out)
                 (Some (whole\<lparr>wt_bytes := b\<rparr>)) ptr (length ptr)))))"

end
