(* ===== verification/Weight_Slices.thy ===== *)
theory Weight_Slices
  imports Weight_Splitter
begin

text \<open>
  Copies of rectangles between matrices. A buffer is read as a matrix with \<open>W\<close> columns whose elements,
  the cells, have \<open>sz\<close> bytes each; every copy of the splitters moves a rectangle of cells.
\<close>

section \<open>Cells\<close>

definition cell :: "nat \<Rightarrow> nat \<Rightarrow> byte list \<Rightarrow> nat \<Rightarrow> nat \<Rightarrow> byte list" where
  "cell sz W b i j = take sz (drop ((i * W + j) * sz) b)"

lemma memcpy_nth:
  assumes "d + n \<le> length dst" "s + n \<le> length src"
  shows "\<exists>b. memcpy dst d src s n = Inr b \<and> length b = length dst \<and>
    (\<forall>p<length dst. b ! p = (if d \<le> p \<and> p < d + n then src ! (s + (p - d)) else dst ! p))"
proof -
  have "length (take n (drop s src)) = n" "length (take d dst) = d" using assms by simp_all
  with assms show ?thesis by (auto simp: memcpy_def nth_append simp del: length_take)
qed

lemma in_block:
  fixes a q sz k :: nat
  assumes "k < sz"
  shows "a * sz \<le> q * sz + k \<longleftrightarrow> a \<le> q" "q * sz + k < a * sz \<longleftrightarrow> q < a"
proof -
  have *: "q * sz + k < a * sz \<longleftrightarrow> q < a" for a
  proof
    assume "q * sz + k < a * sz"
    then have "q * sz < a * sz" by linarith
    then show "q < a" by simp
  next
    assume "q < a"
    then have "Suc q * sz \<le> a * sz" by (intro mult_le_mono1) simp
    with assms show "q * sz + k < a * sz" by simp
  qed
  show "q * sz + k < a * sz \<longleftrightarrow> q < a" by (rule *)
  show "a * sz \<le> q * sz + k \<longleftrightarrow> a \<le> q" using * [of a] by linarith
qed

lemma in_row:
  fixes i j r c w W :: nat
  assumes "j < W" "c + w \<le> W"
  shows "r * W + c \<le> i * W + j \<and> i * W + j < r * W + c + w \<longleftrightarrow> i = r \<and> c \<le> j \<and> j < c + w"
proof (cases i r rule: linorder_cases)
  case less
  then have "Suc i * W \<le> r * W" by (intro mult_le_mono1) simp
  with assms less show ?thesis by simp
next
  case greater
  then have "Suc r * W \<le> i * W" by (intro mult_le_mono1) simp
  with assms greater show ?thesis by simp
qed simp

lemma cell_eqI:
  assumes "length b = length b'" "\<And>k. k < sz \<Longrightarrow> (i * W + j) * sz + k < length b \<Longrightarrow>
    b ! ((i * W + j) * sz + k) = b' ! ((i * W + j) * sz + k)"
  shows "cell sz W b i j = cell sz W b' i j"
  by (rule nth_equalityI) (use assms in \<open>auto simp: cell_def\<close>)

lemma row_in_range:
  fixes i W sz n :: nat
  assumes "(r + 1) * W * sz \<le> n" "c + w \<le> W"
  shows "(r * W + c) * sz + w * sz \<le> n"
proof -
  have "(r * W + c + w) * sz \<le> (r + 1) * W * sz" using assms(2) by (intro mult_le_mono1) simp
  with assms(1) show ?thesis by (simp add: algebra_simps)
qed

lemma memcpy_cells:
  assumes w: "dc + w \<le> W" "sc + w \<le> V"
    and len: "(dr + 1) * W * sz \<le> length dst" "(sr + 1) * V * sz \<le> length src"
  shows "\<exists>b. memcpy dst ((dr * W + dc) * sz) src ((sr * V + sc) * sz) (w * sz) = Inr b \<and>
    length b = length dst \<and>
    (\<forall>i j. j < W \<longrightarrow> cell sz W b i j =
      (if i = dr \<and> dc \<le> j \<and> j < dc + w then cell sz V src sr (sc + (j - dc)) else cell sz W dst i j))"
proof -
  let ?d = "(dr * W + dc) * sz" and ?s = "(sr * V + sc) * sz"
  have in_dst: "?d + w * sz \<le> length dst" and in_src: "?s + w * sz \<le> length src"
    using row_in_range [OF len(1) w(1)] row_in_range [OF len(2) w(2)] by auto
  from memcpy_nth [OF in_dst in_src] obtain b where b: "memcpy dst ?d src ?s (w * sz) = Inr b"
    "length b = length dst"
    "\<And>p. p < length dst \<Longrightarrow> b ! p = (if ?d \<le> p \<and> p < ?d + w * sz then src ! (?s + (p - ?d)) else dst ! p)"
    by blast
  have inside: "?d \<le> (i * W + j) * sz + k \<and> (i * W + j) * sz + k < ?d + w * sz \<longleftrightarrow>
      i = dr \<and> dc \<le> j \<and> j < dc + w" if "j < W" "k < sz" for i j k
  proof -
    have "?d + w * sz = (dr * W + dc + w) * sz" by (simp add: algebra_simps)
    then show ?thesis using in_block [OF that(2)] in_row [OF that(1) w(1)] by simp
  qed
  have "cell sz W b i j =
      (if i = dr \<and> dc \<le> j \<and> j < dc + w then cell sz V src sr (sc + (j - dc)) else cell sz W dst i j)"
    if j: "j < W" for i j
  proof (cases "i = dr \<and> dc \<le> j \<and> j < dc + w")
    case False
    then have "cell sz W b i j = cell sz W dst i j"
      using b(2,3) inside [OF j] by (intro cell_eqI) auto
    then show ?thesis by (subst if_not_P [OF False])
  next
    case True
    define u where "u = j - dc"
    have ju: "j = dc + u" "u < w" using True by (auto simp: u_def)
    have pos: "(i * W + j) * sz = ?d + u * sz" "(sr * V + (sc + u)) * sz = ?s + u * sz"
      using True by (auto simp: ju(1) algebra_simps)
    have "Suc u * sz \<le> w * sz" using ju(2) by (intro mult_le_mono1) simp
    then have fit: "u * sz + sz \<le> w * sz" by simp
    have "cell sz W b i j = cell sz V src sr (sc + u)"
    proof (rule nth_equalityI)
      show "length (cell sz W b i j) = length (cell sz V src sr (sc + u))"
        using fit in_dst in_src b(2) by (simp add: cell_def pos del: add_mult_distrib)
      fix k assume "k < length (cell sz W b i j)"
      then have k: "k < sz" by (simp add: cell_def)
      have "b ! (?d + u * sz + k) = src ! (?s + (u * sz + k))"
        using b(3) [of "?d + u * sz + k"] inside [OF j k, of i] True k fit in_dst
        by (simp add: pos del: add_mult_distrib)
      then show "cell sz W b i j ! k = cell sz V src sr (sc + u) ! k"
        using k fit in_dst in_src b(2) by (simp add: cell_def pos add.assoc del: add_mult_distrib)
    qed
    with True show ?thesis by (simp add: u_def)
  qed
  with b show ?thesis by blast
qed

text \<open>The rectangle of \<open>h\<close> rows and \<open>w\<close> columns at \<open>(sr, sc)\<close> is copied to \<open>(dr, dc)\<close>.\<close>

lemma copy_rows_cells:
  assumes "dc + w \<le> W" "sc + w \<le> V" "(dr + h) * W * sz \<le> length dst" "(sr + h) * V * sz \<le> length src"
  shows "\<exists>b. copy_rows dst ((dr * W + dc) * sz) (W * sz) src ((sr * V + sc) * sz) (V * sz) (w * sz) h = Inr b \<and>
    length b = length dst \<and>
    (\<forall>i j. j < W \<longrightarrow> cell sz W b i j =
      (if dr \<le> i \<and> i < dr + h \<and> dc \<le> j \<and> j < dc + w
       then cell sz V src (sr + (i - dr)) (sc + (j - dc)) else cell sz W dst i j))"
  using assms(3,4)
proof (induction h arbitrary: dst dr sr)
  case 0
  then show ?case by auto
next
  case (Suc h)
  have "(dr + 1) * W * sz \<le> (dr + Suc h) * W * sz" "(sr + 1) * V * sz \<le> (sr + Suc h) * V * sz"
    by (intro mult_le_mono1; simp)+
  with Suc.prems have "(dr + 1) * W * sz \<le> length dst" "(sr + 1) * V * sz \<le> length src" by linarith+
  from memcpy_cells [OF assms(1,2) this] obtain b where
    b: "memcpy dst ((dr * W + dc) * sz) src ((sr * V + sc) * sz) (w * sz) = Inr b" "length b = length dst"
    "\<forall>i j. j < W \<longrightarrow> cell sz W b i j =
      (if i = dr \<and> dc \<le> j \<and> j < dc + w then cell sz V src sr (sc + (j - dc)) else cell sz W dst i j)"
    by blast
  have next_row: "(dr * W + dc) * sz + W * sz = (Suc dr * W + dc) * sz"
    "(sr * V + sc) * sz + V * sz = (Suc sr * V + sc) * sz" by (simp_all add: algebra_simps)
  have "(Suc dr + h) * W * sz \<le> length b" "(Suc sr + h) * V * sz \<le> length src"
    using Suc.prems b(2) by simp_all
  from Suc.IH [OF this] obtain c where
    c: "copy_rows b ((Suc dr * W + dc) * sz) (W * sz) src ((Suc sr * V + sc) * sz) (V * sz) (w * sz) h = Inr c"
    "length c = length b"
    "\<forall>i j. j < W \<longrightarrow> cell sz W c i j =
      (if Suc dr \<le> i \<and> i < Suc dr + h \<and> dc \<le> j \<and> j < dc + w
       then cell sz V src (Suc sr + (i - Suc dr)) (sc + (j - dc)) else cell sz W b i j)"
    by blast
  have shift: "Suc (sr + i - Suc dr) = sr + i - dr" if "Suc dr \<le> i" for i using that by linarith
  have "cell sz W c i j =
      (if dr \<le> i \<and> i < dr + Suc h \<and> dc \<le> j \<and> j < dc + w
       then cell sz V src (sr + (i - dr)) (sc + (j - dc)) else cell sz W dst i j)" if "j < W" for i j
    using that b(3) c(3) by (cases "i = dr") (auto simp: shift)
  with b(1,2) c(1,2) show ?case unfolding copy_rows.simps next_row by (intro exI [of _ c]) simp
qed

section \<open>Pieces\<close>

text \<open>A list of pieces \<open>(d, s, len)\<close> describes how the columns, or rows, of a part are put together:
  \<open>len\<close> of them from \<open>s\<close> on in the whole stand at \<open>d\<close> in the part.\<close>

definition piece_list :: "(nat \<times> nat \<times> nat) list \<Rightarrow> nat list" where
  "piece_list ps = concat (map (\<lambda>(d, s, len). [s..<s + len]) ps)"

fun consecutive :: "nat \<Rightarrow> (nat \<times> nat \<times> nat) list \<Rightarrow> bool" where
  "consecutive k [] = True"
| "consecutive k ((d, s, len) # ps) = (d = k \<and> consecutive (k + len) ps)"

lemma piece_list_simps [simp]:
  "piece_list [] = []" "piece_list ((d, s, len) # ps) = [s..<s + len] @ piece_list ps"
  by (simp_all add: piece_list_def)

lemma consecutive_nth:
  assumes "consecutive k ps" "(d, s, len) \<in> set ps" "d \<le> j" "j < d + len"
  shows "k \<le> j \<and> j - k < length (piece_list ps) \<and> piece_list ps ! (j - k) = s + (j - d)"
  using assms
proof (induction ps arbitrary: k)
  case (Cons p ps)
  obtain d' s' l' where p: "p = (d', s', l')" by (cases p) auto
  show ?case
  proof (cases "(d, s, len) = p")
    case True
    with p Cons.prems show ?thesis by (auto simp: nth_append)
  next
    case False
    with Cons.prems p have "k + l' \<le> j \<and> j - (k + l') < length (piece_list ps) \<and>
        piece_list ps ! (j - (k + l')) = s + (j - d)"
      by (intro Cons.IH) auto
    with p show ?thesis by (auto simp: nth_append)
  qed
qed simp

lemma consecutive_cover:
  "consecutive k ps \<Longrightarrow> j < length (piece_list ps) \<Longrightarrow> 
    \<exists>d s len. (d, s, len) \<in> set ps \<and> d \<le> k + j \<and> k + j < d + len"
proof (induction ps arbitrary: k j)
  case (Cons p ps)
  obtain d s l where p: "p = (d, s, l)" by (cases p) auto
  show ?case
  proof (cases "j < l")
    case True
    with p Cons.prems show ?thesis by (intro exI [of _ k] exI [of _ s] exI [of _ l]) auto
  next
    case False
    then have "\<exists>d s len. (d, s, len) \<in> set ps \<and> d \<le> (k + l) + (j - l) \<and> (k + l) + (j - l) < d + len"
      using p Cons.prems by (intro Cons.IH) auto
    with False show ?thesis by auto
  qed
qed simp

lemma consecutive_append:
  "consecutive k (ps @ qs) \<longleftrightarrow> consecutive k ps \<and> consecutive (k + length (piece_list ps)) qs"
  by (induction ps arbitrary: k) (auto simp: add.assoc)

text \<open>A loop whose steps set the cells of a region to the values they shall have sets the cells of
  the union of the regions.\<close>

lemma forE_fill:
  assumes step: "\<And>x b. x \<in> set xs \<Longrightarrow> length b = n \<Longrightarrow>
      \<exists>b'. f x (dst\<lparr>wt_bytes := b\<rparr>) = Inr (dst\<lparr>wt_bytes := b'\<rparr>) \<and> length b' = n \<and>
        (\<forall>i j. j < W \<longrightarrow> cell sz W b' i j = (if R x i j then S i j else cell sz W b i j))"
    and "length b = n"
  shows "\<exists>b'. forE f xs (dst\<lparr>wt_bytes := b\<rparr>) = Inr (dst\<lparr>wt_bytes := b'\<rparr>) \<and> length b' = n \<and>
    (\<forall>i j. j < W \<longrightarrow> cell sz W b' i j = (if \<exists>x\<in>set xs. R x i j then S i j else cell sz W b i j))"
  using assms
proof (induction xs arbitrary: b)
  case (Cons x xs)
  from Cons.prems(1) [of x b] Cons.prems(2) obtain b1 where
    b1: "f x (dst\<lparr>wt_bytes := b\<rparr>) = Inr (dst\<lparr>wt_bytes := b1\<rparr>)" "length b1 = n"
    "\<And>i j. j < W \<Longrightarrow> cell sz W b1 i j = (if R x i j then S i j else cell sz W b i j)"
    by auto
  from Cons.IH [of b1] Cons.prems(1) b1(2) obtain b2 where
    "forE f xs (dst\<lparr>wt_bytes := b1\<rparr>) = Inr (dst\<lparr>wt_bytes := b2\<rparr>)" "length b2 = n"
    "\<And>i j. j < W \<Longrightarrow> cell sz W b2 i j = (if \<exists>x\<in>set xs. R x i j then S i j else cell sz W b1 i j)"
    by auto
  with b1 show ?case by (intro exI [of _ b2]) auto
qed auto

section \<open>Rectangles\<close>

text \<open>A tensor whose buffer holds \<open>H\<close> rows of \<open>W\<close> elements.\<close>

definition holds :: "wtensor \<Rightarrow> nat \<Rightarrow> nat \<Rightarrow> bool" where
  "holds t H W \<longleftrightarrow> last (wt_shape t) = W \<and> H * W * SizeofType (wt_dtype t) \<le> length (wt_bytes t)"

lemma DeepCopyMatrix2DPart_cells:
  assumes "weight_env_ok e" "wt_shape dst = [H, W]" "wt_shape src = [G, V]" "wt_dtype dst = ty" "wt_dtype src = ty"
    and "H * W * SizeofType ty \<le> length (wt_bytes dst)" "G * V * SizeofType ty \<le> length (wt_bytes src)"
    and "dc + w \<le> W" "sc + w \<le> V" "dr + h \<le> H" "sr + h \<le> G"
  shows "\<exists>b. DeepCopyMatrix2DPart e dst dc dr src sc sr w h = Inr (dst\<lparr>wt_bytes := b\<rparr>) \<and>
    length b = length (wt_bytes dst) \<and>
    (\<forall>i j. j < W \<longrightarrow> cell (SizeofType ty) W b i j =
      (if dr \<le> i \<and> i < dr + h \<and> dc \<le> j \<and> j < dc + w
       then cell (SizeofType ty) V (wt_bytes src) (sr + (i - dr)) (sc + (j - dc))
       else cell (SizeofType ty) W (wt_bytes dst) i j))"
proof -
  let ?z = "SizeofType ty"
  have "(dr + h) * W * ?z \<le> H * W * ?z" "(sr + h) * V * ?z \<le> G * V * ?z"
    using assms(10,11) by (intro mult_le_mono1; simp)+
  then have "(dr + h) * W * ?z \<le> length (wt_bytes dst)" "(sr + h) * V * ?z \<le> length (wt_bytes src)"
    using assms(6,7) by linarith+
  from copy_rows_cells [OF assms(8,9) this] obtain b where
    b: "copy_rows (wt_bytes dst) ((dr * W + dc) * ?z) (W * ?z) (wt_bytes src) ((sr * V + sc) * ?z) (V * ?z) (w * ?z) h
        = Inr b" "length b = length (wt_bytes dst)"
    "\<forall>i j. j < W \<longrightarrow> cell ?z W b i j =
      (if dr \<le> i \<and> i < dr + h \<and> dc \<le> j \<and> j < dc + w
       then cell ?z V (wt_bytes src) (sr + (i - dr)) (sc + (j - dc)) else cell ?z W (wt_bytes dst) i j)"
    by blast
  have "w * ?z \<le> W * ?z" "w * ?z \<le> V * ?z" using assms(8,9) by (intro mult_le_mono1; simp)+
  then have "we_cudaMemcpy2D e (wt_bytes dst) ((dr * W + dc) * ?z) (W * ?z) (wt_bytes src) ((sr * V + sc) * ?z)
      (V * ?z) (w * ?z) h = Inr b"
    using assms(1) b(1) by (simp add: weight_env_ok_def)
  moreover have "dr * (W * ?z) + dc * ?z = (dr * W + dc) * ?z" "sr * (V * ?z) + sc * ?z = (sr * V + sc) * ?z"
    by (simp_all add: algebra_simps)
  ultimately have "DeepCopyMatrix2DPart e dst dc dr src sc sr w h = Inr (dst\<lparr>wt_bytes := b\<rparr>)"
    using assms b(1) by (simp add: DeepCopyMatrix2DPart_def wt_stride_def add.commute del: add_mult_distrib)
  with b(2,3) show ?thesis by blast
qed

lemma DeepCopyVectorPart_cells:
  assumes "weight_env_ok e" "wt_shape dst = [W]" "wt_shape src = [V]" "wt_dtype dst = ty" "wt_dtype src = ty"
    and "W * SizeofType ty \<le> length (wt_bytes dst)" "V * SizeofType ty \<le> length (wt_bytes src)"
    and "dc + w \<le> W" "sc + w \<le> V"
  shows "\<exists>b. DeepCopyVectorPart e dst dc src sc w = Inr (dst\<lparr>wt_bytes := b\<rparr>) \<and>
    length b = length (wt_bytes dst) \<and>
    (\<forall>i j. j < W \<longrightarrow> cell (SizeofType ty) W b i j =
      (if i = 0 \<and> dc \<le> j \<and> j < dc + w
       then cell (SizeofType ty) V (wt_bytes src) 0 (sc + (j - dc))
       else cell (SizeofType ty) W (wt_bytes dst) i j))"
proof -
  let ?z = "SizeofType ty"
  have "(0 + 1) * W * ?z \<le> length (wt_bytes dst)" "(0 + 1) * V * ?z \<le> length (wt_bytes src)"
    using assms(6,7) by simp_all
  from memcpy_cells [OF assms(8,9) this] obtain b where
    b: "memcpy (wt_bytes dst) (dc * ?z) (wt_bytes src) (sc * ?z) (w * ?z) = Inr b" "length b = length (wt_bytes dst)"
    "\<forall>i j. j < W \<longrightarrow> cell ?z W b i j =
      (if i = 0 \<and> dc \<le> j \<and> j < dc + w then cell ?z V (wt_bytes src) 0 (sc + (j - dc))
       else cell ?z W (wt_bytes dst) i j)"
    by auto
  have "dc * ?z + w * ?z \<le> length (wt_bytes dst) \<and> sc * ?z + w * ?z \<le> length (wt_bytes src)"
    using b(1) by (simp add: memcpy_def defined_if_def split: if_splits)
  then have "we_cudaMemcpy e (wt_bytes dst) (dc * ?z) (wt_bytes src) (sc * ?z) (w * ?z) = Inr b"
    using assms(1) b(1) by (simp add: weight_env_ok_def)
  with b(1) assms have "DeepCopyVectorPart e dst dc src sc w = Inr (dst\<lparr>wt_bytes := b\<rparr>)"
    by (simp add: DeepCopyVectorPart_def mult.commute add.commute)
  with b(2,3) show ?thesis by blast
qed

end
