(* ===== verification/Weight_Parts.thy ===== *)
theory Weight_Parts
  imports Weight_Slices
begin

text \<open>
  What the copies of the splitters move: the rows and columns of the whole that the part of a rank
  consists of, and for every kind of split the lemma that its loops copy exactly these.
\<close>

section \<open>The columns of a rank\<close>

text \<open>Of every group of columns the rank takes its share.\<close>

fun group_cols :: "nat \<Rightarrow> nat \<Rightarrow> nat \<Rightarrow> nat list \<Rightarrow> nat list" where
  "group_cols n r P [] = []"
| "group_cols n r P (g # gs) = [P + g div n * r ..< P + g div n * r + g div n] @ group_cols n r (P + g) gs"

fun group_pieces :: "nat \<Rightarrow> nat \<Rightarrow> nat \<Rightarrow> nat \<Rightarrow> nat list \<Rightarrow> (nat \<times> nat \<times> nat) list" where
  "group_pieces n r Q P [] = []"
| "group_pieces n r Q P (g # gs) = (Q, P + g div n * r, g div n) # group_pieces n r (Q + g div n) (P + g) gs"

lemma group_pieces_cols [simp]: "piece_list (group_pieces n r Q P gs) = group_cols n r P gs"
  by (induction gs arbitrary: Q P) auto

lemma group_pieces_consecutive [simp]: "consecutive Q (group_pieces n r Q P gs)"
  by (induction gs arbitrary: Q P) auto

lemma share_le:
  fixes g n r :: nat
  assumes "r < n"
  shows "g div n * r + g div n \<le> g"
proof -
  have "g div n * r + g div n = g div n * Suc r" by simp
  also have "\<dots> \<le> g div n * n" using assms by (intro mult_le_mono2) simp
  finally show ?thesis by (meson div_times_less_eq_dividend le_trans)
qed

lemma group_pieces_bound:
  assumes "r < n" "(d, s, len) \<in> set (group_pieces n r Q P gs)"
  shows "s + len \<le> P + sum_list gs"
  using assms(2)
proof (induction gs arbitrary: Q P)
  case (Cons g gs)
  show ?case
  proof (cases "(d, s, len) = (Q, P + g div n * r, g div n)")
    case True
    then show ?thesis using share_le [OF assms(1), of g] by simp
  next
    case False
    then have "s + len \<le> (P + g) + sum_list gs" using Cons.prems by (intro Cons.IH) auto
    then show ?thesis by simp
  qed
qed simp

lemma length_group_cols:
  "\<forall>g\<in>set gs. n dvd g \<Longrightarrow> length (group_cols n r P gs) = sum_list gs div n"
  by (induction gs arbitrary: P) (auto simp: div_plus_div_distrib_dvd_left)

lemma consecutive_bound:
  "consecutive k ps \<Longrightarrow> (d, s, len) \<in> set ps \<Longrightarrow> d + len \<le> k + length (piece_list ps)"
  by (induction ps arbitrary: k) fastforce+

text \<open>The loop over \<open>cnt\<close> groups of the same width.\<close>

lemma group_pieces_replicate:
  "group_pieces n r (k * (w div n)) (k * w) (replicate c w) =
   map (\<lambda>i. (i * (w div n), i * w + w div n * r, w div n)) [k..<k + c]"
proof (induction c arbitrary: k)
  case (Suc c)
  have "k * (w div n) + w div n = Suc k * (w div n)" "k * w + w = Suc k * w" by simp_all
  with Suc [of "Suc k"] show ?case by (simp add: upt_conv_Cons del: mult_Suc upt_Suc)
qed simp

lemma forE_map: "forE f (map g xs) s = forE (\<lambda>x. f (g x)) xs s"
proof (induction xs arbitrary: s)
  case (Cons x xs)
  then have "forE f (map g xs) = forE (\<lambda>x. f (g x)) xs" by (simp add: fun_eq_iff)
  then show ?case by simp
qed simp

lemma forE_cong: "(\<And>x s. x \<in> set xs \<Longrightarrow> f x s = g x s) \<Longrightarrow> forE f xs s = forE g xs s"
proof (induction xs arbitrary: s)
  case (Cons x xs)
  then have "forE f xs = forE g xs" by (simp add: fun_eq_iff)
  with Cons.prems show ?case by simp
qed simp

section \<open>Copies of the two-dimensional and one-dimensional weights\<close>

lemma matrix_pieces:
  assumes e: "weight_env_ok e" and dst: "wt_shape dst = [H, W]" "wt_dtype dst = ty"
      "H * W * SizeofType ty \<le> length (wt_bytes dst)"
    and src: "wt_shape src = [H, V]" "wt_dtype src = ty" "H * V * SizeofType ty \<le> length (wt_bytes src)"
    and ps: "consecutive 0 ps" "length (piece_list ps) = W" "\<And>d s len. (d, s, len) \<in> set ps \<Longrightarrow> s + len \<le> V"
  shows "\<exists>b. forE (\<lambda>(d, s, len) t. DeepCopyMatrix2DPart e t d 0 src s 0 len H) ps dst = Inr (dst\<lparr>wt_bytes := b\<rparr>) \<and>
    length b = length (wt_bytes dst) \<and>
    (\<forall>i<H. \<forall>j<W. cell (SizeofType ty) W b i j = cell (SizeofType ty) V (wt_bytes src) i (piece_list ps ! j))"
proof -
  let ?z = "SizeofType ty"
  let ?S = "\<lambda>i j. cell ?z V (wt_bytes src) i (piece_list ps ! j)"
  let ?R = "\<lambda>(d, s, len) i j. i < H \<and> d \<le> j \<and> j < d + len"
  have "\<exists>b. forE (\<lambda>(d, s, len) t. DeepCopyMatrix2DPart e t d 0 src s 0 len H) ps (dst\<lparr>wt_bytes := wt_bytes dst\<rparr>) =
      Inr (dst\<lparr>wt_bytes := b\<rparr>) \<and> length b = length (wt_bytes dst) \<and>
      (\<forall>i j. j < W \<longrightarrow> cell ?z W b i j = (if \<exists>x\<in>set ps. ?R x i j then ?S i j else cell ?z W (wt_bytes dst) i j))"
  proof (rule forE_fill)
    fix x and b :: "byte list"
    assume x: "x \<in> set ps" and b: "length b = length (wt_bytes dst)"
    obtain d s len where xe: "x = (d, s, len)" by (cases x) auto
    have in_ps: "(d, s, len) \<in> set ps" using x xe by simp
    have "d + len \<le> W" using consecutive_bound [OF ps(1) in_ps] ps(2) by simp
    moreover have "piece_list ps ! j = s + (j - d)" if "d \<le> j" "j < d + len" for j
      using consecutive_nth [OF ps(1) in_ps that] by simp
    ultimately show "\<exists>b'. (case x of (d, s, len) \<Rightarrow> \<lambda>t. DeepCopyMatrix2DPart e t d 0 src s 0 len H)
        (dst\<lparr>wt_bytes := b\<rparr>) = Inr (dst\<lparr>wt_bytes := b'\<rparr>) \<and> length b' = length (wt_bytes dst) \<and>
        (\<forall>i j. j < W \<longrightarrow> cell ?z W b' i j = (if ?R x i j then ?S i j else cell ?z W b i j))"
      using DeepCopyMatrix2DPart_cells [OF e, of "dst\<lparr>wt_bytes := b\<rparr>" H W src H V ty d len s 0 H 0]
        dst src b ps(3) [OF in_ps] by (auto simp: xe)
  qed simp
  then obtain b where b: "forE (\<lambda>(d, s, len) t. DeepCopyMatrix2DPart e t d 0 src s 0 len H) ps dst =
      Inr (dst\<lparr>wt_bytes := b\<rparr>)" "length b = length (wt_bytes dst)"
      "\<And>i j. j < W \<Longrightarrow> cell ?z W b i j = (if \<exists>x\<in>set ps. ?R x i j then ?S i j else cell ?z W (wt_bytes dst) i j)"
    by auto
  have "\<exists>x\<in>set ps. ?R x i j" if "i < H" "j < W" for i j
    using consecutive_cover [OF ps(1), of j] ps(2) that by force
  with b show ?thesis by auto
qed

lemma vector_pieces:
  assumes e: "weight_env_ok e" and dst: "wt_shape dst = [W]" "wt_dtype dst = ty"
      "W * SizeofType ty \<le> length (wt_bytes dst)"
    and src: "wt_shape src = [V]" "wt_dtype src = ty" "V * SizeofType ty \<le> length (wt_bytes src)"
    and ps: "consecutive 0 ps" "length (piece_list ps) = W" "\<And>d s len. (d, s, len) \<in> set ps \<Longrightarrow> s + len \<le> V"
  shows "\<exists>b. forE (\<lambda>(d, s, len) t. DeepCopyVectorPart e t d src s len) ps dst = Inr (dst\<lparr>wt_bytes := b\<rparr>) \<and>
    length b = length (wt_bytes dst) \<and>
    (\<forall>j<W. cell (SizeofType ty) W b 0 j = cell (SizeofType ty) V (wt_bytes src) 0 (piece_list ps ! j))"
proof -
  let ?z = "SizeofType ty"
  let ?S = "\<lambda>i j. cell ?z V (wt_bytes src) 0 (piece_list ps ! j)"
  let ?R = "\<lambda>(d, s, len) (i::nat) j. i = 0 \<and> d \<le> j \<and> j < d + len"
  have "\<exists>b. forE (\<lambda>(d, s, len) t. DeepCopyVectorPart e t d src s len) ps (dst\<lparr>wt_bytes := wt_bytes dst\<rparr>) =
      Inr (dst\<lparr>wt_bytes := b\<rparr>) \<and> length b = length (wt_bytes dst) \<and>
      (\<forall>i j. j < W \<longrightarrow> cell ?z W b i j = (if \<exists>x\<in>set ps. ?R x i j then ?S i j else cell ?z W (wt_bytes dst) i j))"
  proof (rule forE_fill)
    fix x and b :: "byte list"
    assume x: "x \<in> set ps" and b: "length b = length (wt_bytes dst)"
    obtain d s len where xe: "x = (d, s, len)" by (cases x) auto
    have in_ps: "(d, s, len) \<in> set ps" using x xe by simp
    have "d + len \<le> W" using consecutive_bound [OF ps(1) in_ps] ps(2) by simp
    moreover have "piece_list ps ! j = s + (j - d)" if "d \<le> j" "j < d + len" for j
      using consecutive_nth [OF ps(1) in_ps that] by simp
    ultimately show "\<exists>b'. (case x of (d, s, len) \<Rightarrow> \<lambda>t. DeepCopyVectorPart e t d src s len)
        (dst\<lparr>wt_bytes := b\<rparr>) = Inr (dst\<lparr>wt_bytes := b'\<rparr>) \<and> length b' = length (wt_bytes dst) \<and>
        (\<forall>i j. j < W \<longrightarrow> cell ?z W b' i j = (if ?R x i j then ?S i j else cell ?z W b i j))"
      using DeepCopyVectorPart_cells [OF e, of "dst\<lparr>wt_bytes := b\<rparr>" W src V ty d len s]
        dst src b ps(3) [OF in_ps] by (auto simp: xe)
  qed simp
  then obtain b where b: "forE (\<lambda>(d, s, len) t. DeepCopyVectorPart e t d src s len) ps dst =
      Inr (dst\<lparr>wt_bytes := b\<rparr>)" "length b = length (wt_bytes dst)"
      "\<And>i j. j < W \<Longrightarrow> cell ?z W b i j = (if \<exists>x\<in>set ps. ?R x i j then ?S i j else cell ?z W (wt_bytes dst) i j)"
    by auto
  have "\<exists>x\<in>set ps. ?R x 0 j" if "j < W" for j
    using consecutive_cover [OF ps(1), of j] ps(2) that by force
  with b show ?thesis by auto
qed

section \<open>What a part is\<close>

text \<open>The tensor \<open>t\<close> consists of the given rows and columns of the whole weight with the bytes \<open>ptr\<close>.\<close>

definition is_part :: "tensor_info \<Rightarrow> data_type \<Rightarrow> byte list \<Rightarrow> nat list \<Rightarrow> nat list \<Rightarrow> wtensor \<Rightarrow> bool" where
  "is_part info ty ptr rows cols t \<longleftrightarrow>
     wt_dtype t = ty \<and> last (wt_shape t) = length cols \<and> prod_list (butlast (wt_shape t)) = length rows \<and>
     (\<forall>i<length rows. \<forall>j<length cols.
        cell (SizeofType ty) (length cols) (wt_bytes t) i j =
        cell (SizeofType ty) (last (dims info)) ptr (rows ! i) (cols ! j))"

text \<open>The situation in which a splitter copies: the whole weight is in \<open>src\<close>, and \<open>dst\<close> has its new
  shape.\<close>

definition copying :: "weight_env \<Rightarrow> rank_info \<Rightarrow> tensor_info \<Rightarrow> data_type \<Rightarrow> wtensor \<Rightarrow> wtensor \<Rightarrow> bool" where
  "copying e ri info ty src dst \<longleftrightarrow>
     weight_env_ok e \<and> rank_valid ri \<and> wt_shape src = dims info \<and> wt_dtype src = ty \<and>
     wt_nbytes src \<le> length (wt_bytes src) \<and> wt_dtype dst = ty \<and> wt_nbytes dst \<le> length (wt_bytes dst)"

lemma rank_no_less: "rank_valid ri \<Longrightarrow> rank_no ri < nranks ri"
  by (auto simp: rank_valid_def rank_no_def nranks_def)

lemma columns_2d:
  assumes "copying e ri info ty src dst" "dims info = [h, V]" "wt_shape dst = [h, length (piece_list ps)]"
    and "consecutive 0 ps" "\<And>d s len. (d, s, len) \<in> set ps \<Longrightarrow> s + len \<le> V"
  shows "\<exists>t. forE (\<lambda>(d, s, len) t. DeepCopyMatrix2DPart e t d 0 src s 0 len h) ps dst = Inr t \<and>
    wt_shape t = wt_shape dst \<and> is_part info ty (wt_bytes src) [0..<h] (piece_list ps) t"
proof -
  have "h * length (piece_list ps) * SizeofType ty \<le> length (wt_bytes dst)"
    "h * V * SizeofType ty \<le> length (wt_bytes src)"
    using assms(1-3) by (auto simp: copying_def wt_nbytes_def dims_Count_def)
  then show ?thesis
    using matrix_pieces [of e dst h "length (piece_list ps)" ty src V ps] assms
    by (auto simp: copying_def is_part_def)
qed

lemma columns_1d:
  assumes "copying e ri info ty src dst" "dims info = [V]" "wt_shape dst = [length (piece_list ps)]"
    and "consecutive 0 ps" "\<And>d s len. (d, s, len) \<in> set ps \<Longrightarrow> s + len \<le> V"
  shows "\<exists>t. forE (\<lambda>(d, s, len) t. DeepCopyVectorPart e t d src s len) ps dst = Inr t \<and>
    wt_shape t = wt_shape dst \<and> is_part info ty (wt_bytes src) [0..<1] (piece_list ps) t"
proof -
  have "length (piece_list ps) * SizeofType ty \<le> length (wt_bytes dst)" "V * SizeofType ty \<le> length (wt_bytes src)"
    using assms(1-3) by (auto simp: copying_def wt_nbytes_def dims_Count_def)
  then show ?thesis
    using vector_pieces [of e dst "length (piece_list ps)" ty src V ps] assms
    by (auto simp: copying_def is_part_def)
qed

lemma bindE_Inr [simp]: "bindE m Inr = m"
  by (cases m) auto

lemma forE_Nil [simp]: "forE f [] = Inr"
  by (simp add: fun_eq_iff)

section \<open>Vertical splits\<close>

text \<open>The groups of columns that a mode splits.\<close>

fun split_groups :: "split_mode \<Rightarrow> tensor_info \<Rightarrow> nat list" where
  "split_groups QKVSPLIT info = replicate 3 (last (dims info) div 3)"
| "split_groups KVSPLIT info = replicate 2 (last (dims info) div 2)"
| "split_groups BATCH_KVSPLIT info = replicate 2 (last (dims info) div 2)"
| "split_groups GROUP_VSPLIT info = groups info"
| "split_groups mode info = [last (dims info)]"

lemma VSplit_copies:
  assumes c: "copying e ri info ty src dst" and ok: "VSplit_IsSplittable ri info"
    and shape: "wt_shape dst = wt_shape (VSplit_SetShape e ri info t0)"
  shows "\<exists>t. VSplit_CopyWeight e ri info dst (Some src) = Inr t \<and> wt_shape t = wt_shape dst \<and>
    is_part info ty (wt_bytes src) [0..<prod_list (butlast (dims info))]
      (group_cols (nranks ri) (rank_no ri) 0 [last (dims info)]) t"
proof -
  let ?n = "nranks ri" and ?r = "rank_no ri"
  have r: "?r < ?n" using c rank_no_less by (auto simp: copying_def)
  consider (matrix) h w where "dims info = [h, w]" | (bias) w where "dims info = [w]"
    using ok by (auto simp: VSplit_IsSplittable_def split: list.splits)
  then show ?thesis
  proof cases
    case matrix
    have shape': "wt_shape dst = [h, w div ?n]"
      using shape matrix by (simp add: VSplit_SetShape_def reshape_def wt_SetShape_def Let_def)
    have "VSplit_CopyWeight e ri info dst (Some src) =
        forE (\<lambda>(d, s, len) t. DeepCopyMatrix2DPart e t d 0 src s 0 len h) (group_pieces ?n ?r 0 0 [w]) dst"
      using matrix shape' c leD [OF div_le_dividend [of w ?n]]
      by (simp add: VSplit_CopyWeight_def DeepCopyMatrix2D_def dims_Count_def dim_def copying_def)
    with columns_2d [OF c matrix, of "group_pieces ?n ?r 0 0 [w]"] shape' matrix share_le [OF r, of w]
    show ?thesis by auto
  next
    case bias
    have shape': "wt_shape dst = [w div ?n]"
      using shape bias by (simp add: VSplit_SetShape_def reshape_def wt_SetShape_def Let_def)
    have "VSplit_CopyWeight e ri info dst (Some src) =
        forE (\<lambda>(d, s, len) t. DeepCopyVectorPart e t d src s len) (group_pieces ?n ?r 0 0 [w]) dst"
      using bias shape' c leD [OF div_le_dividend [of w ?n]]
      by (simp add: VSplit_CopyWeight_def DeepCopyVector_def dims_Count_def dim_def copying_def)
    with columns_1d [OF c bias, of "group_pieces ?n ?r 0 0 [w]"] shape' bias share_le [OF r, of w]
    show ?thesis by auto
  qed
qed

lemma BatchGEMM_copies:
  assumes c: "copying e ri info ty src dst" and ok: "BatchGEMM_IsSplittable cnt ri info" and cnt: "0 < cnt"
    and shape: "wt_shape dst = wt_shape (VSplit_SetShape e ri info t0)"
  shows "\<exists>t. BatchGEMM_CopyWeight cnt e ri info dst (Some src) = Inr t \<and> wt_shape t = wt_shape dst \<and>
    is_part info ty (wt_bytes src) [0..<prod_list (butlast (dims info))]
      (group_cols (nranks ri) (rank_no ri) 0 (replicate cnt (last (dims info) div cnt))) t"
proof -
  let ?n = "nranks ri" and ?r = "rank_no ri"
  have r: "?r < ?n" using c rank_no_less by (auto simp: copying_def)
  define w where "w = last (dims info)"
  let ?ps = "group_pieces ?n ?r 0 0 (replicate cnt (w div cnt))"
  have dvd: "cnt * ?n dvd w"
    using ok by (auto simp: w_def BatchGEMM_IsSplittable_def mult.commute split: list.splits)
  then obtain q where q: "w = cnt * (?n * q)" by (metis dvdE mult.assoc)
  have width: "w div cnt = ?n * q" "w div cnt div ?n = q" "w div ?n = cnt * q" "w div ?n div cnt = q"
    using cnt r by (simp_all add: q mult.left_commute [of cnt])
  have ps: "?ps = map (\<lambda>i. (i * q, i * (?n * q) + q * ?r, q)) [0..<cnt]"
    using group_pieces_replicate [of ?n ?r 0 "w div cnt" cnt] width by simp
  have len: "length (piece_list ?ps) = w div ?n"
    using width r cnt by (simp add: length_group_cols sum_list_replicate)
  have bound: "s + l \<le> w" if "(d, s, l) \<in> set ?ps" for d s l
    using group_pieces_bound [OF r that] q cnt by (simp add: sum_list_replicate)
  consider (matrix) h where "dims info = [h, w]" | (bias) "dims info = [w]"
    using ok by (auto simp: w_def BatchGEMM_IsSplittable_def split: list.splits)
  then show ?thesis
  proof cases
    case matrix
    have shape': "wt_shape dst = [h, w div ?n]"
      using shape matrix by (simp add: VSplit_SetShape_def reshape_def wt_SetShape_def Let_def)
    have "i * (?n * q) div ?n = i * q" for i using r by (simp add: mult.left_commute)
    then have "BatchGEMM_CopyWeight cnt e ri info dst (Some src) =
        forE (\<lambda>(d, s, len) t. DeepCopyMatrix2DPart e t d 0 src s 0 len h) ?ps dst"
      unfolding ps forE_map using matrix r by (simp add: BatchGEMM_CopyWeight_def Let_def width)
    with columns_2d [OF c matrix, of ?ps] shape' len bound matrix show ?thesis by auto
  next
    case bias
    have shape': "wt_shape dst = [w div ?n]"
      using shape bias by (simp add: VSplit_SetShape_def reshape_def wt_SetShape_def Let_def)
    have "BatchGEMM_CopyWeight cnt e ri info dst (Some src) =
        forE (\<lambda>(d, s, len) t. DeepCopyVectorPart e t d src s len) ?ps dst"
      unfolding ps forE_map using bias r by (simp add: BatchGEMM_CopyWeight_def Let_def width mult.commute)
    with columns_1d [OF c bias, of ?ps] shape' len bound bias show ?thesis by auto
  qed
qed

text \<open>The loop over the list of groups.\<close>

lemma group_copy_matrix_pieces:
  "\<forall>g\<in>set gs. nranks ri dvd g \<Longrightarrow> nranks ri dvd P \<Longrightarrow>
   group_copy_matrix e ri src h P gs dst =
   forE (\<lambda>(d, s, len) t. DeepCopyMatrix2DPart e t d 0 src s 0 len h)
     (group_pieces (nranks ri) (rank_no ri) (P div nranks ri) P gs) dst"
proof (induction gs arbitrary: P dst)
  case (Cons g gs)
  then have "(P + g) div nranks ri = P div nranks ri + g div nranks ri"
    by (simp add: div_plus_div_distrib_dvd_left)
  with Cons.IH [of "P + g"] Cons.prems
  have "group_copy_matrix e ri src h (P + g) gs = forE (\<lambda>(d, s, len) t. DeepCopyMatrix2DPart e t d 0 src s 0 len h)
     (group_pieces (nranks ri) (rank_no ri) (P div nranks ri + g div nranks ri) (P + g) gs)"
    by (simp add: fun_eq_iff)
  then show ?case by (simp add: Let_def)
qed simp

lemma group_copy_vector_pieces:
  "\<forall>g\<in>set gs. nranks ri dvd g \<Longrightarrow> nranks ri dvd P \<Longrightarrow>
   group_copy_vector e ri src P gs dst =
   forE (\<lambda>(d, s, len) t. DeepCopyVectorPart e t d src s len)
     (group_pieces (nranks ri) (rank_no ri) (P div nranks ri) P gs) dst"
proof (induction gs arbitrary: P dst)
  case (Cons g gs)
  then have "(P + g) div nranks ri = P div nranks ri + g div nranks ri"
    by (simp add: div_plus_div_distrib_dvd_left)
  with Cons.IH [of "P + g"] Cons.prems
  have "group_copy_vector e ri src (P + g) gs = forE (\<lambda>(d, s, len) t. DeepCopyVectorPart e t d src s len)
     (group_pieces (nranks ri) (rank_no ri) (P div nranks ri + g div nranks ri) (P + g) gs)"
    by (simp add: fun_eq_iff)
  then show ?case by (simp add: Let_def)
qed simp

lemma GroupList_copies:
  assumes c: "copying e ri info ty src dst" and ok: "GroupList_IsSplittable ri info"
    and shape: "wt_shape dst = wt_shape (VSplit_SetShape e ri info t0)"
  shows "\<exists>t. GroupList_CopyWeight e ri info dst (Some src) = Inr t \<and> wt_shape t = wt_shape dst \<and>
    is_part info ty (wt_bytes src) [0..<prod_list (butlast (dims info))]
      (group_cols (nranks ri) (rank_no ri) 0 (groups info)) t"
proof -
  let ?n = "nranks ri" and ?r = "rank_no ri"
  have r: "?r < ?n" using c rank_no_less by (auto simp: copying_def)
  let ?w = "sum_list (groups info)"
  let ?ps = "group_pieces ?n ?r 0 0 (groups info)"
  have dvd: "\<forall>g\<in>set (groups info). ?n dvd g"
    using ok by (auto simp: GroupList_IsSplittable_def list_all_iff mod_eq_0_iff_dvd)
  have len: "length (piece_list ?ps) = ?w div ?n" using dvd by (simp add: length_group_cols)
  have bound: "s + l \<le> ?w" if "(d, s, l) \<in> set ?ps" for d s l
    using group_pieces_bound [OF r that] by simp
  consider (matrix) h where "dims info = [h, ?w]" | (bias) "dims info = [?w]"
    using ok by (auto simp: GroupList_IsSplittable_def split: list.splits)
  then show ?thesis
  proof cases
    case matrix
    have shape': "wt_shape dst = [h, ?w div ?n]"
      using shape matrix by (simp add: VSplit_SetShape_def reshape_def wt_SetShape_def Let_def)
    have "GroupList_CopyWeight e ri info dst (Some src) =
        forE (\<lambda>(d, s, len) t. DeepCopyMatrix2DPart e t d 0 src s 0 len h) ?ps dst"
      using matrix group_copy_matrix_pieces [OF dvd, of 0] by (simp add: GroupList_CopyWeight_def)
    with columns_2d [OF c matrix, of ?ps] shape' len bound matrix show ?thesis by auto
  next
    case bias
    have shape': "wt_shape dst = [?w div ?n]"
      using shape bias by (simp add: VSplit_SetShape_def reshape_def wt_SetShape_def Let_def)
    have "GroupList_CopyWeight e ri info dst (Some src) =
        forE (\<lambda>(d, s, len) t. DeepCopyVectorPart e t d src s len) ?ps dst"
      using bias group_copy_vector_pieces [OF dvd, of 0] by (simp add: GroupList_CopyWeight_def)
    with columns_1d [OF c bias, of ?ps] shape' len bound bias show ?thesis by auto
  qed
qed

text \<open>The share of the first group, then the two others whole.\<close>

definition mqa_cols :: "rank_info \<Rightarrow> nat list \<Rightarrow> nat list" where
  "mqa_cols ri gs = group_cols (nranks ri) (rank_no ri) 0 [gs ! 0] @ [gs ! 0..<sum_list gs]"

lemma MQA_copies:
  assumes c: "copying e ri info ty src dst" and ok: "MQA_IsSplittable ri info"
    and shape: "wt_shape dst = wt_shape (MQA_SetShape e ri info t0)"
  shows "\<exists>t. MQA_CopyWeight e ri info dst (Some src) = Inr t \<and> wt_shape t = wt_shape dst \<and>
    is_part info ty (wt_bytes src) [0..<prod_list (butlast (dims info))] (mqa_cols ri (groups info)) t"
proof -
  let ?n = "nranks ri" and ?r = "rank_no ri"
  have r: "?r < ?n" using c rank_no_less by (auto simp: copying_def)
  let ?w = "sum_list (groups info)" and ?ps = "mqa_pieces ri True 0 0 (groups info)"
  obtain x y z where g: "groups info = [x, y, z]"
    using ok by (auto simp: MQA_IsSplittable_def length_Suc_conv numeral_3_eq_3)
  have ps: "?ps = [(0, x div ?n * ?r, x div ?n), (x div ?n, x, y), (x div ?n + y, x + y, z)]"
    by (simp add: g Let_def)
  have "[x..<x + y] @ [x + y..<x + y + z] = [x..<x + (y + z)]"
    using upt_add_eq_append [of x "x + y" z] by (simp add: add.assoc)
  then have cols: "piece_list ?ps = mqa_cols ri (groups info)" unfolding ps by (simp add: g mqa_cols_def add.assoc)
  have len: "length (piece_list ?ps) = mqa_width ri info" unfolding ps by (simp add: mqa_width_def g)
  have bound: "s + l \<le> ?w" if "(d, s, l) \<in> set ?ps" for d s l
    using that share_le [OF r, of x] unfolding ps by (auto simp: g)
  have cons: "consecutive 0 ?ps" unfolding ps by simp
  consider (matrix) h where "dims info = [h, ?w]" | (bias) "dims info = [?w]"
    using ok by (auto simp: MQA_IsSplittable_def split: list.splits)
  then show ?thesis
  proof cases
    case matrix
    have "wt_shape dst = [h, mqa_width ri info]"
      using shape matrix by (simp add: MQA_SetShape_def reshape_def wt_SetShape_def Let_def)
    with columns_2d [OF c matrix, of ?ps] len cons bound matrix cols show ?thesis
      by (auto simp: MQA_CopyWeight_def)
  next
    case bias
    have "wt_shape dst = [mqa_width ri info]"
      using shape bias by (simp add: MQA_SetShape_def reshape_def wt_SetShape_def Let_def)
    with columns_1d [OF c bias, of ?ps] len cons bound bias cols show ?thesis
      by (auto simp: MQA_CopyWeight_def)
  qed
qed

section \<open>Horizontal splits\<close>

lemma HSplit_copies:
  assumes c: "copying e ri info ty src dst" and ok: "HSplit_IsSplittable ri info"
    and d: "dims info = [h, w]" and shape: "wt_shape dst = wt_shape (HSplit_SetShape e ri info t0)"
  shows "\<exists>t. HSplit_CopyWeight e ri info dst (Some src) = Inr t \<and> wt_shape t = wt_shape dst \<and>
    is_part info ty (wt_bytes src) (group_cols (nranks ri) (rank_no ri) 0 [h]) [0..<w] t"
proof -
  let ?n = "nranks ri" and ?r = "rank_no ri"
  have r: "?r < ?n" using c rank_no_less by (auto simp: copying_def)
  obtain q where q: "h = ?n * q" using ok d by (auto simp: HSplit_IsSplittable_def)
  have shape': "wt_shape dst = [q, w]"
    using shape d r by (auto simp: HSplit_SetShape_def reshape_def wt_SetShape_def Let_def q)
  have "q * w * SizeofType ty \<le> length (wt_bytes dst)" "h * w * SizeofType ty \<le> length (wt_bytes src)"
    using c d shape' by (auto simp: copying_def wt_nbytes_def dims_Count_def)
  moreover have "?r * q + q \<le> h" using share_le [OF r, of h] r by (auto simp: q mult.commute)
  moreover have "HSplit_CopyWeight e ri info dst (Some src) = DeepCopyMatrix2DPart e dst 0 0 src 0 (?r * q) w q"
    using d shape' c r leD [OF mult_le_mono1 [of q h w]]
    by (auto simp: HSplit_CopyWeight_def DeepCopyMatrix2D_def dims_Count_def dim_def copying_def q mult.left_commute [of ?r])
  ultimately show ?thesis
    using DeepCopyMatrix2DPart_cells [of e dst q w src h w ty 0 w 0 0 q "?r * q"] c d shape' r
    by (auto simp: copying_def is_part_def q mult.commute)
qed

lemma HSplit_bias_first:
  assumes c: "copying e ri info ty src dst" and d: "dims info = [w]" "wt_shape dst = [w]" "rank_no ri = 0"
  shows "\<exists>t. HSplit_CopyWeight e ri info dst (Some src) = Inr t \<and> wt_shape t = wt_shape dst \<and>
    is_part info ty (wt_bytes src) [0..<1] [0..<w] t"
proof -
  have "HSplit_CopyWeight e ri info dst (Some src) =
      forE (\<lambda>(d, s, len) t. DeepCopyVectorPart e t d src s len) [(0, 0, w)] dst"
    using d c by (simp add: HSplit_CopyWeight_def DeepCopyVector_def dims_Count_def dim_def copying_def)
  with columns_1d [OF c d(1), of "[(0, 0, w)]"] d show ?thesis by auto
qed

lemma HSplit_bias_rest:
  assumes c: "copying e ri info ty src dst" and d: "dims info = [w]" "wt_shape dst = [w]" "rank_no ri \<noteq> 0"
    and dev: "wt_device dst = CPU \<or> wt_device dst = CUDA"
  shows "HSplit_CopyWeight e ri info dst (Some src) =
    Inr (dst\<lparr>wt_bytes := replicate (length (wt_bytes dst)) 0\<rparr>)"
proof (cases "wt_bytes dst = []")
  case False
  have "wt_GetSizeInByte dst = length (wt_bytes dst)" using c by (simp add: copying_def wt_GetSizeInByte_def)
  with False show ?thesis
    using assms by (auto simp: HSplit_CopyWeight_def wt_Memset_def memset_def copying_def weight_env_ok_def)
qed (use assms in \<open>simp add: HSplit_CopyWeight_def wt_Memset_def\<close>)

end
