(* ===== verification/Weight_Batch.thy ===== *)
theory Weight_Batch
  imports Weight_Parts
begin

text \<open>
  The splits of batched weights, the matrices of the experts of a layer one after the other. Their
  loops copy through raw pointers, whose offsets the source computes in \<open>int\<close>.
\<close>

lemma copy_sub_matrix_cells:
  assumes "weight_env_ok e" "wt_dtype src = ty" "wt_dtype dst = ty" "last (wt_shape dst) = W" "last (wt_shape src) = V"
    and "dc + w \<le> W" "sc + w \<le> V"
    and "(dr + h) * W * SizeofType ty \<le> length (wt_bytes dst)" "(sr + h) * V * SizeofType ty \<le> length (wt_bytes src)"
    and "on_device (wt_device src) (wt_device dst) \<or> w = W"
    and "si = sr * V + sc" "di = dr * W + dc" "wb = w * SizeofType ty"
  shows "\<exists>b. copy_sub_matrix e src si di h wb dst = Inr (dst\<lparr>wt_bytes := b\<rparr>) \<and>
    length b = length (wt_bytes dst) \<and>
    (\<forall>i j. j < W \<longrightarrow> cell (SizeofType ty) W b i j =
      (if dr \<le> i \<and> i < dr + h \<and> dc \<le> j \<and> j < dc + w
       then cell (SizeofType ty) V (wt_bytes src) (sr + (i - dr)) (sc + (j - dc))
       else cell (SizeofType ty) W (wt_bytes dst) i j))"
proof -
  let ?z = "SizeofType ty"
  from copy_rows_cells [OF assms(6-9)] obtain b where
    b: "copy_rows (wt_bytes dst) ((dr * W + dc) * ?z) (W * ?z) (wt_bytes src) ((sr * V + sc) * ?z) (V * ?z) (w * ?z) h
        = Inr b" "length b = length (wt_bytes dst)"
    "\<forall>i j. j < W \<longrightarrow> cell ?z W b i j =
      (if dr \<le> i \<and> i < dr + h \<and> dc \<le> j \<and> j < dc + w
       then cell ?z V (wt_bytes src) (sr + (i - dr)) (sc + (j - dc)) else cell ?z W (wt_bytes dst) i j)"
    by blast
  have "w * ?z \<le> W * ?z" "w * ?z \<le> V * ?z" using assms(6,7) by (intro mult_le_mono1; simp)+
  then have "we_cudaMemcpy2D e (wt_bytes dst) ((dr * W + dc) * ?z) (W * ?z) (wt_bytes src) ((sr * V + sc) * ?z)
      (V * ?z) (w * ?z) h = Inr b"
    using assms(1) b(1) by (simp add: weight_env_ok_def)
  with b(1) have "copy_sub_matrix e src si di h wb dst = Inr (dst\<lparr>wt_bytes := b\<rparr>)"
    using assms(2-5,10-13) by (auto simp: copy_sub_matrix_def CopyMatrix2D_def wt_stride_def)
  with b(2,3) show ?thesis by blast
qed

lemma int_mul_ok: "a * b \<le> 2147483647 \<Longrightarrow> int_mul a b = Inr (a * b)"
  by (simp add: int_mul_def)

text \<open>The block of rows that belongs to one matrix of the batch.\<close>

definition in_batch :: "nat \<Rightarrow> nat \<Rightarrow> nat \<Rightarrow> bool" where
  "in_batch h x i \<longleftrightarrow> x * h \<le> i \<and> i < x * h + h"

lemma in_batch_cover:
  assumes "i < B * h"
  shows "\<exists>x\<in>set [0..<B]. in_batch h x i"
proof
  from assms have h: "0 < h" by (cases h) auto
  show "in_batch h (i div h) i"
    using h dividend_less_div_times [of h i] by (simp add: in_batch_def)
  show "i div h \<in> set [0..<B]" using assms by (simp add: less_mult_imp_div_less)
qed

lemma batch_end:
  fixes x B h :: nat
  assumes "x < B"
  shows "x * h + h \<le> B * h"
proof -
  have "Suc x * h \<le> B * h" using assms by (intro mult_le_mono1) simp
  then show ?thesis by simp
qed

lemma batch_products:
  fixes x B h w :: nat
  assumes "x < B" "0 < w" "B * h * w \<le> m"
  shows "x * h \<le> m" "x * h * w \<le> m"
proof -
  have "x * h * w \<le> B * h * w" using assms(1) by (intro mult_le_mono1) simp
  from this assms(3) show "x * h * w \<le> m" by (rule le_trans)
  moreover have "x * h \<le> x * h * w" using assms(2) by (cases w) simp_all
  ultimately show "x * h \<le> m" by linarith
qed

lemma rows_fit:
  fixes a n W z m :: nat
  assumes "a \<le> n" "n * W * z \<le> m"
  shows "a * W * z \<le> m"
  using mult_le_mono1 [OF mult_le_mono1 [OF assms(1)], of W z] assms(2) by (rule le_trans)

section \<open>Vertical\<close>

lemma BatchVSplit_copies:
  assumes c: "copying e ri info ty src dst" and ok: "BatchVSplit_IsSplittable ri info"
    and shape: "wt_shape dst = wt_shape (BatchVSplit_SetShape e ri info t0)"
    and small: "0 < last (dims info)" "prod_list (dims info) \<le> 2147483647"
  shows "\<exists>t. BatchVSplit_CopyWeight e ri info dst (Some src) = Inr t \<and> wt_shape t = wt_shape dst \<and>
    is_part info ty (wt_bytes src) [0..<prod_list (butlast (dims info))]
      (group_cols (nranks ri) (rank_no ri) 0 [last (dims info)]) t"
proof -
  let ?n = "nranks ri" and ?r = "rank_no ri" and ?z = "SizeofType ty"
  have r: "?r < ?n" using c rank_no_less by (auto simp: copying_def)
  obtain B h V where d: "dims info = [B, h, V]" "?n dvd V"
    using ok by (auto simp: BatchVSplit_IsSplittable_def split: list.splits)
  define W where "W = V div ?n"
  have shape': "wt_shape dst = [B, h, W]"
    using shape d by (simp add: BatchVSplit_SetShape_def reshape_def wt_SetShape_def Let_def W_def)
  have len: "B * h * W * ?z \<le> length (wt_bytes dst)" "B * h * V * ?z \<le> length (wt_bytes src)"
    using c d shape' by (auto simp: copying_def wt_nbytes_def dims_Count_def mult.assoc)
  have V: "W * ?r + W \<le> V" using share_le [OF r, of V] by (simp add: W_def)
  let ?f = "\<lambda>i dst. bindE (int_mul i h) (\<lambda>ih. bindE (int_mul ih V) (\<lambda>ihw.
         let w' = V div ?n in copy_sub_matrix e src (ihw + w' * ?r) (ih * w') h (wt_stride dst) dst))"
  have "\<exists>b. forE ?f [0..<B] (dst\<lparr>wt_bytes := wt_bytes dst\<rparr>) = Inr (dst\<lparr>wt_bytes := b\<rparr>) \<and>
      length b = length (wt_bytes dst) \<and>
      (\<forall>i j. j < W \<longrightarrow> cell ?z W b i j =
        (if \<exists>x\<in>set [0..<B]. in_batch h x i then cell ?z V (wt_bytes src) i (W * ?r + j) else cell ?z W (wt_bytes dst) i j))"
  proof (rule forE_fill)
    fix x and b :: "byte list"
    assume x: "x \<in> set [0..<B]" and b: "length b = length (wt_bytes dst)"
    have "B * h * V \<le> 2147483647" "0 < V" using small d by (simp_all add: mult.assoc)
    then have "int_mul x h = Inr (x * h)" "int_mul (x * h) V = Inr (x * h * V)"
      using batch_products [of x B V h 2147483647] x by (auto simp del: mult_le_cancel2 intro!: int_mul_ok)
    then have "?f x (dst\<lparr>wt_bytes := b\<rparr>) = copy_sub_matrix e src (x * h * V + W * ?r) (x * h * W) h
        (wt_stride dst) (dst\<lparr>wt_bytes := b\<rparr>)"
      by (simp add: W_def wt_stride_def Let_def)
    moreover have "(x * h + h) * W * ?z \<le> length (wt_bytes dst)" "(x * h + h) * V * ?z \<le> length (wt_bytes src)"
      using batch_end [of x B h] x rows_fit [OF _ len(1)] rows_fit [OF _ len(2)] by auto
    then have "\<exists>b'. copy_sub_matrix e src (x * h * V + W * ?r) (x * h * W) h (wt_stride dst) (dst\<lparr>wt_bytes := b\<rparr>) =
        Inr (dst\<lparr>wt_bytes := b\<rparr>\<lparr>wt_bytes := b'\<rparr>) \<and> length b' = length (wt_bytes (dst\<lparr>wt_bytes := b\<rparr>)) \<and>
        (\<forall>i j. j < W \<longrightarrow> cell ?z W b' i j =
          (if x * h \<le> i \<and> i < x * h + h \<and> 0 \<le> j \<and> j < 0 + W
           then cell ?z V (wt_bytes src) (x * h + (i - x * h)) (W * ?r + (j - 0))
           else cell ?z W (wt_bytes (dst\<lparr>wt_bytes := b\<rparr>)) i j))"
      using c d shape' len b V by (intro copy_sub_matrix_cells) (auto simp: copying_def wt_stride_def)
    ultimately show "\<exists>b'. ?f x (dst\<lparr>wt_bytes := b\<rparr>) = Inr (dst\<lparr>wt_bytes := b'\<rparr>) \<and> length b' = length (wt_bytes dst) \<and>
        (\<forall>i j. j < W \<longrightarrow> cell ?z W b' i j =
          (if in_batch h x i then cell ?z V (wt_bytes src) i (W * ?r + j) else cell ?z W b i j))"
      using b by (auto simp: in_batch_def)
  qed simp
  then obtain b where b: "BatchVSplit_CopyWeight e ri info dst (Some src) = Inr (dst\<lparr>wt_bytes := b\<rparr>)"
      "length b = length (wt_bytes dst)"
      "\<And>i j. j < W \<Longrightarrow> i < B * h \<Longrightarrow> cell ?z W b i j = cell ?z V (wt_bytes src) i (W * ?r + j)"
    using d in_batch_cover [of _ B h] by (auto simp: BatchVSplit_CopyWeight_def batch_v_copy_def)
  have "is_part info ty (wt_bytes src) [0..<B * h] (group_cols ?n ?r 0 [V]) (dst\<lparr>wt_bytes := b\<rparr>)"
    using b c d shape' by (auto simp: is_part_def copying_def W_def [symmetric])
  with b(1) d show ?thesis by auto
qed

section \<open>Horizontal\<close>

lemma BatchHSplit_copies:
  assumes c: "copying e ri info ty src dst" and ok: "BatchHSplit_IsSplittable ri info"
    and d: "dims info = [B, h, V]"
    and shape: "wt_shape dst = wt_shape (BatchHSplit_SetShape e ri info t0)"
    and small: "0 < last (dims info)" "prod_list (dims info) \<le> 2147483647"
  shows "\<exists>t. BatchHSplit_CopyWeight e ri info dst (Some src) = Inr t \<and> wt_shape t = wt_shape dst \<and>
    is_part info ty (wt_bytes src) (group_cols (nranks ri) (rank_no ri) 0 (replicate B h)) [0..<V] t"
proof -
  let ?n = "nranks ri" and ?r = "rank_no ri" and ?z = "SizeofType ty"
  have r: "?r < ?n" using c rank_no_less by (auto simp: copying_def)
  obtain q where q: "h = ?n * q" using ok d by (auto simp: BatchHSplit_IsSplittable_def)
  have hq: "h div ?n = q" using r by (simp add: q)
  have shape': "wt_shape dst = [B, q, V]"
    using shape d hq by (simp add: BatchHSplit_SetShape_def reshape_def wt_SetShape_def Let_def)
  have len: "B * q * V * ?z \<le> length (wt_bytes dst)" "B * h * V * ?z \<le> length (wt_bytes src)"
    using c d shape' by (auto simp: copying_def wt_nbytes_def dims_Count_def mult.assoc)
  have h: "q * ?r + q \<le> h" using share_le [OF r, of h] hq by simp
  let ?rows = "group_cols ?n ?r 0 (replicate B h)"
  have pieces: "group_pieces ?n ?r 0 0 (replicate B h) = map (\<lambda>i. (i * q, i * h + q * ?r, q)) [0..<B]"
    using group_pieces_replicate [of ?n ?r 0 h B] hq by simp
  have rows: "?rows ! i = x * h + q * ?r + (i - x * q)" if "x < B" "in_batch q x i" for x i
  proof -
    have "(x * q, x * h + q * ?r, q) \<in> set (group_pieces ?n ?r 0 0 (replicate B h))"
      using that(1) by (auto simp: pieces)
    from consecutive_nth [OF group_pieces_consecutive this, of i] that(2) show ?thesis by (simp add: in_batch_def)
  qed
  let ?f = "\<lambda>i dst. bindE (int_mul i h) (\<lambda>ih. bindE (int_mul ih V) (\<lambda>ihw.
         copy_sub_matrix e src (ihw + ?r * q * V) (i * q * V) q (wt_stride dst) dst))"
  have "\<exists>b. forE ?f [0..<B] (dst\<lparr>wt_bytes := wt_bytes dst\<rparr>) = Inr (dst\<lparr>wt_bytes := b\<rparr>) \<and>
      length b = length (wt_bytes dst) \<and>
      (\<forall>i j. j < V \<longrightarrow> cell ?z V b i j =
        (if \<exists>x\<in>set [0..<B]. in_batch q x i then cell ?z V (wt_bytes src) (?rows ! i) j else cell ?z V (wt_bytes dst) i j))"
  proof (rule forE_fill)
    fix x and b :: "byte list"
    assume x: "x \<in> set [0..<B]" and b: "length b = length (wt_bytes dst)"
    have "B * h * V \<le> 2147483647" "0 < V" using small d by (simp_all add: mult.assoc)
    then have "int_mul x h = Inr (x * h)" "int_mul (x * h) V = Inr (x * h * V)"
      using batch_products [of x B V h 2147483647] x by (auto simp del: mult_le_cancel2 intro!: int_mul_ok)
    then have "?f x (dst\<lparr>wt_bytes := b\<rparr>) = copy_sub_matrix e src ((x * h + q * ?r) * V) (x * q * V) q
        (wt_stride dst) (dst\<lparr>wt_bytes := b\<rparr>)"
      by (simp add: wt_stride_def add_mult_distrib mult.commute [of ?r])
    moreover have "x * q + q \<le> B * q" "x * h + q * ?r + q \<le> B * h"
      using batch_end [of x B q] batch_end [of x B h] h x by auto
    then have "(x * q + q) * V * ?z \<le> length (wt_bytes dst)" "(x * h + q * ?r + q) * V * ?z \<le> length (wt_bytes src)"
      using rows_fit [OF _ len(1)] rows_fit [OF _ len(2)] by auto
    then have "\<exists>b'. copy_sub_matrix e src ((x * h + q * ?r) * V) (x * q * V) q (wt_stride dst) (dst\<lparr>wt_bytes := b\<rparr>) =
        Inr (dst\<lparr>wt_bytes := b\<rparr>\<lparr>wt_bytes := b'\<rparr>) \<and> length b' = length (wt_bytes (dst\<lparr>wt_bytes := b\<rparr>)) \<and>
        (\<forall>i j. j < V \<longrightarrow> cell ?z V b' i j =
          (if x * q \<le> i \<and> i < x * q + q \<and> 0 \<le> j \<and> j < 0 + V
           then cell ?z V (wt_bytes src) (x * h + q * ?r + (i - x * q)) (0 + (j - 0))
           else cell ?z V (wt_bytes (dst\<lparr>wt_bytes := b\<rparr>)) i j))"
      using c d shape' len b by (intro copy_sub_matrix_cells) (auto simp: copying_def wt_stride_def)
    ultimately show "\<exists>b'. ?f x (dst\<lparr>wt_bytes := b\<rparr>) = Inr (dst\<lparr>wt_bytes := b'\<rparr>) \<and> length b' = length (wt_bytes dst) \<and>
        (\<forall>i j. j < V \<longrightarrow> cell ?z V b' i j =
          (if in_batch q x i then cell ?z V (wt_bytes src) (?rows ! i) j else cell ?z V b i j))"
      using b x rows [of x] by (auto simp: in_batch_def)
  qed simp
  then obtain b where b: "BatchHSplit_CopyWeight e ri info dst (Some src) = Inr (dst\<lparr>wt_bytes := b\<rparr>)"
      "length b = length (wt_bytes dst)"
      "\<And>i j. j < V \<Longrightarrow> i < B * q \<Longrightarrow> cell ?z V b i j = cell ?z V (wt_bytes src) (?rows ! i) j"
    using d in_batch_cover [of _ B q] by (auto simp: BatchHSplit_CopyWeight_def hq Let_def)
  have "length ?rows = B * q" using q r by (auto simp: length_group_cols sum_list_replicate)
  then have "is_part info ty (wt_bytes src) ?rows [0..<V] (dst\<lparr>wt_bytes := b\<rparr>)"
    using b c d shape' by (auto simp: is_part_def copying_def)
  with b(1) show ?thesis by auto
qed

section \<open>Keys and values of the experts\<close>

lemma batch_kv_copies:
  assumes c: "copying e ri info ty src dst" and V: "last (dims info) = V" "V = 2 * (nranks ri * q)" "0 < V"
    and small: "B * h * V \<le> 2147483647" and W: "last (wt_shape dst) = 2 * q"
    and len: "B * h * (2 * q) * SizeofType ty \<le> length (wt_bytes dst)" "B * h * V * SizeofType ty \<le> length (wt_bytes src)"
    and cuda: "on_device (wt_device src) (wt_device dst)"
  shows "\<exists>b. batch_kv_copy e ri src B h V dst = Inr (dst\<lparr>wt_bytes := b\<rparr>) \<and> length b = length (wt_bytes dst) \<and>
    (\<forall>i<B * h. \<forall>j<2 * q. cell (SizeofType ty) (2 * q) b i j =
      cell (SizeofType ty) V (wt_bytes src) i (group_cols (nranks ri) (rank_no ri) 0 (replicate 2 (V div 2)) ! j))"
proof -
  let ?n = "nranks ri" and ?r = "rank_no ri" and ?z = "SizeofType ty"
  have r: "?r < ?n" using c rank_no_less by (auto simp: copying_def)
  define w where "w = ?n * q"
  have w: "V div 2 = w" "w div ?n = q" "V = 2 * w" using V(2) r by (auto simp: w_def)
  let ?cols = "group_cols ?n ?r 0 (replicate 2 (V div 2))"
  have pieces: "group_pieces ?n ?r 0 0 (replicate 2 (V div 2)) = map (\<lambda>i. (i * q, i * w + q * ?r, q)) [0..<2]"
    using group_pieces_replicate [of ?n ?r 0 "V div 2" 2] unfolding w(1,2) by (simp only: mult_0 add_0)
  have cols: "?cols ! j = i * w + q * ?r + (j - i * q)" if "i < 2" "i * q \<le> j" "j < i * q + q" for i j
  proof -
    have "(i * q, i * w + q * ?r, q) \<in> set (group_pieces ?n ?r 0 0 (replicate 2 (V div 2)))"
      unfolding pieces using that(1) by (auto simp del: upt_rec_numeral)
    from consecutive_nth [OF group_pieces_consecutive this that(2,3)] show ?thesis by simp
  qed
  have share: "q * ?r + q \<le> w" using share_le [OF r, of w] w by simp
  let ?S = "\<lambda>i j. cell ?z V (wt_bytes src) i (?cols ! j)"
  let ?g = "\<lambda>b i dst. bindE (int_mul b h) (\<lambda>bh. bindE (int_mul bh (V div 2)) (\<lambda>bhw. bindE (int_mul bhw 2) (\<lambda>bhw2.
      copy_sub_matrix e src (bhw2 + i * (V div 2) + V div 2 div ?n * ?r) (bh * (V div 2 div ?n) * 2 + i * (V div 2 div ?n))
        h (wt_stride dst div 2) dst)))"
  have inner: "\<exists>b'. forE (?g x) [0..<2] (dst\<lparr>wt_bytes := b\<rparr>) = Inr (dst\<lparr>wt_bytes := b'\<rparr>) \<and> length b' = length (wt_bytes dst) \<and>
      (\<forall>i j. j < 2 * q \<longrightarrow> cell ?z (2 * q) b' i j =
        (if \<exists>y\<in>set [0..<2]. in_batch h x i \<and> y * q \<le> j \<and> j < y * q + q then ?S i j else cell ?z (2 * q) b i j))"
    if x: "x < B" and b: "length b = length (wt_bytes dst)" for x b
    using _ b
  proof (rule forE_fill)
    fix y and b :: "byte list"
    assume y: "y \<in> set [0..<2]" and b: "length b = length (wt_bytes dst)"
    have "x * h \<le> 2147483647" "x * h * V \<le> 2147483647" using batch_products [OF x V(3) small] by auto
    then have "int_mul x h = Inr (x * h)" "int_mul (x * h) w = Inr (x * h * w)" "int_mul (x * h * w) 2 = Inr (x * h * w * 2)"
      by (auto intro!: int_mul_ok simp: w(3))
    then have "?g x y (dst\<lparr>wt_bytes := b\<rparr>) = copy_sub_matrix e src (x * h * w * 2 + y * w + q * ?r) (x * h * q * 2 + y * q)
        h (wt_stride dst div 2) (dst\<lparr>wt_bytes := b\<rparr>)"
      by (simp add: w(1,2) wt_stride_def)
    moreover have "(x * h + h) * (2 * q) * ?z \<le> length (wt_bytes dst)" "(x * h + h) * V * ?z \<le> length (wt_bytes src)"
      using batch_end [OF x, of h] rows_fit [OF _ len(1)] rows_fit [OF _ len(2)] by auto
    moreover have "y * q + q \<le> 2 * q" "y * w + q * ?r + q \<le> V" using y share w(3) by (auto simp: less_2_cases_iff)
    ultimately have "\<exists>b'. ?g x y (dst\<lparr>wt_bytes := b\<rparr>) =
        Inr (dst\<lparr>wt_bytes := b\<rparr>\<lparr>wt_bytes := b'\<rparr>) \<and> length b' = length (wt_bytes (dst\<lparr>wt_bytes := b\<rparr>)) \<and>
        (\<forall>i j. j < 2 * q \<longrightarrow> cell ?z (2 * q) b' i j =
          (if x * h \<le> i \<and> i < x * h + h \<and> y * q \<le> j \<and> j < y * q + q
           then cell ?z V (wt_bytes src) (x * h + (i - x * h)) (y * w + q * ?r + (j - y * q))
           else cell ?z (2 * q) (wt_bytes (dst\<lparr>wt_bytes := b\<rparr>)) i j))"
      using c V(1) W b cuda by (simp only:, intro copy_sub_matrix_cells) (auto simp: copying_def wt_stride_def w(3))
    then show "\<exists>b'. ?g x y (dst\<lparr>wt_bytes := b\<rparr>) = Inr (dst\<lparr>wt_bytes := b'\<rparr>) \<and> length b' = length (wt_bytes dst) \<and>
        (\<forall>i j. j < 2 * q \<longrightarrow> cell ?z (2 * q) b' i j =
          (if in_batch h x i \<and> y * q \<le> j \<and> j < y * q + q then ?S i j else cell ?z (2 * q) b i j))"
      using b y cols [of y] by (auto simp: in_batch_def)
  qed
  have split: "\<exists>y\<in>set [0..<2]. y * q \<le> j \<and> j < y * q + q" if "j < 2 * q" for j
    using that by (intro bexI [of _ "if j < q then 0 else 1"]) auto
  have "\<exists>b. forE (\<lambda>x. forE (?g x) [0..<2]) [0..<B] (dst\<lparr>wt_bytes := wt_bytes dst\<rparr>) = Inr (dst\<lparr>wt_bytes := b\<rparr>) \<and>
      length b = length (wt_bytes dst) \<and>
      (\<forall>i j. j < 2 * q \<longrightarrow> cell ?z (2 * q) b i j =
        (if \<exists>x\<in>set [0..<B]. in_batch h x i then ?S i j else cell ?z (2 * q) (wt_bytes dst) i j))"
  proof (rule forE_fill)
    fix x and b :: "byte list"
    assume "x \<in> set [0..<B]" "length b = length (wt_bytes dst)"
    then have "x < B" "length b = length (wt_bytes dst)" by simp_all
    from inner [OF this] split
    show "\<exists>b'. forE (?g x) [0..<2] (dst\<lparr>wt_bytes := b\<rparr>) = Inr (dst\<lparr>wt_bytes := b'\<rparr>) \<and> length b' = length (wt_bytes dst) \<and>
        (\<forall>i j. j < 2 * q \<longrightarrow> cell ?z (2 * q) b' i j = (if in_batch h x i then ?S i j else cell ?z (2 * q) b i j))"
      by (meson in_batch_def)
  qed simp
  then obtain b where "batch_kv_copy e ri src B h V dst = Inr (dst\<lparr>wt_bytes := b\<rparr>)" "length b = length (wt_bytes dst)"
      "\<And>i j. j < 2 * q \<Longrightarrow> cell ?z (2 * q) b i j =
        (if \<exists>x\<in>set [0..<B]. in_batch h x i then ?S i j else cell ?z (2 * q) (wt_bytes dst) i j)"
    by (auto simp: batch_kv_copy_def Let_def)
  with in_batch_cover [of _ B h] show ?thesis by (intro exI [of _ b]) auto
qed

end
