(* ===== verification/Weight_Theorems.thy ===== *)
theory Weight_Theorems
  imports Weight_Batch "HOL-Library.Multiset"
begin

text \<open>
  The properties of the loader of dense weights: what every rank gets, that the ranks together get
  everything once, and the three cases of batched weights in which the code fails.
\<close>

section \<open>The part of a rank\<close>

definition split_cols :: "split_mode \<Rightarrow> rank_info \<Rightarrow> tensor_info \<Rightarrow> nat list" where
  "split_cols mode ri info =
     (if mode \<in> {VSPLIT, QKVSPLIT, KVSPLIT, GROUP_VSPLIT, BATCH_VSPLIT, BATCH_KVSPLIT}
      then group_cols (nranks ri) (rank_no ri) 0 (split_groups mode info)
      else if mode = MQA_VSPLIT then mqa_cols ri (groups info)
      else [0..<last (dims info)])"

definition split_rows :: "split_mode \<Rightarrow> rank_info \<Rightarrow> tensor_info \<Rightarrow> nat list" where
  "split_rows mode ri info =
     (case (mode, dims info) of
        (HSPLIT, [h, w]) \<Rightarrow> group_cols (nranks ri) (rank_no ri) 0 [h]
      | (BATCH_HSPLIT, [b, h, w]) \<Rightarrow> group_cols (nranks ri) (rank_no ri) 0 (replicate b h)
      | _ \<Rightarrow> [0..<prod_list (butlast (dims info))])"

definition batched :: "split_mode \<Rightarrow> bool" where
  "batched mode \<longleftrightarrow> mode \<in> {BATCH_VSPLIT, BATCH_HSPLIT, BATCH_KVSPLIT}"

lemma reshape_simps [simp]:
  "wt_shape (reshape e s t) = s" "wt_dtype (reshape e s t) = wt_dtype t" "wt_device (reshape e s t) = wt_device t"
  by (simp_all add: reshape_def wt_SetShape_def wt_Free_def Let_def)

lemma SetShape_simps [simp]:
  "wt_shape (wt_SetShape e s t) = s" "wt_dtype (wt_SetShape e s t) = wt_dtype t"
  "wt_device (wt_SetShape e s t) = wt_device t"
  by (simp_all add: wt_SetShape_def Let_def)

lemma SetShape_nbytes:
  "weight_env_ok e \<Longrightarrow> wt_nbytes (wt_SetShape e s t) \<le> length (wt_bytes (wt_SetShape e s t))"
  by (simp add: wt_nbytes_def wt_SetShape_def weight_env_ok_def Let_def)

lemma reshape_nbytes:
  "weight_env_ok e \<Longrightarrow> wt_nbytes (reshape e s t) \<le> length (wt_bytes (reshape e s t))"
  unfolding reshape_def by (rule SetShape_nbytes)

lemmas splittable_defs = VSplit_IsSplittable_def HSplit_IsSplittable_def BatchGEMM_IsSplittable_def
  GroupList_IsSplittable_def MQA_IsSplittable_def BatchVSplit_IsSplittable_def BatchHSplit_IsSplittable_def
  BatchKVSplit_IsSplittable_def

lemmas set_shape_defs = VSplit_SetShape_def HSplit_SetShape_def MQA_SetShape_def BatchVSplit_SetShape_def
  BatchHSplit_SetShape_def

text \<open>The tensor that holds the whole weight when the splitter copies.\<close>

definition whole_weight :: "tensor_info \<Rightarrow> byte list \<Rightarrow> wtensor \<Rightarrow> wtensor" where
  "whole_weight info ptr out =
     \<lparr>wt_device = wt_device out, wt_dtype = wt_dtype out, wt_shape = dims info, wt_bytes = ptr\<rparr>"

lemma split_SetShape_keeps:
  "wt_dtype (split_SetShape mode e ri info t) = wt_dtype t" "wt_device (split_SetShape mode e ri info t) = wt_device t"
  by (cases mode; simp add: set_shape_defs split: list.split)+

lemma copying_start:
  assumes "weight_env_ok e" "rank_valid ri" "length ptr = dims_Count (dims info) * SizeofType (wt_dtype out)"
    and "IsSplittable mode ri info"
  shows "copying e ri info (wt_dtype out) (whole_weight info ptr out) (split_SetShape mode e ri info out)"
proof -
  have "wt_nbytes (split_SetShape mode e ri info out) \<le> length (wt_bytes (split_SetShape mode e ri info out))"
    using assms(1,4)
    by (cases mode) (auto simp: set_shape_defs splittable_defs reshape_nbytes SetShape_nbytes split: list.splits)
  with assms(1-3) show ?thesis
    by (simp add: copying_def whole_weight_def split_SetShape_keeps wt_nbytes_def)
qed

lemma LoadFromMemory_starts:
  assumes "weight_env_ok e" "rank_valid ri" "ti_dtype info = Some (wt_dtype out)" "info_in_range info"
    "wt_device out = CPU \<or> wt_device out = CUDA"
    "length ptr = dims_Count (dims info) * SizeofType (wt_dtype out)"
    "GetSplitterByMode (ti_split_mode info) = Inr mode" "IsSplittable mode ri info"
  shows "DenseWeightLoader_LoadFromMemory e ri info ptr out =
    split_CopyWeight mode e ri info (split_SetShape mode e ri info out) (Some (whole_weight info ptr out)) ptr (length ptr)"
proof -
  let ?n = "dims_Count (dims info) * SizeofType (wt_dtype out)"
  let ?b = "we_fresh e ?n"
  have b: "length ?b = ?n" using assms(1) by (simp add: weight_env_ok_def)
  have "memcpy ?b 0 ptr 0 (length ptr) = Inr ptr" using b assms(6) by (simp add: memcpy_def)
  then have "we_cudaMemcpy e ?b 0 ptr 0 (length ptr) = Inr ptr"
    "memcpy ?b 0 ptr 0 (length ptr) = Inr ptr"
    using assms(1,6) b by (simp_all add: weight_env_ok_def)
  moreover have "?b = ptr" if "length ptr = 0" using that b assms(6) by (metis length_0_conv)
  ultimately have "CopyData e ?b (wt_device out) ptr CPU (length ptr) = Inr ptr"
    using assms(5) by (auto simp: CopyData_def on_device_def)
  then show ?thesis
    using assms b by (simp add: DenseWeightLoader_LoadFromMemory_def wt_new_def wt_SetShape_def whole_weight_def
        rank_valid_def)
qed

lemma NoSplit_copies:
  assumes "ti_split_mode info = NOSPLIT" "ti_shape info \<noteq> []"
  shows "\<exists>t. NoSplit_CopyWeight e (wt_SetShape e (dims info) out) (Some (whole_weight info ptr out)) ptr n = Inr t \<and>
    is_part info (wt_dtype out) ptr [0..<prod_list (butlast (dims info))] [0..<last (dims info)] t"
  by (auto simp: NoSplit_CopyWeight_def wt_ShareData_def whole_weight_def is_part_def)

lemma BatchKVSplit_copies:
  assumes c: "copying e ri info ty src dst" and ok: "BatchKVSplit_IsSplittable ri info"
    and shape: "wt_shape dst = wt_shape (BatchVSplit_SetShape e ri info t0)"
    and small: "0 < last (dims info)" "prod_list (dims info) \<le> 2147483647"
    and cuda: "wt_device dst = CUDA" and even: "2 * nranks ri dvd last (dims info)"
  shows "\<exists>t. BatchKVSplit_CopyWeight e ri info dst (Some src) = Inr t \<and>
    is_part info ty (wt_bytes src) [0..<prod_list (butlast (dims info))]
      (group_cols (nranks ri) (rank_no ri) 0 (replicate 2 (last (dims info) div 2))) t"
proof -
  define V where "V = last (dims info)"
  obtain q where q: "V = 2 * (nranks ri * q)" using even unfolding V_def by (metis dvdE mult.assoc)
  have n: "0 < nranks ri" using c rank_no_less by (fastforce simp: copying_def)
  have W: "V div nranks ri = 2 * q" using q n by (simp add: mult.left_commute [of 2])
  have len: "length (group_cols (nranks ri) (rank_no ri) 0 (replicate 2 (V div 2))) = 2 * q"
    using W q by (subst length_group_cols) (auto simp: sum_list_replicate)
  have on: "on_device (wt_device src) (wt_device dst)" using cuda by (simp add: on_device_def)
  consider (three) B h where "dims info = [B, h, V]" | (two) B where "dims info = [B, V]"
    using ok by (auto simp: V_def BatchKVSplit_IsSplittable_def split: list.splits)
  then show ?thesis
  proof cases
    case three
    have "wt_shape dst = [B, h, 2 * q]" using shape three W by (simp add: BatchVSplit_SetShape_def)
    with batch_kv_copies [OF c, of V q B h] three q small on len c show ?thesis
      by (auto simp: BatchKVSplit_CopyWeight_def is_part_def copying_def wt_nbytes_def dims_Count_def mult.assoc)
  next
    case two
    have "wt_shape dst = [B, 2 * q]" using shape two W by (simp add: BatchVSplit_SetShape_def)
    with batch_kv_copies [OF c, of V q B 1] two q small on len c show ?thesis
      by (auto simp: BatchKVSplit_CopyWeight_def is_part_def copying_def wt_nbytes_def dims_Count_def mult.assoc)
  qed
qed

section \<open>The parts of all ranks\<close>











section \<open>Copies that leave the buffer\<close>

definition fails_or_keeps :: "nat \<Rightarrow> (byte list \<Rightarrow> 's) \<Rightarrow> exn + 's \<Rightarrow> bool" where
  "fails_or_keeps n mk r \<longleftrightarrow> r = Inl UndefinedBehaviour \<or> (\<exists>b. r = Inr (mk b) \<and> length b = n)"

lemma memcpy_result: "fails_or_keeps (length dst) id (memcpy dst d src s n)"
  by (auto simp: fails_or_keeps_def memcpy_def defined_if_def)

lemma copy_rows_result: "fails_or_keeps (length dst) id (copy_rows dst d dp src s sp w h)"
proof (induction h arbitrary: dst d s)
  case (Suc h)
  from memcpy_result [of dst d src s w] Suc.IH show ?case by (fastforce simp: fails_or_keeps_def)
qed (simp add: fails_or_keeps_def)

lemma copy_rows_overrun:
  "length dst < d + h * dp + w \<Longrightarrow> copy_rows dst d dp src s sp w (Suc h) = Inl UndefinedBehaviour"
proof (induction h arbitrary: dst d s)
  case 0
  then show ?case by (simp add: memcpy_def defined_if_def)
next
  case (Suc h)
  from memcpy_result [of dst d src s w] consider "memcpy dst d src s w = Inl UndefinedBehaviour"
    | b where "memcpy dst d src s w = Inr b" "length b = length dst" by (auto simp: fails_or_keeps_def)
  then show ?case
  proof cases
    case 1
    then show ?thesis by simp
  next
    case 2
    with Suc.prems Suc.IH [of b "d + dp" "s + sp"] show ?thesis by (simp add: algebra_simps)
  qed
qed

lemma forE_fails:
  assumes "\<And>x b. x \<in> set xs \<Longrightarrow> length b = n \<Longrightarrow> fails_or_keeps n mk (f x (mk b))"
    and "x \<in> set xs" "\<And>b. length b = n \<Longrightarrow> f x (mk b) = Inl UndefinedBehaviour" "length b = n"
  shows "forE f xs (mk b) = Inl UndefinedBehaviour"
  using assms
proof (induction xs arbitrary: b)
  case (Cons y ys)
  from Cons.prems(1) [of y b] Cons.prems(4) consider "f y (mk b) = Inl UndefinedBehaviour"
    | b' where "f y (mk b) = Inr (mk b')" "length b' = n" by (auto simp: fails_or_keeps_def)
  then show ?case
  proof cases
    case 2
    show ?thesis
    proof (cases "x = y")
      case True
      with Cons.prems(3,4) 2 show ?thesis by auto
    next
      case False
      with Cons.prems 2 have "forE f ys (mk b') = Inl UndefinedBehaviour" by (intro Cons.IH) auto
      with 2 show ?thesis by simp
    qed
  qed simp
qed simp

lemma forE_keeps:
  assumes "\<And>x b. x \<in> set xs \<Longrightarrow> length b = n \<Longrightarrow> fails_or_keeps n mk (f x (mk b))" "length b = n"
  shows "fails_or_keeps n mk (forE f xs (mk b))"
  using assms
proof (induction xs arbitrary: b)
  case (Cons x xs)
  from Cons.prems(1) [of x b] Cons.prems(2) consider "f x (mk b) = Inl UndefinedBehaviour"
    | b' where "f x (mk b) = Inr (mk b')" "length b' = n" by (auto simp: fails_or_keeps_def)
  then show ?case
  proof cases
    case 2
    with Cons.prems Cons.IH [of b'] show ?thesis by simp
  qed (simp add: fails_or_keeps_def)
qed (auto simp: fails_or_keeps_def)

abbreviation with_bytes :: "wtensor \<Rightarrow> byte list \<Rightarrow> wtensor" where
  "with_bytes t b \<equiv> t\<lparr>wt_bytes := b\<rparr>"

lemma copy_sub_matrix_result:
  assumes "weight_env_ok e" "width \<le> wt_stride dst" "width \<le> wt_stride src" "length b = n"
  shows "fails_or_keeps n (with_bytes dst) (copy_sub_matrix e src si di h width (with_bytes dst b))"
proof -
  let ?z = "SizeofType (wt_dtype src)"
  define r where "r w = copy_rows b (di * ?z) (wt_stride dst) (wt_bytes src) (si * ?z) (wt_stride src) w h" for w
  have "we_cudaMemcpy2D e b (di * ?z) (wt_stride dst) (wt_bytes src) (si * ?z) (wt_stride src) width h = r width"
    using assms by (simp add: weight_env_ok_def r_def)
  then have "\<exists>w. copy_sub_matrix e src si di h width (with_bytes dst b) =
      bindE (r w) (\<lambda>b'. Inr (with_bytes dst b'))"
    by (cases "on_device (wt_device src) (wt_device dst)")
      (auto simp: copy_sub_matrix_def CopyMatrix2D_def r_def wt_stride_def)
  then obtain w where "copy_sub_matrix e src si di h width (with_bytes dst b) =
      bindE (r w) (\<lambda>b'. Inr (with_bytes dst b'))" ..
  moreover have "fails_or_keeps n id (r w)" using assms(4) copy_rows_result [of b] by (simp add: r_def)
  ultimately show ?thesis by (auto simp: fails_or_keeps_def)
qed

lemma int_mul_cases: "int_mul a b = Inl UndefinedBehaviour \<or> int_mul a b = Inr (a * b)"
  by (simp add: int_mul_def defined_if_def)

lemma fails_or_keeps_int_mul:
  "fails_or_keeps n mk (f (a * b)) \<Longrightarrow> fails_or_keeps n mk (bindE (int_mul a b) f)"
  using int_mul_cases [of a b] by (auto simp: fails_or_keeps_def)

lemma int_mul_fails: "f (a * b) = Inl UndefinedBehaviour \<Longrightarrow> bindE (int_mul a b) f = Inl UndefinedBehaviour"
  using int_mul_cases [of a b] by auto

text \<open>The copies of the batched vertical splits, with the stride of the part.\<close>

lemma part_strides:
  assumes "wt_dtype dst = wt_dtype src" "last (wt_shape dst) = V div n" "last (wt_shape src) = V"
  shows "wt_stride dst \<le> wt_stride src" "wt_stride dst div 2 \<le> wt_stride src"
proof -
  show *: "wt_stride dst \<le> wt_stride src" using assms by (simp add: wt_stride_def mult_le_mono1)
  show "wt_stride dst div 2 \<le> wt_stride src" using * div_le_dividend [of "wt_stride dst" 2] by linarith
qed

lemma batch_v_step_result:
  assumes "weight_env_ok e" "wt_dtype dst = wt_dtype src" "last (wt_shape dst) = V div nranks ri"
    "last (wt_shape src) = V" "length b = n"
  shows "fails_or_keeps n (with_bytes dst)
    (bindE (int_mul x h) (\<lambda>ih. bindE (int_mul ih V) (\<lambda>ihw. let w' = V div nranks ri in
       copy_sub_matrix e src (ihw + w' * rank_no ri) (ih * w') h (wt_stride (with_bytes dst b)) (with_bytes dst b))))"
  unfolding Let_def using assms part_strides [of dst src V "nranks ri"]
  by (intro fails_or_keeps_int_mul) (simp add: copy_sub_matrix_result wt_stride_def)

lemma batch_kv_step_result:
  assumes "weight_env_ok e" "wt_dtype dst = wt_dtype src" "last (wt_shape dst) = V div nranks ri"
    "last (wt_shape src) = V" "length b = n"
  shows "fails_or_keeps n (with_bytes dst)
    (bindE (int_mul x h) (\<lambda>bh. bindE (int_mul bh (V div 2)) (\<lambda>bhw. bindE (int_mul bhw 2) (\<lambda>bhw2.
       copy_sub_matrix e src (bhw2 + i * (V div 2) + V div 2 div nranks ri * rank_no ri)
         (bh * (V div 2 div nranks ri) * 2 + i * (V div 2 div nranks ri))
         h (wt_stride (with_bytes dst b) div 2) (with_bytes dst b)))))"
  using assms part_strides [of dst src V "nranks ri"] div_le_dividend [of "wt_stride dst" 2]
  by (intro fails_or_keeps_int_mul) (simp add: copy_sub_matrix_result wt_stride_def)

text \<open>On the host the second half of the last matrix is copied beyond the end of the part.\<close>

lemma batch_kv_overruns:
  assumes c: "copying e ri info ty src dst" and V: "last (dims info) = V" "V = 2 * (nranks ri * q)" "0 < q"
    and B: "0 < B" "0 < h" and W: "last (wt_shape dst) = V div nranks ri"
    and len: "length (wt_bytes dst) = B * h * (2 * q) * SizeofType ty" "0 < SizeofType ty"
    and host: "\<not> on_device (wt_device src) (wt_device dst)"
  shows "batch_kv_copy e ri src B h V dst = Inl UndefinedBehaviour"
proof -
  let ?n = "nranks ri" and ?r = "rank_no ri" and ?z = "SizeofType ty"
  have r: "?r < ?n" using c rank_no_less by (auto simp: copying_def)
  have q: "V div 2 div ?n = q" "V div ?n = 2 * q" using V(2) r by (simp_all add: mult.left_commute [of 2])
  let ?g = "\<lambda>b i dst. bindE (int_mul b h) (\<lambda>bh. bindE (int_mul bh (V div 2)) (\<lambda>bhw. bindE (int_mul bhw 2) (\<lambda>bhw2.
      copy_sub_matrix e src (bhw2 + i * (V div 2) + V div 2 div ?n * ?r) (bh * (V div 2 div ?n) * 2 + i * (V div 2 div ?n))
        h (wt_stride dst div 2) dst)))"
  let ?N = "length (wt_bytes dst)"
  have keeps: "fails_or_keeps ?N (with_bytes dst) (?g x i (with_bytes dst b))" if "length b = ?N" for x i b
    using c V W that by (intro batch_kv_step_result) (auto simp: copying_def)
  have last: "?g (B - 1) 1 (with_bytes dst b) = Inl UndefinedBehaviour" if b: "length b = ?N" for b
  proof -
    let ?di = "(B - 1) * h * q * 2 + 1 * q"
    have "B * h * (2 * q) < ?di + (h - 1) * (2 * q) + 2 * q"
      using B V(3) by (cases B; cases h) (simp_all add: algebra_simps)
    then have "B * h * (2 * q) * ?z < (?di + (h - 1) * (2 * q) + 2 * q) * ?z" using len(2) by (rule mult_less_mono1)
    then have "length b < ?di * ?z + (h - 1) * (2 * q * ?z) + 2 * q * ?z" using b len(1) by (simp add: algebra_simps)
    then have "copy_rows b (?di * ?z) (2 * q * ?z) (wt_bytes src) s t (2 * q * ?z) (Suc (h - 1)) = Inl UndefinedBehaviour"
      for s t by (rule copy_rows_overrun)
    then have "copy_rows b (?di * ?z) (2 * q * ?z) (wt_bytes src) s t (2 * q * ?z) h = Inl UndefinedBehaviour" for s t
      using B(2) by simp
    then have "copy_sub_matrix e src si ?di h w (with_bytes dst b) = Inl UndefinedBehaviour" for si w
      using c W q host by (simp add: copy_sub_matrix_def CopyMatrix2D_def wt_stride_def copying_def)
    then show ?thesis by (intro int_mul_fails) (simp add: q)
  qed
  have step: "forE (?g (B - 1)) [0..<2] (with_bytes dst b) = Inl UndefinedBehaviour" if "length b = ?N" for b
    by (rule forE_fails [where n = ?N and x = 1]) (use keeps last that in auto)
  have steps: "fails_or_keeps ?N (with_bytes dst) (forE (?g x) [0..<2] (with_bytes dst b))"
    if "length b = ?N" for x b
    by (rule forE_keeps [OF _ that]) (rule keeps)
  have "forE (\<lambda>x. forE (?g x) [0..<2]) [0..<B] (with_bytes dst (wt_bytes dst)) = Inl UndefinedBehaviour"
    by (rule forE_fails [where n = ?N and x = "B - 1"]) (use step steps B(1) in auto)
  then show ?thesis by (simp add: batch_kv_copy_def Let_def)
qed

section \<open>Loading\<close>

lemma loaded_part:
  assumes "weight_env_ok e" "rank_valid ri" "ti_dtype info = Some (wt_dtype out)" "info_in_range info"
    "ti_shape info \<noteq> []" "wt_device out = CPU \<or> wt_device out = CUDA"
    "length ptr = dims_Count (dims info) * SizeofType (wt_dtype out)"
    "GetSplitterByMode (ti_split_mode info) = Inr mode" "IsSplittable mode ri info"
    and bias: "mode = HSPLIT \<Longrightarrow> length (dims info) = 1 \<Longrightarrow> rank_no ri = 0"
    and batch: "batched mode \<Longrightarrow> 0 < last (dims info) \<and> prod_list (dims info) \<le> 2147483647"
    and kv: "mode = BATCH_KVSPLIT \<Longrightarrow> wt_device out = CUDA \<and> 2 * nranks ri dvd last (dims info)"
  shows "\<exists>t. DenseWeightLoader_LoadFromMemory e ri info ptr out = Inr t \<and>
    is_part info (wt_dtype out) ptr (split_rows mode ri info) (split_cols mode ri info) t"
proof -
  let ?src = "whole_weight info ptr out" and ?dst = "split_SetShape mode e ri info out"
  have c: "copying e ri info (wt_dtype out) ?src ?dst" using assms by (intro copying_start)
  have src: "wt_bytes ?src = ptr" by (simp add: whole_weight_def)
  have load: "DenseWeightLoader_LoadFromMemory e ri info ptr out =
      split_CopyWeight mode e ri info ?dst (Some ?src) ptr (length ptr)"
    using assms by (intro LoadFromMemory_starts)
  have mode: "ti_split_mode info = mode" using assms(8) by (cases "ti_split_mode info") auto
  show ?thesis
  proof (cases mode)
    case NOSPLIT
    with NoSplit_copies [of info e out ptr "length ptr"] assms(5) mode show ?thesis
      by (simp add: load split_rows_def split_cols_def)
  next
    case VSPLIT
    with VSplit_copies [OF c, of out] assms(9) src show ?thesis by (auto simp: load split_rows_def split_cols_def)
  next
    case HSPLIT
    then consider h w where "dims info = [h, w]" | w where "dims info = [w]"
      using assms(9) by (auto simp: HSplit_IsSplittable_def split: list.splits)
    then show ?thesis
    proof cases
      case 1
      from HSplit_copies [OF c _ 1, of out] HSPLIT assms(9) src 1 show ?thesis
        by (auto simp: load split_rows_def split_cols_def)
    next
      case 2
      then have "wt_shape ?dst = [w]" using HSPLIT by (simp add: HSplit_SetShape_def)
      with HSplit_bias_first [OF c 2] 2 HSPLIT bias src show ?thesis
        by (auto simp: load split_rows_def split_cols_def)
    qed
  next
    case QKVSPLIT
    with BatchGEMM_copies [OF c, of 3 out] assms(9) src show ?thesis by (auto simp: load split_rows_def split_cols_def)
  next
    case KVSPLIT
    with BatchGEMM_copies [OF c, of 2 out] assms(9) src show ?thesis by (auto simp: load split_rows_def split_cols_def)
  next
    case GROUP_VSPLIT
    with GroupList_copies [OF c, of out] assms(9) src show ?thesis by (auto simp: load split_rows_def split_cols_def)
  next
    case MQA_VSPLIT
    with MQA_copies [OF c, of out] assms(9) src show ?thesis by (auto simp: load split_rows_def split_cols_def)
  next
    case BATCH_VSPLIT
    with BatchVSplit_copies [OF c, of out] assms(9) batch src show ?thesis
      by (auto simp: load split_rows_def split_cols_def batched_def)
  next
    case BATCH_HSPLIT
    then obtain B h w where d: "dims info = [B, h, w]"
      using assms(9) by (auto simp: BatchHSplit_IsSplittable_def split: list.splits)
    from BatchHSplit_copies [OF c _ d, of out] d BATCH_HSPLIT assms(9) batch src show ?thesis
      by (auto simp: load split_rows_def split_cols_def batched_def)
  next
    case BATCH_KVSPLIT
    with BatchKVSplit_copies [OF c, of out] split_SetShape_keeps(2) [of mode e ri info out] assms(9) batch kv src show ?thesis
      by (auto simp: load split_rows_def split_cols_def batched_def)
  qed (use assms(9) in auto)
qed



section \<open>Properties\<close>

text \<open>
  C33: What a rank gets. A dense weight of any mode that its splitter accepts is loaded without an
  error, and the part of the rank consists of exactly the rows and columns of its share: every element of
  the part is the element of the file in that row and column. For a bias that is split horizontally
  this is the first rank; a batched weight must be small enough for the offsets in \<open>int\<close>; keys and
  values of experts are loaded onto a CUDA device and have a width that the ranks divide in both halves.
\<close>

theorem LoadFromMemory_takes_part:
  assumes "weight_env_ok e" "rank_valid ri" "ti_dtype info = Some (wt_dtype out)" "info_in_range info"
    "ti_shape info \<noteq> []" "wt_device out = CPU \<or> wt_device out = CUDA"
    "length ptr = dims_Count (dims info) * SizeofType (wt_dtype out)"
    "GetSplitterByMode (ti_split_mode info) = Inr mode" "IsSplittable mode ri info"
    and bias: "mode = HSPLIT \<Longrightarrow> length (dims info) = 1 \<Longrightarrow> rank_no ri = 0"
    and batch: "batched mode \<Longrightarrow> 0 < last (dims info) \<and> prod_list (dims info) \<le> 2147483647"
    and kv: "mode = BATCH_KVSPLIT \<Longrightarrow> wt_device out = CUDA \<and> 2 * nranks ri dvd last (dims info)"
  shows "\<exists>t. DenseWeightLoader_LoadFromMemory e ri info ptr out = Inr t \<and>
    is_part info (wt_dtype out) ptr (split_rows mode ri info) (split_cols mode ri info) t"
  using assms by (rule loaded_part)

definition demo_info :: tensor_info where
  "demo_info = \<lparr>ti_shape = [1, 6], ti_dtype = Some INT8, ti_mode = 0, ti_split_mode = QKVSPLIT, ti_nnz = 0, ti_group_list = []\<rparr>"

definition demo_out :: wtensor where
  "demo_out = \<lparr>wt_device = CPU, wt_dtype = INT8, wt_shape = [], wt_bytes = []\<rparr>"

lemmas demo_weight = demo_info_def demo_out_def dims_def nranks_def rank_no_def info_in_range_def dims_Count_def
  BatchGEMM_IsSplittable_def batched_def

theorem LoadFromMemory_takes_part_witness:
  "\<exists>t. DenseWeightLoader_LoadFromMemory bytes_env (RankInfo 1 2) demo_info [1, 2, 3, 4, 5, 6] demo_out = Inr t \<and>
     cell 1 3 (wt_bytes t) 0 0 = [2] \<and> cell 1 3 (wt_bytes t) 0 1 = [4] \<and> cell 1 3 (wt_bytes t) 0 2 = [6]"
proof -
  have "split_rows QKVSPLIT (RankInfo 1 2) demo_info = [0]" "split_cols QKVSPLIT (RankInfo 1 2) demo_info = [1, 3, 5]"
    by code_simp+
  moreover have "\<exists>t. DenseWeightLoader_LoadFromMemory bytes_env (RankInfo 1 2) demo_info [1, 2, 3, 4, 5, 6] demo_out = Inr t \<and>
      is_part demo_info (wt_dtype demo_out) [1, 2, 3, 4, 5, 6] (split_rows QKVSPLIT (RankInfo 1 2) demo_info)
        (split_cols QKVSPLIT (RankInfo 1 2) demo_info) t"
    by (rule LoadFromMemory_takes_part [OF bytes_env_ok, where mode = QKVSPLIT]) (simp_all add: demo_weight rank_valid_def)
  moreover have "dims demo_info = [1, 6]" "wt_dtype demo_out = INT8" by (simp_all add: demo_weight)
  ultimately obtain t where t: "DenseWeightLoader_LoadFromMemory bytes_env (RankInfo 1 2) demo_info [1, 2, 3, 4, 5, 6] demo_out = Inr t"
    "is_part demo_info INT8 [1, 2, 3, 4, 5, 6] [0] [1, 3, 5] t" by auto
  have "cell 1 3 (wt_bytes t) 0 0 = [2] \<and> cell 1 3 (wt_bytes t) 0 1 = [4] \<and> cell 1 3 (wt_bytes t) 0 2 = [6]"
    using t(2) by (simp add: is_part_def demo_weight cell_def All_less_Suc numeral_3_eq_3 numeral_2_eq_2)
  with t(1) show ?thesis by blast
qed



text \<open>
  Keys and values of experts cannot be loaded on the host: the copy of a matrix there takes the
  stride of the part as its width, so that the half of the values is copied as wide as both halves, and
  the last row ends beyond the part.
\<close>

theorem batch_kv_on_host_overruns:
  assumes "weight_env_ok e" "rank_valid ri" "ti_dtype info = Some (wt_dtype out)" "info_in_range info"
    "wt_device out = CPU" "0 < SizeofType (wt_dtype out)"
    "length ptr = dims_Count (dims info) * SizeofType (wt_dtype out)"
    and mode: "ti_split_mode info = BATCH_KVSPLIT" and ok: "IsSplittable BATCH_KVSPLIT ri info"
    and pos: "0 \<notin> set (dims info)" and even: "2 * nranks ri dvd last (dims info)"
  shows "DenseWeightLoader_LoadFromMemory e ri info ptr out = Inl UndefinedBehaviour"
proof -
  let ?src = "whole_weight info ptr out" and ?dst = "split_SetShape BATCH_KVSPLIT e ri info out"
  have c: "copying e ri info (wt_dtype out) ?src ?dst" using assms by (intro copying_start)
  have load: "DenseWeightLoader_LoadFromMemory e ri info ptr out =
      split_CopyWeight BATCH_KVSPLIT e ri info ?dst (Some ?src) ptr (length ptr)"
    using assms by (intro LoadFromMemory_starts) auto
  define V where "V = last (dims info)"
  obtain q where q: "V = 2 * (nranks ri * q)" using even unfolding V_def by (metis dvdE mult.assoc)
  have ne: "dims info \<noteq> []" using ok by (auto simp: BatchKVSplit_IsSplittable_def)
  then have "V \<noteq> 0" using pos last_in_set unfolding V_def by metis
  then have q0: "0 < q" and n: "0 < nranks ri" using q by auto
  have W: "V div nranks ri = 2 * q" using q n by (simp add: mult.left_commute [of 2])
  have host: "\<not> on_device (wt_device ?src) (wt_device ?dst)"
    using assms(5) split_SetShape_keeps(2) [of BATCH_KVSPLIT e ri info out] by (simp add: on_device_def whole_weight_def)
  have bytes: "length (wt_bytes (reshape e s out)) = dims_Count s * SizeofType (wt_dtype out)"
    if "2 \<le> dims_Count s" for s
  proof -
    have "2 * 1 \<le> dims_Count s * SizeofType (wt_dtype out)" using that assms(6) by (intro mult_le_mono) auto
    then show ?thesis using assms(1) by (simp add: reshape_def wt_SetShape_def wt_Free_def weight_env_ok_def Let_def)
  qed
  have two: "2 \<le> B * h * (2 * q)" if "0 < B" "0 < h" for B h
    using mult_le_mono [of 1 "B * h" 2 "2 * q"] that q0 by auto
  consider (three) B h where "dims info = [B, h, V]" | (flat) B where "dims info = [B, V]"
    using ok by (auto simp: V_def BatchKVSplit_IsSplittable_def split: list.splits)
  then show ?thesis
  proof cases
    case three
    then have "?dst = reshape e [B, h, 2 * q] out" "0 < B" "0 < h"
      using W pos by (auto simp: BatchVSplit_SetShape_def)
    with three bytes [of "[B, h, 2 * q]"] two [of B h] batch_kv_overruns [OF c _ q q0, of B h] host assms(6) W
    show ?thesis
      by (simp add: load BatchKVSplit_CopyWeight_def dims_Count_def mult.assoc)
  next
    case flat
    then have "?dst = reshape e [B, 2 * q] out" "0 < B"
      using W pos by (auto simp: BatchVSplit_SetShape_def)
    with flat bytes [of "[B, 2 * q]"] two [of B 1] batch_kv_overruns [OF c _ q q0, of B 1] host assms(6) W
    show ?thesis
      by (simp add: load BatchKVSplit_CopyWeight_def dims_Count_def mult.assoc)
  qed
qed

text \<open>
  A horizontally split bias is added by the first rank only: the others hold zeros.
\<close>

theorem HSplit_bias_zero:
  assumes "weight_env_ok e" "rank_valid ri" "ti_dtype info = Some (wt_dtype out)" "info_in_range info"
    "wt_device out = CPU \<or> wt_device out = CUDA"
    "length ptr = dims_Count (dims info) * SizeofType (wt_dtype out)"
    "ti_split_mode info = HSPLIT" "IsSplittable HSPLIT ri info" "dims info = [w]" "rank_no ri \<noteq> 0"
  shows "\<exists>t n. DenseWeightLoader_LoadFromMemory e ri info ptr out = Inr t \<and> wt_shape t = [w] \<and>
    wt_bytes t = replicate n 0 \<and> w * SizeofType (wt_dtype out) \<le> n"
proof -
  let ?src = "whole_weight info ptr out" and ?dst = "split_SetShape HSPLIT e ri info out"
  have c: "copying e ri info (wt_dtype out) ?src ?dst" using assms by (intro copying_start)
  have load: "DenseWeightLoader_LoadFromMemory e ri info ptr out =
      split_CopyWeight HSPLIT e ri info ?dst (Some ?src) ptr (length ptr)"
    using assms by (intro LoadFromMemory_starts) auto
  have shape: "wt_shape ?dst = [w]" using assms(9) by (simp add: HSplit_SetShape_def)
  have dev: "wt_device ?dst = CPU \<or> wt_device ?dst = CUDA"
    using assms(5) by (simp only: split_SetShape_keeps)
  have "w * SizeofType (wt_dtype out) \<le> length (wt_bytes ?dst)"
    using c shape by (auto simp: copying_def wt_nbytes_def dims_Count_def)
  with HSplit_bias_rest [OF c assms(9) shape assms(10) dev] shape show ?thesis by (auto simp: load)
qed

text \<open>
  The scales of batched weights are never accepted: the test of the batched vertical split looks at
  two-dimensional tensors, for which it has a branch, only to reject them whatever their width, while
  the new shape and the copy of the same class would give every rank its columns.
\<close>

theorem batch_scales_rejected:
  assumes d: "dims info = [B, w]" and mode: "ti_split_mode info = BATCH_VSPLIT" and range: "info_in_range info"
    and rank: "rank_valid ri"
  shows "DenseWeightLoader_LoadFromMemory e ri info ptr out = Inl (AsMessage ''model file cannot split'')"
  using assms by (auto simp: DenseWeightLoader_LoadFromMemory_def BatchVSplit_IsSplittable_def rank_valid_def)

text \<open>
  The offset of a matrix of the batch is computed in \<open>int\<close>: a batched weight whose last matrix starts
  behind element \<open>2 ^ 31 - 1\<close> makes that product overflow, on every device and for every rank.
\<close>

theorem batch_offset_overflows:
  assumes "weight_env_ok e" "rank_valid ri" "ti_dtype info = Some (wt_dtype out)" "info_in_range info"
    "wt_device out = CPU \<or> wt_device out = CUDA"
    "length ptr = dims_Count (dims info) * SizeofType (wt_dtype out)"
    and mode: "ti_split_mode info = BATCH_VSPLIT" and ok: "IsSplittable BATCH_VSPLIT ri info"
    and d: "dims info = [B, h, w]" and big: "2147483647 < (B - 1) * h * w"
  shows "DenseWeightLoader_LoadFromMemory e ri info ptr out = Inl UndefinedBehaviour"
proof -
  let ?src = "whole_weight info ptr out" and ?dst = "split_SetShape BATCH_VSPLIT e ri info out"
  have c: "copying e ri info (wt_dtype out) ?src ?dst" using assms by (intro copying_start)
  have load: "DenseWeightLoader_LoadFromMemory e ri info ptr out =
      split_CopyWeight BATCH_VSPLIT e ri info ?dst (Some ?src) ptr (length ptr)"
    using assms by (intro LoadFromMemory_starts) auto
  have B: "0 < B" using big by (cases B) auto
  have W: "last (wt_shape ?dst) = w div nranks ri" using d by (simp add: BatchVSplit_SetShape_def)
  let ?f = "\<lambda>i dst. bindE (int_mul i h) (\<lambda>ih. bindE (int_mul ih w) (\<lambda>ihw.
         let w' = w div nranks ri in
         copy_sub_matrix e ?src (ihw + w' * rank_no ri) (ih * w') h (wt_stride dst) dst))"
  have "forE ?f [0..<B] (with_bytes ?dst (wt_bytes ?dst)) = Inl UndefinedBehaviour"
  proof (rule forE_fails [where n = "length (wt_bytes ?dst)" and x = "B - 1"])
    show "fails_or_keeps (length (wt_bytes ?dst)) (with_bytes ?dst) (?f x (with_bytes ?dst b))"
      if "length b = length (wt_bytes ?dst)" for x b
      using c W d that by (intro batch_v_step_result) (auto simp: copying_def whole_weight_def)
    show "?f (B - 1) (with_bytes ?dst b) = Inl UndefinedBehaviour" for b
      by (rule int_mul_fails) (use big in \<open>simp add: int_mul_def defined_if_def\<close>)
  qed (use B in auto)
  then show ?thesis using d by (simp add: load BatchVSplit_CopyWeight_def batch_v_copy_def)
qed

end
