(* ===== verification/Spec2Isabelle.thy ===== *)
theory Spec2Isabelle
  imports Cache_Memory Coordinator Tensor_Data Model_Tokens Engine_Theorems
    Weight_Theorems
begin

text \<open>
  \<^bold>\<open>DashInfer, the scheduling, memory and cache core of the engine.\<close>

  DashInfer is a C++ inference engine for large language models. This library models the part of it
  that decides which requests run and what becomes of their tokens, and where keys and values of the
  attention live: the engine takes requests from its users as messages, its thread hands work to the models
  of all ranks and their tokens to the result queues of the requests; a model keeps a queue and a batch of
  requests, admits, prefills, decodes and stops them and runs its operators on the batch; device memory comes from a best-fit
  allocator, is cut into equal frames, frames are wrapped as spans, spans form the growing caches of a
  request, and a prefix cache keeps the spans of finished prefixes for later requests. All of it is
  under \<open>src/csrc\<close>; the workers of a tensor-parallel group meet at a barrier before they insert into
  their prefix caches.

  \<^bold>\<open>Theories and sources.\<close>

  \<^item> \<open>Prelude\<close>: status codes (\<open>interface/allspark_check.h\<close>) and the ways a call can end; association
    lists for \<open>std::unordered_map\<close>; numbers as text. A function that may throw returns what the caller
    observes together with the state left behind; loops that may not end have the outcome
    \<open>Diverges\<close>, reads the language leaves undefined the outcome \<open>UndefinedBehaviour\<close>.
  \<^item> \<open>Common_Types\<close>: \<open>common/common.h\<close> (element sizes, devices, ranks, layer numbers in weight names) and
    \<open>core/tensor/shape.cpp\<close>.
  \<^item> \<open>Frame_Manager\<close>: \<open>runtime/cache/frame_manager.cpp\<close>, both managers. Locales: \<open>device_allocator\<close>, what a
    pool relies on, and \<open>frame_pool\<close>, what a pool promises; the default manager fulfils it over every
    device allocator (a sublocale), the concurrent one by interpretation.
  \<^item> \<open>Span_Manager\<close>: \<open>runtime/cache/span_manager.cpp\<close>, spans as shared objects in a store.
  \<^item> \<open>Virtual_Cache\<close>: \<open>runtime/cache/virtual_cache.cpp\<close> and \<open>span_cache_config.cpp\<close>, one layer
    (\<open>CacheArray\<close>) and all layers of a request.
  \<^item> \<open>BFC_Allocator\<close> (operations of \<open>device/bfc_allocator.cpp\<close>), \<open>BFC_Sizes\<close>, \<open>BFC_Invariant\<close>,
    \<open>BFC_Steps\<close>, \<open>BFC_Alloc\<close>, \<open>BFC_Regions\<close>, \<open>BFC_Interface\<close>, \<open>BFC_Debug\<close> (the invariant of chunks, bins
    and regions and its preservation by every operation) and \<open>BFC_Theorems\<close> (the properties, and the
    interpretation of \<open>device_allocator\<close>). The memory below it, \<open>SubAllocator\<close>, is a parameter with the
    laws \<open>sub_laws\<close>.
  \<^item> \<open>Murmur_Hash\<close>: \<open>MurmurHash3_x86_32\<close>, the hash of a prefix.
  \<^item> \<open>Prefix_Node\<close>, \<open>Prefix_Cache\<close>: \<open>runtime/cache/prefix_cache_manager_member.hpp\<close>,
    \<open>prefix_cache_manager.cpp\<close> and \<open>prefix_cache_manager_private.cpp\<close>: nodes, the LRU evictor, the tables of
    both devices, the host workspace, the copies in both directions with their pending tasks,
    insertion, lookup, eviction, reset and construction. \<open>Prefix_Invariant\<close>, \<open>Prefix_Theorems\<close>,
    \<open>Prefix_Insert\<close> and \<open>Prefix_Fill\<close> hold the invariant and the properties.
  \<^item> \<open>Coordinator\<close>: \<open>PrefixCacheCoordinator\<close> of \<open>prefix_cache_manager.h\<close> as a step relation.
  \<^item> \<open>Block_Pool\<close>: blocks (\<open>common/block_impl.h\<close>), the pool of them in a device context
    (\<open>block_allocator.h\<close>) and the assignment of blocks to the tensors of a graph (\<open>memory_reuser.cpp\<close>).
  \<^item> \<open>Tensor_Data\<close>: \<open>core/tensor/data.cpp\<close> and the operations of \<open>tensor.cpp\<close> that change the memory
    of a tensor.
  \<^item> \<open>Rich_Embedding\<close>: \<open>common/extra_embedding.hpp\<close> and \<open>RichEmbeddingOp\<close>: placeholder runs of multimedia
    prompts, their hashes, and the copy of embeddings into the activations.
  \<^item> \<open>Model_State\<close>: requests (\<open>common/request.h\<close>), generation contexts and the runtime context
    (\<open>common/generate_context.h\<close>) and the state of \<open>AsModel\<close> (\<open>core/model/model.h\<close>). Requests and token
    tensors, which the code shares by pointers, are kept in stores.
  \<^item> \<open>Model_Ops\<close>: the operators that touch requests, tokens and caches (\<open>PreProcessIdOp\<close>, \<open>GenerateOp\<close>,
    \<open>UpdateIdOp\<close>, \<open>SpanAttnOp::Alloc\<close>, \<open>EmbeddingT5Op::Reshape\<close>) and the loops over a graph; the
    kernels and the sampler are the parameters \<open>en_kernel\<close> and \<open>en_sample\<close>.
  \<^item> \<open>Model_Requests\<close>: \<open>model_generation.cpp\<close>, \<open>model_context.cpp\<close>, \<open>model_request.cpp\<close>,
    \<open>model_request_context.cpp\<close>, \<open>model_decoder.cpp\<close>, \<open>model_memory.cpp\<close> and \<open>model_stats.cpp\<close>: the
    life of a request.
  \<^item> \<open>Model_Frame\<close>: the locales \<open>op_insensitive\<close> and \<open>context_insensitive\<close>, what every operator leaves
    alone whatever its outcome, interpreted on the relation between the states before and after.
    \<open>Model_Invariant\<close>, \<open>Model_Progress\<close>, \<open>Model_Theorems\<close> and \<open>Model_Tokens\<close> hold the invariant and the
    properties.
  \<^item> \<open>Engine_Queue\<close>: the result queue of a request (\<open>common/result_queue.cpp\<close>, \<open>engine_runtime.h\<close>). A call that
    waits is given what the other threads do between its looks at the queue.
  \<^item> \<open>Engine_State\<close>: the state of the engine for one model (\<open>ModelControlState\<close>, the promises, the variables
    of its thread) and the calls of the user (\<open>as_engine_request.cpp\<close>, \<open>as_engine_lora.cpp\<close>,
    \<open>as_engine_model_lifecycle.cpp\<close>) with the checks of a request. A call posts a message and waits for its
    promise; \<open>finish_call\<close> is its return.
  \<^item> \<open>Engine_Loop\<close>: \<open>common/as_engine.cpp\<close>: work on all ranks (\<open>RunTextGenerationContext\<close>,
    \<open>RunTextGenerationContinue\<close>, \<open>StopRequestByRequestID\<close> and the others), \<open>UpdateResult\<close>, the choice of victims,
    and \<open>ModelRunningThread\<close> as \<open>loop_round\<close>, one round of messages and work.
  \<^item> \<open>Engine_Invariant\<close>, \<open>Engine_Rounds\<close> (the step relation \<open>engine_reach\<close> of calls and rounds, the end of the
    loops), \<open>Engine_Rules\<close> and \<open>Engine_Theorems\<close> hold the invariant of the engine and the properties.
  \<^item> \<open>Weight_Data\<close>: the contents of dense tensors as bytes and the copies between them
    (\<open>core/tensor/tensor.cpp\<close>, \<open>tensor_utils.cpp\<close>); \<open>Weight_Splitter\<close>: the splitters of
    \<open>runtime/weight/weight_splitter.cpp\<close> and the loader of dense weights (\<open>weight_loader.cpp\<close>). The CUDA
    calls and the contents of fresh memory are the parameter \<open>weight_env\<close> with the laws \<open>weight_env_ok\<close>.
    \<open>Weight_Slices\<close>, \<open>Weight_Parts\<close>, \<open>Weight_Batch\<close> and \<open>Weight_Theorems\<close> show what each splitter copies.
  \<^item> \<open>Cache_Memory\<close>: the locale \<open>block_allocator\<close>, which extends \<open>device_allocator\<close> by disjoint blocks,
    its interpretation on the BFC allocator, and the pool of frames over it.

  \<^bold>\<open>What is shown.\<close> For the allocator: in every reachable state the live allocations are disjoint, large
  enough and inside the memory obtained, the statistics agree with them, the search is a best fit,
  release and garbage collection do exactly what they should. For pools, spans and layers: claims
  take all or nothing, a layer always holds the spans its length needs and gives all of them back,
  every branch of the extension of a layer. For the prefix cache without a host part (the default
  configuration): the invariant (the evictor is the ordered set of unreferenced nodes, the spans of
  the cached nodes are distinct occupied frames with the extra reference) is kept by lookup, release,
  insertion with room, eviction and reset; eviction takes the least recently used nodes and frees what
  it promises; lookup finds the longest prefix and \<open>RefFill\<close> attaches it to every layer of a request; what is
  inserted is found; the copies between devices are exact. For tensors:
  two that are live at the same step never share a block, the pool delivers best fits. For the
  scheduler: in every reachable state, failed calls included, a request is queued or running at most
  once and the batch is within its bound; a decoding step moves every request by one token, finishes those
  that leave and loses none; decoding ends; sampled tokens are appended to their own request; stopping
  removes exactly one context. For the engine, over all ranks: in every state that calls and rounds can reach
  in any order, failures included, the maps agree and every rank keeps the scheduler's invariant; the loops of
  a round end; the elements handed to a queue are the generated tokens, each once, and a waiting user loses none
  of them; a synchronisation waits for all its requests; the thread ends only after \<open>StopModel\<close> with nothing
  left; an accepted request is within the limits. For multimedia prompts: the runs found are the maximal ones, hashing and
  copying touch nothing else. For weights: every rank gets exactly the rows and columns of its share, and the
  ranks together get every element once. For the barrier: nobody passes before all have arrived, but its reuse can deadlock. This
  theory adds the composition: spans of cached prefixes never share device memory. Several theorems
  show defects of the code; they say so.

  \<^bold>\<open>Bounds and fuel.\<close> Chains of chunks are walked with the number of chunk objects as fuel, which is
  enough because a chain has no repetition (shown in the invariant); the two loops of the engine's thread
  are partial functions, shown to return in every reachable state; all other loops are total
  functions with a measure. Sizes are natural numbers with the wrap-around of \<open>size_t\<close> written out
  where it can occur; the hash works on machine words. Waiting for copy tasks runs the pending tasks
  in queue order and diverges when none is left.

  \<^bold>\<open>Not modelled.\<close> The arithmetic of kernels and operators, sampling, the construction of model graphs and warm-up,
  the files of weights and LoRAs and their swapping, building a model and \<open>ReleaseModel\<close>, statistics and their output, the enforcement of output formats
  and the semaphores that keep the messages of several processes in step (a parameter, \<open>ee_sem_retry\<close>), most conversions and copies of tensors, operators other than those named above,
  the multi-head latent attention operator among them;
  services, bindings and examples; the registry of allocators per device, log output, profiling and
  the debug interface of the prefix cache, which the build leaves out. Inside one call the components
  run by one thread, and calls of users fall between rounds of the engine's thread; the ranks share no data, so
  their order is fixed. The lock-free queue is a list whose \<open>enqueue\<close> may fail, given by a parameter; that of a
  result queue never fails. Floating point parameters are exact numbers or NaN; the log probabilities that the sampler stores are a parameter.
  \<open>float\<close> products of the host cache size are a parameter, rates are exact quotients. The insertion
  into a full table and the host part of the prefix cache are modelled, but beyond the copies and the
  order of the evictor no property is stated of them yet.
\<close>

section \<open>Cached prefixes in device memory\<close>

text \<open>
  C16: From the device allocator up to the prefix cache: when the frame pool was filled by \<open>Init\<close> from
  the BFC allocator, then in every later state of the prefix cache that satisfies its invariant over
  this pool the spans of the cached nodes, keys and values of all layers, occupy pairwise disjoint
  pieces of device memory, each inside a live allocation of the BFC allocator.
\<close>

theorem cached_spans_disjoint_memory:
  assumes sound: "bfc_sound sub_alloc sub_free blocks ok mem" and size: "0 < frame_size"
    and init: "cfm_Init enq_reliable (bfc_device_alloc sub_alloc sub_free) dealloc frame_size
      (cfm_new CUDA init_frames mem) = ret () fm"
    and inv: "gpu_inv s" and pool: "cfm_created (gfm s) = cfm_created fm"
    and ij: "i < length (table_spans s)" "j < length (table_spans s)" "i \<noteq> j"
  shows "frames_apart (span_frame (gstore s ! (table_spans s ! i))) (span_frame (gstore s ! (table_spans s ! j))) \<and>
    bfc_owns (cfm_mem fm) (span_Data (gstore s) (table_spans s ! i)) (span_Size (gstore s) (table_spans s ! i))"
proof -
  let ?f = "\<lambda>k. span_frame (gstore s ! (table_spans s ! k))"
  have backed: "cfm_backed (bfc_sound sub_alloc sub_free blocks ok) bfc_owns fm"
    using sound size init by (rule bfc_blocks.Init_backed)
  have own: "spans_owned (cu_span_manager (pcm_gpu_union s)) (table_spans s)"
    using inv by (simp add: gpu_inv_def span_inv_def)
  have held: "?f k \<in> set (cfm_created fm)" if "k < length (table_spans s)" for k
    using own that pool by (auto simp: spans_owned_def cfm_held_def)
  have "?f i \<noteq> ?f j"
    using own ij by (auto simp: spans_owned_def distinct_conv_nth)
  then have "frames_apart (?f i) (?f j)"
    by (rule bfc_blocks.backed_apart [OF backed held [OF ij(1)] held [OF ij(2)]])
  moreover have "bfc_owns (cfm_mem fm) (frame_data (?f i)) (frame_bytes (?f i))"
    using backed held [OF ij(1)] by (auto simp: cfm_backed_def)
  ultimately show ?thesis by (simp add: span_Data_def span_Size_def)
qed

text \<open>A pool of two frames over the small allocator, and a cache with one node in them.\<close>

definition mem_frame :: "addr \<Rightarrow> cache_frame" where
  "mem_frame a = \<lparr>frame_data = a, frame_bytes = 300, frame_tag = ''frame'', frame_device = CUDA\<rparr>"

definition mem_pool :: "(addr \<times> (addr \<times> nat) list) bfc concurrent_fm" where
  "mem_pool =
     \<lparr>cfm_device_type = CUDA, cfm_initialized = True, cfm_free_frames = [mem_frame 4096, mem_frame 4608],
      cfm_free_frame_count = 2, cfm_total_frame_count = 2, cfm_frame_size = 300, cfm_init_frames = 2,
      cfm_mem = demo2, cfm_created = [mem_frame 4096, mem_frame 4608]\<rparr>"

definition mem_cache :: "(nat, (addr \<times> (addr \<times> nat) list) bfc) pcm" where
  "mem_cache =
     \<lparr>pcm_gpu_union = \<lparr>cu_device_type = CUDA, cu_capacity = 1, cu_evictor = [0],
        cu_span_manager =
          \<lparr>csm_frame_manager = mem_pool\<lparr>cfm_free_frames := [], cfm_free_frame_count := 0\<rparr>,
           csm_span_size = 300, csm_initialized = True,
           csm_store = map (\<lambda>a. \<lparr>span_frame = mem_frame a, span_tag = [], span_has_extra_ref = True\<rparr>) [4096, 4608]\<rparr>,
        cu_hash_table = [(''a'', 0)]\<rparr>,
      pcm_cpu_union = CacheUnion_new CPU 0 (csm_new (cfm_new CPU 0 demo0)),
      pcm_nodes = [demo_node 0 0 5 ''a''], pcm_cpu_workspace = None,
      pcm_max_span_num = 8, pcm_gpu_workspace_size = 64, pcm_gpu_data = (\<lambda>a. a), pcm_cpu_data = (\<lambda>_. 0),
      pcm_tasks = [], pcm_token_per_span = 16, pcm_layer_num = 1, pcm_hit_cnt = 0, pcm_miss_cnt = 0,
      pcm_time_to_live_sec = 300, pcm_seq_len_thre = 0\<rparr>"

lemma mem_pool_init:
  "cfm_Init enq_reliable (bfc_device_alloc demo_alloc demo_free) dealloc 300 (cfm_new CUDA 2 demo0) = ret () mem_pool"
  by (simp add: cfm_Init_def cfm_new_def numeral_2_eq_2 cfm_createFrame_def CacheFrame_Create_def
      bfc_device_alloc_def BFC_Alloc_def demo_runs enq_reliable_def mem_pool_def mem_frame_def)

lemma mem_cache_spans: "table_spans mem_cache = [0, 1]"
  by (simp add: table_spans_def mem_cache_def node_spans_def spans_upto_def demo_node_def)

lemma mem_cache_inv: "gpu_inv mem_cache"
  unfolding gpu_inv_def span_inv_def mem_cache_spans spans_owned_def
  by (auto simp: table_inv_def mem_cache_def demo_node_def DEFAULT_HASH_STR_def mem_pool_def mem_frame_def
      cfm_inv_def cfm_held_def HasExtraRef_def)

theorem cached_spans_disjoint_memory_witness:
  "frames_apart (span_frame (gstore mem_cache ! 0)) (span_frame (gstore mem_cache ! 1))"
proof -
  have "bfc_sound demo_alloc demo_free demo_blocks demo_ok demo0"
    using demo_laws demo0_inv(1) by (simp add: bfc_sound_def)
  moreover have "cfm_created (gfm mem_cache) = cfm_created mem_pool" by (simp add: mem_cache_def)
  ultimately show ?thesis
    using cached_spans_disjoint_memory [OF _ _ mem_pool_init mem_cache_inv, of demo_blocks demo_ok 0 1]
    unfolding mem_cache_spans by simp
qed

end
